(* ===== verification/Prelude.thy ===== *)
theory Prelude
  imports Main "HOL-Library.Word"
begin

text \<open>
  Shared vocabulary of the development: names of the machine types, the byte buffers the
  storage code copies between (\<^term>\<open>memcpy\<close> with its bounds made explicit), substring search
  as \<open>std::string::find\<close> does it, and the lemmas on lists, maps and words every
  component theory uses.
\<close>

subsection \<open>Machine types\<close>

type_synonym u8 = "8 word"
type_synonym u16 = "16 word"
type_synonym u32 = "32 word"
type_synonym u64 = "64 word"
type_synonym f32 = "32 word"
type_synonym bytes = "u8 list"

named_theorems buffer_simps "facts that evaluate reads of copied buffers"
named_theorems word_nat "unsigned words read as natural numbers"

subsection \<open>Unsigned arithmetic without wrap-around\<close>

lemma unat_add_no_wrap [word_nat]:
  fixes a b :: "'a::len word"
  assumes "unat a + unat b < 2 ^ LENGTH('a)"
  shows "unat (a + b) = unat a + unat b"
  using assms by (simp add: unat_word_ariths(1))

lemma unat_add_64 [word_nat]:
  fixes a b :: u64
  assumes "unat a + unat b < 18446744073709551616"
  shows "unat (a + b) = unat a + unat b"
  using unat_add_no_wrap [of a b] assms by simp

lemma unat_sub_le [word_nat]:
  fixes a b :: "'a::len word"
  assumes "b \<le> a"
  shows "unat (a - b) = unat a - unat b"
  using assms by (simp add: unat_sub)

subsection \<open>Buffers\<close>

text \<open>
  \<open>std::memcpy(dst + doff, src + soff, n)\<close>. The C++ code has undefined behaviour when a range
  leaves its buffer; the model makes that a value (\<^const>\<open>None\<close>), so that a theorem saying an
  operation returns \<^const>\<open>Some\<close> is a memory-safety statement.
\<close>

definition memcpy :: "'a list \<Rightarrow> nat \<Rightarrow> 'a list \<Rightarrow> nat \<Rightarrow> nat \<Rightarrow> 'a list option" where
  "memcpy dst doff src soff n =
     (if doff + n \<le> length dst \<and> soff + n \<le> length src
      then Some (take doff dst @ take n (drop soff src) @ drop (doff + n) dst)
      else None)"

definition slice :: "'a list \<Rightarrow> nat \<Rightarrow> nat \<Rightarrow> 'a list" where
  "slice xs off n = take n (drop off xs)"

lemma memcpy_Some_iff:
  "(\<exists>r. memcpy dst doff src soff n = Some r) \<longleftrightarrow>
     doff + n \<le> length dst \<and> soff + n \<le> length src"
  by (simp add: memcpy_def)

lemma memcpy_in_range:
  assumes "doff + n \<le> length dst" "soff + n \<le> length src"
  obtains r where "memcpy dst doff src soff n = Some r"
  using assms by (simp add: memcpy_def)

lemma length_memcpy: "memcpy dst doff src soff n = Some r \<Longrightarrow> length r = length dst"
  by (auto simp: memcpy_def split: if_splits)

lemma length_slice [simp]: "off + n \<le> length xs \<Longrightarrow> length (slice xs off n) = n"
  by (simp add: slice_def)

lemma slice_0_all [simp]: "slice xs 0 (length xs) = xs"
  by (simp add: slice_def)

lemma slice_len_0 [simp]: "slice xs off 0 = []"
  by (simp add: slice_def)

lemma slice_append_left: "off + n \<le> length xs \<Longrightarrow> slice (xs @ ys) off n = slice xs off n"
  by (simp add: slice_def)

lemma slice_append_right:
  "length xs \<le> off \<Longrightarrow> slice (xs @ ys) off n = slice ys (off - length xs) n"
  by (simp add: slice_def)

text \<open>Reading back what a copy wrote, and what it left alone.\<close>

lemma slice_memcpy_same [buffer_simps]:
  assumes "memcpy dst doff src soff n = Some r"
  shows "slice r doff n = slice src soff n"
  using assms by (auto simp: memcpy_def slice_def split: if_splits)

lemma memcpy_nth:
  assumes "memcpy dst doff src soff n = Some r" and "i < length dst"
  shows "r ! i = (if doff \<le> i \<and> i < doff + n then src ! (soff + (i - doff)) else dst ! i)"
proof -
  let ?mid = "take n (drop soff src)"
  have r: "r = take doff dst @ ?mid @ drop (doff + n) dst"
    and d: "doff + n \<le> length dst" and s: "soff + n \<le> length src"
    using assms(1) by (auto simp: memcpy_def split: if_splits)
  have lm: "length ?mid = n" and ld: "length (take doff dst) = doff" using d s by auto
  consider "i < doff" | "doff \<le> i" "i < doff + n" | "doff + n \<le> i" by linarith
  then show ?thesis
  proof cases
    case 1
    then show ?thesis using ld by (simp add: r nth_append)
  next
    case 2
    then have "i - doff < n" by auto
    with 2 show ?thesis using ld lm s by (simp add: r nth_append)
  next
    case 3
    then have "r ! i = drop (doff + n) dst ! (i - doff - n)"
      using ld lm by (simp add: r nth_append)
    also have "\<dots> = dst ! i" using 3 d assms(2) by simp
    finally show ?thesis using 3 by simp
  qed
qed

lemma slice_eqI:
  assumes "length xs = length ys" and "off + n \<le> length xs"
    and "\<And>i. off \<le> i \<Longrightarrow> i < off + n \<Longrightarrow> xs ! i = ys ! i"
  shows "slice xs off n = slice ys off n"
proof (rule nth_equalityI)
  show "length (slice xs off n) = length (slice ys off n)"
    using assms(1,2) by simp
  fix i
  assume "i < length (slice xs off n)"
  then have "i < n" using assms(2) by simp
  then show "slice xs off n ! i = slice ys off n ! i"
    using assms by (simp add: slice_def)
qed

lemma slice_memcpy_disjoint [buffer_simps]:
  assumes "memcpy dst doff src soff n = Some r"
    and "off + k \<le> length dst"
    and "off + k \<le> doff \<or> doff + n \<le> off"
  shows "slice r off k = slice dst off k"
proof (rule slice_eqI)
  show "length r = length dst" using assms(1) by (rule length_memcpy)
  then show "off + k \<le> length r" using assms(2) by simp
  fix i
  assume "off \<le> i" "i < off + k"
  then have "i < length dst" "\<not> (doff \<le> i \<and> i < doff + n)" using assms(2,3) by auto
  then show "r ! i = dst ! i"
    using memcpy_nth [OF assms(1), of i] by auto
qed

subsection \<open>Substring search\<close>

text \<open>\<open>s.find(pat)\<close>: the least position at which \<open>pat\<close> occurs, \<^const>\<open>None\<close> for \<open>npos\<close>.\<close>

fun str_find :: "'a list \<Rightarrow> 'a list \<Rightarrow> nat option" where
  "str_find pat s =
     (if take (length pat) s = pat then Some 0
      else case s of [] \<Rightarrow> None | _ # s' \<Rightarrow> map_option Suc (str_find pat s'))"

declare str_find.simps [simp del]

definition str_contains :: "'a list \<Rightarrow> 'a list \<Rightarrow> bool" where
  "str_contains pat s \<longleftrightarrow> str_find pat s \<noteq> None"

lemma str_find_Nil [simp]: "str_find pat [] = (if pat = [] then Some 0 else None)"
  by (subst str_find.simps) auto

lemma str_find_Cons:
  "str_find pat (c # s) =
     (if take (length pat) (c # s) = pat then Some 0 else map_option Suc (str_find pat s))"
  by (subst str_find.simps) simp

lemma str_find_occurs: "str_find pat s = Some p \<Longrightarrow> take (length pat) (drop p s) = pat"
proof (induction s arbitrary: p)
  case Nil
  then show ?case by (auto split: if_splits)
next
  case (Cons c s)
  then show ?case by (auto simp: str_find_Cons split: if_splits)
qed

lemma str_find_first:
  "str_find pat s = Some p \<Longrightarrow> q < p \<Longrightarrow> take (length pat) (drop q s) \<noteq> pat"
proof (induction s arbitrary: p q)
  case Nil
  then show ?case by (auto split: if_splits)
next
  case (Cons c s)
  then show ?case by (cases q) (auto simp: str_find_Cons split: if_splits)
qed

lemma str_find_None_iff:
  "str_find pat s = None \<longleftrightarrow> (\<forall>q \<le> length s. take (length pat) (drop q s) \<noteq> pat)"
proof (induction s)
  case Nil
  then show ?case by auto
next
  case (Cons c s)
  have "(\<forall>q \<le> length (c # s). take (length pat) (drop q (c # s)) \<noteq> pat) \<longleftrightarrow>
      take (length pat) (c # s) \<noteq> pat \<and>
      (\<forall>q \<le> length s. take (length pat) (drop q s) \<noteq> pat)"
  proof (intro iffI conjI allI impI)
    fix q
    assume *: "\<forall>q \<le> length (c # s). take (length pat) (drop q (c # s)) \<noteq> pat"
    show "take (length pat) (c # s) \<noteq> pat" using * [rule_format, of 0] by simp
    assume "q \<le> length s"
    then show "take (length pat) (drop q s) \<noteq> pat" using * [rule_format, of "Suc q"] by simp
  next
    fix q
    assume *: "take (length pat) (c # s) \<noteq> pat \<and>
      (\<forall>q \<le> length s. take (length pat) (drop q s) \<noteq> pat)" and "q \<le> length (c # s)"
    then show "take (length pat) (drop q (c # s)) \<noteq> pat" by (cases q) auto
  qed
  with Cons.IH show ?case by (simp add: str_find_Cons)
qed

lemma str_containsI:
  assumes "s = a @ pat @ b"
  shows "str_contains pat s"
proof -
  have "take (length pat) (drop (length a) s) = pat" and "length a \<le> length s"
    using assms by simp_all
  then show ?thesis by (auto simp: str_contains_def str_find_None_iff)
qed

lemma str_containsE:
  assumes "str_contains pat s"
  obtains a b where "s = a @ pat @ b"
proof -
  from assms obtain p where "str_find pat s = Some p" by (auto simp: str_contains_def)
  then have "take (length pat) (drop p s) = pat" by (rule str_find_occurs)
  then have "s = take p s @ pat @ drop (length pat) (drop p s)"
    by (metis append_take_drop_id)
  then show thesis by (rule that)
qed

subsection \<open>Histories of operations\<close>

fun run_steps :: "('o \<Rightarrow> 's \<Rightarrow> 's option) \<Rightarrow> 'o list \<Rightarrow> 's \<Rightarrow> 's option" where
  "run_steps step [] s = Some s"
| "run_steps step (a # as) s = Option.bind (step a s) (run_steps step as)"

fun last_written :: "('o \<Rightarrow> 'x \<Rightarrow> 'v option) \<Rightarrow> 'o list \<Rightarrow> 'x \<Rightarrow> 'v option" where
  "last_written written [] x = None"
| "last_written written (a # as) x =
     (case last_written written as x of Some v \<Rightarrow> Some v | None \<Rightarrow> written a x)"

lemma run_steps_inv:
  assumes "\<And>a s. ok s \<Longrightarrow> op_ok a \<Longrightarrow> \<exists>s'. step a s = Some s' \<and> ok s'"
  shows "ok s \<Longrightarrow> \<forall>a \<in> set as. op_ok a \<Longrightarrow> \<exists>s'. run_steps step as s = Some s' \<and> ok s'"
proof (induction as arbitrary: s)
  case (Cons a as)
  then obtain s1 where "step a s = Some s1" "ok s1" using assms [of s a] by auto
  then show ?case using Cons by simp
qed simp

text \<open>
  A store of slots: every operation returns, writes the slots it says it writes and leaves what is
  readable in the others. Then a slot holds what the last operation on it wrote.
\<close>

locale slot_store =
  fixes ok :: "'s \<Rightarrow> bool"
    and op_ok :: "'o \<Rightarrow> bool"
    and step :: "'o \<Rightarrow> 's \<Rightarrow> 's option"
    and written :: "'o \<Rightarrow> 'x \<Rightarrow> 'v option"
    and read :: "'x \<Rightarrow> 's \<Rightarrow> 'v option"
  assumes step_ok: "ok s \<Longrightarrow> op_ok a \<Longrightarrow> \<exists>s'. step a s = Some s' \<and> ok s'"
    and read_written: "ok s \<Longrightarrow> op_ok a \<Longrightarrow> step a s = Some s' \<Longrightarrow> written a x = Some v \<Longrightarrow>
      read x s' = Some v"
    and read_frame: "ok s \<Longrightarrow> op_ok a \<Longrightarrow> step a s = Some s' \<Longrightarrow> written a x = None \<Longrightarrow>
      read x s = Some v \<Longrightarrow> read x s' = Some v"
begin

lemma read_last_written:
  assumes "ok s" "\<forall>a \<in> set as. op_ok a" "run_steps step as s = Some s'"
    and "(case last_written written as x of Some w \<Rightarrow> Some w | None \<Rightarrow> read x s) = Some v"
  shows "read x s' = Some v"
  using assms
proof (induction as arbitrary: s)
  case Nil
  then show ?case by simp
next
  case (Cons a as)
  then obtain s1 where s1: "step a s = Some s1" "ok s1" "run_steps step as s1 = Some s'"
    using step_ok [of s a] by auto
  show ?case
  proof (rule Cons.IH [OF s1(2) _ s1(3)])
    show "\<forall>a \<in> set as. op_ok a" using Cons.prems by simp
    show "(case last_written written as x of Some w \<Rightarrow> Some w | None \<Rightarrow> read x s1) = Some v"
      using Cons.prems read_written [OF Cons.prems(1) _ s1(1), of x]
        read_frame [OF Cons.prems(1) _ s1(1), of x]
      by (auto split: option.splits)
  qed
qed

end

end
