(* ===== verification/LruCache.thy ===== *)
theory LruCache
  imports Prelude Complex_Main "HOL-Library.Multiset"
begin

text \<open>
  \<open>storage/lru_cache.h\<close>: the byte-counted expert cache \<open>ExpertLRU\<close>. The recency list and the hash
  map are kept as the class keeps them (\<open>lruOrder\<close> with the most recent key first, \<open>lru_map\<close>);
  the iterator an \<open>Entry\<close> stores is represented by its key, which \<open>lru_inv\<close> shows to occur exactly
  once in the list. Byte counts are 64-bit words and wrap as \<open>size_t\<close> does. Every method runs
  under the class's mutex, so each is one atomic step here.
\<close>

subsection \<open>Keys, buffers and entries\<close>

datatype expert_key = ExpertKey (ek_layer: u32) (ek_id: u16)

instantiation expert_key :: linorder
begin

definition less_eq_expert_key :: "expert_key \<Rightarrow> expert_key \<Rightarrow> bool" where
  "less_eq_expert_key a b \<longleftrightarrow>
     ek_layer a < ek_layer b \<or> (ek_layer a = ek_layer b \<and> ek_id a \<le> ek_id b)"

definition less_expert_key :: "expert_key \<Rightarrow> expert_key \<Rightarrow> bool" where
  "less_expert_key a b \<longleftrightarrow>
     ek_layer a < ek_layer b \<or> (ek_layer a = ek_layer b \<and> ek_id a < ek_id b)"

instance
  by standard (auto simp: less_eq_expert_key_def less_expert_key_def expert_key.expand)

end

definition key_eq :: "expert_key \<Rightarrow> expert_key \<Rightarrow> bool" where
  "key_eq a b \<longleftrightarrow> ek_layer a = ek_layer b \<and> ek_id a = ek_id b"

definition key_hash :: "expert_key \<Rightarrow> u64" where
  "key_hash k = or (push_bit 16 (ucast (ek_layer k))) (ucast (ek_id k))"

record buffer_handle =
  bh_data :: bytes
  bh_size :: u64

definition BufferHandle :: "u64 \<Rightarrow> buffer_handle" where
  "BufferHandle sz = \<lparr>bh_data = replicate (unat sz) 0, bh_size = sz\<rparr>"

definition BufferHandle_default :: buffer_handle where
  "BufferHandle_default = \<lparr>bh_data = [], bh_size = 0\<rparr>"

record lru_entry =
  le_handle :: buffer_handle
  le_pinned :: bool
  le_prefetched :: bool
  le_used :: bool
  le_protect :: int

definition Entry_default :: lru_entry where
  "Entry_default = \<lparr>le_handle = BufferHandle_default, le_pinned = False, le_prefetched = False,
     le_used = False, le_protect = 0\<rparr>"

record expert_lru =
  lru_capacity :: u64
  lru_used :: u64
  evictedUnused :: u64
  lruOrder :: "expert_key list"
  lru_map :: "expert_key \<rightharpoonup> lru_entry"
  hitCount :: u64
  missCount :: u64

subsection \<open>Operations\<close>

definition ExpertLRU :: "u64 \<Rightarrow> expert_lru" where
  "ExpertLRU capacityBytes = \<lparr>lru_capacity = capacityBytes, lru_used = 0, evictedUnused = 0,
     lruOrder = [], lru_map = Map.empty, hitCount = 0, missCount = 0\<rparr>"

definition lru_resize :: "u64 \<Rightarrow> expert_lru \<Rightarrow> expert_lru" where
  "lru_resize newCapacity c = c\<lparr>lru_capacity := newCapacity, lruOrder := [], lru_map := Map.empty,
     lru_used := 0, hitCount := 0, missCount := 0\<rparr>"

definition splice_front :: "expert_key \<Rightarrow> expert_key list \<Rightarrow> expert_key list" where
  "splice_front k ord = k # remove1 k ord"

definition lru_touch :: "expert_key \<Rightarrow> lru_entry \<Rightarrow> expert_lru \<Rightarrow> expert_lru" where
  "lru_touch k e c = c\<lparr>hitCount := hitCount c + 1,
     lru_map := (lru_map c)(k \<mapsto> e\<lparr>le_used := True\<rparr>),
     lruOrder := splice_front k (lruOrder c)\<rparr>"

definition lru_acquire :: "expert_key \<Rightarrow> expert_lru \<Rightarrow> buffer_handle option \<times> expert_lru" where
  "lru_acquire k c = (case lru_map c k of
     None \<Rightarrow> (None, c\<lparr>missCount := missCount c + 1\<rparr>)
   | Some e \<Rightarrow> (Some (le_handle e), lru_touch k e c))"

text \<open>
  The caller's buffer is \<open>dest\<close>, of which it says \<open>destSize\<close> bytes are writable; the outer option
  is the undefined behaviour of a copy that leaves a buffer.
\<close>

definition lru_copyTo ::
    "expert_key \<Rightarrow> bytes \<Rightarrow> u64 \<Rightarrow> expert_lru \<Rightarrow> (bool \<times> bytes \<times> expert_lru) option" where
  "lru_copyTo k dest destSize c = (case lru_map c k of
     None \<Rightarrow> Some (False, dest, c\<lparr>missCount := missCount c + 1\<rparr>)
   | Some e \<Rightarrow>
       let c' = lru_touch k e c in
       if destSize < bh_size (le_handle e) then Some (False, dest, c')
       else case memcpy dest 0 (bh_data (le_handle e)) 0 (unat (bh_size (le_handle e))) of
              None \<Rightarrow> None
            | Some dest' \<Rightarrow> Some (True, dest', c'))"

definition map_index :: "expert_key \<Rightarrow> (expert_key \<rightharpoonup> lru_entry) \<Rightarrow> lru_entry" where
  "map_index k m = (case m k of None \<Rightarrow> Entry_default | Some e \<Rightarrow> e)"

fun evict_scan :: "expert_key list \<Rightarrow> expert_lru \<Rightarrow> bool \<times> expert_lru" where
  "evict_scan [] c = (False, c)"
| "evict_scan (k # ks) c =
     (let e = map_index k (lru_map c); c1 = c\<lparr>lru_map := (lru_map c)(k \<mapsto> e)\<rparr> in
      if le_pinned e then evict_scan ks c1
      else if 0 < le_protect e then
        evict_scan ks (c1\<lparr>lru_map := (lru_map c1)(k \<mapsto> e\<lparr>le_protect := le_protect e - 1\<rparr>)\<rparr>)
      else
        (True, c1\<lparr>
           evictedUnused :=
             (if le_prefetched e \<and> \<not> le_used e then evictedUnused c + 1 else evictedUnused c),
           lru_used := lru_used c - bh_size (le_handle e),
           lru_map := (lru_map c1)(k := None),
           lruOrder := remove1 k (lruOrder c)\<rparr>))"

definition evictOne :: "expert_lru \<Rightarrow> bool \<times> expert_lru" where
  "evictOne c = evict_scan (rev (lruOrder c)) c"

fun evict_until :: "nat \<Rightarrow> u64 \<Rightarrow> expert_lru \<Rightarrow> expert_lru" where
  "evict_until 0 sz c = c"
| "evict_until (Suc guard) sz c =
     (if lru_capacity c < lru_used c + sz \<and> lruOrder c \<noteq> [] then
        (case evictOne c of (False, c') \<Rightarrow> c' | (True, c') \<Rightarrow> evict_until guard sz c')
      else c)"

definition lru_drop :: "expert_key \<Rightarrow> expert_lru \<Rightarrow> expert_lru" where
  "lru_drop k c = (case lru_map c k of
     None \<Rightarrow> c
   | Some e \<Rightarrow> c\<lparr>lru_used := lru_used c - bh_size (le_handle e),
        lruOrder := remove1 k (lruOrder c), lru_map := (lru_map c)(k := None)\<rparr>)"

definition lru_insert ::
    "expert_key \<Rightarrow> buffer_handle \<Rightarrow> bool \<Rightarrow> expert_lru \<Rightarrow> bool \<times> expert_lru" where
  "lru_insert k handle fromPrefetch c =
     (let sz = bh_size handle in
      if lru_capacity c < sz then (False, c)
      else
        let c1 = lru_drop k c; c2 = evict_until (length (lruOrder c1)) sz c1 in
        if lru_capacity c2 < lru_used c2 + sz then (False, c2)
        else
          (True, c2\<lparr>
             lru_map := (lru_map c2)(k \<mapsto> (map_index k (lru_map c2))\<lparr>le_handle := handle,
               le_prefetched := fromPrefetch, le_used := False\<rparr>),
             lruOrder := k # lruOrder c2,
             lru_used := lru_used c2 + sz\<rparr>))"

definition lru_pin :: "expert_key \<Rightarrow> expert_lru \<Rightarrow> expert_lru" where
  "lru_pin k c = (case lru_map c k of
     None \<Rightarrow> c
   | Some e \<Rightarrow> c\<lparr>lru_map := (lru_map c)(k \<mapsto> e\<lparr>le_pinned := True\<rparr>)\<rparr>)"

definition lru_boost :: "expert_key \<Rightarrow> int \<Rightarrow> expert_lru \<Rightarrow> expert_lru" where
  "lru_boost k protectCycles c = (case lru_map c k of
     None \<Rightarrow> c
   | Some e \<Rightarrow> c\<lparr>
        lru_map := (lru_map c)(k \<mapsto> e\<lparr>le_protect := max (le_protect e) protectCycles\<rparr>),
        lruOrder := splice_front k (lruOrder c)\<rparr>)"

definition lru_contains :: "expert_key \<Rightarrow> expert_lru \<Rightarrow> bool" where
  "lru_contains k c \<longleftrightarrow> lru_map c k \<noteq> None"

definition lru_hitRate :: "expert_lru \<Rightarrow> rat" where
  "lru_hitRate c = (let total = hitCount c + missCount c in
     if total = 0 then 0 else rat_of_nat (unat (hitCount c)) / rat_of_nat (unat total))"

subsection \<open>The cache invariant\<close>

text \<open>
  \<open>held c\<close> is the number of bytes of the resident entries. The bound on the capacity is what
  keeps \<open>used_ + sz\<close> from wrapping: both are at most the capacity.
\<close>

definition handle_ok :: "buffer_handle \<Rightarrow> bool" where
  "handle_ok h \<longleftrightarrow> length (bh_data h) = unat (bh_size h)"

definition entry_size :: "(expert_key \<rightharpoonup> lru_entry) \<Rightarrow> expert_key \<Rightarrow> nat" where
  "entry_size m k = (case m k of None \<Rightarrow> 0 | Some e \<Rightarrow> unat (bh_size (le_handle e)))"

definition held :: "expert_lru \<Rightarrow> nat" where
  "held c = sum_list (map (entry_size (lru_map c)) (lruOrder c))"

definition lru_inv :: "expert_lru \<Rightarrow> bool" where
  "lru_inv c \<longleftrightarrow>
     unat (lru_capacity c) < 2 ^ 63 \<and>
     distinct (lruOrder c) \<and> set (lruOrder c) = dom (lru_map c) \<and>
     (\<forall>k e. lru_map c k = Some e \<longrightarrow> handle_ok (le_handle e)) \<and>
     unat (lru_used c) = held c \<and> held c \<le> unat (lru_capacity c)"

lemma lru_invD:
  assumes "lru_inv c"
  shows "unat (lru_capacity c) < 2 ^ 63" "distinct (lruOrder c)"
    "set (lruOrder c) = dom (lru_map c)"
    "\<And>k e. lru_map c k = Some e \<Longrightarrow> handle_ok (le_handle e)"
    "unat (lru_used c) = held c" "held c \<le> unat (lru_capacity c)"
  using assms by (auto simp: lru_inv_def)

named_theorems lru_ops "definitions of the cache's operations"

declare lru_touch_def [lru_ops] lru_acquire_def [lru_ops] lru_copyTo_def [lru_ops]
  lru_pin_def [lru_ops] lru_boost_def [lru_ops] lru_drop_def [lru_ops] splice_front_def [lru_ops]

lemma entry_size_upd_same:
  assumes "m k = Some e" "le_handle e' = le_handle e"
  shows "entry_size (m(k \<mapsto> e')) = entry_size m"
  using assms by (auto simp: entry_size_def fun_eq_iff)

lemma sum_entry_remove:
  assumes "distinct ord" "k \<in> set ord"
  shows "sum_list (map f ord) = (f k :: nat) + sum_list (map f (remove1 k ord))"
  using assms(2) by (rule sum_list_map_remove1)

lemma sum_entry_upd_other:
  assumes "k \<notin> set ord"
  shows "sum_list (map (entry_size (m(k := v))) ord) = sum_list (map (entry_size m) ord)"
  using assms by (intro arg_cong [where f = sum_list] map_cong) (auto simp: entry_size_def)

lemma held_entry_le:
  assumes "lru_map c k = Some e" "k \<in> set (lruOrder c)"
  shows "unat (bh_size (le_handle e)) \<le> held c"
proof -
  have "entry_size (lru_map c) k \<le> held c"
    unfolding held_def using assms(2) by (intro member_le_sum_list) auto
  then show ?thesis using assms(1) by (simp add: entry_size_def)
qed

lemma ExpertLRU_inv: "unat cap < 2 ^ 63 \<Longrightarrow> lru_inv (ExpertLRU cap)"
  by (simp add: lru_inv_def ExpertLRU_def held_def)

lemma lru_resize_inv: "unat cap < 2 ^ 63 \<Longrightarrow> lru_inv (lru_resize cap c)"
  by (simp add: lru_inv_def lru_resize_def held_def)

text \<open>Updates that keep each entry's handle, and reorderings, keep the invariant.\<close>

lemma lru_inv_upd_entry:
  assumes "lru_inv c" "lru_map c k = Some e" "le_handle e' = le_handle e"
    "lru_map c' = (lru_map c)(k \<mapsto> e')" "lru_capacity c' = lru_capacity c"
    "lru_used c' = lru_used c" "distinct (lruOrder c')" "set (lruOrder c') = set (lruOrder c)"
  shows "lru_inv c'"
proof -
  note i = lru_invD [OF assms(1)]
  have "mset (lruOrder c') = mset (lruOrder c)"
    using assms(7,8) i(2) by (simp add: set_eq_iff_mset_eq_distinct)
  then have "mset (map (entry_size (lru_map c)) (lruOrder c'))
      = mset (map (entry_size (lru_map c)) (lruOrder c))"
    by simp
  then have h: "held c' = held c"
    unfolding held_def assms(4) entry_size_upd_same [of "lru_map c" k e e', OF assms(2,3)]
    by (metis sum_mset_sum_list)
  show ?thesis
    using i assms h by (auto simp: lru_inv_def)
qed

lemma set_splice_front: "k \<in> set ord \<Longrightarrow> distinct ord \<Longrightarrow>
    distinct (splice_front k ord) \<and> set (splice_front k ord) = set ord"
  by (auto simp: splice_front_def)

lemma lru_inv_counters:
  "lru_inv (c\<lparr>missCount := n\<rparr>) = lru_inv c"
  by (simp add: lru_inv_def held_def)

lemma lru_touch_inv:
  assumes "lru_inv c" "lru_map c k = Some e"
  shows "lru_inv (lru_touch k e c)"
proof -
  have "k \<in> set (lruOrder c)" using lru_invD(3) [OF assms(1)] assms(2) by auto
  then show ?thesis
    using set_splice_front lru_invD(2) [OF assms(1)]
    by (intro lru_inv_upd_entry [OF assms, of "e\<lparr>le_used := True\<rparr>"]) (auto simp: lru_touch_def)
qed

lemma lru_acquire_inv: "lru_inv c \<Longrightarrow> lru_inv (snd (lru_acquire k c))"
  by (auto simp: lru_acquire_def lru_inv_counters lru_touch_inv split: option.splits)

lemma lru_copyTo_inv: "lru_inv c \<Longrightarrow> lru_copyTo k d n c = Some (b, d', c') \<Longrightarrow> lru_inv c'"
  by (auto simp: lru_copyTo_def lru_inv_counters lru_touch_inv Let_def
      split: option.splits if_splits)

lemma lru_pin_inv: "lru_inv c \<Longrightarrow> lru_inv (lru_pin k c)"
  by (cases "lru_map c k")
    (auto simp: lru_pin_def lru_invD(2) intro!: lru_inv_upd_entry [of c k _ "_\<lparr>le_pinned := True\<rparr>"])

lemma lru_boost_inv:
  assumes "lru_inv c"
  shows "lru_inv (lru_boost k n c)"
proof (cases "lru_map c k")
  case (Some e)
  then have "k \<in> set (lruOrder c)" using lru_invD(3) [OF assms(1)] by auto
  with Some show ?thesis
    using set_splice_front lru_invD(2) [OF assms(1)]
    by (intro lru_inv_upd_entry [OF assms Some]) (auto simp: lru_boost_def)
qed (simp add: lru_boost_def assms)

lemma lru_drop_inv:
  assumes "lru_inv c"
  shows "lru_inv (lru_drop k c)"
proof (cases "lru_map c k")
  case (Some e)
  note i = lru_invD [OF assms]
  have k: "k \<in> set (lruOrder c)" using i(3) Some by auto
  have "held c = unat (bh_size (le_handle e)) + held (lru_drop k c)"
    unfolding held_def
    by (simp add: sum_entry_remove [OF i(2) k] lru_drop_def Some sum_entry_upd_other i(2))
      (simp add: entry_size_def Some)
  moreover from this have "bh_size (le_handle e) \<le> lru_used c"
    using i(5) by (simp add: word_le_nat_alt)
  ultimately show ?thesis
    using i Some by (auto simp: lru_inv_def lru_drop_def unat_sub_le split: if_splits)
qed (simp add: lru_drop_def assms)

text \<open>
  What eviction may do to a cache: entries disappear or lose protection, nothing else changes, and
  a pinned entry is not touched at all.
\<close>

definition entry_kept :: "lru_entry \<Rightarrow> lru_entry \<Rightarrow> bool" where
  "entry_kept e e' \<longleftrightarrow> (\<exists>n \<le> le_protect e. e' = e\<lparr>le_protect := n\<rparr> \<and> (le_pinned e \<longrightarrow> e' = e))"

definition lru_shrinks :: "expert_lru \<Rightarrow> expert_lru \<Rightarrow> bool" where
  "lru_shrinks c c' \<longleftrightarrow>
     lru_capacity c' = lru_capacity c \<and>
     (\<forall>k. case lru_map c k of None \<Rightarrow> lru_map c' k = None
        | Some e \<Rightarrow> (case lru_map c' k of None \<Rightarrow> \<not> le_pinned e | Some e' \<Rightarrow> entry_kept e e'))"

lemma entry_kept_refl [simp]: "entry_kept e e"
  by (auto simp: entry_kept_def intro!: exI [of _ "le_protect e"])

lemma entry_kept_trans: "entry_kept e e' \<Longrightarrow> entry_kept e' e'' \<Longrightarrow> entry_kept e e''"
  unfolding entry_kept_def by (cases e) fastforce

lemma entry_kept_fields:
  assumes "entry_kept e e'"
  shows "le_handle e' = le_handle e" "le_pinned e' = le_pinned e" "le_pinned e \<Longrightarrow> e' = e"
    "le_prefetched e' = le_prefetched e" "le_used e' = le_used e" "le_protect e' \<le> le_protect e"
  using assms by (auto simp: entry_kept_def)

lemma lru_shrinks_refl [simp]: "lru_shrinks c c"
  by (simp add: lru_shrinks_def split: option.split)

lemma lru_shrinks_trans:
  assumes "lru_shrinks a b" "lru_shrinks b c"
  shows "lru_shrinks a c"
  unfolding lru_shrinks_def
proof (intro conjI allI)
  show "lru_capacity c = lru_capacity a" using assms by (simp add: lru_shrinks_def)
  fix k
  have "case lru_map a k of None \<Rightarrow> lru_map b k = None
        | Some e \<Rightarrow> (case lru_map b k of None \<Rightarrow> \<not> le_pinned e | Some e' \<Rightarrow> entry_kept e e')"
    and "case lru_map b k of None \<Rightarrow> lru_map c k = None
        | Some e \<Rightarrow> (case lru_map c k of None \<Rightarrow> \<not> le_pinned e | Some e' \<Rightarrow> entry_kept e e')"
    using assms by (auto simp: lru_shrinks_def)
  then show "case lru_map a k of None \<Rightarrow> lru_map c k = None
        | Some e \<Rightarrow> (case lru_map c k of None \<Rightarrow> \<not> le_pinned e | Some e' \<Rightarrow> entry_kept e e')"
    by (auto split: option.splits dest: entry_kept_trans simp: entry_kept_fields(2))
qed

lemma lru_shrinks_pinned:
  "lru_shrinks c c' \<Longrightarrow> lru_map c k = Some e \<Longrightarrow> le_pinned e \<Longrightarrow> lru_map c' k = Some e"
  unfolding lru_shrinks_def
  by (drule conjunct2, drule spec [of _ k]) (auto split: option.splits dest: entry_kept_fields(3))

lemma lru_shrinks_lookup:
  assumes "lru_shrinks c c'" "lru_map c' k = Some e'"
  obtains e where "lru_map c k = Some e" "entry_kept e e'"
  using assms unfolding lru_shrinks_def
  by (auto elim!: allE [of _ k] split: option.splits)

lemma lru_shrinks_None: "lru_shrinks c c' \<Longrightarrow> lru_map c k = None \<Longrightarrow> lru_map c' k = None"
  unfolding lru_shrinks_def by (auto elim!: allE [of _ k])

text \<open>One sweep, as a scan of a part of the recency list from its old end.\<close>

lemma evict_scan_step:
  assumes "lru_map c k = Some e"
  shows "evict_scan (k # ks) c =
     (if le_pinned e then evict_scan ks c
      else if 0 < le_protect e then
        evict_scan ks (c\<lparr>lru_map := (lru_map c)(k \<mapsto> e\<lparr>le_protect := le_protect e - 1\<rparr>)\<rparr>)
      else (True, lru_drop k c\<lparr>evictedUnused :=
         (if le_prefetched e \<and> \<not> le_used e then evictedUnused c + 1 else evictedUnused c)\<rparr>))"
proof -
  have "(lru_map c)(k \<mapsto> e) = lru_map c" using assms by auto
  then show ?thesis by (simp add: map_index_def Let_def lru_drop_def assms)
qed

declare evict_scan.simps(2) [simp del]

lemma lru_inv_evictedUnused: "lru_inv (c\<lparr>evictedUnused := n\<rparr>) = lru_inv c"
  by (simp add: lru_inv_def held_def)

lemma lru_shrinks_drop:
  "lru_map c k = Some e \<Longrightarrow> \<not> le_pinned e \<Longrightarrow> lru_shrinks c (lru_drop k c\<lparr>evictedUnused := n\<rparr>)"
  by (auto simp: lru_shrinks_def lru_drop_def split: option.split)

lemma lru_shrinks_unprotect:
  "lru_map c k = Some e \<Longrightarrow> \<not> le_pinned e \<Longrightarrow> n \<le> le_protect e \<Longrightarrow>
     lru_shrinks c (c\<lparr>lru_map := (lru_map c)(k \<mapsto> e\<lparr>le_protect := n\<rparr>)\<rparr>)"
  by (auto simp: lru_shrinks_def entry_kept_def split: option.split)

lemma length_drop_order:
  assumes "lru_map c k = Some e" "k \<in> set (lruOrder c)"
  shows "Suc (length (lruOrder (lru_drop k c))) = length (lruOrder c)"
  using assms length_pos_if_in_set [OF assms(2)] by (simp add: lru_drop_def length_remove1)

lemma evict_scan_sound:
  assumes "lru_inv c" "set ks \<subseteq> set (lruOrder c)" "evict_scan ks c = (b, c')"
  shows "lru_inv c' \<and> lru_shrinks c c' \<and>
     (if b then Suc (length (lruOrder c')) = length (lruOrder c) else lruOrder c' = lruOrder c \<and>
        lru_used c' = lru_used c)"
  using assms
proof (induction ks arbitrary: c)
  case Nil
  then show ?case by simp
next
  case (Cons k ks)
  note i = lru_invD [OF Cons.prems(1)]
  have k: "k \<in> set (lruOrder c)" using Cons.prems(2) by simp
  with i(3) obtain e where e: "lru_map c k = Some e" by auto
  consider "le_pinned e" | "\<not> le_pinned e" "0 < le_protect e" | "\<not> le_pinned e" "le_protect e \<le> 0"
    by fastforce
  then show ?case
  proof cases
    case 1
    then show ?thesis using Cons.IH [of c] Cons.prems e by (simp add: evict_scan_step)
  next
    case 2
    let ?c = "c\<lparr>lru_map := (lru_map c)(k \<mapsto> e\<lparr>le_protect := le_protect e - 1\<rparr>)\<rparr>"
    have "lru_inv ?c" using i(2) by (intro lru_inv_upd_entry [OF Cons.prems(1) e]) auto
    moreover have "lru_shrinks c ?c" using 2 e by (intro lru_shrinks_unprotect) auto
    moreover have "evict_scan ks ?c = (b, c')"
      using 2 Cons.prems(3) by (simp add: evict_scan_step [OF e])
    ultimately show ?thesis
      using Cons.IH [of ?c] Cons.prems(2) by (auto intro: lru_shrinks_trans)
  next
    case 3
    then show ?thesis
      using Cons.prems(1,3) lru_drop_inv [OF Cons.prems(1), of k] lru_shrinks_drop [OF e]
        length_drop_order [OF e k]
      by (auto simp: evict_scan_step [OF e] lru_inv_evictedUnused)
  qed
qed

lemma evictOne_sound:
  assumes "lru_inv c" "evictOne c = (b, c')"
  shows "lru_inv c'" "lru_shrinks c c'"
    "b \<Longrightarrow> Suc (length (lruOrder c')) = length (lruOrder c)"
    "\<not> b \<Longrightarrow> lru_used c' = lru_used c"
  using evict_scan_sound [OF assms(1) _ assms(2) [unfolded evictOne_def]] by auto

lemma evict_until_sound:
  "lru_inv c \<Longrightarrow> lru_inv (evict_until n sz c) \<and> lru_shrinks c (evict_until n sz c)"
proof (induction n arbitrary: c)
  case (Suc n)
  obtain b c' where ev: "evictOne c = (b, c')" by fastforce
  note s = evictOne_sound [OF Suc.prems ev]
  show ?case using Suc.prems s Suc.IH [OF s(1)] by (auto simp: ev split: bool.split intro: lru_shrinks_trans)
qed simp

subsection \<open>What an insertion does\<close>

definition fresh_entry :: "buffer_handle \<Rightarrow> bool \<Rightarrow> lru_entry" where
  "fresh_entry h p = Entry_default\<lparr>le_handle := h, le_prefetched := p\<rparr>"

definition lru_push :: "expert_key \<Rightarrow> buffer_handle \<Rightarrow> bool \<Rightarrow> expert_lru \<Rightarrow> expert_lru" where
  "lru_push k h p c = c\<lparr>lru_map := (lru_map c)(k \<mapsto> fresh_entry h p),
     lruOrder := k # lruOrder c, lru_used := lru_used c + bh_size h\<rparr>"

lemma lru_drop_None [simp]: "lru_map (lru_drop k c) k = None"
  by (auto simp: lru_drop_def split: option.split)

lemma lru_drop_other [simp]: "x \<noteq> k \<Longrightarrow> lru_map (lru_drop k c) x = lru_map c x"
  by (auto simp: lru_drop_def split: option.split)

lemma lru_drop_capacity [simp]: "lru_capacity (lru_drop k c) = lru_capacity c"
  by (auto simp: lru_drop_def split: option.split)

lemma lru_room:
  assumes "lru_inv c" "\<not> lru_capacity c < sz"
  shows "lru_capacity c < lru_used c + sz \<longleftrightarrow> unat (lru_capacity c) < held c + unat sz"
proof -
  note i = lru_invD [OF assms(1)]
  have sz: "unat sz \<le> unat (lru_capacity c)"
    using assms(2) by (simp add: not_less word_le_nat_alt)
  have "unat (lru_used c + sz) = unat (lru_used c) + unat sz"
    by (rule unat_add_64) (use i sz in simp)
  then show ?thesis using i(5) by (simp add: word_less_nat_alt)
qed

lemma lru_insert_cases:
  assumes "lru_inv c"
  obtains
    (oversize) "lru_capacity c < bh_size h" "lru_insert k h p c = (False, c)"
  | (full) c2 where "\<not> lru_capacity c < bh_size h" "lru_inv c2" "lru_shrinks (lru_drop k c) c2"
      "c2 = evict_until (length (lruOrder (lru_drop k c))) (bh_size h) (lru_drop k c)"
      "unat (lru_capacity c2) < held c2 + unat (bh_size h)" "lru_insert k h p c = (False, c2)"
  | (fits) c2 where "\<not> lru_capacity c < bh_size h" "lru_inv c2" "lru_shrinks (lru_drop k c) c2"
      "c2 = evict_until (length (lruOrder (lru_drop k c))) (bh_size h) (lru_drop k c)"
      "held c2 + unat (bh_size h) \<le> unat (lru_capacity c2)"
      "lru_insert k h p c = (True, lru_push k h p c2)"
proof (cases "lru_capacity c < bh_size h")
  case True
  then show thesis using oversize by (simp add: lru_insert_def)
next
  case False
  define c2 where "c2 = evict_until (length (lruOrder (lru_drop k c))) (bh_size h) (lru_drop k c)"
  have c2: "lru_inv c2" "lru_shrinks (lru_drop k c) c2"
    using evict_until_sound [OF lru_drop_inv [OF assms]] by (simp_all add: c2_def)
  then have cap: "lru_capacity c2 = lru_capacity c" by (simp add: lru_shrinks_def)
  have none: "lru_map c2 k = None" using lru_shrinks_None [OF c2(2)] by simp
  note room = lru_room [OF c2(1), unfolded cap, OF False]
  have ins: "lru_insert k h p c = (if lru_capacity c2 < lru_used c2 + bh_size h then (False, c2)
      else (True, lru_push k h p c2))"
    using False none
    by (simp add: lru_insert_def Let_def lru_push_def fresh_entry_def Entry_default_def
        map_index_def flip: c2_def)
  show thesis
  proof (cases "lru_capacity c2 < lru_used c2 + bh_size h")
    case True
    then show thesis using full [OF False c2 c2_def] ins room cap by simp
  next
    case F: False
    then show thesis using fits [OF False c2 c2_def] ins room cap by simp
  qed
qed

lemma lru_push_inv:
  assumes "lru_inv c" "lru_map c k = None" "handle_ok h"
    "held c + unat (bh_size h) \<le> unat (lru_capacity c)"
  shows "lru_inv (lru_push k h p c)"
proof -
  note i = lru_invD [OF assms(1)]
  have k: "k \<notin> set (lruOrder c)" using i(3) assms(2) by auto
  have "held (lru_push k h p c) = unat (bh_size h) + held c"
    using k by (simp add: held_def lru_push_def sum_entry_upd_other)
      (simp add: entry_size_def fresh_entry_def)
  moreover have "unat (lru_used c + bh_size h) = held c + unat (bh_size h)"
    using i assms(4) by (subst unat_add_64) simp_all
  ultimately show ?thesis
    using i k assms by (auto simp: lru_inv_def lru_push_def fresh_entry_def split: if_splits)
qed

lemma lru_insert_inv:
  assumes "lru_inv c" "handle_ok h"
  shows "lru_inv (snd (lru_insert k h p c))"
proof (rule lru_insert_cases [OF assms(1), of h k p])
  fix c2
  assume c2: "lru_inv c2" "lru_shrinks (lru_drop k c) c2"
    "held c2 + unat (bh_size h) \<le> unat (lru_capacity c2)"
    "lru_insert k h p c = (True, lru_push k h p c2)"
  then show ?thesis
    using lru_push_inv [OF c2(1) _ assms(2) c2(3)] lru_shrinks_None [OF c2(2), of k] by simp
qed (use assms in simp_all)

lemma lru_insert_lookup_other:
  assumes "lru_inv c" "x \<noteq> k" "lru_map (snd (lru_insert k h p c)) x = Some e'"
  obtains e where "lru_map c x = Some e" "entry_kept e e'"
proof (rule lru_insert_cases [OF assms(1), of h k p])
  assume "lru_insert k h p c = (False, c)"
  then show thesis using assms(3) that by simp
next
  fix c2
  assume "lru_shrinks (lru_drop k c) c2" "lru_insert k h p c = (False, c2)"
  then show thesis using assms(2,3) that by (auto elim!: lru_shrinks_lookup)
next
  fix c2
  assume "lru_shrinks (lru_drop k c) c2" "lru_insert k h p c = (True, lru_push k h p c2)"
  then show thesis
    using assms(2,3) that by (auto simp: lru_push_def elim!: lru_shrinks_lookup)
qed

lemma lru_insert_lookup_same:
  assumes "lru_inv c"
  shows "fst (lru_insert k h p c) \<Longrightarrow> lru_map (snd (lru_insert k h p c)) k = Some (fresh_entry h p)"
    "\<not> fst (lru_insert k h p c) \<Longrightarrow>
       lru_map (snd (lru_insert k h p c)) k = (if lru_capacity c < bh_size h then lru_map c k else None)"
  by (rule lru_insert_cases [OF assms, of h k p];
      simp add: lru_push_def lru_shrinks_None [of "lru_drop k c"])+

subsection \<open>The contract a cache client relies on\<close>

text \<open>
  A cache of payloads: insertion may forget other keys but never alters them, a fetch that reports
  a hit has copied the resident payload, hints (pins, boosts) change no payload. The client lemmas
  say that a cache only ever filled from a source of truth only ever answers with it.
\<close>

locale payload_cache =
  fixes inv :: "'c \<Rightarrow> bool"
    and valid :: "'h \<Rightarrow> bool"
    and payload :: "'h \<Rightarrow> 'b list"
    and look :: "'k \<Rightarrow> 'c \<Rightarrow> 'h option"
    and put :: "'k \<Rightarrow> 'h \<Rightarrow> bool \<Rightarrow> 'c \<Rightarrow> bool \<times> 'c"
    and fetch :: "'k \<Rightarrow> 'b list \<Rightarrow> 'c \<Rightarrow> (bool \<times> 'b list \<times> 'c) option"
    and hint :: "'x \<Rightarrow> 'c \<Rightarrow> 'c"
  assumes put_inv: "inv c \<Longrightarrow> valid h \<Longrightarrow> inv (snd (put k h p c))"
    and put_same: "inv c \<Longrightarrow> fst (put k h p c) \<Longrightarrow> look k (snd (put k h p c)) = Some h"
    and put_back: "inv c \<Longrightarrow> look x (snd (put k h p c)) = Some h' \<Longrightarrow>
      (x = k \<and> h' = h) \<or> look x c = Some h'"
    and fetch_safe: "inv c \<Longrightarrow> \<exists>b d' c'. fetch k d c = Some (b, d', c') \<and> inv c' \<and>
      length d' = length d \<and> look x c' = look x c"
    and fetch_hit: "inv c \<Longrightarrow> fetch k d c = Some (True, d', c') \<Longrightarrow>
      \<exists>h. look k c = Some h \<and> d' = payload h @ drop (length (payload h)) d"
    and fetch_miss: "inv c \<Longrightarrow> fetch k d c = Some (False, d', c') \<Longrightarrow> d' = d"
    and hint_inv: "inv c \<Longrightarrow> inv (hint a c)"
    and hint_look: "look k (hint a c) = look k c"
begin

definition agrees :: "('k \<Rightarrow> 'b list) \<Rightarrow> 'c \<Rightarrow> bool" where
  "agrees src c \<longleftrightarrow> (\<forall>k h. look k c = Some h \<longrightarrow> payload h = src k)"

lemma put_agrees:
  assumes "inv c" "agrees src c" "payload h = src k"
  shows "agrees src (snd (put k h p c))"
  unfolding agrees_def
proof (intro allI impI)
  fix x h'
  assume "look x (snd (put k h p c)) = Some h'"
  from put_back [OF assms(1) this] show "payload h' = src x"
    using assms(2,3) by (auto simp: agrees_def)
qed

lemma hint_agrees: "agrees src (hint a c) \<longleftrightarrow> agrees src c"
  by (simp add: agrees_def hint_look)

lemma fetch_agrees:
  assumes "inv c" "agrees src c" "fetch k d c = Some (b, d', c')"
  shows "inv c'" "agrees src c'" "length d' = length d"
    "d' = (if b then src k @ drop (length (src k)) d else d)"
proof -
  have all: "inv c' \<and> length d' = length d \<and> look x c' = look x c" for x
    using fetch_safe [OF assms(1), of k d x] assms(3) by auto
  then show "inv c'" "length d' = length d" by auto
  show "agrees src c'" using all assms(2) by (simp add: agrees_def)
  show "d' = (if b then src k @ drop (length (src k)) d else d)"
  proof (cases b)
    case True
    then obtain h where "look k c = Some h" "d' = payload h @ drop (length (payload h)) d"
      using fetch_hit [OF assms(1), of k d d' c'] assms(3) by auto
    then show ?thesis using assms(2) True by (auto simp: agrees_def)
  next
    case False
    then show ?thesis using fetch_miss [OF assms(1), of k d d' c'] assms(3) by simp
  qed
qed

lemma fetch_after_put:
  assumes "inv c" "valid h" "fst (put k h p c)" "fetch k d (snd (put k h p c)) = Some (True, d', c')"
  shows "d' = payload h @ drop (length (payload h)) d"
  using fetch_hit [OF put_inv [OF assms(1,2)] assms(4)] put_same [OF assms(1,3)] by auto

end

text \<open>
  \<open>ExpertLRU\<close> meets the contract. The caller passes the size of its buffer, as
  \<open>copyTo(k, dest, destSize)\<close> is called with a buffer of \<open>destSize\<close> bytes.
\<close>

definition lru_look :: "expert_key \<Rightarrow> expert_lru \<Rightarrow> buffer_handle option" where
  "lru_look k c = map_option le_handle (lru_map c k)"

definition lru_fetch :: "expert_key \<Rightarrow> bytes \<Rightarrow> expert_lru \<Rightarrow> (bool \<times> bytes \<times> expert_lru) option" where
  "lru_fetch k dest c =
     lru_copyTo k dest (if length dest < 2 ^ 64 then of_nat (length dest) else - 1) c"

datatype lru_hint = HintPin expert_key | HintBoost expert_key int

fun lru_apply_hint :: "lru_hint \<Rightarrow> expert_lru \<Rightarrow> expert_lru" where
  "lru_apply_hint (HintPin k) c = lru_pin k c"
| "lru_apply_hint (HintBoost k n) c = lru_boost k n c"

lemma lru_touch_look: "lru_map c k = Some e \<Longrightarrow> lru_look x (lru_touch k e c) = lru_look x c"
  by (simp add: lru_look_def lru_touch_def)

lemma memcpy_whole:
  assumes "n = length src" "n \<le> length dest"
  shows "memcpy dest 0 src 0 n = Some (src @ drop n dest)"
  using assms by (simp add: memcpy_def)

lemma lru_copyTo_eval:
  assumes "lru_inv c" "lru_map c k = Some e" "unat n \<le> length dest"
  shows "lru_copyTo k dest n c = Some (if n < bh_size (le_handle e) then (False, dest, lru_touch k e c)
    else (True, bh_data (le_handle e) @ drop (length (bh_data (le_handle e))) dest, lru_touch k e c))"
proof -
  have ok: "length (bh_data (le_handle e)) = unat (bh_size (le_handle e))"
    using lru_invD(4) [OF assms(1,2)] by (simp add: handle_ok_def)
  show ?thesis
  proof (cases "n < bh_size (le_handle e)")
    case False
    then have "unat (bh_size (le_handle e)) \<le> length dest"
      using assms(3) by (simp add: not_less word_le_nat_alt)
    then show ?thesis using False ok assms(2) by (simp add: lru_copyTo_def memcpy_whole)
  qed (simp add: lru_copyTo_def assms(2))
qed

lemma lru_copyTo_miss:
  "lru_map c k = None \<Longrightarrow> lru_copyTo k dest n c = Some (False, dest, c\<lparr>missCount := missCount c + 1\<rparr>)"
  by (simp add: lru_copyTo_def)

lemma lru_destSize_le: "unat (if length d < 2 ^ 64 then of_nat (length d) else - 1 :: u64) \<le> length d"
proof (cases "length d < 2 ^ 64")
  case True
  then show ?thesis by (simp add: unat_of_nat take_bit_nat_eq_self)
next
  case False
  have "unat (- 1 :: u64) = 2 ^ 64 - 1"
    by (simp add: unsigned_minus_1_eq_mask mask_eq_exp_minus_1)
  then show ?thesis using False by simp
qed

lemma lru_apply_hint_inv: "lru_inv c \<Longrightarrow> lru_inv (lru_apply_hint x c)"
  by (cases x) (simp_all add: lru_pin_inv lru_boost_inv)

lemma lru_apply_hint_look: "lru_look k (lru_apply_hint x c) = lru_look k c"
  by (cases x) (auto simp: lru_look_def lru_pin_def lru_boost_def split: option.splits)

interpretation lru: payload_cache lru_inv handle_ok bh_data lru_look lru_insert lru_fetch lru_apply_hint
proof unfold_locales
  fix c h k p
  assume "lru_inv c" "handle_ok h"
  then show "lru_inv (snd (lru_insert k h p c))" by (rule lru_insert_inv)
next
  fix c k h p
  assume "lru_inv c" "fst (lru_insert k h p c)"
  then show "lru_look k (snd (lru_insert k h p c)) = Some h"
    by (simp add: lru_look_def lru_insert_lookup_same fresh_entry_def)
next
  fix c x k h p h'
  assume i: "lru_inv c" and l: "lru_look x (snd (lru_insert k h p c)) = Some h'"
  show "(x = k \<and> h' = h) \<or> lru_look x c = Some h'"
  proof (cases "x = k")
    case True
    then show ?thesis using l lru_insert_lookup_same [OF i, of k h p]
      by (cases "fst (lru_insert k h p c)") (auto simp: lru_look_def fresh_entry_def split: if_splits)
  next
    case False
    from l obtain e' where "lru_map (snd (lru_insert k h p c)) x = Some e'" "h' = le_handle e'"
      by (auto simp: lru_look_def)
    with False show ?thesis
      by (auto simp: lru_look_def entry_kept_fields(1) elim!: lru_insert_lookup_other [OF i])
  qed
next
  fix c k d x
  assume i: "lru_inv c"
  show "\<exists>b d' c'. lru_fetch k d c = Some (b, d', c') \<and> lru_inv c' \<and> length d' = length d \<and>
      lru_look x c' = lru_look x c"
  proof (cases "lru_map c k")
    case None
    then show ?thesis using i by (auto simp: lru_fetch_def lru_copyTo_miss lru_inv_counters lru_look_def)
  next
    case (Some e)
    have "length (bh_data (le_handle e)) = unat (bh_size (le_handle e))"
      using lru_invD(4) [OF i Some] by (simp add: handle_ok_def)
    then show ?thesis
      unfolding lru_fetch_def lru_copyTo_eval [OF i Some lru_destSize_le]
      using lru_destSize_le [of d] i Some
      by (auto simp: lru_touch_inv lru_touch_look not_less word_le_nat_alt)
  qed
next
  fix c k d d' c'
  assume i: "lru_inv c"
  {
    assume "lru_fetch k d c = Some (True, d', c')"
    then show "\<exists>h. lru_look k c = Some h \<and> d' = bh_data h @ drop (length (bh_data h)) d"
      unfolding lru_fetch_def using lru_copyTo_eval [OF i _ lru_destSize_le, of k _ d]
      by (cases "lru_map c k") (auto simp: lru_copyTo_miss lru_look_def split: if_splits)
  next
    assume "lru_fetch k d c = Some (False, d', c')"
    then show "d' = d"
      unfolding lru_fetch_def using lru_copyTo_eval [OF i _ lru_destSize_le, of k _ d]
      by (cases "lru_map c k") (auto simp: lru_copyTo_miss split: if_splits)
  }
qed (simp_all add: lru_apply_hint_inv lru_apply_hint_look)

subsection \<open>The victim of an eviction\<close>

definition evictable :: "expert_lru \<Rightarrow> expert_key \<Rightarrow> bool" where
  "evictable c k \<longleftrightarrow>
     (case lru_map c k of None \<Rightarrow> False | Some e \<Rightarrow> \<not> le_pinned e \<and> le_protect e \<le> 0)"

lemma evict_scan_victim:
  assumes "lru_inv c" "set ks \<subseteq> set (lruOrder c)" "distinct ks" "evict_scan ks c = (b, c')"
  shows "if b then \<exists>pre k post. ks = pre @ k # post \<and> evictable c k \<and>
           (\<forall>x \<in> set pre. \<not> evictable c x) \<and> lruOrder c' = remove1 k (lruOrder c)
         else \<forall>x \<in> set ks. \<not> evictable c x"
  using assms
proof (induction ks arbitrary: c)
  case Nil
  then show ?case by simp
next
  case (Cons k ks)
  note i = lru_invD [OF Cons.prems(1)]
  have "k \<in> set (lruOrder c)" using Cons.prems(2) by simp
  with i(3) obtain e where e: "lru_map c k = Some e" by auto
  have step: ?case
    if c0: "evict_scan ks c0 = (b, c')" "lru_inv c0" "lruOrder c0 = lruOrder c"
      "\<And>x. x \<noteq> k \<Longrightarrow> lru_map c0 x = lru_map c x" and k: "\<not> evictable c k" for c0
  proof -
    have same: "evictable c0 x = evictable c x" if "x \<in> set ks" for x
    proof -
      have "x \<noteq> k" using that Cons.prems(3) by auto
      then show ?thesis using c0(4) [of x] by (simp add: evictable_def)
    qed
    have ih: "if b then \<exists>pre k post. ks = pre @ k # post \<and> evictable c0 k \<and>
           (\<forall>x \<in> set pre. \<not> evictable c0 x) \<and> lruOrder c' = remove1 k (lruOrder c0)
         else \<forall>x \<in> set ks. \<not> evictable c0 x"
      using Cons.prems c0 by (intro Cons.IH) auto
    show ?thesis
    proof (cases b)
      case True
      with ih obtain pre v post where "ks = pre @ v # post" "evictable c0 v"
        "\<forall>x \<in> set pre. \<not> evictable c0 x" "lruOrder c' = remove1 v (lruOrder c0)" by auto
      then have "k # ks = (k # pre) @ v # post \<and> evictable c v \<and>
          (\<forall>x \<in> set (k # pre). \<not> evictable c x) \<and> lruOrder c' = remove1 v (lruOrder c)"
        using same c0(3) k by auto
      then show ?thesis using True by metis
    next
      case False
      then show ?thesis using ih same k by auto
    qed
  qed
  consider "le_pinned e" | "\<not> le_pinned e" "0 < le_protect e" | "\<not> le_pinned e" "le_protect e \<le> 0"
    by fastforce
  then show ?case
  proof cases
    case 1
    then show ?thesis
      using Cons.prems(1,4) e by (intro step [of c]) (auto simp: evict_scan_step evictable_def)
  next
    case 2
    let ?c = "c\<lparr>lru_map := (lru_map c)(k \<mapsto> e\<lparr>le_protect := le_protect e - 1\<rparr>)\<rparr>"
    have "lru_inv ?c" using i(2) by (intro lru_inv_upd_entry [OF Cons.prems(1) e]) auto
    then show ?thesis
      using Cons.prems(4) e 2 by (intro step [of ?c]) (auto simp: evict_scan_step evictable_def)
  next
    case 3
    then have "b" "lruOrder c' = remove1 k (lruOrder c)" "evictable c k"
      using Cons.prems(4) e by (auto simp: evict_scan_step lru_drop_def evictable_def)
    then show ?thesis by (auto intro!: exI [of _ "[]"])
  qed
qed

lemma evictOne_victim:
  assumes "lru_inv c" "evictOne c = (b, c')"
  shows "b \<longleftrightarrow> (\<exists>k \<in> set (lruOrder c). evictable c k)"
    "b \<Longrightarrow> \<exists>newer k older. lruOrder c = newer @ k # older \<and> evictable c k \<and>
       (\<forall>x \<in> set older. \<not> evictable c x) \<and> lruOrder c' = newer @ older"
proof -
  have v: "if b then \<exists>pre k post. rev (lruOrder c) = pre @ k # post \<and> evictable c k \<and>
           (\<forall>x \<in> set pre. \<not> evictable c x) \<and> lruOrder c' = remove1 k (lruOrder c)
         else \<forall>x \<in> set (lruOrder c). \<not> evictable c x"
    using evict_scan_victim [OF assms(1) _ _ assms(2) [unfolded evictOne_def]] lru_invD(2) [OF assms(1)]
    unfolding set_rev distinct_rev by (metis order_refl)
  show two: "\<exists>newer k older. lruOrder c = newer @ k # older \<and> evictable c k \<and>
       (\<forall>x \<in> set older. \<not> evictable c x) \<and> lruOrder c' = newer @ older" if "b"
  proof -
    from v that obtain pre k post where p: "rev (lruOrder c) = pre @ k # post" "evictable c k"
      "\<forall>x \<in> set pre. \<not> evictable c x" "lruOrder c' = remove1 k (lruOrder c)" by auto
    from p(1) have o: "lruOrder c = rev post @ k # rev pre"
      by (metis append_Cons append_Nil append_assoc rev_append rev_rev_ident rev.simps(2))
    then have "k \<notin> set post" using lru_invD(2) [OF assms(1)] by simp
    then have "lruOrder c' = rev post @ rev pre" using p(4) o by (simp add: remove1_append)
    with o p(2,3) show ?thesis by (intro exI [of _ "rev post"] exI [of _ k] exI [of _ "rev pre"]) simp
  qed
  show "b \<longleftrightarrow> (\<exists>k \<in> set (lruOrder c). evictable c k)"
    using v two by (cases b) auto
qed

subsection \<open>When an insertion succeeds\<close>

text \<open>\<open>pinned_bytes k c\<close>: the bytes pinned by entries other than \<open>k\<close>, which insertion cannot free.\<close>

definition pinned_bytes :: "expert_key \<Rightarrow> expert_lru \<Rightarrow> nat" where
  "pinned_bytes k c = sum (entry_size (lru_map c))
     {x \<in> set (lruOrder c). x \<noteq> k \<and> (case lru_map c x of None \<Rightarrow> False | Some e \<Rightarrow> le_pinned e)}"

definition unprotected :: "expert_lru \<Rightarrow> bool" where
  "unprotected c \<longleftrightarrow> (\<forall>x \<in> set (lruOrder c). case lru_map c x of None \<Rightarrow> True | Some e \<Rightarrow> le_protect e \<le> 0)"

lemma unprotected_shrinks:
  assumes "lru_inv c" "lru_inv c'" "lru_shrinks c c'" "unprotected c"
  shows "unprotected c'"
  unfolding unprotected_def
proof
  fix x
  assume "x \<in> set (lruOrder c')"
  then obtain e' where e': "lru_map c' x = Some e'" using lru_invD(3) [OF assms(2)] by auto
  then obtain e where e: "lru_map c x = Some e" "entry_kept e e'"
    by (rule lru_shrinks_lookup [OF assms(3)])
  then have "x \<in> set (lruOrder c)" using lru_invD(3) [OF assms(1)] by auto
  then show "case lru_map c' x of None \<Rightarrow> True | Some e \<Rightarrow> le_protect e \<le> 0"
    using assms(4) e e' entry_kept_fields(6) [OF e(2)] by (auto simp: unprotected_def)
qed

lemma evict_until_outcome:
  assumes "lru_inv c" "unprotected c" "\<not> lru_capacity c < sz" "length (lruOrder c) \<le> n"
    and "c' = evict_until n sz c"
  shows "held c' + unat sz \<le> unat (lru_capacity c') \<or>
     (\<forall>x \<in> set (lruOrder c'). case lru_map c' x of None \<Rightarrow> False | Some e \<Rightarrow> le_pinned e)"
  using assms
proof (induction n arbitrary: c)
  case 0
  then show ?case by simp
next
  case (Suc n)
  obtain b d where ev: "evictOne c = (b, d)" by fastforce
  note s = evictOne_sound [OF Suc.prems(1) ev]
  note room = lru_room [OF Suc.prems(1,3)]
  consider "\<not> (lru_capacity c < lru_used c + sz \<and> lruOrder c \<noteq> [])"
    | "lru_capacity c < lru_used c + sz" "lruOrder c \<noteq> []" "b"
    | "lru_capacity c < lru_used c + sz" "lruOrder c \<noteq> []" "\<not> b" by blast
  then show ?case
  proof cases
    case 1
    then show ?thesis using Suc.prems(5) room by auto
  next
    case 2
    have "unprotected d" using unprotected_shrinks [OF Suc.prems(1) s(1,2) Suc.prems(2)] .
    moreover have "lru_capacity d = lru_capacity c" using s(2) by (simp add: lru_shrinks_def)
    ultimately show ?thesis
      using 2 Suc.prems s(1,3) ev by (intro Suc.IH [of d]) auto
  next
    case 3
    then have "c' = d" using Suc.prems(5) ev by simp
    have none: "\<forall>x \<in> set (lruOrder c). \<not> evictable c x"
      using evictOne_victim(1) [OF Suc.prems(1) ev] 3 by simp
    have "case lru_map d x of None \<Rightarrow> False | Some e \<Rightarrow> le_pinned e" if "x \<in> set (lruOrder d)" for x
    proof -
      from that obtain e' where e': "lru_map d x = Some e'" using lru_invD(3) [OF s(1)] by auto
      then obtain e where e: "lru_map c x = Some e" "entry_kept e e'"
        by (rule lru_shrinks_lookup [OF s(2)])
      then have x: "x \<in> set (lruOrder c)" using lru_invD(3) [OF Suc.prems(1)] by auto
      then have "le_pinned e"
        using none Suc.prems(2) e(1) by (fastforce simp: evictable_def unprotected_def)
      then show ?thesis using e' entry_kept_fields(2) [OF e(2)] by simp
    qed
    then show ?thesis using \<open>c' = d\<close> by auto
  qed
qed

lemma held_as_sum:
  assumes "lru_inv c"
  shows "held c = sum (entry_size (lru_map c)) (set (lruOrder c))"
  unfolding held_def using lru_invD(2) [OF assms] by (rule sum_list_distinct_conv_sum_set)

lemma pinned_bytes_le:
  assumes "lru_inv c"
  shows "pinned_bytes k c \<le> held c"
  unfolding held_as_sum [OF assms] pinned_bytes_def by (rule sum_mono2) auto

lemma pinned_bytes_shrinks:
  assumes "lru_inv c" "lru_inv c'" "lru_shrinks (lru_drop k c) c'"
  shows "pinned_bytes k c' = pinned_bytes k c"
  unfolding pinned_bytes_def
proof (rule sum.cong)
  let ?P = "\<lambda>m x. case m x of None \<Rightarrow> False | Some e \<Rightarrow> le_pinned (e :: lru_entry)"
  show "{x \<in> set (lruOrder c'). x \<noteq> k \<and> ?P (lru_map c') x}
      = {x \<in> set (lruOrder c). x \<noteq> k \<and> ?P (lru_map c) x}"
  proof (intro set_eqI iffI)
    fix x
    assume "x \<in> {x \<in> set (lruOrder c'). x \<noteq> k \<and> ?P (lru_map c') x}"
    then obtain e' where x: "x \<noteq> k" "lru_map c' x = Some e'" "le_pinned e'"
      by (auto split: option.splits)
    then obtain e where "lru_map c x = Some e" "entry_kept e e'"
      using lru_shrinks_lookup [OF assms(3) x(2)] by auto
    then show "x \<in> {x \<in> set (lruOrder c). x \<noteq> k \<and> ?P (lru_map c) x}"
      using x lru_invD(3) [OF assms(1)] by (auto simp: entry_kept_fields(2))
  next
    fix x
    assume "x \<in> {x \<in> set (lruOrder c). x \<noteq> k \<and> ?P (lru_map c) x}"
    then obtain e where x: "x \<noteq> k" "lru_map c x = Some e" "le_pinned e"
      by (auto split: option.splits)
    then have "lru_map c' x = Some e" using lru_shrinks_pinned [OF assms(3), of x e] by simp
    then show "x \<in> {x \<in> set (lruOrder c'). x \<noteq> k \<and> ?P (lru_map c') x}"
      using x lru_invD(3) [OF assms(2)] by auto
  qed
  fix x
  assume "x \<in> {x \<in> set (lruOrder c). x \<noteq> k \<and> ?P (lru_map c) x}"
  then obtain e where x: "x \<noteq> k" "lru_map c x = Some e" "le_pinned e"
    by (auto split: option.splits)
  then have "lru_map c' x = Some e" using lru_shrinks_pinned [OF assms(3), of x e] by simp
  then show "entry_size (lru_map c') x = entry_size (lru_map c) x" by (simp add: entry_size_def x)
qed

lemma unprotected_drop:
  assumes "lru_inv c" "unprotected c"
  shows "unprotected (lru_drop k c)"
  unfolding unprotected_def
proof
  fix x
  assume "x \<in> set (lruOrder (lru_drop k c))"
  then have "x \<in> dom (lru_map (lru_drop k c))"
    using lru_invD(3) [OF lru_drop_inv [OF assms(1)]] by auto
  then have "x \<noteq> k" "x \<in> set (lruOrder c)" using lru_invD(3) [OF assms(1)] by (cases "x = k"; auto)+
  then show "case lru_map (lru_drop k c) x of None \<Rightarrow> True | Some e \<Rightarrow> le_protect e \<le> 0"
    using assms(2) by (simp add: unprotected_def)
qed

subsection \<open>Operation sequences\<close>

datatype lru_op = OpResize u64 | OpAcquire expert_key | OpCopyTo expert_key bytes u64
  | OpInsert expert_key buffer_handle bool | OpPin expert_key | OpBoost expert_key int

fun lru_exec :: "lru_op \<Rightarrow> expert_lru \<Rightarrow> expert_lru option" where
  "lru_exec (OpResize cap) c = Some (lru_resize cap c)"
| "lru_exec (OpAcquire k) c = Some (snd (lru_acquire k c))"
| "lru_exec (OpCopyTo k dest n) c = map_option (snd \<circ> snd) (lru_copyTo k dest n c)"
| "lru_exec (OpInsert k h p) c = Some (snd (lru_insert k h p c))"
| "lru_exec (OpPin k) c = Some (lru_pin k c)"
| "lru_exec (OpBoost k n) c = Some (lru_boost k n c)"

fun lru_run :: "lru_op list \<Rightarrow> expert_lru \<Rightarrow> expert_lru option" where
  "lru_run [] c = Some c"
| "lru_run (a # as) c = Option.bind (lru_exec a c) (lru_run as)"

text \<open>What the callers guarantee: buffers as long as they say, capacities below \<open>2 ^ 63\<close>.\<close>

fun lru_op_ok :: "lru_op \<Rightarrow> bool" where
  "lru_op_ok (OpResize cap) = (unat cap < 2 ^ 63)"
| "lru_op_ok (OpCopyTo k dest n) = (unat n \<le> length dest)"
| "lru_op_ok (OpInsert k h p) = handle_ok h"
| "lru_op_ok _ = True"

lemma lru_exec_inv:
  assumes "lru_inv c" "lru_op_ok a"
  shows "\<exists>c'. lru_exec a c = Some c' \<and> lru_inv c'"
proof (cases a)
  case (OpCopyTo k dest n)
  have "lru_copyTo k dest n c \<noteq> None"
  proof (cases "lru_map c k")
    case (Some e)
    then show ?thesis using lru_copyTo_eval [OF assms(1) Some, of n dest] assms(2) OpCopyTo by simp
  qed (simp add: lru_copyTo_miss)
  then obtain b d c' where "lru_copyTo k dest n c = Some (b, d, c')" by auto
  with OpCopyTo show ?thesis using lru_copyTo_inv [OF assms(1)] by auto
qed (use assms in \<open>auto simp: lru_resize_inv lru_acquire_inv lru_insert_inv lru_pin_inv lru_boost_inv\<close>)

lemma lru_run_inv:
  "lru_inv c \<Longrightarrow> \<forall>a \<in> set as. lru_op_ok a \<Longrightarrow> \<exists>c'. lru_run as c = Some c' \<and> lru_inv c'"
proof (induction as arbitrary: c)
  case (Cons a as)
  then obtain c1 where "lru_exec a c = Some c1" "lru_inv c1" using lru_exec_inv [of c a] by auto
  then show ?case using Cons by simp
qed simp

text \<open>A pinned entry, and a cache filled from one source, along any sequence of operations.\<close>

fun lru_op_keeps :: "expert_key \<Rightarrow> lru_op \<Rightarrow> bool" where
  "lru_op_keeps k (OpResize cap) = False"
| "lru_op_keeps k (OpInsert x h p) = (x \<noteq> k)"
| "lru_op_keeps k _ = True"

definition pinned_with :: "expert_key \<Rightarrow> buffer_handle \<Rightarrow> expert_lru \<Rightarrow> bool" where
  "pinned_with k h c \<longleftrightarrow> (\<exists>e. lru_map c k = Some e \<and> le_pinned e \<and> le_handle e = h)"

lemma lru_insert_pinned:
  assumes "lru_inv c" "x \<noteq> k" "lru_map c k = Some e" "le_pinned e"
  shows "lru_map (snd (lru_insert x h p c)) k = Some e"
proof -
  have sh: "lru_map c2 k = Some e" if "lru_shrinks (lru_drop x c) c2" for c2
    using lru_shrinks_pinned [OF that, of k e] assms(2-4) by simp
  show ?thesis
    by (rule lru_insert_cases [OF assms(1), of h x p]) (use assms(2,3) sh in \<open>simp_all add: lru_push_def\<close>)
qed

lemma lru_exec_keeps:
  assumes "lru_inv c" "lru_op_keeps k a" "pinned_with k h c" "lru_exec a c = Some c'"
  shows "pinned_with k h c'"
proof (cases a)
  case (OpInsert x h' p)
  then show ?thesis using assms lru_insert_pinned [OF assms(1), of x k] by (auto simp: pinned_with_def)
qed (use assms in \<open>auto simp: pinned_with_def lru_ops Let_def split: option.splits if_splits\<close>)

lemma lru_run_keeps:
  "lru_inv c \<Longrightarrow> \<forall>a \<in> set as. lru_op_ok a \<and> lru_op_keeps k a \<Longrightarrow> pinned_with k h c \<Longrightarrow>
     lru_run as c = Some c' \<Longrightarrow> pinned_with k h c'"
proof (induction as arbitrary: c)
  case (Cons a as)
  then obtain c1 where "lru_exec a c = Some c1" "lru_inv c1" using lru_exec_inv [of c a] by auto
  then show ?case using Cons lru_exec_keeps [of c k a h c1] by simp
qed simp

fun lru_op_from :: "(expert_key \<Rightarrow> bytes) \<Rightarrow> lru_op \<Rightarrow> bool" where
  "lru_op_from src (OpInsert k h p) = (bh_data h = src k)"
| "lru_op_from src _ = True"

lemma agrees_look: "lru.agrees src c \<Longrightarrow> (\<And>x. lru_look x c' = lru_look x c) \<Longrightarrow> lru.agrees src c'"
  by (simp add: lru.agrees_def)

lemma lru_exec_from:
  assumes "lru_inv c" "lru.agrees src c" "lru_op_from src a" "lru_exec a c = Some c'"
  shows "lru.agrees src c'"
proof (cases a)
  case (OpInsert k h p)
  then show ?thesis using lru.put_agrees [OF assms(1,2), of h k p] assms(3,4) by auto
next
  case (OpResize cap)
  then show ?thesis using assms(4) by (auto simp: lru.agrees_def lru_look_def lru_resize_def)
next
  case (OpCopyTo k d n)
  then have "lru_look x c' = lru_look x c" for x
    using assms(4)
    by (auto simp: lru_copyTo_def Let_def lru_touch_look lru_look_def lru_touch_def
        split: option.splits if_splits)
  then show ?thesis by (rule agrees_look [OF assms(2)])
next
  case (OpAcquire k)
  then have "lru_look x c' = lru_look x c" for x
    using assms(4) by (auto simp: lru_acquire_def lru_look_def lru_touch_def split: option.splits)
  then show ?thesis by (rule agrees_look [OF assms(2)])
next
  case (OpPin k)
  then show ?thesis using assms(2,4) lru.hint_agrees [of src "HintPin k" c] by simp
next
  case (OpBoost k n)
  then show ?thesis using assms(2,4) lru.hint_agrees [of src "HintBoost k n" c] by simp
qed

lemma lru_run_from:
  "lru_inv c \<Longrightarrow> lru.agrees src c \<Longrightarrow> \<forall>a \<in> set as. lru_op_ok a \<and> lru_op_from src a \<Longrightarrow>
     lru_run as c = Some c' \<Longrightarrow> lru_inv c' \<and> lru.agrees src c'"
proof (induction as arbitrary: c)
  case (Cons a as)
  then obtain c1 where "lru_exec a c = Some c1" "lru_inv c1" using lru_exec_inv [of c a] by auto
  then show ?case using Cons lru_exec_from [of c src a c1] by simp
qed simp

lemma ExpertLRU_agrees: "lru.agrees src (ExpertLRU cap)"
  by (simp add: lru.agrees_def lru_look_def ExpertLRU_def)

subsection \<open>Properties\<close>

text \<open>
  C6. Every sequence of operations on a new cache runs without touching memory outside a buffer
  and ends in a cache whose recency list has no duplicates and lists exactly the resident keys,
  whose byte counter is the sum of the resident sizes, and which never exceeds its capacity.
\<close>

theorem lru_reachable_inv:
  assumes "unat cap < 2 ^ 63" "\<forall>a \<in> set as. lru_op_ok a"
  shows "\<exists>c. lru_run as (ExpertLRU cap) = Some c \<and> lru_inv c"
  using lru_run_inv [OF ExpertLRU_inv [OF assms(1)] assms(2)] .

lemma lru_reachable_inv_witness:
  "\<exists>c. lru_run [OpInsert (ExpertKey 3 7) (BufferHandle 5) True, OpBoost (ExpertKey 3 7) 1,
       OpInsert (ExpertKey 3 8) (BufferHandle 6) False, OpCopyTo (ExpertKey 3 7) [1, 2, 3, 4, 5] 5,
       OpPin (ExpertKey 3 7)] (ExpertLRU 10) = Some c \<and> lru_inv c"
  by (rule lru_reachable_inv) (simp_all add: handle_ok_def BufferHandle_def)



text \<open>
  Once a resident expert is pinned, no sequence of lookups, copies, boosts, pins and insertions
  of other experts evicts it or changes its bytes.
\<close>

theorem lru_pinned_survives:
  assumes "lru_inv c" "lru_map c k = Some e"
    and "\<forall>a \<in> set as. lru_op_ok a \<and> lru_op_keeps k a"
  shows "\<exists>c' e'. lru_run as (lru_pin k c) = Some c' \<and> lru_map c' k = Some e' \<and> le_pinned e' \<and>
    le_handle e' = le_handle e"
proof -
  have inv: "lru_inv (lru_pin k c)" using assms(1) by (rule lru_pin_inv)
  then obtain c' where r: "lru_run as (lru_pin k c) = Some c'" using lru_run_inv assms(3) by blast
  have "pinned_with k (le_handle e) (lru_pin k c)"
    using assms(2) by (simp add: pinned_with_def lru_pin_def)
  from lru_run_keeps [OF inv assms(3) this r] r show ?thesis by (auto simp: pinned_with_def)
qed

definition lru_demo :: expert_lru where
  "lru_demo = snd (lru_insert (ExpertKey 0 1) (BufferHandle 6) False (ExpertLRU 8))"

lemma lru_demo_inv: "lru_inv lru_demo"
  unfolding lru_demo_def
  by (intro lru_insert_inv ExpertLRU_inv) (simp_all add: handle_ok_def BufferHandle_def)

lemma lru_demo_map: "lru_map lru_demo = [ExpertKey 0 1 \<mapsto> fresh_entry (BufferHandle 6) False]"
  by (simp add: lru_demo_def ExpertLRU_def lru_insert_def lru_drop_def BufferHandle_def Let_def
      map_index_def fresh_entry_def Entry_default_def)

lemma lru_pinned_survives_witness:
  "\<exists>c' e'. lru_run [OpInsert (ExpertKey 2 2) (BufferHandle 5) True]
       (lru_pin (ExpertKey 0 1) lru_demo) = Some c' \<and> lru_map c' (ExpertKey 0 1) = Some e' \<and>
     le_pinned e' \<and> le_handle e' = le_handle (fresh_entry (BufferHandle 6) False)"
  by (rule lru_pinned_survives)
    (simp_all add: lru_demo_inv lru_demo_map handle_ok_def BufferHandle_def)

text \<open>
  C29. A cache into which every key is only ever inserted with the bytes \<open>src\<close> assigns to it answers
  every hit with exactly those bytes, and a hit leaves the rest of the caller's buffer alone.
\<close>

theorem lru_hit_returns_source:
  assumes "unat cap < 2 ^ 63" "\<forall>a \<in> set as. lru_op_ok a \<and> lru_op_from src a"
    and "lru_run as (ExpertLRU cap) = Some c" "unat n \<le> length dest"
    and "lru_copyTo k dest n c = Some (True, dest', c')"
  shows "dest' = src k @ drop (length (src k)) dest"
proof -
  have c: "lru_inv c" "lru.agrees src c"
    using lru_run_from [OF ExpertLRU_inv [OF assms(1)] ExpertLRU_agrees assms(2,3)] by auto
  from assms(5) obtain e where e: "lru_map c k = Some e"
    by (cases "lru_map c k") (simp_all add: lru_copyTo_miss)
  then have "lru_look k c = Some (le_handle e)" by (simp add: lru_look_def)
  then have "bh_data (le_handle e) = src k" using c(2) unfolding lru.agrees_def by blast
  moreover have "dest' = bh_data (le_handle e) @ drop (length (bh_data (le_handle e))) dest"
    using assms(5) unfolding lru_copyTo_eval [OF c(1) e assms(4)] by (simp split: if_splits)
  ultimately show ?thesis by simp
qed

lemma lru_hit_returns_source_witness:
  "\<exists>c dest' c'. lru_run [OpInsert (ExpertKey 1 1) \<lparr>bh_data = [7, 8], bh_size = 2\<rparr> True] (ExpertLRU 9) = Some c \<and>
     lru_copyTo (ExpertKey 1 1) [0, 0, 5] 3 c = Some (True, dest', c') \<and> dest' = [7, 8] @ drop 2 [0, 0, 5]"
proof -
  let ?h = "\<lparr>bh_data = [7, 8], bh_size = 2\<rparr>"
  let ?as = "[OpInsert (ExpertKey 1 1) ?h True]"
  define c where "c = snd (lru_insert (ExpertKey 1 1) ?h True (ExpertLRU 9))"
  then have c: "lru_run ?as (ExpertLRU 9) = Some c" by simp
  have "lru_map c = [ExpertKey 1 1 \<mapsto> fresh_entry ?h True]"
    by (simp add: c_def ExpertLRU_def lru_insert_def lru_drop_def Let_def map_index_def
        fresh_entry_def Entry_default_def)
  then have "\<exists>d c'. lru_copyTo (ExpertKey 1 1) [0, 0, 5] 3 c = Some (True, d, c')"
    by (simp add: lru_copyTo_def memcpy_def fresh_entry_def)
  then obtain d c' where d: "lru_copyTo (ExpertKey 1 1) [0, 0, 5] 3 c = Some (True, d, c')" by auto
  have "d = [7, 8] @ drop (length [7 :: u8, 8]) [0, 0, 5]"
    by (rule lru_hit_returns_source [where src = "\<lambda>_. [7, 8]", OF _ _ c _ d])
      (simp, simp add: handle_ok_def, simp)
  with c d show ?thesis by simp
qed

text \<open>
  Eviction takes the least recently used entry that is neither pinned nor protected: everything
  older than the victim is exempt, the order of the others is unchanged, and an eviction happens
  whenever an evictable entry exists.
\<close>

theorem evictOne_least_recent:
  assumes "lru_inv c"
  shows "fst (evictOne c) = (\<exists>k \<in> set (lruOrder c). evictable c k) \<and>
    (fst (evictOne c) \<longrightarrow> (\<exists>newer k older. lruOrder c = newer @ k # older \<and> evictable c k \<and>
       (\<forall>x \<in> set older. \<not> evictable c x) \<and> lruOrder (snd (evictOne c)) = newer @ older))"
proof -
  obtain b c' where ev: "evictOne c = (b, c')" by fastforce
  show ?thesis using evictOne_victim [OF assms ev] unfolding ev fst_conv snd_conv by blast
qed

lemma evictOne_least_recent_witness:
  "fst (evictOne lru_demo) = (\<exists>k. k \<in> set (lruOrder lru_demo) \<and> evictable lru_demo k)"
  using evictOne_least_recent [OF lru_demo_inv] by blast

text \<open>
  Two behaviours of \<open>insert\<close> its comment does not tell. A boosted entry makes it fail although
  nothing is pinned (the sweep only consumes the protection), and a replacement that fails has
  already dropped the old entry.
\<close>

lemma lru_insert_refused_by_boost:
  "\<not> fst (lru_insert (ExpertKey 9 9) (BufferHandle 4) False (lru_boost (ExpertKey 0 1) 1 lru_demo))"
  by (simp add: lru_demo_def ExpertLRU_def lru_insert_def lru_drop_def BufferHandle_def Let_def
      map_index_def Entry_default_def lru_boost_def splice_front_def evictOne_def evict_scan.simps)

lemma lru_insert_failure_drops_old:
  assumes "lru_inv c" "\<not> lru_capacity c < bh_size h" "\<not> fst (lru_insert k h p c)"
  shows "lru_map (snd (lru_insert k h p c)) k = None"
  using lru_insert_lookup_same(2) [OF assms(1,3)] assms(2) by simp

end
