(* ===== verification/Float32.thy ===== *)
theory Float32
  imports Prelude
begin

text \<open>
  The C++ \<open>float\<close> of the program: IEEE 754 binary32 on its 32 bits, rounding to nearest, ties
  to even. A bit pattern without its sign is a \<^emph>\<open>magnitude\<close> \<open>m\<close>; every finite value is the
  integer \<open>mag_int m\<close> times \<open>2 ^ -149\<close>, and \<open>mag_int\<close> is strictly increasing, so rounding is
  the search of the nearest magnitude. The code of infinity continues the scale at
  \<open>2 ^ 128\<close>, which is what makes overflow round to it. A NaN result is the quiet NaN
  \<open>0x7FC00000\<close>. The lemmas say that rounding is monotone and exact on what is representable, which
  is all that the components' bounds need.
\<close>

named_theorems f32_simps "values and order of binary32"

subsection \<open>Bit patterns and their values\<close>

definition inf_mag :: int where
  "inf_mag = 0x7F800000"

definition mag_int :: "int \<Rightarrow> int" where
  "mag_int m =
     (if m < 0x800000 then m
      else (0x800000 + m mod 0x800000) * 2 ^ nat (m div 0x800000 - 1))"

definition f32_neg_bit :: "f32 \<Rightarrow> bool" where
  "f32_neg_bit x \<longleftrightarrow> 0x80000000 \<le> uint x"

definition f32_mag :: "f32 \<Rightarrow> int" where
  "f32_mag x = uint x mod 0x80000000"

definition f32_is_nan :: "f32 \<Rightarrow> bool" where
  "f32_is_nan x \<longleftrightarrow> inf_mag < f32_mag x"

definition f32_is_inf :: "f32 \<Rightarrow> bool" where
  "f32_is_inf x \<longleftrightarrow> f32_mag x = inf_mag"

definition f32_isfinite :: "f32 \<Rightarrow> bool" where
  "f32_isfinite x \<longleftrightarrow> f32_mag x < inf_mag"

text \<open>The value in units of \<open>2 ^ -149\<close> (infinities continue the scale at \<open>2 ^ 277\<close>).\<close>

definition f32_int :: "f32 \<Rightarrow> int" where
  "f32_int x = (if f32_neg_bit x then - mag_int (f32_mag x) else mag_int (f32_mag x))"

definition f32_mk :: "bool \<Rightarrow> int \<Rightarrow> f32" where
  "f32_mk neg m = word_of_int (m + (if neg then 0x80000000 else 0))"

definition f32_nan :: f32 where
  "f32_nan = 0x7FC00000"

subsection \<open>Rounding\<close>

text \<open>
  \<open>fp_search i acc num den\<close> sets the \<open>i\<close> low bits of \<open>acc\<close>, from the highest, as long as the
  magnitude's value stays at most \<open>num / den\<close>.
\<close>

fun fp_search :: "nat \<Rightarrow> int \<Rightarrow> int \<Rightarrow> int \<Rightarrow> int" where
  "fp_search 0 acc num den = acc"
| "fp_search (Suc i) acc num den =
     (if mag_int (acc + 2 ^ i) * den \<le> num then fp_search i (acc + 2 ^ i) num den
      else fp_search i acc num den)"

definition f32_rne :: "int \<Rightarrow> int \<Rightarrow> int" where
  "f32_rne num den =
     (let m = fp_search 31 0 num den;
          d = 2 * num - (mag_int m + mag_int (m + 1)) * den
      in if inf_mag \<le> m then inf_mag
         else if d < 0 \<or> d = 0 \<and> even m then m else m + 1)"

definition f32_round :: "bool \<Rightarrow> int \<Rightarrow> int \<Rightarrow> f32" where
  "f32_round neg num den = f32_mk neg (f32_rne num den)"

subsection \<open>Operations\<close>

definition f32_minus :: "f32 \<Rightarrow> f32" where
  "f32_minus x = f32_mk (\<not> f32_neg_bit x) (f32_mag x)"

definition f32_add :: "f32 \<Rightarrow> f32 \<Rightarrow> f32" where
  "f32_add x y =
     (if f32_is_nan x \<or> f32_is_nan y then f32_nan
      else if f32_is_inf x then
        (if f32_is_inf y \<and> f32_neg_bit x \<noteq> f32_neg_bit y then f32_nan else x)
      else if f32_is_inf y then y
      else let s = f32_int x + f32_int y in
        if s = 0 then f32_mk (f32_neg_bit x \<and> f32_neg_bit y) 0
        else f32_round (s < 0) \<bar>s\<bar> 1)"

definition f32_sub :: "f32 \<Rightarrow> f32 \<Rightarrow> f32" where
  "f32_sub x y = f32_add x (f32_minus y)"

definition f32_mul :: "f32 \<Rightarrow> f32 \<Rightarrow> f32" where
  "f32_mul x y =
     (let neg = (f32_neg_bit x \<noteq> f32_neg_bit y) in
      if f32_is_nan x \<or> f32_is_nan y then f32_nan
      else if f32_is_inf x \<or> f32_is_inf y then
        (if f32_mag x = 0 \<or> f32_mag y = 0 then f32_nan else f32_mk neg inf_mag)
      else f32_round neg (\<bar>f32_int x\<bar> * \<bar>f32_int y\<bar>) (2 ^ 149))"

definition f32_div :: "f32 \<Rightarrow> f32 \<Rightarrow> f32" where
  "f32_div x y =
     (let neg = (f32_neg_bit x \<noteq> f32_neg_bit y) in
      if f32_is_nan x \<or> f32_is_nan y then f32_nan
      else if f32_is_inf x then (if f32_is_inf y then f32_nan else f32_mk neg inf_mag)
      else if f32_is_inf y then f32_mk neg 0
      else if f32_mag y = 0 then (if f32_mag x = 0 then f32_nan else f32_mk neg inf_mag)
      else f32_round neg (\<bar>f32_int x\<bar> * 2 ^ 149) \<bar>f32_int y\<bar>)"

definition f32_lt :: "f32 \<Rightarrow> f32 \<Rightarrow> bool" where
  "f32_lt x y \<longleftrightarrow> \<not> f32_is_nan x \<and> \<not> f32_is_nan y \<and> f32_int x < f32_int y"

definition f32_le :: "f32 \<Rightarrow> f32 \<Rightarrow> bool" where
  "f32_le x y \<longleftrightarrow> \<not> f32_is_nan x \<and> \<not> f32_is_nan y \<and> f32_int x \<le> f32_int y"

definition f32_eq :: "f32 \<Rightarrow> f32 \<Rightarrow> bool" where
  "f32_eq x y \<longleftrightarrow> \<not> f32_is_nan x \<and> \<not> f32_is_nan y \<and> f32_int x = f32_int y"

text \<open>\<open>float(n)\<close> of an integer, \<open>int(f)\<close> of a finite float (truncation), \<open>std::max\<close>.\<close>

definition f32_of_int :: "int \<Rightarrow> f32" where
  "f32_of_int n = f32_round (n < 0) (\<bar>n\<bar> * 2 ^ 149) 1"

definition f32_to_int :: "f32 \<Rightarrow> int" where
  "f32_to_int x =
     (if f32_neg_bit x then - (mag_int (f32_mag x) div 2 ^ 149) else mag_int (f32_mag x) div 2 ^ 149)"

definition f32_max :: "f32 \<Rightarrow> f32 \<Rightarrow> f32" where
  "f32_max a b = (if f32_lt a b then b else a)"

definition f32_zero :: f32 where "f32_zero = 0"
definition f32_one :: f32 where "f32_one = 0x3F800000"
definition f32_half :: f32 where "f32_half = 0x3F000000"

subsection \<open>The magnitude scale is strictly increasing\<close>

lemma mag_int_step:
  assumes "0 \<le> m"
  shows "mag_int m < mag_int (m + 1)"
proof (cases "m < 0x800000")
  case True
  then show ?thesis
    by (cases "m = 0x7FFFFF") (auto simp: mag_int_def)
next
  case False
  define e where "e = m div 0x800000"
  define f where "f = m mod 0x800000"
  have m: "m = 0x800000 * e + f" and f: "0 \<le> f" "f < 0x800000"
    by (simp_all add: e_def f_def)
  have e: "1 \<le> e" using False m f by linarith
  show ?thesis
  proof (cases "f = 0x7FFFFF")
    case True
    then have m1: "m + 1 = 0x800000 * (e + 1)" using m by simp
    have v0: "mag_int m = 0xFFFFFF * 2 ^ nat (e - 1)"
      using False True e_def f_def by (simp add: mag_int_def)
    have v1: "mag_int (m + 1) = 0x800000 * 2 ^ nat e"
      using e by (simp add: mag_int_def m1)
    have "(2::int) ^ nat e = 2 * 2 ^ nat (e - 1)"
      using e by (simp flip: power_Suc add: nat_diff_distrib)
    then show ?thesis by (simp add: v0 v1)
  next
    case False
    then have "(m + 1) div 0x800000 = e" "(m + 1) mod 0x800000 = f + 1"
      using m f by (auto simp: div_pos_neg_trivial intro: int_div_pos_eq int_mod_pos_eq)
    then show ?thesis
      using \<open>\<not> m < 0x800000\<close> e_def f_def by (simp add: mag_int_def)
  qed
qed


lemma mag_int_less:
  assumes "0 \<le> m" "m < n"
  shows "mag_int m < mag_int n"
proof -
  have "mag_int m < mag_int (m + 1 + int k)" for k
  proof (induction k)
    case 0
    then show ?case using mag_int_step [OF assms(1)] by simp
  next
    case (Suc k)
    have "mag_int (m + 1 + int k) < mag_int (m + 1 + int k + 1)"
      using assms(1) by (intro mag_int_step) simp
    with Suc show ?case by (simp add: ac_simps)
  qed
  from this [of "nat (n - m - 1)"] show ?thesis using assms by simp
qed

lemma mag_int_le: "0 \<le> m \<Longrightarrow> m \<le> n \<Longrightarrow> mag_int m \<le> mag_int n"
  using mag_int_less [of m n] by (cases "m = n") auto

lemma mag_int_le_iff [f32_simps]:
  "0 \<le> m \<Longrightarrow> 0 \<le> n \<Longrightarrow> mag_int m \<le> mag_int n \<longleftrightarrow> m \<le> n"
  using mag_int_less [of n m] mag_int_le [of m n] by linarith

lemma mag_int_less_iff [f32_simps]:
  "0 \<le> m \<Longrightarrow> 0 \<le> n \<Longrightarrow> mag_int m < mag_int n \<longleftrightarrow> m < n"
  using mag_int_le_iff [of n m] by linarith

lemma mag_int_0 [simp]: "mag_int 0 = 0"
  by (simp add: mag_int_def)

lemma mag_int_nonneg: "0 \<le> m \<Longrightarrow> 0 \<le> mag_int m"
  using mag_int_le [of 0 m] by simp

lemma mag_int_pos: "0 < m \<Longrightarrow> 0 < mag_int m"
  using mag_int_less [of 0 m] by simp

lemma mag_int_eq_0_iff [f32_simps]: "0 \<le> m \<Longrightarrow> mag_int m = 0 \<longleftrightarrow> m = 0"
  using mag_int_pos [of m] by (cases "m = 0") auto

subsection \<open>The search finds the greatest magnitude below the value\<close>

lemma fp_search_range: "acc \<le> fp_search i acc num den \<and> fp_search i acc num den < acc + 2 ^ i"
proof (induction i arbitrary: acc)
  case 0
  then show ?case by simp
next
  case (Suc i)
  have "(0::int) < 2 ^ i" by simp
  then show ?case using Suc.IH [of acc] Suc.IH [of "acc + 2 ^ i"] by simp
qed

lemma fp_search_lower:
  "mag_int acc * den \<le> num \<Longrightarrow> mag_int (fp_search i acc num den) * den \<le> num"
  by (induction i arbitrary: acc) auto

lemma fp_search_upper:
  "fp_search i acc num den = acc + 2 ^ i - 1 \<or>
   num < mag_int (fp_search i acc num den + 1) * den"
proof (induction i arbitrary: acc)
  case 0
  then show ?case by simp
next
  case (Suc i)
  show ?case
  proof (cases "mag_int (acc + 2 ^ i) * den \<le> num")
    case True
    then show ?thesis using Suc.IH [of "acc + 2 ^ i"] by auto
  next
    case False
    then show ?thesis using Suc.IH [of acc] by auto
  qed
qed

lemma fp_search_unique:
  assumes "0 \<le> num" "0 < den" "0 \<le> m" "m < 0x80000000"
    and "mag_int m * den \<le> num" "num < mag_int (m + 1) * den"
  shows "fp_search 31 0 num den = m"
proof -
  let ?r = "fp_search 31 0 num den"
  have r: "0 \<le> ?r" "?r < 0x80000000" using fp_search_range [of 0 31 num den] by simp_all
  have lo: "mag_int ?r * den \<le> num" using assms(1) by (intro fp_search_lower) simp
  have "mag_int ?r * den < mag_int (m + 1) * den" using lo assms(6) by linarith
  then have "mag_int ?r < mag_int (m + 1)" using assms(2) by simp
  then have "?r \<le> m" using r assms(3) by (simp add: f32_simps)
  moreover have "m \<le> ?r"
  proof (rule ccontr)
    assume "\<not> m \<le> ?r"
    then have "num < mag_int (?r + 1) * den" and "?r + 1 \<le> m"
      using fp_search_upper [of 31 0 num den] assms(4) by auto
    then have "mag_int (?r + 1) * den \<le> mag_int m * den"
      using r assms(2) by (simp add: mag_int_le)
    then show False using \<open>num < mag_int (?r + 1) * den\<close> assms(5) by linarith
  qed
  ultimately show ?thesis by simp
qed

lemma fp_search_mono:
  assumes "0 \<le> num1" "0 < den1" "0 < den2" "num1 * den2 \<le> num2 * den1"
  shows "fp_search 31 0 num1 den1 \<le> fp_search 31 0 num2 den2"
proof -
  let ?r1 = "fp_search 31 0 num1 den1" and ?r2 = "fp_search 31 0 num2 den2"
  have r1: "0 \<le> ?r1" "?r1 < 0x80000000" using fp_search_range [of 0 31 num1 den1] by simp_all
  have r2: "0 \<le> ?r2" using fp_search_range [of 0 31 num2 den2] by simp
  have lo: "mag_int ?r1 * den1 \<le> num1" using assms(1) by (intro fp_search_lower) simp
  show ?thesis
  proof (rule ccontr)
    assume "\<not> ?r1 \<le> ?r2"
    then have up: "num2 < mag_int (?r2 + 1) * den2" and le: "?r2 + 1 \<le> ?r1"
      using fp_search_upper [of 31 0 num2 den2] r1 by auto
    have "mag_int ?r1 * den1 * den2 \<le> num1 * den2"
      using lo assms(3) by (simp add: mult_right_mono)
    also have "\<dots> \<le> num2 * den1" by (rule assms(4))
    also have "\<dots> < mag_int (?r2 + 1) * den2 * den1"
      using up assms(2) by (simp add: mult_strict_right_mono)
    finally have "mag_int ?r1 * (den1 * den2) < mag_int (?r2 + 1) * (den1 * den2)"
      by (simp add: ac_simps)
    then have "mag_int ?r1 < mag_int (?r2 + 1)" using assms(2,3) by simp
    then show False using le r2 by (simp add: f32_simps)
  qed
qed

subsection \<open>Rounding: range, exactness, monotonicity\<close>

lemma f32_rne_range: "0 \<le> f32_rne num den \<and> f32_rne num den \<le> inf_mag"
  using fp_search_range [of 0 31 num den]
  by (auto simp: f32_rne_def Let_def inf_mag_def)

lemma f32_rne_exact:
  assumes "0 \<le> m" "m \<le> inf_mag" "0 < den"
  shows "f32_rne (mag_int m * den) den = m"
proof -
  have "fp_search 31 0 (mag_int m * den) den = m"
    using assms mag_int_step [of m] mag_int_nonneg [of m]
    by (intro fp_search_unique) (simp_all add: inf_mag_def)
  moreover have "2 * (mag_int m * den) - (mag_int m + mag_int (m + 1)) * den < 0"
    using mag_int_step [of m] assms by (simp add: algebra_simps)
  ultimately show ?thesis using assms by (auto simp: f32_rne_def Let_def)
qed

lemma cross_sign:
  fixes x y :: int
  assumes "0 < a" "0 < b" "x * b \<le> y * a"
  shows "(0 \<le> x \<longrightarrow> 0 \<le> y) \<and> (0 < x \<longrightarrow> 0 < y)"
proof (intro conjI impI)
  assume "0 \<le> x"
  then have "0 \<le> y * a" using assms(2,3) by (meson mult_nonneg_nonneg order_trans less_imp_le)
  then show "0 \<le> y" using assms(1) by (simp add: zero_le_mult_iff)
next
  assume "0 < x"
  then have "0 < y * a" using assms(2,3) by (meson mult_pos_pos less_le_trans)
  then show "0 < y" using assms(1) by (simp add: zero_less_mult_iff)
qed

lemma f32_rne_mono:
  assumes "0 \<le> num1" "0 < den1" "0 < den2" "num1 * den2 \<le> num2 * den1"
  shows "f32_rne num1 den1 \<le> f32_rne num2 den2"
proof -
  define m1 m2 where m: "m1 = fp_search 31 0 num1 den1" "m2 = fp_search 31 0 num2 den2"
  have le: "m1 \<le> m2" unfolding m using assms by (rule fp_search_mono)
  show ?thesis
  proof (cases "m1 = m2")
    case False
    then show ?thesis using le by (auto simp: f32_rne_def Let_def m [symmetric])
  next
    case True
    define s where "s = mag_int m1 + mag_int (m1 + 1)"
    define x y where xy: "x = 2 * num1 - s * den1" "y = 2 * num2 - s * den2"
    have "x * den2 \<le> y * den1"
      using assms(4) by (simp add: xy algebra_simps)
    then have nn: "0 \<le> x \<Longrightarrow> 0 \<le> y" and pos: "0 < x \<Longrightarrow> 0 < y"
      using cross_sign [of den1 den2 x y] assms(2,3) by auto
    have r1: "f32_rne num1 den1 =
        (if inf_mag \<le> m1 then inf_mag else if x < 0 \<or> x = 0 \<and> even m1 then m1 else m1 + 1)"
      by (simp add: f32_rne_def Let_def m [symmetric] xy s_def)
    have r2: "f32_rne num2 den2 =
        (if inf_mag \<le> m1 then inf_mag else if y < 0 \<or> y = 0 \<and> even m1 then m1 else m1 + 1)"
      using True by (simp add: f32_rne_def Let_def m [symmetric] xy s_def)
    show ?thesis using nn pos unfolding r1 r2 by (cases "x < 0"; cases "x = 0") auto
  qed
qed

lemma f32_rne_le_mag:
  assumes "0 \<le> num" "0 < den" "0 \<le> m" "m \<le> inf_mag" "num \<le> mag_int m * den"
  shows "f32_rne num den \<le> m"
proof -
  have "f32_rne num den \<le> f32_rne (mag_int m * den) den"
    using assms by (intro f32_rne_mono) (simp_all add: mult_right_mono)
  then show ?thesis using f32_rne_exact [of m den] assms by simp
qed

lemma f32_rne_ge_mag:
  assumes "0 < den" "0 \<le> m" "m \<le> inf_mag" "mag_int m * den \<le> num"
  shows "m \<le> f32_rne num den"
proof -
  have "f32_rne (mag_int m * den) den \<le> f32_rne num den"
    using assms mag_int_nonneg [of m] by (intro f32_rne_mono) (simp_all add: mult_right_mono)
  then show ?thesis using f32_rne_exact [of m den] assms by simp
qed


subsection \<open>Fields of a built pattern\<close>

lemma f32_mag_range: "0 \<le> f32_mag x" "f32_mag x < 0x80000000"
  by (simp_all add: f32_mag_def)

lemma uint_f32_mk:
  assumes "0 \<le> m" "m < 0x80000000"
  shows "uint (f32_mk neg m) = m + (if neg then 0x80000000 else 0)"
proof -
  have "uint (f32_mk neg m) = (m + (if neg then 0x80000000 else 0)) mod 2 ^ LENGTH(32)"
    unfolding f32_mk_def by (rule uint_word_of_int)
  with assms show ?thesis by simp
qed

lemma f32_mag_mk [f32_simps]: "0 \<le> m \<Longrightarrow> m < 0x80000000 \<Longrightarrow> f32_mag (f32_mk neg m) = m"
  by (simp add: f32_mag_def uint_f32_mk)

lemma f32_neg_mk [f32_simps]: "0 \<le> m \<Longrightarrow> m < 0x80000000 \<Longrightarrow> f32_neg_bit (f32_mk neg m) = neg"
  by (simp add: f32_neg_bit_def uint_f32_mk)

lemma uint_fields: "uint x = f32_mag x + (if f32_neg_bit x then 0x80000000 else 0)"
proof (cases "f32_neg_bit x")
  case True
  then have "0x80000000 \<le> uint x" by (simp add: f32_neg_bit_def)
  moreover have "uint x < 2 * 0x80000000" using uint_lt2p [of x] by simp
  ultimately have "(uint x - 0x80000000) mod 0x80000000 = uint x - 0x80000000"
    by (intro mod_pos_pos_trivial) simp_all
  then have "uint x mod 0x80000000 = uint x - 0x80000000"
    by (simp only: minus_mod_self2)
  with True show ?thesis by (simp add: f32_mag_def)
next
  case False
  then show ?thesis by (simp add: f32_mag_def f32_neg_bit_def)
qed

lemma f32_mk_fields [simp]: "f32_mk (f32_neg_bit x) (f32_mag x) = x"
proof -
  have "uint (f32_mk (f32_neg_bit x) (f32_mag x)) = uint x"
    using f32_mag_range [of x] uint_fields [of x] by (simp only: uint_f32_mk)
  then show ?thesis by (rule word_uint_eqI)
qed

lemma f32_eqI:
  assumes "f32_neg_bit x = f32_neg_bit y" "f32_mag x = f32_mag y"
  shows "x = y"
proof -
  have "uint x = uint y" using assms by (simp only: uint_fields)
  then show ?thesis by (rule word_uint_eqI)
qed

lemma f32_nan_is_nan [simp]: "f32_is_nan f32_nan"
  by (simp add: f32_is_nan_def f32_nan_def f32_mag_def inf_mag_def)

lemma f32_int_zero [simp]: "f32_int f32_zero = 0" "\<not> f32_is_nan f32_zero"
  by (simp_all add: f32_int_def f32_zero_def f32_is_nan_def f32_mag_def inf_mag_def)

lemma f32_int_one [simp]: "f32_int f32_one = 2 ^ 149" "\<not> f32_is_nan f32_one"
  by (simp_all add: f32_int_def f32_one_def f32_is_nan_def f32_mag_def inf_mag_def
      f32_neg_bit_def mag_int_def)

lemma f32_int_half [simp]: "f32_int f32_half = 2 ^ 148" "\<not> f32_is_nan f32_half"
  by (simp_all add: f32_int_def f32_half_def f32_is_nan_def f32_mag_def inf_mag_def
      f32_neg_bit_def mag_int_def)

subsection \<open>Non-negative numbers\<close>

text \<open>A number that is not NaN and not below zero; \<open>+inf\<close> and \<open>-0\<close> are included.\<close>

definition f32_nonneg :: "f32 \<Rightarrow> bool" where
  "f32_nonneg x \<longleftrightarrow> \<not> f32_is_nan x \<and> 0 \<le> f32_int x"

lemma f32_nonneg_consts [simp]:
  "f32_nonneg f32_zero" "f32_nonneg f32_one" "f32_nonneg f32_half"
  by (simp_all add: f32_nonneg_def)

lemma f32_nonneg_int: "f32_nonneg x \<Longrightarrow> f32_int x = mag_int (f32_mag x)"
  using mag_int_nonneg [of "f32_mag x"] f32_mag_range [of x]
  by (auto simp: f32_nonneg_def f32_int_def)

lemma f32_nonneg_mag_le: "f32_nonneg x \<Longrightarrow> f32_mag x \<le> inf_mag"
  by (simp add: f32_nonneg_def f32_is_nan_def)

lemma inf_mag_bounds: "0 \<le> inf_mag" "inf_mag < 0x80000000"
  by (simp_all add: inf_mag_def)

lemma f32_int_mk_pos:
  "0 \<le> m \<Longrightarrow> m \<le> inf_mag \<Longrightarrow> f32_int (f32_mk False m) = mag_int m"
  using inf_mag_bounds by (simp add: f32_int_def f32_simps)

lemma f32_nan_mk: "0 \<le> m \<Longrightarrow> m \<le> inf_mag \<Longrightarrow> \<not> f32_is_nan (f32_mk neg m)"
  using inf_mag_bounds by (simp add: f32_is_nan_def f32_simps)

lemma f32_round_pos:
  "f32_int (f32_round False num den) = mag_int (f32_rne num den)"
  "f32_nonneg (f32_round False num den)"
  using f32_rne_range [of num den] mag_int_nonneg
  by (simp_all add: f32_round_def f32_int_mk_pos f32_nonneg_def f32_nan_mk)

lemma f32_round_le:
  assumes "f32_nonneg b" "0 \<le> num" "0 < den" "num \<le> f32_int b * den"
  shows "f32_int (f32_round False num den) \<le> f32_int b"
proof -
  have "f32_rne num den \<le> f32_mag b"
    using assms f32_nonneg_int [OF assms(1)] f32_mag_range [of b] f32_nonneg_mag_le [OF assms(1)]
    by (intro f32_rne_le_mag) simp_all
  then show ?thesis
    using f32_rne_range [of num den] f32_nonneg_int [OF assms(1)] f32_mag_range [of b]
    by (simp add: f32_round_pos mag_int_le)
qed

lemma f32_round_ge:
  assumes "f32_nonneg b" "0 < den" "f32_int b * den \<le> num"
  shows "f32_int b \<le> f32_int (f32_round False num den)"
proof -
  have "f32_mag b \<le> f32_rne num den"
    using assms f32_nonneg_int [OF assms(1)] f32_mag_range [of b] f32_nonneg_mag_le [OF assms(1)]
    by (intro f32_rne_ge_mag) simp_all
  then show ?thesis
    using f32_mag_range [of b] f32_nonneg_int [OF assms(1)]
    by (simp add: f32_round_pos mag_int_le)
qed


subsection \<open>Arithmetic on non-negative numbers\<close>

lemma f32_nonneg_neg_bit: "f32_nonneg x \<Longrightarrow> f32_neg_bit x \<Longrightarrow> f32_mag x = 0"
  using mag_int_pos [of "f32_mag x"] f32_mag_range [of x]
  by (cases "f32_mag x = 0") (auto simp: f32_nonneg_def f32_int_def)

lemma f32_int_inf: "f32_is_inf x \<Longrightarrow> f32_nonneg x \<Longrightarrow> f32_int x = mag_int inf_mag"
  by (simp add: f32_nonneg_int f32_is_inf_def)

lemma f32_int_le_inf: "f32_nonneg x \<Longrightarrow> f32_int x \<le> mag_int inf_mag"
  using f32_nonneg_mag_le [of x] f32_mag_range [of x] by (simp add: f32_nonneg_int mag_int_le)

lemma f32_add_nonneg_cases:
  assumes "f32_nonneg x" "f32_nonneg y"
  obtains (inf) "f32_add x y = x" "f32_is_inf x" | (inf2) "f32_add x y = y" "f32_is_inf y"
  | (zero) "f32_int x = 0" "f32_int y = 0" "f32_nonneg (f32_add x y)" "f32_int (f32_add x y) = 0"
  | (pos) "f32_add x y = f32_round False (f32_int x + f32_int y) 1"
proof -
  have n: "\<not> f32_is_nan x" "\<not> f32_is_nan y" "0 \<le> f32_int x" "0 \<le> f32_int y"
    using assms by (simp_all add: f32_nonneg_def)
  have s: "\<not> (f32_is_inf x \<and> f32_is_inf y \<and> f32_neg_bit x \<noteq> f32_neg_bit y)"
    using f32_nonneg_neg_bit [OF assms(1)] f32_nonneg_neg_bit [OF assms(2)]
    by (auto simp: f32_is_inf_def inf_mag_def)
  show thesis
  proof (cases "f32_is_inf x \<or> f32_is_inf y")
    case True
    then have "f32_add x y = x \<and> f32_is_inf x \<or> f32_add x y = y \<and> f32_is_inf y"
      using n s by (auto simp: f32_add_def)
    then show thesis using inf inf2 by blast
  next
    case False
    show thesis
    proof (cases "f32_int x + f32_int y = 0")
      case True
      then have "f32_add x y = f32_mk (f32_neg_bit x \<and> f32_neg_bit y) 0"
        using False n by (simp add: f32_add_def)
      then have "f32_nonneg (f32_add x y)" "f32_int (f32_add x y) = 0"
        by (simp_all add: f32_nonneg_def f32_nan_mk inf_mag_def f32_int_def f32_simps)
      then show thesis using zero True n by auto
    next
      case ne: False
      then have "f32_add x y = f32_round False (f32_int x + f32_int y) 1"
        using False n by (simp add: f32_add_def Let_def)
      then show thesis by (rule pos)
    qed
  qed
qed

lemma f32_add_nonneg [intro]: "f32_nonneg x \<Longrightarrow> f32_nonneg y \<Longrightarrow> f32_nonneg (f32_add x y)"
  by (rule f32_add_nonneg_cases [of x y]) (auto simp: f32_round_pos)

lemma f32_add_ge_left:
  assumes "f32_nonneg x" "f32_nonneg y"
  shows "f32_int x \<le> f32_int (f32_add x y)"
  using assms
proof (cases rule: f32_add_nonneg_cases)
  case inf2
  then show ?thesis using f32_int_le_inf [OF assms(1)] f32_int_inf assms(2) by simp
next
  case pos
  then show ?thesis
    using assms f32_round_ge [OF assms(1), of 1 "f32_int x + f32_int y"]
    by (simp add: f32_nonneg_def)
qed simp_all

lemma f32_add_ge_right:
  assumes "f32_nonneg x" "f32_nonneg y"
  shows "f32_int y \<le> f32_int (f32_add x y)"
  using assms
proof (cases rule: f32_add_nonneg_cases)
  case inf
  then show ?thesis using f32_int_le_inf [OF assms(2)] f32_int_inf assms(1) by simp
next
  case pos
  then show ?thesis
    using assms f32_round_ge [OF assms(2), of 1 "f32_int x + f32_int y"]
    by (simp add: f32_nonneg_def)
qed simp_all

lemma f32_add_le:
  assumes "f32_nonneg x" "f32_nonneg y" "f32_nonneg b" "f32_int x + f32_int y \<le> f32_int b"
  shows "f32_int (f32_add x y) \<le> f32_int b"
  using assms(1,2)
proof (cases rule: f32_add_nonneg_cases)
  case pos
  then show ?thesis
    using assms f32_round_le [OF assms(3), of "f32_int x + f32_int y" 1]
    by (simp add: f32_nonneg_def)
qed (use assms in \<open>auto simp: f32_nonneg_def\<close>)

lemma f32_mul_round:
  assumes "f32_isfinite x" "f32_isfinite y" "f32_nonneg x" "f32_nonneg y"
    and "\<not> f32_neg_bit x" "\<not> f32_neg_bit y"
  shows "f32_mul x y = f32_round False (f32_int x * f32_int y) (2 ^ 149)"
  using assms by (simp add: f32_mul_def Let_def f32_isfinite_def f32_is_nan_def f32_is_inf_def f32_nonneg_def)

lemma f32_div_round:
  assumes "f32_isfinite x" "f32_isfinite y" "f32_nonneg x" "0 < f32_int y"
    and "\<not> f32_neg_bit x" "\<not> f32_neg_bit y"
  shows "f32_div x y = f32_round False (f32_int x * 2 ^ 149) (f32_int y)"
  using assms mag_int_0
  by (auto simp: f32_div_def Let_def f32_isfinite_def f32_is_nan_def f32_is_inf_def f32_nonneg_def f32_int_def)

subsection \<open>Whole numbers\<close>

lemma mag_int_whole:
  assumes "0 < n" "n \<le> 16777216"
  obtains m where "0 \<le> m" "m \<le> inf_mag" "mag_int m = n * 2 ^ 149" "m < inf_mag"
proof -
  have "1 \<le> nat n" using assms(1) by simp
  from ex_power_ivl1 [OF order.refl this]
  obtain k where k: "2 ^ k \<le> nat n" "nat n < 2 ^ (k + 1)" by auto
  have ni: "int (nat n) = n" using assms(1) by simp
  have "int (2 ^ k) \<le> int (nat n)" "int (nat n) < int (2 ^ (k + 1))"
    using k by (simp_all only: of_nat_le_iff of_nat_less_iff)
  then have ki: "2 ^ k \<le> n" "n < 2 * 2 ^ k" using assms(1) by (simp_all split: if_splits)
  show thesis
  proof (cases "n = 16777216")
    case True
    show thesis
      by (rule that [of "151 * 0x800000"]) (simp_all add: mag_int_def inf_mag_def True)
  next
    case False
    have "k < 24"
    proof (rule ccontr)
      assume "\<not> k < 24"
      then have "(2::int) ^ 24 \<le> 2 ^ k" by (intro power_increasing) simp_all
      then show False using ki False assms(2) by simp
    qed
    define f where "f = n * 2 ^ (23 - k) - 0x800000"
    have p: "(2::int) ^ k * 2 ^ (23 - k) = 0x800000"
      using \<open>k < 24\<close> by (simp flip: power_add)
    have "2 ^ k * 2 ^ (23 - k) \<le> n * 2 ^ (23 - k)" "n * 2 ^ (23 - k) < 2 * 2 ^ k * 2 ^ (23 - k)"
      using ki by (simp_all add: mult_right_mono)
    then have f: "0 \<le> f" "f < 0x800000" using p by (simp_all add: f_def ac_simps)
    define m where "m = f + int (127 + k) * 0x800000"
    have "m mod 0x800000 = f mod 0x800000" unfolding m_def by (rule mod_mult_self1)
    moreover have "m div 0x800000 = int (127 + k) + f div 0x800000"
      unfolding m_def by (rule div_mult_self1) simp
    ultimately have dm: "m div 0x800000 = int (127 + k)" "m mod 0x800000 = f"
      using f by simp_all
    have big: "\<not> m < 0x800000" using f by (simp add: m_def)
    have "nat (int (127 + k) - 1) = 126 + k" by simp
    then have "mag_int m = (0x800000 + f) * 2 ^ (126 + k)"
      using big dm by (simp add: mag_int_def)
    also have "\<dots> = n * (2 ^ (23 - k) * 2 ^ (126 + k))" by (simp add: f_def)
    also have "(2::int) ^ (23 - k) * 2 ^ (126 + k) = 2 ^ 149"
      using \<open>k < 24\<close> by (simp flip: power_add)
    finally have "mag_int m = n * 2 ^ 149" .
    moreover have "0 \<le> m" "m < inf_mag"
      using f \<open>k < 24\<close> by (simp_all add: m_def inf_mag_def)
    ultimately show thesis by (intro that) simp_all
  qed
qed

text \<open>\<open>float(n)\<close> is exact up to \<open>2 ^ 24\<close>, and truncating it back gives \<open>n\<close>.\<close>

lemma f32_of_int_exact:
  assumes "0 \<le> n" "n \<le> 16777216"
  shows "f32_nonneg (f32_of_int n)" "f32_int (f32_of_int n) = n * 2 ^ 149"
    "\<not> f32_neg_bit (f32_of_int n)" "f32_isfinite (f32_of_int n)"
proof -
  have r: "f32_of_int n = f32_round False (n * 2 ^ 149) 1"
    using assms by (simp add: f32_of_int_def)
  obtain m where m: "0 \<le> m" "m \<le> inf_mag" "mag_int m = n * 2 ^ 149" "m < inf_mag"
  proof (cases "n = 0")
    case True
    then show thesis by (intro that [of 0]) (simp_all add: inf_mag_def)
  next
    case False
    then show thesis using mag_int_whole [of n] assms that by (metis le_less)
  qed
  have "f32_rne (n * 2 ^ 149) 1 = m" using f32_rne_exact [of m 1] m by simp
  then have "f32_of_int n = f32_mk False m" by (simp add: r f32_round_def)
  with m show "f32_nonneg (f32_of_int n)" "f32_int (f32_of_int n) = n * 2 ^ 149"
    "\<not> f32_neg_bit (f32_of_int n)" "f32_isfinite (f32_of_int n)"
    using inf_mag_bounds assms
    by (simp_all add: f32_nonneg_def f32_nan_mk f32_int_mk_pos f32_simps f32_isfinite_def)
qed

lemma f32_to_int_nonneg: "f32_nonneg x \<Longrightarrow> f32_to_int x = f32_int x div 2 ^ 149"
  using f32_nonneg_neg_bit [of x] by (auto simp: f32_to_int_def f32_nonneg_int)

lemma f32_to_int_mono:
  assumes "f32_nonneg x" "f32_nonneg y" "f32_int x \<le> f32_int y"
  shows "f32_to_int x \<le> f32_to_int y"
  using assms by (simp add: f32_to_int_nonneg zdiv_mono1)

lemma f32_to_int_of_int: "0 \<le> n \<Longrightarrow> n \<le> 16777216 \<Longrightarrow> f32_to_int (f32_of_int n) = n"
  by (simp add: f32_to_int_nonneg f32_of_int_exact)

subsection \<open>The unit interval\<close>

text \<open>Numbers between 0 and 1: decay factors, sigmoid outputs, probabilities.\<close>

definition f32_unit :: "f32 \<Rightarrow> bool" where
  "f32_unit x \<longleftrightarrow> \<not> f32_is_nan x \<and> \<not> f32_neg_bit x \<and> f32_int x \<le> 2 ^ 149"

lemma f32_unit_facts:
  assumes "f32_unit x"
  shows "f32_nonneg x" "f32_isfinite x" "\<not> f32_neg_bit x" "0 \<le> f32_int x" "f32_int x \<le> 2 ^ 149"
proof -
  show nb: "\<not> f32_neg_bit x" and le: "f32_int x \<le> 2 ^ 149" using assms by (simp_all add: f32_unit_def)
  show "0 \<le> f32_int x" using nb f32_mag_range [of x] by (simp add: f32_int_def mag_int_nonneg)
  then show nn: "f32_nonneg x" using assms by (simp add: f32_nonneg_def f32_unit_def)
  have "mag_int (f32_mag x) \<le> 2 ^ 149" using le f32_nonneg_int [OF nn] by simp
  moreover have "2 ^ 149 < mag_int inf_mag" by (simp add: mag_int_def inf_mag_def)
  ultimately have "mag_int (f32_mag x) < mag_int inf_mag" by linarith
  then show "f32_isfinite x"
    using f32_mag_range [of x] inf_mag_bounds by (simp add: f32_isfinite_def mag_int_less_iff)
qed

subsection \<open>Order\<close>

lemma f32_lt_irrefl [simp]: "\<not> f32_lt x x"
  by (simp add: f32_lt_def)

lemma f32_lt_trans: "f32_lt x y \<Longrightarrow> f32_lt y z \<Longrightarrow> f32_lt x z"
  by (simp add: f32_lt_def)

lemma f32_lt_asym: "f32_lt x y \<Longrightarrow> \<not> f32_lt y x"
  by (simp add: f32_lt_def)

lemma f32_not_lt_iff:
  "\<not> f32_is_nan x \<Longrightarrow> \<not> f32_is_nan y \<Longrightarrow> \<not> f32_lt x y \<longleftrightarrow> f32_int y \<le> f32_int x"
  by (auto simp: f32_lt_def)

end
