(* ===== verification/Placement.thy ===== *)
theory Placement
  imports Prelude Float32
begin

text \<open>
  \<open>engine/placement.h\<close>, \<open>engine/placement.cpp\<close>: the placement director. Its state is the two
  budgets and the access counts; a C \<open>int\<close> count that would pass \<open>INT_MAX\<close> is undefined behaviour
  and makes \<open>recordAccess\<close> return \<^const>\<open>None\<close>. The tiers are ordered as their numeric values are.
\<close>

datatype PlacementTier = HDD | RAM | VRAM

fun tier_rank :: "PlacementTier \<Rightarrow> nat" where
  "tier_rank HDD = 0"
| "tier_rank RAM = 1"
| "tier_rank VRAM = 2"

lemma tier_rank_inj: "tier_rank a = tier_rank b \<Longrightarrow> a = b"
  by (cases a; cases b) auto

instantiation PlacementTier :: linorder
begin

definition less_eq_PlacementTier :: "PlacementTier \<Rightarrow> PlacementTier \<Rightarrow> bool" where
  "less_eq_PlacementTier a b \<longleftrightarrow> tier_rank a \<le> tier_rank b"

definition less_PlacementTier :: "PlacementTier \<Rightarrow> PlacementTier \<Rightarrow> bool" where
  "less_PlacementTier a b \<longleftrightarrow> tier_rank a < tier_rank b"

instance
  by standard (auto simp: less_eq_PlacementTier_def less_PlacementTier_def dest: tier_rank_inj)

end

record placement_director =
  vramBudget :: u64
  ramBudget :: u64
  accessCounts :: "u64 \<rightharpoonup> int"

definition PlacementDirector :: placement_director where
  "PlacementDirector = \<lparr>vramBudget = 6 * 1024 * 1024 * 1024, ramBudget = 64 * 1024 * 1024 * 1024,
     accessCounts = Map.empty\<rparr>"

definition setVramBudget :: "u64 \<Rightarrow> placement_director \<Rightarrow> placement_director" where
  "setVramBudget n p = p\<lparr>vramBudget := n\<rparr>"

definition setRamBudget :: "u64 \<Rightarrow> placement_director \<Rightarrow> placement_director" where
  "setRamBudget n p = p\<lparr>ramBudget := n\<rparr>"

definition heatKey :: "int \<Rightarrow> int \<Rightarrow> u64" where
  "heatKey layer expertId = word_of_int layer * 65536 + word_of_int expertId"

definition recordAccess :: "int \<Rightarrow> int \<Rightarrow> placement_director \<Rightarrow> placement_director option" where
  "recordAccess layer expertId p =
     (let key = heatKey layer expertId;
          n = (case accessCounts p key of None \<Rightarrow> 0 | Some n \<Rightarrow> n)
      in if n = 2147483647 then None
         else Some (p\<lparr>accessCounts := (accessCounts p)(key \<mapsto> n + 1)\<rparr>))"

definition getAccessCount :: "int \<Rightarrow> int \<Rightarrow> placement_director \<Rightarrow> int" where
  "getAccessCount layer expertId p =
     (case accessCounts p (heatKey layer expertId) of None \<Rightarrow> 0 | Some n \<Rightarrow> n)"

definition tier_of_count :: "int \<Rightarrow> PlacementTier" where
  "tier_of_count accessCount =
     (if 100 < accessCount then VRAM else if 10 < accessCount then RAM else HDD)"

definition decideExpertPlacement :: "int \<Rightarrow> int \<Rightarrow> placement_director \<Rightarrow> PlacementTier" where
  "decideExpertPlacement layer expertId p =
     (let count = getAccessCount layer expertId p in
      if 100 < count then VRAM else if 10 < count then RAM else HDD)"

definition decideDensePlacement :: "string \<Rightarrow> u64 \<Rightarrow> PlacementTier" where
  "decideDensePlacement name sz =
     (if str_contains ''gate'' name then VRAM
      else if str_contains ''embed_tokens'' name \<or> str_contains ''lm_head'' name then VRAM
      else if str_contains ''self_attn'' name then RAM
      else if str_contains ''shared_experts'' name then RAM
      else RAM)"

definition decayHeat :: "f32 \<Rightarrow> placement_director \<Rightarrow> placement_director" where
  "decayHeat factor p = p\<lparr>accessCounts :=
     (\<lambda>key. map_option (\<lambda>count. f32_to_int (f32_mul (f32_of_int count) factor)) (accessCounts p key))\<rparr>"

definition resetHeat :: "placement_director \<Rightarrow> placement_director" where
  "resetHeat p = p\<lparr>accessCounts := Map.empty\<rparr>"

subsection \<open>Lemmas\<close>

definition counts_ok :: "placement_director \<Rightarrow> bool" where
  "counts_ok p \<longleftrightarrow> (\<forall>key n. accessCounts p key = Some n \<longrightarrow> 0 \<le> n \<and> n \<le> 2147483647)"

definition expert_range :: "int \<times> int \<Rightarrow> bool" where
  "expert_range = (\<lambda>(layer, e). 0 \<le> layer \<and> layer < 2147483648 \<and> 0 \<le> e \<and> e < 65536)"

lemma uint_heatKey:
  assumes "expert_range (layer, e)"
  shows "uint (heatKey layer e) = layer * 65536 + e"
proof -
  have "heatKey layer e = word_of_int (layer * 65536 + e)" by (simp add: heatKey_def)
  then have "uint (heatKey layer e) = (layer * 65536 + e) mod 2 ^ LENGTH(64)"
    by (simp only: uint_word_of_int)
  then show ?thesis using assms by (simp add: expert_range_def)
qed

lemma heatKey_inj:
  assumes "expert_range a" "expert_range b" "heatKey (fst a) (snd a) = heatKey (fst b) (snd b)"
  shows "a = b"
proof -
  obtain l e l' e' where ab: "a = (l, e)" "b = (l', e')" by fastforce
  have eq: "l * 65536 + e = l' * 65536 + e'"
    using assms uint_heatKey [of l e] uint_heatKey [of l' e'] by (simp add: ab)
  have r: "0 \<le> e" "e < 65536" "0 \<le> e'" "e' < 65536" using assms by (auto simp: ab expert_range_def)
  have "l = l'"
  proof (rule ccontr)
    assume "l \<noteq> l'"
    then consider "l + 1 \<le> l'" | "l' + 1 \<le> l" by linarith
    then show False using eq r by cases linarith+
  qed
  then show ?thesis using eq by (simp add: ab)
qed

lemma decideExpertPlacement_count:
  "decideExpertPlacement layer e p = tier_of_count (getAccessCount layer e p)"
  by (simp add: decideExpertPlacement_def tier_of_count_def Let_def)

lemma tier_of_count_mono: "m \<le> n \<Longrightarrow> tier_of_count m \<le> tier_of_count n"
  by (auto simp: tier_of_count_def less_eq_PlacementTier_def)

text \<open>\<open>int(count * factor)\<close> for a factor between 0 and 1: never more than the count.\<close>

lemma decayed_le:
  assumes "f32_unit x" "0 \<le> n" "n \<le> 16777216"
  shows "0 \<le> f32_to_int (f32_mul (f32_of_int n) x)" "f32_to_int (f32_mul (f32_of_int n) x) \<le> n"
proof -
  note f = f32_unit_facts [OF assms(1)] and e = f32_of_int_exact [OF assms(2,3)]
  have m: "f32_mul (f32_of_int n) x = f32_round False (n * 2 ^ 149 * f32_int x) (2 ^ 149)"
    using f32_mul_round [of "f32_of_int n" x] f e by simp
  have le: "f32_int (f32_mul (f32_of_int n) x) \<le> f32_int (f32_of_int n)"
    unfolding m
  proof (rule f32_round_le)
    show "n * 2 ^ 149 * f32_int x \<le> f32_int (f32_of_int n) * 2 ^ 149"
      unfolding e(2) using f(4,5) assms(2) by (intro mult_left_mono) simp_all
  qed (use f e assms(2) in simp_all)
  have nn: "f32_nonneg (f32_mul (f32_of_int n) x)" unfolding m by (rule f32_round_pos)
  then show "0 \<le> f32_to_int (f32_mul (f32_of_int n) x)"
    by (simp add: f32_to_int_nonneg f32_nonneg_def pos_imp_zdiv_nonneg_iff)
  show "f32_to_int (f32_mul (f32_of_int n) x) \<le> n"
    using f32_to_int_mono [OF nn e(1) le] f32_to_int_of_int [of n] assms by simp
qed

lemma recordAccess_count:
  assumes "expert_range a" "expert_range b" "recordAccess (fst a) (snd a) p = Some p'"
  shows "getAccessCount (fst b) (snd b) p' = getAccessCount (fst b) (snd b) p + (if a = b then 1 else 0)"
  using assms heatKey_inj [OF assms(1,2)]
  by (auto simp: recordAccess_def getAccessCount_def Let_def split: if_splits option.splits)

fun recordAll :: "(int \<times> int) list \<Rightarrow> placement_director \<Rightarrow> placement_director option" where
  "recordAll [] p = Some p"
| "recordAll (a # as) p = Option.bind (recordAccess (fst a) (snd a) p) (recordAll as)"

lemma recordAll_count:
  assumes "\<forall>a \<in> set as. expert_range a" "expert_range b" "recordAll as p = Some p'"
  shows "getAccessCount (fst b) (snd b) p' = getAccessCount (fst b) (snd b) p + int (count_list as b)"
  using assms
proof (induction as arbitrary: p)
  case (Cons a as)
  then obtain p1 where p1: "recordAccess (fst a) (snd a) p = Some p1" "recordAll as p1 = Some p'"
    by (auto simp: bind_eq_Some_conv)
  show ?case using Cons.IH [OF _ _ p1(2)] recordAccess_count [OF _ _ p1(1), of b] Cons.prems by auto
qed simp

lemma recordAll_defined:
  assumes "\<forall>a \<in> set as. expert_range a" "\<forall>key. (case accessCounts p key of None \<Rightarrow> 0 | Some n \<Rightarrow> n)
     + int (length as) < 2147483648"
  shows "\<exists>p'. recordAll as p = Some p'"
  using assms
proof (induction as arbitrary: p)
  case (Cons a as)
  let ?k = "heatKey (fst a) (snd a)"
  from Cons.prems(2) have "(case accessCounts p ?k of None \<Rightarrow> 0 | Some n \<Rightarrow> n) < 2147483647"
    by (auto dest: spec [of _ ?k])
  then obtain p1 where p1: "recordAccess (fst a) (snd a) p = Some p1"
    and c1: "accessCounts p1 = (accessCounts p)(?k \<mapsto> (case accessCounts p ?k of None \<Rightarrow> 0 | Some n \<Rightarrow> n) + 1)"
    by (auto simp: recordAccess_def Let_def)
  have "\<forall>key. (case accessCounts p1 key of None \<Rightarrow> 0 | Some n \<Rightarrow> n) + int (length as) < 2147483648"
  proof
    fix key
    show "(case accessCounts p1 key of None \<Rightarrow> 0 | Some n \<Rightarrow> n) + int (length as) < 2147483648"
      using Cons.prems(2) [rule_format, of key] by (auto simp: c1 split: option.splits)
  qed
  from Cons.IH [OF _ this] Cons.prems(1) p1 show ?case by simp
qed simp

subsection \<open>Properties\<close>

text \<open>
  After any history of routed experts (layers and ids in range, fewer than \<open>2 ^ 31\<close> accesses)
  on a reset director, an expert's tier is a function of how often it occurs in that history:
  distinct experts never share a counter.
\<close>

theorem placement_of_history:
  assumes "\<forall>a \<in> set as. expert_range a" "expert_range b" "length as < 2147483648"
  shows "\<exists>p'. recordAll as (resetHeat p) = Some p' \<and>
     decideExpertPlacement (fst b) (snd b) p' = tier_of_count (int (count_list as b))"
proof -
  have "\<exists>p'. recordAll as (resetHeat p) = Some p'"
    using assms by (intro recordAll_defined) (simp_all add: resetHeat_def)
  then obtain p' where p': "recordAll as (resetHeat p) = Some p'" by auto
  have "getAccessCount (fst b) (snd b) (resetHeat p) = 0" by (simp add: getAccessCount_def resetHeat_def)
  with recordAll_count [OF assms(1,2) p'] p' show ?thesis by (simp add: decideExpertPlacement_count)
qed

lemma placement_of_history_witness:
  "\<exists>p'. recordAll (replicate 12 (0, 5)) (resetHeat PlacementDirector) = Some p' \<and>
     decideExpertPlacement (fst (0 :: int, 5 :: int)) (snd (0 :: int, 5 :: int)) p'
       = tier_of_count (int (count_list (replicate 12 (0 :: int, 5 :: int)) (0, 5)))"
  by (rule placement_of_history) (simp_all add: expert_range_def)

text \<open>
  Decay by a factor between 0 and 1 never moves an expert to a faster tier, including the
  rounding of the conversion to \<open>float\<close>, of the product and of the conversion back.
\<close>

theorem decayHeat_never_promotes:
  assumes "counts_ok p" "f32_unit factor"
  shows "decideExpertPlacement layer e (decayHeat factor p) \<le> decideExpertPlacement layer e p"
proof (cases "accessCounts p (heatKey layer e)")
  case None
  then show ?thesis by (simp add: decideExpertPlacement_count getAccessCount_def decayHeat_def)
next
  case (Some n)
  then have n: "0 \<le> n" using assms(1) by (auto simp: counts_ok_def)
  show ?thesis
  proof (cases "n \<le> 100")
    case True
    then show ?thesis
      using decayed_le [OF assms(2) n] Some
      by (simp add: decideExpertPlacement_count getAccessCount_def decayHeat_def tier_of_count_mono)
  next
    case False
    then have "decideExpertPlacement layer e p = VRAM"
      using Some by (simp add: decideExpertPlacement_count getAccessCount_def tier_of_count_def)
    then show ?thesis
      by (cases "decideExpertPlacement layer e (decayHeat factor p)")
        (simp_all add: less_eq_PlacementTier_def)
  qed
qed

lemma decayHeat_never_promotes_witness:
  "decideExpertPlacement 0 5 (decayHeat f32_half (PlacementDirector\<lparr>accessCounts := [5 \<mapsto> 12]\<rparr>))
     \<le> decideExpertPlacement 0 5 (PlacementDirector\<lparr>accessCounts := [5 \<mapsto> 12]\<rparr>)"
  by (rule decayHeat_never_promotes)
    (simp_all add: counts_ok_def f32_unit_def f32_half_def f32_is_nan_def f32_neg_bit_def
      f32_int_def f32_mag_def mag_int_def inf_mag_def)

end
