(* ===== verification/KvCache.thy ===== *)
theory KvCache
  imports Prelude
begin

text \<open>
  \<open>engine/kv_cache.h\<close>, \<open>engine/kv_cache.cpp\<close>: the expanded key/value/indexer-key cache. Buffers are
  lists of floats (whose bits the cache never looks at), dimensions are natural numbers, layer and
  token arguments are C \<open>int\<close>s. An operation returns \<^const>\<open>None\<close> where the C++ has undefined
  behaviour (a copy outside a buffer, an \<open>int\<close> overflow) or would not return (the capacity loop).
  Copies count floats where the code counts bytes.
\<close>

record layer_buffer =
  lb_key :: "f32 list"
  lb_value :: "f32 list"
  lb_index :: "f32 list"

record kv_cache =
  kv_numLayers :: nat
  kv_numHeads :: nat
  kv_qkTotal :: nat
  kv_vDim :: nat
  kv_indexDim :: nat
  kv_maxSeqLen :: nat
  kv_seqLen :: nat
  kv_headStride :: nat
  kv_layerIndexStride :: nat
  kv_buffers :: "layer_buffer list"

definition KVCache :: kv_cache where
  "KVCache = \<lparr>kv_numLayers = 0, kv_numHeads = 0, kv_qkTotal = 0, kv_vDim = 0, kv_indexDim = 0,
     kv_maxSeqLen = 0, kv_seqLen = 0, kv_headStride = 0, kv_layerIndexStride = 0, kv_buffers = []\<rparr>"

text \<open>\<open>std::vector::resize(n)\<close>: keep a prefix, fill with the default element.\<close>

definition vec_resize :: "nat \<Rightarrow> 'a \<Rightarrow> 'a list \<Rightarrow> 'a list" where
  "vec_resize n x xs = take n xs @ replicate (n - length xs) x"

definition kv_init :: "nat \<Rightarrow> nat \<Rightarrow> nat \<Rightarrow> nat \<Rightarrow> nat \<Rightarrow> nat \<Rightarrow> kv_cache \<Rightarrow> kv_cache" where
  "kv_init numLayers numHeads qkHeadDim vHeadDim indexHeadDim maxSeqLen c =
     \<lparr>kv_numLayers = numLayers, kv_numHeads = numHeads, kv_qkTotal = qkHeadDim, kv_vDim = vHeadDim,
      kv_indexDim = indexHeadDim, kv_maxSeqLen = maxSeqLen, kv_seqLen = 0,
      kv_headStride = maxSeqLen * qkHeadDim, kv_layerIndexStride = indexHeadDim,
      kv_buffers = map (\<lambda>buf.
        \<lparr>lb_key = vec_resize (numHeads * maxSeqLen * qkHeadDim) 0 (lb_key buf),
         lb_value = vec_resize (numHeads * maxSeqLen * vHeadDim) 0 (lb_value buf),
         lb_index = vec_resize (maxSeqLen * indexHeadDim) 0 (lb_index buf)\<rparr>)
        (vec_resize numLayers \<lparr>lb_key = [], lb_value = [], lb_index = []\<rparr> (kv_buffers c))\<rparr>"

text \<open>The capacity loop of \<open>growTo\<close>; \<open>newCap * 2\<close> and \<open>floor *= 2\<close> are \<open>int\<close> products.\<close>

partial_function (option) grow_loop :: "nat \<Rightarrow> nat \<Rightarrow> nat \<Rightarrow> nat option" where
  "grow_loop need newCap flr =
     (if newCap < need then
        (if newCap * 2 \<ge> 2 ^ 31 \<or> flr * 2 \<ge> 2 ^ 31 then None
         else grow_loop need (max (newCap * 2) flr) (flr * 2))
      else Some newCap)"

text \<open>
  \<open>for h: memcpy(dst + h * ds + doff, src + h * ss, n)\<close>, the loop every key/value copy is.
  (\<open>growTo\<close> runs two such loops in one, on buffers that do not interfere.)
\<close>

fun copy_blocks ::
    "nat list \<Rightarrow> 'a list \<Rightarrow> nat \<Rightarrow> nat \<Rightarrow> 'a list \<Rightarrow> nat \<Rightarrow> nat \<Rightarrow> 'a list option" where
  "copy_blocks [] dst ds doff src ss n = Some dst"
| "copy_blocks (h # hs) dst ds doff src ss n =
     Option.bind (memcpy dst (h * ds + doff) src (h * ss) n)
       (\<lambda>dst'. copy_blocks hs dst' ds doff src ss n)"

definition grow_buffer ::
    "nat \<Rightarrow> nat \<Rightarrow> nat \<Rightarrow> nat \<Rightarrow> nat \<Rightarrow> nat \<Rightarrow> layer_buffer \<Rightarrow> layer_buffer option" where
  "grow_buffer numHeads oldK newK oldV newV newIdx buf =
     Option.bind (copy_blocks [0..<numHeads] (replicate (numHeads * newK) 0) newK 0 (lb_key buf) oldK oldK)
       (\<lambda>nk. map_option
          (\<lambda>nv. \<lparr>lb_key = nk, lb_value = nv, lb_index = vec_resize newIdx 0 (lb_index buf)\<rparr>)
          (copy_blocks [0..<numHeads] (replicate (numHeads * newV) 0) newV 0 (lb_value buf) oldV oldV))"

fun map_M :: "('a \<Rightarrow> 'b option) \<Rightarrow> 'a list \<Rightarrow> 'b list option" where
  "map_M f [] = Some []"
| "map_M f (x # xs) = Option.bind (f x) (\<lambda>y. map_option ((#) y) (map_M f xs))"

definition kv_growTo :: "nat \<Rightarrow> kv_cache \<Rightarrow> kv_cache option" where
  "kv_growTo tokenPos c =
     (if tokenPos + 1 \<ge> 2 ^ 31 then None
      else let need = tokenPos + 1 in
        if need \<le> kv_maxSeqLen c then Some c
        else Option.bind
          (grow_loop need (if kv_maxSeqLen c = 0 then 64 else kv_maxSeqLen c) 1024)
          (\<lambda>newCap.
             let oldK = kv_headStride c; oldV = kv_maxSeqLen c * kv_vDim c;
                 newK = newCap * kv_qkTotal c; newV = newCap * kv_vDim c in
             map_option
               (\<lambda>bufs. c\<lparr>kv_buffers := bufs, kv_headStride := newK, kv_maxSeqLen := newCap\<rparr>)
               (map_M (grow_buffer (kv_numHeads c) oldK newK oldV newV
                  (newCap * kv_layerIndexStride c)) (kv_buffers c))))"

definition kv_reserve :: "int \<Rightarrow> kv_cache \<Rightarrow> kv_cache option" where
  "kv_reserve tokenCount c =
     (if tokenCount \<le> int (kv_maxSeqLen c) then Some c else kv_growTo (nat (tokenCount - 1)) c)"

definition kv_upd_buffer :: "nat \<Rightarrow> layer_buffer \<Rightarrow> kv_cache \<Rightarrow> kv_cache" where
  "kv_upd_buffer layer buf c = c\<lparr>kv_buffers := (kv_buffers c)[layer := buf]\<rparr>"

definition bad_slot :: "int \<Rightarrow> int \<Rightarrow> kv_cache \<Rightarrow> bool" where
  "bad_slot layer tokenPos c \<longleftrightarrow> layer < 0 \<or> layer \<ge> int (kv_numLayers c) \<or> tokenPos < 0"

definition kv_appendKey :: "int \<Rightarrow> int \<Rightarrow> f32 list \<Rightarrow> kv_cache \<Rightarrow> kv_cache option" where
  "kv_appendKey layer tokenPos key c =
     (if bad_slot layer tokenPos c then Some c
      else Option.bind (kv_growTo (nat tokenPos) c) (\<lambda>c.
        let buf = kv_buffers c ! nat layer in
        map_option (\<lambda>k. kv_upd_buffer (nat layer) (buf\<lparr>lb_key := k\<rparr>) c)
          (copy_blocks [0..<kv_numHeads c] (lb_key buf) (kv_headStride c)
             (nat tokenPos * kv_qkTotal c) key (kv_qkTotal c) (kv_qkTotal c))))"

definition kv_appendValue :: "int \<Rightarrow> int \<Rightarrow> f32 list \<Rightarrow> kv_cache \<Rightarrow> kv_cache option" where
  "kv_appendValue layer tokenPos val c =
     (if bad_slot layer tokenPos c then Some c
      else Option.bind (kv_growTo (nat tokenPos) c) (\<lambda>c.
        let buf = kv_buffers c ! nat layer in
        map_option (\<lambda>v. kv_upd_buffer (nat layer) (buf\<lparr>lb_value := v\<rparr>) c)
          (copy_blocks [0..<kv_numHeads c] (lb_value buf) (kv_maxSeqLen c * kv_vDim c)
             (nat tokenPos * kv_vDim c) val (kv_vDim c) (kv_vDim c))))"

definition kv_appendIndexKey :: "int \<Rightarrow> int \<Rightarrow> f32 list \<Rightarrow> kv_cache \<Rightarrow> kv_cache option" where
  "kv_appendIndexKey layer tokenPos indexKey c =
     (if bad_slot layer tokenPos c then Some c
      else Option.bind (kv_growTo (nat tokenPos) c) (\<lambda>c.
        let buf = kv_buffers c ! nat layer in
        map_option (\<lambda>i. kv_upd_buffer (nat layer) (buf\<lparr>lb_index := i\<rparr>) c)
          (memcpy (lb_index buf) (nat tokenPos * kv_layerIndexStride c) indexKey 0
             (kv_layerIndexStride c))))"

text \<open>A getter's pointer is the offset into the layer's buffer, \<^const>\<open>None\<close> for \<open>nullptr\<close>.\<close>

definition kv_getKey :: "int \<Rightarrow> int \<Rightarrow> int \<Rightarrow> kv_cache \<Rightarrow> nat option" where
  "kv_getKey layer head tokenPos c =
     (if layer < 0 \<or> layer \<ge> int (kv_numLayers c) \<or> head < 0 \<or> head \<ge> int (kv_numHeads c) \<or>
        tokenPos < 0 \<or> tokenPos \<ge> int (kv_maxSeqLen c) then None
      else Some (nat head * kv_headStride c + nat tokenPos * kv_qkTotal c))"

definition kv_getValue :: "int \<Rightarrow> int \<Rightarrow> int \<Rightarrow> kv_cache \<Rightarrow> nat option" where
  "kv_getValue layer head tokenPos c =
     (if layer < 0 \<or> layer \<ge> int (kv_numLayers c) \<or> head < 0 \<or> head \<ge> int (kv_numHeads c) \<or>
        tokenPos < 0 \<or> tokenPos \<ge> int (kv_maxSeqLen c) then None
      else Some (nat head * kv_maxSeqLen c * kv_vDim c + nat tokenPos * kv_vDim c))"

definition kv_getIndexKey :: "int \<Rightarrow> int \<Rightarrow> kv_cache \<Rightarrow> nat option" where
  "kv_getIndexKey layer tokenPos c =
     (if layer < 0 \<or> layer \<ge> int (kv_numLayers c) \<or> tokenPos < 0 \<or> tokenPos \<ge> int (kv_maxSeqLen c)
      then None else Some (nat tokenPos * kv_layerIndexStride c))"

definition kv_advance :: "kv_cache \<Rightarrow> kv_cache" where
  "kv_advance c = (if kv_seqLen c < kv_maxSeqLen c then c\<lparr>kv_seqLen := kv_seqLen c + 1\<rparr> else c)"

definition kv_clear :: "kv_cache \<Rightarrow> kv_cache" where
  "kv_clear c = c\<lparr>kv_seqLen := 0\<rparr>"

subsection \<open>The capacity loop\<close>

text \<open>
  From a positive capacity, and for at most \<open>2 ^ 29\<close> tokens, the loop returns without overflow. The
  result covers the request and is less than twice what was asked for, or 1024.
\<close>

lemma grow_loop_spec:
  assumes "0 < newCap" "flr \<le> max 1024 (2 * newCap)" "0 < flr" "need \<le> 2 ^ 29"
  shows "\<exists>r. grow_loop need newCap flr = Some r \<and> need \<le> r \<and> newCap \<le> r \<and>
    (r = newCap \<or> 2 * newCap \<le> r \<and> r \<le> max 1024 (2 * need))"
  using assms
proof (induction "need - newCap" arbitrary: newCap flr rule: less_induct)
  case less
  show ?case
  proof (cases "newCap < need")
    case False
    then show ?thesis by (subst grow_loop.simps) simp
  next
    case True
    let ?c = "max (newCap * 2) flr"
    have small: "newCap * 2 < 2 ^ 31" "flr * 2 < 2 ^ 31" using True less.prems by simp_all
    then have "\<not> (newCap * 2 \<ge> 2 ^ 31 \<or> flr * 2 \<ge> 2 ^ 31)" by linarith
    with True have eq: "grow_loop need newCap flr = grow_loop need ?c (flr * 2)"
      by (subst grow_loop.simps) (simp only: if_True if_False)
    have "need - ?c < need - newCap" using True less.prems(1) by simp
    moreover have "0 < ?c" "flr * 2 \<le> max 1024 (2 * ?c)" "0 < flr * 2" using less.prems by simp_all
    ultimately obtain r where r: "grow_loop need ?c (flr * 2) = Some r" "need \<le> r" "?c \<le> r"
      "r = ?c \<or> 2 * ?c \<le> r \<and> r \<le> max 1024 (2 * need)"
      using less.hyps less.prems(4) by blast
    have "newCap * 2 \<le> 2 * need" "flr \<le> max 1024 (2 * need)" using True less.prems(2) by linarith+
    then have "?c \<le> max 1024 (2 * need)" by linarith
    then have "r \<le> max 1024 (2 * need)" using r(4) by blast
    then show ?thesis using r eq by auto
  qed
qed

subsection \<open>Block copies\<close>

lemma slice_slice: "b + k \<le> n \<Longrightarrow> slice (slice xs a n) b k = slice xs (a + b) k"
  by (simp add: slice_def drop_take add.commute min_def)

lemma block_disjoint:
  fixes h h' ds :: nat
  assumes "h \<noteq> h'" "doff + n \<le> ds"
  shows "h * ds + doff + n \<le> h' * ds + doff \<or> h' * ds + doff + n \<le> h * ds + doff"
proof -
  have "h * ds + n \<le> h' * ds" if "h < h'" "n \<le> ds" for h h' :: nat
  proof -
    have "(h + 1) * ds \<le> h' * ds" using that by (intro mult_right_mono) auto
    then show ?thesis using that by simp
  qed
  from this [of h h'] this [of h' h] show ?thesis using assms by linarith
qed

lemma copy_blocks_spec:
  assumes "doff + n \<le> ds" "distinct hs"
    and "\<forall>h \<in> set hs. h * ds + doff + n \<le> length dst \<and> h * ss + n \<le> length src"
  obtains r where "copy_blocks hs dst ds doff src ss n = Some r" "length r = length dst"
    "\<And>h. h \<in> set hs \<Longrightarrow> slice r (h * ds + doff) n = slice src (h * ss) n"
    "\<And>off k. off + k \<le> length dst \<Longrightarrow>
       \<forall>h \<in> set hs. off + k \<le> h * ds + doff \<or> h * ds + doff + n \<le> off \<Longrightarrow>
       slice r off k = slice dst off k"
  using assms
proof (induction hs arbitrary: dst thesis)
  case Nil
  show ?case by (rule Nil(1)) simp_all
next
  case (Cons h hs)
  obtain d where d: "memcpy dst (h * ds + doff) src (h * ss) n = Some d"
    using Cons.prems(4) by (auto intro: memcpy_in_range)
  have ld: "length d = length dst" using d by (rule length_memcpy)
  obtain r where r: "copy_blocks hs d ds doff src ss n = Some r" "length r = length d"
    "\<And>h. h \<in> set hs \<Longrightarrow> slice r (h * ds + doff) n = slice src (h * ss) n"
    "\<And>off k. off + k \<le> length d \<Longrightarrow>
       \<forall>h \<in> set hs. off + k \<le> h * ds + doff \<or> h * ds + doff + n \<le> off \<Longrightarrow>
       slice r off k = slice d off k"
    using Cons.IH [OF _ Cons.prems(2)] Cons.prems(3,4) ld by (metis distinct.simps(2) list.set_intros(2))
  show ?case
  proof (rule Cons.prems(1))
    show "copy_blocks (h # hs) dst ds doff src ss n = Some r" using d r(1) by simp
    show "length r = length dst" using r(2) ld by simp
    fix x
    assume "x \<in> set (h # hs)"
    moreover have "slice r (h * ds + doff) n = slice d (h * ds + doff) n"
    proof (rule r(4))
      show "h * ds + doff + n \<le> length d" using Cons.prems(4) ld by simp
      show "\<forall>x \<in> set hs. h * ds + doff + n \<le> x * ds + doff \<or> x * ds + doff + n \<le> h * ds + doff"
        using block_disjoint [OF _ Cons.prems(2)] Cons.prems(3) by (metis distinct.simps(2))
    qed
    ultimately show "slice r (x * ds + doff) n = slice src (x * ss) n"
      using r(3) slice_memcpy_same [OF d] by auto
  next
    fix off k
    assume *: "off + k \<le> length dst" "\<forall>x \<in> set (h # hs). off + k \<le> x * ds + doff \<or> x * ds + doff + n \<le> off"
    then have "slice r off k = slice d off k" using r(4) ld by simp
    also have "\<dots> = slice dst off k" using * by (intro slice_memcpy_disjoint [OF d]) auto
    finally show "slice r off k = slice dst off k" .
  qed
qed

lemma slice_vec_resize:
  "off + k \<le> length xs \<Longrightarrow> length xs \<le> n \<Longrightarrow> slice (vec_resize n x xs) off k = slice xs off k"
  by (simp add: vec_resize_def slice_def)

lemma length_vec_resize [simp]: "length (vec_resize n x xs) = n"
  by (simp add: vec_resize_def)

lemma map_M_Some:
  assumes "\<And>x. x \<in> set xs \<Longrightarrow> \<exists>y. f x = Some y"
  shows "map_M f xs = Some (map (\<lambda>x. the (f x)) xs)"
  using assms by (induction xs) fastforce+

subsection \<open>Invariant and views\<close>

definition kv_dims :: "kv_cache \<Rightarrow> nat \<times> nat \<times> nat \<times> nat \<times> nat" where
  "kv_dims c = (kv_numLayers c, kv_numHeads c, kv_qkTotal c, kv_vDim c, kv_indexDim c)"

definition buffer_ok :: "kv_cache \<Rightarrow> layer_buffer \<Rightarrow> bool" where
  "buffer_ok c buf \<longleftrightarrow>
     length (lb_key buf) = kv_numHeads c * (kv_maxSeqLen c * kv_qkTotal c) \<and>
     length (lb_value buf) = kv_numHeads c * (kv_maxSeqLen c * kv_vDim c) \<and>
     length (lb_index buf) = kv_maxSeqLen c * kv_indexDim c"

definition kv_inv :: "kv_cache \<Rightarrow> bool" where
  "kv_inv c \<longleftrightarrow>
     length (kv_buffers c) = kv_numLayers c \<and>
     kv_headStride c = kv_maxSeqLen c * kv_qkTotal c \<and> kv_layerIndexStride c = kv_indexDim c \<and>
     kv_seqLen c \<le> kv_maxSeqLen c \<and> (\<forall>buf \<in> set (kv_buffers c). buffer_ok c buf)"

lemma kv_invD:
  assumes "kv_inv c"
  shows "length (kv_buffers c) = kv_numLayers c" "kv_headStride c = kv_maxSeqLen c * kv_qkTotal c"
    "kv_layerIndexStride c = kv_indexDim c" "kv_seqLen c \<le> kv_maxSeqLen c"
    "\<And>buf. buf \<in> set (kv_buffers c) \<Longrightarrow> buffer_ok c buf"
    "\<And>l. l < kv_numLayers c \<Longrightarrow> buffer_ok c (kv_buffers c ! l)"
  using assms by (auto simp: kv_inv_def)

text \<open>What a caller reads through a getter's pointer.\<close>

definition key_at :: "nat \<times> nat \<times> nat \<Rightarrow> kv_cache \<Rightarrow> f32 list option" where
  "key_at = (\<lambda>(l, h, t) c. map_option
     (\<lambda>off. slice (lb_key (kv_buffers c ! l)) off (kv_qkTotal c)) (kv_getKey (int l) (int h) (int t) c))"

definition value_at :: "nat \<times> nat \<times> nat \<Rightarrow> kv_cache \<Rightarrow> f32 list option" where
  "value_at = (\<lambda>(l, h, t) c. map_option
     (\<lambda>off. slice (lb_value (kv_buffers c ! l)) off (kv_vDim c)) (kv_getValue (int l) (int h) (int t) c))"

definition index_at :: "nat \<times> nat \<Rightarrow> kv_cache \<Rightarrow> f32 list option" where
  "index_at = (\<lambda>(l, t) c. map_option
     (\<lambda>off. slice (lb_index (kv_buffers c ! l)) off (kv_indexDim c)) (kv_getIndexKey (int l) (int t) c))"

lemma key_at_eq:
  "key_at (l, h, t) c = (if l < kv_numLayers c \<and> h < kv_numHeads c \<and> t < kv_maxSeqLen c
     then Some (slice (lb_key (kv_buffers c ! l)) (h * kv_headStride c + t * kv_qkTotal c) (kv_qkTotal c))
     else None)"
  by (auto simp: key_at_def kv_getKey_def)

lemma value_at_eq:
  "value_at (l, h, t) c = (if l < kv_numLayers c \<and> h < kv_numHeads c \<and> t < kv_maxSeqLen c
     then Some (slice (lb_value (kv_buffers c ! l)) (h * (kv_maxSeqLen c * kv_vDim c) + t * kv_vDim c) (kv_vDim c))
     else None)"
  by (auto simp: value_at_def kv_getValue_def mult.assoc)

lemma index_at_eq:
  "index_at (l, t) c = (if l < kv_numLayers c \<and> t < kv_maxSeqLen c
     then Some (slice (lb_index (kv_buffers c ! l)) (t * kv_layerIndexStride c) (kv_indexDim c)) else None)"
  by (auto simp: index_at_def kv_getIndexKey_def)

lemma kv_init_inv: "kv_inv (kv_init L H q v i m c)"
  by (auto simp: kv_inv_def kv_init_def buffer_ok_def mult.assoc)

lemma kv_init_dims: "kv_dims (kv_init L H q v i m c) = (L, H, q, v, i)"
  by (simp add: kv_dims_def kv_init_def)

lemma block_end:
  fixes h n d :: nat
  assumes "h < n"
  shows "h * d + d \<le> n * d"
proof -
  have "(h + 1) * d \<le> n * d" using assms by (intro mult_right_mono) auto
  then show ?thesis by simp
qed

text \<open>One buffer of a growing cache: every head's old block moves to the head of its new block.\<close>

lemma grow_copy:
  assumes "length src = n * old" "old \<le> new"
  obtains r where "copy_blocks [0..<n] (replicate (n * new) x) new 0 src old old = Some r"
    "length r = n * new" "\<And>h. h < n \<Longrightarrow> slice r (h * new) old = slice src (h * old) old"
proof -
  have rng: "h * new + 0 + old \<le> n * new \<and> h * old + old \<le> n * old" if "h < n" for h
    using block_end [OF that, of new] block_end [OF that, of old] assms(2) by simp
  obtain r where r: "copy_blocks [0..<n] (replicate (n * new) x) new 0 src old old = Some r"
    "length r = length (replicate (n * new) x)"
    "\<And>h. h \<in> set [0..<n] \<Longrightarrow> slice r (h * new + 0) old = slice src (h * old) old"
    by (rule copy_blocks_spec [of 0 old new "[0..<n]" "replicate (n * new) x" old src])
      (use rng assms in auto)
  then show thesis using that by simp
qed

lemma grow_buffer_spec:
  assumes "length (lb_key b) = n * (m * q)" "length (lb_value b) = n * (m * v)"
    "length (lb_index b) = m * i" "m \<le> m'"
  obtains b' where "grow_buffer n (m * q) (m' * q) (m * v) (m' * v) (m' * i) b = Some b'"
    "length (lb_key b') = n * (m' * q)" "length (lb_value b') = n * (m' * v)"
    "length (lb_index b') = m' * i"
    "\<And>h. h < n \<Longrightarrow> slice (lb_key b') (h * (m' * q)) (m * q) = slice (lb_key b) (h * (m * q)) (m * q)"
    "\<And>h. h < n \<Longrightarrow> slice (lb_value b') (h * (m' * v)) (m * v) = slice (lb_value b) (h * (m * v)) (m * v)"
    "\<And>off k. off + k \<le> m * i \<Longrightarrow> slice (lb_index b') off k = slice (lb_index b) off k"
proof -
  have le: "m * q \<le> m' * q" "m * v \<le> m' * v" "m * i \<le> m' * i" using assms(4) by simp_all
  obtain nk where nk: "copy_blocks [0..<n] (replicate (n * (m' * q)) 0) (m' * q) 0 (lb_key b) (m * q) (m * q) = Some nk"
    "length nk = n * (m' * q)" "\<And>h. h < n \<Longrightarrow> slice nk (h * (m' * q)) (m * q) = slice (lb_key b) (h * (m * q)) (m * q)"
    using grow_copy [OF assms(1) le(1)] by metis
  obtain nv where nv: "copy_blocks [0..<n] (replicate (n * (m' * v)) 0) (m' * v) 0 (lb_value b) (m * v) (m * v) = Some nv"
    "length nv = n * (m' * v)" "\<And>h. h < n \<Longrightarrow> slice nv (h * (m' * v)) (m * v) = slice (lb_value b) (h * (m * v)) (m * v)"
    using grow_copy [OF assms(2) le(2)] by metis
  have idx: "slice (vec_resize (m' * i) 0 (lb_index b)) off k = slice (lb_index b) off k"
    if "off + k \<le> m * i" for off k
    using that assms(3) le(3) by (intro slice_vec_resize) simp_all
  show thesis
    by (rule that [of "\<lparr>lb_key = nk, lb_value = nv, lb_index = vec_resize (m' * i) 0 (lb_index b)\<rparr>"])
      (simp_all add: grow_buffer_def nk nv idx)
qed

lemma token_slice:
  assumes "slice xs' a' n = slice xs a n" "t * q + q \<le> n"
  shows "slice xs' (a' + t * q) q = slice xs (a + t * q) q"
  using assms(1) slice_slice [OF assms(2), of xs' a'] slice_slice [OF assms(2), of xs a] by simp

definition same_views :: "kv_cache \<Rightarrow> kv_cache \<Rightarrow> bool" where
  "same_views c c' \<longleftrightarrow>
     (\<forall>x v. key_at x c = Some v \<longrightarrow> key_at x c' = Some v) \<and>
     (\<forall>x v. value_at x c = Some v \<longrightarrow> value_at x c' = Some v) \<and>
     (\<forall>x v. index_at x c = Some v \<longrightarrow> index_at x c' = Some v)"

lemma same_views_refl [simp]: "same_views c c"
  by (simp add: same_views_def)

lemma grown_cache:
  assumes "kv_inv c" "kv_maxSeqLen c \<le> m'"
  obtains bufs c' where
    "map_M (grow_buffer (kv_numHeads c) (kv_headStride c) (m' * kv_qkTotal c)
       (kv_maxSeqLen c * kv_vDim c) (m' * kv_vDim c) (m' * kv_layerIndexStride c)) (kv_buffers c) = Some bufs"
    "c' = c\<lparr>kv_buffers := bufs, kv_headStride := m' * kv_qkTotal c, kv_maxSeqLen := m'\<rparr>"
    "kv_inv c'" "same_views c c'"
proof -
  note i = kv_invD [OF assms(1)]
  let ?m = "kv_maxSeqLen c" and ?n = "kv_numHeads c" and ?q = "kv_qkTotal c"
    and ?v = "kv_vDim c" and ?i = "kv_indexDim c"
  let ?g = "grow_buffer ?n (?m * ?q) (m' * ?q) (?m * ?v) (m' * ?v) (m' * ?i)"
  have g: "\<exists>b'. ?g b = Some b' \<and> length (lb_key b') = ?n * (m' * ?q) \<and> length (lb_value b') = ?n * (m' * ?v) \<and>
      length (lb_index b') = m' * ?i \<and>
      (\<forall>h < ?n. slice (lb_key b') (h * (m' * ?q)) (?m * ?q) = slice (lb_key b) (h * (?m * ?q)) (?m * ?q)) \<and>
      (\<forall>h < ?n. slice (lb_value b') (h * (m' * ?v)) (?m * ?v) = slice (lb_value b) (h * (?m * ?v)) (?m * ?v)) \<and>
      (\<forall>off k. off + k \<le> ?m * ?i \<longrightarrow> slice (lb_index b') off k = slice (lb_index b) off k)"
    if "b \<in> set (kv_buffers c)" for b
  proof -
    have len: "length (lb_key b) = ?n * (?m * ?q)" "length (lb_value b) = ?n * (?m * ?v)"
      "length (lb_index b) = ?m * ?i" using i(5) [OF that] by (simp_all add: buffer_ok_def)
    show ?thesis by (rule grow_buffer_spec [OF len assms(2)]) blast
  qed
  define bufs where "bufs = map (\<lambda>b. the (?g b)) (kv_buffers c)"
  have M: "map_M ?g (kv_buffers c) = Some bufs" unfolding bufs_def using g by (intro map_M_Some) blast
  define c' where "c' = c\<lparr>kv_buffers := bufs, kv_headStride := m' * ?q, kv_maxSeqLen := m'\<rparr>"
  have nth: "bufs ! l = the (?g (kv_buffers c ! l))" "kv_buffers c ! l \<in> set (kv_buffers c)"
    if "l < kv_numLayers c" for l using that i(1) by (simp_all add: bufs_def)
  have inv: "kv_inv c'"
    unfolding kv_inv_def
  proof (intro conjI ballI)
    fix b'
    assume "b' \<in> set (kv_buffers c')"
    then obtain b where "b \<in> set (kv_buffers c)" "b' = the (?g b)" by (auto simp: c'_def bufs_def)
    with g [of b] show "buffer_ok c' b'" by (auto simp: buffer_ok_def c'_def)
  qed (use i assms(2) in \<open>auto simp: c'_def bufs_def\<close>)
  have views: "same_views c c'"
    unfolding same_views_def
  proof (intro conjI allI impI)
    fix x v
    assume "key_at x c = Some v"
    then obtain l h t where x: "x = (l, h, t)" "l < kv_numLayers c" "h < ?n" "t < ?m"
      "v = slice (lb_key (kv_buffers c ! l)) (h * (?m * ?q) + t * ?q) ?q"
      by (cases x) (auto simp: key_at_eq i(2) split: if_splits)
    then have "slice (lb_key (bufs ! l)) (h * (m' * ?q)) (?m * ?q)
        = slice (lb_key (kv_buffers c ! l)) (h * (?m * ?q)) (?m * ?q)"
      using nth [of l] g [of "kv_buffers c ! l"] by auto
    from token_slice [OF this block_end [OF x(4)]] x show "key_at x c' = Some v"
      using assms(2) by (simp add: key_at_eq c'_def)
  next
    fix x v
    assume "value_at x c = Some v"
    then obtain l h t where x: "x = (l, h, t)" "l < kv_numLayers c" "h < ?n" "t < ?m"
      "v = slice (lb_value (kv_buffers c ! l)) (h * (?m * ?v) + t * ?v) ?v"
      by (cases x) (auto simp: value_at_eq split: if_splits)
    then have "slice (lb_value (bufs ! l)) (h * (m' * ?v)) (?m * ?v)
        = slice (lb_value (kv_buffers c ! l)) (h * (?m * ?v)) (?m * ?v)"
      using nth [of l] g [of "kv_buffers c ! l"] by auto
    from token_slice [OF this block_end [OF x(4)]] x show "value_at x c' = Some v"
      using assms(2) by (simp add: value_at_eq c'_def)
  next
    fix x v
    assume "index_at x c = Some v"
    then obtain l t where x: "x = (l, t)" "l < kv_numLayers c" "t < ?m"
      "v = slice (lb_index (kv_buffers c ! l)) (t * ?i) ?i"
      by (cases x) (auto simp: index_at_eq i(3) split: if_splits)
    then show "index_at x c' = Some v"
      using nth [of l] g [of "kv_buffers c ! l"] block_end [of t ?m ?i] assms(2)
      by (auto simp: index_at_eq c'_def i(3))
  qed
  show thesis using that [OF _ c'_def inv views] M by (simp add: i(2,3))
qed

lemma kv_growTo_spec:
  assumes "kv_inv c" "t < 2 ^ 29"
  obtains c' where "kv_growTo t c = Some c'" "kv_inv c'" "same_views c c'" "kv_dims c' = kv_dims c"
    "t < kv_maxSeqLen c'" "kv_seqLen c' = kv_seqLen c"
    "kv_maxSeqLen c' = kv_maxSeqLen c \<or>
       2 * kv_maxSeqLen c \<le> kv_maxSeqLen c' \<and> kv_maxSeqLen c' \<le> max 1024 (2 * (t + 1))"
proof (cases "t + 1 \<le> kv_maxSeqLen c")
  case True
  have "\<not> 2 ^ 31 \<le> t + 1" using assms(2) by simp
  with True have "kv_growTo t c = Some c" by (simp add: kv_growTo_def)
  then show thesis using that assms(1) True by simp
next
  case False
  define cap where "cap = (if kv_maxSeqLen c = 0 then 64 else kv_maxSeqLen c)"
  have "0 < cap" by (simp add: cap_def)
  then obtain r where r: "grow_loop (t + 1) cap 1024 = Some r" "t + 1 \<le> r" "cap \<le> r"
    "r = cap \<or> 2 * cap \<le> r \<and> r \<le> max 1024 (2 * (t + 1))"
    using grow_loop_spec [of cap 1024 "t + 1"] assms(2) by auto
  have "kv_maxSeqLen c \<le> r" using r(3) by (simp add: cap_def split: if_splits)
  then obtain bufs c' where g:
    "map_M (grow_buffer (kv_numHeads c) (kv_headStride c) (r * kv_qkTotal c)
       (kv_maxSeqLen c * kv_vDim c) (r * kv_vDim c) (r * kv_layerIndexStride c)) (kv_buffers c) = Some bufs"
    "c' = c\<lparr>kv_buffers := bufs, kv_headStride := r * kv_qkTotal c, kv_maxSeqLen := r\<rparr>"
    "kv_inv c'" "same_views c c'"
    by (rule grown_cache [OF assms(1)])
  have "\<not> 2 ^ 31 \<le> t + 1" using assms(2) by simp
  then have "kv_growTo t c = Some c'"
    using False r(1) g(1) by (simp add: kv_growTo_def Let_def cap_def g(2))
  moreover have "r = kv_maxSeqLen c \<or> 2 * kv_maxSeqLen c \<le> r \<and> r \<le> max 1024 (2 * (t + 1))"
    using r(4) by (auto simp: cap_def split: if_splits)
  ultimately show thesis using that [of c'] g r(2) by (simp add: kv_dims_def)
qed

subsection \<open>Appending\<close>

lemma append_blocks:
  fixes q :: nat
  assumes "length dst = n * (m * q)" "length src = n * q" "t < m"
  obtains r where "copy_blocks [0..<n] dst (m * q) (t * q) src q q = Some r" "length r = length dst"
    "\<And>h. h < n \<Longrightarrow> slice r (h * (m * q) + t * q) q = slice src (h * q) q"
    "\<And>h t'. h < n \<Longrightarrow> t' < m \<Longrightarrow> t' \<noteq> t \<Longrightarrow>
       slice r (h * (m * q) + t' * q) q = slice dst (h * (m * q) + t' * q) q"
proof -
  have fit: "t * q + q \<le> m * q" if "t < m" for t using that by (rule block_end)
  have rng: "h * (m * q) + t * q + q \<le> n * (m * q)" if "h < n" "t < m" for h t
    using block_end [OF that(1), of "m * q"] fit [OF that(2)] by simp
  have src: "h * q + q \<le> n * q" if "h < n" for h using that by (rule block_end)
  obtain r where r: "copy_blocks [0..<n] dst (m * q) (t * q) src q q = Some r" "length r = length dst"
    "\<And>h. h \<in> set [0..<n] \<Longrightarrow> slice r (h * (m * q) + t * q) q = slice src (h * q) q"
    "\<And>off k. off + k \<le> length dst \<Longrightarrow>
       \<forall>h \<in> set [0..<n]. off + k \<le> h * (m * q) + t * q \<or> h * (m * q) + t * q + q \<le> off \<Longrightarrow>
       slice r off k = slice dst off k"
    by (rule copy_blocks_spec [of "t * q" q "m * q" "[0..<n]" dst q src])
      (use fit rng src assms in auto)
  show thesis
  proof (rule that [OF r(1,2)])
    fix h assume "h < n"
    then show "slice r (h * (m * q) + t * q) q = slice src (h * q) q" using r(3) by simp
  next
    fix h t'
    assume h: "h < n" "t' < m" "t' \<noteq> t"
    show "slice r (h * (m * q) + t' * q) q = slice dst (h * (m * q) + t' * q) q"
    proof (rule r(4))
      show "h * (m * q) + t' * q + q \<le> length dst" using rng h assms(1) by simp
      show "\<forall>x \<in> set [0..<n]. h * (m * q) + t' * q + q \<le> x * (m * q) + t * q \<or>
          x * (m * q) + t * q + q \<le> h * (m * q) + t' * q"
      proof
        fix x
        show "h * (m * q) + t' * q + q \<le> x * (m * q) + t * q \<or>
          x * (m * q) + t * q + q \<le> h * (m * q) + t' * q"
        proof (cases "x = h")
          case True
          then show ?thesis using block_disjoint [OF h(3), of 0 q q] by auto
        next
          case False
          then show ?thesis
            using block_disjoint [of x h 0 "m * q" "m * q"] fit [OF assms(3)] fit [OF h(2)] by linarith
        qed
      qed
    qed
  qed
qed

lemma append_index:
  fixes q :: nat
  assumes "length dst = m * q" "length src = q" "t < m"
  obtains r where "memcpy dst (t * q) src 0 q = Some r" "length r = length dst"
    "slice r (t * q) q = src"
    "\<And>t'. t' < m \<Longrightarrow> t' \<noteq> t \<Longrightarrow> slice r (t' * q) q = slice dst (t' * q) q"
proof -
  have fit: "t * q + q \<le> m * q" if "t < m" for t using that by (rule block_end)
  obtain r where r: "memcpy dst (t * q) src 0 q = Some r"
    using memcpy_in_range [of "t * q" q dst 0 src] fit [OF assms(3)] assms by auto
  show thesis
  proof (rule that [OF r length_memcpy [OF r]])
    show "slice r (t * q) q = src" using slice_memcpy_same [OF r] assms(2) by (simp add: slice_def)
    fix t'
    assume "t' < m" "t' \<noteq> t"
    then show "slice r (t' * q) q = slice dst (t' * q) q"
      using fit [of t'] assms(1) block_disjoint [of t' t 0 q q]
      by (intro slice_memcpy_disjoint [OF r]) auto
  qed
qed

lemma upd_buffer_simps [simp]:
  "kv_numLayers (kv_upd_buffer l b c) = kv_numLayers c" "kv_numHeads (kv_upd_buffer l b c) = kv_numHeads c"
  "kv_qkTotal (kv_upd_buffer l b c) = kv_qkTotal c" "kv_vDim (kv_upd_buffer l b c) = kv_vDim c"
  "kv_indexDim (kv_upd_buffer l b c) = kv_indexDim c" "kv_maxSeqLen (kv_upd_buffer l b c) = kv_maxSeqLen c"
  "kv_seqLen (kv_upd_buffer l b c) = kv_seqLen c" "kv_headStride (kv_upd_buffer l b c) = kv_headStride c"
  "kv_layerIndexStride (kv_upd_buffer l b c) = kv_layerIndexStride c"
  "kv_buffers (kv_upd_buffer l b c) = (kv_buffers c)[l := b]"
  by (simp_all add: kv_upd_buffer_def)

lemma kv_upd_buffer_inv:
  assumes "kv_inv c" "buffer_ok c b"
  shows "kv_inv (kv_upd_buffer l b c)" "kv_dims (kv_upd_buffer l b c) = kv_dims c"
proof -
  have "set ((kv_buffers c)[l := b]) \<subseteq> insert b (set (kv_buffers c))" by (rule set_update_subset_insert)
  then show "kv_inv (kv_upd_buffer l b c)"
    using assms by (auto simp: kv_inv_def buffer_ok_def)
qed (simp add: kv_dims_def)

subsection \<open>Histories\<close>

datatype kv_op = KvAppendKey int int "f32 list" | KvAppendValue int int "f32 list"
  | KvAppendIndexKey int int "f32 list" | KvReserve int | KvAdvance | KvClear

fun kv_step :: "kv_op \<Rightarrow> kv_cache \<Rightarrow> kv_cache option" where
  "kv_step (KvAppendKey layer tok key) c = kv_appendKey layer tok key c"
| "kv_step (KvAppendValue layer tok val) c = kv_appendValue layer tok val c"
| "kv_step (KvAppendIndexKey layer tok idx) c = kv_appendIndexKey layer tok idx c"
| "kv_step (KvReserve n) c = kv_reserve n c"
| "kv_step KvAdvance c = Some (kv_advance c)"
| "kv_step KvClear c = Some (kv_clear c)"

type_synonym kv_shape = "nat \<times> nat \<times> nat \<times> nat \<times> nat"

text \<open>The caller's side: arrays of the documented length, token positions below \<open>2 ^ 29\<close>.\<close>

fun kv_op_ok :: "kv_shape \<Rightarrow> kv_op \<Rightarrow> bool" where
  "kv_op_ok (L, H, q, v, i) (KvAppendKey layer tok key) = (length key = H * q \<and> tok < 2 ^ 29)"
| "kv_op_ok (L, H, q, v, i) (KvAppendValue layer tok val) = (length val = H * v \<and> tok < 2 ^ 29)"
| "kv_op_ok (L, H, q, v, i) (KvAppendIndexKey layer tok idx) = (length idx = i \<and> tok < 2 ^ 29)"
| "kv_op_ok d (KvReserve n) = (n \<le> 2 ^ 29)"
| "kv_op_ok d _ = True"

text \<open>What an operation writes, slot by slot: layer, head and token for keys and values.\<close>

fun key_written :: "kv_shape \<Rightarrow> kv_op \<Rightarrow> nat \<times> nat \<times> nat \<Rightarrow> f32 list option" where
  "key_written (L, H, q, v, i) (KvAppendKey layer tok key) (l, h, t) =
     (if layer = int l \<and> tok = int t \<and> l < L \<and> h < H then Some (slice key (h * q) q) else None)"
| "key_written d _ x = None"

fun value_written :: "kv_shape \<Rightarrow> kv_op \<Rightarrow> nat \<times> nat \<times> nat \<Rightarrow> f32 list option" where
  "value_written (L, H, q, v, i) (KvAppendValue layer tok val) (l, h, t) =
     (if layer = int l \<and> tok = int t \<and> l < L \<and> h < H then Some (slice val (h * v) v) else None)"
| "value_written d _ x = None"

fun index_written :: "kv_shape \<Rightarrow> kv_op \<Rightarrow> nat \<times> nat \<Rightarrow> f32 list option" where
  "index_written (L, H, q, v, i) (KvAppendIndexKey layer tok idx) (l, t) =
     (if layer = int l \<and> tok = int t \<and> l < L then Some idx else None)"
| "index_written d _ x = None"

definition kv_ok :: "kv_shape \<Rightarrow> kv_cache \<Rightarrow> bool" where
  "kv_ok d c \<longleftrightarrow> kv_inv c \<and> kv_dims c = d"

text \<open>The effect of an operation on the three views, in one statement.\<close>

definition kv_effect :: "kv_shape \<Rightarrow> kv_op \<Rightarrow> kv_cache \<Rightarrow> kv_cache \<Rightarrow> bool" where
  "kv_effect d a c c' \<longleftrightarrow> kv_ok d c' \<and>
     (\<forall>x v. (case key_written d a x of Some w \<Rightarrow> Some w | None \<Rightarrow> key_at x c) = Some v \<longrightarrow> key_at x c' = Some v) \<and>
     (\<forall>x v. (case value_written d a x of Some w \<Rightarrow> Some w | None \<Rightarrow> value_at x c) = Some v \<longrightarrow> value_at x c' = Some v) \<and>
     (\<forall>x v. (case index_written d a x of Some w \<Rightarrow> Some w | None \<Rightarrow> index_at x c) = Some v \<longrightarrow> index_at x c' = Some v)"

lemma kv_effect_none:
  assumes "kv_ok d c'" "same_views c c'" "\<And>x. key_written d a x = None" "\<And>x. value_written d a x = None"
    "\<And>x. index_written d a x = None"
  shows "kv_effect d a c c'"
  using assms by (simp add: kv_effect_def same_views_def)

lemma nat_below: "tok < 2 ^ 29 \<Longrightarrow> nat tok < 2 ^ 29"
  by simp

text \<open>What the three appends share: an ignored slot, or a cache grown to hold the token.\<close>

lemma bad_slot_written:
  assumes "kv_dims c = d" "bad_slot layer tok c"
  shows "key_written d (KvAppendKey layer tok w) x = None"
    "value_written d (KvAppendValue layer tok w) x = None"
    "index_written d (KvAppendIndexKey layer tok w) y = None"
  using assms by (cases d; cases x; cases y; auto simp: bad_slot_def kv_dims_def)+

lemma other_written [simp]:
  "key_written d (KvAppendValue layer tok w) x = None" "key_written d (KvAppendIndexKey layer tok w) x = None"
  "value_written d (KvAppendKey layer tok w) x = None" "value_written d (KvAppendIndexKey layer tok w) x = None"
  "index_written d (KvAppendKey layer tok w) y = None" "index_written d (KvAppendValue layer tok w) y = None"
  by (cases d; cases x; cases y; simp)+

lemma append_grown:
  assumes "kv_ok (L, H, q, v, i) c" "\<not> bad_slot layer tok c" "tok < 2 ^ 29"
  obtains g b where "kv_growTo (nat tok) c = Some g" "kv_ok (L, H, q, v, i) g" "same_views c g"
    "b = kv_buffers g ! nat layer" "buffer_ok g b" "nat layer < length (kv_buffers g)"
    "0 \<le> layer" "0 \<le> tok" "nat tok < kv_maxSeqLen g" "kv_headStride g = kv_maxSeqLen g * q"
    "kv_numLayers g = L" "kv_numHeads g = H" "kv_qkTotal g = q" "kv_vDim g = v" "kv_indexDim g = i"
    "kv_layerIndexStride g = i"
proof -
  have lt: "0 \<le> layer" "nat layer < L" "0 \<le> tok"
    using assms(1,2) by (auto simp: bad_slot_def kv_ok_def kv_dims_def)
  have ok: "kv_inv c" "kv_dims c = (L, H, q, v, i)" "nat tok < 2 ^ 29"
    using assms nat_below by (auto simp: kv_ok_def)
  obtain g where g: "kv_growTo (nat tok) c = Some g" "kv_inv g" "same_views c g" "kv_dims g = kv_dims c"
    "nat tok < kv_maxSeqLen g"
    using kv_growTo_spec [OF ok(1,3)] by metis
  then have dims: "kv_numLayers g = L" "kv_numHeads g = H" "kv_qkTotal g = q" "kv_vDim g = v" "kv_indexDim g = i"
    using ok(2) by (simp_all add: kv_dims_def)
  show thesis
    by (rule that [OF g(1) _ g(3) refl])
      (use kv_invD [OF g(2)] g(2,4,5) ok(2) lt dims in \<open>simp_all add: kv_ok_def\<close>)
qed

lemma appendKey_effect:
  assumes "kv_ok (L, H, q, v, i) c" "length key = H * q" "tok < 2 ^ 29"
  shows "\<exists>c'. kv_appendKey layer tok key c = Some c' \<and>
    kv_effect (L, H, q, v, i) (KvAppendKey layer tok key) c c'"
proof (cases "bad_slot layer tok c")
  case True
  then show ?thesis using assms(1) bad_slot_written(1) [OF _ True]
    by (auto simp: kv_appendKey_def kv_ok_def intro!: kv_effect_none)
next
  case False
  obtain g b where g: "kv_growTo (nat tok) c = Some g" "kv_ok (L, H, q, v, i) g" "same_views c g"
    "b = kv_buffers g ! nat layer" "buffer_ok g b" "nat layer < length (kv_buffers g)"
    "0 \<le> layer" "0 \<le> tok" "nat tok < kv_maxSeqLen g" "kv_headStride g = kv_maxSeqLen g * q"
    and dims: "kv_numLayers g = L" "kv_numHeads g = H" "kv_qkTotal g = q" "kv_vDim g = v" "kv_indexDim g = i"
    using append_grown [OF assms(1) False assms(3)] by metis
  let ?m = "kv_maxSeqLen g"
  have len: "length (lb_key b) = H * (?m * q)" using g(5) by (simp add: buffer_ok_def dims)
  obtain r where r: "copy_blocks [0..<H] (lb_key b) (?m * q) (nat tok * q) key q q = Some r"
    "length r = length (lb_key b)"
    "\<And>h. h < H \<Longrightarrow> slice r (h * (?m * q) + nat tok * q) q = slice key (h * q) q"
    "\<And>h t'. h < H \<Longrightarrow> t' < ?m \<Longrightarrow> t' \<noteq> nat tok \<Longrightarrow>
       slice r (h * (?m * q) + t' * q) q = slice (lb_key b) (h * (?m * q) + t' * q) q"
    by (rule append_blocks [OF len assms(2) g(9)]) blast
  define c' where "c' = kv_upd_buffer (nat layer) (b\<lparr>lb_key := r\<rparr>) g"
  have ap: "kv_appendKey layer tok key c = Some c'"
    using False g(1,4) r(1) by (simp add: kv_appendKey_def Let_def c'_def dims g(10))
  have "buffer_ok g (b\<lparr>lb_key := r\<rparr>)" using g(5) r(2) by (simp add: buffer_ok_def)
  then have k: "kv_ok (L, H, q, v, i) c'" using kv_upd_buffer_inv g(2) by (simp add: kv_ok_def c'_def)
  have "(case key_written (L, H, q, v, i) (KvAppendKey layer tok key) x of Some w \<Rightarrow> Some w | None \<Rightarrow> key_at x g)
      = Some w \<Longrightarrow> key_at x c' = Some w" for x w
    using r(3,4) g(4,6-10)
    by (cases x) (auto simp: key_at_eq c'_def dims nth_list_update split: if_splits)
  moreover have "value_at x c' = value_at x g" "index_at y c' = index_at y g" for x y
    using g(4,6) by (cases x, cases y, auto simp: value_at_eq index_at_eq c'_def nth_list_update)+
  ultimately have "kv_effect (L, H, q, v, i) (KvAppendKey layer tok key) c c'"
    using k g(3) by (auto simp: kv_effect_def same_views_def split: option.splits)
  with ap show ?thesis by blast
qed

lemma appendValue_effect:
  assumes "kv_ok (L, H, q, v, i) c" "length val = H * v" "tok < 2 ^ 29"
  shows "\<exists>c'. kv_appendValue layer tok val c = Some c' \<and>
    kv_effect (L, H, q, v, i) (KvAppendValue layer tok val) c c'"
proof (cases "bad_slot layer tok c")
  case True
  then show ?thesis using assms(1) bad_slot_written(2) [OF _ True]
    by (auto simp: kv_appendValue_def kv_ok_def intro!: kv_effect_none)
next
  case False
  obtain g b where g: "kv_growTo (nat tok) c = Some g" "kv_ok (L, H, q, v, i) g" "same_views c g"
    "b = kv_buffers g ! nat layer" "buffer_ok g b" "nat layer < length (kv_buffers g)"
    "0 \<le> layer" "0 \<le> tok" "nat tok < kv_maxSeqLen g" "kv_headStride g = kv_maxSeqLen g * q"
    and dims: "kv_numLayers g = L" "kv_numHeads g = H" "kv_qkTotal g = q" "kv_vDim g = v" "kv_indexDim g = i"
    using append_grown [OF assms(1) False assms(3)] by metis
  let ?m = "kv_maxSeqLen g"
  have len: "length (lb_value b) = H * (?m * v)" using g(5) by (simp add: buffer_ok_def dims)
  obtain r where r: "copy_blocks [0..<H] (lb_value b) (?m * v) (nat tok * v) val v v = Some r"
    "length r = length (lb_value b)"
    "\<And>h. h < H \<Longrightarrow> slice r (h * (?m * v) + nat tok * v) v = slice val (h * v) v"
    "\<And>h t'. h < H \<Longrightarrow> t' < ?m \<Longrightarrow> t' \<noteq> nat tok \<Longrightarrow>
       slice r (h * (?m * v) + t' * v) v = slice (lb_value b) (h * (?m * v) + t' * v) v"
    by (rule append_blocks [OF len assms(2) g(9)]) blast
  define c' where "c' = kv_upd_buffer (nat layer) (b\<lparr>lb_value := r\<rparr>) g"
  have ap: "kv_appendValue layer tok val c = Some c'"
    using False g(1,4) r(1) by (simp add: kv_appendValue_def Let_def c'_def dims)
  have "buffer_ok g (b\<lparr>lb_value := r\<rparr>)" using g(5) r(2) by (simp add: buffer_ok_def)
  then have k: "kv_ok (L, H, q, v, i) c'" using kv_upd_buffer_inv g(2) by (simp add: kv_ok_def c'_def)
  have "(case value_written (L, H, q, v, i) (KvAppendValue layer tok val) x of Some w \<Rightarrow> Some w | None \<Rightarrow> value_at x g)
      = Some w \<Longrightarrow> value_at x c' = Some w" for x w
    using r(3,4) g(4,6-10)
    by (cases x) (auto simp: value_at_eq c'_def dims nth_list_update split: if_splits)
  moreover have "key_at x c' = key_at x g" "index_at y c' = index_at y g" for x y
    using g(4,6) by (cases x, cases y, auto simp: key_at_eq index_at_eq c'_def nth_list_update)+
  ultimately have "kv_effect (L, H, q, v, i) (KvAppendValue layer tok val) c c'"
    using k g(3) by (auto simp: kv_effect_def same_views_def split: option.splits)
  with ap show ?thesis by blast
qed

lemma appendIndexKey_effect:
  assumes "kv_ok (L, H, q, v, i) c" "length idx = i" "tok < 2 ^ 29"
  shows "\<exists>c'. kv_appendIndexKey layer tok idx c = Some c' \<and>
    kv_effect (L, H, q, v, i) (KvAppendIndexKey layer tok idx) c c'"
proof (cases "bad_slot layer tok c")
  case True
  then show ?thesis using assms(1) bad_slot_written(3) [OF _ True]
    by (auto simp: kv_appendIndexKey_def kv_ok_def intro!: kv_effect_none)
next
  case False
  obtain g b where g: "kv_growTo (nat tok) c = Some g" "kv_ok (L, H, q, v, i) g" "same_views c g"
    "b = kv_buffers g ! nat layer" "buffer_ok g b" "nat layer < length (kv_buffers g)"
    "0 \<le> layer" "0 \<le> tok" "nat tok < kv_maxSeqLen g"
    and dims: "kv_numLayers g = L" "kv_indexDim g = i" "kv_layerIndexStride g = i"
    using append_grown [OF assms(1) False assms(3)] by metis
  have len: "length (lb_index b) = kv_maxSeqLen g * i" using g(5) by (simp add: buffer_ok_def dims)
  obtain r where r: "memcpy (lb_index b) (nat tok * i) idx 0 i = Some r" "length r = length (lb_index b)"
    "slice r (nat tok * i) i = idx"
    "\<And>t'. t' < kv_maxSeqLen g \<Longrightarrow> t' \<noteq> nat tok \<Longrightarrow> slice r (t' * i) i = slice (lb_index b) (t' * i) i"
    by (rule append_index [OF len assms(2) g(9)]) blast
  define c' where "c' = kv_upd_buffer (nat layer) (b\<lparr>lb_index := r\<rparr>) g"
  have ap: "kv_appendIndexKey layer tok idx c = Some c'"
    using False g(1,4) r(1) by (simp add: kv_appendIndexKey_def Let_def c'_def dims)
  have "buffer_ok g (b\<lparr>lb_index := r\<rparr>)" using g(5) r(2) by (simp add: buffer_ok_def)
  then have k: "kv_ok (L, H, q, v, i) c'" using kv_upd_buffer_inv g(2) by (simp add: kv_ok_def c'_def)
  have "(case index_written (L, H, q, v, i) (KvAppendIndexKey layer tok idx) x of Some w \<Rightarrow> Some w | None \<Rightarrow> index_at x g)
      = Some w \<Longrightarrow> index_at x c' = Some w" for x w
    using r(3,4) g(4,6-9)
    by (cases x) (auto simp: index_at_eq c'_def dims nth_list_update split: if_splits)
  moreover have "key_at x c' = key_at x g" "value_at y c' = value_at y g" for x y
    using g(4,6) by (cases x, cases y, auto simp: key_at_eq value_at_eq c'_def nth_list_update)+
  ultimately have "kv_effect (L, H, q, v, i) (KvAppendIndexKey layer tok idx) c c'"
    using k g(3) by (auto simp: kv_effect_def same_views_def split: option.splits)
  with ap show ?thesis by blast
qed

lemma reserve_effect:
  assumes "kv_ok d c" "n \<le> 2 ^ 29"
  shows "\<exists>c'. kv_reserve n c = Some c' \<and> kv_effect d (KvReserve n) c c'"
proof (cases "n \<le> int (kv_maxSeqLen c)")
  case True
  then show ?thesis using assms(1) by (auto simp: kv_reserve_def intro!: kv_effect_none)
next
  case False
  then have "nat (n - 1) < 2 ^ 29" using assms(2) by simp
  then obtain g where "kv_growTo (nat (n - 1)) c = Some g" "kv_inv g" "same_views c g" "kv_dims g = kv_dims c"
    using kv_growTo_spec [of c "nat (n - 1)"] assms(1) unfolding kv_ok_def by metis
  then show ?thesis using False assms(1) by (auto simp: kv_reserve_def kv_ok_def intro!: kv_effect_none)
qed

lemma kv_step_effect:
  assumes "kv_ok d c" "kv_op_ok d a"
  shows "\<exists>c'. kv_step a c = Some c' \<and> kv_effect d a c c'"
proof -
  obtain L H q v i where d: "d = (L, H, q, v, i)" by (cases d)
  have sv: "same_views c (c\<lparr>kv_seqLen := n\<rparr>)" for n
    by (auto simp: same_views_def key_at_eq value_at_eq index_at_eq split: if_splits)
  have inv: "kv_ok d (c\<lparr>kv_seqLen := n\<rparr>)" if "n \<le> kv_maxSeqLen c" for n
    using assms(1) that by (auto simp: kv_ok_def kv_inv_def kv_dims_def buffer_ok_def)
  show ?thesis
  proof (cases a)
    case KvAdvance
    have "kv_effect d a c (kv_advance c)"
      using assms(1) sv [of "kv_seqLen c + 1"] inv [of "kv_seqLen c + 1"]
      by (intro kv_effect_none) (auto simp: KvAdvance kv_advance_def)
    then show ?thesis by (simp add: KvAdvance)
  next
    case KvClear
    have "kv_effect d a c (kv_clear c)"
      using sv [of 0] inv [of 0] by (intro kv_effect_none) (auto simp: KvClear kv_clear_def)
    then show ?thesis by (simp add: KvClear)
  qed (use assms d appendKey_effect appendValue_effect appendIndexKey_effect reserve_effect in auto)
qed

lemma kv_effectD:
  assumes "kv_effect d a c c'"
  shows "kv_ok d c'" "key_written d a x = Some v \<Longrightarrow> key_at x c' = Some v"
    "key_written d a x = None \<Longrightarrow> key_at x c = Some v \<Longrightarrow> key_at x c' = Some v"
    "value_written d a x = Some v \<Longrightarrow> value_at x c' = Some v"
    "value_written d a x = None \<Longrightarrow> value_at x c = Some v \<Longrightarrow> value_at x c' = Some v"
    "index_written d a y = Some v \<Longrightarrow> index_at y c' = Some v"
    "index_written d a y = None \<Longrightarrow> index_at y c = Some v \<Longrightarrow> index_at y c' = Some v"
  using assms by (auto simp: kv_effect_def simp del: split_paired_All)

lemma kv_step_effectD: "kv_ok d c \<Longrightarrow> kv_op_ok d a \<Longrightarrow> kv_step a c = Some c' \<Longrightarrow> kv_effect d a c c'"
  using kv_step_effect [of d c a] by auto

lemma kv_step_ok: "kv_ok d c \<Longrightarrow> kv_op_ok d a \<Longrightarrow> \<exists>c'. kv_step a c = Some c' \<and> kv_ok d c'"
  using kv_step_effect [of d c a] kv_effectD(1) by metis

text \<open>The cache is a slot store three times over: for keys, for values and for indexer keys.\<close>

interpretation kv_keys: slot_store "kv_ok d" "kv_op_ok d" kv_step "key_written d" key_at for d
  by unfold_locales
    (rule kv_step_ok, assumption+, metis kv_step_effectD kv_effectD(2), metis kv_step_effectD kv_effectD(3))

interpretation kv_values: slot_store "kv_ok d" "kv_op_ok d" kv_step "value_written d" value_at for d
  by unfold_locales
    (rule kv_step_ok, assumption+, metis kv_step_effectD kv_effectD(4), metis kv_step_effectD kv_effectD(5))

interpretation kv_indices: slot_store "kv_ok d" "kv_op_ok d" kv_step "index_written d" index_at for d
  by unfold_locales
    (rule kv_step_ok, assumption+, metis kv_step_effectD kv_effectD(6), metis kv_step_effectD kv_effectD(7))

subsection \<open>Properties\<close>

text \<open>
  C8. After any interleaving of key, value and indexer-key appends, reservations, advances and
  clears, in any layer and token order and with any number of buffer growths in between, every
  getter returns the data last appended for its slot: growth and its rebasing of the head-major
  blocks lose and mix nothing, and every copy stays inside its buffers.
\<close>

theorem kv_cache_history:
  assumes "\<forall>a \<in> set as. kv_op_ok (L, H, q, v, i) a"
  shows "\<exists>c. run_steps kv_step as (kv_init L H q v i m KVCache) = Some c \<and> kv_inv c \<and>
    (\<forall>x w. last_written (key_written (L, H, q, v, i)) as x = Some w \<longrightarrow> key_at x c = Some w) \<and>
    (\<forall>x w. last_written (value_written (L, H, q, v, i)) as x = Some w \<longrightarrow> value_at x c = Some w) \<and>
    (\<forall>x w. last_written (index_written (L, H, q, v, i)) as x = Some w \<longrightarrow> index_at x c = Some w)"
proof -
  let ?d = "(L, H, q, v, i)" and ?c0 = "kv_init L H q v i m KVCache"
  have ok: "kv_ok ?d ?c0" by (simp add: kv_ok_def kv_init_inv kv_init_dims)
  then obtain c where c: "run_steps kv_step as ?c0 = Some c" "kv_ok ?d c"
    using run_steps_inv [of "kv_ok ?d" "kv_op_ok ?d" kv_step, OF kv_keys.step_ok] assms by blast
  show ?thesis
    by (rule exI [of _ c])
      (use c kv_keys.read_last_written [OF ok assms c(1)] kv_values.read_last_written [OF ok assms c(1)]
        kv_indices.read_last_written [OF ok assms c(1)] in \<open>auto simp: kv_ok_def\<close>)
qed

lemma kv_cache_history_witness:
  "\<exists>c. run_steps kv_step [KvAppendKey 0 0 [1, 2, 3, 4], KvAppendKey 0 5000 [5, 6, 7, 8]]
       (kv_init 1 2 2 1 1 4 KVCache) = Some c \<and> kv_inv c \<and>
     key_at (0, 1, 0) c = Some [3, 4] \<and> key_at (0, 0, 5000) c = Some [5, 6]"
proof -
  let ?as = "[KvAppendKey 0 0 [1, 2, 3, 4], KvAppendKey 0 5000 [5, 6, 7, 8]]"
  have w: "last_written (key_written (1, 2, 2, 1, 1)) ?as (0, 1, 0) = Some [3, 4]"
    "last_written (key_written (1, 2, 2, 1, 1)) ?as (0, 0, 5000) = Some [5, 6]"
    by (simp_all add: Prelude.slice_def)
  have ok: "\<forall>a \<in> set ?as. kv_op_ok (1, 2, 2, 1, 1) a" by simp
  show ?thesis using kv_cache_history [OF ok, of 4] w by blast
qed

text \<open>
  Growing for a token position below \<open>2 ^ 29\<close> returns, overflows no \<open>int\<close>, makes room for the
  position, keeps every readable slot, and either leaves the capacity alone or at least doubles it
  without exceeding twice the number of tokens asked for (or 1024).
\<close>

theorem kv_growTo_capacity:
  assumes "kv_inv c" "t < 2 ^ 29"
  shows "\<exists>c'. kv_growTo t c = Some c' \<and> kv_inv c' \<and> same_views c c' \<and> t < kv_maxSeqLen c' \<and>
    (kv_maxSeqLen c' = kv_maxSeqLen c \<or>
     2 * kv_maxSeqLen c \<le> kv_maxSeqLen c' \<and> kv_maxSeqLen c' \<le> max 1024 (2 * (t + 1)))"
  using kv_growTo_spec [OF assms] by metis

lemma kv_growTo_capacity_witness:
  "\<exists>c'. kv_growTo 4096 (kv_init 2 3 4 4 2 4096 KVCache) = Some c' \<and> kv_inv c' \<and>
    same_views (kv_init 2 3 4 4 2 4096 KVCache) c' \<and> 4096 < kv_maxSeqLen c'"
  using kv_growTo_capacity [of "kv_init 2 3 4 4 2 4096 KVCache" 4096] kv_init_inv by auto

end
