(* ===== verification/BFloat16.thy ===== *)
theory BFloat16
  imports Float32
begin

text \<open>
  \<open>src/src/compute/dtype_bf16.h\<close>: a BF16 number is the upper half of a binary32 pattern.
  \<open>toF32\<close> shifts it back, \<open>fromF32\<close> adds the rounding bias and drops the lower half. The lemmas
  read both on the integers behind the words; the properties say that the pair is lossless on
  BF16 data and that \<open>fromF32\<close> picks a nearest BF16 number (and what it does to NaN).
\<close>

definition bf16_toF32 :: "u16 \<Rightarrow> f32" where
  "bf16_toF32 b = push_bit 16 (ucast b)"

definition bf16_fromF32 :: "f32 \<Rightarrow> u16" where
  "bf16_fromF32 u =
     (let rounding_bias = 0x7FFF + (and (drop_bit 16 u) 1)
      in ucast (drop_bit 16 (u + rounding_bias)))"

lemma uint_toF32: "uint (bf16_toF32 b) = uint b * 0x10000"
proof -
  have "uint b < 0x10000" using uint_lt2p [of b] by simp
  then have "uint b * 0x10000 < 2 ^ 32" by simp
  then show ?thesis
    by (simp add: bf16_toF32_def push_bit_eq_mult uint_word_ariths unsigned_ucast_eq
        take_bit_eq_mod)
qed

definition bf16_bias :: "int \<Rightarrow> int" where
  "bf16_bias k = 0x7FFF + (k div 0x10000) mod 2"

lemma uint_fromF32:
  "uint (bf16_fromF32 u) = (uint u + bf16_bias (uint u)) mod 0x100000000 div 0x10000"
proof -
  define w :: f32 where "w = 0x7FFF + (and (drop_bit 16 u) 1)"
  have w: "uint w = bf16_bias (uint u)"
    by (simp add: w_def bf16_bias_def uint_word_ariths and_one_eq drop_bit_eq_div
        uint_mod uint_div)
  have sum: "uint (u + w) = (uint u + bf16_bias (uint u)) mod 0x100000000"
    by (simp add: uint_word_ariths w)
  have "uint (bf16_fromF32 u) = uint (drop_bit 16 (u + w)) mod 0x10000"
    by (simp add: bf16_fromF32_def Let_def w_def unsigned_ucast_eq take_bit_eq_mod)
  also have "uint (drop_bit 16 (u + w)) = uint (u + w) div 0x10000"
    by (simp add: drop_bit_eq_div uint_div)
  also have "uint (u + w) div 0x10000 mod 0x10000 = uint (u + w) div 0x10000"
  proof (rule mod_pos_pos_trivial)
    have "uint (u + w) < 0x10000 * 0x10000" using uint_lt2p [of "u + w"] by simp
    then show "uint (u + w) div 0x10000 < 0x10000" by linarith
  qed (simp add: pos_imp_zdiv_nonneg_iff)
  finally show ?thesis by (simp only: sum)
qed

subsection \<open>The pair is lossless on BF16\<close>

lemma bf16_bias_range: "0x7FFF \<le> bf16_bias k \<and> bf16_bias k \<le> 0x8000"
  by (simp add: bf16_bias_def)

text \<open>
  a BF16 number survives the trip through \<open>float\<close>: \<open>fromF32\<close> of \<open>toF32\<close> is the same 16
  bits, for every pattern, NaNs and infinities included, so reading weights as floats loses nothing.
\<close>

theorem bf16_roundtrip: "bf16_fromF32 (bf16_toF32 b) = b"
proof -
  have b: "uint b < 0x10000" "0 \<le> uint b" using uint_lt2p [of b] by simp_all
  define k where "k = uint b * 0x10000"
  have "uint (bf16_fromF32 (bf16_toF32 b)) = (k + bf16_bias k) mod 0x100000000 div 0x10000"
    by (simp add: uint_fromF32 uint_toF32 k_def)
  also have "(k + bf16_bias k) mod 0x100000000 = k + bf16_bias k"
    using bf16_bias_range [of k] b by (intro mod_pos_pos_trivial) (simp_all add: k_def)
  also have "(k + bf16_bias k) div 0x10000 = uint b + bf16_bias k div 0x10000"
    by (simp add: k_def)
  also have "bf16_bias k div 0x10000 = 0"
    using bf16_bias_range [of k] by (intro div_pos_pos_trivial) simp_all
  finally show ?thesis by (simp add: word_uint_eqI)
qed

subsection \<open>Rounding to the nearest BF16 number\<close>

text \<open>Within one step of the upper half the scale is a straight line.\<close>

definition mag_slope :: "int \<Rightarrow> int" where
  "mag_slope h = (if h < 0x80 then 1 else 2 ^ nat (h div 0x80 - 1))"

lemma mag_slope_pos: "0 < mag_slope h"
  by (simp add: mag_slope_def)

lemma mag_int_linear:
  assumes "0 \<le> h" "0 \<le> r" "r \<le> 0x10000"
  shows "mag_int (h * 0x10000 + r) = mag_int (h * 0x10000) + r * mag_slope h"
proof (cases "h < 0x80")
  case True
  have "mag_int (h * 0x10000 + r) = h * 0x10000 + r"
  proof (cases "h * 0x10000 + r < 0x800000")
    case False
    then have "h * 0x10000 + r = 0x800000" using True assms by linarith
    then show ?thesis by (simp add: mag_int_def)
  qed (simp add: mag_int_def)
  moreover have "mag_int (h * 0x10000) = h * 0x10000" using True by (simp add: mag_int_def)
  ultimately show ?thesis using True by (simp add: mag_slope_def)
next
  case False
  define e g where "e = h div 0x80" and "g = h mod 0x80"
  have h: "h = g + e * 0x80" and g: "0 \<le> g" "g < 0x80" by (simp_all add: e_def g_def)
  have e: "1 \<le> e" using False h g by linarith
  have val: "mag_int (h * 0x10000 + s) = (0x800000 + g * 0x10000 + s) * 2 ^ nat (e - 1)"
    if s: "0 \<le> s" "g * 0x10000 + s < 0x800000" for s
  proof -
    define m where "m = (g * 0x10000 + s) + e * 0x800000"
    have "m mod 0x800000 = (g * 0x10000 + s) mod 0x800000"
      unfolding m_def by (rule mod_mult_self1)
    moreover have "m div 0x800000 = e + (g * 0x10000 + s) div 0x800000"
      unfolding m_def by (rule div_mult_self1) simp
    ultimately have "m div 0x800000 = e" "m mod 0x800000 = g * 0x10000 + s"
      using s g by simp_all
    moreover have "\<not> m < 0x800000" using s g e by (simp add: m_def)
    moreover have "h * 0x10000 + s = m" by (simp add: m_def h)
    ultimately show ?thesis by (simp add: mag_int_def add.assoc)
  qed
  have "mag_int (h * 0x10000 + r) = (0x800000 + g * 0x10000 + r) * 2 ^ nat (e - 1)"
  proof (cases "g * 0x10000 + r < 0x800000")
    case True
    then show ?thesis using val [of r] assms by simp
  next
    case False
    then have gr: "g = 0x7F" "r = 0x10000" using g assms by linarith+
    have hr: "h * 0x10000 + r = (e + 1) * 0x800000" by (simp add: h gr)
    have "mag_int (h * 0x10000 + r) = 0x800000 * 2 ^ nat e"
      unfolding hr using e by (simp add: mag_int_def)
    also have "(2::int) ^ nat e = 2 * 2 ^ nat (e - 1)"
      using e by (simp flip: power_Suc add: nat_diff_distrib)
    finally show ?thesis by (simp add: gr)
  qed
  moreover have "mag_int (h * 0x10000) = (0x800000 + g * 0x10000) * 2 ^ nat (e - 1)"
    using val [of 0] g by simp
  moreover have "mag_slope h = 2 ^ nat (e - 1)" using False by (simp add: mag_slope_def e_def)
  ultimately show ?thesis by (simp add: algebra_simps)
qed


text \<open>What \<open>fromF32\<close> does to the magnitude, away from the wrap-around of NaN patterns.\<close>

definition bf16_up :: "int \<Rightarrow> int" where
  "bf16_up m = (m + bf16_bias m) div 0x10000"

lemma fromF32_fields:
  assumes "f32_mag x \<le> inf_mag"
  shows "f32_mag (bf16_toF32 (bf16_fromF32 x)) = bf16_up (f32_mag x) * 0x10000"
    "f32_neg_bit (bf16_toF32 (bf16_fromF32 x)) = f32_neg_bit x"
proof -
  define m n where "m = f32_mag x" and "n = (if f32_neg_bit x then 0x8000 else 0 :: int)"
  have u: "uint x = m + n * 0x10000" by (simp add: uint_fields [of x] m_def n_def)
  have m: "0 \<le> m" "m \<le> inf_mag" using assms f32_mag_range [of x] by (simp_all add: m_def)
  have nm: "n mod 2 = 0" "0 \<le> n" "n \<le> 0x8000" by (simp_all add: n_def)
  have even: "(n + d) mod 2 = d mod 2" for d using nm(1) by presburger
  have bias: "bf16_bias (uint x) = bf16_bias m"
    by (simp add: bf16_bias_def u even)
  have up: "0 \<le> bf16_up m" "bf16_up m < 0x8000"
  proof -
    have "0 \<le> m + bf16_bias m" "m + bf16_bias m < 0x8000 * 0x10000"
      using m bf16_bias_range [of m] by (simp_all add: inf_mag_def)
    then show "0 \<le> bf16_up m" "bf16_up m < 0x8000"
      unfolding bf16_up_def by (simp_all add: pos_imp_zdiv_nonneg_iff)
  qed
  have "uint (bf16_fromF32 x) = (m + n * 0x10000 + bf16_bias m) mod 0x100000000 div 0x10000"
    unfolding uint_fromF32 bias by (simp only: u)
  also have "(m + n * 0x10000 + bf16_bias m) mod 0x100000000 = (m + bf16_bias m) + n * 0x10000"
    using m nm bf16_bias_range [of m] by (subst mod_pos_pos_trivial) (simp_all add: inf_mag_def)
  also have "\<dots> div 0x10000 = n + bf16_up m"
    unfolding bf16_up_def by (rule div_mult_self1) simp
  finally have "uint (bf16_toF32 (bf16_fromF32 x)) = (n + bf16_up m) * 0x10000"
    by (simp add: uint_toF32)
  then have r: "bf16_toF32 (bf16_fromF32 x) = f32_mk (f32_neg_bit x) (bf16_up m * 0x10000)"
    using up by (intro word_uint_eqI) (simp add: uint_f32_mk n_def)
  show "f32_mag (bf16_toF32 (bf16_fromF32 x)) = bf16_up (f32_mag x) * 0x10000"
    "f32_neg_bit (bf16_toF32 (bf16_fromF32 x)) = f32_neg_bit x"
    using up by (simp_all add: r f32_simps m_def)
qed


lemma bf16_up_nearest:
  assumes "0 \<le> m" "0 \<le> h"
  shows "\<bar>mag_int (bf16_up m * 0x10000) - mag_int m\<bar> \<le> \<bar>mag_int (h * 0x10000) - mag_int m\<bar>"
proof -
  define q r where "q = m div 0x10000" and "r = m mod 0x10000"
  have m: "m = q * 0x10000 + r" and r: "0 \<le> r" "r < 0x10000" and q: "0 \<le> q"
    using assms(1) by (simp_all add: q_def r_def pos_imp_zdiv_nonneg_iff)
  define c where "c = mag_slope q"
  have c: "0 < c" "mag_int m = mag_int (q * 0x10000) + r * c"
    "mag_int ((q + 1) * 0x10000) = mag_int (q * 0x10000) + 0x10000 * c"
    using mag_int_linear [of q r] mag_int_linear [of q "0x10000"] q r mag_slope_pos
    by (simp_all add: c_def m algebra_simps)
  have up: "bf16_up m = (if r + bf16_bias m < 0x10000 then q else q + 1)"
  proof -
    have "bf16_up m = (r + bf16_bias m + q * 0x10000) div 0x10000"
      by (simp add: bf16_up_def m)
    also have "\<dots> = q + (r + bf16_bias m) div 0x10000" by (rule div_mult_self1) simp
    also have "(r + bf16_bias m) div 0x10000 = (if r + bf16_bias m < 0x10000 then 0 else 1)"
    proof (cases "r + bf16_bias m < 0x10000")
      case False
      then have "(r + bf16_bias m) div 0x10000 = (r + bf16_bias m - 0x10000) div 0x10000 + 1"
        by (intro div_pos_geq) simp_all
      also have "(r + bf16_bias m - 0x10000) div 0x10000 = 0"
        using False r bf16_bias_range [of m] by (intro div_pos_pos_trivial) simp_all
      finally show ?thesis using False by simp
    qed (use r bf16_bias_range [of m] in simp)
    finally show ?thesis by simp
  qed
  define d where "d = (if r + bf16_bias m < 0x10000 then r else 0x10000 - r)"
  have d: "\<bar>mag_int (bf16_up m * 0x10000) - mag_int m\<bar> = d * c"
    using c r by (simp add: up d_def algebra_simps)
  have dmin: "d \<le> r" "d \<le> 0x10000 - r"
    using bf16_bias_range [of m] by (auto simp: d_def)
  show ?thesis
  proof (cases "h \<le> q")
    case True
    then have "mag_int (h * 0x10000) \<le> mag_int (q * 0x10000)"
      using assms(2) by (intro mag_int_le) simp_all
    moreover have "d * c \<le> r * c" using dmin c(1) by simp
    ultimately show ?thesis using d c by linarith
  next
    case False
    then have "mag_int ((q + 1) * 0x10000) \<le> mag_int (h * 0x10000)"
      using q by (intro mag_int_le) simp_all
    moreover have "d * c \<le> (0x10000 - r) * c" using dmin c(1) by simp
    ultimately show ?thesis using d c by (simp add: algebra_simps)
  qed
qed

text \<open>
  \<open>fromF32\<close> rounds to nearest: no BF16 number is closer to a float that is not NaN than the
  one it returns (values in units of \<open>2 ^ -149\<close>; infinity stands at \<open>2 ^ 128\<close>, as in IEEE rounding).
\<close>

theorem bf16_fromF32_nearest:
  assumes "\<not> f32_is_nan x" and "\<not> f32_is_nan (bf16_toF32 b)"
  shows "\<bar>f32_int (bf16_toF32 (bf16_fromF32 x)) - f32_int x\<bar> \<le> \<bar>f32_int (bf16_toF32 b) - f32_int x\<bar>"
proof -
  define m h where "m = f32_mag x" and "h = uint b mod 0x8000"
  have m: "0 \<le> m" "m \<le> inf_mag" using assms(1) f32_mag_range [of x]
    by (simp_all add: m_def f32_is_nan_def)
  have h: "0 \<le> h" and mb: "f32_mag (bf16_toF32 b) = h * 0x10000"
    by (simp_all add: h_def f32_mag_def uint_toF32 mult_mod_left flip: mult_mod_left [of _ "0x8000" "0x10000"])
  note near = bf16_up_nearest [OF m(1)]
  have up: "0 \<le> bf16_up m" using m bf16_bias_range [of m]
    by (simp add: bf16_up_def pos_imp_zdiv_nonneg_iff)
  have v: "0 \<le> mag_int (bf16_up m * 0x10000)" "0 \<le> mag_int m" "0 \<le> mag_int (h * 0x10000)"
    using up m h by (simp_all add: mag_int_nonneg)
  have r: "f32_int (bf16_toF32 (bf16_fromF32 x)) =
      (if f32_neg_bit x then - mag_int (bf16_up m * 0x10000) else mag_int (bf16_up m * 0x10000))"
    using fromF32_fields [of x] m by (simp add: f32_int_def m_def)
  have bx: "f32_int x = (if f32_neg_bit x then - mag_int m else mag_int m)"
    by (simp add: f32_int_def m_def)
  have bb: "f32_int (bf16_toF32 b) =
      (if f32_neg_bit (bf16_toF32 b) then - mag_int (h * 0x10000) else mag_int (h * 0x10000))"
    by (simp add: f32_int_def mb)
  show ?thesis
    using near [OF h] near [of 0] v unfolding r bx bb by (auto split: if_splits)
qed


lemma bf16_fromF32_nearest_witness:
  "\<not> f32_is_nan 0x40490FDB \<and> \<not> f32_is_nan (bf16_toF32 0x404A) \<and>
   \<bar>f32_int (bf16_toF32 (bf16_fromF32 0x40490FDB)) - f32_int 0x40490FDB\<bar>
     \<le> \<bar>f32_int (bf16_toF32 0x404A) - f32_int 0x40490FDB\<bar>"
proof -
  have x: "\<not> f32_is_nan 0x40490FDB"
    by (simp add: f32_is_nan_def f32_mag_def inf_mag_def)
  have b: "\<not> f32_is_nan (bf16_toF32 0x404A)"
    by (simp add: f32_is_nan_def f32_mag_def inf_mag_def uint_toF32)
  show ?thesis using x b bf16_fromF32_nearest [OF x b] by blast
qed

text \<open>
  The bias is added to NaN patterns too: the quiet NaN \<open>0x7FFFFFFF\<close> becomes \<open>-0\<close> and
  the signalling NaN \<open>0x7F800001\<close> becomes infinity.
\<close>

lemma bf16_fromF32_nan_lost:
  "f32_is_nan 0x7FFFFFFF \<and> bf16_fromF32 0x7FFFFFFF = 0x8000 \<and>
   f32_is_nan 0x7F800001 \<and> bf16_fromF32 0x7F800001 = 0x7F80 \<and>
   f32_is_inf (bf16_toF32 0x7F80)"
proof -
  have "uint (bf16_fromF32 0x7FFFFFFF) = uint (0x8000 :: u16)"
    "uint (bf16_fromF32 0x7F800001) = uint (0x7F80 :: u16)"
    by (simp_all add: uint_fromF32 bf16_bias_def)
  then have "bf16_fromF32 0x7FFFFFFF = 0x8000" "bf16_fromF32 0x7F800001 = 0x7F80"
    by (simp_all only: word_uint_eq_iff)
  then show ?thesis
    by (simp add: f32_is_nan_def f32_is_inf_def f32_mag_def inf_mag_def uint_toF32)
qed

end
