(* ===== verification/StdAlgo.thy ===== *)
theory StdAlgo
  imports Prelude Float32 "HOL-Library.Multiset"
begin

text \<open>
  What the program uses of the C++ standard library's algorithms and of \<open>libm\<close>.
  \<open>std::sort\<close>, \<open>std::partial_sort\<close> and \<open>std::nth_element\<close> leave the order of equivalent elements
  open, so they are parameters of the definitions that call them; the locale \<open>partial_sorter\<close>
  is their documented contract and is met by an insertion sort. The transcendental functions are
  the fields of a record \<open>libm\<close>.
\<close>

record libm =
  lm_exp :: "f32 \<Rightarrow> f32"
  lm_log :: "f32 \<Rightarrow> f32"
  lm_sqrt :: "f32 \<Rightarrow> f32"
  lm_pow :: "f32 \<Rightarrow> f32 \<Rightarrow> f32"
  lm_cos :: "f32 \<Rightarrow> f32"
  lm_sin :: "f32 \<Rightarrow> f32"
  lm_tanh :: "f32 \<Rightarrow> f32"

subsection \<open>Comparators\<close>

definition strict_weak :: "('a \<Rightarrow> 'a \<Rightarrow> bool) \<Rightarrow> 'a set \<Rightarrow> bool" where
  "strict_weak lt A \<longleftrightarrow>
     (\<forall>a \<in> A. \<not> lt a a) \<and>
     (\<forall>a \<in> A. \<forall>b \<in> A. \<forall>c \<in> A. lt a b \<longrightarrow> lt b c \<longrightarrow> lt a c) \<and>
     (\<forall>a \<in> A. \<forall>b \<in> A. \<forall>c \<in> A. \<not> lt a b \<longrightarrow> \<not> lt b c \<longrightarrow> \<not> lt a c)"

lemma strict_weak_key:
  assumes "\<And>a b. a \<in> A \<Longrightarrow> b \<in> A \<Longrightarrow> lt a b \<longleftrightarrow> f a < (f b :: 'k::linorder)"
  shows "strict_weak lt A"
  unfolding strict_weak_def
proof (intro conjI ballI impI)
  fix a
  assume "a \<in> A"
  then show "\<not> lt a a" using assms [of a a] by simp
next
  fix a b c
  assume "a \<in> A" "b \<in> A" "c \<in> A" "lt a b" "lt b c"
  then show "lt a c" using assms [of a b] assms [of b c] assms [of a c] less_trans by simp
next
  fix a b c
  assume "a \<in> A" "b \<in> A" "c \<in> A" "\<not> lt a b" "\<not> lt b c"
  then show "\<not> lt a c" using assms [of a b] assms [of b c] assms [of a c] by simp
qed

lemma strict_weak_subset: "strict_weak lt A \<Longrightarrow> B \<subseteq> A \<Longrightarrow> strict_weak lt B"
  unfolding strict_weak_def by blast

text \<open>The two float comparators the program passes, on keys that are not NaN.\<close>

lemma strict_weak_f32_greater:
  "\<forall>a \<in> A. \<not> f32_is_nan (g a) \<Longrightarrow> strict_weak (\<lambda>a b. f32_lt (g b) (g a)) A"
  by (rule strict_weak_key [where f = "\<lambda>a. - f32_int (g a)"]) (auto simp: f32_lt_def)

lemma strict_weak_f32_less:
  "\<forall>a \<in> A. \<not> f32_is_nan (g a) \<Longrightarrow> strict_weak (\<lambda>a b. f32_lt (g a) (g b)) A"
  by (rule strict_weak_key [where f = "\<lambda>a. f32_int (g a)"]) (auto simp: f32_lt_def)

subsection \<open>The contract\<close>

text \<open>
  \<open>std::partial_sort(first, first + k, last, lt)\<close>: a permutation of the range whose first \<open>k\<close>
  elements are sorted and precede the others. \<open>std::sort\<close> is the case where \<open>k\<close> is the length.
  A comparator that is not a strict weak order gives no guarantee (it is undefined behaviour).
\<close>

locale partial_sorter =
  fixes psort :: "('a \<Rightarrow> 'a \<Rightarrow> bool) \<Rightarrow> nat \<Rightarrow> 'a list \<Rightarrow> 'a list"
  assumes psort_mset: "strict_weak lt (set xs) \<Longrightarrow> k \<le> length xs \<Longrightarrow> mset (psort lt k xs) = mset xs"
    and psort_order: "strict_weak lt (set xs) \<Longrightarrow> k \<le> length xs \<Longrightarrow> i < k \<Longrightarrow> i < j \<Longrightarrow> j < length xs \<Longrightarrow>
      \<not> lt (psort lt k xs ! j) (psort lt k xs ! i)"
begin

lemma psort_length: "strict_weak lt (set xs) \<Longrightarrow> k \<le> length xs \<Longrightarrow> length (psort lt k xs) = length xs"
  by (metis psort_mset mset_eq_length)

lemma psort_set: "strict_weak lt (set xs) \<Longrightarrow> k \<le> length xs \<Longrightarrow> set (psort lt k xs) = set xs"
  by (metis psort_mset mset_eq_setD)

lemma psort_distinct:
  "strict_weak lt (set xs) \<Longrightarrow> k \<le> length xs \<Longrightarrow> distinct (map f xs) \<Longrightarrow> distinct (map f (psort lt k xs))"
  by (metis psort_mset mset_eq_imp_distinct_iff mset_map)

text \<open>The selected prefix: nothing outside it precedes anything in it.\<close>

lemma psort_selects:
  assumes "strict_weak lt (set xs)" "k \<le> length xs" "a \<in> set (take k (psort lt k xs))" "b \<in> set xs"
    and "b \<notin> set (take k (psort lt k xs))"
  shows "\<not> lt b a"
proof -
  let ?r = "psort lt k xs"
  note len = psort_length [OF assms(1,2)]
  obtain i where i: "i < k" "?r ! i = a"
    using assms(2,3) len by (auto simp: in_set_conv_nth)
  have "b \<in> set ?r" using assms(4) psort_set [OF assms(1,2)] by simp
  then obtain j where j: "j < length xs" "?r ! j = b" using len by (auto simp: in_set_conv_nth)
  have "\<not> j < k"
  proof
    assume "j < k"
    then have "take k ?r ! j = b" "j < length (take k ?r)" using j assms(2) len by simp_all
    then show False using assms(5) nth_mem by metis
  qed
  then show ?thesis using psort_order [OF assms(1,2) i(1), of j] i j by simp
qed

lemma psort_sorted_prefix:
  assumes "strict_weak lt (set xs)" "k \<le> length xs"
  shows "sorted_wrt (\<lambda>a b. \<not> lt b a) (take k (psort lt k xs))"
  using assms psort_length [OF assms] psort_order [OF assms] by (auto simp: sorted_wrt_iff_nth_less)

end

subsection \<open>A stable sort meets it\<close>

fun insert_by :: "('a \<Rightarrow> 'a \<Rightarrow> bool) \<Rightarrow> 'a \<Rightarrow> 'a list \<Rightarrow> 'a list" where
  "insert_by lt x [] = [x]"
| "insert_by lt x (y # ys) = (if lt y x then y # insert_by lt x ys else x # y # ys)"

definition stable_sort :: "('a \<Rightarrow> 'a \<Rightarrow> bool) \<Rightarrow> 'a list \<Rightarrow> 'a list" where
  "stable_sort lt xs = foldr (insert_by lt) xs []"

definition stable_psort :: "('a \<Rightarrow> 'a \<Rightarrow> bool) \<Rightarrow> nat \<Rightarrow> 'a list \<Rightarrow> 'a list" where
  "stable_psort lt k xs = stable_sort lt xs"

lemma mset_insert_by [simp]: "mset (insert_by lt x ys) = add_mset x (mset ys)"
  by (induction ys) auto

lemma set_insert_by [simp]: "set (insert_by lt x ys) = insert x (set ys)"
  by (induction ys) auto

lemma mset_stable_sort [simp]: "mset (stable_sort lt xs) = mset xs"
  by (induction xs) (simp_all add: stable_sort_def)

lemma set_stable_sort [simp]: "set (stable_sort lt xs) = set xs"
  by (metis mset_stable_sort set_mset_mset)

lemma length_stable_sort [simp]: "length (stable_sort lt xs) = length xs"
  by (metis mset_stable_sort size_mset)

lemma insert_by_sorted:
  assumes "strict_weak lt (insert x (set ys))" "sorted_wrt (\<lambda>a b. \<not> lt b a) ys"
  shows "sorted_wrt (\<lambda>a b. \<not> lt b a) (insert_by lt x ys)"
  using assms
proof (induction ys)
  case Nil
  then show ?case by simp
next
  case (Cons y ys)
  have w: "strict_weak lt (insert x (set ys))" by (rule strict_weak_subset [OF Cons.prems(1)]) auto
  show ?case
  proof (cases "lt y x")
    case True
    then have "\<not> lt x y" using Cons.prems(1) unfolding strict_weak_def by (metis insertI1 insertI2 list.set_intros(1))
    then show ?thesis using Cons.IH [OF w] Cons.prems(2) True by auto
  next
    case False
    have "\<not> lt z x" if "z \<in> set ys" for z
    proof -
      have "\<not> lt z y" using Cons.prems(2) that by auto
      then show ?thesis using False that Cons.prems(1) unfolding strict_weak_def
        by (metis insertI1 insertI2 list.set_intros)
    qed
    then show ?thesis using False Cons.prems(2) by auto
  qed
qed

lemma stable_sort_sorted:
  "strict_weak lt (set xs) \<Longrightarrow> sorted_wrt (\<lambda>a b. \<not> lt b a) (stable_sort lt xs)"
proof (induction xs)
  case (Cons x xs)
  have "strict_weak lt (set xs)" by (rule strict_weak_subset [OF Cons.prems]) auto
  moreover have "stable_sort lt (x # xs) = insert_by lt x (stable_sort lt xs)" by (simp add: stable_sort_def)
  ultimately show ?case using insert_by_sorted [of lt x "stable_sort lt xs"] Cons by simp
qed (simp add: stable_sort_def)

interpretation stable: partial_sorter stable_psort
proof unfold_locales
  fix lt :: "'a \<Rightarrow> 'a \<Rightarrow> bool" and xs :: "'a list" and k i j
  assume "strict_weak lt (set xs)"
  from stable_sort_sorted [OF this]
  show "i < j \<Longrightarrow> j < length xs \<Longrightarrow> \<not> lt (stable_psort lt k xs ! j) (stable_psort lt k xs ! i)"
    by (auto simp: stable_psort_def sorted_wrt_iff_nth_less)
qed (simp add: stable_psort_def)

subsection \<open>Bounds-checked element access\<close>

definition rd :: "'a list \<Rightarrow> nat \<Rightarrow> 'a option" where
  "rd xs i = (if i < length xs then Some (xs ! i) else None)"

definition wr :: "'a list \<Rightarrow> nat \<Rightarrow> 'a \<Rightarrow> 'a list option" where
  "wr xs i x = (if i < length xs then Some (xs[i := x]) else None)"

text \<open>Index of the first greatest element, the \<open>argmax\<close> loop with a strict comparison.\<close>

fun argmax_loop :: "f32 list \<Rightarrow> nat \<Rightarrow> nat list \<Rightarrow> nat" where
  "argmax_loop xs best [] = best"
| "argmax_loop xs best (i # is) = argmax_loop xs (if f32_lt (xs ! best) (xs ! i) then i else best) is"

definition argmax :: "f32 list \<Rightarrow> nat" where
  "argmax xs = argmax_loop xs 0 [1..<length xs]"

lemma argmax_loop_spec:
  assumes "\<forall>x \<in> set xs. \<not> f32_is_nan x" "best < n" "n \<le> m" "m \<le> length xs"
    and "\<forall>j < n. f32_int (xs ! j) \<le> f32_int (xs ! best) \<and>
      (j < best \<longrightarrow> f32_int (xs ! j) < f32_int (xs ! best))"
  shows "argmax_loop xs best [n..<m] < m \<and>
    (\<forall>j < m. f32_int (xs ! j) \<le> f32_int (xs ! argmax_loop xs best [n..<m]) \<and>
      (j < argmax_loop xs best [n..<m] \<longrightarrow> f32_int (xs ! j) < f32_int (xs ! argmax_loop xs best [n..<m])))"
  using assms
proof (induction "m - n" arbitrary: n best)
  case 0
  then show ?case by simp
next
  case (Suc d)
  then have n: "n < m" by simp
  let ?b = "if f32_lt (xs ! best) (xs ! n) then n else best"
  have nn: "\<not> f32_is_nan (xs ! best)" "\<not> f32_is_nan (xs ! n)" using Suc.prems n by auto
  have "\<forall>j < Suc n. f32_int (xs ! j) \<le> f32_int (xs ! ?b) \<and> (j < ?b \<longrightarrow> f32_int (xs ! j) < f32_int (xs ! ?b))"
  proof (intro allI impI)
    fix j
    assume "j < Suc n"
    then consider "j = n" | "j < n" by linarith
    then show "f32_int (xs ! j) \<le> f32_int (xs ! ?b) \<and> (j < ?b \<longrightarrow> f32_int (xs ! j) < f32_int (xs ! ?b))"
    proof cases
      case 1
      then show ?thesis using nn Suc.prems(2) by (auto simp: f32_lt_def)
    next
      case 2
      then show ?thesis using nn Suc.prems(5) by (fastforce simp: f32_lt_def)
    qed
  qed
  then show ?case
    using Suc.hyps(1) [of "Suc n" ?b] Suc.hyps(2) Suc.prems n by (simp add: upt_conv_Cons)
qed

lemma argmax_spec:
  assumes "\<forall>x \<in> set xs. \<not> f32_is_nan x" "xs \<noteq> []"
  shows "argmax xs < length xs" "\<And>j. j < length xs \<Longrightarrow> f32_int (xs ! j) \<le> f32_int (xs ! argmax xs)"
    "\<And>j. j < argmax xs \<Longrightarrow> f32_int (xs ! j) < f32_int (xs ! argmax xs)"
proof -
  have "0 < length xs" using assms(2) by simp
  then have "argmax xs < length xs \<and> (\<forall>j < length xs. f32_int (xs ! j) \<le> f32_int (xs ! argmax xs) \<and>
      (j < argmax xs \<longrightarrow> f32_int (xs ! j) < f32_int (xs ! argmax xs)))"
    unfolding argmax_def using assms by (intro argmax_loop_spec) (auto simp: Suc_le_eq)
  then show "argmax xs < length xs" "\<And>j. j < length xs \<Longrightarrow> f32_int (xs ! j) \<le> f32_int (xs ! argmax xs)"
    "\<And>j. j < argmax xs \<Longrightarrow> f32_int (xs ! j) < f32_int (xs ! argmax xs)" by auto
qed

end
