(* ===== verification/MoeRouter.thy ===== *)
theory MoeRouter
  imports StdAlgo
begin

text \<open>
  \<open>compute/moe_router.h\<close>: the noaux_tc Top-K router. The scores are read from a buffer of
  \<open>numExperts\<close> floats and the result is written to arrays of eight elements; a write past them (or a
  read past the scores) is undefined behaviour and makes the model return \<^const>\<open>None\<close>.
\<close>

record topk_result =
  tk_indices :: "nat list"
  tk_weights :: "f32 list"
  tk_k :: nat

definition TopKResult :: topk_result where
  "TopKResult = \<lparr>tk_indices = replicate 8 0, tk_weights = replicate 8 f32_zero, tk_k = 0\<rparr>"

definition sigmoid_f32 :: "libm \<Rightarrow> f32 \<Rightarrow> f32" where
  "sigmoid_f32 m x = f32_div f32_one (f32_add f32_one (lm_exp m (f32_minus x)))"

type_synonym ranked = "(f32 \<times> nat) list"

fun route_fill ::
    "ranked \<Rightarrow> f32 list \<Rightarrow> nat list \<Rightarrow> nat list \<times> f32 list \<times> f32 \<Rightarrow> (nat list \<times> f32 list \<times> f32) option" where
  "route_fill ranked scores [] st = Some st"
| "route_fill ranked scores (i # is) (indices, weights, acc) =
     Option.bind (wr indices i (snd (ranked ! i))) (\<lambda>indices.
     Option.bind (rd scores (snd (ranked ! i))) (\<lambda>w.
     Option.bind (wr weights i w) (\<lambda>weights.
       route_fill ranked scores is (indices, weights, f32_add acc w))))"

text \<open>\<open>for (i < k) weights[i] = f(weights[i])\<close>.\<close>

definition map_prefix :: "nat \<Rightarrow> ('a \<Rightarrow> 'a) \<Rightarrow> 'a list \<Rightarrow> 'a list" where
  "map_prefix k f xs = map f (take k xs) @ drop k xs"

type_synonym ranker = "((f32 \<times> nat) \<Rightarrow> (f32 \<times> nat) \<Rightarrow> bool) \<Rightarrow> nat \<Rightarrow> (f32 \<times> nat) list \<Rightarrow> (f32 \<times> nat) list"

definition rank_scores :: "f32 list \<Rightarrow> nat \<Rightarrow> f32 list option \<Rightarrow> ranked" where
  "rank_scores scores n bias =
     map (\<lambda>i. (f32_add (scores ! i) (case bias of None \<Rightarrow> f32_zero | Some b \<Rightarrow> b ! i), i)) [0..<n]"

definition topKScores ::
    "ranker \<Rightarrow> f32 list \<Rightarrow> int \<Rightarrow> f32 list option \<Rightarrow> int \<Rightarrow> f32 \<Rightarrow> bool \<Rightarrow> topk_result option" where
  "topKScores psort scores numExperts bias topK routedScalingFactor normTopkProb =
     (if numExperts \<le> 0 \<or> topK \<le> 0 then Some TopKResult
      else let n = nat numExperts in
        if length scores < n \<or> (case bias of None \<Rightarrow> False | Some b \<Rightarrow> length b < n) then None
        else
          let k = nat (min topK numExperts);
              ranked = psort (\<lambda>a b. f32_lt (fst b) (fst a)) k (rank_scores scores n bias) in
          map_option
            (\<lambda>(indices, weights, acc).
               let weights = (if normTopkProb \<and> f32_lt f32_zero acc
                              then map_prefix k (\<lambda>w. f32_div w acc) weights else weights)
               in \<lparr>tk_indices = indices,
                   tk_weights = map_prefix k (\<lambda>w. f32_mul w routedScalingFactor) weights,
                   tk_k = k\<rparr>)
            (route_fill ranked scores [0..<k] (tk_indices TopKResult, tk_weights TopKResult, f32_zero)))"

subsection \<open>The selection loop\<close>

lemma route_fill_spec:
  assumes "n \<le> k" "k \<le> length ind" "k \<le> length wts" "\<forall>i < k. snd (ranked ! i) < length scores"
  shows "route_fill ranked scores [n..<k] (ind, wts, s) = Some
    (take n ind @ map (\<lambda>i. snd (ranked ! i)) [n..<k] @ drop k ind,
     take n wts @ map (\<lambda>i. scores ! snd (ranked ! i)) [n..<k] @ drop k wts,
     foldl f32_add s (map (\<lambda>i. scores ! snd (ranked ! i)) [n..<k]))"
  using assms
proof (induction "k - n" arbitrary: n ind wts s)
  case 0
  then show ?case by simp
next
  case (Suc d)
  then have n: "n < k" by simp
  have upd: "take (Suc n) (xs[n := x]) = take n xs @ [x]" if "k \<le> length xs" for xs :: "'z list" and x
    using n that by (simp add: take_Suc_conv_app_nth)
  show ?case
    using Suc.hyps(1) [of "Suc n"] Suc.hyps(2) Suc.prems n
    by (simp add: upt_conv_Cons [of n k] wr_def rd_def upd)
qed

lemma route_overflow:
  assumes "length ind < k" "n \<le> length ind"
  shows "route_fill ranked scores [n..<k] (ind, wts, s) = None"
  using assms
proof (induction "k - n" arbitrary: n ind wts s)
  case (Suc d)
  then have n: "n < k" by simp
  then show ?case
    using Suc by (simp add: upt_conv_Cons [of n k] wr_def rd_def Suc_le_eq)
qed simp

definition no_nan :: "f32 list \<Rightarrow> nat \<Rightarrow> f32 list option \<Rightarrow> bool" where
  "no_nan scores n bias \<longleftrightarrow> (\<forall>x \<in> set (rank_scores scores n bias). \<not> f32_is_nan (fst x))"

lemma rank_scores_facts:
  "length (rank_scores scores n bias) = n" "distinct (map snd (rank_scores scores n bias))"
  "x \<in> set (rank_scores scores n bias) \<Longrightarrow> snd x < n \<and> x = rank_scores scores n bias ! snd x"
  "i < n \<Longrightarrow> rank_scores scores n bias ! i \<in> set (rank_scores scores n bias)"
  "i < n \<Longrightarrow> snd (rank_scores scores n bias ! i) = i"
proof -
  show "length (rank_scores scores n bias) = n" "distinct (map snd (rank_scores scores n bias))"
    by (simp_all add: rank_scores_def o_def)
  have nth: "rank_scores scores n bias ! i =
      (f32_add (scores ! i) (case bias of None \<Rightarrow> f32_zero | Some b \<Rightarrow> b ! i), i)" if "i < n" for i
    using that unfolding rank_scores_def by (subst nth_map) (simp_all split: option.split)
  then show "i < n \<Longrightarrow> snd (rank_scores scores n bias ! i) = i" by simp
  show "i < n \<Longrightarrow> rank_scores scores n bias ! i \<in> set (rank_scores scores n bias)"
    by (rule nth_mem) (simp add: rank_scores_def)
  show "x \<in> set (rank_scores scores n bias) \<Longrightarrow> snd x < n \<and> x = rank_scores scores n bias ! snd x"
    using nth by (auto simp: rank_scores_def)
qed

text \<open>What the router returns, in terms of the ranking its sort produced.\<close>

lemma topKScores_eval:
  assumes "partial_sorter psort" "0 < numExperts" "0 < topK" "topK \<le> 8" "length scores \<ge> nat numExperts"
    and "\<forall>b. bias = Some b \<longrightarrow> nat numExperts \<le> length b" "no_nan scores (nat numExperts) bias"
  defines "n \<equiv> nat numExperts" and "k \<equiv> nat (min topK numExperts)"
  defines "r \<equiv> take k (psort (\<lambda>a b. f32_lt (fst b) (fst a)) k (rank_scores scores n bias))"
  defines "ws \<equiv> map (\<lambda>x. scores ! snd x) r"
  shows "topKScores psort scores numExperts bias topK rsf norm = Some
    \<lparr>tk_indices = map snd r @ replicate (8 - k) 0,
     tk_weights = map (\<lambda>w. f32_mul w rsf)
       (if norm \<and> f32_lt f32_zero (foldl f32_add f32_zero ws)
        then map (\<lambda>w. f32_div w (foldl f32_add f32_zero ws)) ws else ws) @ replicate (8 - k) f32_zero,
     tk_k = k\<rparr>"
    and "length r = k" "k \<le> 8" "k \<le> n" "distinct (map snd r)" "set r \<subseteq> set (rank_scores scores n bias)"
proof -
  let ?rk = "rank_scores scores n bias" and ?lt = "\<lambda>a b. f32_lt (fst b) (fst (a :: f32 \<times> nat))"
  show k: "k \<le> 8" "k \<le> n" using assms(2-4) by (auto simp: k_def n_def)
  have weak: "strict_weak ?lt (set ?rk)"
    using assms(7) unfolding no_nan_def n_def by (rule strict_weak_f32_greater)
  have kl: "k \<le> length ?rk" using k by (simp add: rank_scores_facts)
  note ps = partial_sorter.psort_length [OF assms(1) weak kl]
    partial_sorter.psort_set [OF assms(1) weak kl]
    partial_sorter.psort_distinct [OF assms(1) weak kl rank_scores_facts(2)]
  show len: "length r = k" using ps(1) k by (simp add: r_def rank_scores_facts)
  show sub: "set r \<subseteq> set ?rk" using ps(2) by (auto simp: r_def dest: in_set_takeD)
  show "distinct (map snd r)" using ps(3) by (simp add: r_def take_map [symmetric])
  have nth: "psort ?lt k ?rk ! i = r ! i" if "i < k" for i using that by (simp add: r_def)
  have snd_lt: "snd (r ! i) < length scores" if "i < k" for i
  proof -
    have "r ! i \<in> set ?rk" using that len sub by (metis nth_mem subsetD)
    then show ?thesis using rank_scores_facts(3) assms(5) by (fastforce simp: n_def)
  qed
  have upt: "map (\<lambda>i. f (psort ?lt k ?rk ! i)) [0..<k] = map f r" for f :: "f32 \<times> nat \<Rightarrow> 'z"
    by (rule nth_equalityI) (simp_all add: len nth)
  have fill: "route_fill (psort ?lt k ?rk) scores [0..<k] (replicate 8 0, replicate 8 f32_zero, f32_zero)
      = Some (map snd r @ replicate (8 - k) 0, ws @ replicate (8 - k) f32_zero, foldl f32_add f32_zero ws)"
    using k snd_lt nth upt [of snd] upt [of "\<lambda>x. scores ! snd x"]
    by (subst route_fill_spec) (simp_all add: ws_def)
  have lw: "length ws = k" by (simp add: ws_def len)
  show "topKScores psort scores numExperts bias topK rsf norm = Some
    \<lparr>tk_indices = map snd r @ replicate (8 - k) 0,
     tk_weights = map (\<lambda>w. f32_mul w rsf)
       (if norm \<and> f32_lt f32_zero (foldl f32_add f32_zero ws)
        then map (\<lambda>w. f32_div w (foldl f32_add f32_zero ws)) ws else ws) @ replicate (8 - k) f32_zero,
     tk_k = k\<rparr>"
    using assms(2,3,5,6) fill lw
    by (auto simp: topKScores_def Let_def TopKResult_def map_prefix_def n_def k_def split: option.splits)
qed

subsection \<open>The weights\<close>

lemma f32_round_unit:
  assumes "0 \<le> num" "0 < den" "num \<le> 2 ^ 149 * den"
  shows "f32_unit (f32_round False num den)"
proof -
  have le: "f32_int (f32_round False num den) \<le> f32_int f32_one"
    using assms by (intro f32_round_le) (simp_all add: mult.commute)
  have "\<not> f32_neg_bit (f32_round False num den)"
    using f32_rne_range [of num den] inf_mag_bounds by (simp add: f32_round_def f32_simps)
  then show ?thesis using le f32_round_pos(2) [of num den] by (simp add: f32_unit_def f32_nonneg_def)
qed

lemma f32_one_mag: "f32_mag f32_one = 0x3F800000" "\<not> f32_neg_bit f32_one" "f32_isfinite f32_one"
  by (simp_all add: f32_one_def f32_mag_def f32_neg_bit_def f32_isfinite_def inf_mag_def)

lemma f32_ge_one_pos:
  assumes "f32_nonneg s" "2 ^ 149 \<le> f32_int s"
  shows "\<not> f32_neg_bit s" "0 < f32_int s"
  using assms f32_nonneg_neg_bit [OF assms(1)] f32_nonneg_int [OF assms(1)] by auto

lemma sigmoid_unit:
  assumes "f32_nonneg (lm_exp m (f32_minus x))"
  shows "f32_unit (sigmoid_f32 m x)"
proof -
  let ?s = "f32_add f32_one (lm_exp m (f32_minus x))"
  have s: "f32_nonneg ?s" "2 ^ 149 \<le> f32_int ?s"
    using f32_add_ge_left [of f32_one] assms by auto
  note nb = f32_ge_one_pos [OF s]
  show ?thesis
  proof (cases "f32_is_inf ?s")
    case True
    then have "sigmoid_f32 m x = f32_mk False 0"
      using s(1) nb(1) f32_one_mag by (simp add: sigmoid_f32_def f32_div_def Let_def f32_nonneg_def
          f32_is_inf_def inf_mag_def)
    then show ?thesis
      by (simp add: f32_unit_def f32_simps f32_is_nan_def inf_mag_def f32_int_def)
  next
    case False
    then have "f32_isfinite ?s"
      using s(1) by (simp add: f32_isfinite_def f32_is_inf_def f32_nonneg_def f32_is_nan_def)
    then have "sigmoid_f32 m x = f32_round False (f32_int f32_one * 2 ^ 149) (f32_int ?s)"
      using nb f32_one_mag unfolding sigmoid_f32_def by (intro f32_div_round) simp_all
    then show ?thesis using s nb by (auto intro!: f32_round_unit)
  qed
qed

text \<open>The running sum of at most \<open>2 ^ 24\<close> unit scores is exact enough: it dominates every term.\<close>

lemma sum_scores:
  assumes "\<forall>w \<in> set ws. f32_unit w" "f32_nonneg s" "f32_int s \<le> int n * 2 ^ 149"
    and "int (n + length ws) \<le> 16777216"
  shows "f32_nonneg (foldl f32_add s ws)" "f32_int (foldl f32_add s ws) \<le> int (n + length ws) * 2 ^ 149"
    "f32_int s \<le> f32_int (foldl f32_add s ws)" "\<forall>w \<in> set ws. f32_int w \<le> f32_int (foldl f32_add s ws)"
proof -
  have "f32_nonneg (foldl f32_add s ws) \<and> f32_int (foldl f32_add s ws) \<le> int (n + length ws) * 2 ^ 149 \<and>
    f32_int s \<le> f32_int (foldl f32_add s ws) \<and> (\<forall>w \<in> set ws. f32_int w \<le> f32_int (foldl f32_add s ws))"
    using assms
  proof (induction ws arbitrary: s n)
    case (Cons w ws)
    then have w: "f32_unit w" by simp
    note u = f32_unit_facts [OF w]
    have ex: "f32_nonneg (f32_of_int (int (Suc n)))" "f32_int (f32_of_int (int (Suc n))) = int (Suc n) * 2 ^ 149"
      using f32_of_int_exact [of "int (Suc n)"] Cons.prems(4) by simp_all
    have "f32_int s + f32_int w \<le> int (Suc n) * 2 ^ 149" using Cons.prems(3) u(5) by (simp add: algebra_simps)
    then have le: "f32_int (f32_add s w) \<le> int (Suc n) * 2 ^ 149"
      using f32_add_le [OF Cons.prems(2) u(1) ex(1)] ex(2) by simp
    have nn: "f32_nonneg (f32_add s w)" using Cons.prems(2) u(1) by blast
    have ge: "f32_int s \<le> f32_int (f32_add s w)" "f32_int w \<le> f32_int (f32_add s w)"
      using f32_add_ge_left f32_add_ge_right Cons.prems(2) u(1) by blast+
    have ih: "f32_nonneg (foldl f32_add (f32_add s w) ws) \<and>
      f32_int (foldl f32_add (f32_add s w) ws) \<le> int (Suc n + length ws) * 2 ^ 149 \<and>
      f32_int (f32_add s w) \<le> f32_int (foldl f32_add (f32_add s w) ws) \<and>
      (\<forall>v \<in> set ws. f32_int v \<le> f32_int (foldl f32_add (f32_add s w) ws))"
      using Cons.prems nn le by (intro Cons.IH) auto
    show ?case
    proof (intro conjI ballI)
      fix v assume "v \<in> set (w # ws)"
      then show "f32_int v \<le> f32_int (foldl f32_add s (w # ws))" using ih ge by auto
    qed (use ih ge in auto)
  qed simp
  then show "f32_nonneg (foldl f32_add s ws)" "f32_int (foldl f32_add s ws) \<le> int (n + length ws) * 2 ^ 149"
    "f32_int s \<le> f32_int (foldl f32_add s ws)" "\<forall>w \<in> set ws. f32_int w \<le> f32_int (foldl f32_add s ws)" by auto
qed

lemma normalised_unit:
  assumes "f32_unit w" "f32_nonneg s" "f32_int w \<le> f32_int s" "f32_lt f32_zero s" "f32_isfinite s"
  shows "f32_unit (f32_div w s)"
proof -
  note u = f32_unit_facts [OF assms(1)]
  have s: "0 < f32_int s" using assms(4) by (simp add: f32_lt_def)
  have nb: "\<not> f32_neg_bit s"
  proof
    assume "f32_neg_bit s"
    then show False using f32_nonneg_neg_bit [OF assms(2)] s by (simp add: f32_int_def)
  qed
  have "f32_div w s = f32_round False (f32_int w * 2 ^ 149) (f32_int s)"
    using u s nb assms(5) by (intro f32_div_round) simp_all
  then show ?thesis using u assms(3) s by (auto intro!: f32_round_unit simp: mult.commute)
qed

lemma scaled_weight:
  assumes "f32_unit w" "f32_nonneg c" "f32_isfinite c" "\<not> f32_neg_bit c"
  shows "f32_nonneg (f32_mul w c)" "f32_int (f32_mul w c) \<le> f32_int c"
proof -
  note u = f32_unit_facts [OF assms(1)]
  have m: "f32_mul w c = f32_round False (f32_int w * f32_int c) (2 ^ 149)"
    using f32_mul_round [of w c] u assms by simp
  show "f32_nonneg (f32_mul w c)" unfolding m by (rule f32_round_pos)
  have c: "0 \<le> f32_int c" using assms(2) by (simp add: f32_nonneg_def)
  show "f32_int (f32_mul w c) \<le> f32_int c"
    unfolding m
  proof (rule f32_round_le [OF assms(2)])
    show "f32_int w * f32_int c \<le> f32_int c * 2 ^ 149"
      using mult_right_mono [OF u(5) c] by (simp add: mult.commute)
  qed (use u c in simp_all)
qed

subsection \<open>Properties\<close>

definition biased :: "f32 list \<Rightarrow> f32 list option \<Rightarrow> nat \<Rightarrow> f32" where
  "biased scores bias i = f32_add (scores ! i) (case bias of None \<Rightarrow> f32_zero | Some b \<Rightarrow> b ! i)"


lemma unit_scores_no_nan:
  assumes "\<forall>w \<in> set scores. f32_unit w" "n \<le> length scores"
  shows "no_nan scores n None"
proof -
  have "f32_nonneg (f32_add (scores ! i) f32_zero)" if "i < n" for i
    using that assms f32_unit_facts(1) [of "scores ! i"] by auto
  then show ?thesis by (auto simp: no_nan_def rank_scores_def f32_nonneg_def)
qed

lemma small_scores: "\<forall>w \<in> set [0x3F000000, 0x3F400000, 0x3E800000 :: f32]. f32_unit w"
  by (simp add: f32_unit_def f32_is_nan_def f32_mag_def inf_mag_def f32_int_def f32_neg_bit_def mag_int_def)

lemma small_no_nan: "no_nan [0x3F000000, 0x3F400000, 0x3E800000] 3 None"
  by (rule unit_scores_no_nan [OF small_scores]) simp


text \<open>
  With scores between 0 and 1 (sigmoid outputs) and normalisation on, every routing weight lies
  between 0 and the scaling factor: the rounded quotients by the rounded sum never exceed 1.
\<close>

theorem router_weights_bounded:
  assumes "partial_sorter psort" "0 < numExperts" "0 < topK" "topK \<le> 8" "nat numExperts \<le> length scores"
    and "\<forall>b. bias = Some b \<longrightarrow> nat numExperts \<le> length b" "no_nan scores (nat numExperts) bias"
    and "\<forall>w \<in> set scores. f32_unit w" "f32_nonneg rsf" "f32_isfinite rsf" "\<not> f32_neg_bit rsf"
  shows "\<exists>r. topKScores psort scores numExperts bias topK rsf True = Some r \<and>
    (\<forall>w \<in> set (tk_weights r). f32_nonneg w \<and> f32_int w \<le> f32_int rsf)"
proof -
  define n k where "n = nat numExperts" and "k = nat (min topK numExperts)"
  let ?rk = "rank_scores scores n bias" and ?lt = "\<lambda>a b. f32_lt (fst b) (fst (a :: f32 \<times> nat))"
  define r where "r = take k (psort ?lt k ?rk)"
  note ev = topKScores_eval [OF assms(1-4) assms(5) assms(6,7), folded n_def k_def, folded r_def]
  define ws where "ws = map (\<lambda>x. scores ! snd x) r"
  let ?s = "foldl f32_add f32_zero ws"
  have "scores ! snd x \<in> set scores" if "x \<in> set r" for x
    using that ev(6) rank_scores_facts(3) [of x scores n bias] assms(5) n_def by (intro nth_mem) auto
  then have ws: "\<forall>w \<in> set ws. f32_unit w" using assms(8) by (auto simp: ws_def)
  have len: "length ws \<le> 8" using ev(2,3) by (simp add: ws_def)
  note sum = sum_scores [OF ws f32_nonneg_consts(1), of 0, simplified]
  have s: "f32_nonneg ?s" "f32_int ?s \<le> 8 * 2 ^ 149" "\<forall>w \<in> set ws. f32_int w \<le> f32_int ?s"
    using sum len by (auto intro: order_trans)
  have "8 * 2 ^ 149 < mag_int inf_mag" by (simp add: mag_int_def inf_mag_def)
  then have "mag_int (f32_mag ?s) < mag_int inf_mag"
    using s(2) f32_nonneg_int [OF s(1)] by linarith
  then have fin: "f32_isfinite ?s"
    using f32_mag_range [of ?s] inf_mag_bounds by (simp add: f32_isfinite_def mag_int_less_iff)
  let ?us = "if True \<and> f32_lt f32_zero ?s then map (\<lambda>w. f32_div w ?s) ws else ws"
  have us: "\<forall>w \<in> set ?us. f32_unit w"
    using ws s fin by (auto intro: normalised_unit)
  have c: "0 \<le> f32_int rsf" using assms(9) by (simp add: f32_nonneg_def)
  have "f32_nonneg w \<and> f32_int w \<le> f32_int rsf"
    if "w \<in> set (map (\<lambda>w. f32_mul w rsf) ?us @ replicate (8 - k) f32_zero)" for w
    using that us c scaled_weight [OF _ assms(9-11)] by (auto simp del: if_True split del: if_split)
  then show ?thesis unfolding ev(1) ws_def [symmetric] by auto
qed

lemma router_weights_bounded_witness:
  "\<exists>r. topKScores stable_psort [0x3F000000, 0x3F400000, 0x3E800000] 3 None 2 f32_one True = Some r \<and>
    list_all (\<lambda>w. f32_nonneg w \<and> f32_int w \<le> f32_int f32_one) (tk_weights r)"
  unfolding list_all_iff
  by (rule router_weights_bounded)
    (use small_scores in \<open>simp_all add: small_no_nan stable.partial_sorter_axioms f32_one_mag\<close>)

text \<open>
  Nothing checks the documented precondition \<open>topK \<le> 8\<close>: for more than eight selected experts the
  selection loop writes past the result's arrays.
\<close>

lemma router_overflow:
  assumes "8 < topK" "8 < numExperts" "nat numExperts \<le> length scores"
  shows "topKScores psort scores numExperts None topK rsf norm = None"
proof -
  have "8 < nat (min topK numExperts)" using assms by simp
  then show ?thesis using assms by (simp add: topKScores_def Let_def TopKResult_def route_overflow)
qed

end
