(* ===== verification/StdString.thy ===== *)
theory StdString
  imports Prelude
begin

text \<open>
  The C and C++ string library as far as the program uses it: \<open>std::to_string\<close> of a non-negative
  integer, \<open>atoi\<close>/\<open>atoll\<close> (white space, an optional sign, digits up to the first other character;
  \<^const>\<open>None\<close> when the value does not fit, which the standard leaves undefined), and the byte view
  of a string. A string is a list of characters with codes below 256, as \<open>std::string\<close> is.
\<close>

definition chr_code :: "char \<Rightarrow> nat" where
  "chr_code c = of_char c"

definition digit_char :: "nat \<Rightarrow> char" where
  "digit_char d = char_of (48 + d)"

fun to_string :: "nat \<Rightarrow> string" where
  "to_string n = (if n < 10 then [digit_char n] else to_string (n div 10) @ [digit_char (n mod 10)])"

declare to_string.simps [simp del]

definition is_digit :: "char \<Rightarrow> bool" where
  "is_digit c \<longleftrightarrow> 48 \<le> chr_code c \<and> chr_code c \<le> 57"

definition is_space :: "char \<Rightarrow> bool" where
  "is_space c \<longleftrightarrow> chr_code c = 32 \<or> (9 \<le> chr_code c \<and> chr_code c \<le> 13)"

definition digits_value :: "string \<Rightarrow> nat" where
  "digits_value ds = foldl (\<lambda>n c. n * 10 + (chr_code c - 48)) 0 ds"

definition c_strto :: "string \<Rightarrow> int" where
  "c_strto s =
     (let s = dropWhile is_space s in
      if s \<noteq> [] \<and> hd s = CHR ''-'' then - int (digits_value (takeWhile is_digit (tl s)))
      else if s \<noteq> [] \<and> hd s = CHR ''+'' then int (digits_value (takeWhile is_digit (tl s)))
      else int (digits_value (takeWhile is_digit s)))"

definition c_atoll :: "string \<Rightarrow> int option" where
  "c_atoll s = (let n = c_strto s in if - (2 ^ 63) \<le> n \<and> n < 2 ^ 63 then Some n else None)"

definition c_atoi :: "string \<Rightarrow> int option" where
  "c_atoi s = (let n = c_strto s in if - (2 ^ 31) \<le> n \<and> n < 2 ^ 31 then Some n else None)"

lemma chr_code_digit: "d < 10 \<Longrightarrow> chr_code (digit_char d) = 48 + d"
  by (simp add: chr_code_def digit_char_def)

lemma to_string_nonempty [simp]: "to_string n \<noteq> []"
  by (subst to_string.simps) simp

lemma to_string_digits: "\<forall>c \<in> set (to_string n). is_digit c"
proof (induction n rule: to_string.induct)
  case (1 n)
  then show ?case
    by (subst to_string.simps) (auto simp: is_digit_def chr_code_digit split: if_splits)
qed

lemma digits_value_snoc: "digits_value (ds @ [c]) = digits_value ds * 10 + (chr_code c - 48)"
  by (simp add: digits_value_def)

lemma digits_value_to_string [simp]: "digits_value (to_string n) = n"
proof (induction n rule: to_string.induct)
  case (1 n)
  show ?case
  proof (cases "n < 10")
    case True
    then show ?thesis by (subst to_string.simps) (simp add: digits_value_def chr_code_digit)
  next
    case False
    then show ?thesis using 1 by (subst to_string.simps) (simp add: digits_value_snoc chr_code_digit)
  qed
qed

lemma takeWhile_digits: "\<forall>c \<in> set ds. is_digit c \<Longrightarrow> takeWhile is_digit ds = ds"
  by (simp add: takeWhile_eq_all_conv)

text \<open>Reading back a printed number.\<close>

lemma c_strto_to_string: "c_strto (to_string n) = int n"
proof -
  obtain c ds where s: "to_string n = c # ds" using to_string_nonempty by (cases "to_string n") auto
  then have c: "is_digit c" using to_string_digits [of n] by simp
  then have ns: "\<not> is_space c" "c \<noteq> CHR ''-''" "c \<noteq> CHR ''+''"
    by (auto simp: is_digit_def is_space_def chr_code_def)
  have "dropWhile is_space (to_string n) = to_string n" "hd (to_string n) = c" using ns(1) by (simp_all add: s)
  then show ?thesis
    unfolding c_strto_def Let_def using ns(2,3) by (simp only: takeWhile_digits [OF to_string_digits [of n]] digits_value_to_string simp_thms if_False)
qed

text \<open>
  \<open>std::stoi\<close>: \<^const>\<open>None\<close> for an exception (no digits, or a value outside \<open>int\<close>); trailing
  characters are ignored.
\<close>

definition c_stoi :: "string \<Rightarrow> int option" where
  "c_stoi s =
     (let s = dropWhile is_space s;
          t = (if s \<noteq> [] \<and> hd s \<in> {CHR ''-'', CHR ''+''} then tl s else s);
          ds = takeWhile is_digit t;
          n = (if s \<noteq> [] \<and> hd s = CHR ''-'' then - int (digits_value ds) else int (digits_value ds))
      in if ds \<noteq> [] \<and> - (2 ^ 31) \<le> n \<and> n < 2 ^ 31 then Some n else None)"

lemma c_stoi_to_string:
  assumes "int n < 2 ^ 31" "rest = [] \<or> \<not> is_digit (hd rest)"
  shows "c_stoi (to_string n @ rest) = Some (int n)"
proof -
  obtain c ds where s: "to_string n = c # ds" using to_string_nonempty by (cases "to_string n") auto
  then have c: "is_digit c" using to_string_digits [of n] by simp
  then have ns: "\<not> is_space c" "c \<noteq> CHR ''-''" "c \<noteq> CHR ''+''"
    by (auto simp: is_digit_def is_space_def chr_code_def)
  have drop: "dropWhile is_space (to_string n @ rest) = to_string n @ rest"
    and hd: "hd (to_string n @ rest) = c" using ns(1) by (simp_all add: s)
  have take: "takeWhile is_digit (to_string n @ rest) = to_string n"
    using to_string_digits [of n] assms(2) by (cases rest) (auto simp: takeWhile_append)
  have test: "(to_string n @ rest \<noteq> [] \<and> hd (to_string n @ rest) \<in> {CHR ''-'', CHR ''+''}) = False"
    "(to_string n @ rest \<noteq> [] \<and> hd (to_string n @ rest) = CHR ''-'') = False"
    using hd ns by simp_all
  show ?thesis
    unfolding c_stoi_def Let_def drop test if_False take digits_value_to_string using assms(1) by simp
qed

subsection \<open>Substrings of strings with numbers in them\<close>

text \<open>
  A pattern without digits occurs in \<open>a @ digits @ b\<close> only on one side of the digits.
\<close>

lemma window_split:
  assumes "a @ pat @ b = x @ ds @ y" "ds \<noteq> []" "set pat \<inter> set ds = {}" "pat \<noteq> []"
  shows "length a + length pat \<le> length x \<or> length x + length ds \<le> length a"
proof (rule ccontr)
  assume "\<not> ?thesis"
  then have h: "length x < length a + length pat" "length a < length x + length ds" by linarith+
  define k where "k = max (length a) (length x)"
  have "length pat > 0" "length ds > 0" using assms by simp_all
  then have k: "length a \<le> k" "length x \<le> k" "k < length a + length pat" "k < length x + length ds"
    using h unfolding k_def by linarith+
  have "(a @ pat @ b) ! k = pat ! (k - length a)" "(x @ ds @ y) ! k = ds ! (k - length x)"
    using k by (simp_all add: nth_append less_diff_conv2 add.commute)
  then have "pat ! (k - length a) = ds ! (k - length x)" using assms(1) by simp
  moreover have "pat ! (k - length a) \<in> set pat" "ds ! (k - length x) \<in> set ds" using k by simp_all
  ultimately show False using assms(3) by auto
qed

lemma str_contains_append1: "str_contains pat x \<Longrightarrow> str_contains pat (x @ y)"
  by (erule str_containsE) (auto intro: str_containsI [of _ _ _ "_ @ y"])

lemma str_contains_append2: "str_contains pat y \<Longrightarrow> str_contains pat (x @ y)"
  by (erule str_containsE) (auto intro: str_containsI [of _ "x @ _"])

lemma str_contains_around_digits:
  assumes "ds \<noteq> []" "set pat \<inter> set ds = {}" "pat \<noteq> []"
  shows "str_contains pat (x @ ds @ y) \<longleftrightarrow> str_contains pat x \<or> str_contains pat y"
proof
  assume "str_contains pat (x @ ds @ y)"
  then obtain a b where e: "x @ ds @ y = a @ pat @ b" by (rule str_containsE)
  from window_split [OF e [symmetric] assms]
  show "str_contains pat x \<or> str_contains pat y"
  proof
    assume l: "length a + length pat \<le> length x"
    have "take (length x) (x @ ds @ y) = take (length x) (a @ pat @ b)" using e by simp
    then have "x = a @ pat @ take (length x - length a - length pat) b" using l by simp
    then show ?thesis by (blast intro: str_containsI)
  next
    assume l: "length x + length ds \<le> length a"
    have "drop (length x + length ds) (x @ ds @ y) = drop (length x + length ds) (a @ pat @ b)" using e by simp
    then have "y = drop (length x + length ds) a @ pat @ b" using l by simp
    then show ?thesis by (blast intro: str_containsI)
  qed
next
  assume "str_contains pat x \<or> str_contains pat y"
  then show "str_contains pat (x @ ds @ y)"
    using str_contains_append1 [of pat x] str_contains_append2 [of pat y "x @ ds"] by auto
qed

definition no_digits :: "string \<Rightarrow> bool" where
  "no_digits pat \<longleftrightarrow> (\<forall>c \<in> set pat. \<not> is_digit c)"

lemma str_contains_number:
  assumes "no_digits pat" "pat \<noteq> []"
  shows "str_contains pat (x @ to_string n @ y) \<longleftrightarrow> str_contains pat x \<or> str_contains pat y"
  using assms to_string_digits [of n]
  by (intro str_contains_around_digits) (auto simp: no_digits_def)

lemma str_find_eqI:
  assumes "take (length pat) (drop p s) = pat" "p \<le> length s"
    and "\<And>q. q < p \<Longrightarrow> take (length pat) (drop q s) \<noteq> pat"
  shows "str_find pat s = Some p"
proof -
  have "str_find pat s \<noteq> None" unfolding str_find_None_iff using assms(1,2) by blast
  then obtain r where r: "str_find pat s = Some r" by blast
  have "r = p" using str_find_occurs [OF r] str_find_first [OF r] assms(1,3) by (metis linorder_neqE_nat)
  with r show ?thesis by simp
qed

lemma str_find_bound: "str_find pat s = Some p \<Longrightarrow> p \<le> length s"
  by (induction s arbitrary: p) (auto simp: str_find_Cons split: if_splits)

lemma str_find_prefix_number:
  assumes "str_find pat x = Some p"
  shows "str_find pat (x @ y) = Some p"
proof (rule str_find_eqI)
  have occ: "take (length pat) (drop p x) = pat" using assms by (rule str_find_occurs)
  have len: "p + length pat \<le> length x \<or> pat = []"
    using arg_cong [OF occ, of length] by (cases "p \<le> length x") (auto simp: min_def split: if_splits)
  have p: "p \<le> length x" using assms by (rule str_find_bound)
  then show "p \<le> length (x @ y)" by simp
  show "take (length pat) (drop p (x @ y)) = pat" using occ len p by auto
  show "take (length pat) (drop q (x @ y)) \<noteq> pat" if "q < p" for q
  proof
    assume h: "take (length pat) (drop q (x @ y)) = pat"
    have "q + length pat \<le> length x" using len that p by auto
    then have "take (length pat) (drop q x) = pat" using h by simp
    then show False using str_find_first [OF assms that] by simp
  qed
qed

lemma str_find_after_number:
  assumes "no_digits pat" "pat \<noteq> []" "\<not> str_contains pat x" "str_find pat y = Some p"
  shows "str_find pat (x @ to_string n @ y) = Some (length x + length (to_string n) + p)"
proof (rule str_find_eqI)
  let ?ds = "to_string n" and ?s = "x @ to_string n @ y"
  show "take (length pat) (drop (length x + length ?ds + p) ?s) = pat" using str_find_occurs [OF assms(4)] by simp
  show "length x + length ?ds + p \<le> length ?s" using str_find_bound [OF assms(4)] by simp
  fix q
  assume q: "q < length x + length ?ds + p"
  show "take (length pat) (drop q ?s) \<noteq> pat"
  proof
    assume h: "take (length pat) (drop q ?s) = pat"
    define a b where "a = take q ?s" and "b = drop (length pat) (drop q ?s)"
    have e: "a @ pat @ b = ?s" unfolding a_def b_def by (metis append_take_drop_id h)
    have la: "length a = q" using q str_find_bound [OF assms(4)] by (simp add: a_def)
    have "set pat \<inter> set ?ds = {}" using assms(1) to_string_digits [of n] by (auto simp: no_digits_def)
    from window_split [OF e to_string_nonempty this assms(2)]
    show False
    proof
      assume l: "length a + length pat \<le> length x"
      have "take (length x) (a @ pat @ b) = x" using e by simp
      then have "x = a @ pat @ take (length x - length a - length pat) b" using l by simp
      then show False using assms(3) str_containsI by metis
    next
      assume l: "length x + length ?ds \<le> length a"
      have "drop (length x + length ?ds) (a @ pat @ b) = y" using e by simp
      then have "y = drop (length x + length ?ds) a @ pat @ b" using l by simp
      then have "take (length pat) (drop (q - (length x + length ?ds)) y) = pat" using la by simp
      moreover have "q - (length x + length ?ds) < p" using q l la by linarith
      ultimately show False using str_find_first [OF assms(4)] by blast
    qed
  qed
qed

text \<open>\<open>std::to_string\<close> of a signed integer.\<close>

definition int_string :: "int \<Rightarrow> string" where
  "int_string i = (if i < 0 then CHR ''-'' # to_string (nat (- i)) else to_string (nat i))"

end
