(* ===== verification/RuntimeConfig.thy ===== *)
theory RuntimeConfig
  imports StdString
begin

text \<open>
  \<open>runtime/runtime_config.h\<close>, \<open>runtime/runtime_config.cpp\<close>: the environment overrides and the
  pure derivation of the budgets. Byte counts are 64-bit words. The environment is a function from
  names to optional values (\<open>getenv\<close>). The probing of the host, whose result is the
  \<open>system_profile\<close> the derivation takes, is in \<open>HostProbe\<close>.
\<close>

datatype PlatformOS = Windows | Linux | macOS
datatype GpuBackend = GpuNone | GpuCuda | GpuMps
datatype BackendRequest = ReqAuto | ReqCpu | ReqCuda | ReqMps

record gpu_profile =
  gpu_backend :: GpuBackend
  gpu_name :: string
  gpu_memoryBytes :: u64

record system_profile =
  sp_os :: PlatformOS
  sp_osLabel :: string
  sp_ramBytes :: u64
  sp_physicalCores :: int
  sp_logicalThreads :: int
  sp_gpu :: gpu_profile

record runtime_overrides =
  gpuSet :: bool
  gpuRequest :: BackendRequest
  lruSet :: bool
  ov_lruBytes :: u64
  ramSet :: bool
  ov_ramBytes :: u64
  vramSet :: bool
  ov_vramBytes :: u64
  iocpSet :: bool
  ov_iocpWorkers :: int
  threadsSet :: bool
  ov_computeThreads :: int

definition RuntimeOverrides :: runtime_overrides where
  "RuntimeOverrides = \<lparr>gpuSet = False, gpuRequest = ReqAuto, lruSet = False, ov_lruBytes = 0,
     ramSet = False, ov_ramBytes = 0, vramSet = False, ov_vramBytes = 0, iocpSet = False,
     ov_iocpWorkers = 0, threadsSet = False, ov_computeThreads = 0\<rparr>"

record adaptive_config =
  ac_os :: PlatformOS
  ac_osLabel :: string
  ac_ramBytes :: u64
  ac_lruBytes :: u64
  ac_ramBudgetBytes :: u64
  ac_vramBudgetBytes :: u64
  ac_iocpWorkers :: int
  ac_computeThreads :: int
  ac_gpu :: GpuBackend
  ac_gpuName :: string
  ac_vramBytes :: u64
  ac_hasOverrides :: bool

definition kGiB :: u64 where "kGiB = 1024 * 1024 * 1024"
definition kMiB :: u64 where "kMiB = 1024 * 1024"

definition gpuReserveBytes :: "u64 \<Rightarrow> u64" where
  "gpuReserveBytes n = min (n div 8) (512 * kMiB)"

definition osReserveBytes :: "u64 \<Rightarrow> u64" where
  "osReserveBytes ram = (let r = ram div 12 in max (1 * kGiB) (min r (8 * kGiB)))"

subsection \<open>Environment overrides\<close>

type_synonym env = "string \<Rightarrow> string option"

text \<open>The reported flag and the output parameter; \<^const>\<open>None\<close> is the undefined overflow of \<open>atoll\<close>.\<close>

definition parseMbEnv :: "env \<Rightarrow> string \<Rightarrow> u64 \<Rightarrow> (bool \<times> u64) option" where
  "parseMbEnv env name out = (case env name of
     None \<Rightarrow> Some (False, out)
   | Some v \<Rightarrow>
       if v = [] then Some (False, out)
       else case c_atoll v of
              None \<Rightarrow> None
            | Some mb \<Rightarrow> if mb \<le> 0 then Some (False, out) else Some (True, word_of_int mb * kMiB))"

definition parseIntEnv :: "env \<Rightarrow> string \<Rightarrow> int \<Rightarrow> (bool \<times> int) option" where
  "parseIntEnv env name out = (case env name of
     None \<Rightarrow> Some (False, out)
   | Some v \<Rightarrow>
       if v = [] then Some (False, out)
       else case c_atoi v of
              None \<Rightarrow> None
            | Some n \<Rightarrow> if n \<le> 0 then Some (False, out) else Some (True, n))"

definition readGpuEnv :: "env \<Rightarrow> runtime_overrides \<Rightarrow> runtime_overrides" where
  "readGpuEnv env ov = (case env ''GLM_GPU'' of
     None \<Rightarrow> ov
   | Some s \<Rightarrow>
       if s = ''auto'' then ov\<lparr>gpuSet := True, gpuRequest := ReqAuto\<rparr>
       else if s = ''cpu'' then ov\<lparr>gpuSet := True, gpuRequest := ReqCpu\<rparr>
       else if s = ''cuda'' then ov\<lparr>gpuSet := True, gpuRequest := ReqCuda\<rparr>
       else if s = ''mps'' then ov\<lparr>gpuSet := True, gpuRequest := ReqMps\<rparr>
       else ov)"

definition readEnvOverrides :: "env \<Rightarrow> runtime_overrides option" where
  "readEnvOverrides env =
     (let ov = readGpuEnv env RuntimeOverrides in
      Option.bind (parseMbEnv env ''GLM_LRU_MB'' (ov_lruBytes ov)) (\<lambda>(lset, lru).
      Option.bind (parseMbEnv env ''GLM_RAM_MB'' (ov_ramBytes ov)) (\<lambda>(rset, ram).
      Option.bind (parseMbEnv env ''GLM_VRAM_MB'' (ov_vramBytes ov)) (\<lambda>(vset, vram).
      Option.bind (parseIntEnv env ''GLM_IOCP_WORKERS'' (ov_iocpWorkers ov)) (\<lambda>(iset, workers).
      Option.bind (parseIntEnv env ''GLM_THREADS'' (ov_computeThreads ov)) (\<lambda>(tset, threads).
        Some (ov\<lparr>lruSet := lset, ov_lruBytes := lru, ramSet := rset, ov_ramBytes := ram,
          vramSet := vset, ov_vramBytes := vram, iocpSet := iset, ov_iocpWorkers := workers,
          threadsSet := tset, ov_computeThreads := threads\<rparr>)))))))"

subsection \<open>Derivation\<close>

definition resolveGpuBackend :: "system_profile \<Rightarrow> BackendRequest \<Rightarrow> GpuBackend" where
  "resolveGpuBackend profile request = (case request of
     ReqCpu \<Rightarrow> GpuNone
   | ReqCuda \<Rightarrow> if gpu_backend (sp_gpu profile) = GpuCuda then GpuCuda else GpuNone
   | ReqMps \<Rightarrow> if gpu_backend (sp_gpu profile) = GpuMps then GpuMps else GpuNone
   | ReqAuto \<Rightarrow> gpu_backend (sp_gpu profile))"

definition computeAdaptiveConfig :: "system_profile \<Rightarrow> runtime_overrides \<Rightarrow> adaptive_config" where
  "computeAdaptiveConfig profile overrides =
     (let ramOv = (ramSet overrides \<and> 0 < ov_ramBytes overrides);
          ram = (if ramOv then max (ov_ramBytes overrides) (2 * kGiB)
                 else max (sp_ramBytes profile) (2 * kGiB));
          gpu = resolveGpuBackend profile (gpuRequest overrides);
          mem = gpu_memoryBytes (sp_gpu profile);
          vram = (if vramSet overrides then ov_vramBytes overrides
                  else if 0 < mem then mem - gpuReserveBytes mem else 0);
          unified = (gpu = GpuMps);
          lru = (if lruSet overrides then ov_lruBytes overrides
                 else let cap = (if unified then 96 * kGiB else 40 * kGiB);
                          share = (if unified then 3 * ram div 4 else 3 * ram div 5)
                      in max (256 * kMiB) (min share cap));
          reserve = osReserveBytes ram;
          lruBytes = max (256 * kMiB) (if ram \<le> reserve then lru else min lru (ram - reserve));
          budget = max (4 * ram div 5) (lruBytes + lruBytes div 2);
          ramBudget = max (if ram \<le> reserve then lruBytes else min budget (ram - reserve)) lruBytes;
          threads = (if threadsSet overrides then ov_computeThreads overrides
                     else sp_logicalThreads profile);
          computeThreads = max 1 (min threads 512)
      in \<lparr>ac_os = sp_os profile, ac_osLabel = sp_osLabel profile, ac_ramBytes = ram,
          ac_lruBytes = lruBytes, ac_ramBudgetBytes = ramBudget,
          ac_vramBudgetBytes = (if gpu = GpuCuda then vram
             else if unified then min (vram div 2) (64 * kGiB) else 0),
          ac_iocpWorkers = (if iocpSet overrides then max 1 (min (ov_iocpWorkers overrides) 16)
             else max 1 (min 16 (max 3 (computeThreads div 2)))),
          ac_computeThreads = computeThreads, ac_gpu = gpu,
          ac_gpuName = (if gpu = gpu_backend (sp_gpu profile) then gpu_name (sp_gpu profile) else ''none''),
          ac_vramBytes = vram,
          ac_hasOverrides = (ramOv \<or> (gpuSet overrides \<and> gpuRequest overrides \<noteq> ReqAuto) \<or>
             vramSet overrides \<or> lruSet overrides \<or> threadsSet overrides \<or> iocpSet overrides)\<rparr>)"

subsection \<open>Lemmas\<close>

lemma unat_consts [word_nat]:
  "unat kGiB = 1073741824" "unat kMiB = 1048576" "unat (2 * kGiB) = 2147483648"
  "unat (256 * kMiB) = 268435456" "unat (512 * kMiB) = 536870912" "unat (8 * kGiB) = 8589934592"
  "unat (40 * kGiB) = 42949672960" "unat (96 * kGiB) = 103079215104" "unat (64 * kGiB) = 68719476736"
  by (simp_all add: kGiB_def kMiB_def)

lemma unat_min_max [word_nat]:
  fixes a b :: "'a::len word"
  shows "unat (min a b) = min (unat a) (unat b)" "unat (max a b) = max (unat a) (unat b)"
  by (simp_all add: min_def max_def word_le_nat_alt)

lemma osReserve_range:
  "1073741824 \<le> unat (osReserveBytes ram)" "unat (osReserveBytes ram) \<le> 8589934592"
  "unat (osReserveBytes ram) \<le> max 1073741824 (unat ram div 12)"
  by (simp_all add: osReserveBytes_def Let_def word_nat unat_div)

lemma unat_times_small:
  fixes a :: u64
  assumes "k * unat a < 18446744073709551616" "unat (of_nat k :: u64) = k"
  shows "unat (of_nat k * a) = k * unat a"
  using assms by (simp add: unat_word_ariths(2))

text \<open>The derived fields, one by one.\<close>

definition effective_ram :: "system_profile \<Rightarrow> runtime_overrides \<Rightarrow> u64" where
  "effective_ram profile ov =
     max (if ramSet ov \<and> 0 < ov_ramBytes ov then ov_ramBytes ov else sp_ramBytes profile) (2 * kGiB)"

definition lru_target :: "system_profile \<Rightarrow> runtime_overrides \<Rightarrow> u64" where
  "lru_target profile ov =
     (let ram = effective_ram profile ov; unified = (resolveGpuBackend profile (gpuRequest ov) = GpuMps) in
      if lruSet ov then ov_lruBytes ov
      else max (256 * kMiB) (min (if unified then 3 * ram div 4 else 3 * ram div 5)
        (if unified then 96 * kGiB else 40 * kGiB)))"

lemma adaptive_fields:
  fixes profile ov
  defines "c \<equiv> computeAdaptiveConfig profile ov" and "ram \<equiv> effective_ram profile ov"
  defines "reserve \<equiv> osReserveBytes ram"
  shows "ac_ramBytes c = ram"
    "ac_lruBytes c = max (256 * kMiB) (if ram \<le> reserve then lru_target profile ov
       else min (lru_target profile ov) (ram - reserve))"
    "ac_ramBudgetBytes c = max (if ram \<le> reserve then ac_lruBytes c
       else min (max (4 * ram div 5) (ac_lruBytes c + ac_lruBytes c div 2)) (ram - reserve)) (ac_lruBytes c)"
    "ac_gpu c = resolveGpuBackend profile (gpuRequest ov)"
    "ac_vramBudgetBytes c = (if ac_gpu c = GpuCuda then ac_vramBytes c
       else if ac_gpu c = GpuMps then min (ac_vramBytes c div 2) (64 * kGiB) else 0)"
    "ac_vramBytes c = (if vramSet ov then ov_vramBytes ov
       else if 0 < gpu_memoryBytes (sp_gpu profile)
       then gpu_memoryBytes (sp_gpu profile) - gpuReserveBytes (gpu_memoryBytes (sp_gpu profile)) else 0)"
    "ac_computeThreads c = max 1 (min (if threadsSet ov then ov_computeThreads ov
       else sp_logicalThreads profile) 512)"
    "ac_iocpWorkers c = (if iocpSet ov then max 1 (min (ov_iocpWorkers ov) 16)
       else max 1 (min 16 (max 3 (ac_computeThreads c div 2))))"
    "ac_hasOverrides c = ((ramSet ov \<and> 0 < ov_ramBytes ov) \<or> (gpuSet ov \<and> gpuRequest ov \<noteq> ReqAuto) \<or>
       vramSet ov \<or> lruSet ov \<or> threadsSet ov \<or> iocpSet ov)"
  unfolding c_def ram_def reserve_def effective_ram_def lru_target_def computeAdaptiveConfig_def Let_def
  by (simp_all only: adaptive_config.simps if_distrib [of "\<lambda>x. max x (2 * kGiB)"])

subsection \<open>Properties\<close>


text \<open>
  The backend is the detected one or none, its VRAM budget never exceeds the VRAM that is
  visible and is zero without a GPU, and the report of active overrides is exact.
\<close>

theorem adaptive_gpu:
  fixes profile ov
  defines "c \<equiv> computeAdaptiveConfig profile ov"
  shows "ac_gpu c \<in> {GpuNone, gpu_backend (sp_gpu profile)} \<and>
    ac_vramBudgetBytes c \<le> ac_vramBytes c \<and> (ac_gpu c = GpuNone \<longrightarrow> ac_vramBudgetBytes c = 0) \<and>
    (\<not> vramSet ov \<longrightarrow> ac_vramBytes c \<le> gpu_memoryBytes (sp_gpu profile)) \<and>
    (ac_hasOverrides c \<longleftrightarrow> (ramSet ov \<and> 0 < ov_ramBytes ov) \<or> (gpuSet ov \<and> gpuRequest ov \<noteq> ReqAuto) \<or>
       vramSet ov \<or> lruSet ov \<or> threadsSet ov \<or> iocpSet ov)"
proof (intro conjI)
  note f = adaptive_fields [of profile ov, folded c_def]
  show "ac_gpu c \<in> {GpuNone, gpu_backend (sp_gpu profile)}"
    by (auto simp: f(4) resolveGpuBackend_def split: BackendRequest.split)
  have "ac_vramBytes c div 2 \<le> ac_vramBytes c" by (simp add: word_le_nat_alt unat_div)
  then show "ac_vramBudgetBytes c \<le> ac_vramBytes c" by (auto simp: f(5) min_le_iff_disj)
  show "ac_gpu c = GpuNone \<longrightarrow> ac_vramBudgetBytes c = 0" by (simp add: f(5))
  let ?m = "gpu_memoryBytes (sp_gpu profile)"
  have "gpuReserveBytes ?m \<le> ?m"
    by (simp add: gpuReserveBytes_def word_le_nat_alt word_nat unat_div)
  then have "?m - gpuReserveBytes ?m \<le> ?m" by (simp add: word_le_nat_alt unat_sub_le)
  then show "\<not> vramSet ov \<longrightarrow> ac_vramBytes c \<le> ?m" by (simp add: f(6))
  show "ac_hasOverrides c \<longleftrightarrow> (ramSet ov \<and> 0 < ov_ramBytes ov) \<or> (gpuSet ov \<and> gpuRequest ov \<noteq> ReqAuto) \<or>
       vramSet ov \<or> lruSet ov \<or> threadsSet ov \<or> iocpSet ov" by (rule f(9))
qed

definition host_64g :: system_profile where
  "host_64g = \<lparr>sp_os = Linux, sp_osLabel = ''Linux'', sp_ramBytes = 64 * kGiB, sp_physicalCores = 8,
     sp_logicalThreads = 16, sp_gpu = \<lparr>gpu_backend = GpuNone, gpu_name = [], gpu_memoryBytes = 0\<rparr>\<rparr>"

lemma adaptive_gpu_witness:
  "ac_vramBudgetBytes (computeAdaptiveConfig host_64g RuntimeOverrides) = 0 \<and>
   \<not> ac_hasOverrides (computeAdaptiveConfig host_64g RuntimeOverrides)"
proof -
  have "ac_gpu (computeAdaptiveConfig host_64g RuntimeOverrides) = GpuNone"
    by (simp add: adaptive_fields(4) resolveGpuBackend_def host_64g_def RuntimeOverrides_def)
  then show ?thesis using adaptive_gpu [of host_64g RuntimeOverrides] by (simp add: RuntimeOverrides_def)
qed

text \<open>
  A size given in MiB in the environment is read back exactly: for every \<open>n\<close> from 1 to
  \<open>2 ^ 43\<close>, the decimal text of \<open>n\<close> sets the override to \<open>n\<close> MiB.
\<close>

theorem env_size_roundtrip:
  assumes "env name = Some (to_string n)" "0 < n" "n < 2 ^ 43"
  shows "\<exists>v. parseMbEnv env name out = Some (True, v) \<and> unat v = n * 1048576"
proof -
  have "c_atoll (to_string n) = Some (int n)" using assms(3) by (simp add: c_atoll_def c_strto_to_string)
  then have p: "parseMbEnv env name out = Some (True, of_nat n * kMiB)"
    using assms(1,2) by (simp add: parseMbEnv_def)
  have n: "unat (of_nat n :: u64) = n" using assms(3) by (simp add: unat_of_nat take_bit_nat_eq_self)
  have "n * 1048576 < 2 ^ 43 * 1048576" using assms(3) by simp
  then have "unat (of_nat n * kMiB) = n * 1048576"
    using n by (simp add: unat_word_ariths(2) word_nat)
  with p show ?thesis by blast
qed

lemma env_size_roundtrip_witness:
  "\<exists>v. parseMbEnv [''GLM_LRU_MB'' \<mapsto> to_string 4096] ''GLM_LRU_MB'' 0 = Some (True, v) \<and>
     unat v = 4096 * 1048576"
  by (rule env_size_roundtrip) simp_all

text \<open>
  The header says overrides are honoured "without ever exceeding detected RAM". The RAM override
  replaces the detected amount instead: 1 TiB claimed on a 64 GiB host yields a placement budget
  above 64 GiB.
\<close>

lemma ram_override_exceeds_detected:
  defines "ov \<equiv> RuntimeOverrides\<lparr>ramSet := True, ov_ramBytes := 1024 * kGiB\<rparr>"
  shows "sp_ramBytes host_64g < ac_ramBudgetBytes (computeAdaptiveConfig host_64g ov)"
  by (simp add: adaptive_fields ov_def effective_ram_def lru_target_def resolveGpuBackend_def
      host_64g_def RuntimeOverrides_def osReserveBytes_def kGiB_def kMiB_def Let_def min_def max_def)

end
