(* ===== verification/Json.thy ===== *)
theory Json
  imports Complex_Main StdString Float32
begin

text \<open>
  The JSON values the loaders walk over. The parser is third-party code (picojson): it is a
  parameter of the definitions that call it. A number is the rational its \<open>double\<close> denotes, an
  object the list of its members in key order, as the \<open>std::map\<close> that holds it iterates.
  Conversions of a \<open>double\<close> to an integer type are exact truncations in range; out of range C++
  leaves them undefined, and the record \<open>fp_conv\<close> is whatever the machine then returns.
\<close>

datatype json = JNull | JBool bool | JNumber rat | JString string | JArray "json list"
  | JObject "(string \<times> json) list"

type_synonym json_object = "(string \<times> json) list"

text \<open>\<open>picojson::parse\<close>: a value, or \<^const>\<open>None\<close> for a non-empty error text.\<close>

type_synonym json_parser = "string \<Rightarrow> json option"

record fp_conv =
  oor_int :: "rat \<Rightarrow> int"
  oor_u64 :: "rat \<Rightarrow> u64"

definition rat_trunc :: "rat \<Rightarrow> int" where
  "rat_trunc r = (if 0 \<le> r then \<lfloor>r\<rfloor> else - \<lfloor>- r\<rfloor>)"

definition d2i :: "fp_conv \<Rightarrow> rat \<Rightarrow> int" where
  "d2i cv r = (let n = rat_trunc r in if - (2 ^ 31) \<le> n \<and> n < 2 ^ 31 then n else oor_int cv r)"

definition d2u64 :: "fp_conv \<Rightarrow> rat \<Rightarrow> u64" where
  "d2u64 cv r = (let n = rat_trunc r in if 0 \<le> n \<and> n < 2 ^ 64 then word_of_int n else oor_u64 cv r)"

definition d2f :: "rat \<Rightarrow> f32" where
  "d2f r = (case quotient_of r of (n, d) \<Rightarrow> f32_round (n < 0) (\<bar>n\<bar> * 2 ^ 149) d)"

definition obj_find :: "string \<Rightarrow> json_object \<Rightarrow> json option" where
  "obj_find key obj = map_of obj key"

lemma d2i_in_range: "- (2 ^ 31) \<le> n \<Longrightarrow> n < 2 ^ 31 \<Longrightarrow> d2i cv (of_int n) = n"
  by (simp add: d2i_def rat_trunc_def Let_def)

lemma d2u64_in_range: "0 \<le> n \<Longrightarrow> n < 2 ^ 64 \<Longrightarrow> d2u64 cv (of_int n) = word_of_int n"
  by (simp add: d2u64_def rat_trunc_def Let_def)

end
