(* ===== verification/ModelConfig.thy ===== *)
theory ModelConfig
  imports Json
begin

text \<open>
  \<open>model/config.h\<close>, \<open>model/config.cpp\<close>: the model hyperparameters and their reading from
  \<open>config.json\<close>. A missing or ill-typed key leaves the field as it was.
\<close>

record model_config =
  hiddenSize :: int
  numLayers :: int
  vocabSize :: int
  intermediateSize :: int
  maxPositionEmbeddings :: int
  numAttentionHeads :: int
  numKvHeads :: int
  qLoraRank :: int
  kvLoraRank :: int
  qkHeadDim :: int
  qkNopeHeadDim :: int
  qkRopeHeadDim :: int
  vHeadDim :: int
  ropeInterleave :: bool
  indexHeadDim :: int
  indexNHeads :: int
  indexTopk :: int
  indexTopkFreq :: int
  indexSkipTopkOffset :: int
  indexerTypes :: "string list"
  numLocalExperts :: int
  numExpertsPerTok :: int
  nSharedExperts :: int
  moeIntermediateSize :: int
  firstKDenseReplace :: int
  scoringFunc :: string
  topkMethod :: string
  routedScalingFactor :: f32
  normTopkProb :: bool
  topkGroup :: int
  numMtpModules :: int
  numMtpLayersPerModule :: int
  mtpHiddenSize :: int
  mtpIntermediateSize :: int
  mtpActivation :: string
  mtpLayerTypes :: "string list"
  indexShareForMtpIteration :: bool
  rmsNormEps :: f32
  hiddenAct :: string
  ropeTheta :: int
  tieWordEmbeddings :: bool
  mlpLayerTypes :: "string list"

definition ModelConfig :: model_config where
  "ModelConfig = \<lparr>hiddenSize = 0, numLayers = 0, vocabSize = 0, intermediateSize = 0,
     maxPositionEmbeddings = 0, numAttentionHeads = 0, numKvHeads = 0, qLoraRank = 0, kvLoraRank = 0,
     qkHeadDim = 0, qkNopeHeadDim = 0, qkRopeHeadDim = 0, vHeadDim = 0, ropeInterleave = True,
     indexHeadDim = 0, indexNHeads = 0, indexTopk = 0, indexTopkFreq = 4, indexSkipTopkOffset = 3,
     indexerTypes = [], numLocalExperts = 0, numExpertsPerTok = 0, nSharedExperts = 0,
     moeIntermediateSize = 0, firstKDenseReplace = 0, scoringFunc = ''sigmoid'',
     topkMethod = ''noaux_tc'', routedScalingFactor = f32_one, normTopkProb = True, topkGroup = 1,
     numMtpModules = 0, numMtpLayersPerModule = 0, mtpHiddenSize = 0, mtpIntermediateSize = 0,
     mtpActivation = ''silu'', mtpLayerTypes = [], indexShareForMtpIteration = False,
     rmsNormEps = 0x3727C5AC, hiddenAct = ''silu'', ropeTheta = 500000, tieWordEmbeddings = False,
     mlpLayerTypes = []\<rparr>"

definition isIndexerFull :: "model_config \<Rightarrow> int \<Rightarrow> bool" where
  "isIndexerFull c layer =
     (if 0 \<le> layer \<and> layer < int (length (indexerTypes c)) then indexerTypes c ! nat layer = ''full''
      else if layer = 0 then True
      else max (layer - 1) 0 mod max (indexTopkFreq c) 1 = 0)"

text \<open>
  A negative \<open>layer\<close> would index the vector before its start; the callers pass layers from 0 up.
\<close>

definition isMoeLayer :: "model_config \<Rightarrow> nat \<Rightarrow> bool" where
  "isMoeLayer c layer =
     (if layer < length (mlpLayerTypes c) then mlpLayerTypes c ! layer = ''sparse''
      else firstKDenseReplace c \<le> int layer)"

subsection \<open>Typed readers\<close>

text \<open>The second argument is the output parameter's old value, kept when the reader returns false.\<close>

definition getIntFound :: "fp_conv \<Rightarrow> json_object \<Rightarrow> string \<Rightarrow> int \<Rightarrow> bool \<times> int" where
  "getIntFound cv obj key out = (case obj_find key obj of Some (JNumber r) \<Rightarrow> (True, d2i cv r) | _ \<Rightarrow> (False, out))"

definition getInt :: "fp_conv \<Rightarrow> json_object \<Rightarrow> string \<Rightarrow> int \<Rightarrow> int" where
  "getInt cv obj key out = snd (getIntFound cv obj key out)"

definition getFloat :: "json_object \<Rightarrow> string \<Rightarrow> f32 \<Rightarrow> f32" where
  "getFloat obj key out = (case obj_find key obj of Some (JNumber r) \<Rightarrow> d2f r | _ \<Rightarrow> out)"

definition getBool :: "json_object \<Rightarrow> string \<Rightarrow> bool \<Rightarrow> bool" where
  "getBool obj key out = (case obj_find key obj of Some (JBool b) \<Rightarrow> b | _ \<Rightarrow> out)"

definition getString :: "json_object \<Rightarrow> string \<Rightarrow> string \<Rightarrow> string" where
  "getString obj key out = (case obj_find key obj of Some (JString s) \<Rightarrow> s | _ \<Rightarrow> out)"

fun json_strings :: "json list \<Rightarrow> string list" where
  "json_strings [] = []"
| "json_strings (v # vs) = (case v of JString s \<Rightarrow> s # json_strings vs | _ \<Rightarrow> json_strings vs)"

definition getStringArray :: "json_object \<Rightarrow> string \<Rightarrow> string list \<Rightarrow> string list" where
  "getStringArray obj key out = (case obj_find key obj of Some (JArray vs) \<Rightarrow> json_strings vs | _ \<Rightarrow> out)"

subsection \<open>Loading\<close>

definition loadBasic :: "fp_conv \<Rightarrow> json_object \<Rightarrow> model_config \<Rightarrow> model_config" where
  "loadBasic cv obj c = c\<lparr>
     hiddenSize := getInt cv obj ''hidden_size'' (hiddenSize c),
     numLayers := getInt cv obj ''num_hidden_layers'' (numLayers c),
     vocabSize := getInt cv obj ''vocab_size'' (vocabSize c),
     intermediateSize := getInt cv obj ''intermediate_size'' (intermediateSize c),
     maxPositionEmbeddings := getInt cv obj ''max_position_embeddings'' (maxPositionEmbeddings c),
     numAttentionHeads := getInt cv obj ''num_attention_heads'' (numAttentionHeads c),
     numKvHeads := getInt cv obj ''num_key_value_heads'' (numKvHeads c),
     qLoraRank := getInt cv obj ''q_lora_rank'' (qLoraRank c),
     kvLoraRank := getInt cv obj ''kv_lora_rank'' (kvLoraRank c),
     qkHeadDim := getInt cv obj ''qk_head_dim'' (qkHeadDim c),
     qkNopeHeadDim := getInt cv obj ''qk_nope_head_dim'' (qkNopeHeadDim c),
     qkRopeHeadDim := getInt cv obj ''qk_rope_head_dim'' (qkRopeHeadDim c),
     vHeadDim := getInt cv obj ''v_head_dim'' (vHeadDim c),
     ropeInterleave := getBool obj ''rope_interleave'' (ropeInterleave c)\<rparr>"

definition loadIndexer :: "fp_conv \<Rightarrow> json_object \<Rightarrow> model_config \<Rightarrow> model_config" where
  "loadIndexer cv obj c =
     (let freq = getInt cv obj ''index_topk_freq'' (indexTopkFreq c) in c\<lparr>
     indexHeadDim := getInt cv obj ''index_head_dim'' (indexHeadDim c),
     indexNHeads := getInt cv obj ''index_n_heads'' (indexNHeads c),
     indexTopk := getInt cv obj ''index_topk'' (indexTopk c),
     indexTopkFreq := (if freq \<le> 0 then 4 else freq),
     indexSkipTopkOffset := getInt cv obj ''index_skip_topk_offset'' (indexSkipTopkOffset c)\<rparr>)"

definition loadMoe :: "fp_conv \<Rightarrow> json_object \<Rightarrow> model_config \<Rightarrow> model_config" where
  "loadMoe cv obj c = c\<lparr>
     numLocalExperts := getInt cv obj ''n_routed_experts'' (numLocalExperts c),
     numExpertsPerTok := getInt cv obj ''num_experts_per_tok'' (numExpertsPerTok c),
     nSharedExperts := getInt cv obj ''n_shared_experts'' (nSharedExperts c),
     moeIntermediateSize := getInt cv obj ''moe_intermediate_size'' (moeIntermediateSize c),
     firstKDenseReplace := getInt cv obj ''first_k_dense_replace'' (firstKDenseReplace c),
     scoringFunc := getString obj ''scoring_func'' (scoringFunc c),
     topkMethod := getString obj ''topk_method'' (topkMethod c),
     routedScalingFactor := getFloat obj ''routed_scaling_factor'' (routedScalingFactor c),
     normTopkProb := getBool obj ''norm_topk_prob'' (normTopkProb c),
     topkGroup := getInt cv obj ''topk_group'' (topkGroup c)\<rparr>"

definition loadMtp :: "fp_conv \<Rightarrow> json_object \<Rightarrow> model_config \<Rightarrow> model_config" where
  "loadMtp cv obj c =
     (let modules = (case getIntFound cv obj ''num_nextn_predict_layers'' (numMtpModules c) of
            (True, n) \<Rightarrow> n
          | (False, n) \<Rightarrow> getInt cv obj ''num_mtp_modules'' n);
          types = getStringArray obj ''mtp_layer_types'' (mtpLayerTypes c) in c\<lparr>
     numMtpModules := modules,
     numMtpLayersPerModule := getInt cv obj ''num_mtp_layers_per_module'' (numMtpLayersPerModule c),
     mtpHiddenSize := getInt cv obj ''mtp_hidden_size'' (mtpHiddenSize c),
     mtpIntermediateSize := getInt cv obj ''mtp_intermediate_size'' (mtpIntermediateSize c),
     mtpActivation := getString obj ''mtp_activation'' (mtpActivation c),
     indexShareForMtpIteration := getBool obj ''index_share_for_mtp_iteration'' (indexShareForMtpIteration c),
     mtpLayerTypes := (if types = [] \<and> 0 < modules then replicate (nat modules) ''shared'' else types)\<rparr>)"

definition schedule_full :: "int \<Rightarrow> int \<Rightarrow> int \<Rightarrow> bool" where
  "schedule_full skip freq i \<longleftrightarrow> i < skip \<or> (i - (skip - 1)) mod freq = 0"

definition loadTail :: "fp_conv \<Rightarrow> json_object \<Rightarrow> model_config \<Rightarrow> model_config" where
  "loadTail cv obj c =
     (let types = getStringArray obj ''indexer_types'' (indexerTypes c);
          freq = max (indexTopkFreq c) 1;
          skip = max (indexSkipTopkOffset c) 1 in c\<lparr>
     rmsNormEps := getFloat obj ''rms_norm_eps'' (rmsNormEps c),
     hiddenAct := getString obj ''hidden_act'' (hiddenAct c),
     ropeTheta := getInt cv obj ''rope_theta'' (ropeTheta c),
     tieWordEmbeddings := getBool obj ''tie_word_embeddings'' (tieWordEmbeddings c),
     mlpLayerTypes := getStringArray obj ''mlp_layer_types'' (mlpLayerTypes c),
     indexerTypes := (if types = [] \<and> 0 < numLayers c
        then map (\<lambda>i. if schedule_full skip freq (int i) then ''full'' else ''shared'') [0..<nat (numLayers c)]
        else types)\<rparr>)"

definition loadFromString ::
    "json_parser \<Rightarrow> fp_conv \<Rightarrow> string \<Rightarrow> model_config \<Rightarrow> bool \<times> model_config" where
  "loadFromString parse cv content c = (case parse content of
     None \<Rightarrow> (False, c)
   | Some doc \<Rightarrow> (case doc of
       JObject obj \<Rightarrow>
         let c = loadTail cv obj (loadMtp cv obj (loadMoe cv obj (loadIndexer cv obj (loadBasic cv obj c))))
         in (\<not> (hiddenSize c = 0 \<or> numLayers c = 0), c)
     | _ \<Rightarrow> (False, c)))"

definition loadFromFile ::
    "(string \<Rightarrow> string option) \<Rightarrow> json_parser \<Rightarrow> fp_conv \<Rightarrow> string \<Rightarrow> model_config \<Rightarrow> bool \<times> model_config" where
  "loadFromFile readFile parse cv path c = (case readFile path of
     None \<Rightarrow> (False, c)
   | Some content \<Rightarrow> loadFromString parse cv content c)"

subsection \<open>Lemmas\<close>

lemma loadFromString_cases:
  assumes "loadFromString parse cv content c = (True, c')"
  obtains obj where "parse content = Some (JObject obj)"
    "c' = loadTail cv obj (loadMtp cv obj (loadMoe cv obj (loadIndexer cv obj (loadBasic cv obj c))))"
    "hiddenSize c' \<noteq> 0" "numLayers c' \<noteq> 0"
  using assms by (auto simp: loadFromString_def Let_def split: option.splits json.splits)

lemma load_stage_fields [simp]:
  "numLayers (loadTail cv obj c) = numLayers c" "indexTopkFreq (loadTail cv obj c) = indexTopkFreq c"
  "indexSkipTopkOffset (loadTail cv obj c) = indexSkipTopkOffset c"
  "numLayers (loadMtp cv obj c) = numLayers c" "indexTopkFreq (loadMtp cv obj c) = indexTopkFreq c"
  "indexSkipTopkOffset (loadMtp cv obj c) = indexSkipTopkOffset c"
  "numLayers (loadMoe cv obj c) = numLayers c" "indexTopkFreq (loadMoe cv obj c) = indexTopkFreq c"
  "indexSkipTopkOffset (loadMoe cv obj c) = indexSkipTopkOffset c"
  "numLayers (loadIndexer cv obj c) = numLayers c"
  "indexerTypes (loadMtp cv obj c) = indexerTypes c" "indexerTypes (loadMoe cv obj c) = indexerTypes c"
  "indexerTypes (loadIndexer cv obj c) = indexerTypes c" "indexerTypes (loadBasic cv obj c) = indexerTypes c"
  by (simp_all add: loadTail_def loadMtp_def loadMoe_def loadIndexer_def loadBasic_def Let_def)

lemma indexTopkFreq_pos: "0 < indexTopkFreq (loadIndexer cv obj c)"
  by (simp add: loadIndexer_def Let_def)

subsection \<open>Properties\<close>

text \<open>
  A configuration that loads and lists no indexer types gets the reference schedule: layer \<open>i\<close>
  runs its own indexer exactly when \<open>i < skip\<close> or \<open>i - (skip - 1)\<close> is a multiple of the positive
  spacing; in particular layer 0 always does, so a shared layer always has a full one before it.
\<close>

theorem indexer_schedule:
  assumes "loadFromString parse cv content ModelConfig = (True, c)" "parse content = Some (JObject obj)"
    and "getStringArray obj ''indexer_types'' [] = []"
  shows "0 < indexTopkFreq c \<and> length (indexerTypes c) = nat (numLayers c) \<and>
    (\<forall>i. 0 \<le> i \<longrightarrow> i < numLayers c \<longrightarrow>
       isIndexerFull c i = schedule_full (max (indexSkipTopkOffset c) 1) (indexTopkFreq c) i) \<and>
    isIndexerFull c 0"
proof -
  obtain obj' where o': "parse content = Some (JObject obj')" and
    c': "c = loadTail cv obj' (loadMtp cv obj' (loadMoe cv obj' (loadIndexer cv obj' (loadBasic cv obj' ModelConfig))))"
    by (rule loadFromString_cases [OF assms(1)])
  then have c: "c = loadTail cv obj (loadMtp cv obj (loadMoe cv obj (loadIndexer cv obj (loadBasic cv obj ModelConfig))))"
    using assms(2) by simp
  have freq: "0 < indexTopkFreq c" unfolding c by (simp add: indexTopkFreq_pos)
  let ?f = "schedule_full (max (indexSkipTopkOffset c) 1) (indexTopkFreq c)"
  have types: "indexerTypes c = map (\<lambda>i. if ?f (int i) then ''full'' else ''shared'') [0..<nat (numLayers c)]"
  proof -
    let ?p = "loadMtp cv obj (loadMoe cv obj (loadIndexer cv obj (loadBasic cv obj ModelConfig)))"
    have e: "indexerTypes ?p = []" by (simp add: ModelConfig_def)
    have "indexTopkFreq ?p = indexTopkFreq c" "indexSkipTopkOffset ?p = indexSkipTopkOffset c"
      "numLayers ?p = numLayers c" by (simp_all add: c)
    moreover from this have "max (indexTopkFreq ?p) 1 = indexTopkFreq c" using freq by simp
    moreover have "indexerTypes c = (if 0 < numLayers ?p
        then map (\<lambda>i. if schedule_full (max (indexSkipTopkOffset ?p) 1) (max (indexTopkFreq ?p) 1) (int i)
               then ''full'' else ''shared'') [0..<nat (numLayers ?p)] else [])"
      unfolding c loadTail_def Let_def by (simp add: e assms(3) [unfolded e] del: load_stage_fields)
    ultimately show ?thesis by simp
  qed
  have len: "length (indexerTypes c) = nat (numLayers c)" by (simp add: types)
  have sched: "isIndexerFull c i = ?f i" if "0 \<le> i" "i < numLayers c" for i
    using that by (simp add: isIndexerFull_def types)
  have "isIndexerFull c 0"
  proof (cases "0 < numLayers c")
    case True
    then show ?thesis by (simp add: sched schedule_full_def less_max_iff_disj)
  qed (simp add: isIndexerFull_def len)
  with freq len sched show ?thesis by simp
qed

definition tiny_config :: json_object where
  "tiny_config = [(''hidden_size'', JNumber 16), (''num_hidden_layers'', JNumber 12)]"

lemma tiny_config_loads:
  "fst (loadFromString (\<lambda>_. Some (JObject tiny_config)) \<lparr>oor_int = \<lambda>_. 0, oor_u64 = \<lambda>_. 0\<rparr> [] ModelConfig)"
  by (simp add: loadFromString_def Let_def)
    (simp add: loadTail_def loadMtp_def loadMoe_def loadIndexer_def loadBasic_def Let_def getInt_def
      getIntFound_def obj_find_def tiny_config_def d2i_def rat_trunc_def)

lemma indexer_schedule_witness:
  "\<exists>c. loadFromString (\<lambda>_. Some (JObject tiny_config)) \<lparr>oor_int = \<lambda>_. 0, oor_u64 = \<lambda>_. 0\<rparr> [] ModelConfig = (True, c) \<and>
     length (indexerTypes c) = nat (numLayers c) \<and> isIndexerFull c 0"
proof -
  let ?cv = "\<lparr>oor_int = \<lambda>_. 0, oor_u64 = \<lambda>_. 0\<rparr> :: fp_conv"
  obtain c where c: "loadFromString (\<lambda>_. Some (JObject tiny_config)) ?cv [] ModelConfig = (True, c)"
    using tiny_config_loads by (metis prod.collapse)
  have "getStringArray tiny_config ''indexer_types'' [] = []"
    by (simp add: getStringArray_def obj_find_def tiny_config_def)
  from indexer_schedule [OF c refl this] c show ?thesis by blast
qed

end
