(* ===== verification/SafeTensors.thy ===== *)
theory SafeTensors
  imports Json
begin

text \<open>
  \<open>model/safetensors.h\<close>, \<open>model/safetensors.cpp\<close>: the header parser and its validation. The file
  is its bytes; offsets, sizes and element counts are 64-bit words that wrap as \<open>uint64_t\<close> and
  \<open>size_t\<close> do. The counters are natural numbers (one per header entry). Closing the stream, the
  logging are not modelled; the mapping of the file is its bytes.
\<close>

subsection \<open>Data\<close>

record tensor_info =
  ti_name :: string
  ti_dtype :: string
  ti_shape :: "int list"
  ti_begin :: u64
  ti_end :: u64

definition ti_byteSize :: "tensor_info \<Rightarrow> u64" where
  "ti_byteSize i = ti_end i - ti_begin i"

record st_options =
  requireBf16 :: bool
  allowF32NameContaining :: "string list"
  requireAlignedHeader :: bool
  requireAlignedData :: bool

definition SafeTensorsOptions :: st_options where
  "SafeTensorsOptions = \<lparr>requireBf16 = True, allowF32NameContaining = [],
     requireAlignedHeader = True, requireAlignedData = True\<rparr>"

record st_stats =
  st_total :: nat
  st_accepted :: nat
  st_rejected :: nat
  duplicateRejected :: nat
  dtypeRejected :: nat
  f32AllowedAccepted :: nat
  shapeRejected :: nat
  boundsRejected :: nat
  byteMismatchRejected :: nat
  alignmentRejected :: nat

definition SafeTensorsStats :: st_stats where
  "SafeTensorsStats = \<lparr>st_total = 0, st_accepted = 0, st_rejected = 0, duplicateRejected = 0,
     dtypeRejected = 0, f32AllowedAccepted = 0, shapeRejected = 0, boundsRejected = 0,
     byteMismatchRejected = 0, alignmentRejected = 0\<rparr>"

record safetensors =
  st_tensors :: "string \<rightharpoonup> tensor_info"
  st_stats :: st_stats
  st_headerSize :: u64
  st_fileSize :: u64
  st_mmap :: "bytes option"

definition SafeTensorsFile :: safetensors where
  "SafeTensorsFile = \<lparr>st_tensors = Map.empty, st_stats = SafeTensorsStats, st_headerSize = 0,
     st_fileSize = 0, st_mmap = None\<rparr>"

definition knownDtypes :: "(string \<times> nat) list" where
  "knownDtypes = [(''F64'', 8), (''F32'', 4), (''F16'', 2), (''BF16'', 2), (''I64'', 8), (''I32'', 4),
     (''I16'', 2), (''I8'', 1), (''U64'', 8), (''U32'', 4), (''U8'', 1), (''BOOL'', 1)]"

definition dtypeByteSize :: "string \<Rightarrow> nat" where
  "dtypeByteSize dtype = (case map_of knownDtypes dtype of None \<Rightarrow> 0 | Some n \<Rightarrow> n)"

subsection \<open>One header entry\<close>

datatype verdict = RejDtype bool | RejShape bool | RejBounds bool | RejAlign bool | RejBytes bool
  | RejDuplicate bool | Accept bool tensor_info

text \<open>
  The checks in the order the loop makes them. The flag carried by a verdict says whether
  \<open>f32AllowedAccepted\<close> was already incremented when the entry was decided.
\<close>

definition entry_dtype :: "json_object \<Rightarrow> string" where
  "entry_dtype obj = (case obj_find ''dtype'' obj of Some (JString s) \<Rightarrow> s | _ \<Rightarrow> [])"

fun shape_loop :: "fp_conv \<Rightarrow> json list \<Rightarrow> int list \<Rightarrow> u64 \<Rightarrow> bool \<times> int list \<times> u64" where
  "shape_loop cv [] shape numel = (True, shape, numel)"
| "shape_loop cv (d0 # dims) shape numel = (case d0 of
     JNumber dv \<Rightarrow>
       if dv < 0 \<or> dv \<noteq> of_int \<lfloor>dv\<rfloor> then (False, shape, numel)
       else let d = d2i cv dv in
         if 2 ^ 30 < d then (False, shape, numel)
         else shape_loop cv dims (shape @ [d]) (numel * word_of_int d)
   | _ \<Rightarrow> (False, shape, numel))"

definition entry_shape :: "fp_conv \<Rightarrow> json_object \<Rightarrow> (int list \<times> u64) option" where
  "entry_shape cv obj = (case obj_find ''shape'' obj of
     Some (JArray dims) \<Rightarrow>
       (case shape_loop cv dims [] 1 of (ok, shape, numel) \<Rightarrow> if ok \<and> shape \<noteq> [] then Some (shape, numel) else None)
   | _ \<Rightarrow> None)"

definition entry_offsets :: "fp_conv \<Rightarrow> json_object \<Rightarrow> (u64 \<times> u64) option" where
  "entry_offsets cv obj = (case obj_find ''data_offsets'' obj of
     Some (JArray [JNumber b, JNumber e]) \<Rightarrow>
       if d2u64 cv b < d2u64 cv e then Some (d2u64 cv b, d2u64 cv e) else None
   | _ \<Rightarrow> None)"

definition f32_allowed :: "st_options \<Rightarrow> string \<Rightarrow> bool" where
  "f32_allowed opts name \<longleftrightarrow> (\<exists>frag \<in> set (allowF32NameContaining opts). str_contains frag name)"

definition check_entry :: "fp_conv \<Rightarrow> st_options \<Rightarrow> u64 \<Rightarrow> u64 \<Rightarrow> (string \<rightharpoonup> tensor_info) \<Rightarrow>
    string \<Rightarrow> json_object \<Rightarrow> verdict" where
  "check_entry cv opts headerSize fileSize tensors name obj =
     (let dtype = entry_dtype obj; f32 = (requireBf16 opts \<and> dtype \<noteq> ''BF16'') in
      if dtypeByteSize dtype = 0 then RejDtype False
      else if f32 \<and> dtype \<noteq> ''F32'' then RejDtype False
      else if f32 \<and> \<not> f32_allowed opts name then RejDtype False
      else case entry_shape cv obj of
        None \<Rightarrow> RejShape f32
      | Some (shape, numel) \<Rightarrow> (case entry_offsets cv obj of
          None \<Rightarrow> RejBounds f32
        | Some (b, e) \<Rightarrow>
            if fileSize < headerSize + e then RejBounds f32
            else if requireAlignedData opts \<and> (headerSize + b) mod 8 \<noteq> 0 then RejAlign f32
            else if numel * of_nat (dtypeByteSize dtype) \<noteq> e - b then RejBytes f32
            else if tensors name \<noteq> None then RejDuplicate f32
            else Accept f32 \<lparr>ti_name = name, ti_dtype = dtype, ti_shape = shape, ti_begin = b, ti_end = e\<rparr>))"

definition count_f32 :: "bool \<Rightarrow> st_stats \<Rightarrow> st_stats" where
  "count_f32 f32 s = (if f32 then s\<lparr>f32AllowedAccepted := f32AllowedAccepted s + 1\<rparr> else s)"

definition reject :: "st_stats \<Rightarrow> st_stats" where
  "reject s = s\<lparr>st_rejected := st_rejected s + 1\<rparr>"

fun apply_verdict :: "verdict \<Rightarrow> (string \<rightharpoonup> tensor_info) \<times> st_stats \<Rightarrow> (string \<rightharpoonup> tensor_info) \<times> st_stats" where
  "apply_verdict (RejDtype f) (m, s) = (let s = reject (count_f32 f s) in (m, s\<lparr>dtypeRejected := dtypeRejected s + 1\<rparr>))"
| "apply_verdict (RejShape f) (m, s) = (let s = reject (count_f32 f s) in (m, s\<lparr>shapeRejected := shapeRejected s + 1\<rparr>))"
| "apply_verdict (RejBounds f) (m, s) = (let s = reject (count_f32 f s) in (m, s\<lparr>boundsRejected := boundsRejected s + 1\<rparr>))"
| "apply_verdict (RejAlign f) (m, s) = (let s = reject (count_f32 f s) in (m, s\<lparr>alignmentRejected := alignmentRejected s + 1\<rparr>))"
| "apply_verdict (RejBytes f) (m, s) = (let s = reject (count_f32 f s) in (m, s\<lparr>byteMismatchRejected := byteMismatchRejected s + 1\<rparr>))"
| "apply_verdict (RejDuplicate f) (m, s) = (let s = reject (count_f32 f s) in (m, s\<lparr>duplicateRejected := duplicateRejected s + 1\<rparr>))"
| "apply_verdict (Accept f i) (m, s) = (let s = count_f32 f s in (m(ti_name i \<mapsto> i), s\<lparr>st_accepted := st_accepted s + 1\<rparr>))"

fun entries_loop :: "fp_conv \<Rightarrow> st_options \<Rightarrow> u64 \<Rightarrow> u64 \<Rightarrow> json_object \<Rightarrow>
    (string \<rightharpoonup> tensor_info) \<times> st_stats \<Rightarrow> (string \<rightharpoonup> tensor_info) \<times> st_stats" where
  "entries_loop cv opts headerSize fileSize [] (m, s) = (m, s)"
| "entries_loop cv opts headerSize fileSize ((name, v) # es) (m, s) =
     (if name = [] \<or> hd name = CHR ''_'' then entries_loop cv opts headerSize fileSize es (m, s)
      else
        let s = s\<lparr>st_total := st_total s + 1\<rparr> in
        entries_loop cv opts headerSize fileSize es
          (apply_verdict
             (case v of JObject obj \<Rightarrow> check_entry cv opts headerSize fileSize m name obj | _ \<Rightarrow> RejShape False)
             (m, s)))"

subsection \<open>Opening and reading\<close>

text \<open>
  The outer \<^const>\<open>None\<close> is the exception of allocating a header string that cannot be allocated
  (a declared length beyond \<open>PTRDIFF_MAX\<close>); the program does not catch it. \<open>mapOk\<close> says whether
  the operating system maps the file, \<open>fallback\<close> is the stream read of \<open>readTensor\<close>.
\<close>

definition le_u64 :: "bytes \<Rightarrow> u64" where
  "le_u64 bs = foldr (\<lambda>b n. n * 256 + ucast b) bs 0"

definition byte_chars :: "bytes \<Rightarrow> string" where
  "byte_chars bs = map (\<lambda>b. char_of (unat b)) bs"

definition st_open :: "json_parser \<Rightarrow> fp_conv \<Rightarrow> bool \<Rightarrow> bytes option \<Rightarrow> st_options \<Rightarrow> safetensors \<Rightarrow>
    (bool \<times> safetensors) option" where
  "st_open parse cv mapOk file opts st = (case file of
     None \<Rightarrow> Some (False, st)
   | Some content \<Rightarrow>
       let st = st\<lparr>st_fileSize := of_nat (length content)\<rparr> in
       if length content < 8 then Some (False, st)
       else
         let hsize = le_u64 (take 8 content); st = st\<lparr>st_headerSize := hsize + 8\<rparr> in
         if requireAlignedHeader opts \<and> hsize mod 8 \<noteq> 0 then Some (False, st)
         else if st_fileSize st < st_headerSize st + 8 then Some (False, st)
         else if 2 ^ 63 \<le> unat hsize then None
         else if length content < 8 + unat hsize then Some (False, st)
         else (case parse (byte_chars (take (unat hsize) (drop 8 content))) of
             None \<Rightarrow> Some (False, st)
           | Some (JObject obj) \<Rightarrow>
               (case entries_loop cv opts (st_headerSize st) (st_fileSize st) obj (st_tensors st, st_stats st) of
                  (m, s) \<Rightarrow> Some (True, st\<lparr>st_tensors := m, st_stats := s, st_mmap := (if mapOk then Some content else None)\<rparr>))
           | Some _ \<Rightarrow> Some (False, st)))"

definition st_find :: "string \<Rightarrow> safetensors \<Rightarrow> tensor_info option" where
  "st_find name st = st_tensors st name"

definition st_tensorData :: "tensor_info \<Rightarrow> safetensors \<Rightarrow> u64 option" where
  "st_tensorData i st = (case st_mmap st of
     None \<Rightarrow> None
   | Some m \<Rightarrow> if of_nat (length m) < st_headerSize st + ti_end i then None
               else Some (st_headerSize st + ti_begin i))"

definition st_readTensor :: "(u64 \<Rightarrow> u64 \<Rightarrow> bytes \<Rightarrow> bool \<times> bytes) \<Rightarrow> string \<Rightarrow> bytes \<Rightarrow> u64 \<Rightarrow> safetensors \<Rightarrow>
    (bool \<times> bytes) option" where
  "st_readTensor fallback name buffer bufSize st = (case st_find name st of
     None \<Rightarrow> Some (False, buffer)
   | Some i \<Rightarrow>
       if bufSize < ti_byteSize i then Some (False, buffer)
       else (case st_mmap st of
           None \<Rightarrow> Some (fallback (st_headerSize st + ti_begin i) (ti_byteSize i) buffer)
         | Some m \<Rightarrow>
             if of_nat (length m) < st_headerSize st + ti_end i then Some (False, buffer)
             else map_option (Pair True)
                    (memcpy buffer 0 m (unat (st_headerSize st + ti_begin i)) (unat (ti_byteSize i)))))"

subsection \<open>What an accepted entry satisfies\<close>

definition shape_product :: "int list \<Rightarrow> u64" where
  "shape_product shape = foldl (\<lambda>n d. n * word_of_int d) 1 shape"

definition tensor_ok :: "st_options \<Rightarrow> u64 \<Rightarrow> u64 \<Rightarrow> string \<Rightarrow> tensor_info \<Rightarrow> bool" where
  "tensor_ok opts headerSize fileSize name i \<longleftrightarrow>
     ti_name i = name \<and> 0 < dtypeByteSize (ti_dtype i) \<and>
     (requireBf16 opts \<longrightarrow> ti_dtype i = ''BF16'' \<or> (ti_dtype i = ''F32'' \<and> f32_allowed opts name)) \<and>
     ti_shape i \<noteq> [] \<and> ti_begin i < ti_end i \<and> headerSize + ti_end i \<le> fileSize \<and>
     (requireAlignedData opts \<longrightarrow> (headerSize + ti_begin i) mod 8 = 0) \<and>
     shape_product (ti_shape i) * of_nat (dtypeByteSize (ti_dtype i)) = ti_byteSize i"

lemma shape_loop_product:
  "shape_loop cv dims shape n = (True, shape', n') \<Longrightarrow> n = shape_product shape \<Longrightarrow> n' = shape_product shape'"
proof (induction dims arbitrary: shape n)
  case (Cons d dims)
  from Cons.prems(1) obtain r where
    rec: "shape_loop cv dims (shape @ [d2i cv r]) (n * word_of_int (d2i cv r)) = (True, shape', n')"
    by (cases d) (auto simp: Let_def split: if_splits)
  show ?case by (rule Cons.IH [OF rec]) (simp add: Cons.prems(2) shape_product_def)
qed simp

lemma entry_shape_product: "entry_shape cv obj = Some (shape, n) \<Longrightarrow> n = shape_product shape \<and> shape \<noteq> []"
  using shape_loop_product [where shape = "[]" and n = 1]
  by (auto simp: entry_shape_def shape_product_def split: option.splits json.splits prod.splits if_splits)

lemma entry_offsets_less: "entry_offsets cv obj = Some (b, e) \<Longrightarrow> b < e"
  by (auto simp: entry_offsets_def split: option.splits json.splits list.splits if_splits)

lemma check_entry_accept:
  assumes "check_entry cv opts headerSize fileSize m name obj = Accept f i"
  shows "tensor_ok opts headerSize fileSize name i" "m name = None" "ti_name i = name"
proof -
  let ?dt = "entry_dtype obj"
  obtain shape n b e where s: "entry_shape cv obj = Some (shape, n)" and o: "entry_offsets cv obj = Some (b, e)"
    and c: "dtypeByteSize ?dt \<noteq> 0" "\<not> (requireBf16 opts \<and> ?dt \<noteq> ''BF16'' \<and> ?dt \<noteq> ''F32'')"
      "\<not> (requireBf16 opts \<and> ?dt \<noteq> ''BF16'' \<and> \<not> f32_allowed opts name)"
      "\<not> fileSize < headerSize + e" "\<not> (requireAlignedData opts \<and> (headerSize + b) mod 8 \<noteq> 0)"
      "n * of_nat (dtypeByteSize ?dt) = e - b" "m name = None"
    and i: "i = \<lparr>ti_name = name, ti_dtype = ?dt, ti_shape = shape, ti_begin = b, ti_end = e\<rparr>"
    using assms unfolding check_entry_def Let_def
    by (simp split: if_split_asm option.split_asm prod.split_asm)
  from entry_shape_product [OF s] entry_offsets_less [OF o] c
  show "tensor_ok opts headerSize fileSize name i"
    by (auto simp: tensor_ok_def i ti_byteSize_def not_less)
  show "m name = None" "ti_name i = name" using c by (simp_all add: i)
qed

text \<open>The counters agree with each other and with the table.\<close>

definition stats_ok :: "(string \<rightharpoonup> tensor_info) \<Rightarrow> st_stats \<Rightarrow> bool" where
  "stats_ok m s \<longleftrightarrow> finite (dom m) \<and> card (dom m) = st_accepted s \<and>
     st_total s = st_accepted s + st_rejected s \<and>
     st_rejected s = duplicateRejected s + dtypeRejected s + shapeRejected s + boundsRejected s +
       byteMismatchRejected s + alignmentRejected s"

lemma apply_verdict_stats:
  assumes "stats_ok m s" "\<And>f i. v = Accept f i \<Longrightarrow> m (ti_name i) = None"
    and "apply_verdict v (m, s\<lparr>st_total := st_total s + 1\<rparr>) = (m', s')"
  shows "stats_ok m' s'"
proof (cases v)
  case (Accept f i)
  then have "ti_name i \<notin> dom m" using assms(2) by auto
  then have "card (insert (ti_name i) (dom m)) = Suc (card (dom m))"
    using assms(1) by (simp add: stats_ok_def)
  then show ?thesis using Accept assms(1,3) by (auto simp: stats_ok_def count_f32_def Let_def split: if_splits)
qed (use assms in \<open>auto simp: stats_ok_def count_f32_def reject_def Let_def split: if_splits\<close>)

lemma apply_verdict_table:
  assumes "apply_verdict v (m, s) = (m', s')"
  shows "(\<exists>f i. v = Accept f i \<and> m' = m(ti_name i \<mapsto> i)) \<or> (m' = m \<and> (\<forall>f i. v \<noteq> Accept f i))"
  using assms by (cases v) (auto simp: Let_def)

definition entry_verdict :: "fp_conv \<Rightarrow> st_options \<Rightarrow> u64 \<Rightarrow> u64 \<Rightarrow> (string \<rightharpoonup> tensor_info) \<Rightarrow> string \<Rightarrow> json \<Rightarrow> verdict" where
  "entry_verdict cv opts H F m name v =
     (case v of JObject obj \<Rightarrow> check_entry cv opts H F m name obj | _ \<Rightarrow> RejShape False)"

lemma entry_verdict_accept:
  assumes "entry_verdict cv opts H F m name v = Accept f i"
  shows "tensor_ok opts H F name i" "m name = None" "ti_name i = name"
  using assms check_entry_accept by (auto simp: entry_verdict_def split: json.splits)

lemma entries_loop_ok:
  assumes "entries_loop cv opts H F es (m, s) = (m', s')" "stats_ok m s"
    and "\<forall>name i. m name = Some i \<longrightarrow> tensor_ok opts H F name i"
  shows "stats_ok m' s' \<and> (\<forall>name i. m' name = Some i \<longrightarrow> tensor_ok opts H F name i)"
  using assms
proof (induction es arbitrary: m s)
  case Nil
  then show ?case by simp
next
  case (Cons e es)
  obtain name v where e: "e = (name, v)" by (cases e)
  show ?case
  proof (cases "name = [] \<or> hd name = CHR ''_''")
    case True
    then show ?thesis using Cons e by simp
  next
    case False
    let ?v = "entry_verdict cv opts H F m name v"
    obtain m1 s1 where av: "apply_verdict ?v (m, s\<lparr>st_total := st_total s + 1\<rparr>) = (m1, s1)" by fastforce
    have rest: "entries_loop cv opts H F es (m1, s1) = (m', s')"
      using Cons.prems(1) False av by (simp add: e Let_def entry_verdict_def)
    have "stats_ok m1 s1"
      by (rule apply_verdict_stats [OF Cons.prems(2) _ av]) (use entry_verdict_accept in metis)
    moreover have "\<forall>name i. m1 name = Some i \<longrightarrow> tensor_ok opts H F name i"
      using apply_verdict_table [OF av] Cons.prems(3) entry_verdict_accept(1,3) [of cv opts H F m name v]
      by (auto split: if_splits)
    ultimately show ?thesis using Cons.IH [OF rest] by blast
  qed
qed

lemma st_open_cases:
  assumes "st_open parse cv mapOk file opts SafeTensorsFile = Some (True, st)"
  obtains content where "file = Some content" "st_fileSize st = of_nat (length content)"
    "st_headerSize st + 8 \<le> st_fileSize st" "st_headerSize st = le_u64 (take 8 content) + 8"
    "8 + unat (le_u64 (take 8 content)) \<le> length content"
    "unat (le_u64 (take 8 content)) < 2 ^ 63"
    "st_mmap st = (if mapOk then Some content else None)" "stats_ok (st_tensors st) (st_stats st)"
    "\<And>name i. st_tensors st name = Some i \<Longrightarrow> tensor_ok opts (st_headerSize st) (st_fileSize st) name i"
proof -
  have init: "stats_ok (st_tensors SafeTensorsFile) (st_stats SafeTensorsFile)"
    "\<forall>name i. st_tensors SafeTensorsFile name = Some i \<longrightarrow> tensor_ok opts H F name i" for H F
    by (simp_all add: SafeTensorsFile_def stats_ok_def SafeTensorsStats_def)
  from assms obtain content where f: "file = Some content" by (auto simp: st_open_def split: option.splits)
  define h H F where "h = le_u64 (take 8 content)" and "H = h + 8" and "F = (of_nat (length content) :: u64)"
  note d = assms [unfolded st_open_def f option.case Let_def, simplified, folded h_def, folded H_def F_def]
  have c: "8 \<le> length content" "H + 8 \<le> F" "unat h < 2 ^ 63" "8 + unat h \<le> length content"
    using d by (simp_all add: not_less [symmetric] split: if_splits)
  obtain obj m s where
    l: "entries_loop cv opts H F obj (st_tensors SafeTensorsFile, st_stats SafeTensorsFile) = (m, s)"
    and st: "st = SafeTensorsFile\<lparr>st_fileSize := F, st_headerSize := H, st_tensors := m, st_stats := s,
        st_mmap := (if mapOk then Some content else None)\<rparr>"
    using d by (auto split: if_splits option.splits json.splits prod.splits)
  note ok = entries_loop_ok [OF l init]
  show thesis
    by (rule that [OF f]) (use c ok in \<open>simp_all add: st h_def H_def F_def\<close>)
qed

subsection \<open>Properties\<close>

lemma unat_length_u64: "length xs < 2 ^ 63 \<Longrightarrow> unat (of_nat (length xs) :: u64) = length xs"
  by (simp add: unat_of_nat take_bit_nat_eq_self)

lemma accepted_nat:
  assumes "tensor_ok opts H F name i" "unat F < 2 ^ 63" "H \<le> F" "unat (ti_end i) < 2 ^ 63"
  shows "unat H + unat (ti_end i) \<le> unat F" "unat (ti_begin i) < unat (ti_end i)"
    "unat (H + ti_begin i) = unat H + unat (ti_begin i)"
    "unat (ti_byteSize i) = unat (ti_end i) - unat (ti_begin i)"
proof -
  have lt: "unat (ti_begin i) < unat (ti_end i)" and le: "H + ti_end i \<le> F"
    using assms(1) by (simp_all add: tensor_ok_def word_less_nat_alt)
  have H: "unat H < 2 ^ 63" using assms(2,3) by (simp add: word_le_nat_alt)
  have "unat (H + ti_end i) = unat H + unat (ti_end i)"
    using H assms(4) by (intro unat_add_64) simp
  then show "unat H + unat (ti_end i) \<le> unat F" using le by (simp add: word_le_nat_alt)
  show "unat (H + ti_begin i) = unat H + unat (ti_begin i)"
    using H assms(4) lt by (intro unat_add_64) simp
  show "unat (ti_byteSize i) = unat (ti_end i) - unat (ti_begin i)"
    using lt by (simp add: ti_byteSize_def unat_sub_le word_le_nat_alt)
  show "unat (ti_begin i) < unat (ti_end i)" by (rule lt)
qed

lemma opened_tensor:
  assumes "st_open parse cv mapOk (Some content) opts SafeTensorsFile = Some (True, st)"
    and "length content < 2 ^ 63" "st_find name st = Some i"
  shows "tensor_ok opts (st_headerSize st) (of_nat (length content)) name i"
    "st_headerSize st \<le> of_nat (length content)" "st_mmap st = (if mapOk then Some content else None)"
proof -
  have "tensor_ok opts (st_headerSize st) (of_nat (length content)) name i \<and>
    st_headerSize st \<le> of_nat (length content) \<and> st_mmap st = (if mapOk then Some content else None)"
  proof (rule st_open_cases [OF assms(1)])
    fix c
    assume c: "Some content = Some c" "st_fileSize st = of_nat (length c)" "st_headerSize st + 8 \<le> st_fileSize st"
      "st_headerSize st = le_u64 (take 8 c) + 8" "8 + unat (le_u64 (take 8 c)) \<le> length c"
      "unat (le_u64 (take 8 c)) < 2 ^ 63" "st_mmap st = (if mapOk then Some c else None)"
      "\<And>name i. st_tensors st name = Some i \<Longrightarrow> tensor_ok opts (st_headerSize st) (st_fileSize st) name i"
    have h: "unat (st_headerSize st) = unat (le_u64 (take 8 c)) + 8"
      unfolding c(4) using c(6) by (subst unat_add_64) simp_all
    then have "unat (st_headerSize st + 8) = unat (st_headerSize st) + 8"
      using c(6) unat_add_64 [of "st_headerSize st" 8] by simp
    then have "st_headerSize st \<le> of_nat (length c)" using c(2,3) by (simp add: word_le_nat_alt)
    then show ?thesis using c(1,2,7,8) assms(3) by (simp add: st_find_def)
  qed
  then show "tensor_ok opts (st_headerSize st) (of_nat (length content)) name i"
    "st_headerSize st \<le> of_nat (length content)" "st_mmap st = (if mapOk then Some content else None)" by auto
qed


definition tiny_file :: bytes where
  "tiny_file = [8, 0, 0, 0, 0, 0, 0, 0] @ replicate 8 32 @ [1, 2, 3, 4, 5, 6, 7, 8]"

definition tiny_header :: json_object where
  "tiny_header = [(''w'', JObject [(''dtype'', JString ''BF16''), (''shape'', JArray [JNumber 2, JNumber 2]),
     (''data_offsets'', JArray [JNumber 0, JNumber 8])])]"

definition tiny_info :: tensor_info where
  "tiny_info = \<lparr>ti_name = ''w'', ti_dtype = ''BF16'', ti_shape = [2, 2], ti_begin = 0, ti_end = 8\<rparr>"

abbreviation no_conv :: fp_conv where
  "no_conv \<equiv> \<lparr>oor_int = \<lambda>_. 0, oor_u64 = \<lambda>_. 0\<rparr>"

lemma tiny_entry: "check_entry no_conv SafeTensorsOptions 16 24 m ''w''
     [(''dtype'', JString ''BF16''), (''shape'', JArray [JNumber 2, JNumber 2]),
      (''data_offsets'', JArray [JNumber 0, JNumber 8])]
   = (if m ''w'' = None then Accept False tiny_info else RejDuplicate False)"
proof -
  have sh: "entry_shape no_conv [(''dtype'', JString ''BF16''), (''shape'', JArray [JNumber 2, JNumber 2]),
      (''data_offsets'', JArray [JNumber 0, JNumber 8])] = Some ([2, 2], 4)"
    by (simp add: entry_shape_def obj_find_def d2i_def rat_trunc_def)
  have of: "entry_offsets no_conv [(''dtype'', JString ''BF16''), (''shape'', JArray [JNumber 2, JNumber 2]),
      (''data_offsets'', JArray [JNumber 0, JNumber 8])] = Some (0, 8)"
    by (simp add: entry_offsets_def obj_find_def d2u64_def rat_trunc_def)
  show ?thesis
    unfolding check_entry_def sh of
    by (simp add: entry_dtype_def obj_find_def dtypeByteSize_def knownDtypes_def SafeTensorsOptions_def tiny_info_def)
qed

definition tiny_st :: safetensors where
  "tiny_st = \<lparr>st_tensors = [''w'' \<mapsto> tiny_info],
     st_stats = SafeTensorsStats\<lparr>st_total := 1, st_accepted := 1\<rparr>,
     st_headerSize = 16, st_fileSize = 24, st_mmap = Some tiny_file\<rparr>"

lemma tiny_open:
  "st_open (\<lambda>_. Some (JObject tiny_header)) no_conv True (Some tiny_file) SafeTensorsOptions SafeTensorsFile
     = Some (True, tiny_st)"
proof -
  have le: "le_u64 (take 8 tiny_file) = 8" "length tiny_file = 24" by (simp_all add: tiny_file_def le_u64_def)
  have loop: "entries_loop no_conv SafeTensorsOptions 16 24 tiny_header (Map.empty, SafeTensorsStats)
      = ([''w'' \<mapsto> tiny_info], SafeTensorsStats\<lparr>st_total := 1, st_accepted := 1\<rparr>)"
    unfolding tiny_header_def
    by (simp add: tiny_entry count_f32_def) (simp add: SafeTensorsStats_def tiny_info_def)
  show ?thesis
    using loop by (simp add: st_open_def Let_def le SafeTensorsFile_def tiny_st_def SafeTensorsOptions_def)
qed


text \<open>
  Reading an accepted tensor of a mapped file into a buffer that is large enough never copies
  outside the file or the buffer, and delivers exactly the file's bytes at the tensor's offset.
\<close>

theorem st_readTensor_exact:
  assumes "st_open parse cv True (Some content) opts SafeTensorsFile = Some (True, st)"
    and "length content < 2 ^ 63" "st_find name st = Some i" "unat (ti_end i) < 2 ^ 63"
    and "unat bufSize \<le> length buffer" "ti_byteSize i \<le> bufSize"
  shows "\<exists>out. st_readTensor fallback name buffer bufSize st = Some (True, out) \<and>
    length out = length buffer \<and>
    slice out 0 (unat (ti_byteSize i)) =
      slice content (unat (st_headerSize st) + unat (ti_begin i)) (unat (ti_byteSize i))"
proof -
  note t = opened_tensor [OF assms(1-3)] and uF = unat_length_u64 [OF assms(2)]
  have a: "unat (st_headerSize st) + unat (ti_end i) \<le> length content" "unat (ti_begin i) < unat (ti_end i)"
    "unat (st_headerSize st + ti_begin i) = unat (st_headerSize st) + unat (ti_begin i)"
    "unat (ti_byteSize i) = unat (ti_end i) - unat (ti_begin i)"
    using accepted_nat [OF t(1) _ t(2) assms(4)] uF assms(2) by simp_all
  have "unat (ti_byteSize i) \<le> length buffer" using assms(5,6) by (simp add: word_le_nat_alt)
  then obtain r where r: "memcpy buffer 0 content (unat (st_headerSize st + ti_begin i)) (unat (ti_byteSize i)) = Some r"
    using memcpy_in_range [of 0 "unat (ti_byteSize i)" buffer "unat (st_headerSize st + ti_begin i)" content] a
    by auto
  have "\<not> of_nat (length content) < st_headerSize st + ti_end i" using t(1) by (simp add: tensor_ok_def not_less)
  then have "st_readTensor fallback name buffer bufSize st = Some (True, r)"
    using assms(3,6) t(3) r by (simp add: st_readTensor_def not_less [symmetric])
  then show ?thesis using length_memcpy [OF r] slice_memcpy_same [OF r] a(3) by auto
qed

lemma st_readTensor_exact_witness:
  "\<exists>out. st_readTensor (\<lambda>_ _ b. (False, b)) ''w'' (replicate 9 0) 9 tiny_st = Some (True, out) \<and>
    length out = length (replicate 9 0 :: bytes) \<and>
    slice out 0 (unat (ti_byteSize tiny_info)) =
      slice tiny_file (unat (st_headerSize tiny_st) + unat (ti_begin tiny_info)) (unat (ti_byteSize tiny_info))"
  by (rule st_readTensor_exact [OF tiny_open])
    (simp_all add: tiny_file_def st_find_def tiny_st_def tiny_info_def ti_byteSize_def)

text \<open>
  The validation report of a fresh file adds up: every entry counted is either accepted or
  rejected, every rejection is counted under exactly one reason, and the accepted entries are
  exactly the tensors of the table.
\<close>

theorem st_stats_add_up:
  assumes "st_open parse cv mapOk file opts SafeTensorsFile = Some (True, st)"
  shows "st_total (st_stats st) = st_accepted (st_stats st) + st_rejected (st_stats st) \<and>
    st_rejected (st_stats st) = duplicateRejected (st_stats st) + dtypeRejected (st_stats st) +
      shapeRejected (st_stats st) + boundsRejected (st_stats st) + byteMismatchRejected (st_stats st) +
      alignmentRejected (st_stats st) \<and>
    card (dom (st_tensors st)) = st_accepted (st_stats st)"
  by (rule st_open_cases [OF assms]) (simp add: stats_ok_def)

lemma st_stats_add_up_witness:
  "st_total (st_stats tiny_st) = st_accepted (st_stats tiny_st) + st_rejected (st_stats tiny_st) \<and>
    card (dom (st_tensors tiny_st)) = st_accepted (st_stats tiny_st)"
  using st_stats_add_up [OF tiny_open] by blast

text \<open>
  The bounds check adds without a guard against wrap-around: with a 2048-byte header area, a tensor
  declared to span \<open>2 ^ 64 - 2048\<close> bytes passes every check of a file of 4096 bytes.
\<close>

lemma st_bounds_wrap:
  "\<exists>i. check_entry no_conv SafeTensorsOptions 2048 4096 Map.empty ''w''
     [(''dtype'', JString ''BF16''),
      (''shape'', JArray [JNumber 1024, JNumber 6361, JNumber 69431, JNumber 20394401]),
      (''data_offsets'', JArray [JNumber 0, JNumber 18446744073709549568])] = Accept False i \<and>
     4096 < unat (ti_end i)"
proof -
  let ?o = "[(''dtype'', JString ''BF16''),
      (''shape'', JArray [JNumber 1024, JNumber 6361, JNumber 69431, JNumber 20394401]),
      (''data_offsets'', JArray [JNumber 0, JNumber 18446744073709549568])]"
  have sh: "entry_shape no_conv ?o = Some ([1024, 6361, 69431, 20394401], 9223372036854774784)"
    by (simp add: entry_shape_def obj_find_def d2i_def rat_trunc_def)
  have of: "entry_offsets no_conv ?o = Some (0, 18446744073709549568)"
    by (simp add: entry_offsets_def obj_find_def d2u64_def rat_trunc_def)
  show ?thesis
    unfolding check_entry_def sh of
    by (simp add: entry_dtype_def obj_find_def dtypeByteSize_def knownDtypes_def SafeTensorsOptions_def)
qed

end
