(* ===== verification/MappedFile.thy ===== *)
theory MappedFile
  imports Prelude "HOL-Library.Multiset"
begin

text \<open>
  \<open>storage/mapped_file.h\<close>, \<open>storage/mmap_posix.cpp\<close>, \<open>storage/mmap_win.cpp\<close>: the mapped shard
  file as the owner of operating-system resources. The system's answers are the fields of an
  environment record; every operation returns the calls it makes, in order. A null pointer or
  handle is 0; addresses are 64-bit words.
\<close>

record mapped_file =
  mf_fileHandle :: int
  mf_mappingHandle :: int
  mf_mappedBase :: u64
  mf_mappedData :: u64
  mf_mappedSize :: u64

definition MappedFile :: mapped_file where
  "MappedFile = \<lparr>mf_fileHandle = 0, mf_mappingHandle = 0, mf_mappedBase = 0, mf_mappedData = 0,
     mf_mappedSize = 0\<rparr>"

definition mf_isOpen :: "mapped_file \<Rightarrow> bool" where
  "mf_isOpen mf \<longleftrightarrow> mf_mappedData mf \<noteq> 0"

datatype os_call = OpenFd int | CloseFd int | Map u64 u64 | Unmap u64 u64

subsection \<open>POSIX\<close>

record posix_env =
  pe_open :: "string \<Rightarrow> int"
  pe_fileSize :: "u64 option"
  pe_mmap :: "u64 \<Rightarrow> u64 \<Rightarrow> u64 option"
  pe_pageSize :: u64

definition mf_close :: "mapped_file \<Rightarrow> mapped_file \<times> os_call list" where
  "mf_close mf =
     (let unmap = (if mf_mappedBase mf \<noteq> 0 then [Unmap (mf_mappedBase mf) (mf_mappedSize mf)] else []);
          close = (if mf_fileHandle mf \<noteq> 0 then [CloseFd (mf_fileHandle mf)] else [])
      in (\<lparr>mf_fileHandle = 0, mf_mappingHandle = 0, mf_mappedBase = 0,
           mf_mappedData = (if mf_mappedBase mf \<noteq> 0 then 0 else mf_mappedData mf), mf_mappedSize = 0\<rparr>,
          unmap @ close))"

definition mf_open :: "posix_env \<Rightarrow> string \<Rightarrow> u64 \<Rightarrow> u64 \<Rightarrow> mapped_file \<Rightarrow>
    bool \<times> mapped_file \<times> os_call list" where
  "mf_open env path offset sz mf =
     (case mf_close mf of (mf, calls) \<Rightarrow>
      let fd = pe_open env path in
      if fd < 0 then (False, mf, calls)
      else
        let mf = mf\<lparr>mf_fileHandle := fd\<rparr>; calls = calls @ [OpenFd fd];
            alignedOffset = and offset (not (pe_pageSize env - 1));
            adjust = offset - alignedOffset in
        (case pe_mmap env (sz + adjust) alignedOffset of
           None \<Rightarrow> (False, mf\<lparr>mf_fileHandle := 0\<rparr>, calls @ [CloseFd fd])
         | Some base \<Rightarrow>
             (True, mf\<lparr>mf_mappedBase := base, mf_mappedData := base + adjust, mf_mappedSize := sz\<rparr>,
              calls @ [Map base (sz + adjust)])))"

definition mf_openAll :: "posix_env \<Rightarrow> string \<Rightarrow> mapped_file \<Rightarrow> bool \<times> mapped_file \<times> os_call list" where
  "mf_openAll env path mf =
     (case mf_close mf of (mf, calls) \<Rightarrow>
      let fd = pe_open env path in
      if fd < 0 then (False, mf, calls)
      else
        let mf = mf\<lparr>mf_fileHandle := fd\<rparr>; calls = calls @ [OpenFd fd] in
        (case pe_fileSize env of
           None \<Rightarrow> (False, mf\<lparr>mf_fileHandle := 0\<rparr>, calls @ [CloseFd fd])
         | Some fsize \<Rightarrow>
             (case pe_mmap env fsize 0 of
                None \<Rightarrow> (False, mf\<lparr>mf_fileHandle := 0\<rparr>, calls @ [CloseFd fd])
              | Some base \<Rightarrow>
                  (True, mf\<lparr>mf_mappedBase := base, mf_mappedData := base, mf_mappedSize := fsize\<rparr>,
                   calls @ [Map base fsize]))))"

text \<open>Move construction: the new object, and the emptied other. Move assignment closes the target first.\<close>

definition mf_move :: "mapped_file \<Rightarrow> mapped_file \<times> mapped_file" where
  "mf_move other = (\<lparr>mf_fileHandle = mf_fileHandle other, mf_mappingHandle = mf_mappingHandle other,
     mf_mappedBase = mf_mappedBase other, mf_mappedData = mf_mappedData other,
     mf_mappedSize = mf_mappedSize other\<rparr>,
     \<lparr>mf_fileHandle = 0, mf_mappingHandle = 0, mf_mappedBase = 0, mf_mappedData = 0, mf_mappedSize = 0\<rparr>)"

definition mf_move_assign :: "mapped_file \<Rightarrow> mapped_file \<Rightarrow> mapped_file \<times> mapped_file \<times> os_call list" where
  "mf_move_assign target other =
     (case mf_close target of (_, calls) \<Rightarrow> (case mf_move other of (t, e) \<Rightarrow> (t, e, calls)))"

subsection \<open>Windows\<close>

record win_env =
  we_createFile :: "string \<Rightarrow> int"
  we_createMapping :: "int \<Rightarrow> int"
  we_mapView :: "u64 \<Rightarrow> u64 \<Rightarrow> u64"
  we_fileSize :: u64

text \<open>\<open>INVALID_HANDLE_VALUE\<close> is \<open>-1\<close>; a null mapping or view is 0. Handles are closed as descriptors are.\<close>

definition mf_close_win :: "mapped_file \<Rightarrow> mapped_file \<times> os_call list" where
  "mf_close_win mf =
     (let unmap = (if mf_mappedBase mf \<noteq> 0 then [Unmap (mf_mappedBase mf) 0] else []);
          closeM = (if mf_mappingHandle mf \<noteq> 0 then [CloseFd (mf_mappingHandle mf)] else []);
          closeF = (if mf_fileHandle mf \<noteq> 0 then [CloseFd (mf_fileHandle mf)] else [])
      in (\<lparr>mf_fileHandle = 0, mf_mappingHandle = 0, mf_mappedBase = 0,
           mf_mappedData = (if mf_mappedBase mf \<noteq> 0 then 0 else mf_mappedData mf), mf_mappedSize = 0\<rparr>,
          unmap @ closeM @ closeF))"

definition mf_open_win :: "win_env \<Rightarrow> string \<Rightarrow> u64 \<Rightarrow> u64 \<Rightarrow> mapped_file \<Rightarrow>
    bool \<times> mapped_file \<times> os_call list" where
  "mf_open_win env path offset sz mf =
     (case mf_close_win mf of (mf, calls) \<Rightarrow>
      let fh = we_createFile env path; mf = mf\<lparr>mf_fileHandle := fh\<rparr> in
      if fh = - 1 then (False, mf, calls)
      else
        let calls = calls @ [OpenFd fh]; mh = we_createMapping env fh; mf = mf\<lparr>mf_mappingHandle := mh\<rparr> in
        if mh = 0 then (False, mf\<lparr>mf_fileHandle := 0\<rparr>, calls @ [CloseFd fh])
        else
          let calls = calls @ [OpenFd mh];
              alignedOffset = and offset (not 0xFFFF); adjust = offset - alignedOffset;
              base = we_mapView env alignedOffset (sz + adjust); mf = mf\<lparr>mf_mappedBase := base\<rparr> in
          if base = 0 then
            (False, mf\<lparr>mf_mappingHandle := 0, mf_fileHandle := 0\<rparr>, calls @ [CloseFd mh, CloseFd fh])
          else (True, mf\<lparr>mf_mappedData := base + adjust, mf_mappedSize := sz\<rparr>,
                calls @ [Map base 0]))"

definition mf_openAll_win :: "win_env \<Rightarrow> string \<Rightarrow> mapped_file \<Rightarrow> bool \<times> mapped_file \<times> os_call list" where
  "mf_openAll_win env path mf =
     (case mf_close_win mf of (mf, calls) \<Rightarrow>
      let fh = we_createFile env path; mf = mf\<lparr>mf_fileHandle := fh\<rparr> in
      if fh = - 1 then (False, mf, calls)
      else
        let calls = calls @ [OpenFd fh]; mf = mf\<lparr>mf_mappedSize := we_fileSize env\<rparr>;
            mh = we_createMapping env fh; mf = mf\<lparr>mf_mappingHandle := mh\<rparr> in
        if mh = 0 then (False, mf\<lparr>mf_fileHandle := 0\<rparr>, calls @ [CloseFd fh])
        else
          let calls = calls @ [OpenFd mh]; base = we_mapView env 0 0; mf = mf\<lparr>mf_mappedBase := base\<rparr> in
          if base = 0 then
            (False, mf\<lparr>mf_mappingHandle := 0, mf_fileHandle := 0\<rparr>, calls @ [CloseFd mh, CloseFd fh])
          else (True, mf\<lparr>mf_mappedData := base\<rparr>, calls @ [Map base 0]))"

subsection \<open>Resources\<close>

text \<open>What a sequence of calls leaves open: descriptors, and mappings with their extent.\<close>

fun track :: "os_call \<Rightarrow> int multiset \<times> (u64 \<times> u64) multiset \<Rightarrow> int multiset \<times> (u64 \<times> u64) multiset" where
  "track (OpenFd fd) (fds, maps) = (add_mset fd fds, maps)"
| "track (CloseFd fd) (fds, maps) = (fds - {#fd#}, maps)"
| "track (Map base len) (fds, maps) = (fds, add_mset (base, len) maps)"
| "track (Unmap base len) (fds, maps) = (fds, maps - {#(base, len)#})"

definition live :: "os_call list \<Rightarrow> int multiset \<times> (u64 \<times> u64) multiset" where
  "live calls = fold track calls ({#}, {#})"

definition owned :: "mapped_file \<Rightarrow> int multiset \<times> (u64 \<times> u64) multiset" where
  "owned mf = (if mf_fileHandle mf \<noteq> 0 then {#mf_fileHandle mf#} else {#},
     if mf_mappedBase mf \<noteq> 0 then {#(mf_mappedBase mf, mf_mappedSize mf)#} else {#})"

datatype mf_op = MfOpen posix_env string u64 u64 | MfOpenAll posix_env string | MfClose

fun mf_exec :: "mf_op \<Rightarrow> mapped_file \<Rightarrow> mapped_file \<times> os_call list" where
  "mf_exec (MfOpen env path offset sz) mf = snd (mf_open env path offset sz mf)"
| "mf_exec (MfOpenAll env path) mf = snd (mf_openAll env path mf)"
| "mf_exec MfClose mf = mf_close mf"

fun mf_run :: "mf_op list \<Rightarrow> mapped_file \<Rightarrow> mapped_file \<times> os_call list" where
  "mf_run [] mf = (mf, [])"
| "mf_run (a # as) mf = (case mf_exec a mf of (mf, calls) \<Rightarrow> (case mf_run as mf of (mf, rest) \<Rightarrow> (mf, calls @ rest)))"

text \<open>
  The assumptions on the system: no descriptor 0 and no mapping at address 0 is handed out. A
  partial mapping starts at a page boundary.
\<close>

fun mf_op_ok :: "mf_op \<Rightarrow> bool" where
  "mf_op_ok (MfOpen env path offset sz) =
     (pe_open env path \<noteq> 0 \<and> pe_mmap env sz offset \<noteq> Some 0 \<and> and offset (not (pe_pageSize env - 1)) = offset)"
| "mf_op_ok (MfOpenAll env path) =
     (pe_open env path \<noteq> 0 \<and> (\<forall>n. pe_fileSize env = Some n \<longrightarrow> pe_mmap env n 0 \<noteq> Some 0))"
| "mf_op_ok MfClose = True"

lemma live_append: "live (as @ bs) = fold track bs (live as)"
  by (simp add: live_def)

lemma close_live:
  assumes "live calls = owned mf" "mf_close mf = (mf', calls')"
  shows "live (calls @ calls') = ({#}, {#})" "owned mf' = ({#}, {#})"
  using assms by (auto simp: mf_close_def owned_def live_append Let_def split: if_splits)

lemma exec_live:
  assumes "live calls = owned mf" "mf_op_ok a" "mf_exec a mf = (mf', calls')"
  shows "live (calls @ calls') = owned mf'"
proof -
  obtain m0 c0 where cl: "mf_close mf = (m0, c0)" by fastforce
  note c = close_live [OF assms(1) cl]
  have m0: "mf_fileHandle m0 = 0" "mf_mappedBase m0 = 0" using cl by (auto simp: mf_close_def Let_def)
  show ?thesis
  proof (cases a)
    case (MfOpen env path offset sz)
    then show ?thesis
      using assms(2,3) c m0
      by (auto simp: mf_open_def cl Let_def live_append owned_def split: if_splits option.splits)
  next
    case (MfOpenAll env path)
    then show ?thesis
      using assms(2,3) c m0
      by (auto simp: mf_openAll_def cl Let_def live_append owned_def split: if_splits option.splits)
  next
    case MfClose
    then show ?thesis using assms(3) c cl by simp
  qed
qed

lemma run_live:
  "live calls = owned mf \<Longrightarrow> \<forall>a \<in> set as. mf_op_ok a \<Longrightarrow> mf_run as mf = (mf', calls') \<Longrightarrow>
     live (calls @ calls') = owned mf'"
proof (induction as arbitrary: calls mf mf' calls')
  case (Cons a as)
  obtain m1 c1 where e: "mf_exec a mf = (m1, c1)" by fastforce
  obtain m2 c2 where r: "mf_run as m1 = (m2, c2)" by fastforce
  have "live (calls @ c1) = owned m1" using exec_live [OF Cons.prems(1) _ e] Cons.prems(2) by simp
  from Cons.IH [OF this _ r] Cons.prems show ?case by (simp add: e r)
qed simp

subsection \<open>Properties\<close>

text \<open>
  Over any sequence of opens (whole-file or page-aligned) and closes on one object, failing
  calls included, the object owns exactly the descriptor and the mapping that are open, and
  destroying it releases everything.
\<close>

theorem mapped_file_no_leak:
  assumes "\<forall>a \<in> set as. mf_op_ok a" "mf_run as MappedFile = (mf, calls)"
  shows "live calls = owned mf \<and> live (calls @ snd (mf_close mf)) = ({#}, {#})"
proof -
  have "live [] = owned MappedFile" by (simp add: live_def owned_def MappedFile_def)
  from run_live [OF this assms] have l: "live calls = owned mf" by simp
  then show ?thesis using close_live(1) [OF l] by (metis prod.collapse)
qed

definition demo_env :: posix_env where
  "demo_env = \<lparr>pe_open = (\<lambda>_. 5), pe_fileSize = Some 100, pe_mmap = (\<lambda>len off. Some 0x7000),
     pe_pageSize = 4096\<rparr>"

lemma mapped_file_no_leak_witness:
  "live (snd (mf_run [MfOpenAll demo_env ''a''] MappedFile)) = owned (fst (mf_run [MfOpenAll demo_env ''a''] MappedFile)) \<and>
   live (snd (mf_run [MfOpenAll demo_env ''a''] MappedFile) @
     snd (mf_close (fst (mf_run [MfOpenAll demo_env ''a''] MappedFile)))) = ({#}, {#})"
  by (rule mapped_file_no_leak [of "[MfOpenAll demo_env ''a'']"]) (simp_all add: demo_env_def)

text \<open>
  The alignment hypothesis is needed: a mapping opened at an unaligned offset is longer than the
  size \<open>close\<close> passes to \<open>munmap\<close>.
\<close>

lemma unaligned_open_unmaps_too_little:
  "snd (live (snd (mf_run [MfOpen demo_env ''a'' 100 4096, MfClose] MappedFile))) = {#(0x7000, 4196)#}"
  by (simp add: demo_env_def mf_open_def mf_close_def MappedFile_def live_def Let_def)

text \<open>On Windows a failed \<open>CreateFileA\<close> leaves the invalid handle behind, which \<open>close\<close> then closes.\<close>

lemma win_failed_open_closes_invalid:
  assumes "we_createFile env path = - 1" "mf_openAll_win env path MappedFile = (ok, mf, calls)"
  shows "\<not> ok \<and> snd (mf_close_win mf) = [CloseFd (- 1)]"
  using assms by (auto simp: mf_openAll_win_def mf_close_win_def MappedFile_def Let_def)

end
