(* ===== verification/IoReader.thy ===== *)
theory IoReader
  imports Prelude "HOL-Library.Multiset"
begin

text \<open>
  \<open>storage/iocp_reader.h\<close>, \<open>storage/iocp_reader_posix.cpp\<close>, \<open>storage/iocp_reader.cpp\<close>: the
  asynchronous read queue. The POSIX reader is a state machine whose steps are the critical
  sections and the unlocked actions of the threads: a submission, a worker taking the front job,
  its read and callback, the decrement of the pending count, a worker's exit, \<open>start\<close> and \<open>stop\<close>.
  The log of callbacks, newest first, is what the submitters observe. A request's identity stands
  for its callback and destination buffer.
\<close>

record read_request =
  rq_id :: nat
  rq_filePath :: string
  rq_offset :: u64
  rq_size :: u64

record completion =
  cp_req :: read_request
  cp_success :: bool
  cp_data :: bytes

type_synonym files = "string \<Rightarrow> bytes option"

text \<open>The read of a worker: \<open>seekg\<close> and \<open>read\<close>, the byte count is \<open>gcount\<close>.\<close>

definition worker_read :: "files \<Rightarrow> read_request \<Rightarrow> completion" where
  "worker_read files r =
     (let data = (case files (rq_filePath r) of
            None \<Rightarrow> []
          | Some content \<Rightarrow> take (unat (rq_size r)) (drop (unat (rq_offset r)) content))
      in \<lparr>cp_req = r, cp_success = (length data = unat (rq_size r)), cp_data = data\<rparr>)"

record io_reader =
  io_running :: bool
  io_quit :: bool
  io_queue :: "read_request list"
  io_active :: "read_request list"
  io_called :: "read_request list"
  io_pendingCount :: int
  io_idle :: nat
  io_log :: "completion list"

definition IOCPReader :: io_reader where
  "IOCPReader = \<lparr>io_running = False, io_quit = False, io_queue = [], io_active = [], io_called = [],
     io_pendingCount = 0, io_idle = 0, io_log = []\<rparr>"

definition io_start :: "nat \<Rightarrow> io_reader \<Rightarrow> bool \<times> io_reader" where
  "io_start workerCount s = (True, s\<lparr>io_running := True, io_idle := io_idle s + workerCount\<rparr>)"

definition io_submitRead :: "read_request \<Rightarrow> io_reader \<Rightarrow> io_reader" where
  "io_submitRead req s =
     (if \<not> io_running s
      then s\<lparr>io_log := \<lparr>cp_req = req, cp_success = False, cp_data = []\<rparr> # io_log s\<rparr>
      else s\<lparr>io_pendingCount := io_pendingCount s + 1, io_queue := io_queue s @ [req]\<rparr>)"

definition io_onComplete :: "io_reader \<Rightarrow> io_reader" where
  "io_onComplete s = s\<lparr>io_pendingCount := io_pendingCount s - 1\<rparr>"

text \<open>\<open>waitAll\<close> returns when the predicate it waits for holds.\<close>

definition io_waitAll_returns :: "io_reader \<Rightarrow> bool" where
  "io_waitAll_returns s \<longleftrightarrow> io_pendingCount s \<le> 0"

datatype io_label = LStart nat | LSubmit read_request | LTake | LCallback read_request
  | LComplete read_request | LExit | LStop

inductive io_step :: "files \<Rightarrow> io_label \<Rightarrow> io_reader \<Rightarrow> io_reader \<Rightarrow> bool" for files where
  start: "io_step files (LStart n) s (snd (io_start n s))"
| submit: "io_step files (LSubmit r) s (io_submitRead r s)"
| take_job: "io_queue s = r # q \<Longrightarrow> 0 < io_idle s \<Longrightarrow>
    io_step files LTake s (s\<lparr>io_queue := q, io_active := r # io_active s, io_idle := io_idle s - 1\<rparr>)"
| callback: "r \<in> set (io_active s) \<Longrightarrow>
    io_step files (LCallback r) s (s\<lparr>io_active := remove1 r (io_active s), io_called := r # io_called s,
      io_log := worker_read files r # io_log s\<rparr>)"
| complete: "r \<in> set (io_called s) \<Longrightarrow>
    io_step files (LComplete r) s
      (io_onComplete (s\<lparr>io_called := remove1 r (io_called s), io_idle := io_idle s + 1\<rparr>))"
| exit: "io_quit s \<Longrightarrow> io_queue s = [] \<Longrightarrow> 0 < io_idle s \<Longrightarrow>
    io_step files LExit s (s\<lparr>io_idle := io_idle s - 1\<rparr>)"
| stop: "io_running s \<Longrightarrow> io_waitAll_returns s \<Longrightarrow>
    io_step files LStop s (s\<lparr>io_quit := True, io_running := False\<rparr>)"

inductive io_run :: "files \<Rightarrow> io_label list \<Rightarrow> io_reader \<Rightarrow> io_reader \<Rightarrow> bool" for files where
  nil: "io_run files [] s s"
| cons: "io_step files l s t \<Longrightarrow> io_run files ls t u \<Longrightarrow> io_run files (l # ls) s u"

inductive_cases io_run_nilE: "io_run files [] s t"
inductive_cases io_run_consE: "io_run files (l # ls) s t"

inductive_simps io_step_simps:
  "io_step files (LStart n) s t" "io_step files (LSubmit r) s t" "io_step files LTake s t"
  "io_step files (LCallback r) s t" "io_step files (LComplete r) s t" "io_step files LExit s t"
  "io_step files LStop s t"

fun submitted :: "io_label list \<Rightarrow> read_request multiset" where
  "submitted [] = {#}"
| "submitted (LSubmit r # ls) = add_mset r (submitted ls)"
| "submitted (_ # ls) = submitted ls"

subsection \<open>Windows submission\<close>

text \<open>
  \<open>submitRead\<close> of the Windows file. The callback has been moved into the overlapped structure when
  the failure branches test it, so what they test is an empty function: \<open>moved_from\<close>.
  \<open>openOk\<close>, \<open>readOk\<close> are the answers of \<open>CreateFileA\<close> and \<open>ReadFile\<close>.
\<close>

definition call_back :: "bool \<Rightarrow> completion \<Rightarrow> io_reader \<Rightarrow> io_reader" where
  "call_back callable c s = (if callable then s\<lparr>io_log := c # io_log s\<rparr> else s)"

definition win_submitRead :: "bool \<Rightarrow> bool \<Rightarrow> bool \<Rightarrow> read_request \<Rightarrow> io_reader \<Rightarrow> io_reader" where
  "win_submitRead has_cb openOk readOk req s =
     (let moved_from = False; failed = \<lparr>cp_req = req, cp_success = False, cp_data = []\<rparr> in
      if \<not> openOk then call_back moved_from failed s
      else
        let s = s\<lparr>io_pendingCount := io_pendingCount s + 1\<rparr> in
        if \<not> readOk then
          let s = call_back moved_from failed s in s\<lparr>io_pendingCount := io_pendingCount s - 1\<rparr>
        else s\<lparr>io_active := req # io_active s\<rparr>)"

text \<open>A completion packet: \<open>ReadFile\<close> was asked for \<open>DWORD(size)\<close> bytes.\<close>

definition win_complete :: "bool \<Rightarrow> files \<Rightarrow> read_request \<Rightarrow> io_reader \<Rightarrow> io_reader" where
  "win_complete has_cb files req s =
     (let asked = unat (rq_size req) mod 2 ^ 32;
          data = (case files (rq_filePath req) of
            None \<Rightarrow> []
          | Some content \<Rightarrow> take asked (drop (unat (rq_offset req)) content));
          ok = (length data = unat (rq_size req))
      in io_onComplete ((call_back has_cb \<lparr>cp_req = req, cp_success = ok, cp_data = data\<rparr> s)
           \<lparr>io_active := remove1 req (io_active s)\<rparr>))"

subsection \<open>The accounting invariant\<close>

text \<open>
  The pending count is the number of jobs whose completion has not been counted; every submitted
  request is queued, being read, or in the log, exactly once.
\<close>

definition io_inv :: "files \<Rightarrow> read_request multiset \<Rightarrow> io_reader \<Rightarrow> bool" where
  "io_inv files sub s \<longleftrightarrow>
     io_pendingCount s = int (length (io_queue s) + length (io_active s) + length (io_called s)) \<and>
     sub = mset (io_queue s) + mset (io_active s) + mset (map cp_req (io_log s)) \<and>
     (\<forall>c \<in> set (io_log s). c = worker_read files (cp_req c) \<or>
        (\<not> cp_success c \<and> cp_data c = []))"

lemma cp_req_worker_read [simp]: "cp_req (worker_read files r) = r"
  by (simp add: worker_read_def Let_def)

lemma io_inv_init: "io_inv files {#} IOCPReader"
  by (simp add: io_inv_def IOCPReader_def)

lemma length_remove1_Suc: "x \<in> set xs \<Longrightarrow> length xs = Suc (length (remove1 x xs))"
  by (induction xs) auto

lemma io_step_inv:
  assumes "io_step files l s t" "io_inv files sub s"
  shows "io_inv files (submitted [l] + sub) t"
  using assms
proof (cases rule: io_step.cases)
  case (callback r)
  then show ?thesis using assms(2) length_remove1_Suc [of r "io_active s"] by (auto simp: io_inv_def)
next
  case (complete r)
  then show ?thesis using assms(2) length_remove1_Suc [of r "io_called s"]
    by (auto simp: io_inv_def io_onComplete_def)
qed (auto simp: io_inv_def io_start_def io_submitRead_def)

lemma submitted_Cons: "submitted (l # ls) = submitted [l] + submitted ls"
  by (cases l) auto

lemma io_run_inv:
  "io_run files ls s t \<Longrightarrow> io_inv files sub s \<Longrightarrow> io_inv files (submitted ls + sub) t"
proof (induction arbitrary: sub rule: io_run.induct)
  case (cons l s t ls u)
  then show ?case using io_step_inv [OF cons.hyps(1) cons.prems]
    by (metis submitted_Cons add.assoc add.commute)
qed simp

subsection \<open>Draining\<close>

text \<open>Work left: every step of a worker on a job decreases it.\<close>

definition io_work :: "io_reader \<Rightarrow> nat" where
  "io_work s = 3 * length (io_queue s) + 2 * length (io_active s) + length (io_called s)"

definition io_alive :: "io_reader \<Rightarrow> bool" where
  "io_alive s \<longleftrightarrow> 0 < io_idle s + length (io_active s) + length (io_called s)"

lemma drain_step:
  assumes "0 < io_work s" "io_alive s"
  shows "\<exists>l t. io_step files l s t \<and> io_work t < io_work s \<and> io_alive t \<and> submitted [l] = {#}"
proof -
  consider (called) r where "r \<in> set (io_called s)" | (active) r where "io_called s = []" "r \<in> set (io_active s)"
    | (queued) r q where "io_called s = []" "io_active s = []" "io_queue s = r # q"
    using assms(1) by (cases "io_called s"; cases "io_active s"; cases "io_queue s") (auto simp: io_work_def)
  then show ?thesis
  proof cases
    case called
    let ?t = "io_onComplete (s\<lparr>io_called := remove1 r (io_called s), io_idle := io_idle s + 1\<rparr>)"
    have "io_step files (LComplete r) s ?t" using called by (rule io_step.complete)
    moreover have "io_work ?t < io_work s" "io_alive ?t"
      using length_remove1_Suc [OF called] by (simp_all add: io_work_def io_alive_def io_onComplete_def)
    ultimately show ?thesis by (intro exI [of _ "LComplete r"] exI [of _ ?t]) simp
  next
    case active
    let ?t = "s\<lparr>io_active := remove1 r (io_active s), io_called := r # io_called s,
      io_log := worker_read files r # io_log s\<rparr>"
    have "io_step files (LCallback r) s ?t" using active(2) by (rule io_step.callback)
    moreover have "io_work ?t < io_work s" "io_alive ?t"
      using length_remove1_Suc [OF active(2)] by (simp_all add: io_work_def io_alive_def)
    ultimately show ?thesis by (intro exI [of _ "LCallback r"] exI [of _ ?t]) simp
  next
    case queued
    let ?t = "s\<lparr>io_queue := q, io_active := r # io_active s, io_idle := io_idle s - 1\<rparr>"
    have "0 < io_idle s" using assms(2) queued by (simp add: io_alive_def)
    with queued(3) have "io_step files LTake s ?t" by (rule io_step.take_job)
    moreover have "io_work ?t < io_work s" "io_alive ?t"
      using queued by (simp_all add: io_work_def io_alive_def)
    ultimately show ?thesis by (intro exI [of _ LTake] exI [of _ ?t]) simp
  qed
qed

lemma drain:
  assumes "io_alive s"
  shows "\<exists>ls t. io_run files ls s t \<and> submitted ls = {#} \<and> io_work t = 0"
  using assms
proof (induction "io_work s" arbitrary: s rule: less_induct)
  case less
  show ?case
  proof (cases "io_work s = 0")
    case True
    then show ?thesis using io_run.nil [of files s] by (intro exI [of _ "[]"]) auto
  next
    case False
    then obtain l t where t: "io_step files l s t" "io_work t < io_work s" "io_alive t" "submitted [l] = {#}"
      using drain_step less.prems by blast
    from less.hyps [OF t(2,3)] obtain ls u where "io_run files ls t u" "submitted ls = {#}" "io_work u = 0" by auto
    then show ?thesis using t submitted_Cons [of l ls]
      by (intro exI [of _ "l # ls"] exI [of _ u]) (simp add: io_run.cons)
  qed
qed

subsection \<open>Properties\<close>

text \<open>
  C24. In every reachable state in which \<open>waitAll\<close> may return, each submitted request has had exactly
  one callback, and a callback that reported success was given exactly the requested bytes of the
  file, whatever the number of workers and the interleaving.
\<close>

theorem waitAll_means_delivered:
  assumes "io_run files ls IOCPReader s" "io_waitAll_returns s"
  shows "mset (map cp_req (io_log s)) = submitted ls \<and>
    (\<forall>c \<in> set (io_log s). cp_success c \<longrightarrow>
       (\<exists>content. files (rq_filePath (cp_req c)) = Some content \<and>
          cp_data c = slice content (unat (rq_offset (cp_req c))) (unat (rq_size (cp_req c))) \<and>
          length (cp_data c) = unat (rq_size (cp_req c))) \<or> rq_size (cp_req c) = 0)"
proof -
  have inv: "io_inv files (submitted ls) s" using io_run_inv [OF assms(1) io_inv_init] by simp
  then have "length (io_queue s) = 0 \<and> length (io_active s) = 0"
    using assms(2) unfolding io_inv_def io_waitAll_returns_def by linarith
  then have e: "io_queue s = []" "io_active s = []" by simp_all
  have "\<exists>content. files (rq_filePath (cp_req c)) = Some content \<and>
          cp_data c = slice content (unat (rq_offset (cp_req c))) (unat (rq_size (cp_req c))) \<and>
          length (cp_data c) = unat (rq_size (cp_req c))"
    if c: "c \<in> set (io_log s)" "cp_success c" "rq_size (cp_req c) \<noteq> 0" for c
  proof -
    have w: "c = worker_read files (cp_req c)" using inv c by (auto simp: io_inv_def)
    have "0 < unat (rq_size (cp_req c))" using c(3) by (simp add: unat_gt_0)
    moreover obtain r where r: "c = worker_read files r" using w by blast
    ultimately show ?thesis using c(2)
      by (auto simp: worker_read_def Let_def slice_def split: option.splits)
  qed
  moreover have "mset (map cp_req (io_log s)) = submitted ls" using inv e by (simp add: io_inv_def)
  ultimately show ?thesis by blast
qed

text \<open>
  With at least one live worker, every state can be driven to one in which \<open>waitAll\<close> returns by
  worker steps alone: the drain does not get stuck.
\<close>

theorem reader_drains:
  assumes "io_run files ls IOCPReader s" "io_alive s"
  shows "\<exists>ls' t. io_run files ls' s t \<and> submitted ls' = {#} \<and> io_waitAll_returns t"
proof -
  obtain ls' t where r: "io_run files ls' s t" "submitted ls' = {#}" "io_work t = 0"
    using drain [OF assms(2)] by blast
  have "io_inv files (submitted ls) s" using io_run_inv [OF assms(1) io_inv_init] by simp
  from io_run_inv [OF r(1) this] have "io_waitAll_returns t"
    using r(3) by (auto simp: io_inv_def io_waitAll_returns_def io_work_def)
  with r show ?thesis by blast
qed

definition demo_request :: read_request where
  "demo_request = \<lparr>rq_id = 1, rq_filePath = ''f'', rq_offset = 1, rq_size = 2\<rparr>"

definition demo_files :: files where
  "demo_files = [''f'' \<mapsto> [7, 8, 9]]"

definition demo_done :: io_reader where
  "demo_done = \<lparr>io_running = True, io_quit = False, io_queue = [], io_active = [], io_called = [],
     io_pendingCount = 0, io_idle = 1,
     io_log = [\<lparr>cp_req = demo_request, cp_success = True, cp_data = [8, 9]\<rparr>]\<rparr>"

lemma demo_run:
  "io_run demo_files [LStart 1, LSubmit demo_request, LTake, LCallback demo_request, LComplete demo_request]
     IOCPReader demo_done"
  by (rule io_run.cons, rule io_step.start, rule io_run.cons, rule io_step.submit,
      rule io_run.cons, rule io_step.take_job [of _ demo_request "[]"])
    (simp_all add: io_start_def io_submitRead_def IOCPReader_def,
     rule io_run.cons, rule io_step.callback, simp,
     rule io_run.cons, rule io_step.complete, simp,
     simp add: io_onComplete_def worker_read_def demo_request_def demo_files_def demo_done_def io_run.nil)

lemma waitAll_means_delivered_witness:
  "mset (map cp_req (io_log demo_done)) = {#demo_request#}"
  using waitAll_means_delivered [OF demo_run] by (simp add: io_waitAll_returns_def demo_done_def)

lemma reader_drains_witness:
  "\<exists>ls' t. io_run demo_files ls' demo_done t \<and> submitted ls' = {#} \<and> io_waitAll_returns t"
  by (rule reader_drains [OF demo_run]) (simp add: io_alive_def demo_done_def)

text \<open>
  Behaviours the interface comments do not tell. A stopped POSIX reader cannot be restarted:
  \<open>start\<close> does not clear \<open>quit\<close>, so every worker may exit at once and a later submission is never
  served. On Windows a failed open or read is reported to nobody.
\<close>

lemma restart_loses_workers:
  "\<exists>t. io_run files [LStart 1, LStop, LExit, LStart 1, LExit, LSubmit r] IOCPReader t \<and>
     io_running t \<and> \<not> io_alive t \<and> \<not> io_waitAll_returns t"
proof -
  let ?s1 = "IOCPReader\<lparr>io_running := True, io_idle := 1\<rparr>"
  let ?s2 = "?s1\<lparr>io_quit := True, io_running := False\<rparr>"
  let ?s3 = "?s2\<lparr>io_idle := 0\<rparr>"
  let ?s4 = "?s3\<lparr>io_running := True, io_idle := 1\<rparr>"
  let ?s5 = "?s4\<lparr>io_idle := 0\<rparr>"
  have "io_step files (LStart 1) IOCPReader ?s1" by (simp add: io_step_simps io_start_def IOCPReader_def)
  moreover have "io_step files LStop ?s1 ?s2"
    by (simp add: io_step_simps io_waitAll_returns_def IOCPReader_def)
  moreover have "io_step files LExit ?s2 ?s3" by (simp add: io_step_simps IOCPReader_def)
  moreover have "io_step files (LStart 1) ?s3 ?s4" by (simp add: io_step_simps io_start_def IOCPReader_def)
  moreover have "io_step files LExit ?s4 ?s5" by (simp add: io_step_simps IOCPReader_def)
  moreover have "io_step files (LSubmit r) ?s5 (io_submitRead r ?s5)" by (rule io_step.submit)
  ultimately have "io_run files [LStart 1, LStop, LExit, LStart 1, LExit, LSubmit r] IOCPReader (io_submitRead r ?s5)"
    by (blast intro: io_run.intros)
  then show ?thesis
    by (intro exI conjI, assumption)
      (simp_all add: io_submitRead_def io_alive_def io_waitAll_returns_def IOCPReader_def)
qed

lemma win_failed_submit_silent:
  "\<not> openOk \<or> \<not> readOk \<Longrightarrow> io_log (win_submitRead True openOk readOk req s) = io_log s"
  by (auto simp: win_submitRead_def call_back_def Let_def)

end
