(* ===== verification/WeightIndex.thy ===== *)
theory WeightIndex
  imports ModelConfig SafeTensors MappedFile "HOL-Library.List_Lexorder" "HOL-Library.Char_ord"
begin

text \<open>
  \<open>model/weight_index.h\<close>, \<open>model/weight_index.cpp\<close>: where every tensor of a checkpoint lies. The
  chain of name tests that dispatches a tensor is a table of patterns tried in the code's order;
  the file system, the JSON parser and the iteration order of the hash maps are parameters; a
  \<open>std::map\<close> iterates in key order.
\<close>

subsection \<open>Data\<close>

record tensor_location =
  shardPath :: string
  byteOffset :: u64
  byteSize :: u64
  tl_shape :: "int list"
  tl_dtype :: string

definition TensorLocation :: tensor_location where
  "TensorLocation = \<lparr>shardPath = [], byteOffset = 0, byteSize = 0, tl_shape = [], tl_dtype = []\<rparr>"

definition tl_numel :: "tensor_location \<Rightarrow> int" where
  "tl_numel loc = foldl (*) 1 (tl_shape loc)"

record expert_weights =
  gateProj :: tensor_location
  upProj :: tensor_location
  downProj :: tensor_location

definition ExpertWeights :: expert_weights where
  "ExpertWeights = \<lparr>gateProj = TensorLocation, upProj = TensorLocation, downProj = TensorLocation\<rparr>"

definition totalBytes :: "expert_weights \<Rightarrow> u64" where
  "totalBytes e = byteSize (gateProj e) + byteSize (upProj e) + byteSize (downProj e)"

record layer_weights =
  inputLayernorm :: tensor_location
  postAttentionLayernorm :: tensor_location
  qAProj :: tensor_location
  qALayernorm :: tensor_location
  qBProj :: tensor_location
  kvAProjWithMqa :: tensor_location
  kvALayernorm :: tensor_location
  kvBProj :: tensor_location
  oProj :: tensor_location
  indexWqB :: tensor_location
  indexWk :: tensor_location
  indexWeightsProj :: tensor_location
  indexKNormW :: tensor_location
  indexKNormB :: tensor_location
  isMoe :: bool
  mlpGate :: tensor_location
  mlpUp :: tensor_location
  mlpDown :: tensor_location
  gateBias :: tensor_location
  sharedGateProj :: tensor_location
  sharedUpProj :: tensor_location
  sharedDownProj :: tensor_location

definition LayerWeights :: layer_weights where
  "LayerWeights = \<lparr>inputLayernorm = TensorLocation, postAttentionLayernorm = TensorLocation,
     qAProj = TensorLocation, qALayernorm = TensorLocation, qBProj = TensorLocation,
     kvAProjWithMqa = TensorLocation, kvALayernorm = TensorLocation, kvBProj = TensorLocation,
     oProj = TensorLocation, indexWqB = TensorLocation, indexWk = TensorLocation,
     indexWeightsProj = TensorLocation, indexKNormW = TensorLocation, indexKNormB = TensorLocation,
     isMoe = False, mlpGate = TensorLocation, mlpUp = TensorLocation, mlpDown = TensorLocation,
     gateBias = TensorLocation, sharedGateProj = TensorLocation, sharedUpProj = TensorLocation,
     sharedDownProj = TensorLocation\<rparr>"

record weight_index =
  wi_config :: model_config
  modelDir :: string
  wi_layers :: "layer_weights list"
  routedExperts :: "expert_weights list list"
  embedTokens :: tensor_location
  lmHead :: tensor_location
  finalNorm :: tensor_location
  hasMtpTensors :: bool
  hasMtpHead :: bool
  mtpTensorLayers :: nat
  maxSeenBaseLayer :: int
  shardFiles :: "string list"
  mmapCache :: "string \<rightharpoonup> mapped_file"

definition WeightIndex :: weight_index where
  "WeightIndex = \<lparr>wi_config = ModelConfig, modelDir = [], wi_layers = [], routedExperts = [],
     embedTokens = TensorLocation, lmHead = TensorLocation, finalNorm = TensorLocation,
     hasMtpTensors = False, hasMtpHead = False, mtpTensorLayers = 0, maxSeenBaseLayer = 0,
     shardFiles = [], mmapCache = Map.empty\<rparr>"

subsection \<open>Names\<close>

definition strictStOpts :: st_options where
  "strictStOpts = SafeTensorsOptions\<lparr>requireBf16 := True, requireAlignedHeader := True,
     requireAlignedData := True, allowF32NameContaining := [''e_score_correction_bias'']\<rparr>"

text \<open>The number that follows the first occurrence of a marker, -1 when there is none.\<close>

definition number_after :: "string \<Rightarrow> string \<Rightarrow> int" where
  "number_after pat name = (case str_find pat name of
     None \<Rightarrow> -1
   | Some p \<Rightarrow> (case c_stoi (drop (p + length pat) name) of None \<Rightarrow> -1 | Some n \<Rightarrow> n))"

definition extractLayerNum :: "string \<Rightarrow> int" where
  "extractLayerNum name = number_after ''layers.'' name"

definition extractMtpLayerNum :: "string \<Rightarrow> int" where
  "extractMtpLayerNum name =
     (if str_contains ''nextn_predict_layers.'' name then number_after ''nextn_predict_layers.'' name
      else number_after ''mtp_layers.'' name)"

definition extractExpertNum :: "string \<Rightarrow> int" where
  "extractExpertNum name = number_after ''experts.'' name"

subsection \<open>Dispatch of one tensor\<close>

datatype lslot = InputLayernorm | PostAttentionLayernorm | QAProj | QALayernorm | QBProj
  | KvAProjWithMqa | KvALayernorm | KvBProj | OProj | IndexWqB | IndexWk | IndexWeightsProj
  | IndexKNormW | IndexKNormB | MlpGate | MlpUp | MlpDown | GateBias | SharedGateProj | SharedUpProj
  | SharedDownProj

datatype eslot = GateProj | UpProj | DownProj

text \<open>The tests of the chain in order, each with the \<open>isMoe\<close> value it asks for, if it asks.\<close>

definition layer_patterns :: "(bool option \<times> string \<times> lslot) list" where
  "layer_patterns =
     [(None, ''input_layernorm.weight'', InputLayernorm),
      (None, ''post_attention_layernorm.weight'', PostAttentionLayernorm),
      (None, ''self_attn.q_a_proj.weight'', QAProj),
      (None, ''self_attn.q_a_layernorm.weight'', QALayernorm),
      (None, ''self_attn.q_b_proj.weight'', QBProj),
      (None, ''self_attn.kv_a_proj_with_mqa.weight'', KvAProjWithMqa),
      (None, ''self_attn.kv_a_layernorm.weight'', KvALayernorm),
      (None, ''self_attn.kv_b_proj.weight'', KvBProj),
      (None, ''self_attn.o_proj.weight'', OProj),
      (None, ''self_attn.indexer.wq_b.weight'', IndexWqB),
      (None, ''self_attn.indexer.wk.weight'', IndexWk),
      (None, ''self_attn.indexer.weights_proj.weight'', IndexWeightsProj),
      (None, ''self_attn.indexer.k_norm.weight'', IndexKNormW),
      (None, ''self_attn.indexer.k_norm.bias'', IndexKNormB),
      (Some False, ''mlp.gate_proj.weight'', MlpGate),
      (Some False, ''mlp.up_proj.weight'', MlpUp),
      (Some False, ''mlp.down_proj.weight'', MlpDown),
      (Some True, ''mlp.gate.weight'', MlpGate),
      (Some True, ''mlp.gate.e_score_correction_bias'', GateBias),
      (Some True, ''mlp.shared_experts.gate_proj.weight'', SharedGateProj),
      (Some True, ''mlp.shared_experts.up_proj.weight'', SharedUpProj),
      (Some True, ''mlp.shared_experts.down_proj.weight'', SharedDownProj)]"

fun first_match :: "(bool option \<times> string \<times> 's) list \<Rightarrow> bool \<Rightarrow> string \<Rightarrow> 's option" where
  "first_match [] moe name = None"
| "first_match ((g, pat, s) # ps) moe name =
     (if (g = None \<or> g = Some moe) \<and> str_contains pat name then Some s else first_match ps moe name)"

definition expert_patterns :: "(bool option \<times> string \<times> eslot) list" where
  "expert_patterns = [(None, ''.gate_proj.weight'', GateProj), (None, ''.up_proj.weight'', UpProj),
     (None, ''.down_proj.weight'', DownProj)]"

fun lw_put :: "lslot \<Rightarrow> tensor_location \<Rightarrow> layer_weights \<Rightarrow> layer_weights" where
  "lw_put InputLayernorm loc lw = lw\<lparr>inputLayernorm := loc\<rparr>"
| "lw_put PostAttentionLayernorm loc lw = lw\<lparr>postAttentionLayernorm := loc\<rparr>"
| "lw_put QAProj loc lw = lw\<lparr>qAProj := loc\<rparr>"
| "lw_put QALayernorm loc lw = lw\<lparr>qALayernorm := loc\<rparr>"
| "lw_put QBProj loc lw = lw\<lparr>qBProj := loc\<rparr>"
| "lw_put KvAProjWithMqa loc lw = lw\<lparr>kvAProjWithMqa := loc\<rparr>"
| "lw_put KvALayernorm loc lw = lw\<lparr>kvALayernorm := loc\<rparr>"
| "lw_put KvBProj loc lw = lw\<lparr>kvBProj := loc\<rparr>"
| "lw_put OProj loc lw = lw\<lparr>oProj := loc\<rparr>"
| "lw_put IndexWqB loc lw = lw\<lparr>indexWqB := loc\<rparr>"
| "lw_put IndexWk loc lw = lw\<lparr>indexWk := loc\<rparr>"
| "lw_put IndexWeightsProj loc lw = lw\<lparr>indexWeightsProj := loc\<rparr>"
| "lw_put IndexKNormW loc lw = lw\<lparr>indexKNormW := loc\<rparr>"
| "lw_put IndexKNormB loc lw = lw\<lparr>indexKNormB := loc\<rparr>"
| "lw_put MlpGate loc lw = lw\<lparr>mlpGate := loc\<rparr>"
| "lw_put MlpUp loc lw = lw\<lparr>mlpUp := loc\<rparr>"
| "lw_put MlpDown loc lw = lw\<lparr>mlpDown := loc\<rparr>"
| "lw_put GateBias loc lw = lw\<lparr>gateBias := loc\<rparr>"
| "lw_put SharedGateProj loc lw = lw\<lparr>sharedGateProj := loc\<rparr>"
| "lw_put SharedUpProj loc lw = lw\<lparr>sharedUpProj := loc\<rparr>"
| "lw_put SharedDownProj loc lw = lw\<lparr>sharedDownProj := loc\<rparr>"

fun ew_put :: "eslot \<Rightarrow> tensor_location \<Rightarrow> expert_weights \<Rightarrow> expert_weights" where
  "ew_put GateProj loc e = e\<lparr>gateProj := loc\<rparr>"
| "ew_put UpProj loc e = e\<lparr>upProj := loc\<rparr>"
| "ew_put DownProj loc e = e\<lparr>downProj := loc\<rparr>"

definition wi_put_layer :: "string \<Rightarrow> nat \<Rightarrow> tensor_location \<Rightarrow> weight_index \<Rightarrow> weight_index" where
  "wi_put_layer name l loc w =
     (let lw = wi_layers w ! l in
      case first_match layer_patterns (isMoe lw) name of
        Some s \<Rightarrow> w\<lparr>wi_layers := (wi_layers w)[l := lw_put s loc lw]\<rparr>
      | None \<Rightarrow>
          if isMoe lw \<and> str_contains ''mlp.experts.'' name then
            let eid = extractExpertNum name in
            if 0 \<le> eid \<and> eid < numLocalExperts (wi_config w) then
              (case first_match expert_patterns True name of
                 Some s \<Rightarrow>
                   let row = routedExperts w ! l; e = nat eid in
                   w\<lparr>routedExperts := (routedExperts w)[l := row[e := ew_put s loc (row ! e)]]\<rparr>
               | None \<Rightarrow> w)
            else w
          else w)"

text \<open>The index and the two locals of the loops: the MTP layer numbers seen and \<open>sawMtpHead\<close>.\<close>

type_synonym build_state = "weight_index \<times> int set \<times> bool"

definition noteBaseLayer :: "string \<Rightarrow> weight_index \<Rightarrow> weight_index" where
  "noteBaseLayer name w =
     (if take (length ''model.layers.'') name = ''model.layers.'' \<and> maxSeenBaseLayer w < extractLayerNum name
      then w\<lparr>maxSeenBaseLayer := extractLayerNum name\<rparr> else w)"

definition isMtpName :: "string \<Rightarrow> bool" where
  "isMtpName name \<longleftrightarrow> 0 \<le> extractMtpLayerNum name \<or> str_contains ''nextn_predict_head'' name \<or>
     str_contains ''mtp_head'' name"

definition wi_put :: "string \<Rightarrow> tensor_location \<Rightarrow> build_state \<Rightarrow> build_state" where
  "wi_put name loc st =
     (case st of (w0, seen, sawHead) \<Rightarrow>
      let w = noteBaseLayer name w0; layer = extractLayerNum name in
      if name = ''model.embed_tokens.weight'' then (w\<lparr>embedTokens := loc\<rparr>, seen, sawHead)
      else if name = ''lm_head.weight'' then (w\<lparr>lmHead := loc\<rparr>, seen, sawHead)
      else if name = ''model.norm.weight'' then (w\<lparr>finalNorm := loc\<rparr>, seen, sawHead)
      else if isMtpName name then
        (w\<lparr>hasMtpTensors := True\<rparr>,
         (if 0 \<le> extractMtpLayerNum name then insert (extractMtpLayerNum name) seen else seen),
         sawHead \<or> str_contains ''nextn_predict_head'' name \<or> str_contains ''mtp_head'' name \<or>
           str_contains ''mtp.dense_with_embedding'' name)
      else if 0 \<le> layer \<and> layer < numLayers (wi_config w) then (wi_put_layer name (nat layer) loc w, seen, sawHead)
      else (w, seen, sawHead))"

subsection \<open>Building the index\<close>

text \<open>\<open>std::filesystem::path\<close>: the last component, and its extension with the dot.\<close>

definition path_filename :: "string \<Rightarrow> string" where
  "path_filename p = rev (takeWhile (\<lambda>c. c \<noteq> CHR ''/'') (rev p))"

definition path_extension :: "string \<Rightarrow> string" where
  "path_extension p =
     (let f = path_filename p; e = rev (takeWhile (\<lambda>c. c \<noteq> CHR ''.'') (rev f)) in
      if CHR ''.'' \<notin> set f \<or> f = ''..'' \<or> length f = length e + 1 then [] else CHR ''.'' # e)"

text \<open>
  The surroundings: what the paths of the directory hold, the parser, the machine's conversions,
  whether a file can be mapped, and the order in which a hash map with these keys iterates.
\<close>

record wi_env =
  env_listing :: "string \<Rightarrow> string list option"
  env_file :: "string \<Rightarrow> bytes option"
  env_parse :: json_parser
  env_conv :: fp_conv
  env_mapOk :: "string \<Rightarrow> bool"
  env_order :: "string set \<Rightarrow> string list"

fun json_string_members :: "json_object \<Rightarrow> (string \<rightharpoonup> string) \<Rightarrow> (string \<rightharpoonup> string)" where
  "json_string_members [] r = r"
| "json_string_members ((k, v) # es) r =
     json_string_members es (case v of JString s \<Rightarrow> r(k \<mapsto> s) | _ \<Rightarrow> r)"

definition parseIndexJson :: "wi_env \<Rightarrow> string \<Rightarrow> string \<rightharpoonup> string" where
  "parseIndexJson env path =
     (case env_file env path of
        None \<Rightarrow> Map.empty
      | Some content \<Rightarrow>
          (case env_parse env (byte_chars content) of
             Some (JObject rootObj) \<Rightarrow>
               (case obj_find ''weight_map'' rootObj of
                  Some (JObject wm) \<Rightarrow> json_string_members wm Map.empty
                | _ \<Rightarrow> Map.empty)
           | _ \<Rightarrow> Map.empty))"

text \<open>
  \<open>st.open\<close> on a fresh object; the outer \<^const>\<open>None\<close> is its uncaught exception, the inner one a
  shard that is skipped.
\<close>

definition open_shard :: "wi_env \<Rightarrow> string \<Rightarrow> safetensors option option" where
  "open_shard env path =
     (case st_open (env_parse env) (env_conv env) (env_mapOk env path) (env_file env path) strictStOpts
             SafeTensorsFile of
        None \<Rightarrow> None
      | Some (ok, st) \<Rightarrow> Some (if ok then Some st else None))"

definition tensor_loc :: "string \<Rightarrow> safetensors \<Rightarrow> tensor_info \<Rightarrow> tensor_location" where
  "tensor_loc path st info = \<lparr>shardPath = path, byteOffset = st_headerSize st + ti_begin info,
     byteSize = ti_byteSize info, tl_shape = ti_shape info, tl_dtype = ti_dtype info\<rparr>"

fun put_tensors :: "string \<Rightarrow> safetensors \<Rightarrow> string list \<Rightarrow> build_state \<Rightarrow> build_state" where
  "put_tensors path st [] acc = acc"
| "put_tensors path st (name # names) acc =
     (case st_find name st of
        None \<Rightarrow> put_tensors path st names acc
      | Some info \<Rightarrow> put_tensors path st names (wi_put name (tensor_loc path st info) acc))"

fun shardNameToPath :: "string list \<Rightarrow> string \<rightharpoonup> string" where
  "shardNameToPath [] = Map.empty"
| "shardNameToPath (p # ps) = [path_filename p \<mapsto> p] ++ shardNameToPath ps"

text \<open>The loop over the shards the index names, and the fallback over the shards of the directory.\<close>

fun indexed_shards :: "wi_env \<Rightarrow> (string \<rightharpoonup> string) \<Rightarrow> (string \<rightharpoonup> string) \<Rightarrow> string list \<Rightarrow> build_state \<Rightarrow>
    build_state option" where
  "indexed_shards env index paths [] acc = Some acc"
| "indexed_shards env index paths (shardName # names) acc =
     (case paths shardName of
        None \<Rightarrow> indexed_shards env index paths names acc
      | Some path \<Rightarrow>
          (case open_shard env path of
             None \<Rightarrow> None
           | Some None \<Rightarrow> indexed_shards env index paths names acc
           | Some (Some st) \<Rightarrow>
               indexed_shards env index paths names
                 (put_tensors path st (filter (\<lambda>t. index t = Some shardName) (env_order env (dom index))) acc)))"

fun fallback_shards :: "wi_env \<Rightarrow> string list \<Rightarrow> build_state \<Rightarrow> build_state option" where
  "fallback_shards env [] acc = Some acc"
| "fallback_shards env (path # paths) acc =
     (case open_shard env path of
        None \<Rightarrow> None
      | Some None \<Rightarrow> fallback_shards env paths acc
      | Some (Some st) \<Rightarrow>
          fallback_shards env paths (put_tensors path st (sorted_list_of_set (dom (st_tensors st))) acc))"

text \<open>
  The containers. A negative count makes \<open>resize\<close> throw, \<^const>\<open>None\<close>.
\<close>

definition init_containers :: "weight_index \<Rightarrow> weight_index option" where
  "init_containers w =
     (let c = wi_config w; n = nat (numLayers c) in
      if numLayers c < 0 \<or> (\<exists>i \<in> {..<n}. isMoeLayer c i) \<and> numLocalExperts c < 0 then None
      else Some (w\<lparr>
        wi_layers := map (\<lambda>i. if isMoeLayer c i then LayerWeights\<lparr>isMoe := True\<rparr> else LayerWeights) [0..<n],
        routedExperts := map (\<lambda>i. if isMoeLayer c i then replicate (nat (numLocalExperts c)) ExpertWeights else [])
          [0..<n]\<rparr>))"

definition finish_build :: "build_state \<Rightarrow> weight_index" where
  "finish_build acc = (case acc of (w, seen, head) \<Rightarrow> w\<lparr>mtpTensorLayers := card seen, hasMtpHead := head\<rparr>)"

text \<open>
  \<open>build\<close> on a fresh index. The counting loop that feeds only the log line is left out.
\<close>

definition wi_build :: "wi_env \<Rightarrow> string \<Rightarrow> (bool \<times> weight_index) option" where
  "wi_build env dir =
     (let w = WeightIndex\<lparr>modelDir := dir\<rparr> in
      case loadFromFile (\<lambda>p. map_option byte_chars (env_file env p)) (env_parse env) (env_conv env)
             (dir @ ''/config.json'') (wi_config w) of
        (False, c) \<Rightarrow> Some (False, w\<lparr>wi_config := c\<rparr>)
      | (True, c) \<Rightarrow>
          (case env_listing env dir of
             None \<Rightarrow> None
           | Some entries \<Rightarrow>
               let files = sort (filter (\<lambda>p. path_extension p = ''.safetensors'') entries);
                   w = w\<lparr>wi_config := c, shardFiles := files\<rparr> in
               if files = [] then Some (False, w)
               else (case init_containers w of
                   None \<Rightarrow> None
                 | Some w \<Rightarrow>
                     let index = parseIndexJson env (dir @ ''/model.safetensors.index.json'') in
                     map_option (\<lambda>acc. (True, finish_build acc))
                       (if index \<noteq> Map.empty
                        then indexed_shards env index (shardNameToPath files) (env_order env (ran index)) (w, {}, False)
                        else fallback_shards env files (w, {}, False)))))"

text \<open>The cached view of a shard: the pointer (null is 0), the index, and the calls made.\<close>

definition getShardView :: "posix_env \<Rightarrow> string \<Rightarrow> weight_index \<Rightarrow> u64 \<times> weight_index \<times> os_call list" where
  "getShardView env path w =
     (case mmapCache w path of
        Some mf \<Rightarrow> (mf_mappedData mf, w, [])
      | None \<Rightarrow>
          (case mf_openAll env path MappedFile of
             (False, mf, calls) \<Rightarrow> (0, w, calls @ snd (mf_close mf))
           | (True, mf, calls) \<Rightarrow> (mf_mappedData mf, w\<lparr>mmapCache := (mmapCache w)(path \<mapsto> mf)\<rparr>, calls)))"

subsection \<open>Slots\<close>

text \<open>
  The specification side: a slot of the index, what it holds, and the slot a tensor name is for.
\<close>

datatype tslot = TEmbed | TLmHead | TFinalNorm | TLayer nat lslot | TExpert nat nat eslot

fun lw_get :: "lslot \<Rightarrow> layer_weights \<Rightarrow> tensor_location" where
  "lw_get InputLayernorm lw = inputLayernorm lw"
| "lw_get PostAttentionLayernorm lw = postAttentionLayernorm lw"
| "lw_get QAProj lw = qAProj lw"
| "lw_get QALayernorm lw = qALayernorm lw"
| "lw_get QBProj lw = qBProj lw"
| "lw_get KvAProjWithMqa lw = kvAProjWithMqa lw"
| "lw_get KvALayernorm lw = kvALayernorm lw"
| "lw_get KvBProj lw = kvBProj lw"
| "lw_get OProj lw = oProj lw"
| "lw_get IndexWqB lw = indexWqB lw"
| "lw_get IndexWk lw = indexWk lw"
| "lw_get IndexWeightsProj lw = indexWeightsProj lw"
| "lw_get IndexKNormW lw = indexKNormW lw"
| "lw_get IndexKNormB lw = indexKNormB lw"
| "lw_get MlpGate lw = mlpGate lw"
| "lw_get MlpUp lw = mlpUp lw"
| "lw_get MlpDown lw = mlpDown lw"
| "lw_get GateBias lw = gateBias lw"
| "lw_get SharedGateProj lw = sharedGateProj lw"
| "lw_get SharedUpProj lw = sharedUpProj lw"
| "lw_get SharedDownProj lw = sharedDownProj lw"

fun ew_get :: "eslot \<Rightarrow> expert_weights \<Rightarrow> tensor_location" where
  "ew_get GateProj e = gateProj e"
| "ew_get UpProj e = upProj e"
| "ew_get DownProj e = downProj e"

fun wi_get :: "tslot \<Rightarrow> weight_index \<Rightarrow> tensor_location" where
  "wi_get TEmbed w = embedTokens w"
| "wi_get TLmHead w = lmHead w"
| "wi_get TFinalNorm w = finalNorm w"
| "wi_get (TLayer l s) w = lw_get s (wi_layers w ! l)"
| "wi_get (TExpert l e s) w = ew_get s (routedExperts w ! l ! e)"

fun valid_slot :: "model_config \<Rightarrow> tslot \<Rightarrow> bool" where
  "valid_slot c (TLayer l s) \<longleftrightarrow> int l < numLayers c"
| "valid_slot c (TExpert l e s) \<longleftrightarrow> int l < numLayers c \<and> isMoeLayer c l \<and> int e < numLocalExperts c"
| "valid_slot c _ \<longleftrightarrow> True"

definition layer_slot_of :: "model_config \<Rightarrow> nat \<Rightarrow> string \<Rightarrow> tslot option" where
  "layer_slot_of c l name =
     (case first_match layer_patterns (isMoeLayer c l) name of
        Some s \<Rightarrow> Some (TLayer l s)
      | None \<Rightarrow>
          if isMoeLayer c l \<and> str_contains ''mlp.experts.'' name \<and>
             0 \<le> extractExpertNum name \<and> extractExpertNum name < numLocalExperts c
          then map_option (TExpert l (nat (extractExpertNum name))) (first_match expert_patterns True name)
          else None)"

definition slot_of :: "model_config \<Rightarrow> string \<Rightarrow> tslot option" where
  "slot_of c name =
     (if name = ''model.embed_tokens.weight'' then Some TEmbed
      else if name = ''lm_head.weight'' then Some TLmHead
      else if name = ''model.norm.weight'' then Some TFinalNorm
      else if isMtpName name then None
      else if 0 \<le> extractLayerNum name \<and> extractLayerNum name < numLayers c
        then layer_slot_of c (nat (extractLayerNum name)) name
      else None)"

definition wi_ok :: "model_config \<Rightarrow> weight_index \<Rightarrow> bool" where
  "wi_ok c w \<longleftrightarrow> wi_config w = c \<and> length (wi_layers w) = nat (numLayers c) \<and>
     length (routedExperts w) = nat (numLayers c) \<and>
     (\<forall>l < nat (numLayers c). isMoe (wi_layers w ! l) = isMoeLayer c l \<and>
        length (routedExperts w ! l) = (if isMoeLayer c l then nat (numLocalExperts c) else 0))"

lemma lw_get_put [simp]: "lw_get s (lw_put s' loc lw) = (if s = s' then loc else lw_get s lw)"
  by (cases s'; cases s) simp_all

lemma isMoe_put [simp]: "isMoe (lw_put s loc lw) = isMoe lw"
  by (cases s) simp_all

lemma ew_get_put [simp]: "ew_get s (ew_put s' loc e) = (if s = s' then loc else ew_get s e)"
  by (cases s'; cases s) simp_all

lemma lw_get_fresh [simp]: "lw_get s LayerWeights = TensorLocation" "lw_get s (LayerWeights\<lparr>isMoe := b\<rparr>) = TensorLocation"
  by (cases s; simp add: LayerWeights_def)+

lemma ew_get_fresh [simp]: "ew_get s ExpertWeights = TensorLocation"
  by (cases s) (simp_all add: ExpertWeights_def)

lemma wi_okD:
  assumes "wi_ok c w"
  shows "wi_config w = c" "length (wi_layers w) = nat (numLayers c)"
    "length (routedExperts w) = nat (numLayers c)"
    "l < nat (numLayers c) \<Longrightarrow> isMoe (wi_layers w ! l) = isMoeLayer c l"
    "l < nat (numLayers c) \<Longrightarrow> length (routedExperts w ! l) = (if isMoeLayer c l then nat (numLocalExperts c) else 0)"
  using assms by (simp_all add: wi_ok_def)

text \<open>A store step: the shape is kept, and of the valid slots exactly the named one changes.\<close>

definition stores :: "model_config \<Rightarrow> tslot option \<Rightarrow> tensor_location \<Rightarrow> weight_index \<Rightarrow> weight_index \<Rightarrow> bool" where
  "stores c target loc w w' \<longleftrightarrow> wi_ok c w' \<and>
     (\<forall>s. valid_slot c s \<longrightarrow> wi_get s w' = (if target = Some s then loc else wi_get s w))"

lemma stores_layer:
  assumes "wi_ok c w" "l < nat (numLayers c)"
  shows "stores c (Some (TLayer l s)) loc w (w\<lparr>wi_layers := (wi_layers w)[l := lw_put s loc (wi_layers w ! l)]\<rparr>)"
proof -
  have ok: "wi_ok c (w\<lparr>wi_layers := (wi_layers w)[l := lw_put s loc (wi_layers w ! l)]\<rparr>)"
    using assms by (auto simp: wi_ok_def nth_list_update)
  have "wi_get t (w\<lparr>wi_layers := (wi_layers w)[l := lw_put s loc (wi_layers w ! l)]\<rparr>) =
      (if Some (TLayer l s) = Some t then loc else wi_get t w)" for t
    using assms wi_okD(2) [OF assms(1)] by (cases t) (auto simp: nth_list_update)
  with ok show ?thesis by (simp add: stores_def)
qed

lemma stores_expert:
  assumes "wi_ok c w" "l < nat (numLayers c)" "isMoeLayer c l" "e < nat (numLocalExperts c)"
  shows "stores c (Some (TExpert l e s)) loc w
    (w\<lparr>routedExperts := (routedExperts w)[l := (routedExperts w ! l)[e := ew_put s loc (routedExperts w ! l ! e)]]\<rparr>)"
proof -
  let ?w = "w\<lparr>routedExperts := (routedExperts w)[l := (routedExperts w ! l)[e := ew_put s loc (routedExperts w ! l ! e)]]\<rparr>"
  have ok: "wi_ok c ?w"
    using assms by (auto simp: wi_ok_def nth_list_update)
  have "wi_get t ?w = (if Some (TExpert l e s) = Some t then loc else wi_get t w)" for t
    using assms wi_okD(3) [OF assms(1)] wi_okD(5) [OF assms(1,2)] by (cases t) (auto simp: nth_list_update)
  with ok show ?thesis by (simp add: stores_def)
qed

lemma stores_none: "wi_ok c w \<Longrightarrow> stores c None loc w w"
  by (simp add: stores_def)

lemma stores_put_layer:
  assumes "wi_ok c w" "l < nat (numLayers c)"
  shows "stores c (layer_slot_of c l name) loc w (wi_put_layer name l loc w)"
proof -
  note ok = wi_okD [OF assms(1)] and moe = wi_okD(4) [OF assms]
  show ?thesis
  proof (cases "first_match layer_patterns (isMoeLayer c l) name")
    case (Some s)
    then show ?thesis using stores_layer [OF assms] by (simp add: wi_put_layer_def layer_slot_of_def Let_def moe)
  next
    case None
    note n = this
    let ?e = "extractExpertNum name"
    show ?thesis
    proof (cases "isMoeLayer c l \<and> str_contains ''mlp.experts.'' name \<and> 0 \<le> ?e \<and> ?e < numLocalExperts c")
      case True
      show ?thesis
      proof (cases "first_match expert_patterns True name")
        case None
        then show ?thesis using n True stores_none [OF assms(1)]
          by (simp add: wi_put_layer_def layer_slot_of_def Let_def moe)
      next
        case (Some s)
        have "nat ?e < nat (numLocalExperts c)" using True by simp
        from stores_expert [OF assms _ this] True n Some ok(1) show ?thesis
          by (simp add: wi_put_layer_def layer_slot_of_def Let_def moe)
      qed
    next
      case False
      then show ?thesis using n ok(1) stores_none [OF assms(1)]
        by (auto simp: wi_put_layer_def layer_slot_of_def Let_def moe)
    qed
  qed
qed

lemma noteBaseLayer_ok: "wi_ok c w \<Longrightarrow> wi_ok c (noteBaseLayer name w)"
  by (simp add: noteBaseLayer_def wi_ok_def)

lemma noteBaseLayer_get [simp]: "wi_get s (noteBaseLayer name w) = wi_get s w"
  by (cases s) (simp_all add: noteBaseLayer_def)

lemma stores_put:
  assumes "wi_ok c w"
  shows "stores c (slot_of c name) loc w (fst (wi_put name loc (w, seen, head)))"
proof -
  note ok = noteBaseLayer_ok [OF assms, of name]
  let ?w = "noteBaseLayer name w"
  have bk: "stores c t loc ?w w' \<Longrightarrow> stores c t loc w w'" for t w' by (simp add: stores_def)
  consider (e) "name = ''model.embed_tokens.weight''" | (h) "name = ''lm_head.weight''"
    | (n) "name = ''model.norm.weight''"
    | (m) "name \<notin> {''model.embed_tokens.weight'', ''lm_head.weight'', ''model.norm.weight''}" "isMtpName name"
    | (l) "name \<notin> {''model.embed_tokens.weight'', ''lm_head.weight'', ''model.norm.weight''}" "\<not> isMtpName name"
      "0 \<le> extractLayerNum name" "extractLayerNum name < numLayers c"
    | (o) "name \<notin> {''model.embed_tokens.weight'', ''lm_head.weight'', ''model.norm.weight''}" "\<not> isMtpName name"
      "\<not> (0 \<le> extractLayerNum name \<and> extractLayerNum name < numLayers c)"
    by blast
  then show ?thesis
  proof cases
    case l
    then have "nat (extractLayerNum name) < nat (numLayers c)" by simp
    from bk [OF stores_put_layer [OF ok this]] l wi_okD(1) [OF ok]
    show ?thesis by (simp add: wi_put_def slot_of_def Let_def)
  next
    case o
    then show ?thesis using bk [OF stores_none [OF ok]] wi_okD(1) [OF ok]
      by (auto simp: wi_put_def slot_of_def Let_def)
  next
    case m
    have "wi_get t (?w\<lparr>hasMtpTensors := True\<rparr>) = wi_get t ?w" for t by (cases t) (simp_all del: noteBaseLayer_get)
    then have "stores c None loc ?w (?w\<lparr>hasMtpTensors := True\<rparr>)" using ok by (simp add: stores_def wi_ok_def)
    from bk [OF this] m show ?thesis by (simp add: wi_put_def slot_of_def Let_def)
  next
    case e
    have "wi_get t (?w\<lparr>embedTokens := loc\<rparr>) = (if TEmbed = t then loc else wi_get t ?w)" for t by (cases t) (simp_all del: noteBaseLayer_get)
    then have "stores c (Some TEmbed) loc ?w (?w\<lparr>embedTokens := loc\<rparr>)" using ok by (simp add: stores_def wi_ok_def)
    from bk [OF this] e show ?thesis by (simp add: wi_put_def slot_of_def Let_def)
  next
    case h
    have "wi_get t (?w\<lparr>lmHead := loc\<rparr>) = (if TLmHead = t then loc else wi_get t ?w)" for t by (cases t) (simp_all del: noteBaseLayer_get)
    then have "stores c (Some TLmHead) loc ?w (?w\<lparr>lmHead := loc\<rparr>)" using ok by (simp add: stores_def wi_ok_def)
    from bk [OF this] h show ?thesis by (simp add: wi_put_def slot_of_def Let_def)
  next
    case n
    have "wi_get t (?w\<lparr>finalNorm := loc\<rparr>) = (if TFinalNorm = t then loc else wi_get t ?w)" for t by (cases t) (simp_all del: noteBaseLayer_get)
    then have "stores c (Some TFinalNorm) loc ?w (?w\<lparr>finalNorm := loc\<rparr>)" using ok by (simp add: stores_def wi_ok_def)
    from bk [OF this] n show ?thesis by (simp add: wi_put_def slot_of_def Let_def)
  qed
qed

subsection \<open>What a build visits\<close>

text \<open>
  The tensors a build puts, in order, as a list: a slot then holds what the last tensor for it put.
\<close>

definition shard_visits :: "string \<Rightarrow> safetensors \<Rightarrow> string list \<Rightarrow> (string \<times> tensor_location) list" where
  "shard_visits path st names =
     List.map_filter (\<lambda>name. map_option (\<lambda>info. (name, tensor_loc path st info)) (st_find name st)) names"

definition put_all :: "(string \<times> tensor_location) list \<Rightarrow> build_state \<Rightarrow> build_state" where
  "put_all vs acc = fold (\<lambda>(name, loc). wi_put name loc) vs acc"

definition last_visit :: "model_config \<Rightarrow> tslot \<Rightarrow> (string \<times> tensor_location) list \<Rightarrow> tensor_location \<Rightarrow> tensor_location" where
  "last_visit c s vs old = fold (\<lambda>(name, loc) x. if slot_of c name = Some s then loc else x) vs old"

fun shards_visits :: "wi_env \<Rightarrow> (string \<Rightarrow> string option) \<Rightarrow> (string \<Rightarrow> safetensors \<Rightarrow> string list) \<Rightarrow> string list \<Rightarrow>
    (string \<times> tensor_location) list option" where
  "shards_visits env path names [] = Some []"
| "shards_visits env path names (k # ks) =
     (case path k of
        None \<Rightarrow> shards_visits env path names ks
      | Some p \<Rightarrow>
          (case open_shard env p of
             None \<Rightarrow> None
           | Some None \<Rightarrow> shards_visits env path names ks
           | Some (Some st) \<Rightarrow> map_option ((@) (shard_visits p st (names k st))) (shards_visits env path names ks)))"

lemma put_tensors_visits: "put_tensors path st names acc = put_all (shard_visits path st names) acc"
  by (induction path st names acc rule: put_tensors.induct)
    (auto simp: put_all_def shard_visits_def map_filter_simps split: option.splits)

lemma put_all_append: "put_all (xs @ ys) acc = put_all ys (put_all xs acc)"
  by (simp add: put_all_def)

lemma indexed_visits:
  "indexed_shards env index paths ks acc =
     map_option (\<lambda>vs. put_all vs acc)
       (shards_visits env paths (\<lambda>k st. filter (\<lambda>t. index t = Some k) (env_order env (dom index))) ks)"
proof (induction ks arbitrary: acc)
  case (Cons k ks)
  then show ?case
    by (auto simp: put_tensors_visits put_all_append option.map_comp comp_def split: option.splits)
qed (simp add: put_all_def)

lemma fallback_visits:
  "fallback_shards env ks acc =
     map_option (\<lambda>vs. put_all vs acc) (shards_visits env Some (\<lambda>k st. sorted_list_of_set (dom (st_tensors st))) ks)"
proof (induction ks arbitrary: acc)
  case (Cons k ks)
  then show ?case
    by (auto simp: put_tensors_visits put_all_append option.map_comp comp_def split: option.splits)
qed (simp add: put_all_def)

lemma put_all_slots:
  assumes "wi_ok c (fst acc)"
  shows "wi_ok c (fst (put_all vs acc)) \<and>
    (\<forall>s. valid_slot c s \<longrightarrow> wi_get s (fst (put_all vs acc)) = last_visit c s vs (wi_get s (fst acc)))"
  using assms
proof (induction vs arbitrary: acc)
  case Nil
  then show ?case by (simp add: put_all_def last_visit_def)
next
  case (Cons v vs)
  obtain name loc where v: "v = (name, loc)" by (cases v)
  obtain w seen head where a: "acc = (w, seen, head)" by (cases acc)
  have st: "stores c (slot_of c name) loc w (fst (wi_put name loc acc))"
    using stores_put [of c w name loc seen head] Cons.prems by (simp add: a)
  then have "wi_ok c (fst (wi_put name loc acc))" by (simp add: stores_def)
  from Cons.IH [OF this] st show ?case
    by (auto simp: v a put_all_def last_visit_def stores_def)
qed

lemma shards_visits_origin:
  assumes "shards_visits env path names ks = Some vs" "(name, loc) \<in> set vs"
  shows "\<exists>k \<in> set ks. \<exists>p st info. path k = Some p \<and> open_shard env p = Some (Some st) \<and>
    name \<in> set (names k st) \<and> st_find name st = Some info \<and> loc = tensor_loc p st info"
  using assms
proof (induction ks arbitrary: vs)
  case (Cons k ks)
  show ?case
  proof (cases "\<exists>p st. path k = Some p \<and> open_shard env p = Some (Some st)")
    case False
    with Cons.prems(1) have "shards_visits env path names ks = Some vs" by (auto split: option.splits)
    from Cons.IH [OF this Cons.prems(2)] show ?thesis by auto
  next
    case True
    then obtain p st where p: "path k = Some p" "open_shard env p = Some (Some st)" by blast
    with Cons.prems(1) obtain vs' where vs': "shards_visits env path names ks = Some vs'"
      and vs: "vs = shard_visits p st (names k st) @ vs'" by auto
    show ?thesis
    proof (cases "(name, loc) \<in> set vs'")
      case True
      from Cons.IH [OF vs' this] show ?thesis by auto
    next
      case False
      then have "(name, loc) \<in> set (shard_visits p st (names k st))" using Cons.prems(2) vs by auto
      then have "name \<in> set (names k st) \<and> (\<exists>info. st_find name st = Some info \<and> loc = tensor_loc p st info)"
        by (auto simp: shard_visits_def map_filter_def)
      with p show ?thesis by auto
    qed
  qed
qed simp

lemma shards_visits_complete:
  assumes "shards_visits env path names ks = Some vs" "k \<in> set ks" "path k = Some p"
    "open_shard env p = Some (Some st)" "name \<in> set (names k st)" "st_find name st = Some info"
  shows "(name, tensor_loc p st info) \<in> set vs"
  using assms
proof (induction ks arbitrary: vs)
  case (Cons k' ks)
  show ?case
  proof (cases "k' = k")
    case True
    with Cons.prems obtain vs' where "vs = shard_visits p st (names k st) @ vs'" by auto
    then show ?thesis using Cons.prems(5,6) by (force simp: shard_visits_def map_filter_def)
  next
    case False
    from Cons.prems(1) obtain vs' pre where "shards_visits env path names ks = Some vs'" "vs = pre @ vs'"
      by (auto split: option.splits)
    with Cons.IH False Cons.prems show ?thesis by simp
  qed
qed simp

lemma last_visit_cases:
  "last_visit c s vs old = old \<and> (\<forall>name loc. (name, loc) \<in> set vs \<longrightarrow> slot_of c name \<noteq> Some s) \<or>
   (\<exists>name. (name, last_visit c s vs old) \<in> set vs \<and> slot_of c name = Some s)"
proof (induction vs rule: rev_induct)
  case (snoc v vs)
  obtain name loc where v: "v = (name, loc)" by (cases v)
  have e: "last_visit c s (vs @ [v]) old = (if slot_of c name = Some s then loc else last_visit c s vs old)"
    by (simp add: last_visit_def v)
  show ?case
  proof (cases "slot_of c name = Some s")
    case True
    then show ?thesis using e by (auto simp: v)
  next
    case False
    then show ?thesis using snoc.IH e by (auto simp: v)
  qed
qed (simp add: last_visit_def)

subsection \<open>A finished build\<close>

lemma finish_build_get [simp]: "wi_get s (finish_build acc) = wi_get s (fst acc)"
  by (cases s; cases acc) (simp_all add: finish_build_def)

lemma finish_build_fields [simp]:
  "wi_config (finish_build acc) = wi_config (fst acc)" "shardFiles (finish_build acc) = shardFiles (fst acc)"
  by (cases acc; simp add: finish_build_def)+

lemma init_containers_ok:
  assumes "init_containers w = Some w'"
  shows "wi_ok (wi_config w) w'" "shardFiles w' = shardFiles w"
    "valid_slot (wi_config w) s \<Longrightarrow>
      embedTokens w = TensorLocation \<Longrightarrow> lmHead w = TensorLocation \<Longrightarrow> finalNorm w = TensorLocation \<Longrightarrow>
      wi_get s w' = TensorLocation"
proof -
  let ?c = "wi_config w"
  have w': "w' = w\<lparr>
        wi_layers := map (\<lambda>i. if isMoeLayer ?c i then LayerWeights\<lparr>isMoe := True\<rparr> else LayerWeights) [0..<nat (numLayers ?c)],
        routedExperts := map (\<lambda>i. if isMoeLayer ?c i then replicate (nat (numLocalExperts ?c)) ExpertWeights else [])
          [0..<nat (numLayers ?c)]\<rparr>"
    using assms by (auto simp: init_containers_def Let_def split: if_splits)
  show "wi_ok ?c w'" "shardFiles w' = shardFiles w" by (simp_all add: w' wi_ok_def LayerWeights_def)
  show "wi_get s w' = TensorLocation" if "valid_slot ?c s" "embedTokens w = TensorLocation"
    "lmHead w = TensorLocation" "finalNorm w = TensorLocation"
    using that by (cases s) (auto simp: w' zless_nat_eq_int_zless)
qed

lemma put_all_files: "shardFiles (fst (put_all vs acc)) = shardFiles (fst acc)"
proof (induction vs arbitrary: acc)
  case (Cons v vs)
  have "shardFiles (fst (wi_put name loc a)) = shardFiles (fst a)" for name loc a
    by (cases a) (simp add: wi_put_def wi_put_layer_def noteBaseLayer_def Let_def split: option.splits)
  then show ?case using Cons by (cases v) (simp add: put_all_def)
qed (simp add: put_all_def)

lemma shardNameToPath_mem: "shardNameToPath files k = Some p \<Longrightarrow> p \<in> set files \<and> path_filename p = k"
  by (induction files) (auto simp: map_add_def split: option.splits if_splits)

lemma wi_build_cases:
  assumes "wi_build env dir = Some (True, w)"
  obtains w0 path names ks vs where
    "shards_visits env path names ks = Some vs" "w = finish_build (put_all vs (w0, {}, False))"
    "wi_ok (wi_config w) w0" "\<And>s. valid_slot (wi_config w) s \<Longrightarrow> wi_get s w0 = TensorLocation"
    "\<And>k p. k \<in> set ks \<Longrightarrow> path k = Some p \<Longrightarrow> p \<in> set (shardFiles w)"
proof -
  let ?w = "WeightIndex\<lparr>modelDir := dir\<rparr>"
  obtain c where load: "loadFromFile (\<lambda>p. map_option byte_chars (env_file env p)) (env_parse env) (env_conv env)
      (dir @ ''/config.json'') (wi_config ?w) = (True, c)"
    using assms by (auto simp: wi_build_def Let_def split: prod.splits bool.splits)
  obtain entries where dirl: "env_listing env dir = Some entries"
    using assms load by (auto simp: wi_build_def Let_def split: option.splits)
  define files where "files = sort (filter (\<lambda>p. path_extension p = ''.safetensors'') entries)"
  define w1 where "w1 = ?w\<lparr>wi_config := c, shardFiles := files\<rparr>"
  note b = assms [unfolded wi_build_def Let_def, simplified load dirl prod.case bool.case option.case, folded files_def,
      folded w1_def]
  have ne: "files \<noteq> []" using b by (auto split: if_splits)
  then obtain w0 where w0: "init_containers w1 = Some w0" using b by (auto split: option.splits if_splits)
  let ?index = "parseIndexJson env (dir @ ''/model.safetensors.index.json'')"
  note b2 = b [unfolded w0 option.case if_not_P [OF ne]]
  have w1: "wi_config w1 = c" "shardFiles w1 = files" "embedTokens w1 = TensorLocation"
    "lmHead w1 = TensorLocation" "finalNorm w1 = TensorLocation"
    by (simp_all add: w1_def WeightIndex_def)
  note ic = init_containers_ok [OF w0]
  have loop: "\<exists>path names ks vs. shards_visits env path names ks = Some vs \<and>
      w = finish_build (put_all vs (w0, {}, False)) \<and> (\<forall>k \<in> set ks. \<forall>p. path k = Some p \<longrightarrow> p \<in> set files)"
  proof (cases "?index = Map.empty")
    case True
    with b2 obtain vs where "shards_visits env Some (\<lambda>k st. sorted_list_of_set (dom (st_tensors st))) files = Some vs"
      "w = finish_build (put_all vs (w0, {}, False))" by (auto simp: fallback_visits)
    then show ?thesis by (intro exI [of _ Some] exI [of _ "\<lambda>k st. sorted_list_of_set (dom (st_tensors st))"] exI [of _ files] exI [of _ vs]) auto
  next
    case False
    let ?names = "\<lambda>k (st :: safetensors). filter (\<lambda>t. ?index t = Some k) (env_order env (dom ?index))"
    from False b2 obtain vs where
      "shards_visits env (shardNameToPath files) ?names (env_order env (ran ?index)) = Some vs"
      "w = finish_build (put_all vs (w0, {}, False))" by (auto simp: indexed_visits)
    then show ?thesis using shardNameToPath_mem
      by (intro exI [of _ "shardNameToPath files"] exI [of _ ?names] exI [of _ "env_order env (ran ?index)"] exI [of _ vs]) auto
  qed
  then obtain path names ks vs where l: "shards_visits env path names ks = Some vs"
    "w = finish_build (put_all vs (w0, {}, False))" "\<And>k p. k \<in> set ks \<Longrightarrow> path k = Some p \<Longrightarrow> p \<in> set files" by blast
  have ok0: "wi_ok c w0" using ic(1) w1(1) by simp
  then have "wi_ok c (fst (put_all vs (w0, {}, False)))" using put_all_slots [of c "(w0, {}, False)" vs] by simp
  then have wc: "wi_config w = c" using l(2) by (simp add: wi_okD(1))
  show thesis
  proof (rule that [OF l(1,2)])
    show "wi_ok (wi_config w) w0" using ok0 wc by simp
    show "wi_get s w0 = TensorLocation" if "valid_slot (wi_config w) s" for s
      using ic(3) [of s] that w1 wc by simp
    show "p \<in> set (shardFiles w)" if "k \<in> set ks" "path k = Some p" for k p
      using l(3) [OF that] ic(2) w1(2) by (simp add: l(2) put_all_files)
  qed
qed

lemma open_shard_opened:
  assumes "open_shard env p = Some (Some st)"
  obtains content where "env_file env p = Some content"
    "st_open (env_parse env) (env_conv env) (env_mapOk env p) (Some content) strictStOpts SafeTensorsFile = Some (True, st)"
proof -
  have "st_open (env_parse env) (env_conv env) (env_mapOk env p) (env_file env p) strictStOpts SafeTensorsFile = Some (True, st)"
    using assms by (auto simp: open_shard_def split: option.splits prod.splits if_splits)
  moreover from this obtain content where "env_file env p = Some content"
    by (auto simp: st_open_def split: option.splits)
  ultimately show thesis using that by simp
qed

subsection \<open>Properties\<close>

lemma tensor_loc_nat:
  assumes "tensor_ok strictStOpts H F name i" "unat F < 2 ^ 63" "H \<le> F"
  shows "(H + ti_begin i) mod 8 = 0"
    "unat (ti_end i) < 2 ^ 63 \<Longrightarrow> unat (H + ti_begin i) + unat (ti_byteSize i) \<le> unat F \<and> 0 < unat (ti_byteSize i)"
proof -
  show "(H + ti_begin i) mod 8 = 0"
    using assms(1) by (simp add: tensor_ok_def strictStOpts_def)
  assume e: "unat (ti_end i) < 2 ^ 63"
  show "unat (H + ti_begin i) + unat (ti_byteSize i) \<le> unat F \<and> 0 < unat (ti_byteSize i)"
    using accepted_nat [OF assms e] by linarith
qed



subsection \<open>A one-tensor checkpoint\<close>

definition head_entry :: json_object where
  "head_entry = [(''dtype'', JString ''BF16''), (''shape'', JArray [JNumber 2, JNumber 2]),
     (''data_offsets'', JArray [JNumber 0, JNumber 8])]"

definition head_info :: tensor_info where
  "head_info = \<lparr>ti_name = ''lm_head.weight'', ti_dtype = ''BF16'', ti_shape = [2, 2], ti_begin = 0, ti_end = 8\<rparr>"

definition head_st :: safetensors where
  "head_st = \<lparr>st_tensors = [''lm_head.weight'' \<mapsto> head_info],
     st_stats = SafeTensorsStats\<lparr>st_total := 1, st_accepted := 1\<rparr>,
     st_headerSize = 16, st_fileSize = 24, st_mmap = Some tiny_file\<rparr>"

definition head_env :: wi_env where
  "head_env = \<lparr>env_listing = \<lambda>_. Some [''d/a.safetensors''],
     env_file = \<lambda>p. if p = ''d/a.safetensors'' then Some tiny_file else if p = ''d/config.json'' then Some [] else None,
     env_parse = \<lambda>s. Some (JObject (if s = [] then tiny_config else [(''lm_head.weight'', JObject head_entry)])),
     env_conv = no_conv, env_mapOk = \<lambda>_. True, env_order = sorted_list_of_set\<rparr>"

lemma head_env_order [simp]: "env_order head_env = sorted_list_of_set"
  by (simp add: head_env_def)

lemma head_check: "check_entry no_conv strictStOpts 16 24 Map.empty ''lm_head.weight'' head_entry = Accept False head_info"
proof -
  have sh: "entry_shape no_conv head_entry = Some ([2, 2], 4)"
    by (simp add: entry_shape_def obj_find_def d2i_def rat_trunc_def head_entry_def)
  have of: "entry_offsets no_conv head_entry = Some (0, 8)"
    by (simp add: entry_offsets_def obj_find_def d2u64_def rat_trunc_def head_entry_def)
  have dt: "entry_dtype head_entry = ''BF16''" by (simp add: entry_dtype_def obj_find_def head_entry_def)
  show ?thesis
    unfolding check_entry_def sh of dt
    by (simp add: dtypeByteSize_def knownDtypes_def head_info_def)
qed

lemma head_open: "open_shard head_env ''d/a.safetensors'' = Some (Some head_st)"
proof -
  have le: "le_u64 (take 8 tiny_file) = 8" "length tiny_file = 24" by (simp_all add: tiny_file_def le_u64_def)
  have ne: "byte_chars (take 8 (drop 8 tiny_file)) \<noteq> []" by (simp add: tiny_file_def byte_chars_def)
  have loop: "entries_loop no_conv strictStOpts 16 24 [(''lm_head.weight'', JObject head_entry)] (Map.empty, SafeTensorsStats)
      = ([''lm_head.weight'' \<mapsto> head_info], SafeTensorsStats\<lparr>st_total := 1, st_accepted := 1\<rparr>)"
    by (simp add: head_check count_f32_def) (simp add: SafeTensorsStats_def head_info_def)
  show ?thesis
    using loop ne by (simp add: open_shard_def head_env_def st_open_def Let_def le SafeTensorsFile_def head_st_def strictStOpts_def)
qed

lemma head_put: "wi_put ''lm_head.weight'' loc (w, seen, h) = (w\<lparr>lmHead := loc\<rparr>, seen, h)"
  by (simp add: wi_put_def noteBaseLayer_def)

definition head_loc :: tensor_location where
  "head_loc = tensor_loc ''d/a.safetensors'' head_st head_info"

lemma head_find: "st_find ''lm_head.weight'' head_st = Some head_info" "dom (st_tensors head_st) = {''lm_head.weight''}"
  by (simp_all add: st_find_def head_st_def)

lemma head_fallback:
  "fallback_shards head_env [''d/a.safetensors''] (w, {}, False) = Some (w\<lparr>lmHead := head_loc\<rparr>, {}, False)"
  by (simp add: head_open head_find head_put head_loc_def)

lemma head_build:
  "\<exists>w. wi_build head_env ''d'' = Some (True, w) \<and> lmHead w = head_loc"
proof -
  obtain c where c: "loadFromString (\<lambda>s. Some (JObject tiny_config)) no_conv [] ModelConfig = (True, c)"
    using tiny_config_loads by (metis prod.collapse)
  then have load: "loadFromFile (\<lambda>p. map_option byte_chars (env_file head_env p)) (env_parse head_env) (env_conv head_env)
      (''d'' @ ''/config.json'') ModelConfig = (True, c)"
    by (simp add: loadFromFile_def head_env_def byte_chars_def loadFromString_def)
  have nl: "numLayers c = 12" "numLocalExperts c = 0"
    using c by (auto simp: loadFromString_def Let_def loadTail_def loadMtp_def loadMoe_def loadIndexer_def loadBasic_def
      getInt_def getIntFound_def obj_find_def tiny_config_def d2i_def rat_trunc_def ModelConfig_def)
  have ext: "path_extension ''d/a.safetensors'' = ''.safetensors''" by code_simp
  have idx: "parseIndexJson head_env ''d/model.safetensors.index.json'' = Map.empty"
    by (simp add: parseIndexJson_def head_env_def)
  have dirl: "env_listing head_env ''d'' = Some [''d/a.safetensors'']" by (simp add: head_env_def)
  let ?w = "WeightIndex\<lparr>modelDir := ''d'', wi_config := c, shardFiles := [''d/a.safetensors'']\<rparr>"
  obtain w0 where "init_containers ?w = Some w0" using nl by (simp add: init_containers_def)
  then have "wi_build head_env ''d'' = Some (True, finish_build (w0\<lparr>lmHead := head_loc\<rparr>, {}, False))"
    using load idx by (simp add: wi_build_def dirl ext WeightIndex_def head_fallback del: fallback_shards.simps)
  then show ?thesis by (simp add: finish_build_def)
qed



end
