(* ===== verification/TensorNames.thy ===== *)
theory TensorNames
  imports WeightIndex
begin

text \<open>
  The names GLM checkpoints use and the slots \<open>WeightIndex::build\<close> gives them: the decimal layer and
  expert numbers in a name cannot disturb the substring tests of the dispatch chain, and the chain's
  patterns do not shadow each other.
\<close>

definition layer_name :: "nat \<Rightarrow> string \<Rightarrow> string" where
  "layer_name l pat = ''model.layers.'' @ to_string l @ CHR ''.'' # pat"

definition expert_name :: "nat \<Rightarrow> nat \<Rightarrow> string \<Rightarrow> string" where
  "expert_name l e pat = ''model.layers.'' @ to_string l @ ''.mlp.experts.'' @ to_string e @ pat"

definition mtp_name :: "nat \<Rightarrow> string \<Rightarrow> string" where
  "mtp_name i rest = ''model.nextn_predict_layers.'' @ to_string i @ CHR ''.'' # rest"

subsection \<open>The tests on the parts of a name\<close>

fun first_match_in :: "(bool option \<times> string \<times> 's) list \<Rightarrow> bool \<Rightarrow> string list \<Rightarrow> 's option" where
  "first_match_in [] moe parts = None"
| "first_match_in ((g, pat, s) # ps) moe parts =
     (if (g = None \<or> g = Some moe) \<and> (\<exists>x \<in> set parts. str_contains pat x) then Some s else first_match_in ps moe parts)"

definition plain :: "string \<Rightarrow> bool" where
  "plain pat \<longleftrightarrow> no_digits pat \<and> pat \<noteq> []"

lemma contains_layer_name:
  "plain p \<Longrightarrow> str_contains p (layer_name l pat) \<longleftrightarrow> (\<exists>x \<in> set [''model.layers.'', CHR ''.'' # pat]. str_contains p x)"
  using str_contains_number [of p "''model.layers.''" l "CHR ''.'' # pat"] by (simp add: layer_name_def plain_def)

lemma contains_expert_name:
  assumes "plain p"
  shows "str_contains p (expert_name l e pat) \<longleftrightarrow> (\<exists>x \<in> set [''model.layers.'', ''.mlp.experts.'', pat]. str_contains p x)"
proof -
  have "str_contains p (''model.layers.'' @ to_string l @ (''.mlp.experts.'' @ to_string e @ pat)) \<longleftrightarrow>
      str_contains p ''model.layers.'' \<or> str_contains p (''.mlp.experts.'' @ to_string e @ pat)"
    using assms by (intro str_contains_number) (simp_all add: plain_def)
  moreover have "str_contains p (''.mlp.experts.'' @ to_string e @ pat) \<longleftrightarrow>
      str_contains p ''.mlp.experts.'' \<or> str_contains p pat"
    using assms by (intro str_contains_number) (simp_all add: plain_def)
  ultimately show ?thesis by (simp add: expert_name_def)
qed

lemma first_match_parts:
  assumes "\<And>p. plain p \<Longrightarrow> str_contains p name \<longleftrightarrow> (\<exists>x \<in> set parts. str_contains p x)"
  shows "list_all (\<lambda>(g, p, s). plain p) ps \<Longrightarrow> first_match ps moe name = first_match_in ps moe parts"
  by (induction ps) (use assms in auto)

lemma patterns_plain:
  "list_all (\<lambda>(g, p, s). plain p) layer_patterns" "list_all (\<lambda>(g, p, s). plain p) expert_patterns"
  by code_simp+

text \<open>No pattern shadows a later one on the name made from it, by evaluation of the whole table.\<close>

lemma layer_patterns_separate:
  "list_all (\<lambda>(g, pat, s). (g = Some False \<or>
      first_match_in layer_patterns True [''model.layers.'', CHR ''.'' # pat] = Some s) \<and>
      (g = Some True \<or> first_match_in layer_patterns False [''model.layers.'', CHR ''.'' # pat] = Some s)) layer_patterns"
  by code_simp

lemma expert_patterns_separate:
  "list_all (\<lambda>(g, pat, s).
      first_match_in layer_patterns True [''model.layers.'', ''.mlp.experts.'', pat] = None \<and>
      first_match_in expert_patterns True [''model.layers.'', ''.mlp.experts.'', pat] = Some s) expert_patterns"
  by code_simp

lemma mtp_patterns_absent:
  "list_all (\<lambda>m. list_all (\<lambda>(g, pat, s). \<not> str_contains m (CHR ''.'' # pat)) layer_patterns \<and>
      list_all (\<lambda>(g, pat, s). \<not> str_contains m pat) expert_patterns \<and>
      \<not> str_contains m ''model.layers.'' \<and> \<not> str_contains m ''.mlp.experts.'' \<and> plain m)
    [''nextn_predict_layers.'', ''mtp_layers.'', ''nextn_predict_head'', ''mtp_head'']"
  by code_simp

subsection \<open>Numbers in names\<close>

lemma number_after_prefix:
  assumes "str_find pat pre = Some p" "p + length pat = length pre" "int n < 2 ^ 31"
    and "rest = [] \<or> \<not> is_digit (hd rest)"
  shows "number_after pat (pre @ to_string n @ rest) = int n"
proof -
  have "str_find pat (pre @ to_string n @ rest) = Some p" by (rule str_find_prefix_number [OF assms(1)])
  moreover have "drop (p + length pat) (pre @ to_string n @ rest) = to_string n @ rest" using assms(2) by simp
  ultimately show ?thesis using c_stoi_to_string [OF assms(3,4)] by (simp add: number_after_def)
qed

lemma number_after_absent: "\<not> str_contains pat name \<Longrightarrow> number_after pat name = -1"
  by (simp add: number_after_def str_contains_def)

lemma find_layers: "str_find ''layers.'' ''model.layers.'' = Some 6"
  by code_simp

lemma find_experts: "str_find ''experts.'' ''.mlp.experts.'' = Some 5"
  by code_simp

lemma find_mtp: "str_find ''nextn_predict_layers.'' ''model.nextn_predict_layers.'' = Some 6"
  by code_simp

lemma layer_number:
  assumes "int l < 2 ^ 31"
  shows "extractLayerNum (''model.layers.'' @ to_string l @ CHR ''.'' # rest) = int l"
  unfolding extractLayerNum_def
  by (rule number_after_prefix [OF find_layers _ assms]) (simp_all add: is_digit_def chr_code_def)

lemma expert_number:
  assumes "int e < 2 ^ 31" "rest = [] \<or> \<not> is_digit (hd rest)"
  shows "extractExpertNum (expert_name l e rest) = int e"
proof -
  let ?pre = "''model.layers.'' @ to_string l @ ''.mlp.experts.''"
  have "plain ''experts.''" "\<not> str_contains ''experts.'' ''model.layers.''" by code_simp+
  then have "str_find ''experts.'' ?pre = Some (length ''model.layers.'' + length (to_string l) + 5)"
    by (intro str_find_after_number find_experts) (simp_all add: plain_def)
  from number_after_prefix [OF this _ assms]
  show ?thesis by (simp add: extractExpertNum_def expert_name_def)
qed

subsection \<open>Slots of the names\<close>

lemma not_mtp:
  assumes "\<And>m. m \<in> {''nextn_predict_layers.'', ''mtp_layers.'', ''nextn_predict_head'', ''mtp_head''} \<Longrightarrow> \<not> str_contains m name"
  shows "\<not> isMtpName name"
  using assms by (simp add: isMtpName_def extractMtpLayerNum_def number_after_absent)

lemma layer_name_not_mtp:
  assumes "(g, pat, s) \<in> set layer_patterns"
  shows "\<not> isMtpName (layer_name l pat)"
proof (rule not_mtp)
  fix m assume "m \<in> {''nextn_predict_layers.'', ''mtp_layers.'', ''nextn_predict_head'', ''mtp_head''}"
  then have "m \<in> set [''nextn_predict_layers.'', ''mtp_layers.'', ''nextn_predict_head'', ''mtp_head'']" by simp
  with mtp_patterns_absent have "plain m" "\<not> str_contains m ''model.layers.''"
    "list_all (\<lambda>(g, pat, s). \<not> str_contains m (CHR ''.'' # pat)) layer_patterns"
    unfolding list_all_iff by blast+
  then show "\<not> str_contains m (layer_name l pat)"
    using assms by (auto simp: contains_layer_name list_all_iff)
qed

lemma expert_name_not_mtp:
  assumes "(g, pat, s) \<in> set expert_patterns"
  shows "\<not> isMtpName (expert_name l e pat)"
proof (rule not_mtp)
  fix m assume "m \<in> {''nextn_predict_layers.'', ''mtp_layers.'', ''nextn_predict_head'', ''mtp_head''}"
  then have "m \<in> set [''nextn_predict_layers.'', ''mtp_layers.'', ''nextn_predict_head'', ''mtp_head'']" by simp
  with mtp_patterns_absent have "plain m" "\<not> str_contains m ''model.layers.''" "\<not> str_contains m ''.mlp.experts.''"
    "list_all (\<lambda>(g, pat, s). \<not> str_contains m pat) expert_patterns"
    unfolding list_all_iff by blast+
  then show "\<not> str_contains m (expert_name l e pat)"
    using assms by (auto simp: contains_expert_name list_all_iff)
qed

lemma name_not_global:
  assumes "name = ''model.layers.'' @ rest"
  shows "name \<noteq> ''model.embed_tokens.weight''" "name \<noteq> ''lm_head.weight''" "name \<noteq> ''model.norm.weight''"
  using assms by auto

lemma slot_of_layer_name:
  assumes "(g, pat, s) \<in> set layer_patterns" "g = None \<or> g = Some (isMoeLayer c l)"
    and "int l < numLayers c" "numLayers c \<le> 2 ^ 31"
  shows "slot_of c (layer_name l pat) = Some (TLayer l s)"
proof -
  let ?n = "layer_name l pat"
  have "first_match layer_patterns (isMoeLayer c l) ?n =
      first_match_in layer_patterns (isMoeLayer c l) [''model.layers.'', CHR ''.'' # pat]"
    by (rule first_match_parts [OF contains_layer_name patterns_plain(1)])
  also have "\<dots> = Some s"
    using layer_patterns_separate assms(1,2) by (cases "isMoeLayer c l") (auto simp: list_all_iff)
  finally have "layer_slot_of c l ?n = Some (TLayer l s)" by (simp add: layer_slot_of_def)
  moreover have "extractLayerNum ?n = int l" using layer_number assms(3,4) by (simp add: layer_name_def)
  ultimately show ?thesis
    using layer_name_not_mtp [OF assms(1)] name_not_global [OF layer_name_def] assms(3) by (simp add: slot_of_def)
qed

lemma expert_pattern_rest:
  "(g, pat, s) \<in> set expert_patterns \<Longrightarrow> pat \<noteq> [] \<and> hd pat = CHR ''.''"
  by (auto simp: expert_patterns_def)

lemma slot_of_expert_name:
  assumes "(g, pat, s) \<in> set expert_patterns" "isMoeLayer c l" "int l < numLayers c" "numLayers c \<le> 2 ^ 31"
    and "int e < numLocalExperts c" "numLocalExperts c \<le> 2 ^ 31"
  shows "slot_of c (expert_name l e pat) = Some (TExpert l e s)"
proof -
  let ?n = "expert_name l e pat" and ?parts = "[''model.layers.'', ''.mlp.experts.'', pat]"
  have sep: "first_match_in layer_patterns True ?parts = None" "first_match_in expert_patterns True ?parts = Some s"
    using expert_patterns_separate assms(1) by (auto simp: list_all_iff)
  have m: "first_match layer_patterns True ?n = None" "first_match expert_patterns True ?n = Some s"
    using first_match_parts [OF contains_expert_name patterns_plain(1), where moe = True]
      first_match_parts [OF contains_expert_name patterns_plain(2), where moe = True] sep by metis+
  have ex: "str_contains ''mlp.experts.'' ?n"
    by (rule str_containsI [of _ "''model.layers.'' @ to_string l @ ''.''" _ "to_string e @ pat"])
      (simp add: expert_name_def)
  have num: "extractExpertNum ?n = int e"
    using expert_pattern_rest [OF assms(1)] assms(5,6)
    by (intro expert_number) (auto simp: is_digit_def chr_code_def)
  have "layer_slot_of c l ?n = Some (TExpert l e s)"
    using m ex num assms(2,5) by (simp add: layer_slot_of_def)
  moreover have "extractLayerNum ?n = int l" using layer_number assms(3,4) by (simp add: expert_name_def)
  ultimately show ?thesis
    using expert_name_not_mtp [OF assms(1)] name_not_global [OF expert_name_def] assms(3) by (simp add: slot_of_def)
qed

lemma mtp_name_is_mtp:
  assumes "int i < 2 ^ 31"
  shows "isMtpName (mtp_name i rest)" "extractMtpLayerNum (mtp_name i rest) = int i"
proof -
  have "number_after ''nextn_predict_layers.'' (mtp_name i rest) = int i"
    unfolding mtp_name_def
    by (rule number_after_prefix [OF find_mtp _ assms]) (simp_all add: is_digit_def chr_code_def)
  moreover have "str_contains ''nextn_predict_layers.'' (mtp_name i rest)"
    by (rule str_containsI [of _ "''model.''"]) (simp add: mtp_name_def)
  ultimately show "extractMtpLayerNum (mtp_name i rest) = int i" by (simp add: extractMtpLayerNum_def)
  then show "isMtpName (mtp_name i rest)" by (simp add: isMtpName_def)
qed

subsection \<open>Properties\<close>


definition small_config :: model_config where
  "small_config = ModelConfig\<lparr>numLayers := 2, numLocalExperts := 4, firstKDenseReplace := 1\<rparr>"


text \<open>
  A multi-token-prediction tensor is noted with its layer number and never recorded in a slot of
  the base decoder, although its name contains \<open>layers.\<close> too.
\<close>

theorem mtp_names_kept_apart:
  assumes "wi_ok c w" "int i < 2 ^ 31"
  shows "let r = wi_put (mtp_name i rest) loc (w, seen, head) in
    hasMtpTensors (fst r) \<and> fst (snd r) = insert (int i) seen \<and> wi_ok c (fst r) \<and>
    (\<forall>s. valid_slot c s \<longrightarrow> wi_get s (fst r) = wi_get s w)"
proof -
  note m = mtp_name_is_mtp [OF assms(2), of rest]
  have ng: "mtp_name i rest \<noteq> ''model.embed_tokens.weight''" "mtp_name i rest \<noteq> ''lm_head.weight''"
    "mtp_name i rest \<noteq> ''model.norm.weight''" by (auto simp: mtp_name_def)
  have "slot_of c (mtp_name i rest) = None" using m ng by (simp add: slot_of_def)
  from stores_put [OF assms(1), of "mtp_name i rest" loc seen head, unfolded this] m ng show ?thesis
    by (simp add: wi_put_def Let_def stores_def)
qed

lemma mtp_names_kept_apart_witness:
  "hasMtpTensors (fst (wi_put (mtp_name 78 ''norm.weight'') head_loc (WeightIndex, {}, False)))"
proof -
  have "wi_ok ModelConfig WeightIndex" by (simp add: wi_ok_def WeightIndex_def ModelConfig_def)
  from mtp_names_kept_apart [OF this, of 78 "''norm.weight''" head_loc "{}" False] show ?thesis by (simp add: Let_def)
qed

end
