(* ===== verification/InferenceStats.thy ===== *)
theory InferenceStats
  imports Complex_Main StdString
begin

text \<open>
  \<open>engine/inference_stats.h\<close>: the run's telemetry counters and the JSON line made of them. The
  counters are atomics, each update one step; they are 64-bit words. A \<open>double\<close> expression is the
  rational it approximates and the stream's rendering of it is a parameter.
\<close>

record inference_stats =
  expertLookups :: u64
  expertLruHits :: u64
  expertLruMisses :: u64
  expertDiskLoads :: u64
  prefetchSubmitted :: u64
  prefetchInserted :: u64
  prefetchWasted :: u64
  routedPredStaged :: u64
  routedPredConsumed :: u64
  demandKeysStaged :: u64
  demandWaitTimeout :: u64
  syncLoads :: u64
  syncBytes :: u64
  syncStallNs :: u64
  demandWaitNs :: u64
  stageSkipLru :: u64
  loopPrefetchIssued :: u64
  firstExpertWaitNs :: u64
  layerFirstWaitCount :: u64
  runsInFlight :: int
  firstWaitRunsInFlight :: u64
  firstWaitKeysInFlight :: u64
  diskBytesRead :: u64
  sequentialBytes :: u64
  randomIoCount :: u64
  ioReadCount :: u64
  ioLatencyNsSum :: u64
  reuseDistanceSum :: u64
  reuseDistanceCount :: u64
  ramBytesMoved :: u64
  gpuActiveNs :: u64
  pcieBytes :: u64

definition stats_zero :: inference_stats where
  "stats_zero = \<lparr>expertLookups = 0, expertLruHits = 0, expertLruMisses = 0, expertDiskLoads = 0,
     prefetchSubmitted = 0, prefetchInserted = 0, prefetchWasted = 0, routedPredStaged = 0,
     routedPredConsumed = 0, demandKeysStaged = 0, demandWaitTimeout = 0, syncLoads = 0, syncBytes = 0,
     syncStallNs = 0, demandWaitNs = 0, stageSkipLru = 0, loopPrefetchIssued = 0, firstExpertWaitNs = 0,
     layerFirstWaitCount = 0, runsInFlight = 0, firstWaitRunsInFlight = 0, firstWaitKeysInFlight = 0,
     diskBytesRead = 0, sequentialBytes = 0, randomIoCount = 0, ioReadCount = 0, ioLatencyNsSum = 0,
     reuseDistanceSum = 0, reuseDistanceCount = 0, ramBytesMoved = 0, gpuActiveNs = 0, pcieBytes = 0\<rparr>"

definition resetAll :: "inference_stats \<Rightarrow> inference_stats" where
  "resetAll s = s\<lparr>expertLookups := 0, expertLruHits := 0, expertLruMisses := 0, expertDiskLoads := 0,
     prefetchSubmitted := 0, prefetchInserted := 0, prefetchWasted := 0, routedPredStaged := 0,
     routedPredConsumed := 0, demandKeysStaged := 0, demandWaitTimeout := 0, syncLoads := 0, syncBytes := 0,
     syncStallNs := 0, demandWaitNs := 0, stageSkipLru := 0, loopPrefetchIssued := 0, firstExpertWaitNs := 0,
     layerFirstWaitCount := 0, runsInFlight := 0, firstWaitRunsInFlight := 0, firstWaitKeysInFlight := 0,
     diskBytesRead := 0, sequentialBytes := 0, randomIoCount := 0, ioReadCount := 0, ioLatencyNsSum := 0,
     reuseDistanceSum := 0, reuseDistanceCount := 0, ramBytesMoved := 0, gpuActiveNs := 0, pcieBytes := 0\<rparr>"

subsection \<open>Rates\<close>

definition q :: "u64 \<Rightarrow> rat" where
  "q n = rat_of_nat (unat n)"

definition hitRate :: "u64 \<Rightarrow> u64 \<Rightarrow> rat" where
  "hitRate hits misses = (let total = hits + misses in if total = 0 then 0 else q hits / q total)"

definition missRate :: "u64 \<Rightarrow> u64 \<Rightarrow> rat" where
  "missRate hits misses = (let total = hits + misses in if total = 0 then 0 else q misses / q total)"

definition ratio :: "u64 \<Rightarrow> u64 \<Rightarrow> rat" where
  "ratio a b = (if b = 0 then 0 else q a / q b)"

definition routedWasteRate :: "inference_stats \<Rightarrow> rat" where
  "routedWasteRate s =
     (let staged = routedPredStaged s; consumed = routedPredConsumed s in
      if staged = 0 then 0 else if staged \<le> consumed then 0 else q (staged - consumed) / q staged)"

definition avgInt :: "u64 \<Rightarrow> u64 \<Rightarrow> rat" where
  "avgInt acc count = (if count = 0 then 0 else q acc / q count)"

definition avgLatencyMs :: "inference_stats \<Rightarrow> rat" where
  "avgLatencyMs s = (if ioReadCount s = 0 then 0 else q (ioLatencyNsSum s) / q (ioReadCount s) / 1000000)"

subsection \<open>The report\<close>

datatype stat_value = SInt u64 | SDouble rat

definition stats_report :: "inference_stats \<Rightarrow> u64 \<Rightarrow> rat \<Rightarrow> u64 \<Rightarrow> (string \<times> stat_value) list" where
  "stats_report s cpuTimeNs elapsedSec generatedTokens =
     (let gpuBusy = q (gpuActiveNs s) / 1000000000; pcieRef = 16000000000;
          per_wait = (\<lambda>n. if layerFirstWaitCount s \<noteq> 0 then n / q (layerFirstWaitCount s) else 0);
          per_token = (\<lambda>n. if 0 < generatedTokens then n / q generatedTokens else 0) in
     [(''generated_sec'', SDouble elapsedSec),
      (''cpu_utilization'', SDouble (if 0 < elapsedSec then q cpuTimeNs / 1000000000 / elapsedSec else 0)),
      (''gpu_utilization'', SDouble (if 0 < elapsedSec then min (gpuBusy / elapsedSec) 1 else 0)),
      (''pcie_utilization'', SDouble (if 0 < elapsedSec then min (q (pcieBytes s) / (elapsedSec * pcieRef)) 1 else 0)),
      (''gpu_active_ms'', SDouble (gpuBusy * 1000)),
      (''pcie_bytes'', SInt (pcieBytes s)),
      (''expert_lookups'', SInt (expertLookups s)),
      (''expert_lru_hits'', SInt (expertLruHits s)),
      (''expert_lru_misses'', SInt (expertLruMisses s)),
      (''expert_disk_loads'', SInt (expertDiskLoads s)),
      (''expert_cache_hit_rate'', SDouble (hitRate (expertLruHits s) (expertLruMisses s))),
      (''expert_cache_miss_rate'', SDouble (missRate (expertLruHits s) (expertLruMisses s))),
      (''prefetch_submitted'', SInt (prefetchSubmitted s)),
      (''prefetch_inserted'', SInt (prefetchInserted s)),
      (''prefetch_wasted'', SInt (prefetchWasted s)),
      (''prefetch_delivery_rate'', SDouble (ratio (prefetchInserted s) (prefetchSubmitted s))),
      (''prefetch_waste_rate'', SDouble (ratio (prefetchWasted s) (prefetchSubmitted s))),
      (''routed_pred_staged'', SInt (routedPredStaged s)),
      (''routed_pred_consumed'', SInt (routedPredConsumed s)),
      (''routed_pred_waste_rate'', SDouble (routedWasteRate s)),
      (''demand_keys_staged'', SInt (demandKeysStaged s)),
      (''demand_wait_timeout'', SInt (demandWaitTimeout s)),
      (''sync_loads'', SInt (syncLoads s)),
      (''sync_bytes'', SInt (syncBytes s)),
      (''sync_stall_ms'', SDouble (q (syncStallNs s) / 1000000)),
      (''demand_wait_ms'', SDouble (q (demandWaitNs s) / 1000000)),
      (''stage_skip_lru'', SInt (stageSkipLru s)),
      (''loop_prefetch_issued'', SInt (loopPrefetchIssued s)),
      (''first_expert_wait_ms'', SDouble (per_wait (q (firstExpertWaitNs s) / 1000000))),
      (''reads_in_flight_at_first_wait'', SDouble (per_wait (q (firstWaitRunsInFlight s)))),
      (''experts_in_flight_at_first_wait'', SDouble (per_wait (q (firstWaitKeysInFlight s)))),
      (''total_disk_bytes'', SInt (diskBytesRead s + syncBytes s)),
      (''disk_bytes_read'', SInt (diskBytesRead s)),
      (''sequential_bytes'', SInt (sequentialBytes s)),
      (''random_io_count'', SInt (randomIoCount s)),
      (''io_read_count'', SInt (ioReadCount s)),
      (''bytes_read_per_token'', SDouble (per_token (q (diskBytesRead s)))),
      (''sequential_bytes_per_token'', SDouble (per_token (q (sequentialBytes s)))),
      (''hdd_latency_ms'', SDouble (avgLatencyMs s)),
      (''ram_bandwidth_mbps'', SDouble (if 0 < elapsedSec then q (ramBytesMoved s) / elapsedSec / 1000000 else 0)),
      (''pcie_transfer_gbps'', SDouble (if 0 < elapsedSec then q (pcieBytes s) / elapsedSec / 1000000000 else 0)),
      (''expert_reuse_distance_tok'', SDouble (avgInt (reuseDistanceSum s) (reuseDistanceCount s)))])"

fun stat_text :: "(rat \<Rightarrow> string) \<Rightarrow> stat_value \<Rightarrow> string" where
  "stat_text show_double (SInt n) = to_string (unat n)"
| "stat_text show_double (SDouble r) = show_double r"

fun json_members :: "(rat \<Rightarrow> string) \<Rightarrow> (string \<times> stat_value) list \<Rightarrow> string" where
  "json_members show_double [] = []"
| "json_members show_double [(k, v)] = CHR 0x22 # k @ CHR 0x22 # CHR '':'' # stat_text show_double v"
| "json_members show_double ((k, v) # kv # kvs) =
     CHR 0x22 # k @ CHR 0x22 # CHR '':'' # stat_text show_double v @ CHR '','' # json_members show_double (kv # kvs)"

definition stats_toJson :: "(rat \<Rightarrow> string) \<Rightarrow> inference_stats \<Rightarrow> u64 \<Rightarrow> rat \<Rightarrow> u64 \<Rightarrow> string" where
  "stats_toJson show_double s cpuTimeNs elapsedSec generatedTokens =
     ''{'' @ json_members show_double (stats_report s cpuTimeNs elapsedSec generatedTokens) @ ''}''"

subsection \<open>Properties\<close>

definition rate_keys :: "string list" where
  "rate_keys = [''gpu_utilization'', ''pcie_utilization'', ''expert_cache_hit_rate'', ''expert_cache_miss_rate'',
     ''routed_pred_waste_rate'']"

lemma q_nonneg [simp]: "0 \<le> q n"
  unfolding q_def by (rule of_nat_0_le_iff)

lemma q_pos: "n \<noteq> 0 \<Longrightarrow> 0 < q n"
  unfolding q_def of_nat_0_less_iff by (simp add: unat_gt_0)

lemma q_add: "unat a + unat b < 2 ^ 64 \<Longrightarrow> q (a + b) = q a + q b"
  unfolding q_def by (subst unat_add_64) (simp_all only: of_nat_add, simp)

lemma q_sub_le: "\<not> a \<le> b \<Longrightarrow> q (a - b) \<le> q a"
  unfolding q_def of_nat_le_iff by (simp add: unat_sub_le)

lemma hitRate_sum:
  assumes "unat hits + unat misses < 2 ^ 64" "hits + misses \<noteq> 0"
  shows "hitRate hits misses + missRate hits misses = 1"
proof -
  have "q (hits + misses) = q hits + q misses" using assms(1) by (rule q_add)
  moreover have "0 < q (hits + misses)" using assms(2) by (rule q_pos)
  ultimately show ?thesis by (simp add: hitRate_def missRate_def assms(2) Let_def flip: add_divide_distrib)
qed

lemma rates_unit:
  assumes "unat hits + unat misses < 2 ^ 64"
  shows "0 \<le> hitRate hits misses" "hitRate hits misses \<le> 1" "0 \<le> missRate hits misses" "missRate hits misses \<le> 1"
proof -
  have nn: "0 \<le> hitRate hits misses" "0 \<le> missRate hits misses" by (simp_all add: hitRate_def missRate_def Let_def)
  then show "0 \<le> hitRate hits misses" "0 \<le> missRate hits misses" by auto
  have "hits + misses = 0 \<or> hitRate hits misses + missRate hits misses = 1" using hitRate_sum assms by blast
  then show "hitRate hits misses \<le> 1" "missRate hits misses \<le> 1"
    using nn by (auto simp: hitRate_def missRate_def)
qed

lemma routedWasteRate_unit: "0 \<le> routedWasteRate s \<and> routedWasteRate s \<le> 1"
  by (auto simp: routedWasteRate_def Let_def divide_le_eq_1 q_pos q_sub_le)

text \<open>
  The rates of the statistics line are between 0 and 1 whatever was counted and however long the
  run took, as long as the hit and miss counters do not overflow together; the hit and the miss rate
  of a run with lookups add up to 1. A fresh reset reports zero for every rate.
\<close>

theorem stats_rates:
  assumes "unat (expertLruHits s) + unat (expertLruMisses s) < 2 ^ 64"
  shows "(\<forall>(k, v) \<in> set (stats_report s cpu sec toks). k \<in> set rate_keys \<longrightarrow>
      (\<exists>r. v = SDouble r \<and> 0 \<le> r \<and> r \<le> 1)) \<and>
    (expertLruHits s + expertLruMisses s \<noteq> 0 \<longrightarrow>
      hitRate (expertLruHits s) (expertLruMisses s) + missRate (expertLruHits s) (expertLruMisses s) = 1) \<and>
    hitRate (expertLruHits (resetAll s)) (expertLruMisses (resetAll s)) = 0"
proof (intro conjI)
  note r = rates_unit [OF assms] and w = routedWasteRate_unit [of s]
  have g: "0 \<le> (if 0 < sec then min (x / sec) 1 else 0) \<and> (if 0 < sec then min (x / sec) 1 else 0) \<le> (1 :: rat)"
    if "0 \<le> x" for x using that by simp
  have p: "0 \<le> (if 0 < sec then min (x / (sec * 16000000000)) 1 else 0) \<and>
      (if 0 < sec then min (x / (sec * 16000000000)) 1 else 0) \<le> (1 :: rat)" if "0 \<le> x" for x
    using that by simp
  have gb: "0 \<le> q (gpuActiveNs s) / 1000000000" by simp
  show "\<forall>(k, v) \<in> set (stats_report s cpu sec toks). k \<in> set rate_keys \<longrightarrow>
      (\<exists>r. v = SDouble r \<and> 0 \<le> r \<and> r \<le> 1)"
    using r w g [OF gb] p [OF q_nonneg]
    unfolding stats_report_def Let_def by (simp add: rate_keys_def)
  show "expertLruHits s + expertLruMisses s \<noteq> 0 \<longrightarrow>
      hitRate (expertLruHits s) (expertLruMisses s) + missRate (expertLruHits s) (expertLruMisses s) = 1"
    using hitRate_sum [OF assms] by blast
  show "hitRate (expertLruHits (resetAll s)) (expertLruMisses (resetAll s)) = 0"
    by (simp add: resetAll_def hitRate_def)
qed

lemma stats_rates_witness:
  "hitRate 3 1 + missRate 3 1 = 1"
  using stats_rates [of "stats_zero\<lparr>expertLruHits := 3, expertLruMisses := 1\<rparr>" 0 1 0] by simp

end
