(* ===== verification/ReadRuns.thy ===== *)
theory ReadRuns
  imports WeightIndex StdAlgo IoReader
begin

text \<open>
  The part of \<open>engine/scheduler.cpp\<close> that turns wanted byte ranges into few sequential reads: the
  run builder of \<open>prefetchAsync\<close>, and the page-cache warming of \<open>warmDenseWeights\<close>. Offsets and
  sizes are 64-bit words. \<open>std::sort\<close> is a parameter, \<open>std::stable_sort\<close> is deterministic.
\<close>

subsection \<open>Runs over one shard\<close>

definition kRunMergeGap :: u64 where
  "kRunMergeGap = 1024 * 1024"

text \<open>A wanted range and the assembly it belongs to; a slice of a run; a run.\<close>

record projection_io =
  pj_assem :: nat
  pj_slot :: u16
  pj_offset :: u64
  pj_size :: u64
  pj_expertOffset :: u64

record io_slice =
  sl_assem :: nat
  sl_expertOffset :: u64
  sl_size :: u64
  sl_offsetInRun :: u64

record shard_run =
  sr_shard :: string
  sr_start :: u64
  sr_end :: u64
  sr_slices :: "io_slice list"

definition run_start :: "string \<Rightarrow> projection_io \<Rightarrow> shard_run" where
  "run_start shard io = \<lparr>sr_shard = shard, sr_start = pj_offset io, sr_end = pj_offset io + pj_size io,
     sr_slices = [\<lparr>sl_assem = pj_assem io, sl_expertOffset = pj_expertOffset io, sl_size = pj_size io,
       sl_offsetInRun = 0\<rparr>]\<rparr>"

definition run_extend :: "projection_io \<Rightarrow> shard_run \<Rightarrow> shard_run" where
  "run_extend io run = run\<lparr>
     sr_end := (if sr_end run < pj_offset io + pj_size io then pj_offset io + pj_size io else sr_end run),
     sr_slices := sr_slices run @ [\<lparr>sl_assem = pj_assem io, sl_expertOffset = pj_expertOffset io,
       sl_size = pj_size io, sl_offsetInRun = pj_offset io - sr_start run\<rparr>]\<rparr>"

text \<open>The merge loop; its second argument is the run being extended, if there is one.\<close>

fun merge_ios :: "string \<Rightarrow> shard_run option \<Rightarrow> projection_io list \<Rightarrow> shard_run list" where
  "merge_ios shard None [] = []"
| "merge_ios shard (Some run) [] = [run]"
| "merge_ios shard None (io # ios) = merge_ios shard (Some (run_start shard io)) ios"
| "merge_ios shard (Some run) (io # ios) =
     (if sr_end run + kRunMergeGap < pj_offset io
      then run # merge_ios shard (Some (run_start shard io)) ios
      else merge_ios shard (Some (run_extend io run)) ios)"

type_synonym io_sorter = "(projection_io \<Rightarrow> projection_io \<Rightarrow> bool) \<Rightarrow> nat \<Rightarrow> projection_io list \<Rightarrow> projection_io list"

definition io_less :: "projection_io \<Rightarrow> projection_io \<Rightarrow> bool" where
  "io_less a b \<longleftrightarrow> pj_offset a < pj_offset b"

definition run_less :: "shard_run \<Rightarrow> shard_run \<Rightarrow> bool" where
  "run_less a b \<longleftrightarrow> (if sr_shard a \<noteq> sr_shard b then sr_shard a < sr_shard b else sr_start a < sr_start b)"

definition ios_of :: "string \<Rightarrow> (string \<times> projection_io) list \<Rightarrow> projection_io list" where
  "ios_of shard ios = map snd (filter (\<lambda>(s, _). s = shard) ios)"

text \<open>
  All runs in submission order. \<open>order\<close> is the iteration order of the hash map from shards to their
  ranges, \<open>srt\<close> the sort.
\<close>

definition build_runs :: "io_sorter \<Rightarrow> (string set \<Rightarrow> string list) \<Rightarrow> (string \<times> projection_io) list \<Rightarrow>
    shard_run list" where
  "build_runs srt order ios =
     stable_sort run_less
       (concat (map (\<lambda>shard. let l = ios_of shard ios in merge_ios shard None (srt io_less (length l) l))
         (order (fst ` set ios))))"

subsection \<open>What a run covers\<close>

text \<open>Ranges whose end stays below \<open>2 ^ 62\<close>, so that no end, gap or sum wraps.\<close>

definition io_ok :: "projection_io \<Rightarrow> bool" where
  "io_ok io \<longleftrightarrow> 0 < unat (pj_size io) \<and> unat (pj_offset io) + unat (pj_size io) < 2 ^ 62"

definition slice_of :: "shard_run \<Rightarrow> io_slice \<Rightarrow> projection_io \<Rightarrow> bool" where
  "slice_of run sl io \<longleftrightarrow> sl_assem sl = pj_assem io \<and> sl_expertOffset sl = pj_expertOffset io \<and>
     sl_size sl = pj_size io \<and> unat (sr_start run) + unat (sl_offsetInRun sl) = unat (pj_offset io) \<and>
     unat (sr_start run) + unat (sl_offsetInRun sl) + unat (sl_size sl) \<le> unat (sr_end run)"

definition run_ok :: "shard_run \<Rightarrow> bool" where
  "run_ok run \<longleftrightarrow> sr_slices run \<noteq> [] \<and> unat (sr_start run) < unat (sr_end run) \<and> unat (sr_end run) < 2 ^ 62"

definition covers :: "shard_run \<Rightarrow> projection_io list \<Rightarrow> bool" where
  "covers run ios \<longleftrightarrow> run_ok run \<and> list_all2 (slice_of run) (sr_slices run) ios"

lemma io_end: "io_ok io \<Longrightarrow> unat (pj_offset io + pj_size io) = unat (pj_offset io) + unat (pj_size io)"
  by (rule unat_add_64) (simp add: io_ok_def)

lemma run_start_covers: "io_ok io \<Longrightarrow> covers (run_start shard io) [io]"
  by (simp add: covers_def run_start_def run_ok_def slice_of_def io_end) (simp add: io_ok_def)

lemma slice_of_extend:
  assumes "slice_of run sl io" "unat (sr_end run) \<le> unat (sr_end run')" "sr_start run' = sr_start run"
  shows "slice_of run' sl io"
  using assms unfolding slice_of_def by (metis le_trans)

lemma run_extend_covers:
  assumes "covers run ios" "io_ok io" "sr_start run \<le> pj_offset io"
  shows "covers (run_extend io run) (ios @ [io])"
proof -
  let ?r = "run_extend io run"
  have e: "unat (pj_offset io + pj_size io) = unat (pj_offset io) + unat (pj_size io)" using assms(2) by (rule io_end)
  have st: "sr_start ?r = sr_start run" by (simp add: run_extend_def)
  have le: "unat (sr_end run) \<le> unat (sr_end ?r)" "unat (pj_offset io) + unat (pj_size io) \<le> unat (sr_end ?r)"
    using e by (auto simp: run_extend_def word_less_nat_alt not_less)
  have lt: "unat (sr_end ?r) < 2 ^ 62"
    using assms(1,2) e by (simp add: run_extend_def covers_def run_ok_def io_ok_def)
  have "unat (pj_offset io - sr_start run) = unat (pj_offset io) - unat (sr_start run)"
    using assms(3) by (rule unat_sub_le)
  moreover have "unat (sr_start run) \<le> unat (pj_offset io)" using assms(3) by (simp add: word_le_nat_alt)
  ultimately have new: "slice_of ?r (last (sr_slices ?r)) io"
    using le by (simp add: slice_of_def run_extend_def)
  have "list_all2 (slice_of ?r) (sr_slices run) ios"
    using assms(1) slice_of_extend [OF _ le(1) st] by (auto simp: covers_def elim: list_all2_mono)
  moreover have "sr_slices ?r = sr_slices run @ [last (sr_slices ?r)]" by (simp add: run_extend_def)
  ultimately have "list_all2 (slice_of ?r) (sr_slices ?r) (ios @ [io])"
    using new by (metis list_all2_appendI list.rel_intros)
  moreover have "run_ok ?r"
    using assms(1) le(1) lt st by (simp add: run_ok_def covers_def) (simp add: run_extend_def)
  ultimately show ?thesis by (simp add: covers_def)
qed

lemma run_extend_shard [simp]: "sr_shard (run_extend io run) = sr_shard run" "sr_start (run_extend io run) = sr_start run"
  by (simp_all add: run_extend_def)

lemma run_start_shard [simp]: "sr_shard (run_start shard io) = shard" "sr_start (run_start shard io) = pj_offset io"
  by (simp_all add: run_start_def)

text \<open>The runs of one shard partition its sorted ranges, in order.\<close>

lemma merge_ios_partition:
  assumes "case cur of None \<Rightarrow> pre = [] | Some run \<Rightarrow> covers run pre \<and> sr_shard run = shard \<and> (\<forall>io \<in> set ios. sr_start run \<le> pj_offset io)"
    and "\<forall>io \<in> set ios. io_ok io" "sorted_wrt (\<lambda>a b. pj_offset a \<le> pj_offset b) ios"
  shows "\<exists>parts. list_all2 covers (merge_ios shard cur ios) parts \<and> concat parts = pre @ ios \<and>
    (\<forall>r \<in> set (merge_ios shard cur ios). sr_shard r = shard)"
  using assms
proof (induction shard cur ios arbitrary: pre rule: merge_ios.induct)
  case (1 shard)
  then show ?case by simp
next
  case (2 shard run)
  then show ?case by (intro exI [of _ "[pre]"]) simp
next
  case (3 shard io ios)
  then show ?case using "3.IH" [of "[io]"] run_start_covers [of io shard] by simp
next
  case (4 shard run io ios)
  show ?case
  proof (cases "sr_end run + kRunMergeGap < pj_offset io")
    case True
    from "4.IH"(1) [OF True, of "[io]"] "4.prems" run_start_covers [of io shard]
    obtain parts where p: "list_all2 covers (merge_ios shard (Some (run_start shard io)) ios) parts"
      "concat parts = [io] @ ios" "\<forall>r \<in> set (merge_ios shard (Some (run_start shard io)) ios). sr_shard r = shard"
      by auto
    show ?thesis by (rule exI [of _ "pre # parts"]) (use True p "4.prems" in simp)
  next
    case False
    from "4.IH"(2) [OF False, of "pre @ [io]"] "4.prems" run_extend_covers [of run pre io] False
    show ?thesis by simp
  qed
qed

subsection \<open>All runs\<close>

lemma reorder_along:
  "mset (map f xs) = mset ys \<Longrightarrow> \<exists>zs. mset zs = mset xs \<and> map f zs = ys"
proof (induction ys arbitrary: xs)
  case (Cons y ys)
  then have "y \<in> set (map f xs)" by (metis list.set_intros(1) mset_eq_setD)
  then obtain x where x: "x \<in> set xs" "f x = y" by auto
  have "mset (map f (remove1 x xs)) = mset ys"
  proof -
    have "mset xs = add_mset x (mset (remove1 x xs))" using x(1) by simp
    then have "mset (map f xs) = add_mset y (mset (map f (remove1 x xs)))" by (metis image_mset_add_mset mset_map x(2))
    then show ?thesis using Cons.prems by simp
  qed
  from Cons.IH [OF this] obtain zs where "mset zs = mset (remove1 x xs)" "map f zs = ys" by blast
  then show ?case using x by (intro exI [of _ "x # zs"]) simp
qed simp

lemma io_less_weak: "strict_weak io_less A"
  by (rule strict_weak_key [where f = pj_offset]) (simp add: io_less_def)

lemma run_less_weak: "strict_weak run_less A"
  by (auto simp: strict_weak_def run_less_def not_less split: if_splits)

text \<open>A tagged range list, grouped by shard along an order, is the same multiset.\<close>

lemma group_by_shard:
  assumes "distinct ks" "fst ` set ios \<subseteq> set ks"
  shows "mset (concat (map (\<lambda>k. map (Pair k) (ios_of k ios)) ks)) = mset ios"
  using assms
proof (induction ios)
  case Nil
  then show ?case by (induction ks) (simp_all add: ios_of_def)
next
  case (Cons x ios)
  obtain s io where x: "x = (s, io)" by (cases x)
  have step: "mset (concat (map (\<lambda>k. map (Pair k) (ios_of k (x # ios))) ks)) =
      (if s \<in> set ks then {#x#} else {#}) + mset (concat (map (\<lambda>k. map (Pair k) (ios_of k ios)) ks))"
    using Cons.prems(1) by (induction ks) (auto simp: ios_of_def x)
  then show ?case using Cons by (simp add: x)
qed

definition run_pieces :: "(shard_run \<times> projection_io list) list \<Rightarrow> (string \<times> projection_io) list" where
  "run_pieces ps = concat (map (\<lambda>(run, ios). map (Pair (sr_shard run)) ios) ps)"

lemma run_pieces_mset: "mset ps = mset ps' \<Longrightarrow> mset (run_pieces ps) = mset (run_pieces ps')"
proof -
  assume m: "mset ps = mset ps'"
  have "sum_list (map f ps) = sum_list (map f ps')" for f :: "shard_run \<times> projection_io list \<Rightarrow> (string \<times> projection_io) multiset"
    using m by (metis mset_map sum_mset_sum_list)
  then show ?thesis unfolding run_pieces_def mset_concat map_map by blast
qed

lemma shard_pieces:
  assumes "partial_sorter srt" "\<forall>io \<in> set l. io_ok io"
  shows "\<exists>ps. map fst ps = merge_ios shard None (srt io_less (length l) l) \<and> (\<forall>(run, ios) \<in> set ps. covers run ios) \<and>
    mset (run_pieces ps) = mset (map (Pair shard) l)"
proof -
  let ?s = "srt io_less (length l) l"
  have m: "mset ?s = mset l" using partial_sorter.psort_mset [OF assms(1) io_less_weak] by simp
  have "sorted_wrt (\<lambda>a b. \<not> io_less b a) (take (length l) ?s)"
    using partial_sorter.psort_sorted_prefix [OF assms(1) io_less_weak] by simp
  then have srt: "sorted_wrt (\<lambda>a b. pj_offset a \<le> pj_offset b) ?s"
    using mset_eq_length [OF m] by (simp add: io_less_def not_less)
  have "\<forall>io \<in> set ?s. io_ok io" using assms(2) mset_eq_setD [OF m] by simp
  from merge_ios_partition [where cur = None and pre = "[]" and shard = shard and ios = ?s, simplified, OF this srt]
  obtain parts where p: "list_all2 covers (merge_ios shard None ?s) parts" "concat parts = ?s"
    "\<forall>r \<in> set (merge_ios shard None ?s). sr_shard r = shard" by auto
  let ?ps = "zip (merge_ios shard None ?s) parts"
  have len: "length (merge_ios shard None ?s) = length parts" using p(1) by (rule list_all2_lengthD)
  have "run_pieces (zip rs ps) = map (Pair shard) (concat ps)"
    if "length rs = length ps" "\<forall>r \<in> set rs. sr_shard r = shard" for rs ps
    using that by (induction rs ps rule: list_induct2) (simp_all add: run_pieces_def)
  from this [OF len p(3)] have "mset (run_pieces ?ps) = mset (map (Pair shard) l)" using p(2) m by simp
  moreover have "\<forall>(run, ios) \<in> set ?ps. covers run ios" using p(1) by (auto simp: list_all2_iff)
  ultimately show ?thesis using len by (intro exI [of _ ?ps]) simp
qed

lemma runs_cover_plan:
  assumes "partial_sorter srt" "\<And>A. finite A \<Longrightarrow> distinct (order A) \<and> set (order A) = A"
    and "\<forall>(shard, io) \<in> set ios. io_ok io"
  shows "\<exists>ps. map fst ps = build_runs srt order ios \<and> (\<forall>(run, part) \<in> set ps. covers run part) \<and>
    mset (run_pieces ps) = mset ios"
proof -
  let ?mk = "\<lambda>shard. merge_ios shard None (srt io_less (length (ios_of shard ios)) (ios_of shard ios))"
  let ?ks = "order (fst ` set ios)"
  have ks: "distinct ?ks" "set ?ks = fst ` set ios" using assms(2) by simp_all
  have ok: "\<forall>io \<in> set (ios_of k ios). io_ok io" for k using assms(3) by (auto simp: ios_of_def)
  have "\<exists>ps. map fst ps = concat (map ?mk ks) \<and> (\<forall>(run, part) \<in> set ps. covers run part) \<and>
      mset (run_pieces ps) = mset (concat (map (\<lambda>k. map (Pair k) (ios_of k ios)) ks))" for ks
  proof (induction ks)
    case Nil
    then show ?case by (simp add: run_pieces_def)
  next
    case (Cons k ks)
    obtain ps where ps: "map fst ps = concat (map ?mk ks)" "\<forall>(run, part) \<in> set ps. covers run part"
      "mset (run_pieces ps) = mset (concat (map (\<lambda>k. map (Pair k) (ios_of k ios)) ks))" using Cons.IH by blast
    obtain qs where qs: "map fst qs = ?mk k" "\<forall>(run, part) \<in> set qs. covers run part"
      "mset (run_pieces qs) = mset (map (Pair k) (ios_of k ios))" using shard_pieces [OF assms(1) ok] by blast
    show ?case by (rule exI [of _ "qs @ ps"]) (use ps qs in \<open>auto simp: run_pieces_def\<close>)
  qed
  then obtain ps0 where ps0: "map fst ps0 = concat (map ?mk ?ks)" "\<forall>(run, part) \<in> set ps0. covers run part"
    "mset (run_pieces ps0) = mset ios" using group_by_shard [OF ks(1), of ios] ks(2) by (metis subset_refl)
  have "mset (map fst ps0) = mset (build_runs srt order ios)" by (simp add: build_runs_def ps0(1) Let_def)
  from reorder_along [OF this] obtain ps where ps: "mset ps = mset ps0" "map fst ps = build_runs srt order ios" by blast
  have "\<forall>(run, part) \<in> set ps. covers run part" using ps0(2) mset_eq_setD [OF ps(1)] by simp
  then show ?thesis using ps ps0(3) run_pieces_mset [OF ps(1)] by (intro exI [of _ ps]) simp
qed

lemma build_runs_sorted: "sorted_wrt (\<lambda>a b. \<not> run_less b a) (build_runs srt order ios)"
proof -
  have "sorted_wrt (\<lambda>a b. \<not> run_less b a) (take (length xs) (stable_psort run_less (length xs) xs))" for xs
    by (rule stable.psort_sorted_prefix [OF run_less_weak]) simp
  then show "sorted_wrt (\<lambda>a b. \<not> run_less b a) (build_runs srt order ios)"
    unfolding build_runs_def stable_psort_def Let_def by simp
qed

text \<open>
  C23. The read plan is exact: every wanted range becomes one slice of one run over its shard, at the
  distance from the run's start that its offset has in the file, inside the run; nothing else is in a
  run; and the runs are submitted in the order of shard and offset.
\<close>

theorem runs_cover_wanted:
  assumes "partial_sorter srt" "\<And>A. finite A \<Longrightarrow> distinct (order A) \<and> set (order A) = A"
    and "\<forall>(shard, io) \<in> set ios. io_ok io"
  shows "\<exists>ps. map fst ps = build_runs srt order ios \<and> (\<forall>(run, part) \<in> set ps. covers run part) \<and>
    mset (run_pieces ps) = mset ios \<and>
    sorted_wrt (\<lambda>a b. \<not> run_less b a) (build_runs srt order ios)"
  using runs_cover_plan [OF assms] build_runs_sorted by blast

lemma runs_cover_wanted_witness:
  "\<exists>ps. map fst ps = build_runs stable_psort sorted_list_of_set
       [(''s'', \<lparr>pj_assem = 0, pj_slot = 0, pj_offset = 4096, pj_size = 8, pj_expertOffset = 0\<rparr>)] \<and>
     mset (run_pieces ps) = {#(''s'', \<lparr>pj_assem = 0, pj_slot = 0, pj_offset = 4096, pj_size = 8, pj_expertOffset = 0\<rparr>)#}"
  using runs_cover_wanted [OF stable.partial_sorter_axioms, of sorted_list_of_set
      "[(''s'', \<lparr>pj_assem = 0, pj_slot = 0, pj_offset = 4096, pj_size = 8, pj_expertOffset = 0\<rparr>)]"]
  by (auto simp: io_ok_def)

end
