(* ===== verification/WarmReads.thy ===== *)
theory WarmReads
  imports ReadRuns
begin

text \<open>
  \<open>Scheduler::warmDenseWeights\<close> (\<open>engine/scheduler.cpp\<close>): the ranges of the tensors every forward
  reads, merged per shard and read once in chunks through a pool of buffers.
\<close>

subsection \<open>Ranges and runs\<close>

definition kWarmChunk :: u64 where
  "kWarmChunk = 8 * 1024 * 1024"

definition kWarmPool :: nat where
  "kWarmPool = 16"

type_synonym warm_range = "string \<times> u64 \<times> u64"

definition warm_add :: "tensor_location \<Rightarrow> warm_range list" where
  "warm_add t = (if 0 < byteSize t \<and> shardPath t \<noteq> [] then [(shardPath t, byteOffset t, byteSize t)] else [])"

definition dense_ranges :: "weight_index \<Rightarrow> warm_range list" where
  "dense_ranges w =
     concat (map (\<lambda>lw. concat (map warm_add
       [inputLayernorm lw, postAttentionLayernorm lw, qAProj lw, qALayernorm lw, qBProj lw, kvAProjWithMqa lw,
        kvALayernorm lw, kvBProj lw, oProj lw, indexWqB lw, indexWk lw, indexWeightsProj lw, indexKNormW lw,
        indexKNormB lw, mlpGate lw, mlpUp lw, mlpDown lw, gateBias lw, sharedGateProj lw, sharedUpProj lw,
        sharedDownProj lw])) (wi_layers w))
     @ warm_add (embedTokens w) @ warm_add (lmHead w) @ warm_add (finalNorm w)"

record warm_run =
  wr_shard :: string
  wr_start :: u64
  wr_end :: u64

definition pair_less :: "u64 \<times> u64 \<Rightarrow> u64 \<times> u64 \<Rightarrow> bool" where
  "pair_less a b \<longleftrightarrow> fst a < fst b \<or> (fst a = fst b \<and> snd a < snd b)"

text \<open>\<open>runs\<close> is the vector of runs so far, over all shards; its last element may be extended.\<close>

fun warm_merge :: "string \<Rightarrow> (u64 \<times> u64) list \<Rightarrow> warm_run list \<Rightarrow> warm_run list" where
  "warm_merge shard [] runs = runs"
| "warm_merge shard ((off, sz) # v) runs =
     (if runs \<noteq> [] \<and> wr_shard (last runs) = shard \<and> off \<le> wr_end (last runs) + kRunMergeGap
      then warm_merge shard v
        (if wr_end (last runs) < off + sz then butlast runs @ [(last runs)\<lparr>wr_end := off + sz\<rparr>] else runs)
      else warm_merge shard v (runs @ [\<lparr>wr_shard = shard, wr_start = off, wr_end = off + sz\<rparr>]))"

definition warm_runs :: "(string set \<Rightarrow> string list) \<Rightarrow> warm_range list \<Rightarrow> warm_run list" where
  "warm_runs order ranges =
     fold (\<lambda>shard. warm_merge shard (stable_sort pair_less (map snd (filter (\<lambda>(s, _). s = shard) ranges))))
       (order (fst ` set ranges)) []"

subsection \<open>Reads\<close>

datatype warm_action = WRead string u64 u64 nat | WWait

text \<open>\<open>submit\<close>: one read into the next buffer of the pool, and a wait when the pool wraps.\<close>

definition warm_submit :: "string \<Rightarrow> u64 \<Rightarrow> u64 \<Rightarrow> nat \<Rightarrow> warm_action list" where
  "warm_submit shard off sz issued =
     WRead shard off sz (issued mod kWarmPool * unat kWarmChunk)
     # (if Suc issued mod kWarmPool = 0 then [WWait] else [])"

text \<open>The chunk loop of one run returns the actions and the new count of submissions.\<close>

partial_function (option) warm_chunks :: "string \<Rightarrow> u64 \<Rightarrow> u64 \<Rightarrow> nat \<Rightarrow> (warm_action list \<times> nat) option" where
  "warm_chunks shard pos e issued =
     (if pos < e then
        Option.bind (warm_chunks shard (pos + kWarmChunk) e (Suc issued))
          (\<lambda>r. Some (warm_submit shard pos (min kWarmChunk (e - pos)) issued @ fst r, snd r))
      else Some ([], issued))"

fun warm_all :: "warm_run list \<Rightarrow> nat \<Rightarrow> warm_action list option" where
  "warm_all [] issued = Some [WWait]"
| "warm_all (r # rs) issued =
     Option.bind (warm_chunks (wr_shard r) (wr_start r) (wr_end r) issued)
       (\<lambda>(acts, n). map_option ((@) acts) (warm_all rs n))"

definition warmDenseWeights :: "bool \<Rightarrow> (string set \<Rightarrow> string list) \<Rightarrow> weight_index option \<Rightarrow> warm_action list option" where
  "warmDenseWeights startOk order index =
     (case index of
        None \<Rightarrow> Some []
      | Some w \<Rightarrow>
          let runs = warm_runs order (dense_ranges w) in
          if runs = [] then Some [] else if \<not> startOk then Some [] else warm_all runs 0)"

subsection \<open>Every range is inside a run\<close>

definition range_ok :: "u64 \<times> u64 \<Rightarrow> bool" where
  "range_ok r \<longleftrightarrow> 0 < unat (snd r) \<and> unat (fst r) + unat (snd r) < 2 ^ 62"

definition warm_run_ok :: "warm_run \<Rightarrow> bool" where
  "warm_run_ok r \<longleftrightarrow> unat (wr_start r) < unat (wr_end r) \<and> unat (wr_end r) < 2 ^ 62"

definition inside :: "warm_range \<Rightarrow> warm_run \<Rightarrow> bool" where
  "inside x r \<longleftrightarrow> fst x = wr_shard r \<and> unat (wr_start r) \<le> unat (fst (snd x)) \<and>
     unat (fst (snd x)) + unat (snd (snd x)) \<le> unat (wr_end r)"

lemma range_end: "range_ok (off, sz) \<Longrightarrow> unat (off + sz) = unat off + unat sz"
  by (rule unat_add_64) (simp add: range_ok_def)

lemma inside_grow: "inside x r \<Longrightarrow> wr_end r \<le> e \<Longrightarrow> inside x (r\<lparr>wr_end := e\<rparr>)"
  by (auto simp: inside_def word_le_nat_alt)

lemma warm_extend_last:
  assumes "runs \<noteq> []" "\<forall>r \<in> set runs. warm_run_ok r" "range_ok (off, sz)"
    and "runs' = (if wr_end (last runs) < off + sz then butlast runs @ [(last runs)\<lparr>wr_end := off + sz\<rparr>] else runs)"
  shows "\<forall>r \<in> set runs'. warm_run_ok r" "\<forall>x. (\<exists>r \<in> set runs. inside x r) \<longrightarrow> (\<exists>r \<in> set runs'. inside x r)"
    "runs' \<noteq> [] \<and> wr_shard (last runs') = wr_shard (last runs) \<and> wr_start (last runs') = wr_start (last runs) \<and>
     off + sz \<le> wr_end (last runs')"
proof -
  obtain init l where r: "runs = init @ [l]" using assms(1) by (metis append_butlast_last_id)
  have e: "unat (off + sz) < 2 ^ 62" using range_end [OF assms(3)] assms(3) by (simp add: range_ok_def)
  have ok: "warm_run_ok l" "\<forall>r \<in> set init. warm_run_ok r" using assms(2) by (simp_all add: r)
  show "\<forall>r \<in> set runs'. warm_run_ok r"
    using ok e by (auto simp: assms(4) r warm_run_ok_def word_less_nat_alt)
  show "\<forall>x. (\<exists>r \<in> set runs. inside x r) \<longrightarrow> (\<exists>r \<in> set runs'. inside x r)"
    using inside_grow [of _ l "off + sz"] by (auto simp: assms(4) r)
  show "runs' \<noteq> [] \<and> wr_shard (last runs') = wr_shard (last runs) \<and> wr_start (last runs') = wr_start (last runs) \<and>
     off + sz \<le> wr_end (last runs')"
    by (auto simp: assms(4) r)
qed

lemma warm_merge_inside:
  assumes "\<forall>r \<in> set runs. warm_run_ok r" "\<forall>x \<in> set v. range_ok x" "sorted_wrt (\<lambda>a b. fst a \<le> fst b) v"
    and "runs \<noteq> [] \<Longrightarrow> wr_shard (last runs) = shard \<Longrightarrow> \<forall>x \<in> set v. wr_start (last runs) \<le> fst x"
  shows "(\<forall>r \<in> set (warm_merge shard v runs). warm_run_ok r) \<and>
    (\<forall>x. (\<exists>r \<in> set runs. inside x r) \<longrightarrow> (\<exists>r \<in> set (warm_merge shard v runs). inside x r)) \<and>
    (\<forall>x \<in> set v. \<exists>r \<in> set (warm_merge shard v runs). inside (shard, x) r)"
  using assms
proof (induction shard v runs rule: warm_merge.induct)
  case (1 shard runs)
  then show ?case by simp
next
  case (2 shard off sz v runs)
  have rng: "range_ok (off, sz)" using "2.prems"(2) by simp
  note e = range_end [OF rng]
  have v: "\<forall>x \<in> set v. range_ok x" "sorted_wrt (\<lambda>a b. fst a \<le> fst b) v" "\<forall>x \<in> set v. off \<le> fst x"
    using "2.prems"(2,3) by auto
  show ?case
  proof (cases "runs \<noteq> [] \<and> wr_shard (last runs) = shard \<and> off \<le> wr_end (last runs) + kRunMergeGap")
    case True
    define runs' where "runs' = (if wr_end (last runs) < off + sz then butlast runs @ [(last runs)\<lparr>wr_end := off + sz\<rparr>] else runs)"
    note x = warm_extend_last [OF conjunct1 [OF True] "2.prems"(1) rng runs'_def]
    have first: "wr_start (last runs) \<le> off" using "2.prems"(4) True by simp
    have "inside (shard, off, sz) (last runs')"
      using x(3) True first e by (simp add: inside_def word_le_nat_alt)
    then have here: "\<exists>r \<in> set runs'. inside (shard, off, sz) r" using x(3) last_in_set by blast
    have m: "warm_merge shard ((off, sz) # v) runs = warm_merge shard v runs'" using True by (simp add: runs'_def)
    have starts: "\<forall>x \<in> set v. wr_start (last runs') \<le> fst x" using x(3) first v(3) by auto
    from "2.IH"(1) [OF True, folded runs'_def, OF x(1) v(1,2)] starts x(2) here
    show ?thesis unfolding m by auto
  next
    case False
    let ?r = "\<lparr>wr_shard = shard, wr_start = off, wr_end = off + sz\<rparr>"
    have ok: "warm_run_ok ?r" "inside (shard, off, sz) ?r"
      using rng e by (simp_all add: warm_run_ok_def inside_def range_ok_def)
    have m: "warm_merge shard ((off, sz) # v) runs = warm_merge shard v (runs @ [?r])"
      by (simp only: warm_merge.simps False if_False)
    from "2.IH"(2) [OF False, of] "2.prems"(1) ok v show ?thesis unfolding m by auto
  qed
qed

lemma pair_less_weak: "strict_weak pair_less A"
  by (auto simp: strict_weak_def pair_less_def)

lemma sorted_by_offset: "sorted_wrt (\<lambda>a b. fst a \<le> fst b) (stable_sort pair_less v)"
proof -
  have "sorted_wrt (\<lambda>a b. \<not> pair_less b a) (take (length v) (stable_psort pair_less (length v) v))"
    by (rule stable.psort_sorted_prefix [OF pair_less_weak]) simp
  then have "sorted_wrt (\<lambda>a b. \<not> pair_less b a) (stable_sort pair_less v)" by (simp add: stable_psort_def)
  then show ?thesis by (rule sorted_wrt_mono_rel [rotated]) (auto simp: pair_less_def)
qed

lemma warm_runs_inside:
  assumes "\<And>A. finite A \<Longrightarrow> distinct (order A) \<and> set (order A) = A" "\<forall>x \<in> set ranges. range_ok (snd x)"
  shows "(\<forall>r \<in> set (warm_runs order ranges). warm_run_ok r) \<and>
    (\<forall>x \<in> set ranges. \<exists>r \<in> set (warm_runs order ranges). inside x r)"
proof -
  let ?v = "\<lambda>shard. stable_sort pair_less (map snd (filter (\<lambda>(s, _). s = shard) ranges))"
  have main: "(\<forall>r \<in> set (fold (\<lambda>shard. warm_merge shard (?v shard)) ks runs). warm_run_ok r) \<and>
      (\<forall>x. (\<exists>r \<in> set runs. inside x r) \<longrightarrow> (\<exists>r \<in> set (fold (\<lambda>shard. warm_merge shard (?v shard)) ks runs). inside x r)) \<and>
      (\<forall>x \<in> set ranges. fst x \<in> set ks \<longrightarrow> (\<exists>r \<in> set (fold (\<lambda>shard. warm_merge shard (?v shard)) ks runs). inside x r))"
    if "\<forall>r \<in> set runs. warm_run_ok r" "distinct ks" "\<forall>r \<in> set runs. wr_shard r \<notin> set ks" for ks runs
    using that
  proof (induction ks arbitrary: runs)
    case Nil
    then show ?case by simp
  next
    case (Cons k ks)
    let ?runs = "warm_merge k (?v k) runs"
    have ok: "\<forall>x \<in> set (?v k). range_ok x" using assms(2) by auto
    have last: "wr_shard (last runs) \<noteq> k" if "runs \<noteq> []" using Cons.prems(3) that by auto
    have m: "(\<forall>r \<in> set ?runs. warm_run_ok r) \<and>
      (\<forall>x. (\<exists>r \<in> set runs. inside x r) \<longrightarrow> (\<exists>r \<in> set ?runs. inside x r)) \<and>
      (\<forall>x \<in> set (?v k). \<exists>r \<in> set ?runs. inside (k, x) r)"
      by (rule warm_merge_inside [OF Cons.prems(1) ok sorted_by_offset]) (use last in auto)
    have shards: "wr_shard r \<in> {k} \<union> wr_shard ` set rs" if "r \<in> set (warm_merge k v rs)" for r v rs
      using that
    proof (induction k v rs rule: warm_merge.induct)
      case (2 shard off sz v runs)
      then show ?case by (auto split: if_splits dest: in_set_butlastD)
    qed auto
    have "\<forall>r \<in> set ?runs. wr_shard r \<notin> set ks" using shards Cons.prems(2,3) by fastforce
    from Cons.IH [OF conjunct1 [OF m] _ this] Cons.prems(2) m show ?case by auto
  qed
  have ks: "distinct (order (fst ` set ranges))" "set (order (fst ` set ranges)) = fst ` set ranges"
    using assms(1) by simp_all
  from main [of "[]", OF _ ks(1)] ks(2) show ?thesis unfolding warm_runs_def by auto
qed

subsection \<open>Chunks and the buffer pool\<close>

text \<open>
  Walking through the actions with the set of pool buffers that hold an outstanding read: a read
  must go to a free buffer of the pool and fit it; a wait frees all.
\<close>

fun pool_ok :: "nat set \<Rightarrow> warm_action list \<Rightarrow> bool" where
  "pool_ok busy [] \<longleftrightarrow> True"
| "pool_ok busy (WRead shard off sz dest # as) \<longleftrightarrow> dest \<notin> busy \<and> kWarmChunk \<ge> sz \<and>
     dest + unat kWarmChunk \<le> kWarmPool * unat kWarmChunk \<and> pool_ok (insert dest busy) as"
| "pool_ok busy (WWait # as) \<longleftrightarrow> pool_ok {} as"

definition pool_busy :: "nat \<Rightarrow> nat set" where
  "pool_busy n = (\<lambda>i. i * unat kWarmChunk) ` {..<n mod kWarmPool}"

definition reads_byte :: "string \<Rightarrow> nat \<Rightarrow> warm_action list \<Rightarrow> bool" where
  "reads_byte shard p acts \<longleftrightarrow>
     (\<exists>off sz dest. WRead shard off sz dest \<in> set acts \<and> unat off \<le> p \<and> p < unat off + unat sz)"

lemma unat_kWarmChunk: "unat kWarmChunk = 8388608"
  by (simp add: kWarmChunk_def)

lemma pool_submit:
  assumes "sz \<le> kWarmChunk" "pool_ok (pool_busy (Suc n)) rest"
  shows "pool_ok (pool_busy n) (warm_submit shard off sz n @ rest)"
proof -
  have lt: "n mod kWarmPool < kWarmPool" by (simp add: kWarmPool_def)
  have fresh: "n mod kWarmPool * unat kWarmChunk \<notin> pool_busy n"
    by (auto simp: pool_busy_def unat_kWarmChunk)
  have fits: "n mod kWarmPool * unat kWarmChunk + unat kWarmChunk \<le> kWarmPool * unat kWarmChunk"
    using mult_right_mono [of "Suc (n mod kWarmPool)" kWarmPool "unat kWarmChunk"] lt by simp
  show ?thesis
  proof (cases "Suc n mod kWarmPool = 0")
    case True
    then have "pool_busy (Suc n) = {}" by (simp add: pool_busy_def)
    then show ?thesis using assms fresh fits True by (simp add: warm_submit_def)
  next
    case False
    then have "Suc n mod kWarmPool = Suc (n mod kWarmPool)" by (simp add: mod_Suc split: if_splits)
    then have "pool_busy (Suc n) = insert (n mod kWarmPool * unat kWarmChunk) (pool_busy n)"
      by (simp add: pool_busy_def lessThan_Suc)
    then show ?thesis using assms fresh fits False by (simp add: warm_submit_def)
  qed
qed

lemma reads_byte_append: "reads_byte shard p (xs @ ys) \<longleftrightarrow> reads_byte shard p xs \<or> reads_byte shard p ys"
  unfolding reads_byte_def set_append Un_iff by blast

lemma reads_byte_submit:
  "reads_byte shard p (warm_submit shard off sz n) \<longleftrightarrow> unat off \<le> p \<and> p < unat off + unat sz"
  by (auto simp: reads_byte_def warm_submit_def)

lemma warm_chunks_spec:
  assumes "unat e < 2 ^ 62" "unat pos < 2 ^ 62 + unat kWarmChunk"
  shows "\<exists>acts n'. warm_chunks shard pos e n = Some (acts, n') \<and>
    (\<forall>rest. pool_ok (pool_busy n') rest \<longrightarrow> pool_ok (pool_busy n) (acts @ rest)) \<and>
    (\<forall>p. unat pos \<le> p \<longrightarrow> p < unat e \<longrightarrow> reads_byte shard p acts)"
  using assms
proof (induction "unat e - unat pos" arbitrary: pos n rule: less_induct)
  case less
  show ?case
  proof (cases "pos < e")
    case False
    then show ?thesis by (subst warm_chunks.simps) (simp add: word_less_nat_alt)
  next
    case True
    then have lt: "unat pos < unat e" by (simp add: word_less_nat_alt)
    have next_pos: "unat (pos + kWarmChunk) = unat pos + unat kWarmChunk"
      using less.prems(1) lt by (intro unat_add_64) (simp add: unat_kWarmChunk)
    have dec: "unat e - unat (pos + kWarmChunk) < unat e - unat pos"
      using next_pos lt by (simp add: unat_kWarmChunk)
    have bound: "unat (pos + kWarmChunk) < 2 ^ 62 + unat kWarmChunk" using next_pos lt less.prems(1) by simp
    obtain acts n' where r: "warm_chunks shard (pos + kWarmChunk) e (Suc n) = Some (acts, n')"
      "\<forall>rest. pool_ok (pool_busy n') rest \<longrightarrow> pool_ok (pool_busy (Suc n)) (acts @ rest)"
      "\<forall>p. unat (pos + kWarmChunk) \<le> p \<longrightarrow> p < unat e \<longrightarrow> reads_byte shard p acts"
      using less.hyps [OF dec less.prems(1) bound] by blast
    let ?sz = "min kWarmChunk (e - pos)"
    have sub: "unat (e - pos) = unat e - unat pos" using True by (simp add: unat_sub_le)
    have sz: "?sz \<le> kWarmChunk" "unat ?sz = min (unat kWarmChunk) (unat e - unat pos)"
      using sub by (simp_all add: min_def word_le_nat_alt)
    have "warm_chunks shard pos e n = Some (warm_submit shard pos ?sz n @ acts, n')"
      using True r(1) by (subst warm_chunks.simps) simp
    moreover have "pool_ok (pool_busy n) ((warm_submit shard pos ?sz n @ acts) @ rest)"
      if "pool_ok (pool_busy n') rest" for rest
      using pool_submit [OF sz(1)] r(2) that by simp
    moreover have "reads_byte shard p (warm_submit shard pos ?sz n @ acts)" if "unat pos \<le> p" "p < unat e" for p
    proof (cases "p < unat pos + unat kWarmChunk")
      case True
      then have "p < unat pos + min (unat kWarmChunk) (unat e - unat pos)" using that by linarith
      then show ?thesis using that sz(2) by (simp add: reads_byte_append reads_byte_submit)
    next
      case False
      then show ?thesis using r(3) that next_pos by (simp add: reads_byte_append)
    qed
    ultimately show ?thesis by blast
  qed
qed

lemma warm_all_spec:
  assumes "\<forall>r \<in> set rs. warm_run_ok r"
  shows "\<exists>acts. warm_all rs n = Some acts \<and> pool_ok (pool_busy n) acts \<and>
    (\<forall>r \<in> set rs. \<forall>p. unat (wr_start r) \<le> p \<longrightarrow> p < unat (wr_end r) \<longrightarrow> reads_byte (wr_shard r) p acts)"
  using assms
proof (induction rs arbitrary: n)
  case Nil
  then show ?case by simp
next
  case (Cons r rs)
  have b: "unat (wr_end r) < 2 ^ 62" "unat (wr_start r) < 2 ^ 62 + unat kWarmChunk"
    using Cons.prems by (simp_all add: warm_run_ok_def)
  obtain a n' where a: "warm_chunks (wr_shard r) (wr_start r) (wr_end r) n = Some (a, n')"
    "\<forall>rest. pool_ok (pool_busy n') rest \<longrightarrow> pool_ok (pool_busy n) (a @ rest)"
    "\<forall>p. unat (wr_start r) \<le> p \<longrightarrow> p < unat (wr_end r) \<longrightarrow> reads_byte (wr_shard r) p a"
    using warm_chunks_spec [OF b] by blast
  obtain acts where "warm_all rs n' = Some acts" "pool_ok (pool_busy n') acts"
    "\<forall>r \<in> set rs. \<forall>p. unat (wr_start r) \<le> p \<longrightarrow> p < unat (wr_end r) \<longrightarrow> reads_byte (wr_shard r) p acts"
    using Cons.IH [of n'] Cons.prems by auto
  with a show ?case by (auto simp: reads_byte_append)
qed

lemma warm_dense_reads:
  assumes "\<And>A. finite A \<Longrightarrow> distinct (order A) \<and> set (order A) = A" "\<forall>x \<in> set (dense_ranges w). range_ok (snd x)"
  shows "\<exists>acts. warmDenseWeights True order (Some w) = Some acts \<and> pool_ok {} acts \<and>
    (\<forall>(shard, off, sz) \<in> set (dense_ranges w). \<forall>i < unat sz. reads_byte shard (unat off + i) acts)"
proof -
  let ?runs = "warm_runs order (dense_ranges w)"
  note r = warm_runs_inside [OF assms]
  show ?thesis
  proof (cases "?runs = []")
    case True
    then have "dense_ranges w = []" using r by (cases "dense_ranges w") auto
    then show ?thesis using True by (simp add: warmDenseWeights_def)
  next
    case False
    obtain acts where a: "warm_all ?runs 0 = Some acts" "pool_ok (pool_busy 0) acts"
      "\<forall>r \<in> set ?runs. \<forall>p. unat (wr_start r) \<le> p \<longrightarrow> p < unat (wr_end r) \<longrightarrow> reads_byte (wr_shard r) p acts"
      using warm_all_spec [of ?runs 0] r by blast
    have "reads_byte shard (unat off + i) acts" if x: "(shard, off, sz) \<in> set (dense_ranges w)" "i < unat sz" for shard off sz i
    proof -
      obtain run where "run \<in> set ?runs" "inside (shard, off, sz) run" using r x(1) by blast
      then show ?thesis using a(3) x(2) by (auto simp: inside_def)
    qed
    then show ?thesis using a(1,2) False by (auto simp: warmDenseWeights_def Let_def pool_busy_def)
  qed
qed

text \<open>
  Warming reads every byte of every dense, shared, embedding and head tensor, ends, and never
  lets two outstanding reads share a buffer or overrun the pool: a buffer is reused only after the
  reader has been drained.
\<close>

theorem warm_reads_everything:
  assumes "\<And>A. finite A \<Longrightarrow> distinct (order A) \<and> set (order A) = A" "\<forall>x \<in> set (dense_ranges w). range_ok (snd x)"
  shows "\<exists>acts. warmDenseWeights True order (Some w) = Some acts \<and> pool_ok {} acts \<and>
    (\<forall>(shard, off, sz) \<in> set (dense_ranges w). \<forall>i < unat sz. reads_byte shard (unat off + i) acts)"
  by (rule warm_dense_reads [OF assms])

lemma warm_reads_everything_witness:
  "\<exists>acts. warmDenseWeights True sorted_list_of_set (Some (WeightIndex\<lparr>lmHead := head_loc\<rparr>)) = Some acts \<and>
     pool_ok {} acts \<and> reads_byte ''d/a.safetensors'' 23 acts"
proof -
  let ?w = "WeightIndex\<lparr>lmHead := head_loc\<rparr>"
  have d: "dense_ranges ?w = [(''d/a.safetensors'', 16, 8)]"
    by (simp add: dense_ranges_def warm_add_def WeightIndex_def TensorLocation_def head_loc_def tensor_loc_def
        head_st_def head_info_def ti_byteSize_def)
  have "\<forall>x \<in> set (dense_ranges ?w). range_ok (snd x)" unfolding d by (simp add: range_ok_def)
  from warm_reads_everything [OF _ this, of sorted_list_of_set] obtain acts where
    a: "warmDenseWeights True sorted_list_of_set (Some ?w) = Some acts" "pool_ok {} acts"
    "\<forall>(shard, off, sz) \<in> set (dense_ranges ?w). \<forall>i < unat sz. reads_byte shard (unat off + i) acts" by auto
  from a(3) have "\<forall>i < 8. reads_byte ''d/a.safetensors'' (16 + i) acts" unfolding d by simp
  from this [rule_format, of 7] a show ?thesis by auto
qed

end
