(* ===== verification/Scheduler.thy ===== *)
theory Scheduler
  imports ReadRuns LruCache Placement KvCache InferenceStats
begin

text \<open>
  \<open>engine/scheduler.h\<close>, \<open>engine/scheduler.cpp\<close>: the scheduler that stages expert weights. Its
  operations are functions on a state record; the reads it has in flight are tasks of that state,
  advanced one action at a time by \<open>sched_step\<close>, so that an interleaving of the worker threads is a
  list of task numbers. Assemblies (shared pointers) live in a store and are named by their index.
  \<^const>\<open>None\<close> is undefined behaviour: an access outside a vector or a buffer, an \<open>int\<close> overflow.
  Clocks and log lines are not modelled.
\<close>

subsection \<open>Constants and data\<close>

definition kSharedGateProjSlot :: u16 where "kSharedGateProjSlot = 0xFF00"
definition kSharedUpProjSlot :: u16 where "kSharedUpProjSlot = 0xFF01"
definition kSharedDownProjSlot :: u16 where "kSharedDownProjSlot = 0xFF02"
definition kPinThreshold :: int where "kPinThreshold = 5"
definition kMaxPrefetchInFlight :: nat where "kMaxPrefetchInFlight = 40"
definition kSpecOverlapFloor :: f32 where "kSpecOverlapFloor = f32_half"
definition kSpecOverlapAlpha :: f32 where "kSpecOverlapAlpha = f32_half"

definition sharedSlotLoc :: "layer_weights \<Rightarrow> u16 \<Rightarrow> tensor_location" where
  "sharedSlotLoc lw slot =
     (if slot = kSharedGateProjSlot then sharedGateProj lw
      else if slot = kSharedUpProjSlot then sharedUpProj lw
      else sharedDownProj lw)"

record assembly =
  as_key :: expert_key
  as_total :: u64
  as_handle :: buffer_handle
  as_remaining :: int
  as_inserted :: bool

text \<open>A submitted run, and a callback that still has slices to deliver from its buffer.\<close>

datatype io_task = TQueued shard_run | TDeliver "io_slice list" bytes u64

record scheduler =
  sc_lru :: expert_lru
  sc_running :: bool
  sc_placement :: placement_director
  sc_index :: "weight_index option"
  lastTopK :: "int list list"
  overlapEma :: "f32 list"
  lastTopKProbs :: "(int \<times> f32) list list"
  prefetchExtraDepth :: int
  probPriority :: bool
  layerMaxProb :: "f32 list"
  emaPredictor :: bool
  emaAlpha :: f32
  emaHeat :: "expert_key \<rightharpoonup> f32"
  routingStep :: u64
  demandFirstWaitStep :: u64
  lastUseStep :: "expert_key \<rightharpoonup> u64"
  routedPredKeys :: "expert_key set"
  exScratch :: bytes
  shScratch :: "bytes list"
  prefetchedInFlight :: "expert_key set"
  sc_assemblies :: "assembly list"
  sc_tasks :: "io_task list"
  sc_stats :: inference_stats

definition Scheduler :: scheduler where
  "Scheduler = \<lparr>sc_lru = ExpertLRU (20 * 1024 * 1024 * 1024), sc_running = False, sc_placement = PlacementDirector,
     sc_index = None, lastTopK = [], overlapEma = [], lastTopKProbs = [], prefetchExtraDepth = 0,
     probPriority = False, layerMaxProb = [], emaPredictor = False, emaAlpha = 0x3DCCCCCD, emaHeat = Map.empty,
     routingStep = 0, demandFirstWaitStep = -1, lastUseStep = Map.empty, routedPredKeys = {}, exScratch = [],
     shScratch = [[], [], []], prefetchedInFlight = {}, sc_assemblies = [], sc_tasks = [], sc_stats = stats_zero\<rparr>"

text \<open>
  The surroundings: the files, what a mapped view of a shard shows, the sorts, and the iteration
  orders of the hash maps.
\<close>

record sched_env =
  se_files :: files
  se_view :: "string \<Rightarrow> bytes option"
  se_sort :: io_sorter
  se_order :: "string set \<Rightarrow> string list"
  se_korder :: "expert_key set \<Rightarrow> expert_key list"
  se_fsort :: "(f32 \<times> int \<Rightarrow> f32 \<times> int \<Rightarrow> bool) \<Rightarrow> nat \<Rightarrow> (f32 \<times> int) list \<Rightarrow> (f32 \<times> int) list"

definition bump :: "(inference_stats \<Rightarrow> inference_stats) \<Rightarrow> scheduler \<Rightarrow> scheduler" where
  "bump f s = s\<lparr>sc_stats := f (sc_stats s)\<rparr>"

abbreviation inc :: "((u64 \<Rightarrow> u64) \<Rightarrow> inference_stats \<Rightarrow> inference_stats) \<Rightarrow> scheduler \<Rightarrow> scheduler" where
  "inc upd \<equiv> bump (upd (\<lambda>n. n + 1))"

definition keyOf :: "int \<Rightarrow> int \<Rightarrow> expert_key" where
  "keyOf layer expertId = ExpertKey (word_of_int layer) (word_of_int expertId)"

subsection \<open>Configuration\<close>

definition sched_init :: "weight_index \<Rightarrow> u64 \<Rightarrow> u64 \<Rightarrow> u64 \<Rightarrow> scheduler \<Rightarrow> scheduler option" where
  "sched_init idx lruCapacityBytes ramBudgetBytes vramBudgetBytes s =
     (let ram = (if ramBudgetBytes = 0 then lruCapacityBytes + 34 * 1024 * 1024 * 1024 else ramBudgetBytes);
          p = setRamBudget ram (sc_placement s);
          p = (if 0 < vramBudgetBytes then setVramBudget vramBudgetBytes p else p);
          n = nat (numLayers (wi_config idx)) in
      if numLayers (wi_config idx) < 0 then None
      else Some (s\<lparr>sc_index := Some idx, sc_lru := lru_resize lruCapacityBytes (sc_lru s), sc_placement := p,
        sc_running := True, lastTopK := vec_resize n [] (lastTopK s),
        overlapEma := vec_resize n f32_zero (overlapEma s),
        lastTopKProbs := vec_resize n [] (lastTopKProbs s), layerMaxProb := replicate n f32_zero\<rparr>))"

definition setRouterPrefetch :: "int \<Rightarrow> bool \<Rightarrow> scheduler \<Rightarrow> scheduler" where
  "setRouterPrefetch extraDepth prob s = s\<lparr>prefetchExtraDepth := max 0 extraDepth, probPriority := prob\<rparr>"

definition setPopularityPredictor :: "f32 \<Rightarrow> bool \<Rightarrow> scheduler \<Rightarrow> scheduler" where
  "setPopularityPredictor alpha enable s = s\<lparr>emaPredictor := enable,
     emaAlpha := (if f32_lt f32_zero alpha \<and> f32_le alpha f32_one then alpha else 0x3DCCCCCD)\<rparr>"

text \<open>\<open>shutdown\<close>: the drain is the workers' steps; what remains is that no read is accepted any more.\<close>

definition sched_shutdown :: "scheduler \<Rightarrow> scheduler" where
  "sched_shutdown s = s\<lparr>sc_running := False\<rparr>"

definition sched_probe :: "expert_key \<Rightarrow> scheduler \<Rightarrow> bool" where
  "sched_probe key s \<longleftrightarrow> lru_contains key (sc_lru s) \<or> key \<in> prefetchedInFlight s"

definition inFlightKeysSnapshot :: "scheduler \<Rightarrow> nat" where
  "inFlightKeysSnapshot s = card (prefetchedInFlight s)"

subsection \<open>Prediction\<close>

definition in_layers :: "int \<Rightarrow> 'a list \<Rightarrow> bool" where
  "in_layers layer xs \<longleftrightarrow> 0 \<le> layer \<and> layer < int (length xs)"

fun hot_fill :: "nat \<Rightarrow> nat \<Rightarrow> (f32 \<times> int) list \<Rightarrow> int list \<Rightarrow> int list" where
  "hot_fill numNeed reuse [] hot = hot"
| "hot_fill numNeed reuse ((heat, eid) # cs) hot =
     (if numNeed \<le> length hot + reuse then hot else hot_fill numNeed reuse cs (hot @ [eid]))"

definition hot_candidates :: "sched_env \<Rightarrow> int \<Rightarrow> int list \<Rightarrow> scheduler \<Rightarrow> (f32 \<times> int) list" where
  "hot_candidates env nextLayer seen s =
     List.map_filter (\<lambda>key. case emaHeat s key of
        None \<Rightarrow> None
      | Some heat \<Rightarrow>
          if ek_layer key \<noteq> word_of_int nextLayer \<or>
             (case sc_index s of None \<Rightarrow> True | Some w \<Rightarrow> numLocalExperts (wi_config w) \<le> uint (ek_id key)) \<or>
             uint (ek_id key) \<in> set seen \<or> \<not> f32_lt f32_zero heat
          then None else Some (heat, uint (ek_id key)))
       (se_korder env (dom (emaHeat s)))"

definition predictNextLayerExperts :: "sched_env \<Rightarrow> int \<Rightarrow> int list \<Rightarrow> scheduler \<Rightarrow> int list" where
  "predictNextLayerExperts env nextLayer currentTopK s =
     (let haveReuse = (in_layers nextLayer (lastTopK s) \<and> lastTopK s ! nat nextLayer \<noteq> []);
          reuse = (if haveReuse then lastTopK s ! nat nextLayer else currentTopK) in
      if \<not> emaPredictor s then reuse
      else
        let candidates = hot_candidates env nextLayer reuse s;
            ranked = se_fsort env (\<lambda>a b. f32_lt (fst b) (fst a)) (length candidates) candidates;
            hot = hot_fill (length reuse) (length reuse) ranked [] in
        if hot = [] \<and> \<not> haveReuse then reuse else reuse @ hot)"

definition noteRoutingUse :: "int \<Rightarrow> int \<Rightarrow> scheduler \<Rightarrow> scheduler" where
  "noteRoutingUse layer expertId s =
     (let key = keyOf layer expertId;
          s = (case lastUseStep s key of
             None \<Rightarrow> s
           | Some step \<Rightarrow>
               if step < routingStep s
               then bump (reuseDistanceSum_update (\<lambda>n. n + (routingStep s - step)) \<circ>
                      reuseDistanceCount_update (\<lambda>n. n + 1)) s
               else s)
      in s\<lparr>lastUseStep := (lastUseStep s)(key \<mapsto> routingStep s)\<rparr>)"

subsection \<open>Staging\<close>

text \<open>
  The locations of a key's projections: the inner \<^const>\<open>None\<close> is a key that is passed over, the
  outer one an access outside the index.
\<close>

definition key_locs :: "weight_index \<Rightarrow> int \<Rightarrow> u16 \<Rightarrow> tensor_location list option option" where
  "key_locs w layer eid =
     Option.bind (rd (wi_layers w) (nat layer)) (\<lambda>lw.
       if kSharedGateProjSlot \<le> eid then
         Some (if eid \<notin> {kSharedGateProjSlot, kSharedUpProjSlot, kSharedDownProjSlot} then None
               else Some [sharedSlotLoc lw eid])
       else if numLocalExperts (wi_config w) \<le> uint eid then Some None
       else Option.bind (rd (routedExperts w) (nat layer)) (\<lambda>row.
         map_option (\<lambda>ew. Some [gateProj ew, upProj ew, downProj ew]) (rd row (unat eid))))"

definition locs_total :: "tensor_location list \<Rightarrow> u64" where
  "locs_total locs = foldl (\<lambda>n loc. n + byteSize loc) 0 locs"

text \<open>The projections with bytes become ranges, the others only lower \<open>remaining\<close>.\<close>

fun push_ios :: "nat \<Rightarrow> u16 \<Rightarrow> tensor_location list \<Rightarrow> u64 \<Rightarrow> (string \<times> projection_io) list" where
  "push_ios a eid [] expertOffset = []"
| "push_ios a eid (loc # locs) expertOffset =
     (if byteSize loc = 0 then push_ios a eid locs expertOffset
      else (shardPath loc, \<lparr>pj_assem = a, pj_slot = eid, pj_offset = byteOffset loc, pj_size = byteSize loc,
              pj_expertOffset = expertOffset\<rparr>)
           # push_ios a eid locs (expertOffset + byteSize loc))"

type_synonym staging = "scheduler \<times> expert_key list \<times> (string \<times> projection_io) list"

definition stage_key :: "weight_index \<Rightarrow> bool \<Rightarrow> int \<times> int \<Rightarrow> staging \<Rightarrow> staging option" where
  "stage_key w demand le st =
     (case (le, st) of ((layer, eidRaw), (s, keys, ios)) \<Rightarrow>
      if layer < 0 \<or> numLayers (wi_config w) \<le> layer then Some st
      else
        let eid = word_of_int eidRaw; key = ExpertKey (word_of_int layer) eid in
        if sched_probe key s then Some st
        else if lru_contains key (sc_lru s) then Some (inc stageSkipLru_update s, keys, ios)
        else (case key_locs w layer eid of
            None \<Rightarrow> None
          | Some None \<Rightarrow> Some st
          | Some (Some locs) \<Rightarrow>
              let total = locs_total locs; a = length (sc_assemblies s) in
              if total = 0 then Some st
              else
                let s = (if demand then inc demandKeysStaged_update s else s);
                    ass = \<lparr>as_key = key, as_total = total, as_handle = BufferHandle total,
                           as_remaining = int (length (filter (\<lambda>loc. byteSize loc \<noteq> 0) locs)),
                           as_inserted = False\<rparr> in
                Some (s\<lparr>sc_assemblies := sc_assemblies s @ [ass]\<rparr>, keys @ [key], ios @ push_ios a eid locs 0)))"

fun stage_keys :: "weight_index \<Rightarrow> bool \<Rightarrow> (int \<times> int) list \<Rightarrow> staging \<Rightarrow> staging option" where
  "stage_keys w demand [] st = Some st"
| "stage_keys w demand (le # les) st = Option.bind (stage_key w demand le st) (stage_keys w demand les)"

text \<open>A reader that is not running calls back with a failure at once, so nothing is left in flight.\<close>

definition submit_run :: "shard_run \<Rightarrow> scheduler \<Rightarrow> scheduler" where
  "submit_run run s =
     (let runSize = sr_end run - sr_start run in
      if runSize = 0 \<or> sr_slices run = [] then s
      else
        let s = bump (prefetchSubmitted_update (\<lambda>n. n + 1) \<circ> ioReadCount_update (\<lambda>n. n + 1) \<circ>
                  randomIoCount_update (\<lambda>n. n + 1) \<circ> runsInFlight_update (\<lambda>n. n + 1) \<circ>
                  diskBytesRead_update (\<lambda>n. n + runSize) \<circ> sequentialBytes_update (\<lambda>n. n + runSize)) s in
        if sc_running s then s\<lparr>sc_tasks := sc_tasks s @ [TQueued run]\<rparr>
        else bump (runsInFlight_update (\<lambda>n. n - 1)) s)"

definition prefetchAsync :: "sched_env \<Rightarrow> (int \<times> int) list \<Rightarrow> bool \<Rightarrow> scheduler \<Rightarrow> scheduler option" where
  "prefetchAsync env experts demand s =
     (case sc_index s of
        None \<Rightarrow> Some s
      | Some w \<Rightarrow>
          if \<not> demand \<and> kMaxPrefetchInFlight \<le> card (prefetchedInFlight s) then Some s
          else map_option
            (\<lambda>(s, keys, ios).
               fold submit_run (build_runs (se_sort env) (se_order env) ios)
                 (s\<lparr>prefetchedInFlight := prefetchedInFlight s \<union> set keys\<rparr>))
            (stage_keys w demand experts (s, [], [])))"

subsection \<open>The callbacks\<close>

definition finish_assembly :: "nat \<Rightarrow> assembly \<Rightarrow> scheduler \<Rightarrow> scheduler" where
  "finish_assembly i a s =
     (case lru_insert (as_key a) (as_handle a) True (sc_lru s) of
        (ok, c) \<Rightarrow>
          let s = (if ok then inc prefetchInserted_update s else s) in
          s\<lparr>sc_lru := c, prefetchedInFlight := prefetchedInFlight s - {as_key a},
            sc_assemblies := (sc_assemblies s)[i := a\<lparr>as_inserted := True, as_handle := BufferHandle_default\<rparr>]\<rparr>)"

definition deliver_slice :: "io_slice \<Rightarrow> bytes \<Rightarrow> u64 \<Rightarrow> scheduler \<Rightarrow> scheduler option" where
  "deliver_slice sl buf bytesRead s =
     Option.bind (rd (sc_assemblies s) (sl_assem sl)) (\<lambda>a.
     Option.bind
       (if sl_offsetInRun sl + sl_size sl \<le> bytesRead
        then map_option (\<lambda>d. a\<lparr>as_handle := (as_handle a)\<lparr>bh_data := d\<rparr>\<rparr>)
               (memcpy (bh_data (as_handle a)) (unat (sl_expertOffset sl)) buf (unat (sl_offsetInRun sl)) (unat (sl_size sl)))
        else Some a) (\<lambda>a.
       let a = a\<lparr>as_remaining := as_remaining a - 1\<rparr> in
       if as_remaining a = 0 \<and> \<not> as_inserted a then Some (finish_assembly (sl_assem sl) a s)
       else Some (s\<lparr>sc_assemblies := (sc_assemblies s)[sl_assem sl := a]\<rparr>)))"

definition drop_task :: "nat \<Rightarrow> scheduler \<Rightarrow> scheduler" where
  "drop_task n s = s\<lparr>sc_tasks := take n (sc_tasks s) @ drop (Suc n) (sc_tasks s)\<rparr>"

text \<open>The next action of task \<open>n\<close>: the read of a submitted run, or the next slice of a callback.\<close>

definition sched_step :: "sched_env \<Rightarrow> nat \<Rightarrow> scheduler \<Rightarrow> scheduler option" where
  "sched_step env n s =
     (case rd (sc_tasks s) n of
        None \<Rightarrow> Some s
      | Some (TQueued run) \<Rightarrow>
          let c = worker_read (se_files env) \<lparr>rq_id = 0, rq_filePath = sr_shard run, rq_offset = sr_start run,
                    rq_size = sr_end run - sr_start run\<rparr>;
              s = bump (runsInFlight_update (\<lambda>n. n - 1)) s in
          if cp_success c
          then Some (s\<lparr>sc_tasks := (sc_tasks s)[n := TDeliver (sr_slices run) (cp_data c) (of_nat (length (cp_data c)))]\<rparr>)
          else Some (drop_task n s)
      | Some (TDeliver [] buf bytesRead) \<Rightarrow> Some (drop_task n s)
      | Some (TDeliver (sl # sls) buf bytesRead) \<Rightarrow>
          deliver_slice sl buf bytesRead (s\<lparr>sc_tasks := (sc_tasks s)[n := TDeliver sls buf bytesRead]\<rparr>))"

definition run_workers :: "sched_env \<Rightarrow> nat list \<Rightarrow> scheduler \<Rightarrow> scheduler option" where
  "run_workers env = run_steps (sched_step env)"

subsection \<open>The router's report\<close>

definition overlap_roll :: "int list \<Rightarrow> int list \<Rightarrow> f32 \<Rightarrow> f32" where
  "overlap_roll prev topKExperts ema =
     (let shared = length (filter (\<lambda>e. e \<in> set prev) topKExperts);
          cur = f32_div (f32_of_int (int shared)) (f32_of_int (int (max (length prev) (length topKExperts)))) in
      f32_add (f32_mul kSpecOverlapAlpha cur) (f32_mul (f32_sub f32_one kSpecOverlapAlpha) ema))"

definition note_topk :: "int \<Rightarrow> int list \<Rightarrow> scheduler \<Rightarrow> scheduler" where
  "note_topk layer topKExperts s =
     (if in_layers layer (lastTopK s) then
        let prev = lastTopK s ! nat layer;
            ema = (if in_layers layer (overlapEma s) \<and> prev \<noteq> [] \<and> topKExperts \<noteq> []
                   then (overlapEma s)[nat layer := overlap_roll prev topKExperts (overlapEma s ! nat layer)]
                   else overlapEma s) in
        s\<lparr>overlapEma := ema, lastTopK := (lastTopK s)[nat layer := topKExperts]\<rparr>
      else s)"

fun note_probs :: "int \<Rightarrow> int list \<Rightarrow> f32 list \<Rightarrow> (int \<times> f32) list \<Rightarrow> scheduler \<Rightarrow> scheduler" where
  "note_probs layer [] probs pairs s =
     (if in_layers layer (lastTopKProbs s) then s\<lparr>lastTopKProbs := (lastTopKProbs s)[nat layer := pairs]\<rparr> else s)"
| "note_probs layer (eid # eids) probs pairs s =
     (let p = (case probs of [] \<Rightarrow> f32_zero | x # _ \<Rightarrow> x);
          s = (if probPriority s \<and> in_layers layer (layerMaxProb s)
               then s\<lparr>layerMaxProb := (layerMaxProb s)[nat layer := f32_max (layerMaxProb s ! nat layer) p]\<rparr> else s) in
      note_probs layer eids (drop 1 probs) (pairs @ [(eid, p)]) (noteRoutingUse layer eid s))"

definition in_experts :: "weight_index \<Rightarrow> int \<Rightarrow> bool" where
  "in_experts w eid \<longleftrightarrow> 0 \<le> eid \<and> eid < numLocalExperts (wi_config w)"

fun ema_heat :: "weight_index \<Rightarrow> f32 \<Rightarrow> int \<Rightarrow> int list \<Rightarrow> (expert_key \<rightharpoonup> f32) \<Rightarrow> expert_key \<Rightarrow> f32 \<Rightarrow>
    (expert_key \<rightharpoonup> f32) \<times> expert_key \<times> f32" where
  "ema_heat w a layer [] heat bestKey bestHeat = (heat, bestKey, bestHeat)"
| "ema_heat w a layer (eid # eids) heat bestKey bestHeat =
     (if \<not> in_experts w eid then ema_heat w a layer eids heat bestKey bestHeat
      else
        let k = keyOf layer eid; h0 = (case heat k of None \<Rightarrow> f32_zero | Some h \<Rightarrow> h);
            h = f32_add (f32_mul a f32_one) (f32_mul (f32_sub f32_one a) h0); heat = heat(k \<mapsto> h) in
        if f32_lt bestHeat h then ema_heat w a layer eids heat k h
        else ema_heat w a layer eids heat bestKey bestHeat)"

definition ema_roll :: "weight_index \<Rightarrow> int \<Rightarrow> int list \<Rightarrow> scheduler \<Rightarrow> scheduler" where
  "ema_roll w layer topKExperts s =
     (if emaPredictor s \<and> 0 \<le> layer then
        let a = (if f32_lt f32_zero (emaAlpha s) \<and> f32_le (emaAlpha s) f32_one then emaAlpha s else 0x3DCCCCCD) in
        (case ema_heat w a layer topKExperts (emaHeat s) (keyOf layer 0) (f32_minus f32_one) of
           (heat, bestKey, bestHeat) \<Rightarrow>
             let s = s\<lparr>emaHeat := heat\<rparr> in
             if f32_lt f32_zero bestHeat then s\<lparr>sc_lru := lru_boost bestKey 1 (sc_lru s)\<rparr> else s)
      else s)"

definition spec_gate :: "int \<Rightarrow> scheduler \<Rightarrow> bool" where
  "spec_gate nextLayer s \<longleftrightarrow>
     \<not> (in_layers nextLayer (overlapEma s) \<and> f32_lt (overlapEma s ! nat nextLayer) kSpecOverlapFloor)"

definition note_predicted :: "weight_index \<Rightarrow> int \<Rightarrow> int list \<Rightarrow> scheduler \<Rightarrow> scheduler" where
  "note_predicted w nextLayer predicted s =
     (if predicted = [] then s
      else (bump (routedPredStaged_update (\<lambda>n. n + of_nat (length predicted))) s)
        \<lparr>routedPredKeys := routedPredKeys s \<union> keyOf nextLayer ` set (filter (in_experts w) predicted)\<rparr>)"

definition extra_prefetch :: "sched_env \<Rightarrow> int \<Rightarrow> int list \<Rightarrow> scheduler \<Rightarrow> int list" where
  "extra_prefetch env layer predicted s =
     (if 0 < prefetchExtraDepth s \<and> in_layers layer (lastTopKProbs s) then
        let candidates = map (\<lambda>(eid, p). (p, eid)) (filter (\<lambda>(eid, p). f32_lt f32_zero p \<and> eid \<notin> set predicted)
              (lastTopKProbs s ! nat layer));
            ranked = se_fsort env (\<lambda>a b. f32_lt (fst b) (fst a)) (length candidates) candidates in
        predicted @ map snd (take (nat (prefetchExtraDepth s)) ranked)
      else predicted)"

definition prob_pins :: "int \<Rightarrow> scheduler \<Rightarrow> scheduler" where
  "prob_pins layer s =
     (if probPriority s \<and> in_layers layer (layerMaxProb s) \<and> f32_lt f32_zero (layerMaxProb s ! nat layer)
      then s\<lparr>sc_lru := fold (\<lambda>(eid, p) c.
             if f32_le (f32_mul 0x3F666666 (layerMaxProb s ! nat layer)) p \<and>
                2 \<le> getAccessCount layer eid (sc_placement s)
             then lru_pin (keyOf layer eid) c else c)
           (lastTopKProbs s ! nat layer) (sc_lru s)\<rparr>
      else s)"

definition staged_scope :: "weight_index \<Rightarrow> int \<Rightarrow> int list \<Rightarrow> (int \<times> int) list" where
  "staged_scope w layer eids = map (Pair layer)
     (filter (in_experts w) eids @
      [uint kSharedGateProjSlot, uint kSharedUpProjSlot, uint kSharedDownProjSlot])"

text \<open>The bookkeeping half of \<open>onLayerRouterDone\<close>, then the staging half; \<open>racing\<close> are the workers' actions between its two submissions.\<close>

definition router_books :: "weight_index \<Rightarrow> int \<Rightarrow> int list \<Rightarrow> f32 list \<Rightarrow> scheduler \<Rightarrow> scheduler" where
  "router_books w layer topKExperts probs s =
     ema_roll w layer topKExperts
       (note_probs layer topKExperts probs []
         (note_topk layer topKExperts (s\<lparr>routingStep := routingStep s + 1\<rparr>)))"

definition onLayerRouterDone ::
    "sched_env \<Rightarrow> nat list \<Rightarrow> int \<Rightarrow> int list \<Rightarrow> f32 list \<Rightarrow> scheduler \<Rightarrow> scheduler option" where
  "onLayerRouterDone env racing layer topKExperts probs s =
     (case sc_index s of
        None \<Rightarrow> Some s
      | Some w \<Rightarrow>
          let s = router_books w layer topKExperts probs s; nextLayer = layer + 1 in
          if layer = 2147483647 then None
          else if nextLayer < 0 \<or> numLayers (wi_config w) \<le> nextLayer then Some s
          else
            let predicted = (if spec_gate nextLayer s then predictNextLayerExperts env nextLayer topKExperts s else []);
                s = note_predicted w nextLayer predicted s;
                predicted = extra_prefetch env layer predicted s;
                s = prob_pins layer s in
            Option.bind
              (if 0 \<le> layer then prefetchAsync env (staged_scope w layer topKExperts) True s else Some s) (\<lambda>s.
            Option.bind (run_workers env racing s) (\<lambda>s.
              prefetchAsync env (staged_scope w nextLayer predicted) False s)))"

subsection \<open>Loading from the mapped shards\<close>

text \<open>The inner \<^const>\<open>None\<close> is the \<open>false\<close> of a shard that cannot be mapped.\<close>

fun copy_locs :: "(string \<Rightarrow> bytes option) \<Rightarrow> tensor_location list \<Rightarrow> nat \<Rightarrow> bytes \<Rightarrow> bytes option option" where
  "copy_locs view [] off dest = Some (Some dest)"
| "copy_locs view (loc # locs) off dest =
     (if byteSize loc = 0 then copy_locs view locs off dest
      else (case view (shardPath loc) of
          None \<Rightarrow> Some None
        | Some v \<Rightarrow> Option.bind (memcpy dest off v (unat (byteOffset loc)) (unat (byteSize loc)))
            (copy_locs view locs (off + unat (byteSize loc)))))"

definition expert_at :: "weight_index \<Rightarrow> int \<Rightarrow> int \<Rightarrow> expert_weights option" where
  "expert_at w layer expertId = Option.bind (rd (routedExperts w) (nat layer)) (\<lambda>row. rd row (nat expertId))"

definition loadExpertFromDisk :: "sched_env \<Rightarrow> int \<Rightarrow> int \<Rightarrow> scheduler \<Rightarrow> buffer_handle option option" where
  "loadExpertFromDisk env layer expertId s =
     (case sc_index s of
        None \<Rightarrow> Some None
      | Some w \<Rightarrow>
          if layer < 0 \<or> numLayers (wi_config w) \<le> layer then Some None
          else if expertId < 0 \<or> numLocalExperts (wi_config w) \<le> expertId then Some None
          else Option.bind (expert_at w layer expertId) (\<lambda>ew.
            let n = totalBytes ew in
            if n = 0 then Some None
            else map_option (map_option (\<lambda>d. \<lparr>bh_data = d, bh_size = n\<rparr>))
              (copy_locs (se_view env) [gateProj ew, upProj ew, downProj ew] 0 (bh_data (BufferHandle n)))))"

definition pin_if_hot :: "int \<Rightarrow> int \<Rightarrow> scheduler \<Rightarrow> scheduler" where
  "pin_if_hot layer expertId s =
     (if kPinThreshold \<le> getAccessCount layer expertId (sc_placement s)
      then s\<lparr>sc_lru := lru_pin (keyOf layer expertId) (sc_lru s)\<rparr> else s)"

definition touch_heat :: "int \<Rightarrow> int \<Rightarrow> scheduler \<Rightarrow> scheduler option" where
  "touch_heat layer expertId s =
     map_option (\<lambda>p. s\<lparr>sc_placement := p\<rparr>) (recordAccess layer expertId (sc_placement s))"

text \<open>\<open>loadExpert\<close>: the caller's buffer \<open>dest\<close> holds \<open>bufSize\<close> bytes.\<close>

definition loadExpert ::
    "sched_env \<Rightarrow> int \<Rightarrow> int \<Rightarrow> bytes \<Rightarrow> u64 \<Rightarrow> scheduler \<Rightarrow> (bool \<times> bytes \<times> scheduler) option" where
  "loadExpert env layer expertId dest bufSize s =
     (let key = keyOf layer expertId in
      case lru_acquire key (sc_lru s) of
        (Some h, c) \<Rightarrow>
          let s = s\<lparr>sc_lru := c\<rparr> in
          if bh_size h \<le> bufSize
          then Option.bind (memcpy dest 0 (bh_data h) 0 (unat (bh_size h))) (\<lambda>dest.
                 map_option (\<lambda>s. (True, dest, s)) (touch_heat layer expertId s))
          else Some (False, dest, s)
      | (None, c) \<Rightarrow>
          Option.bind (touch_heat layer expertId (s\<lparr>sc_lru := c\<rparr>)) (\<lambda>s.
          Option.bind (loadExpertFromDisk env layer expertId s) (\<lambda>loaded.
            case loaded of
              None \<Rightarrow> Some (False, dest, s)
            | Some h \<Rightarrow>
                if bufSize < bh_size h then Some (False, dest, s)
                else Option.bind (memcpy dest 0 (bh_data h) 0 (unat (bh_size h))) (\<lambda>dest.
                  case lru_insert key h False (sc_lru s) of (ok, c) \<Rightarrow>
                    let s = s\<lparr>sc_lru := c\<rparr> in
                    Some (True, dest, if ok then pin_if_hot layer expertId s else s)))))"

definition prefetchExpert :: "sched_env \<Rightarrow> int \<Rightarrow> int \<Rightarrow> scheduler \<Rightarrow> scheduler option" where
  "prefetchExpert env layer expertId s =
     Option.bind (sc_index s) (\<lambda>w.
       if layer < 0 \<or> numLayers (wi_config w) \<le> layer then Some s
       else if expertId < 0 \<or> numLocalExperts (wi_config w) \<le> expertId then Some s
       else
         let key = keyOf layer expertId in
         if key \<in> prefetchedInFlight s then Some s
         else if lru_contains key (sc_lru s) then Some s
         else prefetchAsync env [(layer, expertId)] True (inc loopPrefetchIssued_update s))"

subsection \<open>The getters\<close>

text \<open>
  The getters run on the caller's thread while the workers act. \<open>racing\<close> are the workers' actions
  between the first miss and the test of what is in flight; the bounded wait is a list of polls,
  each after the workers' actions of its pause, and its end is the deadline.
\<close>

fun wait_polls ::
    "sched_env \<Rightarrow> expert_key \<Rightarrow> nat list list \<Rightarrow> bytes \<Rightarrow> scheduler \<Rightarrow> (bool \<times> bytes \<times> scheduler) option" where
  "wait_polls env key [] buf s = Some (False, buf, s)"
| "wait_polls env key (workers # polls) buf s =
     Option.bind (run_workers env workers s) (\<lambda>s.
     Option.bind (lru_fetch key buf (sc_lru s)) (\<lambda>(hit, buf, c).
       if hit then Some (True, buf, s\<lparr>sc_lru := c\<rparr>) else wait_polls env key polls buf (s\<lparr>sc_lru := c\<rparr>)))"

text \<open>A miss: stage the key when nothing is in flight for it.\<close>

definition stage_missing :: "sched_env \<Rightarrow> nat list \<Rightarrow> int \<Rightarrow> int \<Rightarrow> scheduler \<Rightarrow> scheduler option" where
  "stage_missing env racing layer eid s =
     Option.bind (run_workers env racing s) (\<lambda>s.
       if sched_probe (keyOf layer eid) s then Some s else prefetchAsync env [(layer, eid)] True s)"

definition expert_served :: "int \<Rightarrow> int \<Rightarrow> bytes \<Rightarrow> scheduler \<Rightarrow> scheduler" where
  "expert_served layer expertId buf s =
     (let key = keyOf layer expertId;
          s = (if key \<in> routedPredKeys s then inc routedPredConsumed_update s else s) in
      pin_if_hot layer expertId
        (s\<lparr>exScratch := buf, routedPredKeys := routedPredKeys s - {key}\<rparr>))"

text \<open>The bookkeeping of a wait: before it, and after it when it was the first of its layer.\<close>

definition wait_begins :: "scheduler \<Rightarrow> bool \<times> scheduler" where
  "wait_begins s =
     (let s = inc expertDiskLoads_update s; firstOfLayer = (demandFirstWaitStep s \<noteq> routingStep s) in
      (firstOfLayer,
       if firstOfLayer then
         bump (firstWaitRunsInFlight_update (\<lambda>n. n + word_of_int (max 0 (runsInFlight (sc_stats s)))) \<circ>
               firstWaitKeysInFlight_update (\<lambda>n. n + of_nat (inFlightKeysSnapshot s)))
           (s\<lparr>demandFirstWaitStep := routingStep s\<rparr>)
       else s))"

definition wait_ends :: "bool \<Rightarrow> scheduler \<Rightarrow> scheduler" where
  "wait_ends firstOfLayer s = (if firstOfLayer then inc layerFirstWaitCount_update s else s)"

text \<open>The last resort: a copy out of the mapped shards. The first component says whether a pointer is returned.\<close>

definition sync_expert :: "sched_env \<Rightarrow> int \<Rightarrow> int \<Rightarrow> u64 \<Rightarrow> scheduler \<Rightarrow> (bool \<times> scheduler) option" where
  "sync_expert env layer expertId n s =
     (let s = bump (expertDiskLoads_update (\<lambda>n. n + 1) \<circ> syncLoads_update (\<lambda>n. n + 1) \<circ>
                syncBytes_update (\<lambda>m. m + n)) s in
      Option.bind (loadExpertFromDisk env layer expertId s) (\<lambda>loaded.
        case loaded of
          None \<Rightarrow> Some (False, s)
        | Some h \<Rightarrow>
            if bh_size h \<noteq> n then Some (False, s)
            else Option.bind (memcpy (exScratch s) 0 (bh_data h) 0 (unat (bh_size h))) (\<lambda>buf.
              case lru_insert (keyOf layer expertId) h False (sc_lru s) of (ok, c) \<Rightarrow>
                let s = s\<lparr>exScratch := buf, sc_lru := c\<rparr> in
                Some (True, if ok then pin_if_hot layer expertId s else s))))"

definition wait_expert ::
    "sched_env \<Rightarrow> nat list list \<Rightarrow> int \<Rightarrow> int \<Rightarrow> u64 \<Rightarrow> scheduler \<Rightarrow> (bool \<times> scheduler) option" where
  "wait_expert env polls layer expertId n s =
     (case wait_begins s of (firstOfLayer, s) \<Rightarrow>
        Option.bind (wait_polls env (keyOf layer expertId) polls (exScratch s) s) (\<lambda>(hit, buf, s).
          if hit then Some (True, expert_served layer expertId buf (wait_ends firstOfLayer s))
          else sync_expert env layer expertId n
                 (bump (demandWaitTimeout_update (\<lambda>n. n + 1) \<circ> expertDiskLoads_update (\<lambda>n. n + 1))
                   (wait_ends firstOfLayer (s\<lparr>exScratch := buf\<rparr>)))))"

definition grow_scratch :: "u64 \<Rightarrow> bytes \<Rightarrow> bytes" where
  "grow_scratch n buf = (if length buf < unat n then vec_resize (unat n) 0 buf else buf)"

definition getExpertPtr ::
    "sched_env \<Rightarrow> nat list \<Rightarrow> nat list list \<Rightarrow> int \<Rightarrow> int \<Rightarrow> scheduler \<Rightarrow> (bool \<times> scheduler) option" where
  "getExpertPtr env racing polls layer expertId s =
     (case sc_index s of
        None \<Rightarrow> Some (False, s)
      | Some w \<Rightarrow>
          if layer < 0 \<or> numLayers (wi_config w) \<le> layer then Some (False, s)
          else if expertId < 0 \<or> numLocalExperts (wi_config w) \<le> expertId then Some (False, s)
          else
            let key = keyOf layer expertId in
            Option.bind (touch_heat layer expertId s) (\<lambda>s.
            Option.bind (expert_at w layer expertId) (\<lambda>ew.
              let n = totalBytes ew in
              if n = 0 then Some (False, s)
              else
                let s = inc expertLookups_update (s\<lparr>exScratch := grow_scratch n (exScratch s)\<rparr>) in
                Option.bind (lru_fetch key (exScratch s) (sc_lru s)) (\<lambda>(hit, buf, c).
                  let s = s\<lparr>sc_lru := c\<rparr> in
                  if hit then Some (True, expert_served layer expertId buf (inc expertLruHits_update s))
                  else
                    Option.bind (stage_missing env racing layer expertId
                        (inc expertLruMisses_update (s\<lparr>exScratch := buf\<rparr>))) (\<lambda>s.
                      if sched_probe key s then wait_expert env polls layer expertId n s
                      else sync_expert env layer expertId n s)))))"

text \<open>The shared projections have a scratch each; the slot indexes it unchecked.\<close>

definition sync_shared ::
    "sched_env \<Rightarrow> int \<Rightarrow> u16 \<Rightarrow> tensor_location \<Rightarrow> bytes \<Rightarrow> scheduler \<Rightarrow> (bool \<times> bytes \<times> scheduler) option" where
  "sync_shared env layer slot loc scratch s =
     (let s = bump (syncLoads_update (\<lambda>n. n + 1) \<circ> syncBytes_update (\<lambda>m. m + byteSize loc)) s in
      case se_view env (shardPath loc) of
        None \<Rightarrow> Some (False, scratch, s)
      | Some v \<Rightarrow>
          Option.bind (memcpy scratch 0 v (unat (byteOffset loc)) (unat (byteSize loc))) (\<lambda>scratch.
          Option.bind (memcpy (bh_data (BufferHandle (byteSize loc))) 0 v (unat (byteOffset loc)) (unat (byteSize loc))) (\<lambda>d.
            let key = ExpertKey (word_of_int layer) slot in
            case lru_insert key \<lparr>bh_data = d, bh_size = byteSize loc\<rparr> False (sc_lru s) of (ok, c) \<Rightarrow>
              Some (True, scratch, s\<lparr>sc_lru := (if ok then lru_pin key c else c)\<rparr>))))"

definition wait_shared ::
    "sched_env \<Rightarrow> nat list list \<Rightarrow> int \<Rightarrow> u16 \<Rightarrow> tensor_location \<Rightarrow> bytes \<Rightarrow> scheduler \<Rightarrow> (bool \<times> bytes \<times> scheduler) option" where
  "wait_shared env polls layer slot loc scratch s =
     Option.bind (wait_polls env (ExpertKey (word_of_int layer) slot) polls scratch s) (\<lambda>(hit, scratch, s).
       if hit then Some (True, scratch, s)
       else sync_shared env layer slot loc scratch (inc demandWaitTimeout_update s))"

definition getSharedProjectionPtr ::
    "sched_env \<Rightarrow> nat list \<Rightarrow> nat list list \<Rightarrow> int \<Rightarrow> u16 \<Rightarrow> scheduler \<Rightarrow> (bool \<times> scheduler) option" where
  "getSharedProjectionPtr env racing polls layer slot s =
     (case sc_index s of
        None \<Rightarrow> Some (False, s)
      | Some w \<Rightarrow>
          if layer < 0 \<or> numLayers (wi_config w) \<le> layer then Some (False, s)
          else
            Option.bind (map_option (\<lambda>lw. sharedSlotLoc lw slot) (rd (wi_layers w) (nat layer))) (\<lambda>loc.
              if byteSize loc = 0 then Some (False, s)
              else
                let i = unat (slot - kSharedGateProjSlot); key = ExpertKey (word_of_int layer) slot in
                Option.bind (rd (shScratch s) i) (\<lambda>scratch.
                Option.bind (touch_heat layer (uint slot) s) (\<lambda>s.
                Option.bind (lru_fetch key (grow_scratch (byteSize loc) scratch) (sc_lru s)) (\<lambda>(hit, scratch, c).
                  let s = s\<lparr>sc_lru := c\<rparr> in
                  map_option (\<lambda>(ok, scratch, s). (ok, s\<lparr>shScratch := (shScratch s)[i := scratch]\<rparr>))
                    (if hit then Some (True, scratch, s)
                     else Option.bind (stage_missing env racing layer (uint slot) s) (\<lambda>s.
                       if sched_probe key s then wait_shared env polls layer slot loc scratch s
                       else sync_shared env layer slot loc scratch s)))))))"

end
