(* ===== verification/ExpertStaging.thy ===== *)
theory ExpertStaging
  imports Scheduler
begin

text \<open>
  The correctness of the staging of \<open>Scheduler\<close>: whatever the interleaving of the reads with the
  getters, what the cache holds for a key and what a getter leaves in its scratch are the bytes of
  that key's projections in the shard files, in order.
\<close>

subsection \<open>The bytes of a key\<close>

definition file_bytes :: "files \<Rightarrow> string \<Rightarrow> nat \<Rightarrow> nat \<Rightarrow> bytes" where
  "file_bytes files path off n = (case files path of None \<Rightarrow> [] | Some content \<Rightarrow> slice content off n)"

definition loc_bytes :: "files \<Rightarrow> tensor_location \<Rightarrow> bytes" where
  "loc_bytes files loc = file_bytes files (shardPath loc) (unat (byteOffset loc)) (unat (byteSize loc))"

definition loc_ok :: "files \<Rightarrow> tensor_location \<Rightarrow> bool" where
  "loc_ok files loc \<longleftrightarrow> byteSize loc = 0 \<or>
     (\<exists>content. files (shardPath loc) = Some content \<and>
        unat (byteOffset loc) + unat (byteSize loc) \<le> length content \<and> length content < 2 ^ 62)"

definition locs_ok :: "files \<Rightarrow> tensor_location list \<Rightarrow> bool" where
  "locs_ok files locs \<longleftrightarrow> list_all (loc_ok files) locs \<and> sum_list (map (unat \<circ> byteSize) locs) < 2 ^ 62"

definition key_source :: "files \<Rightarrow> weight_index \<Rightarrow> expert_key \<Rightarrow> bytes" where
  "key_source files w key = (case key_locs w (uint (ek_layer key)) (ek_id key) of
     Some (Some locs) \<Rightarrow> concat (map (loc_bytes files) locs) | _ \<Rightarrow> [])"

text \<open>The index is sound for the files: its recorded locations lie inside them.\<close>

definition index_sound :: "files \<Rightarrow> weight_index \<Rightarrow> bool" where
  "index_sound files w \<longleftrightarrow> numLayers (wi_config w) < 2 ^ 31 \<and> numLocalExperts (wi_config w) \<le> 0xFF00 \<and>
     (\<forall>layer eid locs. key_locs w layer eid = Some (Some locs) \<longrightarrow> locs_ok files locs)"

lemma length_file_bytes_loc: "loc_ok files loc \<Longrightarrow> length (loc_bytes files loc) = unat (byteSize loc)"
  by (auto simp: loc_ok_def loc_bytes_def file_bytes_def split: option.split)

lemma locs_ok_Cons: "locs_ok files (loc # locs) \<Longrightarrow> loc_ok files loc \<and> locs_ok files locs"
  by (simp add: locs_ok_def)

lemma length_locs_bytes:
  "locs_ok files locs \<Longrightarrow> length (concat (map (loc_bytes files) locs)) = sum_list (map (unat \<circ> byteSize) locs)"
proof (induction locs)
  case (Cons loc locs)
  with locs_ok_Cons [OF Cons.prems] show ?case by (simp add: length_file_bytes_loc)
qed simp

lemma foldl_total:
  "unat n + sum_list (map (unat \<circ> byteSize) locs) < 2 ^ 62 \<Longrightarrow>
   unat (foldl (\<lambda>n loc. n + byteSize loc) n locs) = unat n + sum_list (map (unat \<circ> byteSize) locs)"
proof (induction locs arbitrary: n)
  case (Cons loc locs)
  have "unat (n + byteSize loc) = unat n + unat (byteSize loc)" using Cons.prems by (intro unat_add_64) simp
  then show ?case using Cons.IH [of "n + byteSize loc"] Cons.prems by simp
qed simp

lemma unat_locs_total:
  "locs_ok files locs \<Longrightarrow> unat (locs_total locs) = length (concat (map (loc_bytes files) locs))"
  using foldl_total [of 0 locs] by (simp add: locs_total_def length_locs_bytes) (simp add: locs_ok_def)

subsection \<open>Pieces in flight\<close>

text \<open>What an assembly still waits for: an offset in its buffer and the bytes to put there.\<close>

type_synonym piece = "nat \<times> bytes"

definition slice_piece :: "bytes \<Rightarrow> io_slice \<Rightarrow> piece" where
  "slice_piece buf sl = (unat (sl_expertOffset sl), slice buf (unat (sl_offsetInRun sl)) (unat (sl_size sl)))"

definition slices_for :: "nat \<Rightarrow> io_slice list \<Rightarrow> io_slice list" where
  "slices_for i sls = filter (\<lambda>sl. sl_assem sl = i) sls"

definition run_buf :: "files \<Rightarrow> shard_run \<Rightarrow> bytes" where
  "run_buf files run = (case files (sr_shard run) of None \<Rightarrow> [] | Some content \<Rightarrow> drop (unat (sr_start run)) content)"

fun task_pieces :: "files \<Rightarrow> nat \<Rightarrow> io_task \<Rightarrow> piece multiset" where
  "task_pieces files i (TQueued run) = mset (map (slice_piece (run_buf files run)) (slices_for i (sr_slices run)))"
| "task_pieces files i (TDeliver sls buf n) = mset (map (slice_piece buf) (slices_for i sls))"

fun pieces :: "files \<Rightarrow> nat \<Rightarrow> io_task list \<Rightarrow> piece multiset" where
  "pieces files i [] = {#}"
| "pieces files i (t # ts) = task_pieces files i t + pieces files i ts"

lemma pieces_append [simp]: "pieces files i (ts @ us) = pieces files i ts + pieces files i us"
  by (induction ts) simp_all

definition slice_in :: "nat \<Rightarrow> nat \<Rightarrow> io_slice \<Rightarrow> bool" where
  "slice_in m n sl \<longleftrightarrow> sl_assem sl < m \<and> unat (sl_offsetInRun sl) + unat (sl_size sl) \<le> n \<and> n < 2 ^ 62"

fun task_ok :: "nat \<Rightarrow> io_task \<Rightarrow> bool" where
  "task_ok m (TQueued run) \<longleftrightarrow> run_ok run \<and>
     list_all (slice_in m (unat (sr_end run) - unat (sr_start run))) (sr_slices run)"
| "task_ok m (TDeliver sls buf n) \<longleftrightarrow> unat n = length buf \<and> list_all (slice_in m (length buf)) sls"

definition asm_ok :: "(expert_key \<Rightarrow> bytes) \<Rightarrow> assembly \<Rightarrow> piece multiset \<Rightarrow> bool" where
  "asm_ok src a P \<longleftrightarrow>
     (as_inserted a \<longleftrightarrow> as_remaining a = 0) \<and> int (size P) \<le> as_remaining a \<and>
     (\<not> as_inserted a \<longrightarrow>
        handle_ok (as_handle a) \<and> length (bh_data (as_handle a)) = length (src (as_key a)) \<and>
        (\<forall>(off, b) \<in># P. off + length b \<le> length (src (as_key a)) \<and> slice (src (as_key a)) off (length b) = b) \<and>
        (int (size P) = as_remaining a \<longrightarrow>
           (\<forall>j < length (src (as_key a)). bh_data (as_handle a) ! j = src (as_key a) ! j \<or>
              (\<exists>(off, b) \<in># P. off \<le> j \<and> j < off + length b))))"

definition sched_ok :: "files \<Rightarrow> weight_index \<Rightarrow> scheduler \<Rightarrow> bool" where
  "sched_ok files w s \<longleftrightarrow> sc_index s = Some w \<and> lru_inv (sc_lru s) \<and>
     lru.agrees (key_source files w) (sc_lru s) \<and>
     list_all (task_ok (length (sc_assemblies s))) (sc_tasks s) \<and>
     (\<forall>i < length (sc_assemblies s). asm_ok (key_source files w) (sc_assemblies s ! i) (pieces files i (sc_tasks s)))"

text \<open>What the workers and the staging leave alone.\<close>

definition sched_frame :: "scheduler \<Rightarrow> scheduler \<Rightarrow> bool" where
  "sched_frame s s' \<longleftrightarrow> s' = s\<lparr>sc_lru := sc_lru s', prefetchedInFlight := prefetchedInFlight s',
     sc_assemblies := sc_assemblies s', sc_tasks := sc_tasks s', sc_stats := sc_stats s'\<rparr>"

lemma sched_frame_refl [simp]: "sched_frame s s"
  by (simp add: sched_frame_def)

lemma sched_frame_trans: "sched_frame s t \<Longrightarrow> sched_frame t u \<Longrightarrow> sched_frame s u"
  unfolding sched_frame_def by (cases s; cases t; cases u) simp

lemma sched_frame_fields:
  assumes "sched_frame s t"
  shows "exScratch t = exScratch s" "shScratch t = shScratch s" "sc_placement t = sc_placement s"
    "sc_index t = sc_index s" "routedPredKeys t = routedPredKeys s" "routingStep t = routingStep s"
    "demandFirstWaitStep t = demandFirstWaitStep s" "lastTopK t = lastTopK s" "overlapEma t = overlapEma s"
  using assms unfolding sched_frame_def by (cases s; cases t; simp)+

subsection \<open>A slice is delivered\<close>

lemma slice_nth: "k < n \<Longrightarrow> off + n \<le> length xs \<Longrightarrow> slice xs off n ! k = xs ! (off + k)"
  by (simp add: slice_def)

lemma asm_deliver:
  assumes "asm_ok src a (add_mset (off, b) P)" "memcpy (bh_data (as_handle a)) off buf boff (length b) = Some d"
    and "b = slice buf boff (length b)"
  shows "\<not> as_inserted a" "handle_ok ((as_handle a)\<lparr>bh_data := d\<rparr>)" "int (size P) \<le> as_remaining a - 1"
    "as_remaining a - 1 = 0 \<Longrightarrow> d = src (as_key a)"
    "as_remaining a - 1 \<noteq> 0 \<Longrightarrow>
      asm_ok src (a\<lparr>as_handle := (as_handle a)\<lparr>bh_data := d\<rparr>, as_remaining := as_remaining a - 1\<rparr>) P"
proof -
  let ?s = "src (as_key a)"
  show ni: "\<not> as_inserted a" and sz: "int (size P) \<le> as_remaining a - 1"
    using assms(1) by (auto simp: asm_ok_def)
  have l: "length d = length (bh_data (as_handle a))" using assms(2) by (rule length_memcpy)
  have h: "handle_ok (as_handle a)" "length (bh_data (as_handle a)) = length ?s"
    "off + length b \<le> length ?s" "slice ?s off (length b) = b"
    "\<forall>(off, b) \<in># P. off + length b \<le> length ?s \<and> slice ?s off (length b) = b"
    using assms(1) ni by (auto simp: asm_ok_def)
  show "handle_ok ((as_handle a)\<lparr>bh_data := d\<rparr>)" using h(1) l by (simp add: handle_ok_def)
  have new: "d ! j = ?s ! j \<or> (\<exists>(off, b) \<in># P. off \<le> j \<and> j < off + length b)"
    if "int (size P) = as_remaining a - 1" "j < length ?s" for j
  proof -
    have d: "d ! j = (if off \<le> j \<and> j < off + length b then buf ! (boff + (j - off)) else bh_data (as_handle a) ! j)"
      using memcpy_nth [OF assms(2), of j] that(2) h(2) by simp
    show ?thesis
    proof (cases "off \<le> j \<and> j < off + length b")
      case True
      have "boff + length b \<le> length buf" using assms(2) by (simp add: memcpy_def split: if_splits)
      then have "b ! (j - off) = buf ! (boff + (j - off))"
        using slice_nth [of "j - off" "length b" boff buf] assms(3) True by (metis less_diff_conv2 add.commute)
      moreover have "b ! (j - off) = ?s ! j"
        using slice_nth [of "j - off" "length b" off ?s] h(3,4) True by (metis le_add_diff_inverse less_diff_conv2 add.commute)
      ultimately show ?thesis using d True by simp
    next
      case False
      have "bh_data (as_handle a) ! j = ?s ! j \<or> (\<exists>(off, b) \<in># add_mset (off, b) P. off \<le> j \<and> j < off + length b)"
        using assms(1) ni that by (auto simp: asm_ok_def)
      then show ?thesis using False d by auto
    qed
  qed
  show "d = ?s" if "as_remaining a - 1 = 0"
  proof (rule nth_equalityI)
    show "length d = length ?s" using l h(2) by simp
    fix j
    assume "j < length d"
    moreover have "P = {#}" using sz that by simp
    ultimately show "d ! j = ?s ! j" using new [of j] that l h(2) by auto
  qed
  show "asm_ok src (a\<lparr>as_handle := (as_handle a)\<lparr>bh_data := d\<rparr>, as_remaining := as_remaining a - 1\<rparr>) P"
    if "as_remaining a - 1 \<noteq> 0"
    unfolding asm_ok_def using that ni sz h l new \<open>handle_ok ((as_handle a)\<lparr>bh_data := d\<rparr>)\<close> by simp
qed

lemma asm_inserted: "as_inserted a \<Longrightarrow> as_remaining a = 0 \<Longrightarrow> asm_ok src a {#}"
  by (simp add: asm_ok_def)

lemma pieces_other: "sl_assem sl \<noteq> i \<Longrightarrow> slices_for i (sl # sls) = slices_for i sls"
  and pieces_this: "slices_for (sl_assem sl) (sl # sls) = sl # slices_for (sl_assem sl) sls"
  by (simp_all add: slices_for_def)

lemma task_at:
  assumes "rd ts n = Some t"
  obtains xs ys where "ts = xs @ t # ys" "length xs = n"
  using assms id_take_nth_drop [of n ts] by (auto simp: rd_def split: if_splits)

text \<open>The state in the middle of a delivery: one piece has left the tasks and is not yet in its assembly.\<close>

lemma deliver_slice_ok:
  assumes "sched_ok files w s0" "sc_tasks s0 = xs @ TDeliver (sl # sls) buf n # ys"
    and s: "s = s0\<lparr>sc_tasks := xs @ TDeliver sls buf n # ys\<rparr>"
  shows "\<exists>s'. deliver_slice sl buf n s = Some s' \<and> sched_ok files w s' \<and> sched_frame s s'"
proof -
  let ?src = "key_source files w" and ?i = "sl_assem sl" and ?asms = "sc_assemblies s0"
  let ?T = "xs @ TDeliver sls buf n # ys"
  have ok: "sc_index s0 = Some w" "lru_inv (sc_lru s0)" "lru.agrees ?src (sc_lru s0)"
    and asm: "\<And>i. i < length ?asms \<Longrightarrow> asm_ok ?src (?asms ! i) (pieces files i (sc_tasks s0))"
    and task: "list_all (task_ok (length ?asms)) (sc_tasks s0)"
    using assms(1) by (auto simp: sched_ok_def)
  have len: "unat n = length buf" and sl: "slice_in (length ?asms) (length buf) sl"
    using task by (simp_all add: assms(2))
  have task': "list_all (task_ok (length ?asms)) ?T" using task by (simp add: assms(2))
  define a where "a = ?asms ! ?i"
  have i: "?i < length ?asms" using sl by (simp add: slice_in_def)
  define b where "b = slice buf (unat (sl_offsetInRun sl)) (unat (sl_size sl))"
  have lb: "length b = unat (sl_size sl)" using sl by (simp add: b_def slice_in_def)
  have P: "pieces files ?i (sc_tasks s0) = add_mset (unat (sl_expertOffset sl), b) (pieces files ?i ?T)"
    by (simp add: assms(2) pieces_this slice_piece_def b_def)
  have other: "pieces files i (sc_tasks s0) = pieces files i ?T" if "i \<noteq> ?i" for i
    using that by (simp add: assms(2) pieces_other [of sl])
  have asm': "asm_ok ?src (?asms ! i) (pieces files i ?T)" if "i < length ?asms" "i \<noteq> ?i" for i
    using asm [OF that(1)] other [OF that(2)] by simp
  have A: "asm_ok ?src a (add_mset (unat (sl_expertOffset sl), b) (pieces files ?i ?T))"
    using asm [OF i] P by (simp add: a_def)
  have wrap: "sl_offsetInRun sl + sl_size sl \<le> n"
  proof -
    have "unat (sl_offsetInRun sl + sl_size sl) = unat (sl_offsetInRun sl) + unat (sl_size sl)"
      using sl by (intro unat_add_64) (simp add: slice_in_def)
    then show ?thesis using sl len by (simp add: word_le_nat_alt slice_in_def)
  qed
  have "\<not> as_inserted a" "unat (sl_expertOffset sl) + length b \<le> length (bh_data (as_handle a))"
    using A by (auto simp: asm_ok_def)
  then obtain d where d: "memcpy (bh_data (as_handle a)) (unat (sl_expertOffset sl)) buf (unat (sl_offsetInRun sl)) (length b) = Some d"
    using memcpy_in_range [of "unat (sl_expertOffset sl)" "length b" "bh_data (as_handle a)" "unat (sl_offsetInRun sl)" buf] sl lb
    by (auto simp: slice_in_def)
  have bs: "b = slice buf (unat (sl_offsetInRun sl)) (length b)" by (simp add: lb) (simp add: b_def)
  note D = asm_deliver [OF A d bs]
  let ?a = "a\<lparr>as_handle := (as_handle a)\<lparr>bh_data := d\<rparr>, as_remaining := as_remaining a - 1\<rparr>"
  have eval: "deliver_slice sl buf n s =
      Some (if as_remaining ?a = 0 then finish_assembly ?i ?a s
            else s\<lparr>sc_assemblies := ?asms[?i := ?a]\<rparr>)"
    using i D(1) wrap d lb by (simp add: deliver_slice_def s rd_def a_def [symmetric] Let_def)
  show ?thesis
  proof (cases "as_remaining ?a = 0")
    case False
    then have "asm_ok ?src ?a (pieces files ?i ?T)" using D(5) by simp
    then have "sched_ok files w (s\<lparr>sc_assemblies := ?asms[?i := ?a]\<rparr>)"
      using ok asm' task' i by (auto simp: sched_ok_def s nth_list_update simp del: pieces.simps pieces_append list_all_append)
    with eval False show ?thesis by (simp add: sched_frame_def)
  next
    case True
    let ?h = "(as_handle a)\<lparr>bh_data := d\<rparr>"
    obtain r c where c: "lru_insert (as_key a) ?h True (sc_lru s0) = (r, c)" by fastforce
    have "lru_inv c" "lru.agrees ?src c"
      using lru.put_inv [OF ok(2) D(2), of "as_key a" True] lru.put_agrees [OF ok(2,3), of ?h "as_key a" True] D(4) True c
      by simp_all
    moreover have "size (pieces files ?i ?T) = 0"
      using D(3) True by (simp del: pieces.simps pieces_append size_eq_0_iff_empty)
    then have "pieces files ?i ?T = {#}" by (simp only: size_eq_0_iff_empty)
    ultimately have "sched_ok files w (finish_assembly ?i ?a s)"
      using ok asm' task' i True c
      by (auto simp: asm_inserted sched_ok_def s nth_list_update finish_assembly_def bump_def Let_def
          simp del: pieces.simps pieces_append list_all_append)
    with eval True show ?thesis by (simp add: sched_frame_def finish_assembly_def bump_def Let_def s split: prod.split)
  qed
qed

lemma slice_take_pair: "off + n \<le> m \<Longrightarrow> (x, slice (take m xs) off n) = (x, slice xs off n)"
  by (simp add: slice_def drop_take min_def)

lemma read_run_ok:
  assumes "task_ok m (TQueued run)" "c = worker_read files \<lparr>rq_id = 0, rq_filePath = sr_shard run, rq_offset = sr_start run,
      rq_size = sr_end run - sr_start run\<rparr>" "cp_success c"
  shows "task_ok m (TDeliver (sr_slices run) (cp_data c) (of_nat (length (cp_data c))))"
    "task_pieces files i (TDeliver (sr_slices run) (cp_data c) (of_nat (length (cp_data c)))) = task_pieces files i (TQueued run)"
proof -
  have r: "unat (sr_start run) < unat (sr_end run)" "unat (sr_end run) < 2 ^ 62"
    and sl: "list_all (slice_in m (unat (sr_end run) - unat (sr_start run))) (sr_slices run)"
    using assms(1) by (auto simp: run_ok_def)
  have n: "unat (sr_end run - sr_start run) = unat (sr_end run) - unat (sr_start run)"
    using r by (intro unat_sub_le) (simp add: word_le_nat_alt)
  have c: "length (cp_data c) = unat (sr_end run) - unat (sr_start run)"
      "cp_data c = take (unat (sr_end run) - unat (sr_start run)) (run_buf files run)"
    using assms(2,3) n by (auto simp: worker_read_def run_buf_def Let_def split: option.splits)
  show "task_ok m (TDeliver (sr_slices run) (cp_data c) (of_nat (length (cp_data c))))"
    using sl r c(1) n by (simp add: unat_of_nat take_bit_nat_eq_self)
  have "slice_piece (cp_data c) sl = slice_piece (run_buf files run) sl" if "sl \<in> set (sr_slices run)" for sl
  proof -
    have "slice_in m (length (cp_data c)) sl" using sl that c(1) by (simp add: list_all_iff)
    then have "unat (sl_offsetInRun sl) + unat (sl_size sl) \<le> unat (sr_end run) - unat (sr_start run)"
      by (simp add: slice_in_def c(1))
    then show ?thesis unfolding slice_piece_def c(2) by (rule slice_take_pair)
  qed
  then show "task_pieces files i (TDeliver (sr_slices run) (cp_data c) (of_nat (length (cp_data c)))) = task_pieces files i (TQueued run)"
    by (auto simp: slices_for_def intro!: image_mset_cong)
qed

lemma drop_task_at: "sc_tasks s = xs @ t # ys \<Longrightarrow> length xs = n \<Longrightarrow> drop_task n s = s\<lparr>sc_tasks := xs @ ys\<rparr>"
  by (auto simp: drop_task_def)

lemma asm_ok_fewer: "asm_ok src a (P + Q) \<Longrightarrow> asm_ok src a P"
  by (cases "Q = {#}") (auto simp: asm_ok_def)

lemma sched_ok_drop:
  assumes "sched_ok files w s" "sc_tasks s = xs @ t # ys"
  shows "sched_ok files w (s\<lparr>sc_tasks := xs @ ys, sc_stats := st\<rparr>)"
proof -
  have "asm_ok (key_source files w) (sc_assemblies s ! i) (pieces files i (xs @ ys))" if "i < length (sc_assemblies s)" for i
  proof (rule asm_ok_fewer [where Q = "task_pieces files i t"])
    have "asm_ok (key_source files w) (sc_assemblies s ! i) (pieces files i (sc_tasks s))"
      using assms(1) that by (simp add: sched_ok_def)
    then show "asm_ok (key_source files w) (sc_assemblies s ! i) (pieces files i (xs @ ys) + task_pieces files i t)"
      by (simp add: assms(2) ac_simps)
  qed
  then show ?thesis using assms by (simp add: sched_ok_def)
qed

lemma sched_step_ok:
  assumes "sched_ok (se_files env) w s"
  shows "\<exists>s'. sched_step env n s = Some s' \<and> sched_ok (se_files env) w s' \<and> sched_frame s s'"
proof (cases "rd (sc_tasks s) n")
  case None
  then show ?thesis using assms by (simp add: sched_step_def)
next
  case (Some t)
  then obtain xs ys where ts: "sc_tasks s = xs @ t # ys" "length xs = n" by (rule task_at)
  show ?thesis
  proof (cases t)
    case (TQueued run)
    define c where "c = worker_read (se_files env) \<lparr>rq_id = 0, rq_filePath = sr_shard run, rq_offset = sr_start run,
      rq_size = sr_end run - sr_start run\<rparr>"
    show ?thesis
    proof (cases "cp_success c")
      case True
      have tk: "task_ok (length (sc_assemblies s)) (TQueued run)" using assms TQueued by (simp add: sched_ok_def ts(1))
      note R = read_run_ok [OF tk c_def True]
      let ?t = "TDeliver (sr_slices run) (cp_data c) (of_nat (length (cp_data c)))"
      let ?s = "(bump (runsInFlight_update (\<lambda>n. n - 1)) s)\<lparr>sc_tasks := xs @ ?t # ys\<rparr>"
      have "pieces (se_files env) i (xs @ ?t # ys) = pieces (se_files env) i (sc_tasks s)" for i
        using R(2) by (simp only: pieces_append pieces.simps ts(1) TQueued)
      then have "sched_ok (se_files env) w ?s" using assms R(1) by (simp add: sched_ok_def ts(1) bump_def)
      moreover have "sched_step env n s = Some ?s"
        using Some TQueued True ts by (simp add: sched_step_def c_def [symmetric] Let_def bump_def list_update_append)
      ultimately show ?thesis by (auto simp: sched_frame_def bump_def)
    next
      case False
      then have "sched_step env n s = Some (s\<lparr>sc_tasks := xs @ ys, sc_stats := runsInFlight_update (\<lambda>n. n - 1) (sc_stats s)\<rparr>)"
        using Some TQueued ts by (simp add: sched_step_def c_def [symmetric] Let_def bump_def drop_task_def)
      then show ?thesis using sched_ok_drop [OF assms ts(1)] by (simp add: sched_frame_def)
    qed
  next
    case (TDeliver sls buf m)
    show ?thesis
    proof (cases sls)
      case Nil
      then have "sched_step env n s = Some (s\<lparr>sc_tasks := xs @ ys\<rparr>)"
        using Some TDeliver ts by (simp add: sched_step_def drop_task_def)
      then show ?thesis using sched_ok_drop [OF assms ts(1), of "sc_stats s"] by (simp add: sched_frame_def)
    next
      case (Cons sl sls')
      then have e: "sched_step env n s = deliver_slice sl buf m (s\<lparr>sc_tasks := xs @ TDeliver sls' buf m # ys\<rparr>)"
        using Some TDeliver ts by (simp add: sched_step_def list_update_append)
      have "sched_frame s (s\<lparr>sc_tasks := xs @ TDeliver sls' buf m # ys\<rparr>)" by (simp add: sched_frame_def)
      then show ?thesis
        using deliver_slice_ok [OF assms ts(1) [unfolded TDeliver Cons] refl] unfolding e
        by (auto intro: sched_frame_trans)
    qed
  qed
qed

lemma run_workers_ok:
  "sched_ok (se_files env) w s \<Longrightarrow>
   \<exists>s'. run_workers env ns s = Some s' \<and> sched_ok (se_files env) w s' \<and> sched_frame s s'"
proof (induction ns arbitrary: s)
  case Nil
  then show ?case by (simp add: run_workers_def)
next
  case (Cons n ns)
  obtain s1 where s1: "sched_step env n s = Some s1" "sched_ok (se_files env) w s1" "sched_frame s s1"
    using sched_step_ok [OF Cons.prems] by blast
  from Cons.IH [OF s1(2)] s1 show ?case by (auto simp: run_workers_def intro: sched_frame_trans)
qed

subsection \<open>Staging keeps the invariant\<close>

text \<open>The pieces the ranges of a plan stand for.\<close>

definition io_piece :: "files \<Rightarrow> string \<times> projection_io \<Rightarrow> piece" where
  "io_piece files = (\<lambda>(shard, io). (unat (pj_expertOffset io),
     file_bytes files shard (unat (pj_offset io)) (unat (pj_size io))))"

definition planned :: "files \<Rightarrow> nat \<Rightarrow> (string \<times> projection_io) list \<Rightarrow> piece multiset" where
  "planned files i ios = mset (map (io_piece files) (filter (\<lambda>(_, io). pj_assem io = i) ios))"

lemma planned_mset: "mset ios = mset ios' \<Longrightarrow> planned files i ios = planned files i ios'"
  by (simp add: planned_def)

lemma planned_append [simp]: "planned files i (ios @ ios') = planned files i ios + planned files i ios'"
  by (simp add: planned_def)

lemma planned_none: "\<forall>(_, io) \<in> set ios. pj_assem io \<noteq> i \<Longrightarrow> planned files i ios = {#}"
  by (auto simp: planned_def filter_empty_conv)

lemma covers_pieces:
  assumes "covers run part"
  shows "task_pieces files i (TQueued run) = planned files i (map (Pair (sr_shard run)) part)"
proof -
  have "list_all2 (slice_of run) sls ios \<Longrightarrow>
      mset (map (slice_piece (run_buf files run)) (slices_for i sls)) = planned files i (map (Pair (sr_shard run)) ios)" for sls ios
  proof (induction rule: list_all2_induct)
    case (Cons sl sls io ios)
    then have a: "sl_assem sl = pj_assem io" by (simp add: slice_of_def)
    have "slice_piece (run_buf files run) sl = io_piece files (sr_shard run, io)"
      using Cons.hyps(1) by (auto simp: slice_piece_def io_piece_def run_buf_def file_bytes_def slice_def slice_of_def
          add.commute split: option.splits)
    then show ?case using Cons.IH a by (simp add: slices_for_def planned_def)
  qed (simp add: slices_for_def planned_def)
  then show ?thesis using assms by (simp add: covers_def)
qed

lemma covers_task_ok:
  assumes "covers run part" "\<forall>io \<in> set part. pj_assem io < m"
  shows "task_ok m (TQueued run)"
proof -
  have r: "run_ok run" using assms(1) by (simp add: covers_def)
  have "slice_in m (unat (sr_end run) - unat (sr_start run)) sl" if sl: "sl \<in> set (sr_slices run)" for sl
  proof -
    obtain io where io: "io \<in> set part" "slice_of run sl io"
      using assms(1) sl unfolding covers_def list_all2_conv_all_nth by (metis in_set_conv_nth)
    then show ?thesis using r assms(2) by (auto simp: slice_in_def slice_of_def run_ok_def)
  qed
  then show ?thesis using r by (simp add: list_all_iff)
qed

lemma submit_run_eq:
  assumes "run_ok run"
  shows "\<exists>st. submit_run run s = s\<lparr>sc_stats := st, sc_tasks := sc_tasks s @ (if sc_running s then [TQueued run] else [])\<rparr>"
proof -
  have "sr_end run - sr_start run \<noteq> 0" "sr_slices run \<noteq> []" using assms by (auto simp: run_ok_def)
  then show ?thesis by (cases s) (simp add: submit_run_def bump_def Let_def)
qed

lemma submit_runs_eq:
  assumes "\<forall>run \<in> set runs. run_ok run"
  shows "\<exists>st. fold submit_run runs s =
    s\<lparr>sc_stats := st, sc_tasks := sc_tasks s @ (if sc_running s then map TQueued runs else [])\<rparr>"
  using assms
proof (induction runs arbitrary: s)
  case Nil
  then show ?case by (cases s) simp
next
  case (Cons run runs)
  from Cons.prems obtain st where st: "submit_run run s =
      s\<lparr>sc_stats := st, sc_tasks := sc_tasks s @ (if sc_running s then [TQueued run] else [])\<rparr>"
    using submit_run_eq [of run s] by (auto simp del: if_split)
  from Cons.IH [of "submit_run run s"] Cons.prems show ?case by (auto simp: st)
qed

text \<open>What \<open>stage_keys\<close> has planned: an assembly per key it accepted, and that assembly's ranges.\<close>

type_synonym plan = "(assembly \<times> u16 \<times> tensor_location list) list"

fun plan_ios :: "nat \<Rightarrow> plan \<Rightarrow> (string \<times> projection_io) list" where
  "plan_ios n [] = []"
| "plan_ios n ((a, eid, locs) # ps) = push_ios n eid locs 0 @ plan_ios (Suc n) ps"

lemma plan_ios_append: "plan_ios n (ps @ [(a, eid, locs)]) = plan_ios n ps @ push_ios (n + length ps) eid locs 0"
  by (induction ps arbitrary: n) auto

definition planned_asm :: "files \<Rightarrow> weight_index \<Rightarrow> assembly \<times> u16 \<times> tensor_location list \<Rightarrow> bool" where
  "planned_asm files w = (\<lambda>(a, eid, locs). locs_ok files locs \<and> locs_total locs \<noteq> 0 \<and>
     key_source files w (as_key a) = concat (map (loc_bytes files) locs) \<and>
     as_handle a = BufferHandle (locs_total locs) \<and> as_inserted a = False \<and>
     as_remaining a = int (length (filter (\<lambda>loc. byteSize loc \<noteq> 0) locs)))"

definition staged :: "files \<Rightarrow> weight_index \<Rightarrow> scheduler \<Rightarrow> staging \<Rightarrow> plan \<Rightarrow> bool" where
  "staged files w s0 st ps \<longleftrightarrow> (case st of (s, keys, ios) \<Rightarrow>
     (\<exists>stat. s = s0\<lparr>sc_stats := stat, sc_assemblies := sc_assemblies s0 @ map fst ps\<rparr>) \<and>
     ios = plan_ios (length (sc_assemblies s0)) ps \<and> list_all (planned_asm files w) ps)"

definition stageable :: "weight_index \<Rightarrow> int \<times> int \<Rightarrow> bool" where
  "stageable w = (\<lambda>(layer, eid). 0 \<le> layer \<and> layer < numLayers (wi_config w) \<longrightarrow>
     key_locs w layer (word_of_int eid) \<noteq> None)"

text \<open>The residency test of \<open>prefetchAsync\<close> never fires: \<open>probe\<close> has already passed such a key over.\<close>

lemma stage_key_eq:
  "stage_key w demand (layer, eidRaw) (s, keys, ios) =
     (let eid = word_of_int eidRaw; key = ExpertKey (word_of_int layer) eid in
      if layer < 0 \<or> numLayers (wi_config w) \<le> layer \<or> sched_probe key s then Some (s, keys, ios)
      else (case key_locs w layer eid of
          None \<Rightarrow> None
        | Some None \<Rightarrow> Some (s, keys, ios)
        | Some (Some locs) \<Rightarrow>
            if locs_total locs = 0 then Some (s, keys, ios)
            else Some ((if demand then inc demandKeysStaged_update s else s)\<lparr>sc_assemblies := sc_assemblies s @
                [\<lparr>as_key = key, as_total = locs_total locs, as_handle = BufferHandle (locs_total locs),
                  as_remaining = int (length (filter (\<lambda>loc. byteSize loc \<noteq> 0) locs)), as_inserted = False\<rparr>]\<rparr>,
              keys @ [key], ios @ push_ios (length (sc_assemblies s)) eid locs 0)))"
  by (auto simp: stage_key_def sched_probe_def Let_def bump_def split: option.splits)

lemma stage_key_ok:
  assumes "staged files w s0 st ps" "index_sound files w" "stageable w le"
  shows "\<exists>st' ps'. stage_key w demand le st = Some st' \<and> staged files w s0 st' (ps @ ps')"
proof -
  obtain layer eidRaw where le: "le = (layer, eidRaw)" by (cases le)
  obtain s keys ios where st: "st = (s, keys, ios)" by (cases st)
  let ?eid = "word_of_int eidRaw :: u16" and ?key = "ExpertKey (word_of_int layer) (word_of_int eidRaw)"
  show ?thesis
  proof (cases "stage_key w demand le st = Some st")
    case True
    then show ?thesis using assms(1) by (intro exI [of _ st] exI [of _ "[]"]) simp
  next
    case False
    have r: "0 \<le> layer" "layer < numLayers (wi_config w)" "\<not> sched_probe ?key s"
      using False by (auto simp: le st stage_key_eq Let_def not_less not_le split: if_splits)
    then obtain locs where locs: "key_locs w layer ?eid = Some (Some locs)" "locs_total locs \<noteq> 0"
      using False assms(3) by (auto simp: le st stage_key_eq Let_def stageable_def split: option.splits if_splits)
    define a where "a = \<lparr>as_key = ?key, as_total = locs_total locs, as_handle = BufferHandle (locs_total locs),
      as_remaining = int (length (filter (\<lambda>loc. byteSize loc \<noteq> 0) locs)), as_inserted = False\<rparr>"
    have "uint (word_of_int layer :: u32) = layer"
      using r assms(2) by (simp add: index_sound_def uint_word_of_int)
    then have "key_source files w ?key = concat (map (loc_bytes files) locs)"
      using locs(1) by (simp add: key_source_def)
    moreover have "locs_ok files locs" using assms(2) locs(1) unfolding index_sound_def by blast
    ultimately have p: "planned_asm files w (a, ?eid, locs)" using locs(2) by (simp add: planned_asm_def a_def)
    let ?s = "(if demand then inc demandKeysStaged_update s else s)\<lparr>sc_assemblies := sc_assemblies s @ [a]\<rparr>"
    have e: "stage_key w demand le st = Some (?s, keys @ [?key], ios @ push_ios (length (sc_assemblies s)) ?eid locs 0)"
      using r locs by (simp add: le st stage_key_eq Let_def a_def)
    have "staged files w s0 (?s, keys @ [?key], ios @ push_ios (length (sc_assemblies s)) ?eid locs 0) (ps @ [(a, ?eid, locs)])"
      using assms(1) p by (auto simp: staged_def st bump_def plan_ios_append)
    with e show ?thesis by blast
  qed
qed

lemma stage_keys_ok:
  assumes "staged files w s0 st ps" "index_sound files w" "\<forall>le \<in> set les. stageable w le"
  shows "\<exists>st' ps'. stage_keys w demand les st = Some st' \<and> staged files w s0 st' ps'"
  using assms
proof (induction les arbitrary: st ps)
  case Nil
  then show ?case by auto
next
  case (Cons le les)
  then obtain st1 ps1 where "stage_key w demand le st = Some st1" "staged files w s0 st1 (ps @ ps1)"
    using stage_key_ok [OF Cons.prems(1,2), of le demand] by auto
  with Cons.IH [OF this(2) Cons.prems(2)] Cons.prems(3) show ?case by simp
qed

text \<open>The ranges of one assembly tile its buffer.\<close>

fun loc_pieces :: "files \<Rightarrow> nat \<Rightarrow> tensor_location list \<Rightarrow> piece list" where
  "loc_pieces files off [] = []"
| "loc_pieces files off (loc # locs) =
     (if byteSize loc = 0 then loc_pieces files off locs
      else (off, loc_bytes files loc) # loc_pieces files (off + unat (byteSize loc)) locs)"

lemma push_ios_assem: "(shard, io) \<in> set (push_ios i eid locs off) \<Longrightarrow> pj_assem io = i"
  by (induction locs arbitrary: off) (auto split: if_splits)

lemma push_ios_pieces:
  assumes "unat off + sum_list (map (unat \<circ> byteSize) locs) < 2 ^ 62"
  shows "map (io_piece files) (push_ios i eid locs off) = loc_pieces files (unat off) locs"
  using assms
proof (induction locs arbitrary: off)
  case (Cons loc locs)
  have "unat (off + byteSize loc) = unat off + unat (byteSize loc)" using Cons.prems by (intro unat_add_64) simp
  then show ?case using Cons.IH [of "off + byteSize loc"] Cons.IH [of off] Cons.prems
    by (simp add: io_piece_def loc_bytes_def)
qed simp

lemma push_ios_ok: "list_all (loc_ok files) locs \<Longrightarrow> (shard, io) \<in> set (push_ios i eid locs off) \<Longrightarrow> io_ok io"
proof (induction locs arbitrary: off)
  case (Cons loc locs)
  have "io_ok \<lparr>pj_assem = i, pj_slot = eid, pj_offset = byteOffset loc, pj_size = byteSize loc, pj_expertOffset = off\<rparr>"
    if "byteSize loc \<noteq> 0"
    using Cons.prems(1) that by (auto simp: io_ok_def loc_ok_def unat_gt_0)
  then show ?case using Cons by (auto split: if_splits)
qed simp

lemma length_loc_pieces: "length (loc_pieces files off locs) = length (filter (\<lambda>loc. byteSize loc \<noteq> 0) locs)"
  by (induction locs arbitrary: off) simp_all

lemma loc_pieces_tile:
  assumes "locs_ok files locs"
  shows "(\<forall>(p, b) \<in> set (loc_pieces files off locs). off \<le> p \<and>
            p - off + length b \<le> length (concat (map (loc_bytes files) locs)) \<and>
            slice (concat (map (loc_bytes files) locs)) (p - off) (length b) = b) \<and>
         (\<forall>j < length (concat (map (loc_bytes files) locs)).
            \<exists>(p, b) \<in> set (loc_pieces files off locs). p \<le> off + j \<and> off + j < p + length b)"
  using assms
proof (induction locs arbitrary: off)
  case (Cons loc locs)
  note ok = locs_ok_Cons [OF Cons.prems]
  let ?C = "concat (map (loc_bytes files) locs)" and ?b = "loc_bytes files loc"
  have lb: "length ?b = unat (byteSize loc)" using ok by (simp add: length_file_bytes_loc)
  show ?case
  proof (cases "byteSize loc = 0")
    case True
    then show ?thesis using Cons.IH [of off] ok lb by simp
  next
    case False
    note IH = Cons.IH [OF conjunct2 [OF ok], of "off + length ?b"]
    have shift: "slice (?b @ ?C) (p - off) n = slice ?C (p - (off + length ?b)) n" if "off + length ?b \<le> p" for p n
      using that by (subst slice_append_right) simp_all
    have inside: "off \<le> p \<and> p - off + length b \<le> length (?b @ ?C) \<and> slice (?b @ ?C) (p - off) (length b) = b"
      if pb: "(p, b) \<in> set (loc_pieces files off (loc # locs))" for p b
    proof (cases "p = off \<and> b = ?b")
      case True
      then show ?thesis by (simp add: slice_append_left)
    next
      case F: False
      then have pb': "(p, b) \<in> set (loc_pieces files (off + length ?b) locs)" using pb False lb by auto
      have h: "off + length ?b \<le> p" "p - (off + length ?b) + length b \<le> length ?C"
        "slice ?C (p - (off + length ?b)) (length b) = b"
        using bspec [OF conjunct1 [OF IH] pb'] unfolding prod.case by blast+
      show ?thesis using h shift [OF h(1), of "length b"] by simp
    qed
    moreover have "\<exists>(p, b) \<in> set (loc_pieces files off (loc # locs)). p \<le> off + j \<and> off + j < p + length b"
      if j: "j < length (?b @ ?C)" for j
    proof (cases "j < length ?b")
      case True
      then show ?thesis using False by simp
    next
      case F: False
      then obtain p b where "(p, b) \<in> set (loc_pieces files (off + length ?b) locs)"
        "p \<le> off + length ?b + (j - length ?b)" "off + length ?b + (j - length ?b) < p + length b"
        using spec [OF conjunct2 [OF IH], of "j - length ?b"] j by auto
      then show ?thesis using F False lb by auto
    qed
    ultimately show ?thesis by (simp only: list.map concat.simps) blast
  qed
qed simp

lemma planned_asm_ok:
  assumes "planned_asm files w (a, eid, locs)"
  shows "asm_ok (key_source files w) a (planned files i (push_ios i eid locs 0))"
proof -
  let ?C = "concat (map (loc_bytes files) locs)"
  have a: "locs_ok files locs" "locs_total locs \<noteq> 0" "key_source files w (as_key a) = ?C"
    "as_handle a = BufferHandle (locs_total locs)" "\<not> as_inserted a"
    "as_remaining a = int (length (filter (\<lambda>loc. byteSize loc \<noteq> 0) locs))"
    using assms by (simp_all add: planned_asm_def)
  have "filter (\<lambda>(_, io). pj_assem io = i) (push_ios i eid locs 0) = push_ios i eid locs 0"
    using push_ios_assem [of _ _ i eid locs 0] by (auto simp: filter_id_conv)
  then have P: "planned files i (push_ios i eid locs 0) = mset (loc_pieces files 0 locs)"
    using push_ios_pieces [of 0 locs files i eid] a(1) by (simp add: planned_def locs_ok_def)
  have total: "unat (locs_total locs) = length ?C" using a(1) by (rule unat_locs_total)
  have ne: "filter (\<lambda>loc. byteSize loc \<noteq> 0) locs \<noteq> []"
  proof
    assume "filter (\<lambda>loc. byteSize loc \<noteq> 0) locs = []"
    then have "\<forall>loc \<in> set locs. byteSize loc = 0" by (simp add: filter_empty_conv)
    then have "map (unat \<circ> byteSize) locs = replicate (length locs) 0" by (simp add: list_eq_iff_nth_eq)
    then have "sum_list (map (unat \<circ> byteSize) locs) = 0" by (simp only: sum_list_replicate)
    then have "unat (locs_total locs) = 0" by (simp only: total length_locs_bytes [OF a(1)])
    then show False using a(2) by (simp only: unat_eq_zero)
  qed
  have h: "handle_ok (as_handle a)" "length (bh_data (as_handle a)) = length ?C"
    using a(4) total by (simp_all add: handle_ok_def BufferHandle_def)
  have sz: "int (length (loc_pieces files 0 locs)) = as_remaining a" by (simp add: a(6) length_loc_pieces)
  note T = loc_pieces_tile [OF a(1), of 0, simplified]
  have 1: "as_remaining a \<noteq> 0" using ne a(6) by simp
  have 2: "\<forall>(off, b) \<in> set (loc_pieces files 0 locs). off + length b \<le> length ?C \<and> slice ?C off (length b) = b"
    using T by blast
  have 3: "\<forall>j < length ?C. \<exists>(off, b) \<in> set (loc_pieces files 0 locs). off \<le> j \<and> j < off + length b"
    using T by blast
  show ?thesis unfolding asm_ok_def P a(3) size_mset set_mset_mset using a(5) 1 2 3 h sz by simp
qed

definition env_ok :: "sched_env \<Rightarrow> bool" where
  "env_ok env \<longleftrightarrow> partial_sorter (se_sort env) \<and>
     (\<forall>A. finite A \<longrightarrow> distinct (se_order env A) \<and> set (se_order env A) = A) \<and>
     (\<forall>p v. se_view env p = Some v \<longrightarrow> se_files env p = Some v)"

lemma plan_ios_assem:
  "(shard, io) \<in> set (plan_ios n ps) \<Longrightarrow> n \<le> pj_assem io \<and> pj_assem io < n + length ps"
  by (induction ps arbitrary: n) (fastforce dest: push_ios_assem)+

lemma plan_ios_ok:
  "list_all (planned_asm files w) ps \<Longrightarrow> (shard, io) \<in> set (plan_ios n ps) \<Longrightarrow> io_ok io"
proof (induction ps arbitrary: n)
  case (Cons p ps)
  then show ?case by (cases p) (auto simp: planned_asm_def locs_ok_def dest: push_ios_ok)
qed simp

lemma planned_plan_other: "i < n \<or> n + length ps \<le> i \<Longrightarrow> planned files i (plan_ios n ps) = {#}"
  by (rule planned_none) (auto dest!: plan_ios_assem)

lemma planned_plan:
  "k < length ps \<Longrightarrow> planned files (n + k) (plan_ios n ps) =
     (case ps ! k of (a, eid, locs) \<Rightarrow> planned files (n + k) (push_ios (n + k) eid locs 0))"
proof (induction ps arbitrary: n k)
  case (Cons p ps)
  obtain a eid locs where p: "p = (a, eid, locs)" by (cases p)
  show ?case
  proof (cases k)
    case 0
    then show ?thesis using planned_plan_other [of n "Suc n" ps] by (simp add: p)
  next
    case (Suc j)
    have "planned files (n + k) (push_ios n eid locs 0) = {#}"
      using Suc by (intro planned_none) (auto dest: push_ios_assem)
    then show ?thesis using Cons.IH [of j "Suc n"] Cons.prems Suc by (simp add: p)
  qed
qed simp

lemma pieces_runs:
  "\<forall>(run, part) \<in> set rs. covers run part \<Longrightarrow>
   pieces files i (map TQueued (map fst rs)) = planned files i (run_pieces rs)"
proof (induction rs)
  case (Cons r rs)
  then show ?case using covers_pieces [of "fst r" "snd r" files i] by (cases r) (simp add: run_pieces_def)
qed (simp add: run_pieces_def planned_def)

lemma pieces_fresh:
  "list_all (task_ok m) ts \<Longrightarrow> m \<le> i \<Longrightarrow> pieces files i ts = {#}"
proof (induction ts)
  case (Cons t ts)
  have "task_pieces files i t = {#}"
    using Cons.prems by (cases t) (auto simp: slices_for_def filter_empty_conv list_all_iff slice_in_def)
  then show ?case using Cons by simp
qed simp

lemma task_ok_mono: "task_ok m t \<Longrightarrow> m \<le> m' \<Longrightarrow> task_ok m' t"
  by (cases t) (auto simp: list_all_iff slice_in_def)

lemma asm_ok_none: "asm_ok src a P \<Longrightarrow> asm_ok src a {#}"
  using asm_ok_fewer [of src a "{#}" P] by simp

lemma prefetchAsync_ok:
  assumes "sched_ok (se_files env) w s" "index_sound (se_files env) w" "env_ok env"
    and "\<forall>le \<in> set experts. stageable w le"
  shows "\<exists>s'. prefetchAsync env experts demand s = Some s' \<and> sched_ok (se_files env) w s' \<and> sched_frame s s'"
proof (cases "\<not> demand \<and> kMaxPrefetchInFlight \<le> card (prefetchedInFlight s)")
  case True
  then show ?thesis using assms(1) by (simp add: prefetchAsync_def sched_ok_def)
next
  case False
  let ?files = "se_files env" and ?n = "length (sc_assemblies s)"
  have "staged ?files w s (s, [], []) []" by (cases s) (simp add: staged_def)
  from stage_keys_ok [OF this assms(2,4), of demand] obtain st ps where
    st: "stage_keys w demand experts (s, [], []) = Some st" "staged ?files w s st ps" by blast
  obtain s1 keys ios where st1: "st = (s1, keys, ios)" by (cases st)
  obtain stat where s1: "s1 = s\<lparr>sc_stats := stat, sc_assemblies := sc_assemblies s @ map fst ps\<rparr>"
    and ios: "ios = plan_ios ?n ps" and ps: "list_all (planned_asm ?files w) ps"
    using st(2) by (auto simp: staged_def st1)
  let ?s2 = "s1\<lparr>prefetchedInFlight := prefetchedInFlight s1 \<union> set keys\<rparr>"
    and ?runs = "build_runs (se_sort env) (se_order env) ios"
  have "\<forall>(shard, io) \<in> set ios. io_ok io" using plan_ios_ok [OF ps] by (auto simp: ios)
  then obtain rs where rs: "map fst rs = ?runs" "\<forall>(run, part) \<in> set rs. covers run part"
    "mset (run_pieces rs) = mset ios"
    using runs_cover_plan [of "se_sort env" "se_order env" ios] assms(3) by (auto simp: env_ok_def)
  have runs: "\<forall>run \<in> set ?runs. run_ok run" using rs(1,2) by (auto simp: covers_def simp flip: rs(1))
  let ?new = "if sc_running s then map TQueued ?runs else []"
  obtain stat' where fin: "fold submit_run ?runs ?s2 = ?s2\<lparr>sc_stats := stat', sc_tasks := sc_tasks ?s2 @ ?new\<rparr>"
    using submit_runs_eq [OF runs, of ?s2] by (auto simp: s1 simp del: if_split)
  let ?s3 = "s\<lparr>sc_stats := stat', sc_assemblies := sc_assemblies s @ map fst ps,
    prefetchedInFlight := prefetchedInFlight s \<union> set keys, sc_tasks := sc_tasks s @ ?new\<rparr>"
  have "prefetchAsync env experts demand s = Some (fold submit_run ?runs ?s2)"
    using False assms(1) st(1) by (auto simp: prefetchAsync_def sched_ok_def st1)
  then have eval: "prefetchAsync env experts demand s = Some ?s3"
    unfolding fin by (simp add: s1 del: if_split)
  have old: "list_all (task_ok ?n) (sc_tasks s)" using assms(1) by (simp add: sched_ok_def)
  have newp: "pieces ?files i ?new = (if sc_running s then planned ?files i ios else {#})" for i
    using pieces_runs [OF rs(2), of ?files i] planned_mset [OF rs(3)] by (simp add: rs(1))
  have tasks: "list_all (task_ok (?n + length ps)) (sc_tasks s @ ?new)"
  proof -
    have "list_all (task_ok (?n + length ps)) (sc_tasks s)"
      using old by (auto simp: list_all_iff intro: task_ok_mono)
    moreover have "task_ok (?n + length ps) (TQueued run)" if run: "run \<in> set ?runs" for run
    proof -
      obtain part where part: "(run, part) \<in> set rs" using run by (auto simp flip: rs(1))
      have "pj_assem io < ?n + length ps" if "io \<in> set part" for io
      proof -
        have "(sr_shard run, io) \<in> set (run_pieces rs)" using part that by (auto simp: run_pieces_def)
        then have "(sr_shard run, io) \<in> set ios" using mset_eq_setD [OF rs(3)] by simp
        then show ?thesis using plan_ios_assem [of _ io ?n ps] by (simp add: ios)
      qed
      moreover have "covers run part" using rs(2) part by blast
      ultimately show ?thesis using covers_task_ok [of run part] by blast
    qed
    ultimately show ?thesis by (auto simp: list_all_iff)
  qed
  have asm: "asm_ok (key_source ?files w) ((sc_assemblies s @ map fst ps) ! i) (pieces ?files i (sc_tasks s @ ?new))"
    if i: "i < ?n + length ps" for i
  proof (cases "i < ?n")
    case True
    then have "pieces ?files i ?new = {#}" using newp planned_plan_other [of i ?n ps ?files] by (simp add: ios)
    then show ?thesis using assms(1) True by (simp add: sched_ok_def nth_append)
  next
    case F: False
    define k where "k = i - ?n"
    have k: "i = ?n + k" "k < length ps" using F i by (simp_all add: k_def)
    obtain a eid locs where p: "ps ! k = (a, eid, locs)" by (cases "ps ! k")
    have pl: "planned_asm ?files w (a, eid, locs)" using ps k(2) p by (metis list_all_length)
    have "pieces ?files i (sc_tasks s) = {#}" using pieces_fresh [OF old] F by simp
    moreover have "planned ?files i ios = planned ?files i (push_ios i eid locs 0)"
      using planned_plan [OF k(2), of ?files ?n] p k(1) by (simp add: ios)
    moreover have "(sc_assemblies s @ map fst ps) ! i = a" using k p by (simp add: nth_append)
    ultimately show ?thesis using newp [of i] planned_asm_ok [OF pl, of i] asm_ok_none by auto
  qed
  have "sched_ok ?files w ?s3" using assms(1) tasks asm by (simp add: sched_ok_def)
  moreover have "sched_frame s ?s3" by (simp add: sched_frame_def)
  ultimately show ?thesis using eval by blast
qed

subsection \<open>The getters\<close>

lemma sched_ok_lru:
  "sched_ok files w s \<Longrightarrow> lru_inv c \<Longrightarrow> lru.agrees (key_source files w) c \<Longrightarrow> sched_ok files w (s\<lparr>sc_lru := c\<rparr>)"
  by (simp add: sched_ok_def)

lemma sched_okD:
  assumes "sched_ok files w s"
  shows "sc_index s = Some w" "lru_inv (sc_lru s)" "lru.agrees (key_source files w) (sc_lru s)"
  using assms by (simp_all add: sched_ok_def)

lemma sched_ok_pin:
  assumes "sched_ok files w s"
  shows "sched_ok files w (s\<lparr>sc_lru := lru_pin k (sc_lru s)\<rparr>)"
  using sched_ok_lru [OF assms, of "lru_pin k (sc_lru s)"] sched_okD [OF assms]
    lru.hint_agrees [of "key_source files w" "HintPin k" "sc_lru s"] by (simp add: lru_pin_inv)

lemma sched_ok_boost:
  assumes "sched_ok files w s"
  shows "sched_ok files w (s\<lparr>sc_lru := lru_boost k n (sc_lru s)\<rparr>)"
  using sched_ok_lru [OF assms, of "lru_boost k n (sc_lru s)"] sched_okD [OF assms]
    lru.hint_agrees [of "key_source files w" "HintBoost k n" "sc_lru s"] by (simp add: lru_boost_inv)

lemma sched_ok_insert:
  assumes "sched_ok files w s" "handle_ok h" "bh_data h = key_source files w k" "lru_insert k h p (sc_lru s) = (ok, c)"
  shows "sched_ok files w (s\<lparr>sc_lru := c\<rparr>)"
  using sched_ok_lru [OF assms(1), of c] lru.put_inv [of "sc_lru s" h k p] lru.put_agrees [of "sc_lru s" _ h k p]
    sched_okD [OF assms(1)] assms(2-4) by fastforce

text \<open>The parts of the state the invariant does not read.\<close>

lemma sched_ok_other:
  assumes "sc_index t = sc_index s" "sc_lru t = sc_lru s" "sc_tasks t = sc_tasks s" "sc_assemblies t = sc_assemblies s"
  shows "sched_ok files w t = sched_ok files w s"
  using assms by (simp add: sched_ok_def)

lemma pin_if_hot_ok: "sched_ok files w s \<Longrightarrow> sched_ok files w (pin_if_hot layer e s)"
  by (simp add: pin_if_hot_def sched_ok_pin)

lemma expert_served_ok:
  assumes "sched_ok files w s"
  shows "sched_ok files w (expert_served layer e buf s)" "exScratch (expert_served layer e buf s) = buf"
proof -
  show "sched_ok files w (expert_served layer e buf s)"
    unfolding expert_served_def Let_def
    by (rule pin_if_hot_ok) (use assms in \<open>simp add: sched_ok_def bump_def\<close>)
  show "exScratch (expert_served layer e buf s) = buf"
    by (simp add: expert_served_def pin_if_hot_def Let_def)
qed

lemma fetch_ok:
  assumes "sched_ok files w s"
  shows "\<exists>hit buf' c. lru_fetch key buf (sc_lru s) = Some (hit, buf', c) \<and> sched_ok files w (s\<lparr>sc_lru := c\<rparr>) \<and>
    length buf' = length buf \<and> buf' = (if hit then key_source files w key @ drop (length (key_source files w key)) buf else buf)"
proof -
  note i = sched_okD [OF assms]
  obtain hit buf' c where f: "lru_fetch key buf (sc_lru s) = Some (hit, buf', c)"
    using lru.fetch_safe [OF i(2), of key buf key] by blast
  show ?thesis using lru.fetch_agrees [OF i(2,3) f] f sched_ok_lru [OF assms, of c] by blast
qed

lemma wait_polls_ok:
  assumes "sched_ok (se_files env) w s"
  shows "\<exists>hit buf' s'. wait_polls env key polls buf s = Some (hit, buf', s') \<and> sched_ok (se_files env) w s' \<and>
    sched_frame s s' \<and> length buf' = length buf \<and>
    buf' = (if hit then key_source (se_files env) w key @ drop (length (key_source (se_files env) w key)) buf else buf)"
  using assms
proof (induction polls arbitrary: s buf)
  case (Cons ws polls)
  obtain s1 where s1: "run_workers env ws s = Some s1" "sched_ok (se_files env) w s1" "sched_frame s s1"
    using run_workers_ok [OF Cons.prems] by blast
  obtain hit buf1 c where f: "lru_fetch key buf (sc_lru s1) = Some (hit, buf1, c)"
    "sched_ok (se_files env) w (s1\<lparr>sc_lru := c\<rparr>)" "length buf1 = length buf"
    "buf1 = (if hit then key_source (se_files env) w key @ drop (length (key_source (se_files env) w key)) buf else buf)"
    using fetch_ok [OF s1(2), of key buf] by blast
  have fr: "sched_frame s (s1\<lparr>sc_lru := c\<rparr>)" using s1(3) by (rule sched_frame_trans) (simp add: sched_frame_def)
  show ?case
  proof (cases hit)
    case True
    then show ?thesis using s1(1) f fr
      by (intro exI [of _ True] exI [of _ buf1] exI [of _ "s1\<lparr>sc_lru := c\<rparr>"]) simp
  next
    case False
    then have b: "buf1 = buf" using f(4) by simp
    have "wait_polls env key (ws # polls) buf s = wait_polls env key polls buf (s1\<lparr>sc_lru := c\<rparr>)"
      using s1(1) f(1) b False by simp
    then show ?thesis using Cons.IH [OF f(2), of buf] sched_frame_trans [OF fr] by metis
  qed
next
  case Nil
  then show ?case by (intro exI [of _ False] exI [of _ buf] exI [of _ s]) simp
qed

lemma stage_missing_ok:
  assumes "sched_ok (se_files env) w s" "index_sound (se_files env) w" "env_ok env" "stageable w (layer, eid)"
  shows "\<exists>s'. stage_missing env racing layer eid s = Some s' \<and> sched_ok (se_files env) w s' \<and> sched_frame s s'"
proof -
  obtain s1 where s1: "run_workers env racing s = Some s1" "sched_ok (se_files env) w s1" "sched_frame s s1"
    using run_workers_ok [OF assms(1)] by blast
  show ?thesis
  proof (cases "sched_probe (keyOf layer eid) s1")
    case True
    then show ?thesis using s1 by (simp add: stage_missing_def)
  next
    case False
    then show ?thesis using s1 prefetchAsync_ok [OF s1(2) assms(2,3), of "[(layer, eid)]" True] assms(4)
      by (auto simp: stage_missing_def intro: sched_frame_trans)
  qed
qed

text \<open>An expert of a layer with experts, and its projections.\<close>

definition expert_locs :: "expert_weights \<Rightarrow> tensor_location list" where
  "expert_locs ew = [gateProj ew, upProj ew, downProj ew]"

lemma expert_lookup:
  assumes "index_sound files w" "stageable w (layer, e)" "0 \<le> layer" "layer < numLayers (wi_config w)"
    and "0 \<le> e" "e < numLocalExperts (wi_config w)"
  obtains ew where "expert_at w layer e = Some ew" "key_source files w (keyOf layer e) = concat (map (loc_bytes files) (expert_locs ew))"
    "locs_ok files (expert_locs ew)" "locs_total (expert_locs ew) = totalBytes ew"
proof -
  have e: "uint (word_of_int e :: u16) = e" and l: "uint (word_of_int layer :: u32) = layer"
    using assms by (simp_all add: index_sound_def uint_word_of_int)
  have lt: "\<not> kSharedGateProjSlot \<le> word_of_int e" "\<not> numLocalExperts (wi_config w) \<le> uint (word_of_int e :: u16)"
    using e assms by (simp_all add: word_le_def kSharedGateProjSlot_def index_sound_def not_le)
  have n: "unat (word_of_int e :: u16) = nat e" using e by (metis nat_uint_eq)
  have "key_locs w layer (word_of_int e) \<noteq> None" using assms(2-4) by (simp add: stageable_def)
  then obtain ew where ew: "expert_at w layer e = Some ew" "key_locs w layer (word_of_int e) = Some (Some (expert_locs ew))"
    using lt by (auto simp: key_locs_def expert_at_def expert_locs_def n bind_eq_Some_conv split: option.splits)
  show thesis
  proof (rule that [OF ew(1)])
    show "key_source files w (keyOf layer e) = concat (map (loc_bytes files) (expert_locs ew))"
      using ew(2) l by (simp add: key_source_def keyOf_def)
    show "locs_ok files (expert_locs ew)" using assms(1) ew(2) unfolding index_sound_def by blast
    show "locs_total (expert_locs ew) = totalBytes ew" by (simp add: locs_total_def totalBytes_def expert_locs_def)
  qed
qed

definition unmapped :: "sched_env \<Rightarrow> tensor_location list \<Rightarrow> bool" where
  "unmapped env locs \<longleftrightarrow> list_ex (\<lambda>loc. byteSize loc \<noteq> 0 \<and> se_view env (shardPath loc) = None) locs"

lemma copy_locs_ok:
  assumes "env_ok env" "locs_ok (se_files env) locs" "off + length (concat (map (loc_bytes (se_files env)) locs)) = length dest"
  shows "\<exists>r. copy_locs (se_view env) locs off dest = Some r \<and> (r = None \<longleftrightarrow> unmapped env locs) \<and>
    (\<forall>d. r = Some d \<longrightarrow> d = take off dest @ concat (map (loc_bytes (se_files env)) locs))"
  using assms(2,3)
proof (induction locs arbitrary: off dest)
  case (Cons loc locs)
  let ?f = "se_files env"
  note ok = locs_ok_Cons [OF Cons.prems(1)]
  have lb: "length (loc_bytes ?f loc) = unat (byteSize loc)" using ok by (simp add: length_file_bytes_loc)
  show ?case
  proof (cases "byteSize loc = 0 \<or> se_view env (shardPath loc) = None")
    case True
    then show ?thesis using Cons.IH [of off dest] Cons.prems ok lb by (auto simp: unmapped_def)
  next
    case False
    then obtain v where v: "se_view env (shardPath loc) = Some v" "byteSize loc \<noteq> 0" by auto
    then have "?f (shardPath loc) = Some v" using assms(1) by (simp add: env_ok_def)
    then have sz: "unat (byteOffset loc) + unat (byteSize loc) \<le> length v"
      and b: "loc_bytes ?f loc = slice v (unat (byteOffset loc)) (unat (byteSize loc))"
      using ok v(2) by (auto simp: loc_ok_def loc_bytes_def file_bytes_def)
    let ?d = "take off dest @ loc_bytes ?f loc @ drop (off + unat (byteSize loc)) dest"
    have m: "memcpy dest off v (unat (byteOffset loc)) (unat (byteSize loc)) = Some ?d"
      using sz Cons.prems(2) lb by (simp add: memcpy_def b slice_def)
    have "length ?d = length dest" using length_memcpy [OF m] .
    then have "off + unat (byteSize loc) + length (concat (map (loc_bytes ?f) locs)) = length ?d"
      using Cons.prems(2) lb by simp
    from Cons.IH [OF conjunct2 [OF ok] this] obtain r where
      r: "copy_locs (se_view env) locs (off + unat (byteSize loc)) ?d = Some r" "r = None \<longleftrightarrow> unmapped env locs"
        "\<forall>d. r = Some d \<longrightarrow> d = take (off + unat (byteSize loc)) ?d @ concat (map (loc_bytes ?f) locs)" by blast
    have t: "take (off + unat (byteSize loc)) ?d = take off dest @ loc_bytes ?f loc"
      using Cons.prems(2) lb by simp
    have e: "copy_locs (se_view env) (loc # locs) off dest = Some r"
      using v(2) r(1) by (simp only: copy_locs.simps v(1) m if_False option.case bind.simps)
    have "unmapped env (loc # locs) = unmapped env locs" using v by (simp add: unmapped_def)
    moreover have "d = take off dest @ concat (map (loc_bytes ?f) (loc # locs))" if "r = Some d" for d
      using r(3) that t by simp
    ultimately show ?thesis using e r(2) by blast
  qed
qed (simp add: unmapped_def)

lemma loadExpertFromDisk_ok:
  assumes "sc_index s = Some w" "env_ok env" "0 \<le> layer" "layer < numLayers (wi_config w)"
    and "0 \<le> e" "e < numLocalExperts (wi_config w)" "expert_at w layer e = Some ew"
    and "locs_ok (se_files env) (expert_locs ew)" "locs_total (expert_locs ew) = totalBytes ew" "totalBytes ew \<noteq> 0"
  shows "\<exists>r. loadExpertFromDisk env layer e s = Some r \<and> (r = None \<longleftrightarrow> unmapped env (expert_locs ew)) \<and>
    (\<forall>h. r = Some h \<longrightarrow> handle_ok h \<and> bh_size h = totalBytes ew \<and>
       bh_data h = concat (map (loc_bytes (se_files env)) (expert_locs ew)))"
proof -
  have n: "unat (totalBytes ew) = length (concat (map (loc_bytes (se_files env)) (expert_locs ew)))"
    using unat_locs_total [OF assms(8)] assms(9) by simp
  obtain r where r: "copy_locs (se_view env) (expert_locs ew) 0 (bh_data (BufferHandle (totalBytes ew))) = Some r"
    "r = None \<longleftrightarrow> unmapped env (expert_locs ew)"
    "\<And>d. r = Some d \<Longrightarrow> d = concat (map (loc_bytes (se_files env)) (expert_locs ew))"
    using copy_locs_ok [OF assms(2,8), of 0 "bh_data (BufferHandle (totalBytes ew))"] n
    by (simp only: BufferHandle_def buffer_handle.simps length_replicate add_0 take_0 append_Nil) blast
  have "loadExpertFromDisk env layer e s = Some (map_option (\<lambda>d. \<lparr>bh_data = d, bh_size = totalBytes ew\<rparr>) r)"
    using assms r(1) by (simp add: loadExpertFromDisk_def Let_def expert_locs_def)
  moreover have "handle_ok \<lparr>bh_data = d, bh_size = totalBytes ew\<rparr>" if "r = Some d" for d
    using r(3) [OF that] n by (simp only: handle_ok_def buffer_handle.simps)
  ultimately show ?thesis using r(2,3) by (cases r) simp_all
qed

text \<open>What a getter promises about its answer: the scratch starts with the expert's bytes.\<close>

definition serves :: "bytes \<Rightarrow> bytes \<Rightarrow> bool" where
  "serves src buf \<longleftrightarrow> take (length src) buf = src"

lemma serves_append [simp]: "serves src (src @ rest)"
  by (simp add: serves_def)

lemma pin_if_hot_scratch [simp]: "exScratch (pin_if_hot layer e s) = exScratch s"
  by (simp add: pin_if_hot_def)

lemma pin_if_hot_placement [simp]: "sc_placement (pin_if_hot layer e s) = sc_placement s"
  by (simp add: pin_if_hot_def)

lemma expert_served_placement [simp]: "sc_placement (expert_served layer e buf s) = sc_placement s"
  by (simp add: expert_served_def Let_def bump_def)

text \<open>The fields a getter leaves alone, apart from those of \<^const>\<open>sched_frame\<close>.\<close>

definition get_frame :: "scheduler \<Rightarrow> scheduler \<Rightarrow> bool" where
  "get_frame s t \<longleftrightarrow> sc_placement t = sc_placement s \<and> overlapEma t = overlapEma s \<and>
     lastTopK t = lastTopK s \<and> length (shScratch t) = length (shScratch s)"

lemma get_frame_refl [simp]: "get_frame s s"
  by (simp add: get_frame_def)

lemma get_frame_trans: "get_frame s t \<Longrightarrow> get_frame t u \<Longrightarrow> get_frame s u"
  by (simp add: get_frame_def)

lemma sched_frame_get: "sched_frame s t \<Longrightarrow> get_frame s t"
  by (simp add: get_frame_def sched_frame_fields)

lemma pin_if_hot_frame [simp]: "get_frame s (pin_if_hot layer e t) = get_frame s t"
  by (simp add: get_frame_def pin_if_hot_def)

lemma expert_served_frame [simp]: "get_frame s (expert_served layer e buf t) = get_frame s t"
  by (simp add: get_frame_def expert_served_def pin_if_hot_def Let_def bump_def)

text \<open>A request for an expert the index has.\<close>

definition expert_request :: "sched_env \<Rightarrow> weight_index \<Rightarrow> int \<Rightarrow> int \<Rightarrow> expert_weights \<Rightarrow> bool" where
  "expert_request env w layer e ew \<longleftrightarrow> env_ok env \<and> 0 \<le> layer \<and> layer < numLayers (wi_config w) \<and> 0 \<le> e \<and>
     e < numLocalExperts (wi_config w) \<and> expert_at w layer e = Some ew \<and> locs_ok (se_files env) (expert_locs ew) \<and>
     locs_total (expert_locs ew) = totalBytes ew \<and>
     key_source (se_files env) w (keyOf layer e) = concat (map (loc_bytes (se_files env)) (expert_locs ew))"

lemma expert_request_length:
  "expert_request env w layer e ew \<Longrightarrow> length (key_source (se_files env) w (keyOf layer e)) = unat (totalBytes ew)"
  using unat_locs_total [of "se_files env" "expert_locs ew"] by (simp add: expert_request_def)

lemma sync_expert_ok:
  assumes "sched_ok (se_files env) w s" "expert_request env w layer e ew" "totalBytes ew \<noteq> 0"
    and "unat (totalBytes ew) \<le> length (exScratch s)"
  shows "\<exists>ok s'. sync_expert env layer e (totalBytes ew) s = Some (ok, s') \<and> sched_ok (se_files env) w s' \<and>
    (ok \<longleftrightarrow> \<not> unmapped env (expert_locs ew)) \<and> get_frame s s' \<and>
    (ok \<longrightarrow> serves (key_source (se_files env) w (keyOf layer e)) (exScratch s'))"
proof -
  let ?s = "bump (expertDiskLoads_update (\<lambda>n. n + 1) \<circ> syncLoads_update (\<lambda>n. n + 1) \<circ>
    syncBytes_update (\<lambda>m. m + totalBytes ew)) s" and ?src = "key_source (se_files env) w (keyOf layer e)"
  have s: "sched_ok (se_files env) w ?s" using assms(1) by (simp add: sched_ok_def bump_def)
  note q = assms(2) [unfolded expert_request_def]
  have "\<exists>r. loadExpertFromDisk env layer e ?s = Some r \<and> (r = None \<longleftrightarrow> unmapped env (expert_locs ew)) \<and>
    (\<forall>h. r = Some h \<longrightarrow> handle_ok h \<and> bh_size h = totalBytes ew \<and>
       bh_data h = concat (map (loc_bytes (se_files env)) (expert_locs ew)))"
    using q assms(3) sched_okD(1) [OF s] by (intro loadExpertFromDisk_ok [where w = w]) simp_all
  then obtain r where r: "loadExpertFromDisk env layer e ?s = Some r" "r = None \<longleftrightarrow> unmapped env (expert_locs ew)"
    "\<And>h. r = Some h \<Longrightarrow> handle_ok h \<and> bh_size h = totalBytes ew \<and> bh_data h = ?src"
    using q by metis
  show ?thesis
  proof (cases r)
    case None
    then have "sync_expert env layer e (totalBytes ew) s = Some (False, ?s)" using r(1) by (simp add: sync_expert_def)
    moreover have "get_frame s ?s" by (simp add: get_frame_def bump_def)
    ultimately show ?thesis using s r(2) None by blast
  next
    case (Some h)
    then have h: "handle_ok h" "bh_size h = totalBytes ew" "bh_data h = ?src" using r(3) by auto
    have m: "memcpy (exScratch s) 0 (bh_data h) 0 (unat (bh_size h)) = Some (?src @ drop (length ?src) (exScratch s))"
      using memcpy_whole [of "unat (bh_size h)" "bh_data h" "exScratch s"] h assms(4) expert_request_length [OF assms(2)]
      by simp
    obtain ok c where c: "lru_insert (keyOf layer e) h False (sc_lru ?s) = (ok, c)" by fastforce
    have i: "sched_ok (se_files env) w (?s\<lparr>sc_lru := c\<rparr>)" using sched_ok_insert [OF s h(1,3) c] .
    let ?t = "?s\<lparr>exScratch := ?src @ drop (length ?src) (exScratch s), sc_lru := c\<rparr>"
    have t: "sched_ok (se_files env) w ?t" using i by (simp add: sched_ok_def)
    have f: "get_frame s ?t" by (simp add: get_frame_def bump_def)
    have ex: "exScratch ?s = exScratch s" by (simp add: bump_def)
    have e: "sync_expert env layer e (totalBytes ew) s = Some (True, if ok then pin_if_hot layer e ?t else ?t)"
      using r(1) Some h(2) m c by (simp add: sync_expert_def ex Let_def)
    show ?thesis
      by (intro exI [of _ True] exI [of _ "if ok then pin_if_hot layer e ?t else ?t"] conjI)
        (use e t f r(2) Some pin_if_hot_ok [OF t, of layer e] in \<open>simp_all\<close>)
  qed
qed

lemma wait_begins_ok:
  assumes "wait_begins s = (b, t)"
  shows "sched_ok files w t = sched_ok files w s" "get_frame s t" "exScratch t = exScratch s"
  using assms by (auto simp: wait_begins_def sched_ok_def get_frame_def bump_def Let_def split: if_splits)

lemma wait_ends_ok [simp]:
  "sched_ok files w (wait_ends b s) = sched_ok files w s" "get_frame u (wait_ends b s) = get_frame u s"
  "exScratch (wait_ends b s) = exScratch s"
  by (simp_all add: wait_ends_def sched_ok_def get_frame_def bump_def)

lemma wait_expert_ok:
  assumes "sched_ok (se_files env) w s" "expert_request env w layer e ew" "totalBytes ew \<noteq> 0"
    and "unat (totalBytes ew) \<le> length (exScratch s)"
  shows "\<exists>ok s'. wait_expert env polls layer e (totalBytes ew) s = Some (ok, s') \<and> sched_ok (se_files env) w s' \<and>
    (ok \<or> unmapped env (expert_locs ew)) \<and> get_frame s s' \<and>
    (ok \<longrightarrow> serves (key_source (se_files env) w (keyOf layer e)) (exScratch s'))"
proof -
  let ?src = "key_source (se_files env) w (keyOf layer e)"
  obtain b s1 where b: "wait_begins s = (b, s1)" by fastforce
  note s1 = wait_begins_ok [OF b]
  obtain hit buf s2 where w2: "wait_polls env (keyOf layer e) polls (exScratch s1) s1 = Some (hit, buf, s2)"
    "sched_ok (se_files env) w s2" "sched_frame s1 s2" "length buf = length (exScratch s1)"
    "buf = (if hit then ?src @ drop (length ?src) (exScratch s1) else exScratch s1)"
    using wait_polls_ok [of env w s1 "keyOf layer e" polls "exScratch s1"] s1(1) assms(1) by blast
  have f2: "get_frame s s2" using s1(2) sched_frame_get [OF w2(3)] by (rule get_frame_trans)
  show ?thesis
  proof (cases hit)
    case True
    let ?t = "expert_served layer e buf (wait_ends b s2)"
    have "wait_expert env polls layer e (totalBytes ew) s = Some (True, ?t)"
      using b w2(1) True by (simp add: wait_expert_def)
    moreover have "sched_ok (se_files env) w ?t" "get_frame s ?t" "serves ?src (exScratch ?t)"
      using expert_served_ok [of "se_files env" w "wait_ends b s2" layer e buf] w2(2,5) f2 True by simp_all
    ultimately show ?thesis by blast
  next
    case False
    let ?t = "bump (demandWaitTimeout_update (\<lambda>n. n + 1) \<circ> expertDiskLoads_update (\<lambda>n. n + 1))
      (wait_ends b (s2\<lparr>exScratch := buf\<rparr>))"
    have e: "wait_expert env polls layer e (totalBytes ew) s = sync_expert env layer e (totalBytes ew) ?t"
      using b w2(1) False by (simp add: wait_expert_def)
    have t: "sched_ok (se_files env) w ?t" using w2(2) by (simp add: sched_ok_def bump_def wait_ends_def)
    have f: "get_frame s ?t" using f2 by (simp add: get_frame_def bump_def wait_ends_def)
    have len: "unat (totalBytes ew) \<le> length (exScratch ?t)"
      using w2(4) s1(3) assms(4) by (simp add: bump_def wait_ends_def)
    from sync_expert_ok [OF t assms(2,3) len] show ?thesis unfolding e using get_frame_trans [OF f] by blast
  qed
qed

lemma touch_heat_ok:
  assumes "getAccessCount layer e (sc_placement s) < 2147483647"
  obtains p where "touch_heat layer e s = Some (s\<lparr>sc_placement := p\<rparr>)" "recordAccess layer e (sc_placement s) = Some p"
  using assms by (auto simp: touch_heat_def recordAccess_def getAccessCount_def Let_def split: option.splits)

lemma length_grow_scratch: "unat n \<le> length (grow_scratch n buf)"
  by (simp add: grow_scratch_def vec_resize_def)

lemma getExpertPtr_ok:
  assumes "sched_ok (se_files env) w s" "index_sound (se_files env) w" "expert_request env w layer e ew"
    and "stageable w (layer, e)" "getAccessCount layer e (sc_placement s) < 2147483647"
  shows "\<exists>ok s' p. getExpertPtr env racing polls layer e s = Some (ok, s') \<and> sched_ok (se_files env) w s' \<and>
    (ok \<longrightarrow> serves (key_source (se_files env) w (keyOf layer e)) (exScratch s')) \<and>
    (ok \<or> totalBytes ew = 0 \<or> unmapped env (expert_locs ew)) \<and>
    recordAccess layer e (sc_placement s) = Some p \<and> get_frame (s\<lparr>sc_placement := p\<rparr>) s'"
proof -
  let ?src = "key_source (se_files env) w (keyOf layer e)" and ?n = "totalBytes ew" and ?key = "keyOf layer e"
  note q = assms(3) [unfolded expert_request_def]
  obtain p where p: "touch_heat layer e s = Some (s\<lparr>sc_placement := p\<rparr>)" "recordAccess layer e (sc_placement s) = Some p"
    using touch_heat_ok [OF assms(5)] by blast
  let ?s1 = "s\<lparr>sc_placement := p\<rparr>"
  have s1: "sched_ok (se_files env) w ?s1" using assms(1) by (simp add: sched_ok_def)
  have ix: "sc_index s = Some w" using assms(1) by (simp add: sched_ok_def)
  show ?thesis
  proof (cases "?n = 0")
    case True
    then have "getExpertPtr env racing polls layer e s = Some (False, ?s1)"
      using q ix p by (simp add: getExpertPtr_def)
    then show ?thesis using s1 True p(2) by (intro exI [of _ False] exI [of _ ?s1] exI [of _ p]) simp
  next
    case False
    let ?buf = "grow_scratch ?n (exScratch s)"
    let ?s2 = "inc expertLookups_update (?s1\<lparr>exScratch := ?buf\<rparr>)"
    have s2: "sched_ok (se_files env) w ?s2" "get_frame ?s1 ?s2" "exScratch ?s2 = ?buf"
      using s1 by (simp_all add: sched_ok_def bump_def get_frame_def)
    obtain hit buf c where f: "lru_fetch ?key ?buf (sc_lru ?s2) = Some (hit, buf, c)"
      "sched_ok (se_files env) w (?s2\<lparr>sc_lru := c\<rparr>)" "length buf = length ?buf"
      "buf = (if hit then ?src @ drop (length ?src) ?buf else ?buf)"
      using fetch_ok [OF s2(1), of ?key ?buf] by blast
    let ?s3 = "?s2\<lparr>sc_lru := c\<rparr>"
    have f3: "get_frame ?s1 ?s3" using s2(2) by (simp add: get_frame_def)
    show ?thesis
    proof (cases hit)
      case True
      let ?t = "expert_served layer e buf (inc expertLruHits_update ?s3)"
      have "getExpertPtr env racing polls layer e s = Some (True, ?t)"
        using q ix p(1) f(1) False True s2(3) by (simp add: getExpertPtr_def Let_def)
      moreover have i: "sched_ok (se_files env) w (inc expertLruHits_update ?s3)" "get_frame ?s1 (inc expertLruHits_update ?s3)"
        using f(2) f3 by (simp_all add: sched_ok_def bump_def get_frame_def)
      moreover note expert_served_ok [OF i(1), of layer e buf]
      ultimately show ?thesis using f(4) True p(2)
        by (intro exI [of _ True] exI [of _ ?t] exI [of _ p]) simp
    next
      case miss: False
      let ?s4 = "inc expertLruMisses_update (?s3\<lparr>exScratch := buf\<rparr>)"
      have s4: "sched_ok (se_files env) w ?s4" "get_frame ?s1 ?s4" "exScratch ?s4 = buf"
        using f(2) f3 by (simp_all add: sched_ok_def bump_def get_frame_def)
      obtain s5 where s5: "stage_missing env racing layer e ?s4 = Some s5" "sched_ok (se_files env) w s5" "sched_frame ?s4 s5"
        using stage_missing_ok [OF s4(1) assms(2) _ assms(4)] q by blast
      have g: "getExpertPtr env racing polls layer e s =
          (if sched_probe ?key s5 then wait_expert env polls layer e ?n s5 else sync_expert env layer e ?n s5)"
        using q ix p(1) f(1) False miss s2(3) s5(1) by (simp add: getExpertPtr_def Let_def)
      have len: "unat ?n \<le> length (exScratch s5)"
        using sched_frame_fields(1) [OF s5(3)] s4(3) f(3) length_grow_scratch [of ?n "exScratch s"] by simp
      have f5: "get_frame ?s1 s5" using s4(2) sched_frame_get [OF s5(3)] by (rule get_frame_trans)
      from wait_expert_ok [OF s5(2) assms(3) False len, of polls] sync_expert_ok [OF s5(2) assms(3) False len]
      show ?thesis unfolding g using p(2) get_frame_trans [OF f5] by (metis (full_types))
    qed
  qed
qed

text \<open>The shared projections.\<close>

definition shared_request :: "sched_env \<Rightarrow> weight_index \<Rightarrow> int \<Rightarrow> u16 \<Rightarrow> tensor_location \<Rightarrow> bool" where
  "shared_request env w layer slot loc \<longleftrightarrow> env_ok env \<and> 0 \<le> layer \<and> layer < numLayers (wi_config w) \<and>
     slot \<in> {kSharedGateProjSlot, kSharedUpProjSlot, kSharedDownProjSlot} \<and>
     rd (wi_layers w) (nat layer) \<noteq> None \<and> loc = sharedSlotLoc (the (rd (wi_layers w) (nat layer))) slot \<and>
     loc_ok (se_files env) loc \<and> key_source (se_files env) w (ExpertKey (word_of_int layer) slot) = loc_bytes (se_files env) loc"

lemma shared_slots: "slot \<in> {kSharedGateProjSlot, kSharedUpProjSlot, kSharedDownProjSlot} \<Longrightarrow>
    unat (slot - kSharedGateProjSlot) < 3 \<and> kSharedGateProjSlot \<le> slot"
  by (auto simp: kSharedGateProjSlot_def kSharedUpProjSlot_def kSharedDownProjSlot_def)

lemma shared_lookup:
  assumes "index_sound (se_files env) w" "env_ok env" "stageable w (layer, uint slot)" "0 \<le> layer" "layer < numLayers (wi_config w)"
    and "slot \<in> {kSharedGateProjSlot, kSharedUpProjSlot, kSharedDownProjSlot}"
  obtains loc where "shared_request env w layer slot loc"
proof -
  have ge: "kSharedGateProjSlot \<le> slot" using shared_slots [OF assms(6)] by simp
  have l: "uint (word_of_int layer :: u32) = layer" using assms(1,4,5) by (simp add: index_sound_def uint_word_of_int)
  have "key_locs w layer slot \<noteq> None" using assms(3-5) by (simp add: stageable_def)
  then obtain lw where lw: "rd (wi_layers w) (nat layer) = Some lw" "key_locs w layer slot = Some (Some [sharedSlotLoc lw slot])"
    using ge assms(6) by (auto simp: key_locs_def bind_eq_Some_conv)
  have "locs_ok (se_files env) [sharedSlotLoc lw slot]" using assms(1) lw(2) unfolding index_sound_def by blast
  then show thesis using lw l assms by (intro that [of "sharedSlotLoc lw slot"]) (simp add: shared_request_def key_source_def locs_ok_def)
qed

lemma sync_shared_ok:
  assumes "sched_ok (se_files env) w s" "shared_request env w layer slot loc" "byteSize loc \<noteq> 0"
    and "unat (byteSize loc) \<le> length scratch"
  shows "\<exists>ok scratch' s'. sync_shared env layer slot loc scratch s = Some (ok, scratch', s') \<and> sched_ok (se_files env) w s' \<and>
    (ok \<longleftrightarrow> \<not> unmapped env [loc]) \<and> get_frame s s' \<and> shScratch s' = shScratch s \<and>
    (ok \<longrightarrow> serves (loc_bytes (se_files env) loc) scratch')"
proof -
  let ?s = "bump (syncLoads_update (\<lambda>n. n + 1) \<circ> syncBytes_update (\<lambda>m. m + byteSize loc)) s"
    and ?src = "loc_bytes (se_files env) loc" and ?key = "ExpertKey (word_of_int layer) slot"
  have s: "sched_ok (se_files env) w ?s" "get_frame s ?s" "shScratch ?s = shScratch s"
    using assms(1) by (simp_all add: sched_ok_def get_frame_def bump_def)
  note q = assms(2) [unfolded shared_request_def]
  show ?thesis
  proof (cases "se_view env (shardPath loc)")
    case None
    then have "sync_shared env layer slot loc scratch s = Some (False, scratch, ?s)" by (simp add: sync_shared_def)
    then show ?thesis using s None assms(3)
      by (intro exI [of _ False] exI [of _ scratch] exI [of _ ?s]) (simp add: unmapped_def)
  next
    case (Some v)
    then have "se_files env (shardPath loc) = Some v" using q by (simp add: env_ok_def)
    then have sz: "unat (byteOffset loc) + unat (byteSize loc) \<le> length v"
      and b: "?src = slice v (unat (byteOffset loc)) (unat (byteSize loc))"
      using q assms(3) by (auto simp: loc_ok_def loc_bytes_def file_bytes_def)
    have lb: "length ?src = unat (byteSize loc)" using q length_file_bytes_loc by blast
    have m1: "memcpy scratch 0 v (unat (byteOffset loc)) (unat (byteSize loc)) = Some (?src @ drop (length ?src) scratch)"
      using sz assms(4) lb by (simp add: memcpy_def b slice_def)
    have m2: "memcpy (bh_data (BufferHandle (byteSize loc))) 0 v (unat (byteOffset loc)) (unat (byteSize loc)) = Some ?src"
      using sz lb by (simp add: memcpy_def b slice_def BufferHandle_def)
    let ?h = "\<lparr>bh_data = ?src, bh_size = byteSize loc\<rparr>"
    obtain ok c where c: "lru_insert ?key ?h False (sc_lru ?s) = (ok, c)" by fastforce
    have t: "sched_ok (se_files env) w (?s\<lparr>sc_lru := c\<rparr>)"
      by (rule sched_ok_insert [OF s(1) _ _ c]) (use lb q in \<open>simp_all add: handle_ok_def\<close>)
    have t': "sched_ok (se_files env) w (?s\<lparr>sc_lru := if ok then lru_pin ?key c else c\<rparr>)"
      using t sched_ok_pin [OF t, of ?key] by simp
    have "sync_shared env layer slot loc scratch s = Some (True, ?src @ drop (length ?src) scratch,
        ?s\<lparr>sc_lru := if ok then lru_pin ?key c else c\<rparr>)"
      using Some m1 m2 c by (simp add: sync_shared_def Let_def)
    moreover have "get_frame s (?s\<lparr>sc_lru := if ok then lru_pin ?key c else c\<rparr>)" using s(2) by (simp add: get_frame_def)
    ultimately show ?thesis using t' s(3) Some
      by (intro exI [of _ True] exI [of _ "?src @ drop (length ?src) scratch"]
          exI [of _ "?s\<lparr>sc_lru := if ok then lru_pin ?key c else c\<rparr>"]) (simp add: unmapped_def)
  qed
qed

lemma wait_shared_ok:
  assumes "sched_ok (se_files env) w s" "shared_request env w layer slot loc" "byteSize loc \<noteq> 0"
    and "unat (byteSize loc) \<le> length scratch"
  shows "\<exists>ok scratch' s'. wait_shared env polls layer slot loc scratch s = Some (ok, scratch', s') \<and> sched_ok (se_files env) w s' \<and>
    (ok \<or> unmapped env [loc]) \<and> get_frame s s' \<and> shScratch s' = shScratch s \<and>
    (ok \<longrightarrow> serves (loc_bytes (se_files env) loc) scratch')"
proof -
  let ?src = "loc_bytes (se_files env) loc" and ?key = "ExpertKey (word_of_int layer) slot"
  have k: "key_source (se_files env) w ?key = ?src" using assms(2) by (simp add: shared_request_def)
  obtain hit buf s1 where w1: "wait_polls env ?key polls scratch s = Some (hit, buf, s1)" "sched_ok (se_files env) w s1"
    "sched_frame s s1" "length buf = length scratch" "buf = (if hit then ?src @ drop (length ?src) scratch else scratch)"
    using wait_polls_ok [OF assms(1), of ?key polls scratch] unfolding k by blast
  have f: "get_frame s s1" "shScratch s1 = shScratch s" using sched_frame_get [OF w1(3)] sched_frame_fields(2) [OF w1(3)] by auto
  show ?thesis
  proof (cases hit)
    case True
    then have "wait_shared env polls layer slot loc scratch s = Some (True, buf, s1)" using w1(1) by (simp add: wait_shared_def)
    then show ?thesis using w1(2,5) f True by (intro exI [of _ True] exI [of _ buf] exI [of _ s1]) simp
  next
    case False
    let ?t = "inc demandWaitTimeout_update s1"
    have e: "wait_shared env polls layer slot loc scratch s = sync_shared env layer slot loc buf ?t"
      using w1(1) False by (simp add: wait_shared_def)
    have t: "sched_ok (se_files env) w ?t" "get_frame s ?t" "shScratch ?t = shScratch s"
      using w1(2) f by (simp_all add: sched_ok_def get_frame_def bump_def)
    have "unat (byteSize loc) \<le> length buf" using assms(4) w1(4) by simp
    from sync_shared_ok [OF t(1) assms(2,3) this] show ?thesis unfolding e using get_frame_trans [OF t(2)] t(3) by metis
  qed
qed

lemma getSharedProjectionPtr_ok:
  assumes "sched_ok (se_files env) w s" "index_sound (se_files env) w" "shared_request env w layer slot loc"
    and "stageable w (layer, uint slot)" "getAccessCount layer (uint slot) (sc_placement s) < 2147483647" "length (shScratch s) = 3"
  shows "\<exists>ok s' p. getSharedProjectionPtr env racing polls layer slot s = Some (ok, s') \<and> sched_ok (se_files env) w s' \<and>
    (ok \<longrightarrow> serves (loc_bytes (se_files env) loc) (shScratch s' ! unat (slot - kSharedGateProjSlot))) \<and>
    (ok \<or> byteSize loc = 0 \<or> unmapped env [loc]) \<and>
    (get_frame s s' \<or> recordAccess layer (uint slot) (sc_placement s) = Some p \<and> get_frame (s\<lparr>sc_placement := p\<rparr>) s')"
proof -
  let ?src = "loc_bytes (se_files env) loc" and ?key = "ExpertKey (word_of_int layer) slot"
    and ?i = "unat (slot - kSharedGateProjSlot)"
  note q = assms(3) [unfolded shared_request_def]
  have i: "?i < 3" using q shared_slots by blast
  have ix: "sc_index s = Some w" using assms(1) by (simp add: sched_ok_def)
  have k: "key_source (se_files env) w ?key = ?src" using q by simp
  have ke: "keyOf layer (uint slot) = ?key" by (simp add: keyOf_def)
  obtain lw where lw: "rd (wi_layers w) (nat layer) = Some lw" "sharedSlotLoc lw slot = loc" using q by auto
  have lr: "\<not> layer < 0" "\<not> numLayers (wi_config w) \<le> layer" using q by auto
  show ?thesis
  proof (cases "byteSize loc = 0")
    case True
    then have "getSharedProjectionPtr env racing polls layer slot s = Some (False, s)"
      using lr ix lw by (simp add: getSharedProjectionPtr_def)
    then show ?thesis using assms(1) True by (intro exI [of _ False] exI [of _ s]) simp
  next
    case False
    obtain p where p: "touch_heat layer (uint slot) s = Some (s\<lparr>sc_placement := p\<rparr>)"
      "recordAccess layer (uint slot) (sc_placement s) = Some p" using touch_heat_ok [OF assms(5)] by blast
    let ?s1 = "s\<lparr>sc_placement := p\<rparr>" and ?buf = "grow_scratch (byteSize loc) (shScratch s ! ?i)"
    have s1: "sched_ok (se_files env) w ?s1" using assms(1) by (simp add: sched_ok_def)
    obtain hit buf c where f: "lru_fetch ?key ?buf (sc_lru ?s1) = Some (hit, buf, c)"
      "sched_ok (se_files env) w (?s1\<lparr>sc_lru := c\<rparr>)" "length buf = length ?buf"
      "buf = (if hit then ?src @ drop (length ?src) ?buf else ?buf)"
      using fetch_ok [OF s1, of ?key ?buf] unfolding k by blast
    let ?s2 = "?s1\<lparr>sc_lru := c\<rparr>"
    have f2: "get_frame ?s1 ?s2" "shScratch ?s2 = shScratch s" by (simp_all add: get_frame_def)
    define rest where "rest = (if hit then Some (True, buf, ?s2)
      else Option.bind (stage_missing env racing layer (uint slot) ?s2) (\<lambda>s.
        if sched_probe ?key s then wait_shared env polls layer slot loc buf s else sync_shared env layer slot loc buf s))"
    have g: "getSharedProjectionPtr env racing polls layer slot s =
        map_option (\<lambda>(ok, scratch, s). (ok, s\<lparr>shScratch := (shScratch s)[?i := scratch]\<rparr>)) rest"
      using lr ix lw p(1) f(1) False i assms(6) by (simp add: getSharedProjectionPtr_def Let_def rest_def rd_def)
    have "\<exists>ok scratch s3. rest = Some (ok, scratch, s3) \<and> sched_ok (se_files env) w s3 \<and> (ok \<or> unmapped env [loc]) \<and>
        get_frame ?s1 s3 \<and> shScratch s3 = shScratch s \<and> (ok \<longrightarrow> serves ?src scratch)"
    proof (cases hit)
      case True
      then show ?thesis using f(2,4) f2 by (intro exI [of _ True] exI [of _ buf] exI [of _ ?s2]) (simp add: rest_def)
    next
      case miss: False
      obtain s3 where s3: "stage_missing env racing layer (uint slot) ?s2 = Some s3" "sched_ok (se_files env) w s3" "sched_frame ?s2 s3"
        using stage_missing_ok [OF f(2) assms(2) _ assms(4)] q by blast
      have f3: "get_frame ?s1 s3" "shScratch s3 = shScratch s"
        using get_frame_trans [OF f2(1) sched_frame_get [OF s3(3)]] sched_frame_fields(2) [OF s3(3)] f2(2) by auto
      have len: "unat (byteSize loc) \<le> length buf" using f(3) length_grow_scratch [of "byteSize loc" "shScratch s ! ?i"] by simp
      have r: "rest = (if sched_probe ?key s3 then wait_shared env polls layer slot loc buf s3
          else sync_shared env layer slot loc buf s3)" using miss s3(1) by (simp add: rest_def)
      show ?thesis
      proof (cases "sched_probe ?key s3")
        case True
        from wait_shared_ok [OF s3(2) assms(3) False len, of polls] show ?thesis
          unfolding r if_P [OF True] using get_frame_trans [OF f3(1)] f3(2) by metis
      next
        case np: False
        from sync_shared_ok [OF s3(2) assms(3) False len] show ?thesis
          unfolding r if_not_P [OF np] using get_frame_trans [OF f3(1)] f3(2) by metis
      qed
    qed
    then obtain ok scratch s3 where r: "rest = Some (ok, scratch, s3)" "sched_ok (se_files env) w s3" "ok \<or> unmapped env [loc]"
      "get_frame ?s1 s3" "shScratch s3 = shScratch s" "ok \<longrightarrow> serves ?src scratch" by blast
    let ?t = "s3\<lparr>shScratch := (shScratch s3)[?i := scratch]\<rparr>"
    have "sched_ok (se_files env) w ?t" "get_frame ?s1 ?t" using r(2,4) by (simp_all add: sched_ok_def get_frame_def)
    moreover have "ok \<longrightarrow> serves ?src (shScratch ?t ! ?i)" using i r(5,6) assms(6) by simp
    moreover have "getSharedProjectionPtr env racing polls layer slot s = Some (ok, ?t)" unfolding g r(1) by simp
    ultimately show ?thesis using r(3) p(2) by blast
  qed
qed

end
