(* ===== verification/SchedHistory.thy ===== *)
theory SchedHistory
  imports ExpertStaging
begin

text \<open>
  Histories of the scheduler: any sequence of router reports, look-ahead requests, getters and
  worker actions, in any interleaving, keeps the staging invariant; the properties of the scheduler
  are read off the states such histories reach.
\<close>

subsection \<open>The overlap average stays in the unit interval\<close>

lemma f32_unit_round:
  assumes "0 \<le> num" "0 < den" "num \<le> 2 ^ 149 * den"
  shows "f32_unit (f32_round False num den)"
proof -
  have one: "f32_int f32_one = 2 ^ 149" by (simp add: f32_int_def f32_neg_bit_def f32_mag_def f32_one_def mag_int_def)
  have "f32_int (f32_round False num den) \<le> 2 ^ 149"
    using f32_round_le [of f32_one num den] assms by (simp add: one)
  moreover have "\<not> f32_neg_bit (f32_round False num den)"
    using f32_rne_range [of num den] inf_mag_bounds by (simp add: f32_round_def f32_simps)
  moreover have "\<not> f32_is_nan (f32_round False num den)"
    using f32_round_pos(2) [of num den] by (simp add: f32_nonneg_def)
  ultimately show ?thesis by (simp add: f32_unit_def)
qed

lemma f32_half_facts: "f32_unit f32_half" "f32_int f32_half = 2 ^ 148"
  by (simp_all add: f32_unit_def f32_is_nan_def f32_int_def f32_neg_bit_def f32_mag_def f32_half_def mag_int_def inf_mag_def)

lemma f32_half_mul:
  assumes "f32_unit x"
  shows "f32_unit (f32_mul f32_half x)" "f32_int (f32_mul f32_half x) \<le> 2 ^ 148"
proof -
  note x = f32_unit_facts [OF assms] and h = f32_unit_facts [OF f32_half_facts(1)]
  have m: "f32_mul f32_half x = f32_round False (2 ^ 148 * f32_int x) (2 ^ 149)"
    using f32_mul_round [of f32_half x] x h by (simp add: f32_half_facts(2))
  show "f32_int (f32_mul f32_half x) \<le> 2 ^ 148"
    using f32_round_le [OF h(1), of "2 ^ 148 * f32_int x" "2 ^ 149"] x by (simp add: m f32_half_facts(2))
  show "f32_unit (f32_mul f32_half x)" unfolding m using x by (intro f32_unit_round) simp_all
qed

lemma f32_add_unit:
  assumes "f32_unit x" "f32_unit y" "f32_int x + f32_int y \<le> 2 ^ 149"
  shows "f32_unit (f32_add x y)"
proof -
  note x = f32_unit_facts [OF assms(1)] and y = f32_unit_facts [OF assms(2)]
  have fin: "\<not> f32_is_inf x" "\<not> f32_is_inf y" "\<not> f32_is_nan x" "\<not> f32_is_nan y"
    using x(1,2) y(1,2) by (auto simp: f32_isfinite_def f32_is_inf_def f32_nonneg_def)
  show ?thesis
  proof (cases "f32_int x + f32_int y = 0")
    case True
    then have "f32_add x y = f32_mk False 0" using fin x(3) y(3) by (simp add: f32_add_def)
    then show ?thesis by (simp add: f32_unit_def f32_nan_mk inf_mag_def f32_int_def f32_simps)
  next
    case False
    then have "f32_add x y = f32_round False (f32_int x + f32_int y) 1"
      using fin x(4) y(4) by (simp add: f32_add_def Let_def)
    then show ?thesis using f32_unit_round [of "f32_int x + f32_int y" 1] x(4) y(4) assms(3) by simp
  qed
qed

lemma one_minus_half: "f32_sub f32_one f32_half = f32_half"
  by code_simp

lemma overlap_roll_unit:
  assumes "f32_unit ema" "prev \<noteq> []" "length prev \<le> 16777216" "length topK \<le> 16777216"
  shows "f32_unit (overlap_roll prev topK ema)"
proof -
  let ?n = "length (filter (\<lambda>e. e \<in> set prev) topK)" and ?m = "max (length prev) (length topK)"
  have le: "?n \<le> ?m" by (rule max.coboundedI2) (rule length_filter_le)
  have m: "0 < ?m" "int ?m \<le> 16777216" using assms(2-4) by (cases prev; simp)+
  note a = f32_of_int_exact [of "int ?n"] and b = f32_of_int_exact [of "int ?m"]
  have "f32_div (f32_of_int (int ?n)) (f32_of_int (int ?m)) =
      f32_round False (int ?n * 2 ^ 149 * 2 ^ 149) (int ?m * 2 ^ 149)"
    using f32_div_round [of "f32_of_int (int ?n)" "f32_of_int (int ?m)"] a b le m by simp
  moreover have "f32_unit (f32_round False (int ?n * 2 ^ 149 * 2 ^ 149) (int ?m * 2 ^ 149))"
    using le m(1) by (intro f32_unit_round) simp_all
  ultimately have c: "f32_unit (f32_div (f32_of_int (int ?n)) (f32_of_int (int ?m)))" by simp
  show ?thesis
    unfolding overlap_roll_def Let_def kSpecOverlapAlpha_def one_minus_half
    using f32_half_mul [OF c] f32_half_mul [OF assms(1)] by (intro f32_add_unit) simp_all
qed

subsection \<open>Histories\<close>

datatype sched_op =
    RouterDone "nat list" int "int list" "f32 list"
  | LookAhead int int
  | WorkerSteps "nat list"
  | GetExpert "nat list" "nat list list" int int
  | GetShared "nat list" "nat list list" int u16
  | LoadExpert int int bytes
  | SetRouterPrefetch int bool
  | SetPredictor f32 bool

fun sched_exec :: "sched_env \<Rightarrow> sched_op \<Rightarrow> scheduler \<Rightarrow> scheduler option" where
  "sched_exec env (RouterDone racing layer topK probs) s = onLayerRouterDone env racing layer topK probs s"
| "sched_exec env (LookAhead layer e) s = prefetchExpert env layer e s"
| "sched_exec env (WorkerSteps ns) s = run_workers env ns s"
| "sched_exec env (GetExpert racing polls layer e) s = map_option snd (getExpertPtr env racing polls layer e s)"
| "sched_exec env (GetShared racing polls layer slot) s = map_option snd (getSharedProjectionPtr env racing polls layer slot s)"
| "sched_exec env (LoadExpert layer e dest) s =
     map_option (snd \<circ> snd) (loadExpert env layer e dest (of_nat (length dest)) s)"
| "sched_exec env (SetRouterPrefetch depth prob) s = Some (setRouterPrefetch depth prob s)"
| "sched_exec env (SetPredictor alpha enable) s = Some (setPopularityPredictor alpha enable s)"

text \<open>A layer whose experts and shared projections the index knows; layers outside the model are passed over.\<close>

definition layer_ready :: "weight_index \<Rightarrow> int \<Rightarrow> bool" where
  "layer_ready w layer \<longleftrightarrow> 0 \<le> layer \<and> layer < numLayers (wi_config w) \<longrightarrow> (\<forall>eid. key_locs w layer eid \<noteq> None)"

fun sched_op_ok :: "weight_index \<Rightarrow> sched_op \<Rightarrow> bool" where
  "sched_op_ok w (RouterDone racing layer topK probs) \<longleftrightarrow> layer < 2147483647 \<and> layer_ready w layer \<and>
     layer_ready w (layer + 1) \<and> length topK \<le> 16777216"
| "sched_op_ok w (LookAhead layer e) \<longleftrightarrow> layer_ready w layer"
| "sched_op_ok w (WorkerSteps ns) \<longleftrightarrow> True"
| "sched_op_ok w (GetExpert racing polls layer e) \<longleftrightarrow> layer_ready w layer"
| "sched_op_ok w (GetShared racing polls layer slot) \<longleftrightarrow> layer_ready w layer \<and>
     slot \<in> {kSharedGateProjSlot, kSharedUpProjSlot, kSharedDownProjSlot}"
| "sched_op_ok w (LoadExpert layer e dest) \<longleftrightarrow> layer_ready w layer \<and> 0 \<le> layer \<and> layer < 2 ^ 32 \<and> 0 \<le> e \<and> e < 2 ^ 16 \<and>
     length dest < 2 ^ 64"
| "sched_op_ok w (SetRouterPrefetch depth prob) \<longleftrightarrow> True"
| "sched_op_ok w (SetPredictor alpha enable) \<longleftrightarrow> True"

definition hist_ok :: "sched_env \<Rightarrow> weight_index \<Rightarrow> nat \<Rightarrow> scheduler \<Rightarrow> bool" where
  "hist_ok env w k s \<longleftrightarrow> sched_ok (se_files env) w s \<and> length (shScratch s) = 3 \<and>
     list_all f32_unit (overlapEma s) \<and> list_all (\<lambda>l. length l \<le> 16777216) (lastTopK s) \<and>
     (\<forall>key n. accessCounts (sc_placement s) key = Some n \<longrightarrow> n \<le> int k)"

lemma hist_ok_count: "hist_ok env w k s \<Longrightarrow> getAccessCount layer e (sc_placement s) \<le> int k"
  by (auto simp: hist_ok_def getAccessCount_def split: option.splits)

lemma recordAccess_counts:
  assumes "recordAccess layer e p = Some p'" "\<forall>key n. accessCounts p key = Some n \<longrightarrow> n \<le> int k"
  shows "\<forall>key n. accessCounts p' key = Some n \<longrightarrow> n \<le> int (Suc k)"
  using assms by (fastforce simp: recordAccess_def Let_def split: if_splits option.splits)

lemma hist_ok_Suc: "hist_ok env w k s \<Longrightarrow> hist_ok env w (Suc k) s"
  unfolding hist_ok_def by fastforce

text \<open>The getters touch no more of this than the count of their own expert.\<close>

lemma hist_ok_get:
  assumes "hist_ok env w k s" "sched_ok (se_files env) w t" "lastTopK t = lastTopK s" "overlapEma t = overlapEma s"
    "length (shScratch t) = length (shScratch s)"
    "sc_placement t = sc_placement s \<or> recordAccess layer e (sc_placement s) = Some (sc_placement t)"
  shows "hist_ok env w (Suc k) t"
proof -
  have "\<forall>key n. accessCounts (sc_placement t) key = Some n \<longrightarrow> n \<le> int (Suc k)"
    using assms(6)
  proof
    assume "sc_placement t = sc_placement s"
    then show ?thesis using hist_ok_Suc [OF assms(1)] by (simp add: hist_ok_def)
  next
    assume "recordAccess layer e (sc_placement s) = Some (sc_placement t)"
    then show ?thesis using assms(1) recordAccess_counts unfolding hist_ok_def by blast
  qed
  then show ?thesis using assms by (simp add: hist_ok_def)
qed

subsection \<open>The router's report\<close>

lemma noteRoutingUse_ok:
  "hist_ok env w k (noteRoutingUse layer e s) = hist_ok env w k s"
  by (simp add: noteRoutingUse_def Let_def hist_ok_def sched_ok_def bump_def split: option.split)

lemma note_probs_ok: "hist_ok env w k (note_probs layer eids probs pairs s) = hist_ok env w k s"
proof (induction layer eids probs pairs s rule: note_probs.induct)
  case (1 layer probs pairs s)
  then show ?case by (simp add: hist_ok_def sched_ok_def)
next
  case (2 layer eid eids probs pairs s)
  show ?case using "2.IH" [OF refl refl] by (simp add: Let_def noteRoutingUse_ok) (simp add: hist_ok_def sched_ok_def)
qed

lemma note_topk_ok:
  assumes "hist_ok env w k s" "length topK \<le> 16777216"
  shows "hist_ok env w k (note_topk layer topK s)"
proof (cases "in_layers layer (lastTopK s)")
  case True
  let ?prev = "lastTopK s ! nat layer"
  have "nat layer < length (lastTopK s)" using True by (auto simp: in_layers_def)
  then have p: "length ?prev \<le> 16777216" using assms(1) by (simp add: hist_ok_def list_all_length)
  have "list_all f32_unit ((overlapEma s)[nat layer := overlap_roll ?prev topK (overlapEma s ! nat layer)])"
    if "in_layers layer (overlapEma s)" "?prev \<noteq> []"
  proof -
    have "nat layer < length (overlapEma s)" using that(1) by (auto simp: in_layers_def)
    then have "f32_unit (overlapEma s ! nat layer)" using assms(1) by (simp add: hist_ok_def list_all_length)
    then have "f32_unit (overlap_roll ?prev topK (overlapEma s ! nat layer))"
      using that(2) p assms(2) by (rule overlap_roll_unit)
    then show ?thesis using assms(1) set_update_subset_insert [of "overlapEma s"]
      by (fastforce simp: hist_ok_def list_all_iff)
  qed
  moreover have "list_all (\<lambda>l. length l \<le> 16777216) ((lastTopK s)[nat layer := topK])"
    using assms set_update_subset_insert [of "lastTopK s"] by (fastforce simp: hist_ok_def list_all_iff)
  ultimately show ?thesis using assms(1) True by (simp add: note_topk_def Let_def hist_ok_def sched_ok_def)
qed (use assms(1) in \<open>simp add: note_topk_def\<close>)

lemma hist_ok_sched: "hist_ok env w k s \<Longrightarrow> sched_ok (se_files env) w s"
  by (simp add: hist_ok_def)

lemma hist_ok_frame: "hist_ok env w k s \<Longrightarrow> sched_ok (se_files env) w t \<Longrightarrow> sched_frame s t \<Longrightarrow> hist_ok env w k t"
  using sched_frame_fields [of s t] by (simp add: hist_ok_def)

lemma ema_roll_ok:
  assumes "hist_ok env w k s"
  shows "hist_ok env w k (ema_roll w layer topK s)"
proof -
  have "hist_ok env w k (s\<lparr>emaHeat := h\<rparr>)" for h using assms by (simp add: hist_ok_def sched_ok_def)
  moreover have "hist_ok env w k (t\<lparr>sc_lru := lru_boost b 1 (sc_lru t)\<rparr>)" if "hist_ok env w k t" for t b
    using that sched_ok_boost [OF hist_ok_sched [OF that]] by (simp add: hist_ok_def)
  ultimately show ?thesis using assms
    by (simp add: ema_roll_def Let_def split: prod.split) fastforce
qed

lemma router_books_ok:
  assumes "hist_ok env w k s" "length topK \<le> 16777216"
  shows "hist_ok env w k (router_books w layer topK probs s)"
proof -
  have "hist_ok env w k (s\<lparr>routingStep := routingStep s + 1\<rparr>)" using assms(1) by (simp add: hist_ok_def sched_ok_def)
  from note_topk_ok [OF this assms(2)] show ?thesis by (simp add: router_books_def ema_roll_ok note_probs_ok)
qed

lemma fold_pins:
  assumes "lru_inv c" "lru.agrees src c"
  shows "lru_inv (fold (\<lambda>(eid, p) c. if P eid p then lru_pin (key eid) c else c) xs c) \<and>
    lru.agrees src (fold (\<lambda>(eid, p) c. if P eid p then lru_pin (key eid) c else c) xs c)"
  using assms
proof (induction xs arbitrary: c)
  case (Cons x xs)
  obtain eid p where x: "x = (eid, p)" by (cases x)
  show ?case using Cons.IH [of "lru_pin (key eid) c"] Cons.IH [of c] Cons.prems
      lru.hint_agrees [of src "HintPin (key eid)" c] by (simp add: x lru_pin_inv)
qed simp

lemma prob_pins_ok:
  assumes "hist_ok env w k s"
  shows "hist_ok env w k (prob_pins layer s)"
proof -
  note i = sched_okD [OF hist_ok_sched [OF assms]]
  have "sched_ok (se_files env) w (prob_pins layer s)"
  proof (cases "probPriority s \<and> in_layers layer (layerMaxProb s) \<and> f32_lt f32_zero (layerMaxProb s ! nat layer)")
    case True
    show ?thesis unfolding prob_pins_def if_P [OF True]
      by (rule sched_ok_lru [OF hist_ok_sched [OF assms]]) (rule conjunct1 [OF fold_pins [OF i(2,3)]], rule conjunct2 [OF fold_pins [OF i(2,3)]])
  next
    case False
    show ?thesis unfolding prob_pins_def if_not_P [OF False] by (rule hist_ok_sched [OF assms])
  qed
  then show ?thesis using assms by (simp add: hist_ok_def prob_pins_def)
qed

lemma note_predicted_ok: "hist_ok env w k s \<Longrightarrow> hist_ok env w k (note_predicted w layer predicted s)"
  by (simp add: note_predicted_def hist_ok_def sched_ok_def bump_def)

lemma staged_scope_ok: "layer_ready w layer \<Longrightarrow> le \<in> set (staged_scope w layer eids) \<Longrightarrow> stageable w le"
  by (auto simp: staged_scope_def stageable_def layer_ready_def)

lemma onLayerRouterDone_ok:
  assumes "hist_ok env w k s" "index_sound (se_files env) w" "env_ok env" "sched_op_ok w (RouterDone racing layer topK probs)"
  shows "\<exists>s'. onLayerRouterDone env racing layer topK probs s = Some s' \<and> hist_ok env w k s'"
proof -
  let ?s1 = "router_books w layer topK probs s"
  have s1: "hist_ok env w k ?s1" using router_books_ok [OF assms(1)] assms(4) by simp
  have ix: "sc_index s = Some w" using sched_okD(1) [OF hist_ok_sched [OF assms(1)]] .
  show ?thesis
  proof (cases "layer + 1 < 0 \<or> numLayers (wi_config w) \<le> layer + 1")
    case True
    then show ?thesis using assms(4) ix s1 by (simp add: onLayerRouterDone_def Let_def)
  next
    case False
    define pred where "pred = (if spec_gate (layer + 1) ?s1 then predictNextLayerExperts env (layer + 1) topK ?s1 else [])"
    define s2 where "s2 = note_predicted w (layer + 1) pred ?s1"
    define pred' where "pred' = extra_prefetch env layer pred s2"
    define s3 where "s3 = prob_pins layer s2"
    have s3: "hist_ok env w k s3" unfolding s3_def s2_def by (intro prob_pins_ok note_predicted_ok s1)
    have e: "onLayerRouterDone env racing layer topK probs s =
        Option.bind (if 0 \<le> layer then prefetchAsync env (staged_scope w layer topK) True s3 else Some s3) (\<lambda>s.
        Option.bind (run_workers env racing s) (\<lambda>s. prefetchAsync env (staged_scope w (layer + 1) pred') False s))"
      using False ix assms(4) by (simp add: onLayerRouterDone_def Let_def pred_def s2_def pred'_def s3_def)
    have "\<exists>s4. (if 0 \<le> layer then prefetchAsync env (staged_scope w layer topK) True s3 else Some s3) = Some s4 \<and> hist_ok env w k s4"
      using prefetchAsync_ok [OF hist_ok_sched [OF s3] assms(2,3), of "staged_scope w layer topK" True]
        staged_scope_ok [of w layer] assms(4) s3 hist_ok_frame [OF s3] by (metis sched_op_ok.simps(1))
    then obtain s4 where s4: "(if 0 \<le> layer then prefetchAsync env (staged_scope w layer topK) True s3 else Some s3) = Some s4"
      "hist_ok env w k s4" by blast
    obtain s5 where s5: "run_workers env racing s4 = Some s5" "sched_ok (se_files env) w s5" "sched_frame s4 s5"
      using run_workers_ok [OF hist_ok_sched [OF s4(2)]] by blast
    note h5 = hist_ok_frame [OF s4(2) s5(2,3)]
    obtain s6 where "prefetchAsync env (staged_scope w (layer + 1) pred') False s5 = Some s6" "hist_ok env w k s6"
      using prefetchAsync_ok [OF s5(2) assms(2,3), of "staged_scope w (layer + 1) pred'" False]
        staged_scope_ok [of w "layer + 1"] assms(4) hist_ok_frame [OF h5] by (metis sched_op_ok.simps(1))
    then show ?thesis using e s4(1) s5(1) by simp
  qed
qed

subsection \<open>Every operation\<close>

lemma prefetchExpert_ok:
  assumes "hist_ok env w k s" "index_sound (se_files env) w" "env_ok env" "layer_ready w layer"
  shows "\<exists>s'. prefetchExpert env layer e s = Some s' \<and> hist_ok env w k s'"
proof -
  have ix: "sc_index s = Some w" using sched_okD(1) [OF hist_ok_sched [OF assms(1)]] .
  let ?t = "inc loopPrefetchIssued_update s"
  have t: "hist_ok env w k ?t" using assms(1) by (simp add: hist_ok_def sched_ok_def bump_def)
  have "\<forall>le \<in> set [(layer, e)]. stageable w le" using assms(4) by (simp add: stageable_def layer_ready_def)
  from prefetchAsync_ok [OF hist_ok_sched [OF t] assms(2,3) this] hist_ok_frame [OF t]
  obtain s' where "prefetchAsync env [(layer, e)] True ?t = Some s'" "hist_ok env w k s'" by blast
  then show ?thesis using ix assms(1) by (simp add: prefetchExpert_def Let_def)
qed

lemma loadExpertFromDisk_any:
  assumes "sched_ok (se_files env) w s" "index_sound (se_files env) w" "env_ok env" "layer_ready w layer"
  shows "\<exists>r. loadExpertFromDisk env layer e s = Some r \<and>
    (\<forall>h. r = Some h \<longrightarrow> handle_ok h \<and> bh_data h = key_source (se_files env) w (keyOf layer e))"
proof -
  have ix: "sc_index s = Some w" using sched_okD(1) [OF assms(1)] .
  show ?thesis
  proof (cases "layer < 0 \<or> numLayers (wi_config w) \<le> layer \<or> e < 0 \<or> numLocalExperts (wi_config w) \<le> e")
    case True
    then show ?thesis using ix by (auto simp: loadExpertFromDisk_def)
  next
    case False
    then have r: "0 \<le> layer" "layer < numLayers (wi_config w)" "0 \<le> e" "e < numLocalExperts (wi_config w)" by auto
    have st: "stageable w (layer, e)" using assms(4) by (simp add: stageable_def layer_ready_def)
    obtain ew where ew: "expert_at w layer e = Some ew"
      "key_source (se_files env) w (keyOf layer e) = concat (map (loc_bytes (se_files env)) (expert_locs ew))"
      "locs_ok (se_files env) (expert_locs ew)" "locs_total (expert_locs ew) = totalBytes ew"
      using expert_lookup [OF assms(2) st r] by blast
    show ?thesis
    proof (cases "totalBytes ew = 0")
      case True
      then show ?thesis using ix r ew(1) by (simp add: loadExpertFromDisk_def)
    next
      case False
      from loadExpertFromDisk_ok [OF ix assms(3) r ew(1,3,4) False] show ?thesis unfolding ew(2) by blast
    qed
  qed
qed

lemma acquire_ok:
  assumes "sched_ok files w s" "lru_acquire k (sc_lru s) = (r, c)"
  shows "sched_ok files w (s\<lparr>sc_lru := c\<rparr>)" "\<And>h. r = Some h \<Longrightarrow> handle_ok h"
proof -
  note i = sched_okD [OF assms(1)]
  have "lru_look x c = lru_look x (sc_lru s)" for x
  proof (cases "lru_map (sc_lru s) k")
    case None
    then show ?thesis using assms(2) by (auto simp: lru_acquire_def lru_look_def)
  next
    case (Some e)
    then show ?thesis using assms(2) by (auto simp: lru_acquire_def lru_touch_look)
  qed
  then have "lru.agrees (key_source files w) c" using agrees_look [OF i(3)] by blast
  moreover have "lru_inv c" using lru_acquire_inv [OF i(2), of k] assms(2) by simp
  ultimately show "sched_ok files w (s\<lparr>sc_lru := c\<rparr>)" using sched_ok_lru [OF assms(1)] by blast
  show "handle_ok h" if "r = Some h" for h
    using assms(2) that lru_invD(4) [OF i(2)] by (auto simp: lru_acquire_def split: option.splits)
qed

lemma memcpy_fits: "n \<le> length dest \<Longrightarrow> n \<le> length src \<Longrightarrow> \<exists>d. memcpy dest 0 src 0 n = Some d"
  by (simp add: memcpy_def)

lemma loadExpert_ok:
  assumes "hist_ok env w k s" "index_sound (se_files env) w" "env_ok env" "sched_op_ok w (LoadExpert layer e dest)" "k < 2147483647"
  shows "\<exists>b d s'. loadExpert env layer e dest (of_nat (length dest)) s = Some (b, d, s') \<and> hist_ok env w (Suc k) s'"
proof -
  let ?n = "of_nat (length dest) :: u64" and ?key = "keyOf layer e"
  have n: "unat ?n = length dest" using assms(4) by (simp add: unat_of_nat take_bit_nat_eq_self)
  obtain r c where rc: "lru_acquire ?key (sc_lru s) = (r, c)" by fastforce
  note a = acquire_ok [OF hist_ok_sched [OF assms(1)] rc]
  let ?s1 = "s\<lparr>sc_lru := c\<rparr>"
  have s1: "hist_ok env w k ?s1" using assms(1) a(1) by (simp add: hist_ok_def)
  obtain p where p: "touch_heat layer e ?s1 = Some (?s1\<lparr>sc_placement := p\<rparr>)"
    "recordAccess layer e (sc_placement ?s1) = Some p"
  proof -
    have "getAccessCount layer e (sc_placement ?s1) < 2147483647"
      using hist_ok_count [OF s1, of layer e] assms(5) by linarith
    from touch_heat_ok [OF this] that show thesis by blast
  qed
  let ?s2 = "?s1\<lparr>sc_placement := p\<rparr>"
  have ok2: "sched_ok (se_files env) w ?s2" using a(1) by (simp add: sched_ok_def)
  have s2: "hist_ok env w (Suc k) ?s2" by (rule hist_ok_get [OF s1 ok2, of layer e]) (use p(2) in simp_all)
  have s1': "hist_ok env w (Suc k) ?s1" using s1 by (rule hist_ok_Suc)
  show ?thesis
  proof (cases r)
    case (Some h)
    have h: "length (bh_data h) = unat (bh_size h)" using a(2) [OF Some] by (simp add: handle_ok_def)
    show ?thesis
    proof (cases "bh_size h \<le> ?n")
      case True
      then obtain d where "memcpy dest 0 (bh_data h) 0 (unat (bh_size h)) = Some d"
        using memcpy_fits [of "unat (bh_size h)" dest "bh_data h"] h n by (auto simp: word_le_nat_alt)
      then show ?thesis using rc Some True p(1) s2 by (auto simp: loadExpert_def Let_def)
    next
      case False
      then show ?thesis using rc Some s1' by (auto simp: loadExpert_def Let_def)
    qed
  next
    case None
    have lr: "layer_ready w layer" using assms(4) by simp
    obtain l where l: "loadExpertFromDisk env layer e ?s2 = Some l"
      "\<And>h. l = Some h \<Longrightarrow> handle_ok h \<and> bh_data h = key_source (se_files env) w ?key"
      using loadExpertFromDisk_any [OF ok2 assms(2,3) lr, of e] by blast
    show ?thesis
    proof (cases l)
      case None
      then show ?thesis using rc \<open>r = None\<close> p(1) l(1) s2 by (auto simp: loadExpert_def Let_def)
    next
      case (Some h)
      have h: "length (bh_data h) = unat (bh_size h)" using conjunct1 [OF l(2) [OF Some]] by (simp add: handle_ok_def)
      show ?thesis
      proof (cases "?n < bh_size h")
        case True
        then show ?thesis using rc None p(1) l(1) Some s2 by (auto simp: loadExpert_def Let_def)
      next
        case False
        then obtain d where d: "memcpy dest 0 (bh_data h) 0 (unat (bh_size h)) = Some d"
          using memcpy_fits [of "unat (bh_size h)" dest "bh_data h"] h n by (auto simp: word_le_nat_alt not_less)
        obtain ok c' where c': "lru_insert ?key h False (sc_lru ?s2) = (ok, c')" by fastforce
        let ?s3 = "?s2\<lparr>sc_lru := c'\<rparr>"
        have ok3: "sched_ok (se_files env) w ?s3" using sched_ok_insert [OF ok2 _ _ c'] l(2) [OF Some] by blast
        then have "hist_ok env w (Suc k) ?s3" using s2 by (simp add: hist_ok_def)
        moreover have "hist_ok env w (Suc k) (pin_if_hot layer e ?s3)"
          using calculation pin_if_hot_ok [OF ok3, of layer e] by (simp add: hist_ok_def pin_if_hot_def)
        moreover have "loadExpert env layer e dest ?n s = Some (True, d, if ok then pin_if_hot layer e ?s3 else ?s3)"
          using rc None p(1) l(1) Some False d c' by (simp add: loadExpert_def Let_def)
        ultimately show ?thesis by (cases ok) auto
      qed
    qed
  qed
qed

lemma hist_ok_getframe:
  assumes "hist_ok env w k s" "sched_ok (se_files env) w t" "get_frame u t"
    "u = s \<or> (\<exists>p. u = s\<lparr>sc_placement := p\<rparr> \<and> recordAccess layer e (sc_placement s) = Some p)"
  shows "hist_ok env w (Suc k) t"
  using assms(3,4) by (intro hist_ok_get [OF assms(1,2)]) (auto simp: get_frame_def)

text \<open>An expert the index has a place for; files that can all be mapped.\<close>

definition in_model :: "weight_index \<Rightarrow> int \<Rightarrow> int \<Rightarrow> bool" where
  "in_model w layer e \<longleftrightarrow> 0 \<le> layer \<and> layer < numLayers (wi_config w) \<and> 0 \<le> e \<and> e < numLocalExperts (wi_config w)"

definition all_mapped :: "sched_env \<Rightarrow> bool" where
  "all_mapped env \<longleftrightarrow> (\<forall>p. se_files env p \<noteq> None \<longrightarrow> se_view env p \<noteq> None)"

lemma mapped_locs: "all_mapped env \<Longrightarrow> locs_ok (se_files env) locs \<Longrightarrow> \<not> unmapped env locs"
  by (fastforce simp: all_mapped_def locs_ok_def unmapped_def list_ex_iff list_all_iff loc_ok_def)

lemma getExpertPtr_hist:
  assumes "hist_ok env w k s" "index_sound (se_files env) w" "env_ok env" "layer_ready w layer" "k < 2147483647"
  shows "\<exists>ok s'. getExpertPtr env racing polls layer e s = Some (ok, s') \<and> hist_ok env w (Suc k) s' \<and>
    (ok \<longrightarrow> serves (key_source (se_files env) w (keyOf layer e)) (exScratch s')) \<and>
    (in_model w layer e \<and> all_mapped env \<and> key_source (se_files env) w (keyOf layer e) \<noteq> [] \<longrightarrow> ok)"
proof -
  have ix: "sc_index s = Some w" using sched_okD(1) [OF hist_ok_sched [OF assms(1)]] .
  show ?thesis
  proof (cases "layer < 0 \<or> numLayers (wi_config w) \<le> layer \<or> e < 0 \<or> numLocalExperts (wi_config w) \<le> e")
    case True
    then show ?thesis using ix hist_ok_Suc [OF assms(1)] by (auto simp: getExpertPtr_def in_model_def)
  next
    case False
    then have r: "0 \<le> layer" "layer < numLayers (wi_config w)" "0 \<le> e" "e < numLocalExperts (wi_config w)" by auto
    have st: "stageable w (layer, e)" using assms(4) by (simp add: stageable_def layer_ready_def)
    obtain ew where ew: "expert_request env w layer e ew"
      using expert_lookup [OF assms(2) st r] r assms(3) unfolding expert_request_def by metis
    have "getAccessCount layer e (sc_placement s) < 2147483647"
      using hist_ok_count [OF assms(1), of layer e] assms(5) by linarith
    from getExpertPtr_ok [OF hist_ok_sched [OF assms(1)] assms(2) ew st this] obtain ok s' p where
      g: "getExpertPtr env racing polls layer e s = Some (ok, s')" "sched_ok (se_files env) w s'"
      "ok \<longrightarrow> serves (key_source (se_files env) w (keyOf layer e)) (exScratch s')"
      "recordAccess layer e (sc_placement s) = Some p" "get_frame (s\<lparr>sc_placement := p\<rparr>) s'"
      "ok \<or> totalBytes ew = 0 \<or> unmapped env (expert_locs ew)" by blast
    have "ok" if "all_mapped env" "key_source (se_files env) w (keyOf layer e) \<noteq> []"
    proof -
      have "totalBytes ew \<noteq> 0" using expert_request_length [OF ew] that(2) by auto
      moreover have "locs_ok (se_files env) (expert_locs ew)" using ew by (simp add: expert_request_def)
      ultimately show ok using g(6) mapped_locs [OF that(1)] by blast
    qed
    moreover have "hist_ok env w (Suc k) s'"
      by (rule hist_ok_getframe [OF assms(1) g(2,5), of layer e]) (use g(4) in blast)
    ultimately show ?thesis using g(1,3) by blast
  qed
qed

lemma getShared_hist:
  assumes "hist_ok env w k s" "index_sound (se_files env) w" "env_ok env" "layer_ready w layer" "k < 2147483647"
    "slot \<in> {kSharedGateProjSlot, kSharedUpProjSlot, kSharedDownProjSlot}"
  shows "\<exists>ok s'. getSharedProjectionPtr env racing polls layer slot s = Some (ok, s') \<and> hist_ok env w (Suc k) s' \<and>
    (ok \<longrightarrow> serves (key_source (se_files env) w (keyOf layer (uint slot))) (shScratch s' ! unat (slot - kSharedGateProjSlot)))"
proof -
  have ix: "sc_index s = Some w" using sched_okD(1) [OF hist_ok_sched [OF assms(1)]] .
  show ?thesis
  proof (cases "layer < 0 \<or> numLayers (wi_config w) \<le> layer")
    case True
    then show ?thesis using ix hist_ok_Suc [OF assms(1)] by (auto simp: getSharedProjectionPtr_def)
  next
    case False
    have st: "stageable w (layer, uint slot)" using assms(4) by (simp add: stageable_def layer_ready_def)
    obtain loc where loc: "shared_request env w layer slot loc"
      using shared_lookup [OF assms(2,3) st _ _ assms(6)] False by (metis not_le not_less)
    have "getAccessCount layer (uint slot) (sc_placement s) < 2147483647"
      using hist_ok_count [OF assms(1), of layer "uint slot"] assms(5) by linarith
    moreover have "length (shScratch s) = 3" using assms(1) by (simp add: hist_ok_def)
    ultimately obtain ok s' p where g: "getSharedProjectionPtr env racing polls layer slot s = Some (ok, s')"
      "sched_ok (se_files env) w s'"
      "ok \<longrightarrow> serves (loc_bytes (se_files env) loc) (shScratch s' ! unat (slot - kSharedGateProjSlot))"
      "get_frame s s' \<or> recordAccess layer (uint slot) (sc_placement s) = Some p \<and> get_frame (s\<lparr>sc_placement := p\<rparr>) s'"
      using getSharedProjectionPtr_ok [OF hist_ok_sched [OF assms(1)] assms(2) loc st] by metis
    have "hist_ok env w (Suc k) s'" using g(4)
    proof
      assume "get_frame s s'"
      then show ?thesis by (rule hist_ok_getframe [OF assms(1) g(2)]) simp
    next
      assume "recordAccess layer (uint slot) (sc_placement s) = Some p \<and> get_frame (s\<lparr>sc_placement := p\<rparr>) s'"
      then show ?thesis using hist_ok_getframe [OF assms(1) g(2), of "s\<lparr>sc_placement := p\<rparr>" layer "uint slot"] by blast
    qed
    moreover have "key_source (se_files env) w (keyOf layer (uint slot)) = loc_bytes (se_files env) loc"
      using loc by (simp add: shared_request_def keyOf_def)
    ultimately show ?thesis using g(1,3) by auto
  qed
qed

lemma sched_exec_ok:
  assumes "hist_ok env w k s" "index_sound (se_files env) w" "env_ok env" "sched_op_ok w op" "k < 2147483647"
  shows "\<exists>s'. sched_exec env op s = Some s' \<and> hist_ok env w (Suc k) s'"
proof (cases op)
  case (RouterDone racing layer topK probs)
  then show ?thesis using onLayerRouterDone_ok [OF assms(1-3), of racing layer topK probs] assms(4)
    by (auto intro: hist_ok_Suc)
next
  case (LookAhead layer e)
  then show ?thesis using prefetchExpert_ok [OF assms(1-3), of layer e] assms(4) by (auto intro: hist_ok_Suc)
next
  case (WorkerSteps ns)
  then show ?thesis using run_workers_ok [OF hist_ok_sched [OF assms(1)], of ns] hist_ok_frame [OF assms(1)]
    by (auto intro: hist_ok_Suc)
next
  case (GetExpert racing polls layer e)
  then show ?thesis using getExpertPtr_hist [OF assms(1-3), of layer racing polls e] assms(4,5) by auto
next
  case (GetShared racing polls layer slot)
  then show ?thesis using getShared_hist [OF assms(1-3), of layer slot racing polls] assms(4,5) by auto
next
  case (LoadExpert layer e dest)
  then show ?thesis using loadExpert_ok [OF assms(1-3), of layer e dest] assms(4,5) by auto
next
  case (SetRouterPrefetch depth prob)
  have "hist_ok env w k (setRouterPrefetch depth prob s)" using assms(1) by (simp add: setRouterPrefetch_def hist_ok_def sched_ok_def)
  then show ?thesis using SetRouterPrefetch by (simp add: hist_ok_Suc)
next
  case (SetPredictor alpha enable)
  have "hist_ok env w k (setPopularityPredictor alpha enable s)" using assms(1) by (simp add: setPopularityPredictor_def hist_ok_def sched_ok_def)
  then show ?thesis using SetPredictor by (simp add: hist_ok_Suc)
qed

lemma sched_run_ok:
  "hist_ok env w k s \<Longrightarrow> index_sound (se_files env) w \<Longrightarrow> env_ok env \<Longrightarrow> list_all (sched_op_ok w) ops \<Longrightarrow>
   k + length ops \<le> 2147483647 \<Longrightarrow> \<exists>s'. run_steps (sched_exec env) ops s = Some s' \<and> hist_ok env w (k + length ops) s'"
proof (induction ops arbitrary: k s)
  case (Cons op ops)
  obtain s1 where "sched_exec env op s = Some s1" "hist_ok env w (Suc k) s1"
    using sched_exec_ok [OF Cons.prems(1-3), of op] Cons.prems(4,5) by auto
  with Cons.IH [OF this(2) Cons.prems(2,3)] Cons.prems(4,5) show ?case by simp
qed simp

subsection \<open>Initialisation\<close>

lemma sched_init_ok:
  assumes "sched_init w cap ram vram Scheduler = Some s" "unat cap < 2 ^ 63"
  shows "hist_ok env w 0 s"
proof -
  have s: "sc_index s = Some w" "sc_lru s = lru_resize cap (sc_lru Scheduler)" "sc_tasks s = []" "sc_assemblies s = []"
    "shScratch s = [[], [], []]" "\<exists>n. overlapEma s = replicate n f32_zero" "\<exists>n. lastTopK s = replicate n []"
    "accessCounts (sc_placement s) = Map.empty"
    using assms(1) by (auto simp: sched_init_def Scheduler_def Let_def vec_resize_def setRamBudget_def setVramBudget_def
        PlacementDirector_def split: if_splits)
  have "lru_inv (sc_lru s)" using lru_resize_inv [OF assms(2)] s(2) by simp
  moreover have "lru.agrees src (sc_lru s)" for src by (simp add: s(2) lru.agrees_def lru_look_def lru_resize_def)
  moreover have "f32_unit f32_zero"
    by (simp add: f32_unit_def f32_is_nan_def f32_int_def f32_neg_bit_def f32_mag_def f32_zero_def mag_int_def inf_mag_def)
  ultimately show ?thesis using s by (auto simp: hist_ok_def sched_ok_def list_all_iff)
qed

text \<open>The hypotheses of the properties: a fresh scheduler on a sound index, and a history of less than \<open>2 ^ 31\<close> operations.\<close>

definition sched_setup :: "sched_env \<Rightarrow> weight_index \<Rightarrow> u64 \<Rightarrow> scheduler \<Rightarrow> sched_op list \<Rightarrow> bool" where
  "sched_setup env w cap s0 ops \<longleftrightarrow> sched_init w cap 0 0 Scheduler = Some s0 \<and> unat cap < 2 ^ 63 \<and>
     index_sound (se_files env) w \<and> env_ok env \<and> list_all (sched_op_ok w) ops \<and> length ops < 2147483647"

lemma sched_setup_run:
  assumes "sched_setup env w cap s0 ops"
  obtains s where "run_steps (sched_exec env) ops s0 = Some s" "hist_ok env w (length ops) s"
  using assms sched_init_ok [of w cap 0 0 s0 env] sched_run_ok [of env w 0 s0 ops] unfolding sched_setup_def by auto

subsection \<open>Properties\<close>


text \<open>
  C1. After any such history a getter returns, under any interleaving with the reads in flight and
  any number of polls before its deadline; when it returns a pointer, the scratch behind it starts
  with the expert's gate, up and down projections as they are in the files; and it does return one
  for an expert with weights when the shards can be mapped.
\<close>

theorem expert_bytes_exact:
  assumes "sched_setup env w cap s0 ops" "layer_ready w layer"
  shows "\<exists>s ok s'. run_steps (sched_exec env) ops s0 = Some s \<and> getExpertPtr env racing polls layer e s = Some (ok, s') \<and>
    (ok \<longrightarrow> take (length (key_source (se_files env) w (keyOf layer e))) (exScratch s') = key_source (se_files env) w (keyOf layer e)) \<and>
    (in_model w layer e \<and> all_mapped env \<and> key_source (se_files env) w (keyOf layer e) \<noteq> [] \<longrightarrow> ok)"
proof -
  obtain s where s: "run_steps (sched_exec env) ops s0 = Some s" "hist_ok env w (length ops) s"
    using sched_setup_run [OF assms(1)] by blast
  have h: "index_sound (se_files env) w" "env_ok env" "length ops < 2147483647"
    using assms(1) by (simp_all add: sched_setup_def)
  from getExpertPtr_hist [OF s(2) h(1,2) assms(2) h(3), of racing polls e] s(1) show ?thesis
    unfolding serves_def by blast
qed

text \<open>
  The same for the shared projections: each of the three slots is served into its own scratch
  with the bytes of its tensor.
\<close>

theorem shared_bytes_exact:
  assumes "sched_setup env w cap s0 ops" "layer_ready w layer"
    and "slot \<in> {kSharedGateProjSlot, kSharedUpProjSlot, kSharedDownProjSlot}"
  shows "\<exists>s ok s'. run_steps (sched_exec env) ops s0 = Some s \<and> getSharedProjectionPtr env racing polls layer slot s = Some (ok, s') \<and>
    (ok \<longrightarrow> serves (key_source (se_files env) w (keyOf layer (uint slot))) (shScratch s' ! unat (slot - kSharedGateProjSlot)))"
proof -
  obtain s where s: "run_steps (sched_exec env) ops s0 = Some s" "hist_ok env w (length ops) s"
    using sched_setup_run [OF assms(1)] by blast
  have h: "index_sound (se_files env) w" "env_ok env" "length ops < 2147483647"
    using assms(1) by (simp_all add: sched_setup_def)
  from getShared_hist [OF s(2) h(1,2) assms(2) h(3) assms(3), of racing polls] s(1) show ?thesis by blast
qed

text \<open>
  The overlap average the speculation gate compares with its floor is a number between 0 and 1
  for every layer, whatever the routers reported.
\<close>

theorem overlap_ema_bounded:
  assumes "sched_setup env w cap s0 ops"
  shows "\<exists>s. run_steps (sched_exec env) ops s0 = Some s \<and> list_all (\<lambda>x. f32_le f32_zero x \<and> f32_le x f32_one) (overlapEma s)"
proof -
  obtain s where s: "run_steps (sched_exec env) ops s0 = Some s" "hist_ok env w (length ops) s"
    using sched_setup_run [OF assms] by blast
  have k: "f32_int f32_one = 2 ^ 149" "\<not> f32_is_nan f32_one" "f32_int f32_zero = 0" "\<not> f32_is_nan f32_zero"
    by (simp_all add: f32_int_def f32_neg_bit_def f32_mag_def f32_one_def f32_zero_def mag_int_def f32_is_nan_def inf_mag_def)
  have "f32_le f32_zero x \<and> f32_le x f32_one" if "f32_unit x" for x
    using f32_unit_facts [OF that] that k by (simp add: f32_le_def f32_unit_def)
  then have "list_all (\<lambda>x. f32_le f32_zero x \<and> f32_le x f32_one) (overlapEma s)"
    using s(2) by (auto simp: hist_ok_def list_all_iff)
  with s(1) show ?thesis by blast
qed

lemma hot_fill_full: "hot_fill n n cs [] = []"
  by (cases cs) auto

text \<open>
  The popularity predictor never adds a guess: the loop that fills up with hot experts starts
  with as many guesses as it allows, so switching the predictor on changes no prediction.
\<close>

theorem popularity_adds_nothing:
  "predictNextLayerExperts env nextLayer topK s = predictNextLayerExperts env nextLayer topK (s\<lparr>emaPredictor := False\<rparr>)"
  by (simp add: predictNextLayerExperts_def Let_def hot_fill_full)

subsection \<open>Witnesses\<close>

definition sd_loc :: "u64 \<Rightarrow> u64 \<Rightarrow> tensor_location" where
  "sd_loc off n = TensorLocation\<lparr>shardPath := ''s'', byteOffset := off, byteSize := n\<rparr>"

definition sd_index :: weight_index where
  "sd_index = WeightIndex\<lparr>wi_config := (wi_config WeightIndex)\<lparr>numLayers := 1, numLocalExperts := 1\<rparr>,
     wi_layers := [LayerWeights\<lparr>sharedGateProj := sd_loc 4 2\<rparr>],
     routedExperts := [[ExpertWeights\<lparr>gateProj := sd_loc 0 1, upProj := sd_loc 1 1, downProj := sd_loc 2 2\<rparr>]]\<rparr>"

definition sd_files :: files where
  "sd_files = [''s'' \<mapsto> [10, 11, 12, 13, 14, 15]]"

definition sd_env :: sched_env where
  "sd_env = \<lparr>se_files = sd_files, se_view = sd_files, se_sort = stable_psort, se_order = sorted_list_of_set,
     se_korder = (\<lambda>_. []), se_fsort = (\<lambda>_ _ xs. xs)\<rparr>"

definition sd_s0 :: scheduler where
  "sd_s0 = the (sched_init sd_index 100 0 0 Scheduler)"

definition sd_ops :: "sched_op list" where
  "sd_ops = [RouterDone [] 0 [0] [f32_one], WorkerSteps [0, 0, 0, 0], SetPredictor f32_half True]"

lemma sd_known: "key_locs sd_index 0 eid \<noteq> None"
proof (cases "kSharedGateProjSlot \<le> eid")
  case True
  then show ?thesis by (simp add: key_locs_def sd_index_def rd_def)
next
  case False
  have "unat eid = 0" if "\<not> 1 \<le> uint eid" using that uint_nat [of eid] by linarith
  then show ?thesis using False by (simp add: key_locs_def sd_index_def rd_def)
qed

lemma sd_ready: "layer_ready sd_index 0" "layer_ready sd_index 1"
  using sd_known by (simp_all add: layer_ready_def sd_index_def)

lemma sd_key_locs:
  "key_locs sd_index layer eid = Some (Some locs) \<Longrightarrow> layer \<le> 0 \<and>
     (locs = [sharedSlotLoc (LayerWeights\<lparr>sharedGateProj := sd_loc 4 2\<rparr>) eid] \<or> locs = [sd_loc 0 1, sd_loc 1 1, sd_loc 2 2])"
  by (auto simp: key_locs_def sd_index_def rd_def bind_eq_Some_conv split: if_splits)

lemma sd_sound: "index_sound sd_files sd_index"
proof -
  have l: "loc_ok sd_files (sd_loc 0 1)" "loc_ok sd_files (sd_loc 1 1)" "loc_ok sd_files (sd_loc 2 2)" "loc_ok sd_files (sd_loc 4 2)"
    "loc_ok sd_files TensorLocation"
    by (simp_all add: loc_ok_def sd_loc_def sd_files_def TensorLocation_def)
  have s: "byteSize (sharedSlotLoc (LayerWeights\<lparr>sharedGateProj := sd_loc 4 2\<rparr>) eid) \<in> {0, 2}" for eid
    by (simp add: sharedSlotLoc_def sd_loc_def LayerWeights_def TensorLocation_def)
  have "locs_ok sd_files locs" if "key_locs sd_index layer eid = Some (Some locs)" for layer eid locs
    using sd_key_locs [OF that] l s [of eid]
    by (auto simp: locs_ok_def sharedSlotLoc_def LayerWeights_def sd_loc_def TensorLocation_def)
  then show ?thesis by (simp add: index_sound_def sd_index_def)
qed

lemma sd_env_ok: "env_ok sd_env" "se_files sd_env = sd_files"
  by (simp_all add: env_ok_def sd_env_def stable.partial_sorter_axioms)

lemma sd_setup: "sched_setup sd_env sd_index 100 sd_s0 sd_ops"
proof -
  have "sched_init sd_index 100 0 0 Scheduler = Some sd_s0"
    by (simp add: sd_s0_def sched_init_def sd_index_def Let_def)
  then show ?thesis using sd_sound sd_env_ok sd_ready by (simp add: sched_setup_def sd_ops_def)
qed

lemma sd_source: "key_source sd_files sd_index (keyOf 0 0) = [10, 11, 12, 13]"
  "key_source sd_files sd_index (keyOf 0 (uint kSharedGateProjSlot)) = [14, 15]"
  by (simp_all add: key_source_def keyOf_def key_locs_def sd_index_def rd_def kSharedGateProjSlot_def kSharedUpProjSlot_def
      kSharedDownProjSlot_def loc_bytes_def sd_loc_def file_bytes_def sd_files_def slice_def sharedSlotLoc_def)


lemma expert_bytes_exact_witness:
  "\<exists>s s'. run_steps (sched_exec sd_env) sd_ops sd_s0 = Some s \<and>
     getExpertPtr sd_env [0, 0] [[0, 0], []] 0 0 s = Some (True, s') \<and> take 4 (exScratch s') = [10, 11, 12, 13]"
proof -
  have "in_model sd_index 0 0" "all_mapped sd_env"
    by (simp_all add: in_model_def sd_index_def all_mapped_def sd_env_def)
  then show ?thesis
    using expert_bytes_exact [OF sd_setup sd_ready(1), of "[0, 0]" "[[0, 0], []]" 0] by (auto simp: sd_env_ok(2) sd_source eval_nat_numeral)
qed

lemma shared_bytes_exact_witness:
  "\<exists>s ok s'. run_steps (sched_exec sd_env) sd_ops sd_s0 = Some s \<and>
     getSharedProjectionPtr sd_env [] [[0]] 0 kSharedGateProjSlot s = Some (ok, s')"
  using shared_bytes_exact [OF sd_setup sd_ready(1), of kSharedGateProjSlot "[]" "[[0]]"] by auto

lemma overlap_ema_bounded_witness:
  "\<exists>s. run_steps (sched_exec sd_env) sd_ops sd_s0 = Some s \<and> list_all (\<lambda>x. f32_le f32_zero x \<and> f32_le x f32_one) (overlapEma s)"
  by (rule overlap_ema_bounded [OF sd_setup])

subsection \<open>A failed read\<close>

text \<open>
  The callback of a read that failed returns at once: the keys of its slices stay marked in flight
  although nothing is left that could deliver them, and \<open>probe\<close> keeps answering for them.
\<close>

lemma failed_read_leaks:
  assumes "sc_tasks s = xs @ TQueued run # ys" "length xs = n"
    and "\<not> cp_success (worker_read (se_files env) \<lparr>rq_id = 0, rq_filePath = sr_shard run, rq_offset = sr_start run,
      rq_size = sr_end run - sr_start run\<rparr>)"
  shows "\<exists>s'. sched_step env n s = Some s' \<and> sc_tasks s' = xs @ ys \<and> prefetchedInFlight s' = prefetchedInFlight s \<and>
    sc_assemblies s' = sc_assemblies s"
  using assms by (auto simp: sched_step_def rd_def drop_task_def Let_def bump_def)

end
