(* ===== verification/Utf8.thy ===== *)
theory Utf8
  imports Prelude "HOL-Library.Word"
begin

unbundle bit_operations_syntax

text \<open>
  The byte level of \<open>tokenizer/native_tokenizer.cpp\<close>: the GPT-2 byte map, the UTF-8 writer, the
  two readers and the repair of a decoded byte string. Code points are natural numbers below
  \<open>2 ^ 21\<close>, far inside the \<open>uint32_t\<close> of the source; a byte is an 8-bit word.
\<close>

subsection \<open>The byte map\<close>

definition bm_unset :: nat where "bm_unset = 0xFFFFFFFF"

definition bm_ranges :: "(nat \<times> nat) list" where
  "bm_ranges = [(0x21, 0x7E), (0xA1, 0xAC), (0xAE, 0xFF)]"

definition bm_identity :: "nat list" where
  "bm_identity = fold (\<lambda>(a, b) t. fold (\<lambda>i t. t[i := i]) [a..<Suc b] t) bm_ranges (replicate 256 bm_unset)"

fun bm_fill :: "nat \<Rightarrow> nat list \<Rightarrow> nat list" where
  "bm_fill n [] = []"
| "bm_fill n (x # xs) = (if x = bm_unset then (256 + n) # bm_fill (Suc n) xs else x # bm_fill n xs)"

definition byteToCp :: "nat list" where
  "byteToCp = bm_fill 0 bm_identity"

subsection \<open>Writing and reading UTF-8\<close>

definition byte_of :: "nat \<Rightarrow> u8" where "byte_of n = word_of_nat n"

definition utf8Append :: "nat \<Rightarrow> bytes" where
  "utf8Append cp =
     (if cp < 0x80 then [byte_of cp]
      else if cp < 0x800 then [byte_of (0xC0 OR drop_bit 6 cp), byte_of (0x80 OR (cp AND 0x3F))]
      else if cp < 0x10000 then
        [byte_of (0xE0 OR drop_bit 12 cp), byte_of (0x80 OR (drop_bit 6 cp AND 0x3F)), byte_of (0x80 OR (cp AND 0x3F))]
      else
        [byte_of (0xF0 OR drop_bit 18 cp), byte_of (0x80 OR (drop_bit 12 cp AND 0x3F)),
         byte_of (0x80 OR (drop_bit 6 cp AND 0x3F)), byte_of (0x80 OR (cp AND 0x3F))])"

definition cont :: "u8 \<Rightarrow> nat" where "cont b = unat b AND 63"

text \<open>The code point at the front of a byte string, and its length; truncated and stray bytes stand for themselves.\<close>

definition cp_front :: "u8 \<Rightarrow> bytes \<Rightarrow> nat \<times> nat" where
  "cp_front b0 rest =
     (if 0xF0 \<le> unat b0 \<and> 3 \<le> length rest then
        (push_bit 18 (unat b0 AND 7) OR push_bit 12 (cont (rest ! 0)) OR push_bit 6 (cont (rest ! 1)) OR cont (rest ! 2), 4)
      else if 0xE0 \<le> unat b0 \<and> 2 \<le> length rest then
        (push_bit 12 (unat b0 AND 15) OR push_bit 6 (cont (rest ! 0)) OR cont (rest ! 1), 3)
      else if 0xC0 \<le> unat b0 \<and> 1 \<le> length rest then
        (push_bit 6 (unat b0 AND 31) OR cont (rest ! 0), 2)
      else (unat b0, 1))"

lemma cp_front_len: "1 \<le> snd (cp_front b rest)" "snd (cp_front b rest) \<le> Suc (length rest)"
  by (auto simp: cp_front_def)

lemma cp_front_step: "(v, n) = cp_front b rest \<Longrightarrow> 0 < n"
  using cp_front_len(1) [of b rest] by (metis less_eq_Suc_le One_nat_def snd_conv)

type_synonym cp = "nat \<times> nat"

function decode_cps :: "nat \<Rightarrow> bytes \<Rightarrow> cp list" where
  "decode_cps off [] = []"
| "decode_cps off (b # rest) =
     (case cp_front b rest of (v, n) \<Rightarrow> (v, off) # decode_cps (off + n) (drop n (b # rest)))"
  by pat_completeness auto
termination
  by (relation "measure (\<lambda>(off, s). length s)") (auto dest!: cp_front_step)

definition decodeCps :: "bytes \<Rightarrow> cp list" where
  "decodeCps s = decode_cps 0 s"

text \<open>
  The repair at the end of \<open>decode\<close>: a well-formed sequence is copied, any other byte becomes U+FFFD.
\<close>

definition is_cont :: "u8 \<Rightarrow> bool" where "is_cont b \<longleftrightarrow> unat b AND 0xC0 = 0x80"

definition repair_front :: "u8 \<Rightarrow> bytes \<Rightarrow> bytes \<times> nat" where
  "repair_front b rest =
     (let bad = (utf8Append 0xFFFD, 1) in
      if unat b < 0x80 then ([b], 1)
      else if unat b AND 0xE0 = 0xC0 \<and> 1 \<le> length rest then
        if is_cont (rest ! 0) then
          let cp = push_bit 6 (unat b AND 0x1F) OR cont (rest ! 0) in
          if 0x80 \<le> cp then (utf8Append cp, 2) else bad
        else bad
      else if unat b AND 0xF0 = 0xE0 \<and> 2 \<le> length rest then
        if is_cont (rest ! 0) \<and> is_cont (rest ! 1) then
          let cp = push_bit 12 (unat b AND 0x0F) OR push_bit 6 (cont (rest ! 0)) OR cont (rest ! 1) in
          if 0x800 \<le> cp \<and> \<not> (0xD800 \<le> cp \<and> cp \<le> 0xDFFF) then (utf8Append cp, 3) else bad
        else bad
      else if unat b AND 0xF8 = 0xF0 \<and> 3 \<le> length rest then
        if is_cont (rest ! 0) \<and> is_cont (rest ! 1) \<and> is_cont (rest ! 2) then
          let cp = push_bit 18 (unat b AND 0x07) OR push_bit 12 (cont (rest ! 0)) OR push_bit 6 (cont (rest ! 1)) OR
                cont (rest ! 2) in
          if 0x10000 \<le> cp \<and> cp \<le> 0x10FFFF then (utf8Append cp, 4) else bad
        else bad
      else bad)"

lemma repair_front_len: "1 \<le> snd (repair_front b rest)"
  by (auto simp: repair_front_def Let_def)

lemma repair_front_step: "(out, n) = repair_front b rest \<Longrightarrow> 0 < n"
  using repair_front_len [of b rest] by (metis less_eq_Suc_le One_nat_def snd_conv)

function utf8_repair :: "bytes \<Rightarrow> bytes" where
  "utf8_repair [] = []"
| "utf8_repair (b # rest) =
     (case repair_front b rest of (out, n) \<Rightarrow> out @ utf8_repair (drop n (b # rest)))"
  by pat_completeness auto
termination
  by (relation "measure length") (auto dest!: repair_front_step)

subsection \<open>Arithmetic of the fields\<close>

lemma or_fields:
  assumes "b < 2 ^ n"
  shows "push_bit n a OR b = a * 2 ^ n + (b :: nat)"
proof -
  have "take_bit n b = b" using assms by (simp add: take_bit_nat_eq_self)
  then have "\<not> bit (push_bit n a) m \<or> \<not> bit b m" for m
    by (metis bit_push_bit_iff bit_take_bit_iff leD)
  then show ?thesis by (simp add: disjunctive_add [symmetric] push_bit_eq_mult)
qed

lemma and_low: "(x :: nat) AND mask n = x mod 2 ^ n"
  by (simp add: take_bit_eq_mask [symmetric] take_bit_eq_mod)

lemma and_high: "(x :: nat) AND push_bit k m = push_bit k (drop_bit k x AND m)"
  by (rule bit_eqI) (auto simp: bit_simps)

lemma low_masks:
  "(x :: nat) AND 0x3F = x mod 64" "x AND 0x1F = x mod 32" "x AND 0x0F = x mod 16" "x AND 0x07 = x mod 8"
  using and_low [of x 6] and_low [of x 5] and_low [of x 4] and_low [of x 3] by (simp_all add: mask_eq_exp_minus_1)

lemma marks:
  "x < 64 \<Longrightarrow> 0xC0 OR x = 192 + x" "x < 64 \<Longrightarrow> 0x80 OR x = 128 + x" "x < 32 \<Longrightarrow> 0xE0 OR x = 224 + x"
  "x < 16 \<Longrightarrow> 0xF0 OR x = 240 + x" for x :: nat
  using or_fields [of x 6 3] or_fields [of x 6 2] or_fields [of x 5 7] or_fields [of x 4 15]
  by (simp_all add: push_bit_eq_mult)

lemma leads:
  assumes "(x :: nat) < 256"
  shows "x AND 0xE0 = 0xC0 \<longleftrightarrow> x div 32 = 6" "x AND 0xF0 = 0xE0 \<longleftrightarrow> x div 16 = 14"
    "x AND 0xF8 = 0xF0 \<longleftrightarrow> x div 8 = 30" "x AND 0xC0 = 0x80 \<longleftrightarrow> x div 64 = 2"
proof -
  have "x div 32 < 8" "x div 16 < 16" "x div 8 < 32" "x div 64 < 4" using assms by auto
  then have h: "x AND 0xE0 = x div 32 * 32" "x AND 0xF0 = x div 16 * 16" "x AND 0xF8 = x div 8 * 8" "x AND 0xC0 = x div 64 * 64"
    using and_high [of x 5 7] and_high [of x 4 15] and_high [of x 3 31] and_high [of x 6 3] assms
      and_low [of "x div 32" 3] and_low [of "x div 16" 4] and_low [of "x div 8" 5] and_low [of "x div 64" 2]
    by (simp_all add: drop_bit_eq_div push_bit_eq_mult mask_eq_exp_minus_1)
  show "x AND 0xE0 = 0xC0 \<longleftrightarrow> x div 32 = 6" "x AND 0xF0 = 0xE0 \<longleftrightarrow> x div 16 = 14"
    "x AND 0xF8 = 0xF0 \<longleftrightarrow> x div 8 = 30" "x AND 0xC0 = 0x80 \<longleftrightarrow> x div 64 = 2"
    unfolding h by auto
qed

subsection \<open>Well-formed text\<close>

definition scalar :: "nat \<Rightarrow> bool" where
  "scalar cp \<longleftrightarrow> cp < 0xD800 \<or> 0xE000 \<le> cp \<and> cp \<le> 0x10FFFF"

definition valid_utf8 :: "bytes \<Rightarrow> bool" where
  "valid_utf8 s \<longleftrightarrow> (\<exists>cps. list_all scalar cps \<and> s = concat (map utf8Append cps))"

lemma unat_byte_of: "n < 256 \<Longrightarrow> unat (byte_of n) = n"
  by (simp add: byte_of_def unat_of_nat take_bit_nat_eq_self)

lemma mark_mods:
  "m < 64 \<Longrightarrow> (128 + m) mod 64 = m" "m < 32 \<Longrightarrow> (192 + m) mod 32 = m" "m < 16 \<Longrightarrow> (224 + m) mod 16 = m"
  "m < 8 \<Longrightarrow> (240 + m) mod 8 = m" for m :: nat
  using mod_mult_self3 [of 2 64 m] mod_mult_self3 [of 6 32 m] mod_mult_self3 [of 14 16 m] mod_mult_self3 [of 30 8 m]
  by simp_all

lemma cont_byte: "m < 64 \<Longrightarrow> cont (byte_of (128 + m)) = m" "m < 64 \<Longrightarrow> is_cont (byte_of (128 + m))"
  using low_masks(1) [of "128 + m"] leads(4) [of "128 + m"] by (simp_all add: cont_def is_cont_def unat_byte_of mark_mods)

text \<open>The four shapes of a written code point.\<close>

lemma utf8_shapes:
  assumes "cp \<le> 0x10FFFF"
  obtains (one) "cp < 0x80" "utf8Append cp = [byte_of cp]"
  | (two) a b where "a < 32" "b < 64" "cp = a * 64 + b" "0x80 \<le> cp" "utf8Append cp = [byte_of (192 + a), byte_of (128 + b)]"
  | (three) a b c where "a < 16" "b < 64" "c < 64" "cp = a * 4096 + (b * 64 + c)" "0x800 \<le> cp"
      "utf8Append cp = [byte_of (224 + a), byte_of (128 + b), byte_of (128 + c)]"
  | (four) a b c d where "a < 5" "b < 64" "c < 64" "d < 64" "cp = a * 262144 + (b * 4096 + (c * 64 + d))" "0x10000 \<le> cp"
      "utf8Append cp = [byte_of (240 + a), byte_of (128 + b), byte_of (128 + c), byte_of (128 + d)]"
proof -
  have m: "cp mod 64 < 64" "cp div 64 mod 64 < 64" "cp div 4096 mod 64 < 64" by simp_all
  have d: "cp div 64 div 64 = cp div 4096" "cp div 4096 div 64 = cp div 262144" by (simp_all add: div_mult2_eq [symmetric])
  have r1: "cp = cp div 64 * 64 + cp mod 64" by simp
  have r2: "cp div 64 = cp div 4096 * 64 + cp div 64 mod 64" using d(1) by (metis div_mult_mod_eq)
  have r3: "cp div 4096 = cp div 262144 * 64 + cp div 4096 mod 64" using d(2) by (metis div_mult_mod_eq)
  have e3: "cp = cp div 4096 * 4096 + (cp div 64 mod 64 * 64 + cp mod 64)" using r1 r2 by linarith
  have e4: "cp = cp div 262144 * 262144 + (cp div 4096 mod 64 * 4096 + (cp div 64 mod 64 * 64 + cp mod 64))"
    using r1 r2 r3 by linarith
  consider "cp < 0x80" | "0x80 \<le> cp" "cp < 0x800" | "0x800 \<le> cp" "cp < 0x10000" | "0x10000 \<le> cp" by linarith
  then show thesis
  proof cases
    case 1
    then show thesis by (intro one) (simp_all add: utf8Append_def)
  next
    case 2
    then have a: "cp div 64 < 32" by auto
    show thesis
      by (rule two [of "cp div 64" "cp mod 64"])
        (use 2 a m in \<open>simp_all add: utf8Append_def drop_bit_eq_div low_masks marks\<close>)
  next
    case 3
    then have a: "cp div 4096 < 16" by auto
    show thesis
      by (rule three [of "cp div 4096" "cp div 64 mod 64" "cp mod 64"])
        (use 3 a m e3 in \<open>simp_all add: utf8Append_def drop_bit_eq_div low_masks marks\<close>)
  next
    case 4
    then have a: "cp div 262144 < 5" using assms by auto
    show thesis
      by (rule four [of "cp div 262144" "cp div 4096 mod 64" "cp div 64 mod 64" "cp mod 64"])
        (use 4 a m e4 in \<open>simp_all add: utf8Append_def drop_bit_eq_div low_masks marks\<close>)
  qed
qed

lemma field_values:
  "a < 32 \<Longrightarrow> unat (byte_of (192 + a)) AND 0x1F = a" "a < 16 \<Longrightarrow> unat (byte_of (224 + a)) AND 0x0F = a"
  "a < 8 \<Longrightarrow> unat (byte_of (240 + a)) AND 0x07 = a"
  using low_masks(2) [of "192 + a"] low_masks(3) [of "224 + a"] low_masks(4) [of "240 + a"]
  by (simp_all add: unat_byte_of mark_mods)

lemma joined_fields:
  "n < 64 \<Longrightarrow> push_bit 6 a OR n = a * 64 + n" "n < 4096 \<Longrightarrow> push_bit 12 a OR n = a * 4096 + n"
  "n < 262144 \<Longrightarrow> push_bit 18 a OR n = a * 262144 + n" for n :: nat
  using or_fields [of n 6 a] or_fields [of n 12 a] or_fields [of n 18 a] by simp_all

text \<open>Reading back what was written.\<close>

lemma cp_front_utf8:
  assumes "cp \<le> 0x10FFFF" "utf8Append cp = b # bs"
  shows "cp_front b (bs @ rest) = (cp, Suc (length bs))"
  using assms(1)
proof (cases rule: utf8_shapes)
  case one
  then show ?thesis using assms(2) by (simp add: cp_front_def unat_byte_of)
next
  case (two x y)
  then have "b = byte_of (192 + x)" "bs = [byte_of (128 + y)]" using assms(2) by simp_all
  then show ?thesis using two(1-3) field_values(1) [of x] by (simp add: cp_front_def unat_byte_of cont_byte joined_fields)
next
  case (three x y z)
  then have "b = byte_of (224 + x)" "bs = [byte_of (128 + y), byte_of (128 + z)]" using assms(2) by simp_all
  then show ?thesis using three(1-4) field_values(2) [of x] by (simp add: cp_front_def unat_byte_of cont_byte joined_fields)
next
  case (four x y z u)
  then have "b = byte_of (240 + x)" "bs = [byte_of (128 + y), byte_of (128 + z), byte_of (128 + u)]" using assms(2) by simp_all
  then show ?thesis using four(1-5) field_values(3) [of x] by (simp add: cp_front_def unat_byte_of cont_byte joined_fields)
qed

lemma lead_divs:
  "(192 + m) div 32 = 6 \<longleftrightarrow> m < 32" "(224 + m) div 16 = 14 \<longleftrightarrow> m < 16" "(240 + m) div 8 = 30 \<longleftrightarrow> m < 8"
  "m < 32 \<Longrightarrow> (224 + m) div 32 = 7" "m < 16 \<Longrightarrow> (240 + m) div 32 = 7" "m < 16 \<Longrightarrow> (240 + m) div 16 = 15" for m :: nat
  by auto

lemma repair_front_utf8:
  assumes "scalar cp" "utf8Append cp = b # bs"
  shows "repair_front b (bs @ rest) = (utf8Append cp, Suc (length bs))"
proof -
  have le: "cp \<le> 0x10FFFF" using assms(1) by (auto simp: scalar_def)
  show ?thesis
    using le
  proof (cases rule: utf8_shapes)
    case one
    then show ?thesis using assms(2) by (simp add: repair_front_def unat_byte_of)
  next
    case (two x y)
    then have b: "unat b = 192 + x" "bs = [byte_of (128 + y)]" using assms(2) by (auto simp: unat_byte_of)
    have "unat b AND 0xE0 = 0xC0" "unat b AND 0x1F = x"
      using leads(1) [of "unat b"] low_masks(2) [of "unat b"] b(1) two(1) by (simp_all add: lead_divs mark_mods)
    then show ?thesis using two(2-4) b(2) by (simp add: repair_front_def b(1) cont_byte joined_fields)
  next
    case (three x y z)
    then have b: "unat b = 224 + x" "bs = [byte_of (128 + y), byte_of (128 + z)]" using assms(2) by (auto simp: unat_byte_of)
    have "unat b AND 0xE0 \<noteq> 0xC0" "unat b AND 0xF0 = 0xE0" "unat b AND 0x0F = x"
      using leads(1,2) [of "unat b"] low_masks(3) [of "unat b"] b(1) three(1) by (simp_all add: lead_divs mark_mods)
    then show ?thesis using three(2-5) b(2) assms(1)
      by (auto simp: repair_front_def Let_def b(1) cont_byte joined_fields scalar_def)
  next
    case (four x y z u)
    then have b: "unat b = 240 + x" "bs = [byte_of (128 + y), byte_of (128 + z), byte_of (128 + u)]"
      using assms(2) by (auto simp: unat_byte_of)
    have "unat b AND 0xE0 \<noteq> 0xC0" "unat b AND 0xF0 \<noteq> 0xE0" "unat b AND 0xF8 = 0xF0" "unat b AND 0x07 = x"
      using leads(1-3) [of "unat b"] low_masks(4) [of "unat b"] b(1) four(1) by (simp_all add: lead_divs mark_mods)
    then show ?thesis using four(2-6) b(2) le by (simp add: repair_front_def b(1) cont_byte joined_fields)
  qed
qed

lemma utf8Append_nonempty: "utf8Append cp \<noteq> []"
  by (simp add: utf8Append_def)

lemma repair_step:
  assumes "scalar cp"
  shows "utf8_repair (utf8Append cp @ rest) = utf8Append cp @ utf8_repair rest"
proof -
  obtain b bs where b: "utf8Append cp = b # bs" using utf8Append_nonempty [of cp] by (cases "utf8Append cp") auto
  then show ?thesis using repair_front_utf8 [OF assms b, of rest] by simp
qed

lemma repair_concat: "list_all scalar cps \<Longrightarrow> utf8_repair (concat (map utf8Append cps)) = concat (map utf8Append cps)"
  by (induction cps) (simp_all add: repair_step)

lemma repair_valid: "valid_utf8 s \<Longrightarrow> utf8_repair s = s"
  by (auto simp: valid_utf8_def repair_concat)

lemma cont_lt: "cont b < 64"
  by (simp add: cont_def low_masks)

lemma repair_front_scalar: "\<exists>cp. scalar cp \<and> fst (repair_front b rest) = utf8Append cp"
proof -
  have bad: "scalar 0xFFFD" by (simp add: scalar_def)
  have lead: "push_bit 6 (unat b AND 0x1F) OR cont (rest ! 0) < 0x800"
    "push_bit 12 (unat b AND 0x0F) OR push_bit 6 (cont (rest ! 0)) OR cont (rest ! 1) < 0x10000"
  proof -
    have "unat b AND 0x1F < 32" "unat b AND 0x0F < 16" by (simp_all add: low_masks)
    moreover have "cont (rest ! 0) * 64 + cont (rest ! 1) < 4096" using cont_lt [of "rest ! 0"] cont_lt [of "rest ! 1"] by linarith
    ultimately show "push_bit 6 (unat b AND 0x1F) OR cont (rest ! 0) < 0x800"
      "push_bit 12 (unat b AND 0x0F) OR push_bit 6 (cont (rest ! 0)) OR cont (rest ! 1) < 0x10000"
      using cont_lt [of "rest ! 0"] cont_lt [of "rest ! 1"] by (simp_all only: joined_fields)
  qed
  have one: "[b] = utf8Append (unat b)" "scalar (unat b)" if "unat b < 0x80"
    using that by (simp_all add: utf8Append_def byte_of_def scalar_def)
  show ?thesis
  proof (cases "unat b < 0x80")
    case True
    then show ?thesis using one by (intro exI [of _ "unat b"]) (simp add: repair_front_def)
  next
    case False
    define c2 where "c2 = push_bit 6 (unat b AND 0x1F) OR cont (rest ! 0)"
    define c3 where "c3 = push_bit 12 (unat b AND 0x0F) OR push_bit 6 (cont (rest ! 0)) OR cont (rest ! 1)"
    define c4 where "c4 = push_bit 18 (unat b AND 0x07) OR push_bit 12 (cont (rest ! 0)) OR push_bit 6 (cont (rest ! 1)) OR
      cont (rest ! 2)"
    have "fst (repair_front b rest) \<in> {utf8Append 0xFFFD, utf8Append c2} \<or>
        (fst (repair_front b rest) = utf8Append c3 \<and> \<not> (0xD800 \<le> c3 \<and> c3 \<le> 0xDFFF)) \<or>
        (fst (repair_front b rest) = utf8Append c4 \<and> 0x10000 \<le> c4 \<and> c4 \<le> 0x10FFFF)"
      using False unfolding repair_front_def Let_def c2_def [symmetric] c3_def [symmetric] c4_def [symmetric] by auto
    moreover have "scalar c2" using lead(1) by (simp add: scalar_def c2_def)
    moreover have "c3 < 0x10000" using lead(2) unfolding c3_def .
    then have "scalar c3" if "\<not> (0xD800 \<le> c3 \<and> c3 \<le> 0xDFFF)" using that by (auto simp: scalar_def)
    moreover have "scalar c4" if "0x10000 \<le> c4 \<and> c4 \<le> 0x10FFFF" using that by (simp add: scalar_def)
    ultimately show ?thesis using bad by blast
  qed
qed

lemma repair_makes_valid: "valid_utf8 (utf8_repair s)"
proof (induction s rule: utf8_repair.induct)
  case 1
  then show ?case unfolding valid_utf8_def by (intro exI [of _ "[]"]) simp
next
  case (2 b rest)
  obtain out n where r: "repair_front b rest = (out, n)" by fastforce
  obtain cp where cp: "scalar cp" "out = utf8Append cp" using repair_front_scalar [of b rest] r by auto
  obtain cps where "list_all scalar cps" "utf8_repair (drop n (b # rest)) = concat (map utf8Append cps)"
    using "2.IH" [OF r [symmetric]] by (auto simp: valid_utf8_def)
  then show ?case using cp r unfolding valid_utf8_def by (intro exI [of _ "cp # cps"]) simp
qed

text \<open>
  C27. What \<open>decode\<close> returns is well-formed UTF-8 for every byte string, and the repair leaves a
  well-formed string alone.
\<close>

theorem repair_wellformed: "valid_utf8 (utf8_repair s) \<and> utf8_repair (utf8_repair s) = utf8_repair s"
  using repair_makes_valid [of s] repair_valid [OF repair_makes_valid, of s] by simp

subsection \<open>The byte map is invertible\<close>

definition byte_char :: "u8 \<Rightarrow> bytes" where
  "byte_char b = utf8Append (byteToCp ! unat b)"

text \<open>The byte a code point stands for, by the search loop of \<open>decode\<close>.\<close>

definition cp_byte :: "nat \<Rightarrow> u8 option" where
  "cp_byte cp = map_option word_of_nat (List.find (\<lambda>b. byteToCp ! b = cp) [0..<256])"

definition mapped_byte :: "nat \<Rightarrow> bool" where
  "mapped_byte b \<longleftrightarrow> 0x21 \<le> b \<and> b \<le> 0x7E \<or> 0xA1 \<le> b \<and> b \<le> 0xAC \<or> 0xAE \<le> b \<and> b \<le> 0xFF"

lemma length_fold_ident: "length (fold (\<lambda>i t. t[i := i]) is t) = length (t :: nat list)"
  by (induction "is" arbitrary: t) simp_all

lemma nth_fold_ident:
  "j < length t \<Longrightarrow> fold (\<lambda>i t. t[i := i]) is t ! j = (if j \<in> set is then j else (t :: nat list) ! j)"
  by (induction "is" arbitrary: t) (auto simp: nth_list_update)

lemma length_bm_identity: "length bm_identity = 256"
  by (simp add: bm_identity_def bm_ranges_def length_fold_ident)

lemma nth_fold_range:
  "j < length t \<Longrightarrow> fold (\<lambda>i t. t[i := i]) [a..<b] t ! j = (if a \<le> j \<and> j < b then j else (t :: nat list) ! j)"
  by (simp add: nth_fold_ident)

lemma nth_bm_identity: "b < 256 \<Longrightarrow> bm_identity ! b = (if mapped_byte b then b else bm_unset)"
  by (simp only: bm_identity_def bm_ranges_def fold_simps comp_apply id_apply prod.case nth_fold_range length_fold_ident
      length_replicate nth_replicate) (auto simp: mapped_byte_def)

abbreviation unset_before :: "nat \<Rightarrow> nat list \<Rightarrow> nat" where
  "unset_before i xs \<equiv> length (filter (\<lambda>x. x = bm_unset) (take i xs))"

lemma length_bm_fill [simp]: "length (bm_fill n xs) = length xs"
  by (induction n xs rule: bm_fill.induct) simp_all

lemma nth_bm_fill:
  "i < length xs \<Longrightarrow> bm_fill n xs ! i = (if xs ! i = bm_unset then 256 + n + unset_before i xs else xs ! i)"
proof (induction n xs arbitrary: i rule: bm_fill.induct)
  case (2 n x xs)
  then show ?case by (cases i) auto
qed simp

lemma unset_before_less:
  assumes "i < j" "j \<le> length xs" "xs ! i = bm_unset"
  shows "unset_before i xs < unset_before j xs"
proof -
  obtain k where k: "j = i + Suc k" using assms(1) less_iff_Suc_add by auto
  have "take j xs = take i xs @ take (Suc k) (drop i xs)" unfolding k by (rule take_add)
  moreover have "drop i xs = xs ! i # drop (Suc i) xs" using assms(1,2) by (intro Cons_nth_drop_Suc [symmetric]) simp
  ultimately show ?thesis using assms(3) by simp
qed

lemma nth_byteToCp:
  "b < 256 \<Longrightarrow> byteToCp ! b = (if mapped_byte b then b else 256 + unset_before b bm_identity)"
  by (auto simp: byteToCp_def nth_bm_fill length_bm_identity nth_bm_identity bm_unset_def)

lemma byteToCp_inj: "a < 256 \<Longrightarrow> b < 256 \<Longrightarrow> byteToCp ! a = byteToCp ! b \<Longrightarrow> a = b"
proof (rule ccontr)
  assume ab: "a < 256" "b < 256" "byteToCp ! a = byteToCp ! b" "a \<noteq> b"
  have "unset_before i bm_identity < unset_before j bm_identity" if "i < j" "j < 256" "\<not> mapped_byte i" for i j
    using unset_before_less [OF that(1), of bm_identity] that by (simp add: length_bm_identity nth_bm_identity)
  note less = this
  have "\<not> mapped_byte a" "\<not> mapped_byte b" "unset_before a bm_identity = unset_before b bm_identity"
    using ab by (auto simp: nth_byteToCp mapped_byte_def split: if_splits)
  then show False using less [of a b] less [of b a] ab(1,2,4) by (cases a b rule: linorder_cases) auto
qed

lemma byteToCp_small: "b < 256 \<Longrightarrow> byteToCp ! b \<le> 512"
  using length_filter_le [of "\<lambda>x. x = bm_unset" "take b bm_identity"] by (auto simp: nth_byteToCp length_bm_identity)

lemma byte_lt: "unat (b :: u8) < 256"
  using unsigned_less [of b, where ?'a = nat] by simp

lemma find_upt: "x < n \<Longrightarrow> P x \<Longrightarrow> (\<And>j. j < x \<Longrightarrow> \<not> P j) \<Longrightarrow> List.find P [0..<n] = Some x"
  by (auto simp: find_Some_iff)

lemma cp_byte_byteToCp: "cp_byte (byteToCp ! unat b) = Some b"
proof -
  have "List.find (\<lambda>i. byteToCp ! i = byteToCp ! unat b) [0..<256] = Some (unat b)"
    using byteToCp_inj [OF _ byte_lt [of b]] byte_lt [of b] by (intro find_upt) (auto dest: less_trans)
  then show ?thesis unfolding cp_byte_def by (simp only: option.map) simp
qed

lemma byte_char_front:
  assumes "byte_char b = c # cs"
  shows "cp_front c (cs @ rest) = (byteToCp ! unat b, length (byte_char b))"
proof -
  have "byteToCp ! unat b \<le> 0x10FFFF" using byteToCp_small [OF byte_lt [of b]] by linarith
  then show ?thesis using cp_front_utf8 [of "byteToCp ! unat b" c cs rest] assms by (simp add: byte_char_def)
qed

end
