(* ===== verification/Tokenizer.thy ===== *)
theory Tokenizer
  imports Utf8 UnicodeRuns Json StdAlgo "HOL-Library.AList"
begin

text \<open>
  \<open>tokenizer/native_tokenizer.h\<close>, \<open>tokenizer/native_tokenizer.cpp\<close>: the in-process BPE tokenizer.
  Text is a byte string. The scanners of the source run over an index into the code points; here
  they run over the code points from that index on and return how many they take. A hash map is an
  association list with distinct keys. \<^const>\<open>None\<close> is an exception (a JSON value of the wrong type, a
  missing member) or a loop that does not end.
\<close>

record added_token =
  at_content :: bytes
  at_id :: int

record tokenizer =
  tk_vocabSize :: int
  tk_bosId :: int
  tk_eosId :: int
  tk_vocab :: "(bytes \<times> int) list"
  tk_vocabById :: "bytes list"
  tk_merges :: "(bytes \<times> int) list"
  tk_added :: "added_token list"

definition NativeBpeTokenizer :: tokenizer where
  "NativeBpeTokenizer = \<lparr>tk_vocabSize = 0, tk_bosId = -1, tk_eosId = -1, tk_vocab = [], tk_vocabById = [],
     tk_merges = [], tk_added = []\<rparr>"

definition isLoaded :: "tokenizer \<Rightarrow> bool" where
  "isLoaded t \<longleftrightarrow> 0 < tk_vocabSize t"

subsection \<open>Pre-tokenization\<close>

definition asciiCaseEq :: "nat \<Rightarrow> nat \<Rightarrow> bool" where
  "asciiCaseEq cp c \<longleftrightarrow>
     (if 65 \<le> cp \<and> cp \<le> 90 then cp = c \<or> int cp = int c - 65 + 97
      else if 97 \<le> cp \<and> cp \<le> 122 then cp = c \<or> int cp = int c - 97 + 65
      else cp = c)"

definition pair_eq :: "nat \<Rightarrow> nat list \<Rightarrow> nat \<Rightarrow> nat \<Rightarrow> bool" where
  "pair_eq v1 rest c d \<longleftrightarrow> rest \<noteq> [] \<and> asciiCaseEq v1 c \<and> asciiCaseEq (hd rest) d"

definition matchContraction :: "nat list \<Rightarrow> nat option" where
  "matchContraction vs = (case vs of
     v0 # v1 # rest \<Rightarrow>
       if v0 \<noteq> 39 then None
       else if asciiCaseEq v1 115 then Some 2
       else if asciiCaseEq v1 116 then Some 2
       else if pair_eq v1 rest 114 101 then Some 3
       else if pair_eq v1 rest 118 101 then Some 3
       else if asciiCaseEq v1 109 then Some 2
       else if pair_eq v1 rest 108 108 then Some 3
       else if asciiCaseEq v1 100 then Some 2
       else None
   | _ \<Rightarrow> None)"

definition run_len :: "(nat \<Rightarrow> bool) \<Rightarrow> nat list \<Rightarrow> nat" where
  "run_len P vs = length (takeWhile P vs)"

definition match_word :: "nat list \<Rightarrow> nat option" where
  "match_word vs = (case vs of
     [] \<Rightarrow> None
   | v # rest \<Rightarrow>
       if isLetter v then Some (1 + run_len isLetter rest)
       else if \<not> isNewline v \<and> \<not> isLetterNumber v then
         (if rest \<noteq> [] \<and> isLetter (hd rest) then Some (1 + run_len isLetter rest) else None)
       else None)"

definition match_number :: "nat list \<Rightarrow> nat option" where
  "match_number vs = (case vs of
     [] \<Rightarrow> None
   | v # rest \<Rightarrow> if isNumber v then Some (1 + min 2 (run_len isNumber rest)) else None)"

definition match_punct :: "nat list \<Rightarrow> nat option" where
  "match_punct vs =
     (let k = (if vs \<noteq> [] \<and> isSpace (hd vs) then 1 else 0); us = drop k vs in
      if us \<noteq> [] \<and> isC (hd us) then
        let n = run_len isC us in Some (k + n + run_len isNewline (drop n us))
      else None)"

text \<open>Up to the last newline of a run of white space.\<close>

definition match_newline :: "nat list \<Rightarrow> nat option" where
  "match_newline vs =
     (let n = length (dropWhile (\<lambda>v. \<not> isNewline v) (rev (takeWhile isSpace vs))) in
      if 0 < n then Some n else None)"

definition match_space :: "nat list \<Rightarrow> nat option" where
  "match_space vs =
     (let run = run_len isSpace vs in
      if 1 \<le> run then
        let afterNotS = (run = length vs \<or> \<not> isNonspace (vs ! run));
            n = (if afterNotS then run else if 2 \<le> run then run - 1 else 0) in
        if 0 < n then Some n else None
      else None)"

definition match_spaces :: "nat list \<Rightarrow> nat option" where
  "match_spaces vs = (let run = run_len isSpace vs in if 0 < run then Some run else None)"

fun first_some :: "('a \<Rightarrow> 'b option) list \<Rightarrow> 'a \<Rightarrow> 'b option" where
  "first_some [] x = None"
| "first_some (f # fs) x = (case f x of Some y \<Rightarrow> Some y | None \<Rightarrow> first_some fs x)"

definition chunk_len :: "nat list \<Rightarrow> nat" where
  "chunk_len vs = (case first_some [matchContraction, match_word, match_number, match_punct, match_newline,
     match_space, match_spaces] vs of Some n \<Rightarrow> n | None \<Rightarrow> 1)"

lemma chunk_len_pos: "vs \<noteq> [] \<Longrightarrow> 0 < chunk_len vs"
proof -
  have c: "matchContraction vs = Some n \<Longrightarrow> 0 < n" for n
    by (auto simp: matchContraction_def split: list.splits if_splits)
  have w: "match_word vs = Some n \<Longrightarrow> 0 < n" for n
    by (auto simp: match_word_def split: list.splits if_splits)
  have m: "match_number vs = Some n \<Longrightarrow> 0 < n" for n
    by (auto simp: match_number_def split: list.splits if_splits)
  have p: "match_punct vs = Some n \<Longrightarrow> 0 < n" for n
    by (cases "drop (if vs \<noteq> [] \<and> isSpace (hd vs) then 1 else 0) vs")
      (auto simp: match_punct_def Let_def run_len_def split: if_splits)
  have l: "match_newline vs = Some n \<Longrightarrow> 0 < n" for n
    unfolding match_newline_def Let_def by (metis option.distinct(1) option.inject)
  have s: "match_space vs = Some n \<Longrightarrow> 0 < n" for n
    by (auto simp: match_space_def Let_def split: if_splits)
  have r: "match_spaces vs = Some n \<Longrightarrow> 0 < n" for n
    by (auto simp: match_spaces_def Let_def split: if_splits)
  show ?thesis unfolding chunk_len_def
    by (auto split: option.split dest: c w m p l s r)
qed

text \<open>The bytes from the offset of the first code point up to the offset of the next chunk's first one.\<close>

function pre_tokens :: "bytes \<Rightarrow> cp list \<Rightarrow> bytes list" where
  "pre_tokens text [] = []"
| "pre_tokens text (c # cs) =
     (let n = chunk_len (map fst (c # cs));
          endOff = (if n < length (c # cs) then snd ((c # cs) ! n) else length text) in
      take (endOff - snd c) (drop (snd c) text) # pre_tokens text (drop n (c # cs)))"
  by pat_completeness auto
termination
  by (relation "measure (\<lambda>(text, cs). length cs)") (auto simp: chunk_len_pos)

definition preTokenize :: "bytes \<Rightarrow> bytes list" where
  "preTokenize text = pre_tokens text (decodeCps text)"

subsection \<open>Byte-pair merges\<close>

text \<open>No rank: the rank of a pair that is not in the table.\<close>

definition no_rank :: int where "no_rank = 0x7FFFFFFF"

definition merge_rank :: "tokenizer \<Rightarrow> bytes \<Rightarrow> bytes \<Rightarrow> int" where
  "merge_rank t a b = (case map_of (tk_merges t) (a @ [0x20] @ b) of Some r \<Rightarrow> r | None \<Rightarrow> no_rank)"

fun best_pair_loop :: "tokenizer \<Rightarrow> nat \<Rightarrow> bytes list \<Rightarrow> int \<times> nat option \<Rightarrow> int \<times> nat option" where
  "best_pair_loop t k (a # b # ws) best =
     (let r = merge_rank t a b in best_pair_loop t (Suc k) (b # ws) (if r < fst best then (r, Some k) else best))"
| "best_pair_loop t k _ best = best"

definition bestPair :: "tokenizer \<Rightarrow> bytes list \<Rightarrow> nat option" where
  "bestPair t word = snd (best_pair_loop t 0 word (no_rank, None))"

definition merge_at :: "nat \<Rightarrow> bytes list \<Rightarrow> bytes list" where
  "merge_at k word = take k word @ (word ! k @ word ! Suc k) # drop (Suc (Suc k)) word"

lemma best_pair_loop_bound:
  "snd (best_pair_loop t k ws best) = Some i \<Longrightarrow> snd best = Some i \<or> k \<le> i \<and> i - k + 1 < length ws"
  by (induction t k ws best rule: best_pair_loop.induct) (fastforce simp: Let_def split: if_splits)+

lemma bestPair_bound: "bestPair t word = Some k \<Longrightarrow> Suc k < length word"
  unfolding bestPair_def by (drule best_pair_loop_bound) simp

lemma length_merge_at: "Suc k < length word \<Longrightarrow> length (merge_at k word) = length word - 1"
  by (simp add: merge_at_def)

function bpe_loop :: "tokenizer \<Rightarrow> bytes list \<Rightarrow> bytes list" where
  "bpe_loop t word =
     (if 2 \<le> length word then
        (case bestPair t word of
           None \<Rightarrow> word
         | Some k \<Rightarrow> let word' = merge_at k word in if length word' = 1 then word' else bpe_loop t word')
      else word)"
  by pat_completeness auto
termination
  by (relation "measure (\<lambda>(t, word). length word)") (auto dest!: bestPair_bound simp: length_merge_at)

declare bpe_loop.simps [simp del]

definition bpeMerge :: "tokenizer \<Rightarrow> bytes list \<Rightarrow> bytes list" where
  "bpeMerge t chars = (if length chars < 2 then chars else bpe_loop t chars)"

subsection \<open>Encoding\<close>

definition cp_width :: "u8 \<Rightarrow> nat" where
  "cp_width b = (if 0xF0 \<le> b then 4 else if 0xE0 \<le> b then 3 else if 0xC0 \<le> b then 2 else 1)"

lemma cp_width_pos: "0 < cp_width b"
  by (simp add: cp_width_def)

text \<open>A piece outside the vocabulary, character by character.\<close>

function piece_chars :: "tokenizer \<Rightarrow> bytes \<Rightarrow> int list" where
  "piece_chars t piece =
     (if 1 < length piece then
        let n = cp_width (hd piece); more = piece_chars t (drop n piece) in
        case map_of (tk_vocab t) (take n piece) of Some i \<Rightarrow> i # more | None \<Rightarrow> more
      else [])"
  by pat_completeness auto
termination
  by (relation "measure (\<lambda>(t, piece). length piece)") (auto intro: diff_less simp: cp_width_pos)

declare piece_chars.simps [simp del]

definition piece_ids :: "tokenizer \<Rightarrow> bytes \<Rightarrow> int list" where
  "piece_ids t piece = (case map_of (tk_vocab t) piece of Some i \<Rightarrow> [i] | None \<Rightarrow> piece_chars t piece)"

definition encodeChunk :: "tokenizer \<Rightarrow> bytes \<Rightarrow> int list" where
  "encodeChunk t chunk = concat (map (piece_ids t) (bpeMerge t (map byte_char chunk)))"

definition token_at :: "tokenizer \<Rightarrow> bytes \<Rightarrow> nat \<Rightarrow> added_token option" where
  "token_at t text pos =
     List.find (\<lambda>a. length (at_content a) \<le> length text - pos \<and>
       take (length (at_content a)) (drop pos text) = at_content a) (tk_added t)"

function gap_end :: "tokenizer \<Rightarrow> bytes \<Rightarrow> nat \<Rightarrow> nat" where
  "gap_end t text x = (if x < length text then if token_at t text x \<noteq> None then x else gap_end t text (Suc x) else x)"
  by pat_completeness auto
termination
  by (relation "measure (\<lambda>(t, text, x). length text - x)") auto

declare gap_end.simps [simp del]

record span =
  sp_added :: bool
  sp_id :: int
  sp_begin :: nat
  sp_end :: nat

text \<open>
  The splitting loop; it does not advance past an added token with empty content, and then
  \<^const>\<open>None\<close> says that it does not end.
\<close>

partial_function (option) text_spans :: "tokenizer \<Rightarrow> bytes \<Rightarrow> nat \<Rightarrow> span list option" where
  "text_spans t text pos =
     (if pos < length text then
        (case token_at t text pos of
           Some a \<Rightarrow>
             Option.bind (text_spans t text (pos + length (at_content a))) (\<lambda>spans.
               Some (\<lparr>sp_added = True, sp_id = at_id a, sp_begin = pos, sp_end = pos + length (at_content a)\<rparr> # spans))
         | None \<Rightarrow>
             Option.bind (text_spans t text (gap_end t text pos)) (\<lambda>spans.
               Some (\<lparr>sp_added = False, sp_id = -1, sp_begin = pos, sp_end = gap_end t text pos\<rparr> # spans)))
      else Some [])"

definition span_ids :: "tokenizer \<Rightarrow> bytes \<Rightarrow> span \<Rightarrow> int list" where
  "span_ids t text sp =
     (if sp_added sp then [sp_id sp]
      else if sp_begin sp = sp_end sp then []
      else concat (map (encodeChunk t) (preTokenize (take (sp_end sp - sp_begin sp) (drop (sp_begin sp) text)))))"

definition with_eos :: "tokenizer \<Rightarrow> bool \<Rightarrow> int list \<Rightarrow> int list" where
  "with_eos t addSpecial ids =
     (if addSpecial \<and> 0 \<le> tk_eosId t \<and> (ids = [] \<or> last ids \<noteq> tk_eosId t) then ids @ [tk_eosId t] else ids)"

definition encode :: "tokenizer \<Rightarrow> bytes \<Rightarrow> bool \<Rightarrow> int list option" where
  "encode t text addSpecial =
     map_option (\<lambda>spans. with_eos t addSpecial (concat (map (span_ids t text) spans))) (text_spans t text 0)"

subsection \<open>Decoding\<close>

function token_bytes :: "bytes \<Rightarrow> bytes" where
  "token_bytes [] = []"
| "token_bytes (b # rest) =
     (case cp_front b rest of (v, n) \<Rightarrow>
        (case cp_byte v of Some x \<Rightarrow> [x] | None \<Rightarrow> []) @ token_bytes (drop n (b # rest)))"
  by pat_completeness auto
termination
  by (relation "measure length") (auto dest!: cp_front_step)

definition specials :: "tokenizer \<Rightarrow> int \<Rightarrow> bytes option" where
  "specials t = map_of (rev (map (\<lambda>a. (at_id a, at_content a)) (tk_added t)))"

definition id_bytes :: "tokenizer \<Rightarrow> bool \<Rightarrow> int \<Rightarrow> bytes" where
  "id_bytes t skipSpecial i =
     (case specials t i of
        Some content \<Rightarrow> if skipSpecial then [] else content
      | None \<Rightarrow> if i < 0 \<or> length (tk_vocabById t) \<le> nat i then [] else token_bytes (tk_vocabById t ! nat i))"

definition decode :: "tokenizer \<Rightarrow> int list \<Rightarrow> bool \<Rightarrow> bytes" where
  "decode t ids skipSpecial = utf8_repair (concat (map (id_bytes t skipSpecial) ids))"

end
