(* ===== verification/TokenizerLoad.thy ===== *)
theory TokenizerLoad
  imports Tokenizer Json StdAlgo "HOL-Library.AList"
begin

text \<open>
  \<open>NativeBpeTokenizer::load\<close>. The files are a function from path to text, the parser of picojson is
  a parameter (\<open>parse\<close> where its error is looked at, \<open>parsed\<close> for the value it leaves behind where it
  is not), and so are the text it gives a number (\<open>num_text\<close>) and the iteration
  order of the hash map (\<open>order\<close>). \<^const>\<open>None\<close> is an exception or an access outside a vector.
\<close>

definition chars_bytes :: "string \<Rightarrow> bytes" where
  "chars_bytes s = map of_char s"

definition as_object :: "json \<Rightarrow> json_object option" where
  "as_object j = (case j of JObject o' \<Rightarrow> Some o' | _ \<Rightarrow> None)"

definition as_array :: "json \<Rightarrow> json list option" where
  "as_array j = (case j of JArray xs \<Rightarrow> Some xs | _ \<Rightarrow> None)"

definition as_int :: "fp_conv \<Rightarrow> json \<Rightarrow> int option" where
  "as_int cv j = (case j of JNumber r \<Rightarrow> Some (d2i cv r) | _ \<Rightarrow> None)"

definition to_str :: "(rat \<Rightarrow> string) \<Rightarrow> json \<Rightarrow> bytes" where
  "to_str num_text j = chars_bytes (case j of
     JNull \<Rightarrow> ''null''
   | JBool b \<Rightarrow> if b then ''true'' else ''false''
   | JNumber r \<Rightarrow> num_text r
   | JString s \<Rightarrow> s
   | JArray _ \<Rightarrow> ''array''
   | JObject _ \<Rightarrow> ''object'')"

fun load_vocab :: "fp_conv \<Rightarrow> json_object \<Rightarrow> (bytes \<times> int) list \<Rightarrow> (bytes \<times> int) list option" where
  "load_vocab cv [] vocab = Some vocab"
| "load_vocab cv ((k, v) # kvs) vocab =
     Option.bind (as_int cv v) (\<lambda>i. load_vocab cv kvs (AList.update (chars_bytes k) i vocab))"

definition id_table :: "(bytes \<times> int) list \<Rightarrow> nat \<Rightarrow> bytes list" where
  "id_table kvs n =
     foldl (\<lambda>tab (k, i). if 0 \<le> i \<and> i < int (length tab) then tab[nat i := k] else tab) (replicate n []) kvs"

fun load_merges :: "(rat \<Rightarrow> string) \<Rightarrow> int \<Rightarrow> json list \<Rightarrow> (bytes \<times> int) list \<Rightarrow> (bytes \<times> int) list option" where
  "load_merges num_text rank [] merges = Some merges"
| "load_merges num_text rank (mv # mvs) merges =
     Option.bind (as_array mv) (\<lambda>pair.
     Option.bind (rd pair 0) (\<lambda>a.
     Option.bind (rd pair 1) (\<lambda>b.
       load_merges num_text (rank + 1) mvs
         (AList.update (to_str num_text a @ [0x20] @ to_str num_text b) rank merges))))"

definition added_less :: "added_token \<Rightarrow> added_token \<Rightarrow> bool" where
  "added_less a b =
     (if length (at_content a) \<noteq> length (at_content b) then length (at_content b) < length (at_content a)
      else at_id a < at_id b)"

fun load_added :: "(rat \<Rightarrow> string) \<Rightarrow> fp_conv \<Rightarrow> json list \<Rightarrow> added_token list option" where
  "load_added num_text cv [] = Some []"
| "load_added num_text cv (av # avs) =
     Option.bind (as_object av) (\<lambda>ao.
     Option.bind (obj_find ''content'' ao) (\<lambda>c.
     Option.bind (Option.bind (obj_find ''id'' ao) (as_int cv)) (\<lambda>i.
     Option.bind (load_added num_text cv avs) (\<lambda>rest.
       Some (\<lparr>at_content = to_str num_text c, at_id = i\<rparr> # rest)))))"

definition resolve_content :: "tokenizer \<Rightarrow> bytes \<Rightarrow> int" where
  "resolve_content t content =
     (if content = [] then -1
      else case map_of (tk_vocab t) content of
        Some i \<Rightarrow> i
      | None \<Rightarrow> (case List.find (\<lambda>a. at_content a = content) (tk_added t) of Some a \<Rightarrow> at_id a | None \<Rightarrow> -1))"

definition resolve :: "(rat \<Rightarrow> string) \<Rightarrow> fp_conv \<Rightarrow> json_object \<Rightarrow> tokenizer \<Rightarrow> string \<Rightarrow> int option" where
  "resolve num_text cv cobj t key =
     (case obj_find key cobj of
        None \<Rightarrow> Some (-1)
      | Some (JString s) \<Rightarrow> Some (resolve_content t (chars_bytes s))
      | Some (JObject o') \<Rightarrow>
          (case obj_find ''id'' o' of
             Some v \<Rightarrow> as_int cv v
           | None \<Rightarrow>
               (case obj_find ''content'' o' of
                  Some c \<Rightarrow> Some (resolve_content t (to_str num_text c))
                | None \<Rightarrow> Some (-1)))
      | Some _ \<Rightarrow> Some (-1))"

definition load_specials :: "(string \<Rightarrow> string option) \<Rightarrow> (string \<Rightarrow> json) \<Rightarrow> (rat \<Rightarrow> string) \<Rightarrow> fp_conv \<Rightarrow>
    string \<Rightarrow> tokenizer \<Rightarrow> (int \<times> int) option" where
  "load_specials files parsed num_text cv configPath t =
     (case if configPath = [] then None else files configPath of
        None \<Rightarrow> Some (-1, -1)
      | Some txt \<Rightarrow>
          Option.bind (as_object (parsed txt)) (\<lambda>cobj.
          Option.bind (resolve num_text cv cobj t ''eos_token'') (\<lambda>eos.
          Option.bind (resolve num_text cv cobj t ''bos_token'') (\<lambda>bos. Some (eos, bos)))))"

text \<open>The default special tokens, from the added tokens.\<close>

definition default_specials :: "added_token list \<Rightarrow> int \<times> int \<Rightarrow> int \<times> int" where
  "default_specials added p =
     (if fst p < 0 \<or> snd p < 0 then
        foldl (\<lambda>(eos, bos) a.
          (if eos < 0 \<and> at_content a = chars_bytes ''<|endoftext|>'' then at_id a else eos,
           if bos < 0 \<and> at_content a = chars_bytes ''<s>'' then at_id a else bos)) p added
      else p)"

definition load_model :: "(rat \<Rightarrow> string) \<Rightarrow> fp_conv \<Rightarrow> ((bytes \<times> int) list \<Rightarrow> (bytes \<times> int) list) \<Rightarrow>
    json_object \<Rightarrow> json \<Rightarrow> tokenizer \<Rightarrow> tokenizer option" where
  "load_model num_text cv order m vocabV t =
     Option.bind (as_object vocabV) (\<lambda>kvs.
     Option.bind (load_vocab cv kvs (tk_vocab t)) (\<lambda>vocab.
       let t = t\<lparr>tk_vocab := vocab, tk_vocabById := id_table (order vocab) (length vocab),
                 tk_vocabSize := int (length vocab)\<rparr> in
       case obj_find ''merges'' m of
         None \<Rightarrow> Some t
       | Some mergesV \<Rightarrow>
           Option.bind (as_array mergesV) (\<lambda>mvs.
           Option.bind (load_merges num_text 0 mvs (tk_merges t)) (\<lambda>merges. Some (t\<lparr>tk_merges := merges\<rparr>)))))"

definition load_added_tokens :: "(rat \<Rightarrow> string) \<Rightarrow> fp_conv \<Rightarrow> json_object \<Rightarrow> tokenizer \<Rightarrow> tokenizer option" where
  "load_added_tokens num_text cv obj t =
     (case obj_find ''added_tokens'' obj of
        None \<Rightarrow> Some t
      | Some addedV \<Rightarrow>
          Option.bind (as_array addedV) (\<lambda>avs.
          Option.bind (load_added num_text cv avs) (\<lambda>added. Some (t\<lparr>tk_added := stable_sort added_less added\<rparr>))))"

definition tk_load :: "(string \<Rightarrow> string option) \<Rightarrow> json_parser \<Rightarrow> (string \<Rightarrow> json) \<Rightarrow> (rat \<Rightarrow> string) \<Rightarrow> fp_conv \<Rightarrow>
    ((bytes \<times> int) list \<Rightarrow> (bytes \<times> int) list) \<Rightarrow> string \<Rightarrow> string \<Rightarrow> tokenizer \<Rightarrow> (bool \<times> tokenizer) option" where
  "tk_load files parse parsed num_text cv order jsonPath configPath t =
     (case Option.bind (files jsonPath) parse of
        None \<Rightarrow> Some (False, t)
      | Some doc \<Rightarrow>
          Option.bind (as_object doc) (\<lambda>obj.
            case obj_find ''model'' obj of
              Some (JObject m) \<Rightarrow>
                Option.bind (obj_find ''type'' m) (\<lambda>ty.
                  if to_str num_text ty \<noteq> chars_bytes ''BPE'' then Some (False, t)
                  else case obj_find ''vocab'' m of
                    None \<Rightarrow> Some (False, t)
                  | Some vocabV \<Rightarrow>
                      Option.bind (load_model num_text cv order m vocabV t) (\<lambda>t.
                      Option.bind (load_added_tokens num_text cv obj t) (\<lambda>t.
                      Option.bind (load_specials files parsed num_text cv configPath t) (\<lambda>p.
                        let p = default_specials (tk_added t) p;
                            t = t\<lparr>tk_eosId := fst p, tk_bosId := snd p\<rparr>
                        in Some (0 < tk_vocabSize t, t)))))
            | _ \<Rightarrow> Some (False, t)))"

end
