(* ===== verification/TokenizerProofs.thy ===== *)
theory TokenizerProofs
  imports TokenizerLoad
begin

text \<open>
  What the tokenizer promises: pre-tokenization cuts the text into non-empty chunks, merging keeps the
  bytes and stops at a normal form, encoding ends, and decoding undoes it.
\<close>

subsection \<open>Pre-tokenization partitions the text\<close>

lemma decode_cps_Cons: "s \<noteq> [] \<Longrightarrow> \<exists>v n. 0 < n \<and> n \<le> length s \<and> decode_cps off s = (v, off) # decode_cps (off + n) (drop n s)"
proof (cases s)
  case (Cons b rest)
  obtain v n where "cp_front b rest = (v, n)" by fastforce
  then show ?thesis using cp_front_len [of b rest] Cons by (intro exI [of _ v] exI [of _ n]) auto
qed simp

lemma drop_decode_cps:
  "n < length (decode_cps off s) \<Longrightarrow>
   \<exists>k. decode_cps off s ! n = (fst (decode_cps off s ! n), off + k) \<and> k < length s \<and> (0 < n \<longrightarrow> 0 < k) \<and>
     drop n (decode_cps off s) = decode_cps (off + k) (drop k s)"
proof (induction n arbitrary: off s)
  case 0
  then have "s \<noteq> []" by auto
  then show ?case using decode_cps_Cons [of s off] by auto
next
  case (Suc n)
  then have "s \<noteq> []" by auto
  then obtain v m where m: "0 < m" "m \<le> length s" "decode_cps off s = (v, off) # decode_cps (off + m) (drop m s)"
    using decode_cps_Cons by blast
  then have "n < length (decode_cps (off + m) (drop m s))" using Suc.prems by simp
  from Suc.IH [OF this] obtain k where "decode_cps (off + m) (drop m s) ! n = (fst (decode_cps (off + m) (drop m s) ! n), off + m + k)"
    "k < length (drop m s)" "drop n (decode_cps (off + m) (drop m s)) = decode_cps (off + m + k) (drop k (drop m s))" by blast
  then show ?case using m by (intro exI [of _ "m + k"]) (auto simp: algebra_simps)
qed

lemma decode_cps_empty: "decode_cps off s = [] \<longleftrightarrow> s = []"
  using decode_cps_Cons [of s off] by (cases "s = []") auto

lemma pre_tokens_partition:
  "s = drop off text \<Longrightarrow> concat (pre_tokens text (decode_cps off s)) = s \<and> [] \<notin> set (pre_tokens text (decode_cps off s))"
proof (induction "length s" arbitrary: s off rule: less_induct)
  case less
  show ?case
  proof (cases "s = []")
    case False
    define cs where "cs = decode_cps off s"
    define n where "n = chunk_len (map fst cs)"
    obtain v cs' where cs: "cs = (v, off) # cs'" using decode_cps_Cons [OF False, of off] cs_def by auto
    have n: "0 < n" using chunk_len_pos cs by (simp add: n_def)
    define e where "e = (if n < length cs then snd (cs ! n) else length text)"
    have tok: "pre_tokens text cs = take (e - off) (drop off text) # pre_tokens text (drop n cs)"
      using pre_tokens.simps(2) [of "text" "(v, off)" cs']
      by (simp only: Let_def cs [symmetric] n_def [symmetric] e_def [symmetric] snd_conv)
    show ?thesis
    proof (cases "n < length cs")
      case True
      then obtain k where k: "snd (cs ! n) = off + k" "k < length s" "0 < k"
          "drop n cs = decode_cps (off + k) (drop k s)"
        using drop_decode_cps [of n off s] n unfolding cs_def by (metis snd_conv)
      have "drop k s = drop (off + k) text" using less.prems by (simp add: add.commute)
      from less.hyps [OF _ this] k(2,3)
      have "concat (pre_tokens text (drop n cs)) = drop k s" "[] \<notin> set (pre_tokens text (drop n cs))"
        unfolding k(4) by simp_all
      moreover have "take (e - off) (drop off text) = take k s" using True k(1) less.prems by (simp add: e_def)
      ultimately show ?thesis using tok k(2,3) False unfolding cs_def [symmetric] by simp
    next
      case F: False
      then have "take (e - off) (drop off text) = s" using less.prems by (simp add: e_def)
      then show ?thesis using tok F False unfolding cs_def [symmetric] by simp
    qed
  qed simp
qed

lemma preTokenize_parts: "concat (preTokenize text) = text" "[] \<notin> set (preTokenize text)"
  using pre_tokens_partition [of "text" 0 "text"] by (simp_all add: preTokenize_def decodeCps_def)

text \<open>
  C25. Pre-tokenization loses nothing: the chunks are non-empty and joined they are the text, whatever
  bytes it holds.
\<close>

theorem preTokenize_partition: "concat (preTokenize text) = text \<and> [] \<notin> set (preTokenize text)"
  using preTokenize_parts by simp

subsection \<open>Merging\<close>

lemma concat_merge_at: "Suc k < length word \<Longrightarrow> concat (merge_at k word) = concat word"
proof -
  assume k: "Suc k < length word"
  have "word = take k word @ word ! k # word ! Suc k # drop (Suc (Suc k)) word"
    using k by (metis Cons_nth_drop_Suc Suc_lessD append_take_drop_id)
  then have "concat word = concat (take k word) @ word ! k @ word ! Suc k @ concat (drop (Suc (Suc k)) word)"
    by (metis concat.simps(2) concat_append)
  then show ?thesis by (simp add: merge_at_def)
qed

lemma concat_bpe_loop: "concat (bpe_loop t word) = concat word"
proof (induction t word rule: bpe_loop.induct)
  case (1 t word)
  show ?case
    by (subst bpe_loop.simps)
      (use 1 in \<open>auto simp: Let_def concat_merge_at dest!: bestPair_bound split: option.splits\<close>)
qed

lemma concat_bpeMerge: "concat (bpeMerge t chars) = concat chars"
  by (simp add: bpeMerge_def concat_bpe_loop)

abbreviation rank_at :: "tokenizer \<Rightarrow> bytes list \<Rightarrow> nat \<Rightarrow> int" where
  "rank_at t word k \<equiv> merge_rank t (word ! k) (word ! Suc k)"

text \<open>The reference: one step merges the leftmost of the pairs with the lowest rank.\<close>

definition lowest_pair :: "tokenizer \<Rightarrow> bytes list \<Rightarrow> nat \<Rightarrow> bool" where
  "lowest_pair t word k \<longleftrightarrow> Suc k < length word \<and> rank_at t word k < no_rank \<and>
     (\<forall>j. Suc j < length word \<longrightarrow> rank_at t word k \<le> rank_at t word j) \<and>
     (\<forall>j < k. rank_at t word k < rank_at t word j)"

inductive bpe_step :: "tokenizer \<Rightarrow> bytes list \<Rightarrow> bytes list \<Rightarrow> bool" for t where
  merge: "lowest_pair t word k \<Longrightarrow> bpe_step t word (merge_at k word)"

inductive_cases bpe_stepE: "bpe_step t word word'"

lemma best_pair_loop_spec:
  "res = best_pair_loop t k ws best \<Longrightarrow>
   (\<forall>j. Suc j < length ws \<longrightarrow> fst res \<le> rank_at t ws j) \<and>
   (res = best \<or> (\<exists>j. Suc j < length ws \<and> res = (rank_at t ws j, Some (k + j)) \<and> rank_at t ws j < fst best \<and>
      (\<forall>i < j. rank_at t ws j < rank_at t ws i))) \<and> fst res \<le> fst best"
proof (induction t k ws best arbitrary: res rule: best_pair_loop.induct)
  case (1 t k a b ws best)
  let ?r = "merge_rank t a b" and ?ws = "a # b # ws"
  let ?best = "if ?r < fst best then (?r, Some k) else best"
  have res: "res = best_pair_loop t (Suc k) (b # ws) ?best" using "1.prems" by (simp add: Let_def)
  note IH = "1.IH" [OF refl res]
  have le: "fst res \<le> fst ?best" "fst ?best \<le> ?r" "fst ?best \<le> fst best" using IH by auto
  have all: "fst res \<le> rank_at t ?ws j" if "Suc j < length ?ws" for j
    using that IH le by (cases j) auto
  consider "res = ?best" | j where "Suc j < length (b # ws)" "res = (rank_at t (b # ws) j, Some (Suc k + j))"
      "rank_at t (b # ws) j < fst ?best" "\<forall>i < j. rank_at t (b # ws) j < rank_at t (b # ws) i"
    using IH by blast
  then have "res = best \<or> (\<exists>j. Suc j < length ?ws \<and> res = (rank_at t ?ws j, Some (k + j)) \<and> rank_at t ?ws j < fst best \<and>
      (\<forall>i < j. rank_at t ?ws j < rank_at t ?ws i))"
  proof cases
    case 1
    then show ?thesis by (cases "?r < fst best") (auto intro!: exI [of _ "0 :: nat"])
  next
    case (2 j)
    have "rank_at t ?ws (Suc j) < rank_at t ?ws i" if "i < Suc j" for i
      using that 2 le by (cases i) auto
    then show ?thesis using 2 le by (intro disjI2 exI [of _ "Suc j"]) auto
  qed
  then show ?case using all le by auto
qed auto

lemma bestPair_lowest: "bestPair t word = Some k \<Longrightarrow> lowest_pair t word k"
  using best_pair_loop_spec [OF refl, where t = t and k = 0 and ws = word and best = "(no_rank, None)"]
  by (auto simp: bestPair_def lowest_pair_def)

lemma bestPair_none: "bestPair t word = None \<Longrightarrow> \<not> lowest_pair t word k"
  using best_pair_loop_spec [OF refl, where t = t and k = 0 and ws = word and best = "(no_rank, None)"]
  by (fastforce simp: bestPair_def lowest_pair_def)

lemma bpe_step_concat: "rtranclp (bpe_step t) w w' \<Longrightarrow> concat w' = concat w"
  by (induction rule: rtranclp_induct) (auto simp: concat_merge_at lowest_pair_def elim: bpe_stepE)

lemma short_no_step: "length w < 2 \<Longrightarrow> \<not> bpe_step t w w'"
  by (auto simp: lowest_pair_def elim!: bpe_stepE)

lemma bpe_loop_normal:
  "rtranclp (bpe_step t) word (bpe_loop t word) \<and> \<not> bpe_step t (bpe_loop t word) w"
proof (induction t word rule: bpe_loop.induct)
  case (1 t word)
  show ?case
  proof (cases "2 \<le> length word")
    case True
    show ?thesis
    proof (cases "bestPair t word")
      case None
      then have "bpe_loop t word = word" using True by (subst bpe_loop.simps) simp
      then show ?thesis using bestPair_none [OF None] by (auto elim: bpe_stepE)
    next
      case (Some k)
      then have step: "bpe_step t word (merge_at k word)" by (intro bpe_step.merge bestPair_lowest)
      have "bpe_loop t word = (if length (merge_at k word) = 1 then merge_at k word else bpe_loop t (merge_at k word))"
        using True Some by (subst bpe_loop.simps) (simp add: Let_def)
      then show ?thesis using step 1 [OF True Some refl] short_no_step [of "merge_at k word"]
        by (auto intro: converse_rtranclp_into_rtranclp)
    qed
  next
    case False
    then show ?thesis using short_no_step [of word] by (subst (1 2) bpe_loop.simps) simp
  qed
qed

lemma bpeMerge_steps: "rtranclp (bpe_step t) chars (bpeMerge t chars)"
  using bpe_loop_normal by (simp add: bpeMerge_def)

text \<open>
  C18. Merging is the reference reduction run to the end: the result is reached by steps that each merge
  the leftmost pair of lowest rank, no further step is possible, and the bytes are unchanged.
\<close>

theorem bpe_normal_form:
  "rtranclp (bpe_step t) chars (bpeMerge t chars) \<and> \<not> bpe_step t (bpeMerge t chars) word \<and>
   concat (bpeMerge t chars) = concat chars"
  using bpe_loop_normal bpeMerge_steps short_no_step [of chars] concat_bpeMerge by (auto simp: bpeMerge_def)

subsection \<open>The spans of a text\<close>

definition span_bytes :: "bytes \<Rightarrow> span \<Rightarrow> bytes" where
  "span_bytes s sp = take (sp_end sp - sp_begin sp) (drop (sp_begin sp) s)"

lemma token_at_Some:
  "token_at t s pos = Some a \<Longrightarrow> a \<in> set (tk_added t) \<and> length (at_content a) \<le> length s - pos \<and>
     take (length (at_content a)) (drop pos s) = at_content a"
  by (auto simp: token_at_def find_Some_iff)

lemma gap_end_bounds: "x \<le> length s \<Longrightarrow> x \<le> gap_end t s x \<and> gap_end t s x \<le> length s"
proof (induction t s x rule: gap_end.induct)
  case (1 t s x)
  then show ?case by (subst (1 2) gap_end.simps) (auto dest: Suc_leD)
qed

lemma gap_end_moves: "token_at t s x = None \<Longrightarrow> x < length s \<Longrightarrow> x < gap_end t s x"
  using gap_end_bounds [of "Suc x" s t] by (subst gap_end.simps) (simp add: less_eq_Suc_le)

lemma take_drop_split:
  "a \<le> b \<Longrightarrow> b \<le> length s \<Longrightarrow> take (b - a) (drop a s) @ drop b s = drop a s"
  using append_take_drop_id [of "b - a" "drop a s"] by (simp add: add.commute)

definition tokens_nonempty :: "tokenizer \<Rightarrow> bool" where
  "tokens_nonempty t \<longleftrightarrow> list_all (\<lambda>a. at_content a \<noteq> []) (tk_added t)"

text \<open>A span of an added token holds the token, any other is not empty.\<close>

definition span_ok :: "tokenizer \<Rightarrow> bytes \<Rightarrow> span \<Rightarrow> bool" where
  "span_ok t s sp \<longleftrightarrow>
     (if sp_added sp then list_ex (\<lambda>a. sp_id sp = at_id a \<and> span_bytes s sp = at_content a) (tk_added t)
      else sp_begin sp < sp_end sp)"

lemma text_spans_partition:
  assumes "tokens_nonempty t" "pos \<le> length s"
  shows "\<exists>spans. text_spans t s pos = Some spans \<and> concat (map (span_bytes s) spans) = drop pos s \<and> list_all (span_ok t s) spans"
  using assms(2)
proof (induction "length s - pos" arbitrary: pos rule: less_induct)
  case less
  show ?case
  proof (cases "pos < length s")
    case True
    define next_pos where "next_pos = (case token_at t s pos of Some a \<Rightarrow> pos + length (at_content a) | None \<Rightarrow> gap_end t s pos)"
    define sp where "sp = (case token_at t s pos of
      Some a \<Rightarrow> \<lparr>sp_added = True, sp_id = at_id a, sp_begin = pos, sp_end = pos + length (at_content a)\<rparr>
    | None \<Rightarrow> \<lparr>sp_added = False, sp_id = -1, sp_begin = pos, sp_end = gap_end t s pos\<rparr>)"
    have eq: "text_spans t s pos = Option.bind (text_spans t s next_pos) (\<lambda>spans. Some (sp # spans))"
      using True by (subst text_spans.simps) (simp add: next_pos_def sp_def split: option.split)
    have adv: "pos < next_pos" "next_pos \<le> length s"
      using True token_at_Some [of t s pos] assms(1) gap_end_moves [of t s pos] gap_end_bounds [of pos s t]
      by (auto simp: next_pos_def tokens_nonempty_def list_all_iff split: option.split)
    have here: "span_ok t s sp"
      using token_at_Some [of t s pos] gap_end_moves [of t s pos] True
      by (auto simp: sp_def span_ok_def span_bytes_def list_ex_iff split: option.split)
    have range: "sp_begin sp = pos" "sp_end sp = next_pos" by (simp_all add: sp_def next_pos_def split: option.split)
    have "length s - next_pos < length s - pos" using adv by linarith
    from less.hyps [OF this adv(2)] obtain spans where IH: "text_spans t s next_pos = Some spans"
      "concat (map (span_bytes s) spans) = drop next_pos s" "list_all (span_ok t s) spans" by blast
    have "concat (map (span_bytes s) (sp # spans)) = drop pos s"
      using take_drop_split [of pos next_pos s] adv IH(2) range by (simp add: span_bytes_def)
    then show ?thesis using eq IH(1,3) here by auto
  qed (subst text_spans.simps, simp)
qed

lemma empty_token_loops:
  assumes "s \<noteq> []" "token_at t s 0 = Some a" "at_content a = []"
  shows "text_spans t s 0 = None"
proof (cases "text_spans t s 0")
  case (Some spans)
  have "text_spans t s 0 = Option.bind (text_spans t s 0)
      (\<lambda>spans. Some (\<lparr>sp_added = True, sp_id = at_id a, sp_begin = 0, sp_end = 0\<rparr> # spans))"
    using assms by (subst text_spans.simps) simp
  then show ?thesis using Some by simp
qed

definition one_token :: "bytes \<Rightarrow> tokenizer" where
  "one_token c = NativeBpeTokenizer\<lparr>tk_added := [\<lparr>at_content = c, at_id = 7\<rparr>]\<rparr>"

text \<open>
  C26. Encoding ends for every text when no added token is empty; when an empty one matches first where
  the text begins, the splitting loop never ends.
\<close>

theorem encode_ends:
  "(tokens_nonempty t \<longrightarrow> encode t s addSpecial \<noteq> None) \<and>
   (s \<noteq> [] \<and> (\<exists>a. token_at u s 0 = Some a \<and> at_content a = []) \<longrightarrow> encode u s addSpecial = None)"
  using text_spans_partition [of t 0 s] empty_token_loops [of s u] by (auto simp: encode_def)

lemma encode_ends_witness:
  "encode (one_token [60]) [60, 61] True \<noteq> None \<and> encode (one_token []) [60, 61] True = None"
  using encode_ends [of "one_token [60]" "[60, 61]" True "one_token []"]
  by (simp add: tokens_nonempty_def one_token_def token_at_def)

subsection \<open>Decoding undoes encoding\<close>

abbreviation byte_chars_of :: "bytes \<Rightarrow> bytes" where
  "byte_chars_of bs \<equiv> concat (map byte_char bs)"

lemma byte_char_nonempty: "byte_char b \<noteq> []"
  by (simp add: byte_char_def utf8Append_nonempty)

lemma token_bytes_chars: "token_bytes (byte_chars_of bs) = bs"
proof (induction bs)
  case (Cons b bs)
  obtain c cs where c: "byte_char b = c # cs" using byte_char_nonempty by (cases "byte_char b") auto
  have "cp_front c (cs @ byte_chars_of bs) = (byteToCp ! unat b, Suc (length cs))"
    using byte_char_front [OF c] by (simp add: c)
  then have "token_bytes (byte_chars_of (b # bs)) = [b] @ token_bytes (drop (Suc (length cs)) (c # cs @ byte_chars_of bs))"
    using cp_byte_byteToCp [of b] by (simp add: c)
  also have "drop (Suc (length cs)) (c # cs @ byte_chars_of bs) = byte_chars_of bs" by simp
  finally show ?case using Cons by simp
qed simp

text \<open>What the round trip asks of the tables.\<close>

definition vocab_inverse :: "tokenizer \<Rightarrow> bool" where
  "vocab_inverse t \<longleftrightarrow> list_all (\<lambda>(p, i). 0 \<le> i \<and> nat i < length (tk_vocabById t) \<and> tk_vocabById t ! nat i = p) (tk_vocab t)"

definition merges_closed :: "tokenizer \<Rightarrow> bool" where
  "merges_closed t \<longleftrightarrow> (\<forall>a \<in> fst ` set (tk_vocab t). \<forall>b \<in> fst ` set (tk_vocab t).
     merge_rank t a b < no_rank \<longrightarrow> a @ b \<in> fst ` set (tk_vocab t))"

definition ids_apart :: "tokenizer \<Rightarrow> bool" where
  "ids_apart t \<longleftrightarrow> distinct (map at_id (tk_added t)) \<and>
     list_all (\<lambda>a. at_id a \<notin> snd ` set (tk_vocab t)) (tk_added t)"

definition tokenizer_ok :: "tokenizer \<Rightarrow> bool" where
  "tokenizer_ok t \<longleftrightarrow> tokens_nonempty t \<and> vocab_inverse t \<and> merges_closed t \<and> ids_apart t \<and>
     (\<forall>b. byte_char b \<in> fst ` set (tk_vocab t))"

lemma merge_at_map: "Suc k < length bss \<Longrightarrow> (\<And>a b. f (a @ b) = f a @ f b) \<Longrightarrow>
    merge_at k (map f bss) = map f (merge_at k bss)"
  by (simp add: merge_at_def take_map drop_map)

lemma set_merge_at: "Suc k < length w \<Longrightarrow> set (merge_at k w) \<subseteq> insert (w ! k @ w ! Suc k) (set w)"
  by (auto simp: merge_at_def dest: in_set_takeD in_set_dropD)

text \<open>A word reached by merging is the byte characters of a partition of the chunk, all of them in the vocabulary.\<close>

lemma merged_word:
  assumes "tokenizer_ok t" "rtranclp (bpe_step t) (map byte_char chunk) word"
  shows "\<exists>bss. word = map byte_chars_of bss \<and> concat bss = chunk \<and> set word \<subseteq> fst ` set (tk_vocab t)"
  using assms(2)
proof (induction rule: rtranclp_induct)
  case base
  have "map byte_char chunk = map byte_chars_of (map (\<lambda>b. [b]) chunk)" "concat (map (\<lambda>b. [b]) chunk) = chunk" by simp_all
  then show ?case using assms(1) unfolding tokenizer_ok_def by (intro exI [of _ "map (\<lambda>b. [b]) chunk"]) auto
next
  case (step w w')
  then obtain bss where w: "w = map byte_chars_of bss" "concat bss = chunk" "set w \<subseteq> fst ` set (tk_vocab t)" by blast
  obtain k where k: "lowest_pair t w k" "w' = merge_at k w" using step.hyps(2) by (auto elim: bpe_stepE)
  then have len: "Suc k < length w" by (simp add: lowest_pair_def)
  have "w ! k \<in> fst ` set (tk_vocab t)" "w ! Suc k \<in> fst ` set (tk_vocab t)"
    using len nth_mem [of k w] nth_mem [of "Suc k" w] w(3) by (meson Suc_lessD subsetD)+
  moreover have "rank_at t w k < no_rank" using k(1) by (simp only: lowest_pair_def)
  moreover have "merges_closed t" using assms(1) by (simp only: tokenizer_ok_def)
  ultimately have "w ! k @ w ! Suc k \<in> fst ` set (tk_vocab t)" by (simp only: merges_closed_def)
  then have "set w' \<subseteq> fst ` set (tk_vocab t)" using set_merge_at [OF len] w(3) k(2) by auto
  moreover have "w' = map byte_chars_of (merge_at k bss)" using len w(1) k(2) by (simp add: merge_at_map)
  moreover have "concat (merge_at k bss) = chunk" using len w by (simp add: concat_merge_at)
  ultimately show ?case by blast
qed

lemma vocab_id_bytes:
  assumes "tokenizer_ok t" "(p, i) \<in> set (tk_vocab t)"
  shows "id_bytes t False i = token_bytes p"
proof -
  have "0 \<le> i" "nat i < length (tk_vocabById t)" "tk_vocabById t ! nat i = p"
    using assms by (auto simp: tokenizer_ok_def vocab_inverse_def list_all_iff)
  moreover have "i \<in> snd ` set (tk_vocab t)" using assms(2) by force
  then have "at_id a \<noteq> i" if "a \<in> set (tk_added t)" for a
    using assms(1) that by (auto simp: tokenizer_ok_def ids_apart_def list_all_iff)
  then have "i \<notin> at_id ` set (tk_added t)" by blast
  then have "specials t i = None" by (auto simp: specials_def map_of_eq_None_iff)
  ultimately show ?thesis by (simp add: id_bytes_def)
qed

lemma added_id_bytes:
  assumes "tokenizer_ok t" "a \<in> set (tk_added t)"
  shows "id_bytes t False (at_id a) = at_content a"
proof -
  have "distinct (map fst (rev (map (\<lambda>a. (at_id a, at_content a)) (tk_added t))))"
    using assms(1) by (simp add: tokenizer_ok_def ids_apart_def rev_map comp_def distinct_map)
  then have "specials t (at_id a) = Some (at_content a)"
    unfolding specials_def using assms(2) by (intro map_of_is_SomeI) auto
  then show ?thesis by (simp add: id_bytes_def)
qed

abbreviation ids_bytes :: "tokenizer \<Rightarrow> int list \<Rightarrow> bytes" where
  "ids_bytes t ids \<equiv> concat (map (id_bytes t False) ids)"

lemma ids_bytes_concat: "ids_bytes t (concat (map f xs)) = concat (map (\<lambda>x. ids_bytes t (f x)) xs)"
  by (induction xs) simp_all

lemma chunk_bytes:
  assumes "tokenizer_ok t"
  shows "ids_bytes t (encodeChunk t chunk) = chunk"
proof -
  obtain bss where bss: "bpeMerge t (map byte_char chunk) = map byte_chars_of bss" "concat bss = chunk"
      "set (bpeMerge t (map byte_char chunk)) \<subseteq> fst ` set (tk_vocab t)"
    using merged_word [OF assms bpeMerge_steps] by blast
  have piece: "ids_bytes t (piece_ids t (byte_chars_of bs)) = bs" if "bs \<in> set bss" for bs
  proof -
    have "byte_chars_of bs \<in> fst ` set (tk_vocab t)" using that bss by auto
    then obtain i where i: "map_of (tk_vocab t) (byte_chars_of bs) = Some i" by (metis map_of_eq_None_iff not_None_eq)
    then show ?thesis using vocab_id_bytes [OF assms map_of_SomeD [OF i]] by (simp add: piece_ids_def token_bytes_chars)
  qed
  have "ids_bytes t (encodeChunk t chunk) = concat (map (\<lambda>bs. ids_bytes t (piece_ids t (byte_chars_of bs))) bss)"
    by (simp add: encodeChunk_def bss(1) ids_bytes_concat comp_def)
  also have "\<dots> = concat (map (\<lambda>bs. bs) bss)" using piece by (metis (mono_tags, lifting) map_eq_conv)
  finally show ?thesis using bss(2) by simp
qed

lemma span_ids_bytes:
  assumes "tokenizer_ok t" "span_ok t s sp"
  shows "ids_bytes t (span_ids t s sp) = span_bytes s sp"
proof (cases "sp_added sp")
  case True
  then obtain a where "a \<in> set (tk_added t)" "sp_id sp = at_id a" "span_bytes s sp = at_content a"
    using assms(2) by (auto simp: span_ok_def list_ex_iff)
  then show ?thesis using True added_id_bytes [OF assms(1)] by (simp add: span_ids_def)
next
  case False
  then have "span_ids t s sp = concat (map (encodeChunk t) (preTokenize (span_bytes s sp)))"
    using assms(2) by (simp add: span_ids_def span_ok_def span_bytes_def)
  then show ?thesis using preTokenize_parts(1) [of "span_bytes s sp"]
    by (simp add: ids_bytes_concat chunk_bytes [OF assms(1)])
qed

lemma encode_bytes:
  assumes "tokenizer_ok t"
  shows "\<exists>ids. encode t s False = Some ids \<and> ids_bytes t ids = s"
proof -
  have "tokens_nonempty t" using assms by (simp only: tokenizer_ok_def)
  then obtain spans where sp: "text_spans t s 0 = Some spans" "concat (map (span_bytes s) spans) = s" "list_all (span_ok t s) spans"
    using text_spans_partition [of t 0 s] by auto
  have "map (\<lambda>sp. ids_bytes t (span_ids t s sp)) spans = map (span_bytes s) spans"
    using span_ids_bytes [OF assms] sp(3) by (simp add: list_all_iff)
  then have "ids_bytes t (concat (map (span_ids t s) spans)) = s" by (simp only: ids_bytes_concat sp(2))
  then show ?thesis using sp(1) by (simp add: encode_def with_eos_def)
qed

text \<open>
  C16. The round trip: with a vocabulary that is inverted by its table, holds every byte character and
  is closed under its merges, and with added tokens that are non-empty and have ids of their own,
  decoding what \<open>encode\<close> returns gives back the text, byte for byte when it is well-formed UTF-8 and
  with its malformed bytes replaced otherwise.
\<close>

theorem decode_encode:
  assumes "tokenizer_ok t"
  shows "\<exists>ids. encode t s False = Some ids \<and> decode t ids False = utf8_repair s \<and>
    (valid_utf8 s \<longrightarrow> decode t ids False = s)"
proof -
  obtain ids where "encode t s False = Some ids" "ids_bytes t ids = s" using encode_bytes [OF assms] by blast
  then show ?thesis using repair_valid [of s] by (intro exI [of _ ids]) (simp add: decode_def)
qed

text \<open>A tokenizer with the byte characters, one merge and one added token.\<close>

definition demo_vocab :: "(bytes \<times> int) list" where
  "demo_vocab = map (\<lambda>n. (byte_char (word_of_nat n), int n)) [0..<256] @ [([104, 105], 256)]"

definition demo_tokenizer :: tokenizer where
  "demo_tokenizer = \<lparr>tk_vocabSize = 257, tk_bosId = -1, tk_eosId = 300, tk_vocab = demo_vocab,
     tk_vocabById = map fst demo_vocab, tk_merges = [([104, 32, 105], 0)],
     tk_added = [\<lparr>at_content = [60, 101, 62], at_id = 300\<rparr>]\<rparr>"

lemma demo_ids: "(p, i) \<in> set demo_vocab \<Longrightarrow> 0 \<le> i \<and> nat i < 257 \<and> map fst demo_vocab ! nat i = p"
  by (auto simp: demo_vocab_def nth_append)

lemma demo_merge: "merge_rank demo_tokenizer a b < no_rank \<Longrightarrow> a @ b = [104, 105]"
  by (auto simp: merge_rank_def demo_tokenizer_def no_rank_def append_eq_Cons_conv append_eq_append_conv2 Cons_eq_append_conv
      split: if_splits)

lemma demo_ok: "tokenizer_ok demo_tokenizer"
proof -
  have "vocab_inverse demo_tokenizer"
    using demo_ids by (auto simp: vocab_inverse_def list_all_iff demo_tokenizer_def demo_vocab_def nth_append)
  moreover have "merges_closed demo_tokenizer"
    using demo_merge unfolding merges_closed_def by (force simp: demo_tokenizer_def demo_vocab_def)
  moreover have "ids_apart demo_tokenizer"
    using demo_ids by (fastforce simp: ids_apart_def demo_tokenizer_def)
  moreover have "byte_char b \<in> fst ` set (tk_vocab demo_tokenizer)" for b
  proof -
    have "byte_char b = byte_char (word_of_nat (unat b))" "unat b \<in> set [0..<256]" using byte_lt [of b] by simp_all
    then show ?thesis by (simp only: demo_tokenizer_def tokenizer.simps demo_vocab_def set_append set_map image_Un image_image)
        (metis (no_types, lifting) UnI1 fst_conv image_eqI)
  qed
  ultimately show ?thesis by (simp add: tokenizer_ok_def tokens_nonempty_def demo_tokenizer_def)
qed

lemma decode_encode_witness:
  "\<exists>ids. encode demo_tokenizer [104, 105, 60, 101, 62, 0xC3] False = Some ids \<and>
     decode demo_tokenizer ids False = utf8_repair [104, 105, 60, 101, 62, 0xC3]"
  using decode_encode [OF demo_ok] by blast

subsection \<open>What loading establishes\<close>

lemma load_vocab_distinct:
  "load_vocab cv kvs v = Some v' \<Longrightarrow> distinct (map fst v) \<Longrightarrow> distinct (map fst v')"
  by (induction cv kvs v rule: load_vocab.induct) (auto split: bind_splits simp: distinct_update)

lemma length_id_table: "length (id_table kvs n) = n"
proof -
  have "length (foldl (\<lambda>tab (k, i). if 0 \<le> i \<and> i < int (length tab) then tab[nat i := k] else tab) tab kvs) = length tab"
    for tab :: "bytes list" by (induction kvs arbitrary: tab) auto
  then show ?thesis by (simp add: id_table_def)
qed

lemma id_table_inverse:
  assumes "distinct (map snd kvs)" "(p, i) \<in> set kvs" "0 \<le> i" "i < int n"
  shows "id_table kvs n ! nat i = p"
proof -
  let ?step = "\<lambda>tab (k, i). if 0 \<le> i \<and> i < int (length tab) then tab[nat i := k] else tab"
  have keep: "i \<notin> snd ` set kvs \<Longrightarrow> foldl ?step tab kvs ! nat i = tab ! nat i" for tab :: "bytes list" and kvs
    using assms(3) by (induction kvs arbitrary: tab) (auto simp: nth_list_update split: if_splits)
  have "i < int (length tab) \<Longrightarrow> foldl ?step tab kvs ! nat i = p" for tab :: "bytes list"
    using assms(1,2)
  proof (induction kvs arbitrary: tab)
    case (Cons kv kvs)
    show ?case
    proof (cases "kv = (p, i)")
      case True
      then have "i \<notin> snd ` set kvs" using Cons.prems(2) by auto
      then show ?thesis using keep [of kvs "?step tab (p, i)"] True Cons.prems(1) assms(3) by simp
    next
      case False
      moreover have "length (?step tab kv) = length tab" by (auto split: prod.split)
      ultimately show ?thesis using Cons.IH [of "?step tab kv"] Cons.prems by auto
    qed
  qed simp
  from this [of "replicate n []"] show ?thesis using assms(4) by (simp add: id_table_def)
qed

lemma strict_weak_added: "strict_weak added_less A"
  by (auto simp: strict_weak_def added_less_def split: if_splits)

lemma sorted_added: "sorted_wrt (\<lambda>a b. \<not> added_less b a) (stable_sort added_less as)"
  by (rule stable_sort_sorted [OF strict_weak_added])

lemma find_first:
  "List.find P xs = Some a \<Longrightarrow> sorted_wrt R xs \<Longrightarrow> b \<in> set xs \<Longrightarrow> P b \<Longrightarrow> b = a \<or> R a b"
  by (induction xs) (auto split: if_splits)

text \<open>The state \<open>load\<close> reaches on success, stage by stage.\<close>

lemma tk_load_success:
  assumes "tk_load files parse parsed num_text cv order jp cp NativeBpeTokenizer = Some (True, t)"
  obtains kvs as where "load_vocab cv kvs [] = Some (tk_vocab t)" "tk_vocabSize t = int (length (tk_vocab t))"
    "tk_vocabById t = id_table (order (tk_vocab t)) (length (tk_vocab t))" "tk_added t = stable_sort added_less as"
    "0 < tk_vocabSize t"
proof -
  have "\<exists>m vocabV t1 obj t2. load_model num_text cv order m vocabV NativeBpeTokenizer = Some t1 \<and>
      load_added_tokens num_text cv obj t1 = Some t2 \<and> tk_vocab t = tk_vocab t2 \<and> tk_vocabSize t = tk_vocabSize t2 \<and>
      tk_vocabById t = tk_vocabById t2 \<and> tk_added t = tk_added t2 \<and> 0 < tk_vocabSize t"
    using assms unfolding tk_load_def
    by (auto simp: Let_def split: option.splits json.splits if_splits bind_splits; blast)
  then obtain m vocabV t1 obj t2 where t: "load_model num_text cv order m vocabV NativeBpeTokenizer = Some t1"
    "tk_vocab t = tk_vocab t2" "tk_vocabSize t = tk_vocabSize t2" "tk_vocabById t = tk_vocabById t2" "tk_added t = tk_added t2"
    "0 < tk_vocabSize t" "load_added_tokens num_text cv obj t1 = Some t2" by blast
  obtain kvs where kvs: "load_vocab cv kvs [] = Some (tk_vocab t1)" "tk_vocabSize t1 = int (length (tk_vocab t1))"
    "tk_vocabById t1 = id_table (order (tk_vocab t1)) (length (tk_vocab t1))" "tk_added t1 = []"
    using t(1) by (auto simp: load_model_def Let_def NativeBpeTokenizer_def split: option.splits bind_splits)
  obtain as where "tk_vocab t2 = tk_vocab t1" "tk_vocabSize t2 = tk_vocabSize t1" "tk_vocabById t2 = tk_vocabById t1"
    "tk_added t2 = stable_sort added_less as"
  proof (cases "obj_find ''added_tokens'' obj")
    case None
    then show thesis using t(7) kvs(4) that [of "[]"] by (simp add: load_added_tokens_def stable_sort_def)
  next
    case (Some v)
    then show thesis using t(7) that by (auto simp: load_added_tokens_def split: bind_splits)
  qed
  then show thesis using that [of kvs as] kvs t(2-6) by simp
qed

abbreviation matches_at :: "bytes \<Rightarrow> nat \<Rightarrow> added_token \<Rightarrow> bool" where
  "matches_at s pos a \<equiv> length (at_content a) \<le> length s - pos \<and> take (length (at_content a)) (drop pos s) = at_content a"

text \<open>
  A successful \<open>load\<close> establishes what the coders rely on: the tokenizer counts as loaded, whatever
  the iteration order of the hash map the table inverts a vocabulary whose ids are distinct and dense,
  and at every position the longest added token wins.
\<close>

theorem load_establishes:
  assumes "tk_load files parse parsed num_text cv order jp cp NativeBpeTokenizer = Some (True, t)"
    and "mset (order (tk_vocab t)) = mset (tk_vocab t)"
    and "distinct (map snd (tk_vocab t))" "snd ` set (tk_vocab t) \<subseteq> {0..<int (length (tk_vocab t))}"
  shows "isLoaded t \<and> vocab_inverse t \<and>
    (token_at t s pos = Some a \<and> b \<in> set (tk_added t) \<and> matches_at s pos b \<longrightarrow>
      length (at_content b) \<le> length (at_content a))"
  using assms(1)
proof (rule tk_load_success)
  fix kvs as
  assume l: "load_vocab cv kvs [] = Some (tk_vocab t)" "tk_vocabSize t = int (length (tk_vocab t))"
    "tk_vocabById t = id_table (order (tk_vocab t)) (length (tk_vocab t))" "tk_added t = stable_sort added_less as"
    "0 < tk_vocabSize t"
  have o: "set (order (tk_vocab t)) = set (tk_vocab t)" "distinct (map snd (order (tk_vocab t)))"
    using mset_eq_setD [OF assms(2)] assms(3) mset_eq_imp_distinct_iff [of "map snd (order (tk_vocab t))" "map snd (tk_vocab t)"]
    by (simp_all add: assms(2))
  have "vocab_inverse t"
    using id_table_inverse [OF o(2)] assms(4) unfolding vocab_inverse_def list_all_iff l(3) length_id_table o(1)
    by fastforce
  moreover have "length (at_content b) \<le> length (at_content a)"
    if "token_at t s pos = Some a" "b \<in> set (tk_added t)" "matches_at s pos b"
  proof -
    have "b = a \<or> \<not> added_less b a"
      by (rule find_first [OF that(1) [unfolded token_at_def]]) (use sorted_added [of as] that(2,3) l(4) in simp_all)
    then show ?thesis by (auto simp: added_less_def split: if_splits)
  qed
  ultimately show ?thesis using l(5) by (simp add: isLoaded_def)
qed

definition demo_json :: json where
  "demo_json = JObject
     [(''added_tokens'', JArray [JObject [(''content'', JString ''<''), (''id'', JNumber 2)],
        JObject [(''content'', JString ''<s>''), (''id'', JNumber 3)]]),
      (''model'', JObject [(''type'', JString ''BPE''), (''vocab'', JObject [(''a'', JNumber 1), (''b'', JNumber 0)])])]"

definition demo_loaded :: tokenizer where
  "demo_loaded = \<lparr>tk_vocabSize = 2, tk_bosId = 3, tk_eosId = -1, tk_vocab = [([97], 1), ([98], 0)],
     tk_vocabById = [[98], [97]], tk_merges = [],
     tk_added = [\<lparr>at_content = [60, 115, 62], at_id = 3\<rparr>, \<lparr>at_content = [60], at_id = 2\<rparr>]\<rparr>"

lemma demo_load:
  "tk_load (\<lambda>_. Some []) (\<lambda>_. Some demo_json) (\<lambda>_. JNull) (\<lambda>_. []) \<lparr>oor_int = \<lambda>_. 0, oor_u64 = \<lambda>_. 0\<rparr> rev
     ''t'' [] NativeBpeTokenizer = Some (True, demo_loaded)"
  by (simp add: tk_load_def demo_json_def as_object_def obj_find_def to_str_def load_model_def load_vocab.simps as_int_def
      d2i_def rat_trunc_def Let_def chars_bytes_def NativeBpeTokenizer_def id_table_def load_added_tokens_def as_array_def
      load_added.simps stable_sort_def added_less_def load_specials_def default_specials_def demo_loaded_def nth_list_update)

lemma load_establishes_witness:
  "isLoaded demo_loaded \<and> vocab_inverse demo_loaded \<and> token_at demo_loaded [60, 115, 62] 0 \<noteq> None"
  using load_establishes [OF demo_load] by (simp add: demo_loaded_def token_at_def)

end
