(* ===== verification/Sampler.thy ===== *)
theory Sampler
  imports StdAlgo
begin

text \<open>
  \<open>compute/sampler.h\<close>: the logits filters and the categorical draw. A buffer of \<open>vocab\<close> logits is a
  list; with an empty one the code dereferences the end of the range, which is \<^const>\<open>None\<close> here. The
  orders \<open>std::sort\<close> and \<open>std::nth_element\<close> produce, \<open>libm\<close> and the random source are parameters:
  \<open>draw\<close> takes the state of the generator to a number in \<open>[0, 1)\<close> and its next state.
\<close>

definition masked :: f32 where "masked = 0xF149F2CA"

type_synonym nth_element = "(f32 \<Rightarrow> f32 \<Rightarrow> bool) \<Rightarrow> nat \<Rightarrow> f32 list \<Rightarrow> f32 list"

type_synonym index_sort = "(nat \<Rightarrow> nat \<Rightarrow> bool) \<Rightarrow> nat \<Rightarrow> nat list \<Rightarrow> nat list"

type_synonym typical_sort = "((f32 \<times> nat) \<Rightarrow> (f32 \<times> nat) \<Rightarrow> bool) \<Rightarrow> nat \<Rightarrow> (f32 \<times> nat) list \<Rightarrow> (f32 \<times> nat) list"

definition max_element :: "f32 list \<Rightarrow> f32 option" where
  "max_element xs = (if xs = [] then None else Some (xs ! argmax xs))"

definition f32_sum :: "f32 list \<Rightarrow> f32" where
  "f32_sum xs = foldl f32_add f32_zero xs"

definition exps :: "libm \<Rightarrow> f32 \<Rightarrow> f32 list \<Rightarrow> f32 list" where
  "exps m maxVal logits = map (\<lambda>x. lm_exp m (f32_sub x maxVal)) logits"

subsection \<open>The filters\<close>

definition applyTemperature :: "f32 \<Rightarrow> f32 list \<Rightarrow> f32 list" where
  "applyTemperature temperature logits =
     (if f32_le temperature f32_zero \<or> f32_eq temperature f32_one then logits
      else let invT = f32_div f32_one temperature in map (\<lambda>x. f32_mul x invT) logits)"

definition applyTopK :: "nth_element \<Rightarrow> int \<Rightarrow> f32 list \<Rightarrow> f32 list" where
  "applyTopK nth_elt k logits =
     (if k \<le> 0 \<or> int (length logits) \<le> k then logits
      else
        let sorted = nth_elt (\<lambda>a b. f32_lt b a) (nat k - 1) logits;
            threshold = sorted ! (nat k - 1)
        in map (\<lambda>x. if f32_lt x threshold then masked else x) logits)"

fun top_p_mask :: "f32 list \<Rightarrow> f32 \<Rightarrow> f32 \<Rightarrow> nat list \<Rightarrow> f32 list \<Rightarrow> f32 list" where
  "top_p_mask probs p cum [] logits = logits"
| "top_p_mask probs p cum (idx # order) logits =
     (let cum = f32_add cum (probs ! idx) in
      top_p_mask probs p cum order (if f32_lt p cum then logits[idx := masked] else logits))"

definition top_p_probs :: "libm \<Rightarrow> f32 \<Rightarrow> f32 list \<Rightarrow> f32 list" where
  "top_p_probs m maxVal logits =
     (let es = exps m maxVal logits; s = f32_sum es;
          invSum = (if f32_lt f32_zero s then f32_div f32_one s else f32_one)
      in map (\<lambda>x. f32_mul x invSum) es)"

definition applyTopP :: "libm \<Rightarrow> index_sort \<Rightarrow> f32 \<Rightarrow> f32 list \<Rightarrow> f32 list option" where
  "applyTopP m srt p logits =
     (if f32_le f32_one p then Some logits
      else if f32_le p f32_zero then
        (if logits = [] then None
         else Some ((replicate (length logits) masked)[argmax logits := f32_zero]))
      else Option.bind (max_element logits) (\<lambda>maxVal.
        let probs = top_p_probs m maxVal logits;
            order = srt (\<lambda>a b. f32_lt (probs ! b) (probs ! a)) (length logits) [0..<length logits]
        in Some (top_p_mask probs p f32_zero order logits)))"

definition applyMinP :: "libm \<Rightarrow> f32 \<Rightarrow> f32 list \<Rightarrow> f32 list option" where
  "applyMinP m minP logits =
     (if f32_le minP f32_zero \<or> f32_le f32_one minP then Some logits
      else Option.bind (max_element logits) (\<lambda>maxVal.
        let threshold = f32_add maxVal (lm_log m minP)
        in Some (map (\<lambda>x. if f32_lt x threshold then masked else x) logits)))"

definition token_in :: "int \<Rightarrow> 'a list \<Rightarrow> bool" where
  "token_in t xs \<longleftrightarrow> 0 \<le> t \<and> t < int (length xs)"

definition applyRepetitionPenalty :: "f32 \<Rightarrow> int list \<Rightarrow> f32 list \<Rightarrow> f32 list" where
  "applyRepetitionPenalty penalty lastTokens logits =
     (if f32_le penalty f32_zero \<or> f32_eq penalty f32_one \<or> lastTokens = [] then logits
      else foldl (\<lambda>xs t. if token_in t xs then
             xs[nat t := (if f32_lt (xs ! nat t) f32_zero then f32_mul (xs ! nat t) penalty
                          else f32_div (xs ! nat t) penalty)] else xs) logits lastTokens)"

definition token_counts :: "nat \<Rightarrow> int list \<Rightarrow> nat list" where
  "token_counts vocab lastTokens =
     foldl (\<lambda>c t. if token_in t c then c[nat t := c ! nat t + 1] else c) (replicate vocab 0) lastTokens"

definition applyFrequencyPenalty :: "f32 \<Rightarrow> int list \<Rightarrow> f32 list \<Rightarrow> f32 list" where
  "applyFrequencyPenalty penalty lastTokens logits =
     (if f32_le penalty f32_zero \<or> lastTokens = [] then logits
      else map2 (\<lambda>x c. if 0 < c then f32_sub x (f32_mul penalty (f32_of_int (int c))) else x)
             logits (token_counts (length logits) lastTokens))"

definition tokens_seen :: "nat \<Rightarrow> int list \<Rightarrow> bool list" where
  "tokens_seen vocab lastTokens =
     foldl (\<lambda>c t. if token_in t c then c[nat t := True] else c) (replicate vocab False) lastTokens"

definition applyPresencePenalty :: "f32 \<Rightarrow> int list \<Rightarrow> f32 list \<Rightarrow> f32 list" where
  "applyPresencePenalty penalty lastTokens logits =
     (if f32_le penalty f32_zero \<or> lastTokens = [] then logits
      else map2 (\<lambda>x seen. if seen then f32_sub x penalty else x) logits (tokens_seen (length logits) lastTokens))"

definition f32_fabs :: "f32 \<Rightarrow> f32" where
  "f32_fabs x = f32_mk False (f32_mag x)"

fun typical_cut :: "f32 list \<Rightarrow> f32 \<Rightarrow> f32 \<Rightarrow> (f32 \<times> nat) list \<Rightarrow> f32 list \<Rightarrow> f32 list" where
  "typical_cut probs p cum [] logits = logits"
| "typical_cut probs p cum (x # byTypical) logits =
     (let cum = f32_add cum (probs ! snd x) in
      if f32_lt p cum then foldl (\<lambda>xs y. xs[snd y := masked]) logits byTypical
      else typical_cut probs p cum byTypical logits)"

definition applyTypicalP :: "libm \<Rightarrow> typical_sort \<Rightarrow> f32 \<Rightarrow> f32 list \<Rightarrow> f32 list option" where
  "applyTypicalP m srt p logits =
     (if f32_le p f32_zero \<or> f32_le f32_one p then Some logits
      else Option.bind (max_element logits) (\<lambda>maxVal.
        let es = exps m maxVal logits; s = f32_sum es in
        if f32_le s f32_zero \<or> \<not> f32_isfinite s then Some logits
        else
          let invSum = f32_div f32_one s;
              probs = map (\<lambda>x. f32_mul x invSum) es;
              entropy = foldl (\<lambda>h q. if f32_lt f32_zero q then f32_sub h (f32_mul q (lm_log m q)) else h) f32_zero probs;
              typical = map (\<lambda>i. (f32_fabs (f32_sub (f32_minus (lm_log m (probs ! i))) entropy), i))
                (filter (\<lambda>i. \<not> f32_le (probs ! i) f32_zero) [0..<length probs]);
              byTypical = srt (\<lambda>a b. f32_lt (fst a) (fst b)) (length typical) typical
          in Some (typical_cut probs p f32_zero byTypical logits)))"

subsection \<open>The draw\<close>

fun draw_loop :: "f32 \<Rightarrow> f32 \<Rightarrow> nat \<Rightarrow> f32 list \<Rightarrow> nat" where
  "draw_loop r cum i [] = i - 1"
| "draw_loop r cum i (q # qs) =
     (let cum = f32_add cum q in if f32_le r cum then i else draw_loop r cum (Suc i) qs)"

text \<open>The tail both overloads share: probabilities, the argmax when they cannot be formed, the draw.\<close>

definition categorical :: "libm \<Rightarrow> ('g \<Rightarrow> f32 \<times> 'g) \<Rightarrow> 'g \<Rightarrow> f32 list \<Rightarrow> (nat \<times> 'g) option" where
  "categorical m draw g work =
     Option.bind (max_element work) (\<lambda>maxVal.
       let es = exps m maxVal work; s = f32_sum es in
       if f32_le s f32_zero \<or> \<not> f32_isfinite s then Some (argmax work, g)
       else
         let invSum = f32_div f32_one s;
             probs = map (\<lambda>x. f32_mul x invSum) es;
             (r, g) = draw g
         in Some (draw_loop r f32_zero 0 probs, g))"

definition sampleFromLogits6 :: "libm \<Rightarrow> nth_element \<Rightarrow> index_sort \<Rightarrow> ('g \<Rightarrow> f32 \<times> 'g) \<Rightarrow> f32 list \<Rightarrow> f32 \<Rightarrow> f32 \<Rightarrow> int \<Rightarrow>
    'g \<Rightarrow> (nat \<times> 'g) option" where
  "sampleFromLogits6 m nth_elt srt draw logits temperature topP topK g =
     Option.bind (applyTopP m srt topP (applyTopK nth_elt topK (applyTemperature temperature logits)))
       (categorical m draw g)"

definition sampleFromLogits12 :: "libm \<Rightarrow> nth_element \<Rightarrow> index_sort \<Rightarrow> typical_sort \<Rightarrow> ('g \<Rightarrow> f32 \<times> 'g) \<Rightarrow> f32 list \<Rightarrow>
    f32 \<Rightarrow> f32 \<Rightarrow> int \<Rightarrow> f32 \<Rightarrow> f32 \<Rightarrow> int list \<Rightarrow> f32 \<Rightarrow> f32 \<Rightarrow> f32 \<Rightarrow> 'g \<Rightarrow> (nat \<times> 'g) option" where
  "sampleFromLogits12 m nth_elt srt tsrt draw logits temperature topP topK minP repetitionPenalty lastTokens
     typicalP frequencyPenalty presencePenalty g =
     (let work = applyTopK nth_elt topK (applyTemperature temperature logits);
          work = applyRepetitionPenalty repetitionPenalty lastTokens work;
          work = applyFrequencyPenalty frequencyPenalty lastTokens work;
          work = applyPresencePenalty presencePenalty lastTokens work
      in Option.bind (applyMinP m minP work) (\<lambda>work.
         Option.bind (applyTypicalP m tsrt typicalP work) (\<lambda>work.
         Option.bind (applyTopP m srt topP work) (categorical m draw g))))"

definition sampleFromLogits10 :: "libm \<Rightarrow> nth_element \<Rightarrow> index_sort \<Rightarrow> typical_sort \<Rightarrow> ('g \<Rightarrow> f32 \<times> 'g) \<Rightarrow> f32 list \<Rightarrow>
    f32 \<Rightarrow> f32 \<Rightarrow> int \<Rightarrow> f32 \<Rightarrow> f32 \<Rightarrow> int list \<Rightarrow> 'g \<Rightarrow> (nat \<times> 'g) option" where
  "sampleFromLogits10 m nth_elt srt tsrt draw logits temperature topP topK minP repetitionPenalty lastTokens g =
     sampleFromLogits12 m nth_elt srt tsrt draw logits temperature topP topK minP repetitionPenalty lastTokens
       f32_zero f32_zero f32_zero g"

end
