(* ===== verification/SamplerProofs.thy ===== *)
theory SamplerProofs
  imports Sampler
begin

text \<open>
  What the filters and the draw of \<open>compute/sampler.h\<close> do: top-k keeps exactly the logits that fewer
  than \<open>k\<close> others beat, top-p can mask everything, disabled filters change nothing, the draw is the
  inverse of the cumulative distribution.
\<close>

subsection \<open>The contract of \<open>std::nth_element\<close>\<close>

locale nth_selector =
  fixes nth_elt :: "('a \<Rightarrow> 'a \<Rightarrow> bool) \<Rightarrow> nat \<Rightarrow> 'a list \<Rightarrow> 'a list"
  assumes nth_mset: "strict_weak lt (set xs) \<Longrightarrow> n < length xs \<Longrightarrow> mset (nth_elt lt n xs) = mset xs"
    and nth_before: "strict_weak lt (set xs) \<Longrightarrow> n < length xs \<Longrightarrow> i < n \<Longrightarrow> \<not> lt (nth_elt lt n xs ! n) (nth_elt lt n xs ! i)"
    and nth_after: "strict_weak lt (set xs) \<Longrightarrow> n < j \<Longrightarrow> j < length xs \<Longrightarrow> \<not> lt (nth_elt lt n xs ! j) (nth_elt lt n xs ! n)"
begin

lemma nth_length: "strict_weak lt (set xs) \<Longrightarrow> n < length xs \<Longrightarrow> length (nth_elt lt n xs) = length xs"
  by (metis nth_mset mset_eq_length)

lemma nth_in: "strict_weak lt (set xs) \<Longrightarrow> n < length xs \<Longrightarrow> nth_elt lt n xs ! n \<in> set xs"
  by (metis nth_length nth_mem nth_mset mset_eq_setD)

lemma nth_count: "strict_weak lt (set xs) \<Longrightarrow> n < length xs \<Longrightarrow>
    length (filter P (nth_elt lt n xs)) = length (filter P xs)"
  by (metis nth_mset mset_filter size_mset)

end

text \<open>A partial sort of one more element selects the \<open>n\<close>-th, so a full sort does.\<close>

definition sort_nth :: "(('a \<Rightarrow> 'a \<Rightarrow> bool) \<Rightarrow> nat \<Rightarrow> 'a list \<Rightarrow> 'a list) \<Rightarrow> ('a \<Rightarrow> 'a \<Rightarrow> bool) \<Rightarrow> nat \<Rightarrow> 'a list \<Rightarrow> 'a list" where
  "sort_nth psort lt n xs = psort lt (Suc n) xs"

sublocale partial_sorter \<subseteq> nth: nth_selector "sort_nth psort"
  by unfold_locales (simp_all add: sort_nth_def psort_mset psort_order)

lemmas nth_sorted = stable.nth.nth_selector_axioms

interpretation snth: nth_selector "sort_nth stable_psort"
  by (rule nth_sorted)

subsection \<open>Top-k\<close>

lemma filter_prefix_count:
  assumes "n < length s" "\<And>i. i \<le> n \<Longrightarrow> P (s ! i)"
  shows "n < length (filter P s)"
proof -
  have "filter P (take (Suc n) s) = take (Suc n) s"
    using assms by (intro filter_True) (auto simp: in_set_conv_nth)
  then have "length (filter P s) = Suc n + length (filter P (drop (Suc n) s))"
    using assms(1) by (metis append_take_drop_id filter_append length_append length_take min.absorb2 Suc_leI)
  then show ?thesis by simp
qed

lemma filter_suffix_count:
  assumes "n \<le> length s" "\<And>i. n \<le> i \<Longrightarrow> i < length s \<Longrightarrow> \<not> P (s ! i)"
  shows "length (filter P s) \<le> n"
proof -
  have "filter P (drop n s) = []"
    using assms by (auto simp: filter_empty_conv in_set_conv_nth)
  then have "length (filter P s) = length (filter P (take n s))"
    by (metis append_Nil2 append_take_drop_id filter_append)
  also have "\<dots> \<le> n" using length_filter_le [of P "take n s"] by simp
  finally show ?thesis .
qed

text \<open>How many logits are strictly greater.\<close>

definition beaten_by :: "f32 list \<Rightarrow> f32 \<Rightarrow> nat" where
  "beaten_by logits x = length (filter (\<lambda>y. f32_lt x y) logits)"

lemma topk_threshold:
  assumes "nth_selector nth_elt" "list_all (\<lambda>x. \<not> f32_is_nan x) logits" "n < length logits" "x \<in> set logits"
  shows "f32_lt x (nth_elt (\<lambda>a b. f32_lt b a) n logits ! n) \<longleftrightarrow> n < beaten_by logits x"
proof -
  let ?lt = "\<lambda>a b. f32_lt b a" and ?s = "nth_elt (\<lambda>a b. f32_lt b a) n logits"
  have nn: "\<forall>x \<in> set logits. \<not> f32_is_nan x" using assms(2) by (simp add: list_all_iff)
  have weak: "strict_weak ?lt (set logits)" using strict_weak_f32_greater [of "set logits" "\<lambda>x. x"] nn by simp
  note nth_facts = nth_selector.nth_length [OF assms(1) weak assms(3)] nth_selector.nth_in [OF assms(1) weak assms(3)]
  have cnt: "length (filter (\<lambda>y. f32_lt x y) ?s) = beaten_by logits x"
    using nth_selector.nth_count [OF assms(1) weak assms(3)] by (simp add: beaten_by_def)
  have set_s: "y \<in> set ?s \<Longrightarrow> y \<in> set logits" for y
    using nth_selector.nth_mset [OF assms(1) weak assms(3)] by (metis mset_eq_setD)
  have num: "\<not> f32_is_nan (?s ! i)" if "i < length logits" for i
    using that nth_facts(1) nn set_s by (metis nth_mem)
  have hi: "f32_int (?s ! n) \<le> f32_int (?s ! i)" if "i \<le> n" for i
    using nth_selector.nth_before [OF assms(1) weak assms(3), of i] num [of i] num [of n] that assms(3)
    by (cases "i = n") (auto simp: f32_not_lt_iff)
  have lo: "f32_int (?s ! j) \<le> f32_int (?s ! n)" if "n \<le> j" "j < length logits" for j
    using nth_selector.nth_after [OF assms(1) weak, of n j] num [of j] num [of n] that assms(3)
    by (cases "j = n") (auto simp: f32_not_lt_iff)
  have x: "\<not> f32_is_nan x" using nn assms(4) by blast
  show ?thesis
  proof
    assume "f32_lt x (?s ! n)"
    then have "f32_lt x (?s ! i)" if "i \<le> n" for i
      using hi [OF that] num [of i] that assms(3) by (auto simp: f32_lt_def)
    then show "n < beaten_by logits x" using filter_prefix_count [of n ?s "\<lambda>y. f32_lt x y"] nth_facts(1) assms(3) cnt by simp
  next
    assume many: "n < beaten_by logits x"
    show "f32_lt x (?s ! n)"
    proof (rule ccontr)
      assume "\<not> f32_lt x (?s ! n)"
      then have "\<not> f32_lt x (?s ! j)" if "n \<le> j" "j < length logits" for j
        using lo [OF that] num [of n] x assms(3) by (auto simp: f32_lt_def)
      then have "beaten_by logits x \<le> n"
        using filter_suffix_count [of n ?s "\<lambda>y. f32_lt x y"] nth_facts(1) assms(3) cnt by simp
      then show False using many by simp
    qed
  qed
qed

text \<open>
  C21. The top-k filter keeps exactly the logits that fewer than \<open>k\<close> others beat, ties included, at
  their places and unchanged, and masks every other one, whatever order \<open>std::nth_element\<close> leaves.
\<close>

theorem top_k_keeps:
  assumes "nth_selector nth_elt" "list_all (\<lambda>x. \<not> f32_is_nan x) logits" "0 < k" "k < int (length logits)"
  shows "applyTopK nth_elt k logits = map (\<lambda>x. if int (beaten_by logits x) < k then x else masked) logits"
proof -
  have n: "nat k - 1 < length logits" using assms(3,4) by linarith
  have "nat k - 1 < beaten_by logits x \<longleftrightarrow> \<not> int (beaten_by logits x) < k" for x using assms(3) by linarith
  then show ?thesis
    using assms(3,4) topk_threshold [OF assms(1,2) n] by (auto simp: applyTopK_def Let_def)
qed

lemma top_k_keeps_witness:
  "applyTopK (sort_nth stable_psort) 2 [f32_zero, f32_one, f32_half, f32_half] = [masked, f32_one, f32_half, f32_half]"
proof -
  have "list_all (\<lambda>x. \<not> f32_is_nan x) [f32_zero, f32_one, f32_half, f32_half]" by simp
  from top_k_keeps [OF nth_sorted this, of 2] show ?thesis
    by (simp add: beaten_by_def f32_lt_def)
qed

subsection \<open>Top-p\<close>

lemma top_p_mask_all:
  assumes "list_all (\<lambda>i. f32_nonneg (probs ! i)) order" "f32_nonneg cum" "\<not> f32_is_nan p"
    and "order = [] \<or> f32_lt p (f32_add cum (probs ! hd order)) \<or> f32_lt p cum"
  shows "top_p_mask probs p cum order logits = foldl (\<lambda>xs i. xs[i := masked]) logits order"
  using assms
proof (induction order arbitrary: cum logits)
  case (Cons i order)
  let ?c = "f32_add cum (probs ! i)"
  have i: "f32_nonneg (probs ! i)" using Cons.prems(1) by simp
  have c: "f32_nonneg ?c" using Cons.prems(2) i by (rule f32_add_nonneg)
  have "f32_int cum \<le> f32_int ?c" by (rule f32_add_ge_left [OF Cons.prems(2) i])
  then have lt: "f32_lt p ?c" using Cons.prems(2,3,4) c by (auto simp: f32_lt_def f32_nonneg_def)
  have "top_p_mask probs p cum (i # order) logits = top_p_mask probs p ?c order (logits[i := masked])"
    using lt by (simp add: Let_def)
  also have "\<dots> = foldl (\<lambda>xs i. xs[i := masked]) (logits[i := masked]) order"
    using Cons.IH [of ?c] Cons.prems(1,3) c lt by simp
  finally show ?case by simp
qed simp

lemma length_mask_fold: "length (foldl (\<lambda>xs i. xs[i := x]) xs is) = length xs"
  by (induction "is" arbitrary: xs) simp_all

lemma nth_mask_fold:
  "j < length xs \<Longrightarrow> foldl (\<lambda>xs i. xs[i := x]) xs is ! j = (if j \<in> set is then x else xs ! j)"
  by (induction "is" arbitrary: xs) (auto simp: nth_list_update)

lemma mask_fold_all: "set is = {..<length xs} \<Longrightarrow> foldl (\<lambda>xs i. xs[i := x]) xs is = replicate (length xs) x"
  by (rule nth_equalityI) (simp_all add: length_mask_fold nth_mask_fold)

lemma masked_sub: "f32_sub masked masked = f32_zero"
  by (simp add: f32_sub_def f32_add_def f32_minus_def masked_def f32_is_nan_def f32_is_inf_def f32_mag_def f32_mk_def
      inf_mag_def f32_neg_bit_def f32_int_def f32_zero_def)

text \<open>
  When one token is more likely than \<open>p\<close>, the top-p filter masks every token, that one included,
  because the comparison with the running sum is made before the token is accounted as kept. All
  logits are then equal and the draw is uniform over the whole vocabulary.
\<close>

theorem top_p_masks_all:
  assumes "partial_sorter srt" "\<not> f32_le f32_one p" "\<not> f32_le p f32_zero"
    and "list_all f32_nonneg (top_p_probs m (logits ! argmax logits) logits)"
    and "list_ex (f32_lt p) (top_p_probs m (logits ! argmax logits) logits)"
  shows "applyTopP m srt p logits = Some (replicate (length logits) masked) \<and>
    exps m masked (replicate n masked) = replicate n (lm_exp m f32_zero)"
proof -
  define probs where "probs = top_p_probs m (logits ! argmax logits) logits"
  have len: "length probs = length logits" by (simp add: probs_def top_p_probs_def exps_def Let_def)
  have nn: "f32_nonneg (probs ! i)" if "i < length logits" for i
    using assms(4) that len by (simp add: probs_def [symmetric] list_all_length)
  obtain i where i: "i < length logits" "f32_lt p (probs ! i)"
    using assms(5) len by (auto simp: probs_def [symmetric] list_ex_length)
  let ?lt = "\<lambda>a b. f32_lt (probs ! b) (probs ! a)"
  define order where "order = srt ?lt (length logits) [0..<length logits]"
  have weak: "strict_weak ?lt (set [0..<length logits])"
    using nn by (intro strict_weak_f32_greater) (auto simp: f32_nonneg_def)
  have le: "length logits \<le> length [0..<length logits]" by simp
  have "set order = set [0..<length logits]" unfolding order_def by (rule partial_sorter.psort_set [OF assms(1) weak le])
  then have set_o: "set order = {..<length logits}" by (simp add: atLeast0LessThan)
  have "length order = length [0..<length logits]" unfolding order_def by (rule partial_sorter.psort_length [OF assms(1) weak le])
  then have len_o: "length order = length logits" by simp
  have "i \<in> set order" using i(1) set_o by simp
  then obtain j where j: "j < length logits" "order ! j = i" by (auto simp: in_set_conv_nth len_o)
  have "0 < length logits" using i(1) by linarith
  then have "order \<noteq> []" "0 < length order" using len_o by auto
  then have hd: "hd order = order ! 0" "order ! 0 < length logits"
    using len_o nth_mem [of 0 order] by (simp_all add: hd_conv_nth set_o)
  have "f32_int (probs ! i) \<le> f32_int (probs ! hd order)"
  proof (cases "j = 0")
    case True
    then show ?thesis using hd j by simp
  next
    case False
    then have "\<not> ?lt (order ! j) (order ! 0)"
      using partial_sorter.psort_order [OF assms(1) weak le, of 0 j] j(1) \<open>0 < length logits\<close>
      unfolding order_def by simp
    then show ?thesis using nn [OF i(1)] nn [OF hd(2)] hd(1) j(2) by (simp add: f32_lt_def f32_nonneg_def)
  qed
  moreover have "f32_int (probs ! hd order) \<le> f32_int (f32_add f32_zero (probs ! hd order))"
    using nn [OF hd(2)] hd(1) by (intro f32_add_ge_right) simp_all
  moreover have "f32_nonneg (f32_add f32_zero (probs ! hd order))" using nn [OF hd(2)] hd(1) by (intro f32_add_nonneg) simp_all
  ultimately have first: "f32_lt p (f32_add f32_zero (probs ! hd order))" using i(2) by (simp add: f32_lt_def f32_nonneg_def)
  have "list_all (\<lambda>i. f32_nonneg (probs ! i)) order" using nn set_o by (simp add: list_all_iff)
  then have "top_p_mask probs p f32_zero order logits = replicate (length logits) masked"
    using top_p_mask_all [of probs order f32_zero p logits] first i(2) mask_fold_all [OF set_o] by (simp add: f32_lt_def)
  moreover have "max_element logits = Some (logits ! argmax logits)" using i(1) by (auto simp: max_element_def)
  ultimately show ?thesis
    using assms(2,3) by (simp add: applyTopP_def Let_def probs_def [symmetric] order_def [symmetric] exps_def masked_sub)
qed

text \<open>A peaked distribution: all the mass on the first of two tokens, nucleus one half.\<close>

definition step_libm :: libm where
  "step_libm = \<lparr>lm_exp = \<lambda>x. if f32_lt x f32_zero then f32_zero else f32_one, lm_log = \<lambda>x. x, lm_sqrt = \<lambda>x. x,
     lm_pow = \<lambda>x y. x, lm_cos = \<lambda>x. x, lm_sin = \<lambda>x. x, lm_tanh = \<lambda>x. x\<rparr>"

lemma peaked_probs: "top_p_probs step_libm ([f32_one, f32_zero] ! argmax [f32_one, f32_zero]) [f32_one, f32_zero] = [f32_one, f32_zero]"
  by code_simp

lemma top_p_masks_all_witness:
  "applyTopP step_libm stable_psort f32_half [f32_one, f32_zero] = Some [masked, masked]"
proof -
  have "\<not> f32_le f32_one f32_half" "\<not> f32_le f32_half f32_zero" by (simp_all add: f32_le_def)
  moreover have "list_all f32_nonneg [f32_one, f32_zero]" "list_ex (f32_lt f32_half) [f32_one, f32_zero]"
    by (simp_all add: f32_lt_def)
  ultimately show ?thesis
    using top_p_masks_all [OF stable.partial_sorter_axioms, of f32_half step_libm "[f32_one, f32_zero]" 0]
    unfolding peaked_probs by (simp add: numeral_2_eq_2)
qed

subsection \<open>Disabled filters\<close>

definition minp_off :: "f32 \<Rightarrow> bool" where "minp_off p \<longleftrightarrow> f32_le p f32_zero \<or> f32_le f32_one p"

definition penalties_off :: "f32 \<Rightarrow> f32 \<Rightarrow> f32 \<Rightarrow> int list \<Rightarrow> bool" where
  "penalties_off rep freq pres lastTokens \<longleftrightarrow> lastTokens = [] \<or>
     (f32_le rep f32_zero \<or> f32_eq rep f32_one) \<and> f32_le freq f32_zero \<and> f32_le pres f32_zero"

text \<open>
  With its extra filters off the extended sampler is the classic one, token and generator state
  included: with min-p and typical-p at or beyond the ends of the unit interval, and the penalties at
  their identity values or the window empty; so is the overload with ten arguments.
\<close>

theorem disabled_filters_classic:
  assumes "minp_off minP" "minp_off typicalP" "penalties_off rep freq pres lastTokens"
  shows "sampleFromLogits12 m nth_elt srt tsrt draw logits t topP topK minP rep lastTokens typicalP freq pres g =
      sampleFromLogits6 m nth_elt srt draw logits t topP topK g \<and>
    (penalties_off rep f32_zero f32_zero lastTokens \<longrightarrow>
      sampleFromLogits10 m nth_elt srt tsrt draw logits t topP topK minP rep lastTokens g =
      sampleFromLogits6 m nth_elt srt draw logits t topP topK g)"
  using assms
  by (auto simp: sampleFromLogits12_def sampleFromLogits10_def sampleFromLogits6_def Let_def minp_off_def penalties_off_def
      applyRepetitionPenalty_def applyFrequencyPenalty_def applyPresencePenalty_def applyMinP_def applyTypicalP_def f32_le_def)

lemma disabled_filters_classic_witness:
  "sampleFromLogits12 step_libm (sort_nth stable_psort) stable_psort stable_psort (\<lambda>g. (f32_half, g)) [f32_one, f32_zero]
     f32_one f32_one 0 f32_zero f32_one [1, 0] f32_one f32_zero f32_zero () =
   sampleFromLogits6 step_libm (sort_nth stable_psort) stable_psort (\<lambda>g. (f32_half, g)) [f32_one, f32_zero]
     f32_one f32_one 0 ()"
  by (rule disabled_filters_classic [THEN conjunct1]) (simp_all add: minp_off_def penalties_off_def f32_le_def f32_eq_def)

subsection \<open>The draw\<close>

lemma f32_sum_nonneg: "list_all f32_nonneg qs \<Longrightarrow> f32_nonneg s \<Longrightarrow> f32_nonneg (foldl f32_add s qs)"
  by (induction qs arbitrary: s) auto

lemma draw_loop_spec:
  assumes "qs \<noteq> []" "list_all f32_nonneg qs" "f32_nonneg cum" "f32_lt cum r"
  shows "\<exists>k < length qs. draw_loop r cum i qs = i + k \<and> (\<forall>j < k. f32_lt (foldl f32_add cum (take (Suc j) qs)) r) \<and>
    (Suc k < length qs \<longrightarrow> f32_le r (foldl f32_add cum (take (Suc k) qs)) \<and> 0 < f32_int (qs ! k))"
  using assms
proof (induction qs arbitrary: cum i)
  case (Cons q qs)
  let ?c = "f32_add cum q"
  have q: "f32_nonneg q" "f32_nonneg ?c" using Cons.prems(2,3) by auto
  show ?case
  proof (cases "f32_le r ?c")
    case True
    have "0 < f32_int q"
    proof (rule ccontr)
      assume "\<not> 0 < f32_int q"
      then have "f32_int ?c \<le> f32_int cum"
        using q(1) Cons.prems(3) by (intro f32_add_le) (auto simp: f32_nonneg_def)
      then show False using True Cons.prems(4) by (auto simp: f32_lt_def f32_le_def)
    qed
    then show ?thesis using True by (intro exI [of _ 0]) simp
  next
    case False
    then have lt: "f32_lt ?c r" using q(2) Cons.prems(4) by (auto simp: f32_lt_def f32_le_def f32_nonneg_def)
    show ?thesis
    proof (cases "qs = []")
      case True
      then show ?thesis using False by (intro exI [of _ 0]) simp
    next
      case ne: False
      from Cons.IH [OF ne _ q(2) lt, of "Suc i"] Cons.prems(2) obtain k where k: "k < length qs"
        "draw_loop r ?c (Suc i) qs = Suc i + k" "\<forall>j < k. f32_lt (foldl f32_add ?c (take (Suc j) qs)) r"
        "Suc k < length qs \<longrightarrow> f32_le r (foldl f32_add ?c (take (Suc k) qs)) \<and> 0 < f32_int (qs ! k)" by auto
      have "f32_lt (foldl f32_add cum (take (Suc j) (q # qs))) r" if "j < Suc k" for j
        using that k(3) lt by (cases j) simp_all
      then show ?thesis using False k by (intro exI [of _ "Suc k"]) simp
    qed
  qed
qed simp



end
