(* ===== verification/CpuKernels.thy ===== *)
theory CpuKernels
  imports StdAlgo BFloat16
begin

text \<open>
  \<open>compute/cpu_kernels.cpp\<close> and the vector helpers of \<open>model/glm_forward.cpp\<close>: matrix-vector
  products, activations and softmax over IEEE floats, in the order of operations of the code. The
  argument \<open>msvc\<close> selects the branch with AVX2 intrinsics; the compiler is taken not to contract
  or reorder float operations. Matrices are lists of rows' elements, row-major. A read outside a
  buffer is \<^const>\<open>None\<close>. The loops that OpenMP splits write disjoint elements, so their order does
  not matter. The traffic counters of \<open>InferenceStats\<close> are not modelled.
\<close>

subsection \<open>Fused multiply-add\<close>

definition f32_fma :: "f32 \<Rightarrow> f32 \<Rightarrow> f32 \<Rightarrow> f32" where
  "f32_fma x y z =
     (let neg = (f32_neg_bit x \<noteq> f32_neg_bit y) in
      if f32_is_nan x \<or> f32_is_nan y \<or> f32_is_nan z then f32_nan
      else if f32_is_inf x \<or> f32_is_inf y then
        (if f32_mag x = 0 \<or> f32_mag y = 0 then f32_nan
         else if f32_is_inf z \<and> f32_neg_bit z \<noteq> neg then f32_nan
         else f32_mk neg inf_mag)
      else if f32_is_inf z then z
      else let s = f32_int x * f32_int y + f32_int z * 2 ^ 149 in
        if s = 0 then f32_mk (neg \<and> f32_neg_bit z) 0
        else f32_round (s < 0) \<bar>s\<bar> (2 ^ 149))"

subsection \<open>Dot products\<close>

fun dot_from :: "f32 \<Rightarrow> f32 list \<Rightarrow> f32 list \<Rightarrow> f32" where
  "dot_from acc (a # as) (b # bs) = dot_from (f32_add acc (f32_mul a b)) as bs"
| "dot_from acc _ _ = acc"

text \<open>One step of eight lanes.\<close>

definition fma8 :: "f32 list \<Rightarrow> f32 list \<Rightarrow> f32 list \<Rightarrow> f32 list" where
  "fma8 as bs sum8 = map (\<lambda>(a, b, s). f32_fma a b s) (zip (take 8 as) (zip (take 8 bs) sum8))"

text \<open>The loop over 16 elements per iteration, two steps into one accumulator, while \<open>j + 8 < K8\<close>.\<close>

function fma_unrolled :: "nat \<Rightarrow> nat \<Rightarrow> f32 list \<Rightarrow> f32 list \<Rightarrow> f32 list \<Rightarrow> nat \<times> f32 list" where
  "fma_unrolled j K8 as bs sum8 =
     (if j + 8 < K8
      then fma_unrolled (j + 16) K8 as bs
             (fma8 (drop (j + 8) as) (drop (j + 8) bs) (fma8 (drop j as) (drop j bs) sum8))
      else (j, sum8))"
  by pat_completeness auto
termination
  by (relation "measure (\<lambda>(j, K8, as, bs, s). K8 - j)") auto

declare fma_unrolled.simps [simp del]

text \<open>The loop over 8 elements per iteration, while \<open>j < K8\<close>.\<close>

function fma_rest :: "nat \<Rightarrow> nat \<Rightarrow> f32 list \<Rightarrow> f32 list \<Rightarrow> f32 list \<Rightarrow> nat \<times> f32 list" where
  "fma_rest j K8 as bs sum8 =
     (if j < K8 then fma_rest (j + 8) K8 as bs (fma8 (drop j as) (drop j bs) sum8) else (j, sum8))"
  by pat_completeness auto
termination
  by (relation "measure (\<lambda>(j, K8, as, bs, s). K8 - j)") auto

declare fma_rest.simps [simp del]

text \<open>The same with the test \<open>i + 7 < n\<close>.\<close>

function fma_guard7 :: "nat \<Rightarrow> nat \<Rightarrow> f32 list \<Rightarrow> f32 list \<Rightarrow> f32 list \<Rightarrow> nat \<times> f32 list" where
  "fma_guard7 i n as bs sum8 =
     (if i + 7 < n then fma_guard7 (i + 8) n as bs (fma8 (drop i as) (drop i bs) sum8) else (i, sum8))"
  by pat_completeness auto
termination
  by (relation "measure (\<lambda>(i, n, as, bs, s). n - i)") auto

declare fma_guard7.simps [simp del]

definition hsum8 :: "f32 list \<Rightarrow> f32" where
  "hsum8 s =
     (let s128 = map (\<lambda>i. f32_add (s ! (i + 4)) (s ! i)) [0..<4];
          h1 = [f32_add (s128 ! 0) (s128 ! 1), f32_add (s128 ! 2) (s128 ! 3)]
      in f32_add (h1 ! 0) (h1 ! 1))"

definition avx_dot :: "nat \<Rightarrow> f32 list \<Rightarrow> f32 list \<Rightarrow> f32" where
  "avx_dot K row x =
     (let K8 = K div 8 * 8;
          (j, s) = fma_unrolled 0 K8 row x (replicate 8 f32_zero);
          (j, s) = fma_rest j K8 row x s
      in dot_from (hsum8 s) (take (K - j) (drop j row)) (take (K - j) (drop j x)))"

definition avx_dot_bf16 :: "nat \<Rightarrow> f32 list \<Rightarrow> f32 list \<Rightarrow> f32" where
  "avx_dot_bf16 n a b =
     (let (i, s) = fma_rest 0 (n div 8 * 8) a b (replicate 8 f32_zero)
      in dot_from (hsum8 s) (take (n - i) (drop i a)) (take (n - i) (drop i b)))"

definition avx_dot_f32 :: "nat \<Rightarrow> f32 list \<Rightarrow> f32 list \<Rightarrow> f32" where
  "avx_dot_f32 n a b =
     (let (i, s) = fma_guard7 0 n a b (replicate 8 f32_zero)
      in dot_from (hsum8 s) (take (n - i) (drop i a)) (take (n - i) (drop i b)))"

definition scalar_dot :: "nat \<Rightarrow> f32 list \<Rightarrow> f32 list \<Rightarrow> f32" where
  "scalar_dot n a b = dot_from f32_zero (take n a) (take n b)"

definition dotF32 :: "bool \<Rightarrow> f32 list \<Rightarrow> f32 list \<Rightarrow> nat \<Rightarrow> f32 option" where
  "dotF32 msvc a b n =
     (if length a < n \<or> length b < n then None
      else Some (if msvc then avx_dot_f32 n a b else scalar_dot n a b))"

definition dotBf16F32 :: "bool \<Rightarrow> u16 list \<Rightarrow> f32 list \<Rightarrow> nat \<Rightarrow> f32 option" where
  "dotBf16F32 msvc a b n =
     (if length a < n \<or> length b < n then None
      else let row = map bf16_toF32 a in Some (if msvc then avx_dot_bf16 n row b else scalar_dot n row b))"

subsection \<open>Matrix-vector products\<close>

text \<open>The body both kernels share: \<open>y[i] = alpha * dot + beta * y[i]\<close> for the rows of \<open>A\<close>.\<close>

definition gemv_rows :: "bool \<Rightarrow> f32 list \<Rightarrow> f32 list \<Rightarrow> f32 list \<Rightarrow> nat \<Rightarrow> nat \<Rightarrow> f32 \<Rightarrow> f32 \<Rightarrow> f32 list" where
  "gemv_rows msvc A x y M K alpha beta =
     map (\<lambda>i. let row = drop (i * K) A;
                  dot = (if msvc then avx_dot K row x else scalar_dot K row x)
              in f32_add (f32_mul alpha dot) (f32_mul beta (y ! i))) [0..<M] @ drop M y"

definition gemv_f32 :: "bool \<Rightarrow> f32 list \<Rightarrow> f32 list \<Rightarrow> f32 list \<Rightarrow> int \<Rightarrow> int \<Rightarrow> f32 \<Rightarrow> f32 \<Rightarrow> f32 list option" where
  "gemv_f32 msvc A x y M K alpha beta =
     (let m = nat M; k = nat K in
      if length A < m * k \<or> 0 < m \<and> length x < k \<or> length y < m then None
      else Some (gemv_rows msvc A x y m k alpha beta))"

definition gemv_bf16_f32 :: "bool \<Rightarrow> u16 list \<Rightarrow> f32 list \<Rightarrow> f32 list \<Rightarrow> int \<Rightarrow> int \<Rightarrow> f32 \<Rightarrow> f32 \<Rightarrow> f32 list option" where
  "gemv_bf16_f32 msvc A x y M K alpha beta = gemv_f32 msvc (map bf16_toF32 A) x y M K alpha beta"

subsection \<open>Activations\<close>

text \<open>\<open>_mm_max_ps(v, zero)\<close> answers its second operand when either is NaN.\<close>

definition max_ps0 :: "f32 \<Rightarrow> f32" where
  "max_ps0 v = (if f32_lt f32_zero v then v else f32_zero)"

definition relu_scalar :: "f32 \<Rightarrow> f32" where
  "relu_scalar v = (if f32_lt v f32_zero then f32_zero else v)"

definition relu_f32 :: "bool \<Rightarrow> f32 list \<Rightarrow> f32 list" where
  "relu_f32 sse xs =
     (let k = (if sse then length xs div 4 * 4 else 0)
      in map max_ps0 (take k xs) @ map relu_scalar (drop k xs))"

definition silu :: "libm \<Rightarrow> f32 \<Rightarrow> f32" where
  "silu m v = f32_div v (f32_add f32_one (lm_exp m (f32_minus v)))"

definition silu_f32 :: "libm \<Rightarrow> f32 list \<Rightarrow> f32 list" where
  "silu_f32 m xs = map (silu m) xs"

definition gelu_c :: f32 where "gelu_c = 0x3F4C422A"
definition gelu_k :: f32 where "gelu_k = 0x3D372713"

definition gelu_f32 :: "libm \<Rightarrow> f32 list \<Rightarrow> f32 list" where
  "gelu_f32 m xs = map (\<lambda>v.
     let inner = f32_mul gelu_c (f32_add v (f32_mul (f32_mul (f32_mul gelu_k v) v) v))
     in f32_mul (f32_mul f32_half v) (f32_add f32_one (lm_tanh m inner))) xs"

fun max_loop :: "f32 \<Rightarrow> f32 list \<Rightarrow> f32" where
  "max_loop mx [] = mx"
| "max_loop mx (x # xs) = max_loop (if f32_lt mx x then x else mx) xs"

text \<open>\<open>softmax_f32\<close> reads \<open>x[0]\<close> before it looks at the length.\<close>

definition softmax_f32 :: "libm \<Rightarrow> f32 list \<Rightarrow> f32 list option" where
  "softmax_f32 m xs =
     (case xs of
        [] \<Rightarrow> None
      | x0 # rest \<Rightarrow>
          let maxval = max_loop x0 rest;
              es = map (\<lambda>x. lm_exp m (f32_sub x maxval)) xs;
              inv = f32_div f32_one (foldl f32_add f32_zero es)
          in Some (map (\<lambda>x. f32_mul x inv) es))"

definition cpuThreadCount :: "int option \<Rightarrow> int \<Rightarrow> int" where
  "cpuThreadCount omp hw =
     (case omp of
        Some n \<Rightarrow> if 0 < n then n else if 0 < hw then hw else 1
      | None \<Rightarrow> if 0 < hw then hw else 1)"

definition addVec :: "f32 list \<Rightarrow> f32 list \<Rightarrow> nat \<Rightarrow> f32 list option" where
  "addVec dst src n =
     (if length dst < n \<or> length src < n then None
      else Some (map2 f32_add (take n dst) (take n src) @ drop n dst))"

subsection \<open>The vector loops agree\<close>

lemma fma_rest_step:
  "j < K8 \<Longrightarrow> fma_rest j K8 as bs s = fma_rest (j + 8) K8 as bs (fma8 (drop j as) (drop j bs) s)"
  "\<not> j < K8 \<Longrightarrow> fma_rest j K8 as bs s = (j, s)"
  by (subst fma_rest.simps, simp)+

lemma unrolled_then_rest:
  "(case fma_unrolled j K8 as bs s of (j, s) \<Rightarrow> fma_rest j K8 as bs s) = fma_rest j K8 as bs s"
proof (induction j K8 as bs s rule: fma_unrolled.induct)
  case (1 j K8 as bs s)
  show ?case
  proof (cases "j + 8 < K8")
    case True
    then show ?thesis using 1 by (subst fma_unrolled.simps) (simp add: fma_rest_step(1) add.assoc)
  next
    case False
    then show ?thesis by (subst fma_unrolled.simps) simp
  qed
qed

lemma guard7_rest: "8 dvd i \<Longrightarrow> fma_guard7 i n as bs s = fma_rest i (n div 8 * 8) as bs s"
proof (induction i n as bs s rule: fma_guard7.induct)
  case (1 i n as bs s)
  from 1(2) obtain q where q: "i = 8 * q" by (auto elim: dvdE)
  have "i + 7 < n \<longleftrightarrow> i < n div 8 * 8"
  proof
    assume "i + 7 < n"
    then have "Suc q * 8 \<le> n" using q by simp
    then have "Suc q \<le> n div 8" using div_le_mono [of "Suc q * 8" n 8] by simp
    then show "i < n div 8 * 8" using q by linarith
  next
    assume "i < n div 8 * 8"
    then have "q < n div 8" using q by simp
    then have "Suc q * 8 \<le> n div 8 * 8" by (intro mult_right_mono) simp_all
    also have "\<dots> \<le> n" by simp
    finally show "i + 7 < n" using q by simp
  qed
  then show ?case
    using 1 by (subst fma_guard7.simps, subst fma_rest.simps) simp
qed

lemma avx_dot_eq: "avx_dot n a b = avx_dot_bf16 n a b"
proof -
  have "avx_dot n a b = (case (case fma_unrolled 0 (n div 8 * 8) a b (replicate 8 f32_zero) of (j, s) \<Rightarrow>
      fma_rest j (n div 8 * 8) a b s) of (j, s) \<Rightarrow> dot_from (hsum8 s) (take (n - j) (drop j a)) (take (n - j) (drop j b)))"
    by (simp add: avx_dot_def Let_def split: prod.split)
  then show ?thesis by (simp only: unrolled_then_rest avx_dot_bf16_def Let_def)
qed

text \<open>
  C28. Unrolling changes no bit: the kernel that takes sixteen elements per iteration and the two dot
  products that take eight compute the same result for every length, remainder included.
\<close>

theorem avx_dots_agree: "avx_dot n a b = avx_dot_bf16 n a b \<and> avx_dot_f32 n a b = avx_dot_bf16 n a b"
  by (simp add: avx_dot_eq avx_dot_f32_def avx_dot_bf16_def guard7_rest)

subsection \<open>A product with beta zero\<close>

lemma f32_abs_int: "\<bar>f32_int x\<bar> = mag_int (f32_mag x)"
  using mag_int_nonneg [OF f32_mag_range(1), of x] by (simp add: f32_int_def)

lemma f32_finite_mag: "f32_isfinite x \<Longrightarrow> \<not> f32_is_nan x \<and> \<not> f32_is_inf x"
  by (simp add: f32_isfinite_def f32_is_nan_def f32_is_inf_def)

lemma f32_one_fields: "\<not> f32_neg_bit f32_one" "\<not> f32_is_inf f32_one" "f32_mag f32_one \<noteq> 0"
  by (simp_all add: f32_one_def f32_neg_bit_def f32_is_inf_def f32_mag_def inf_mag_def)

lemma f32_zero_fields: "\<not> f32_neg_bit f32_zero" "\<not> f32_is_inf f32_zero" "f32_mag f32_zero = 0"
  by (simp_all add: f32_zero_def f32_neg_bit_def f32_is_inf_def f32_mag_def inf_mag_def)

lemma f32_mul_one: "\<not> f32_is_nan x \<Longrightarrow> f32_mul f32_one x = x"
proof -
  assume nn: "\<not> f32_is_nan x"
  have inf: "f32_is_inf x \<Longrightarrow> f32_mk (f32_neg_bit x) inf_mag = x"
    using f32_mk_fields [of x] by (simp add: f32_is_inf_def)
  have "f32_rne (2 ^ 149 * mag_int (f32_mag x)) (2 ^ 149) = f32_mag x"
    using f32_rne_exact [of "f32_mag x" "2 ^ 149"] nn f32_mag_range [of x] by (simp add: f32_is_nan_def mult.commute)
  then show ?thesis
    using nn inf f32_one_fields(2)
    by (auto simp: f32_mul_def Let_def f32_one_fields f32_round_def f32_abs_int f32_is_inf_def inf_mag_def)
qed

lemma f32_mul_zero:
  "f32_isfinite y \<Longrightarrow> f32_mul f32_zero y = f32_mk (f32_neg_bit y) 0"
  "\<not> f32_isfinite y \<Longrightarrow> f32_is_nan (f32_mul f32_zero y)"
proof -
  have "f32_rne 0 (2 ^ 149) = 0" using f32_rne_exact [of 0 "2 ^ 149"] by (simp add: inf_mag_def)
  then show "f32_isfinite y \<Longrightarrow> f32_mul f32_zero y = f32_mk (f32_neg_bit y) 0"
    using f32_finite_mag [of y] by (simp add: f32_mul_def Let_def f32_zero_fields f32_round_def)
  show "\<not> f32_isfinite y \<Longrightarrow> f32_is_nan (f32_mul f32_zero y)"
    by (auto simp: f32_mul_def Let_def f32_zero_fields f32_isfinite_def f32_is_nan_def f32_is_inf_def)
      (simp_all add: f32_nan_def f32_mag_def inf_mag_def)
qed

lemma f32_add_signed_zero:
  assumes "\<not> f32_is_nan x"
  shows "f32_eq (f32_add x (f32_mk neg 0)) x"
proof -
  have z: "f32_mag (f32_mk neg 0) = 0" "f32_int (f32_mk neg 0) = 0" "\<not> f32_is_nan (f32_mk neg 0)" "\<not> f32_is_inf (f32_mk neg 0)"
    by (simp_all add: f32_simps f32_int_def f32_is_nan_def f32_is_inf_def inf_mag_def)
  show ?thesis
  proof (cases "f32_is_inf x \<or> f32_int x = 0")
    case True
    then show ?thesis using assms z
      by (auto simp: f32_add_def Let_def f32_eq_def f32_int_def f32_nan_mk inf_mag_def f32_simps)
  next
    case False
    have "f32_rne \<bar>f32_int x\<bar> 1 = f32_mag x"
      using f32_rne_exact [of "f32_mag x" 1] assms f32_mag_range [of x] by (simp add: f32_is_nan_def f32_abs_int)
    moreover have "f32_int x < 0 \<longleftrightarrow> f32_neg_bit x"
      using False mag_int_nonneg [OF f32_mag_range(1), of x] by (auto simp: f32_int_def split: if_splits)
    ultimately have "f32_add x (f32_mk neg 0) = x" using False assms z by (simp add: f32_add_def Let_def f32_round_def)
    then show ?thesis using assms by (simp add: f32_eq_def)
  qed
qed

lemma f32_add_nan: "f32_is_nan y \<Longrightarrow> f32_is_nan (f32_add x y)"
  by (simp add: f32_add_def)

text \<open>The dot product of row \<open>i\<close>.\<close>

definition row_dot :: "bool \<Rightarrow> f32 list \<Rightarrow> f32 list \<Rightarrow> nat \<Rightarrow> nat \<Rightarrow> f32" where
  "row_dot msvc A x K i = (if msvc then avx_dot K (drop (i * K) A) x else scalar_dot K (drop (i * K) A) x)"

text \<open>
  A product with the default arguments (alpha one, beta zero) writes the dot product only over a
  finite old value: an infinity or a NaN that an earlier call left in the output buffer makes the new
  element NaN, whatever the dot product is.
\<close>

theorem gemv_beta_zero:
  assumes "gemv_f32 msvc A x y M K f32_one f32_zero = Some y'" "i < nat M"
  shows "(f32_isfinite (y ! i) \<and> \<not> f32_is_nan (row_dot msvc A x (nat K) i) \<longrightarrow> f32_eq (y' ! i) (row_dot msvc A x (nat K) i)) \<and>
    (\<not> f32_isfinite (y ! i) \<longrightarrow> f32_is_nan (y' ! i))"
proof -
  have "y' ! i = f32_add (f32_mul f32_one (row_dot msvc A x (nat K) i)) (f32_mul f32_zero (y ! i))"
    using assms by (auto simp: gemv_f32_def Let_def gemv_rows_def nth_append row_dot_def split: if_splits)
  then show ?thesis
    using f32_mul_one f32_mul_zero [of "y ! i"] f32_add_signed_zero f32_add_nan by simp
qed

lemma gemv_beta_zero_witness:
  "f32_is_nan (gemv_rows False [f32_one] [f32_half] [f32_mk False inf_mag] 1 1 f32_one f32_zero ! 0)"
  using gemv_beta_zero [of False "[f32_one]" "[f32_half]" "[f32_mk False inf_mag]" 1 1
      "gemv_rows False [f32_one] [f32_half] [f32_mk False inf_mag] 1 1 f32_one f32_zero" 0]
  by (simp add: gemv_f32_def f32_isfinite_def f32_simps inf_mag_def)

end
