(* ===== verification/GpuCache.thy ===== *)
theory GpuCache
  imports Prelude StdAlgo CpuKernels "HOL-Library.AList"
begin

unbundle bit_operations_syntax

text \<open>
  \<open>compute/cuda_backend.cpp\<close>, lines 170 to 492: the VRAM-resident window of experts with its staging
  pipeline. The device is part of the state: the memory of every expert slot, the copies queued on
  the copy stream with their tickets (a copy reads the pinned buffer when it executes, not when it is
  queued), and for every event the ticket it was last recorded behind. What the CUDA calls answer is
  an argument of the operations; the FFN kernel is a parameter. A hash map is an association list.
  \<^const>\<open>None\<close> is an access outside a vector or an \<open>int\<close> overflow.
\<close>

subsection \<open>State\<close>

record device_expert =
  de_weightBytes :: nat
  de_lastUse :: int
  de_inUse :: bool

definition DeviceExpert :: device_expert where
  "DeviceExpert = \<lparr>de_weightBytes = 0, de_lastUse = 0, de_inUse = False\<rparr>"

text \<open>A queued copy: its ticket, the staging slot it reads, the expert slot it writes.\<close>

record queued_copy =
  qc_ticket :: nat
  qc_stage :: nat
  qc_expert :: nat

record gpu_cache =
  requestedCapacity :: int
  gc_capacity :: int
  gc_hidden :: int
  gc_inter :: int
  configured :: bool
  gc_experts :: "device_expert list"
  gc_hosts :: "bytes list"
  slotPending :: "bool list"
  slotCount :: int
  nextStageSlot :: int
  mapKeyToSlot :: "(u64 \<times> nat) list"
  uploadPending :: "(u64 \<times> bool) list"
  uploadEvent :: "(u64 \<times> nat) list"
  uploadStageSlot :: "(u64 \<times> nat) list"
  lruClock :: int
  dev_mem :: "bytes list"
  dev_copies :: "queued_copy list"
  dev_ticket :: nat
  dev_events :: "nat list"

definition ExpertGpuCache :: gpu_cache where
  "ExpertGpuCache = \<lparr>requestedCapacity = 4, gc_capacity = 0, gc_hidden = 0, gc_inter = 0, configured = False,
     gc_experts = [], gc_hosts = [], slotPending = [], slotCount = 2, nextStageSlot = 0, mapKeyToSlot = [],
     uploadPending = [], uploadEvent = [], uploadStageSlot = [], lruClock = 0, dev_mem = [], dev_copies = [],
     dev_ticket = 0, dev_events = []\<rparr>"

definition expertWeightBytes :: "int \<Rightarrow> int \<Rightarrow> nat" where
  "expertWeightBytes hidden interSize = nat hidden * nat interSize * 6"

definition gpu_key :: "int \<Rightarrow> int \<Rightarrow> u64" where
  "gpu_key layer eid = push_bit 16 (ucast (word_of_int layer :: u32)) OR ucast (word_of_int eid :: u16)"

subsection \<open>The copy stream\<close>

definition exec_copy :: "queued_copy \<Rightarrow> gpu_cache \<Rightarrow> gpu_cache" where
  "exec_copy q c = c\<lparr>dev_mem := (dev_mem c)[qc_expert q := gc_hosts c ! qc_stage q]\<rparr>"

text \<open>The oldest copy executes.\<close>

definition dev_step :: "gpu_cache \<Rightarrow> gpu_cache" where
  "dev_step c = (case dev_copies c of [] \<Rightarrow> c | q # qs \<Rightarrow> exec_copy q c\<lparr>dev_copies := qs\<rparr>)"

definition dev_drain :: "gpu_cache \<Rightarrow> gpu_cache" where
  "dev_drain c = (dev_step ^^ length (dev_copies c)) c"

text \<open>Everything queued up to a ticket executes.\<close>

definition dev_wait :: "nat \<Rightarrow> gpu_cache \<Rightarrow> gpu_cache" where
  "dev_wait n c = (dev_step ^^ length (takeWhile (\<lambda>q. qc_ticket q \<le> n) (dev_copies c))) c"

subsection \<open>The cache\<close>

definition gc_release :: "gpu_cache \<Rightarrow> gpu_cache" where
  "gc_release c = c\<lparr>gc_capacity := 0, configured := False, gc_experts := [], gc_hosts := [], mapKeyToSlot := [],
     uploadPending := [], dev_mem := [], dev_copies := [], dev_events := []\<rparr>"

text \<open>\<open>ok\<close> says whether every allocation succeeded; the device memory starts with arbitrary bytes.\<close>

definition gc_alloc :: "bool \<Rightarrow> (nat \<Rightarrow> bytes) \<Rightarrow> int \<Rightarrow> int \<Rightarrow> int \<Rightarrow> gpu_cache \<Rightarrow> bool \<times> gpu_cache" where
  "gc_alloc ok junk cap h i c =
     (let one = expertWeightBytes h i;
          c = c\<lparr>gc_capacity := cap, gc_hidden := h, gc_inter := i,
                gc_experts := replicate (nat cap) \<lparr>de_weightBytes = one, de_lastUse = 0, de_inUse = False\<rparr>,
                gc_hosts := replicate (nat (slotCount c)) (replicate one 0),
                slotPending := replicate (nat (slotCount c)) False, nextStageSlot := 0,
                dev_mem := map junk [0..<nat cap], dev_copies := [],
                dev_events := replicate (nat (slotCount c)) 0\<rparr>
      in if ok then (True, c\<lparr>configured := True\<rparr>) else (False, gc_release c))"

text \<open>The claimed slot, or nothing when the stream could not be synchronised.\<close>

definition claimStageSlot :: "bool \<Rightarrow> gpu_cache \<Rightarrow> (nat option \<times> gpu_cache) option" where
  "claimStageSlot sync_ok c =
     (let s = nat (nextStageSlot c); c = c\<lparr>nextStageSlot := (nextStageSlot c + 1) mod max 1 (slotCount c)\<rparr> in
      Option.bind (rd (slotPending c) s) (\<lambda>pending.
        if pending then
          if sync_ok
          then Some (Some s, (dev_drain c)\<lparr>slotPending := replicate (length (slotPending c)) False\<rparr>)
          else Some (None, c)
        else Some (Some s, c)))"

definition releaseStageSlot :: "nat \<Rightarrow> gpu_cache \<Rightarrow> gpu_cache" where
  "releaseStageSlot s c = c\<lparr>slotPending := (slotPending c)[s := False]\<rparr>"

definition findSlot :: "int \<Rightarrow> int \<Rightarrow> gpu_cache \<Rightarrow> nat option" where
  "findSlot layer eid c = map_of (mapKeyToSlot c) (gpu_key layer eid)"

fun oldest_scan :: "device_expert list \<Rightarrow> nat \<Rightarrow> int \<Rightarrow> nat option \<Rightarrow> nat option" where
  "oldest_scan [] e oldest victim = victim"
| "oldest_scan (d # ds) e oldest victim =
     (if de_lastUse d < oldest then oldest_scan ds (Suc e) (de_lastUse d) (Some e)
      else oldest_scan ds (Suc e) oldest victim)"

fun unused_scan :: "device_expert list \<Rightarrow> nat \<Rightarrow> nat" where
  "unused_scan [] e = 0"
| "unused_scan (d # ds) e = (if \<not> de_inUse d then e else unused_scan ds (Suc e))"

text \<open>The keys that lose their slot; the last one visited is the evicted key, 0 when there is none.\<close>

definition evicted_key :: "nat \<Rightarrow> (u64 \<times> nat) list \<Rightarrow> u64" where
  "evicted_key victim kvs = foldl (\<lambda>k (k', e). if e = victim then k' else k) 0 kvs"

text \<open>The slot, whether it needs an upload, the cache.\<close>

definition acquireSlot :: "int \<Rightarrow> int \<Rightarrow> gpu_cache \<Rightarrow> (nat \<times> bool \<times> gpu_cache) option" where
  "acquireSlot layer eid c =
     (let k = gpu_key layer eid; clock = lruClock c + 1 in
      if lruClock c = 2147483647 then None
      else case map_of (mapKeyToSlot c) k of
        Some e \<Rightarrow>
          Option.bind (rd (gc_experts c) e) (\<lambda>d.
            Some (e, False, c\<lparr>gc_experts := (gc_experts c)[e := d\<lparr>de_lastUse := clock\<rparr>], lruClock := clock\<rparr>))
      | None \<Rightarrow>
          Option.bind
            (if gc_capacity c \<le> int (length (mapKeyToSlot c))
             then oldest_scan (take (nat (gc_capacity c)) (gc_experts c)) 0 2147483647 None
             else Some (unused_scan (take (nat (gc_capacity c)) (gc_experts c)) 0)) (\<lambda>victim.
          Option.bind (rd (gc_experts c) victim) (\<lambda>d.
            let evicted = evicted_key victim (mapKeyToSlot c) in
            Some (victim, True,
              c\<lparr>gc_experts := (gc_experts c)[victim := d\<lparr>de_inUse := True, de_lastUse := clock\<rparr>],
                mapKeyToSlot := AList.update k victim (filter (\<lambda>(k', e). e \<noteq> victim) (mapKeyToSlot c)),
                uploadPending := AList.delete evicted (uploadPending c),
                uploadEvent := AList.delete evicted (uploadEvent c),
                uploadStageSlot := AList.delete evicted (uploadStageSlot c),
                lruClock := clock\<rparr>))))"

subsection \<open>The entry points\<close>

text \<open>The global pointer is \<^const>\<open>None\<close> before the configuration.\<close>

definition gpuExpertCacheConfig :: "bool \<Rightarrow> int \<Rightarrow> int \<Rightarrow> gpu_cache option \<Rightarrow> bool \<times> gpu_cache option" where
  "gpuExpertCacheConfig avail capacity stagingDepth g =
     (if \<not> avail \<or> capacity \<le> 0 then (False, g)
      else (True, Some (ExpertGpuCache\<lparr>requestedCapacity := max 1 capacity, slotCount := max 1 stagingDepth\<rparr>)))"

definition gpuExpertsEnabled :: "bool \<Rightarrow> gpu_cache option \<Rightarrow> bool" where
  "gpuExpertsEnabled avail g \<longleftrightarrow> avail \<and> g \<noteq> None"

record stage_answers =
  sa_alloc :: bool
  sa_junk :: "nat \<Rightarrow> bytes"
  sa_sync :: bool
  sa_copy :: bool

definition upload :: "int \<Rightarrow> int \<Rightarrow> bytes \<Rightarrow> nat \<Rightarrow> nat \<Rightarrow> bool \<Rightarrow> gpu_cache \<Rightarrow> (bool \<times> gpu_cache) option" where
  "upload layer eid w slot stageSlot copy_ok c =
     Option.bind (rd (gc_experts c) slot) (\<lambda>d.
     Option.bind (rd (gc_hosts c) stageSlot) (\<lambda>host.
     Option.bind (memcpy host 0 w 0 (de_weightBytes d)) (\<lambda>host.
       let c = c\<lparr>gc_hosts := (gc_hosts c)[stageSlot := host]\<rparr>; k = gpu_key layer eid; n = dev_ticket c + 1 in
       if \<not> copy_ok then Some (False, c)
       else Some (True, c\<lparr>dev_ticket := n,
         dev_copies := dev_copies c @ [\<lparr>qc_ticket = n, qc_stage = stageSlot, qc_expert = slot\<rparr>],
         dev_events := (dev_events c)[stageSlot := n],
         slotPending := (slotPending c)[stageSlot := True],
         uploadPending := AList.update k True (uploadPending c),
         uploadEvent := AList.update k stageSlot (uploadEvent c),
         uploadStageSlot := AList.update k stageSlot (uploadStageSlot c)\<rparr>))))"

definition stage_resident :: "stage_answers \<Rightarrow> int \<Rightarrow> int \<Rightarrow> bytes \<Rightarrow> gpu_cache \<Rightarrow> (bool \<times> gpu_cache) option" where
  "stage_resident ans layer eid w c =
     Option.bind (acquireSlot layer eid c) (\<lambda>(slot, needUpload, c).
       if \<not> needUpload then Some (True, c)
       else Option.bind (claimStageSlot (sa_sync ans) c) (\<lambda>(stageSlot, c).
         case stageSlot of None \<Rightarrow> Some (False, c) | Some s \<Rightarrow> upload layer eid w slot s (sa_copy ans) c))"

definition gpuExpertStage :: "bool \<Rightarrow> stage_answers \<Rightarrow> int \<Rightarrow> int \<Rightarrow> bytes \<Rightarrow> int \<Rightarrow> int \<Rightarrow> gpu_cache option \<Rightarrow>
    (bool \<times> gpu_cache option) option" where
  "gpuExpertStage avail ans layer eid w hidden interSize g =
     (case g of
        None \<Rightarrow> Some (False, g)
      | Some c \<Rightarrow>
          if \<not> avail then Some (False, g)
          else (case (if configured c then (True, c)
                     else gc_alloc (sa_alloc ans) (sa_junk ans) (requestedCapacity c) hidden interSize c) of
            (ok, c) \<Rightarrow>
              if \<not> ok then Some (False, Some c)
              else if gc_hidden c \<noteq> hidden \<or> gc_inter c \<noteq> interSize \<or> gc_capacity c = 0 then Some (False, Some c)
              else map_option (map_prod id Some) (stage_resident ans layer eid w c)))"

record ffn_answers =
  fa_wait :: bool
  fa_h2d :: bool
  fa_kernel :: bool
  fa_d2h :: bool

type_synonym ffn_kernel = "bytes \<Rightarrow> f32 list \<Rightarrow> int \<Rightarrow> int \<Rightarrow> f32 list"

text \<open>
  The wait of the compute stream: the ticket it waits for, whether the call failed, the cache. A key
  whose upload was consumed before has nothing to wait for.
\<close>

definition ffn_wait :: "bool \<Rightarrow> u64 \<Rightarrow> gpu_cache \<Rightarrow> nat \<times> bool \<times> gpu_cache" where
  "ffn_wait wait_ok k c =
     (if map_of (uploadPending c) k = Some True then
        case map_of (uploadEvent c) k of
          Some ev \<Rightarrow> if \<not> wait_ok then (0, False, c)
            else (dev_events c ! ev, True,
                  (case map_of (uploadStageSlot c) k of Some s \<Rightarrow> releaseStageSlot s c | None \<Rightarrow> c)
                    \<lparr>uploadPending := AList.update k False (uploadPending c)\<rparr>)
        | None \<Rightarrow> (0, True,
                  (case map_of (uploadStageSlot c) k of Some s \<Rightarrow> releaseStageSlot s c | None \<Rightarrow> c)
                    \<lparr>uploadPending := AList.update k False (uploadPending c)\<rparr>)
      else (0, True, c))"

text \<open>
  The kernel runs once what it waits for has executed; the closing copy to the host is synchronous
  and drains both streams.
\<close>

definition gpuExpertFFN :: "bool \<Rightarrow> ffn_kernel \<Rightarrow> ffn_answers \<Rightarrow> int \<Rightarrow> int \<Rightarrow> f32 list \<Rightarrow> int \<Rightarrow> int \<Rightarrow> gpu_cache option \<Rightarrow>
    (f32 list option \<times> gpu_cache option) option" where
  "gpuExpertFFN avail krn ans layer eid x hidden interSize g =
     (case g of
        None \<Rightarrow> Some (None, g)
      | Some c \<Rightarrow>
          if \<not> avail \<or> \<not> configured c \<or> gc_hidden c \<noteq> hidden \<or> gc_inter c \<noteq> interSize then Some (None, g)
          else (case findSlot layer eid c of
            None \<Rightarrow> Some (None, g)
          | Some slot \<Rightarrow>
              (case ffn_wait (fa_wait ans) (gpu_key layer eid) c of (n, ok, c) \<Rightarrow>
                 if \<not> ok then Some (None, Some c)
                 else if \<not> fa_h2d ans \<or> \<not> fa_kernel ans then Some (None, Some c)
                 else let c = dev_wait n c in
                   Option.bind (rd (dev_mem c) slot) (\<lambda>w.
                     if \<not> fa_d2h ans then Some (None, Some c)
                     else Some (Some (krn w (take (nat hidden) x) hidden interSize), Some (dev_drain c))))))"

end
