(* ===== verification/GpuCacheProofs.thy ===== *)
theory GpuCacheProofs
  imports GpuCache
begin

text \<open>
  The contract of the VRAM window: as long as the device answers, whatever the copy stream's progress,
  an FFN computes with exactly the bytes that were staged for its expert.
\<close>

subsection \<open>The copy stream\<close>

definition apply_copies :: "bytes list \<Rightarrow> queued_copy list \<Rightarrow> bytes list \<Rightarrow> bytes list" where
  "apply_copies hosts qs mem = foldl (\<lambda>m q. m[qc_expert q := hosts ! qc_stage q]) mem qs"

lemma apply_copies_simps [simp]:
  "apply_copies hosts [] mem = mem"
  "apply_copies hosts (q # qs) mem = apply_copies hosts qs (mem[qc_expert q := hosts ! qc_stage q])"
  "apply_copies hosts (ps @ qs) mem = apply_copies hosts qs (apply_copies hosts ps mem)"
  by (simp_all add: apply_copies_def)

lemma length_apply_copies [simp]: "length (apply_copies hosts qs mem) = length mem"
  by (induction qs arbitrary: mem) simp_all

lemma apply_copies_other: "e \<notin> qc_expert ` set qs \<Longrightarrow> apply_copies hosts qs mem ! e = mem ! e"
  by (induction qs arbitrary: mem) auto

lemma apply_copies_hosts:
  "s \<notin> qc_stage ` set qs \<Longrightarrow> apply_copies (hosts[s := h]) qs mem = apply_copies hosts qs mem"
  by (induction qs arbitrary: mem) auto

lemma dev_steps:
  "(dev_step ^^ n) c = c\<lparr>dev_mem := apply_copies (gc_hosts c) (take n (dev_copies c)) (dev_mem c),
     dev_copies := drop n (dev_copies c)\<rparr>"
proof (induction n arbitrary: c)
  case (Suc n)
  show ?case
  proof (cases "dev_copies c")
    case Nil
    then have "dev_step c = c" by (simp add: dev_step_def)
    then show ?thesis using Suc.IH [of c] Nil by (simp add: funpow_Suc_right del: funpow.simps)
  next
    case (Cons q qs)
    then have "dev_step c = c\<lparr>dev_mem := (dev_mem c)[qc_expert q := gc_hosts c ! qc_stage q], dev_copies := qs\<rparr>"
      by (simp add: dev_step_def exec_copy_def)
    then show ?thesis using Suc.IH [of "dev_step c"] Cons by (simp add: funpow_Suc_right del: funpow.simps)
  qed
qed simp

text \<open>What the device memory will hold once every queued copy has executed.\<close>

definition final_mem :: "gpu_cache \<Rightarrow> bytes list" where
  "final_mem c = apply_copies (gc_hosts c) (dev_copies c) (dev_mem c)"

lemma dev_drain_eq: "dev_drain c = c\<lparr>dev_mem := final_mem c, dev_copies := []\<rparr>"
  by (simp add: dev_drain_def dev_steps final_mem_def)

lemma dev_step_eq: "dev_step c = (dev_step ^^ 1) c"
  by simp

lemma final_mem_steps: "final_mem ((dev_step ^^ n) c) = final_mem c"
  unfolding dev_steps final_mem_def
  by simp (metis append_take_drop_id apply_copies_simps(3))

subsection \<open>The invariant\<close>

definition gc_shape :: "gpu_cache \<Rightarrow> bool" where
  "gc_shape c \<longleftrightarrow> configured c \<and> 0 < gc_capacity c \<and> 0 < slotCount c \<and> 0 \<le> nextStageSlot c \<and> nextStageSlot c < slotCount c \<and>
     length (gc_experts c) = nat (gc_capacity c) \<and> length (dev_mem c) = nat (gc_capacity c) \<and>
     length (gc_hosts c) = nat (slotCount c) \<and> length (slotPending c) = nat (slotCount c) \<and>
     length (dev_events c) = nat (slotCount c) \<and>
     (\<forall>d \<in> set (gc_experts c). de_weightBytes d = expertWeightBytes (gc_hidden c) (gc_inter c)) \<and>
     (\<forall>h \<in> set (gc_hosts c). length h = expertWeightBytes (gc_hidden c) (gc_inter c))"

definition gc_lru :: "gpu_cache \<Rightarrow> bool" where
  "gc_lru c \<longleftrightarrow> 0 \<le> lruClock c \<and> (\<forall>d \<in> set (gc_experts c). de_lastUse d \<le> lruClock c) \<and>
     distinct (map fst (mapKeyToSlot c)) \<and> distinct (map snd (mapKeyToSlot c)) \<and>
     (\<forall>(k, e) \<in> set (mapKeyToSlot c). k \<noteq> 0 \<and> e < nat (gc_capacity c)) \<and>
     (\<forall>e < nat (gc_capacity c). de_inUse (gc_experts c ! e) \<longleftrightarrow> e \<in> snd ` set (mapKeyToSlot c))"

definition gc_queue :: "gpu_cache \<Rightarrow> bool" where
  "gc_queue c \<longleftrightarrow> sorted_wrt (<) (map qc_ticket (dev_copies c)) \<and>
     (\<forall>q \<in> set (dev_copies c). 0 < qc_ticket q \<and> qc_ticket q \<le> dev_ticket c \<and> qc_stage q < nat (slotCount c) \<and>
        slotPending c ! qc_stage q) \<and>
     (\<forall>n \<in> set (dev_events c). n \<le> dev_ticket c)"

text \<open>
  A mapped slot will hold the bytes of its key; without a pending upload it already does, and a
  pending upload has an event behind every copy to the slot.
\<close>

definition slot_ok :: "(u64 \<Rightarrow> bytes) \<Rightarrow> gpu_cache \<Rightarrow> u64 \<Rightarrow> nat \<Rightarrow> bool" where
  "slot_ok src c k e \<longleftrightarrow> final_mem c ! e = src k \<and>
     (if map_of (uploadPending c) k = Some True
      then \<exists>s < nat (slotCount c). map_of (uploadEvent c) k = Some s \<and> map_of (uploadStageSlot c) k = Some s \<and>
        (\<forall>q \<in> set (dev_copies c). qc_expert q = e \<longrightarrow> qc_ticket q \<le> dev_events c ! s)
      else e \<notin> qc_expert ` set (dev_copies c))"

lemma slot_ok_frame:
  "gc_hosts c' = gc_hosts c \<Longrightarrow> dev_copies c' = dev_copies c \<Longrightarrow> dev_mem c' = dev_mem c \<Longrightarrow>
   uploadPending c' = uploadPending c \<Longrightarrow> uploadEvent c' = uploadEvent c \<Longrightarrow> uploadStageSlot c' = uploadStageSlot c \<Longrightarrow>
   slotCount c' = slotCount c \<Longrightarrow> dev_events c' = dev_events c \<Longrightarrow> slot_ok src c' k e \<longleftrightarrow> slot_ok src c k e"
  by (simp add: slot_ok_def final_mem_def)

definition gc_content :: "(u64 \<Rightarrow> bytes) \<Rightarrow> gpu_cache \<Rightarrow> bool" where
  "gc_content src c \<longleftrightarrow> (\<forall>(k, e) \<in> set (mapKeyToSlot c). slot_ok src c k e)"

definition gc_ok :: "(u64 \<Rightarrow> bytes) \<Rightarrow> gpu_cache \<Rightarrow> bool" where
  "gc_ok src c \<longleftrightarrow> gc_shape c \<and> gc_lru c \<and> gc_queue c \<and> gc_content src c"

lemma slot_ok_steps: "slot_ok src c k e \<Longrightarrow> slot_ok src ((dev_step ^^ n) c) k e"
  unfolding slot_ok_def final_mem_steps by (auto simp: dev_steps dest: in_set_dropD split: if_splits)

lemma gc_ok_steps:
  assumes "gc_ok src c"
  shows "gc_ok src ((dev_step ^^ n) c)"
proof -
  have "gc_shape ((dev_step ^^ n) c)" "gc_lru ((dev_step ^^ n) c)"
    using assms by (simp_all add: gc_ok_def gc_shape_def gc_lru_def dev_steps)
  moreover have "gc_queue ((dev_step ^^ n) c)"
    using assms by (auto simp: gc_ok_def gc_queue_def dev_steps drop_map [symmetric] sorted_wrt_drop dest!: in_set_dropD)
  moreover have "mapKeyToSlot ((dev_step ^^ n) c) = mapKeyToSlot c" by (simp add: dev_steps)
  then have "gc_content src ((dev_step ^^ n) c)"
    using assms slot_ok_steps by (auto simp: gc_ok_def gc_content_def)
  ultimately show ?thesis by (simp add: gc_ok_def)
qed

lemma gc_ok_drain: "gc_ok src c \<Longrightarrow> gc_ok src (dev_drain c)"
  unfolding dev_drain_def by (rule gc_ok_steps)

subsection \<open>Admission\<close>

lemma oldest_scan_bound:
  "oldest_scan ds e oldest v = Some r \<Longrightarrow> v = Some r \<or> e \<le> r \<and> r < e + length ds"
  by (induction ds e oldest v rule: oldest_scan.induct) (fastforce split: if_splits)+

lemma oldest_scan_Some: "v \<noteq> None \<or> (\<exists>d \<in> set ds. de_lastUse d < oldest) \<Longrightarrow> oldest_scan ds e oldest v \<noteq> None"
  by (induction ds e oldest v rule: oldest_scan.induct) auto

lemma unused_scan_bound: "unused_scan ds e = 0 \<or> unused_scan ds e < e + length ds"
  by (induction ds e rule: unused_scan.induct) auto

lemma evicted_key_cases: "evicted_key v kvs = 0 \<or> (evicted_key v kvs, v) \<in> set kvs"
proof -
  have "foldl (\<lambda>k (k', e). if e = v then k' else k) k kvs = k \<or> (foldl (\<lambda>k (k', e). if e = v then k' else k) k kvs, v) \<in> set kvs" for k
    by (induction kvs arbitrary: k) (auto split: prod.splits)
  then show ?thesis unfolding evicted_key_def by blast
qed

lemma update_new: "k \<notin> fst ` set xs \<Longrightarrow> AList.update k v xs = xs @ [(k, v)]"
  by (induction xs) auto

lemma same_slot: "distinct (map snd xs) \<Longrightarrow> (a, e) \<in> set xs \<Longrightarrow> (b, e) \<in> set xs \<Longrightarrow> a = b"
  by (induction xs) force+

text \<open>A hit only moves the clock.\<close>

lemma acquire_hit:
  assumes "gc_ok src c" "lruClock c < 2147483647" "map_of (mapKeyToSlot c) (gpu_key l eid) = Some e"
  shows "\<exists>c'. acquireSlot l eid c = Some (e, False, c') \<and> gc_ok src c' \<and> lruClock c' = lruClock c + 1"
proof -
  have e: "e < length (gc_experts c)" using assms(1) map_of_SomeD [OF assms(3)] by (auto simp: gc_ok_def gc_lru_def gc_shape_def)
  let ?d = "(gc_experts c ! e)\<lparr>de_lastUse := lruClock c + 1\<rparr>"
  let ?c = "c\<lparr>gc_experts := (gc_experts c)[e := ?d], lruClock := lruClock c + 1\<rparr>"
  have "gc_shape ?c" using assms(1) e nth_mem [OF e]
    by (auto simp: gc_ok_def gc_shape_def dest!: subsetD [OF set_update_subset_insert])
  moreover have "gc_lru ?c" using assms(1) e
    by (auto simp: gc_ok_def gc_lru_def nth_list_update dest!: subsetD [OF set_update_subset_insert])
  moreover have "gc_queue ?c" using assms(1) by (simp add: gc_ok_def gc_queue_def)
  moreover have "gc_content src ?c" using assms(1)
    by (auto simp: gc_ok_def gc_content_def slot_ok_frame [of ?c c])
  ultimately have "gc_ok src ?c" by (simp add: gc_ok_def)
  then show ?thesis using assms(2,3) e by (simp add: acquireSlot_def Let_def rd_def)
qed

text \<open>What holds between the admission of a key and its upload: the content of every other key.\<close>

definition gc_but :: "(u64 \<Rightarrow> bytes) \<Rightarrow> u64 \<Rightarrow> nat \<Rightarrow> gpu_cache \<Rightarrow> bool" where
  "gc_but src k v c \<longleftrightarrow> gc_shape c \<and> gc_lru c \<and> gc_queue c \<and> (k, v) \<in> set (mapKeyToSlot c) \<and>
     (\<forall>(k', e) \<in> set (mapKeyToSlot c). k' \<noteq> k \<longrightarrow> slot_ok src c k' e)"

lemma victim_found:
  assumes "gc_ok src c" "lruClock c < 2147483647"
  shows "\<exists>v < nat (gc_capacity c). (if gc_capacity c \<le> int (length (mapKeyToSlot c))
      then oldest_scan (take (nat (gc_capacity c)) (gc_experts c)) 0 2147483647 None
      else Some (unused_scan (take (nat (gc_capacity c)) (gc_experts c)) 0)) = Some v"
proof -
  have len: "length (gc_experts c) = nat (gc_capacity c)" and pos: "0 < nat (gc_capacity c)"
    using assms(1) by (simp_all add: gc_ok_def gc_shape_def)
  have "gc_experts c ! 0 \<in> set (gc_experts c)" using len pos by simp
  moreover have "de_lastUse (gc_experts c ! 0) < 2147483647"
    using assms(1,2) nth_mem [of 0 "gc_experts c"] len pos unfolding gc_ok_def gc_lru_def by fastforce
  ultimately have "oldest_scan (gc_experts c) 0 2147483647 None \<noteq> None" by (intro oldest_scan_Some) blast
  then show ?thesis
    using oldest_scan_bound [of "gc_experts c" 0 2147483647 None] unused_scan_bound [of "gc_experts c" 0] len pos by auto
qed

lemma acquire_miss:
  assumes "gc_ok src c" "lruClock c < 2147483647" "map_of (mapKeyToSlot c) (gpu_key l eid) = None" "gpu_key l eid \<noteq> 0"
  shows "\<exists>v c'. acquireSlot l eid c = Some (v, True, c') \<and> gc_but src (gpu_key l eid) v c' \<and> lruClock c' = lruClock c + 1"
proof -
  obtain v where v: "v < nat (gc_capacity c)" "(if gc_capacity c \<le> int (length (mapKeyToSlot c))
      then oldest_scan (take (nat (gc_capacity c)) (gc_experts c)) 0 2147483647 None
      else Some (unused_scan (take (nat (gc_capacity c)) (gc_experts c)) 0)) = Some v"
    using victim_found [OF assms(1,2)] by blast
  let ?k = "gpu_key l eid" and ?M = "filter (\<lambda>(k', e). e \<noteq> v) (mapKeyToSlot c)" and ?ev = "evicted_key v (mapKeyToSlot c)"
  let ?d = "(gc_experts c ! v)\<lparr>de_inUse := True, de_lastUse := lruClock c + 1\<rparr>"
  let ?c = "c\<lparr>gc_experts := (gc_experts c)[v := ?d], mapKeyToSlot := AList.update ?k v ?M,
      uploadPending := AList.delete ?ev (uploadPending c), uploadEvent := AList.delete ?ev (uploadEvent c),
      uploadStageSlot := AList.delete ?ev (uploadStageSlot c), lruClock := lruClock c + 1\<rparr>"
  have lru: "gc_lru c" and shape: "gc_shape c" using assms(1) by (simp_all add: gc_ok_def)
  have len: "v < length (gc_experts c)" using v(1) shape by (simp add: gc_shape_def)
  have new: "?k \<notin> fst ` set ?M" using assms(3) by (auto simp: map_of_eq_None_iff)
  have M: "AList.update ?k v ?M = ?M @ [(?k, v)]" by (rule update_new [OF new])
  have kept: "k' \<noteq> ?ev" if "(k', e) \<in> set ?M" for k' e
    using evicted_key_cases [of v "mapKeyToSlot c"] that lru
    by (auto simp: gc_lru_def dest: eq_key_imp_eq_value)
  have "gc_shape ?c" using shape len nth_mem [OF len]
    by (auto simp: gc_shape_def dest!: subsetD [OF set_update_subset_insert])
  moreover have "gc_lru ?c"
  proof -
    have "distinct (map fst ?M)" "distinct (map snd ?M)" using lru by (auto simp: gc_lru_def distinct_map_filter)
    moreover have "\<forall>d \<in> set ((gc_experts c)[v := ?d]). de_lastUse d \<le> lruClock c + 1"
      using lru by (auto simp: gc_lru_def dest!: subsetD [OF set_update_subset_insert])
    moreover have "\<forall>e < nat (gc_capacity c). de_inUse ((gc_experts c)[v := ?d] ! e) \<longleftrightarrow> e \<in> snd ` set (?M @ [(?k, v)])"
    proof -
      have "e \<in> snd ` set (?M @ [(?k, v)]) \<longleftrightarrow> e = v \<or> e \<in> snd ` set (mapKeyToSlot c)" for e by force
      then show ?thesis using lru len by (simp add: gc_lru_def nth_list_update)
    qed
    ultimately show ?thesis using lru v(1) new assms(4) unfolding M gc_lru_def by auto
  qed
  moreover have "gc_queue ?c" using assms(1) by (simp add: gc_ok_def gc_queue_def)
  moreover have "slot_ok src ?c k' e" if "(k', e) \<in> set (?M @ [(?k, v)])" "k' \<noteq> ?k" for k' e
  proof -
    have "(k', e) \<in> set ?M" using that by auto
    then have "slot_ok src c k' e" "k' \<noteq> ?ev" using assms(1) kept by (auto simp: gc_ok_def gc_content_def)
    then show ?thesis by (simp add: slot_ok_def final_mem_def delete_conv)
  qed
  ultimately have "gc_but src ?k v ?c" unfolding gc_but_def by (auto simp: M)
  then show ?thesis using assms(2,3) v(2) len by (simp add: acquireSlot_def Let_def rd_def)
qed

subsection \<open>Staging\<close>

lemma claim_slot:
  assumes "gc_but src k v c"
  shows "\<exists>s c'. claimStageSlot True c = Some (Some s, c') \<and> gc_but src k v c' \<and> s < nat (slotCount c') \<and>
    s \<notin> qc_stage ` set (dev_copies c') \<and> lruClock c' = lruClock c"
proof -
  let ?s = "nat (nextStageSlot c)" and ?n = "(nextStageSlot c + 1) mod max 1 (slotCount c)"
  have shape: "gc_shape c" and q: "gc_queue c" using assms by (simp_all add: gc_but_def)
  have s: "?s < length (slotPending c)" "?s < nat (slotCount c)" using shape by (simp_all add: gc_shape_def)
  have n: "0 \<le> ?n" "?n < slotCount c" using shape by (simp_all add: gc_shape_def)
  let ?c = "c\<lparr>nextStageSlot := ?n\<rparr>"
  have but: "gc_but src k v ?c"
  proof -
    have "gc_shape ?c" "gc_lru ?c" "gc_queue ?c" using assms n by (simp_all add: gc_but_def gc_shape_def gc_lru_def gc_queue_def)
    then show ?thesis using assms by (auto simp: gc_but_def slot_ok_frame [of ?c c])
  qed
  show ?thesis
  proof (cases "slotPending c ! ?s")
    case True
    let ?d = "(dev_drain ?c)\<lparr>slotPending := replicate (length (slotPending c)) False\<rparr>"
    have "gc_but src k v ?d"
    proof -
      have "gc_shape ?d" "gc_lru ?d" "gc_queue ?d"
        using but by (simp_all add: gc_but_def gc_shape_def gc_lru_def gc_queue_def dev_drain_eq final_mem_def)
      moreover have "slot_ok src ?d k' e" if "slot_ok src ?c k' e" for k' e
        using that by (auto simp: slot_ok_def dev_drain_eq final_mem_def split: if_splits)
      moreover have "mapKeyToSlot ?d = mapKeyToSlot ?c" by (simp add: dev_drain_eq)
      ultimately show ?thesis using but unfolding gc_but_def by (metis (no_types, lifting) case_prodD case_prodI2)
    qed
    then show ?thesis using True s by (simp add: claimStageSlot_def Let_def rd_def dev_drain_eq)
  next
    case False
    then have "?s \<notin> qc_stage ` set (dev_copies ?c)" using q by (auto simp: gc_queue_def)
    then show ?thesis using False s but by (simp add: claimStageSlot_def Let_def rd_def)
  qed
qed

lemma upload_ok:
  assumes "gc_but src k v c" "k = gpu_key l eid" "s < nat (slotCount c)" "s \<notin> qc_stage ` set (dev_copies c)"
    and "length (src k) = expertWeightBytes (gc_hidden c) (gc_inter c)"
  shows "\<exists>c'. upload l eid (src k) v s True c = Some (True, c') \<and> gc_ok src c' \<and> lruClock c' = lruClock c"
proof -
  have shape: "gc_shape c" and lru: "gc_lru c" and q: "gc_queue c" and kv: "(k, v) \<in> set (mapKeyToSlot c)"
    using assms(1) by (simp_all add: gc_but_def)
  have v: "v < length (gc_experts c)" "v < length (dev_mem c)" using kv lru shape by (auto simp: gc_lru_def gc_shape_def)
  have len: "s < length (gc_hosts c)" "s < length (slotPending c)" "s < length (dev_events c)"
    using assms(3) shape by (simp_all add: gc_shape_def)
  have w: "de_weightBytes (gc_experts c ! v) = length (src k)" "length (gc_hosts c ! s) = length (src k)"
    using shape nth_mem [OF v(1)] nth_mem [OF len(1)] assms(5) by (simp_all add: gc_shape_def)
  define n where "n = dev_ticket c + 1"
  define new where "new = \<lparr>qc_ticket = n, qc_stage = s, qc_expert = v\<rparr>"
  define c' where "c' = c\<lparr>gc_hosts := (gc_hosts c)[s := src k], dev_ticket := n, dev_copies := dev_copies c @ [new],
      dev_events := (dev_events c)[s := n], slotPending := (slotPending c)[s := True],
      uploadPending := AList.update k True (uploadPending c), uploadEvent := AList.update k s (uploadEvent c),
      uploadStageSlot := AList.update k s (uploadStageSlot c)\<rparr>"
  have up: "upload l eid (src k) v s True c = Some (True, c')"
    using v(1) len(1) w by (simp add: upload_def rd_def memcpy_def assms(2) [symmetric] Let_def c'_def n_def new_def)
  have fin: "final_mem c' = (final_mem c)[v := src k]"
    using apply_copies_hosts [OF assms(4)] len(1) by (simp add: final_mem_def c'_def new_def)
  have "gc_shape c'" using shape len assms(5)
    by (auto simp: gc_shape_def c'_def dest!: subsetD [OF set_update_subset_insert])
  moreover have "gc_lru c'" using lru by (simp add: gc_lru_def c'_def)
  moreover have "gc_queue c'"
  proof -
    have "sorted_wrt (<) (map qc_ticket (dev_copies c'))"
      using q by (auto simp: gc_queue_def c'_def sorted_wrt_append n_def new_def)
    moreover have "0 < qc_ticket p \<and> qc_ticket p \<le> dev_ticket c' \<and> qc_stage p < nat (slotCount c') \<and> slotPending c' ! qc_stage p"
      if "p \<in> set (dev_copies c')" for p
    proof (cases "p = new")
      case True
      then show ?thesis using len assms(3) by (simp add: c'_def new_def n_def)
    next
      case False
      then have "p \<in> set (dev_copies c)" using that by (simp add: c'_def)
      then have "0 < qc_ticket p" "qc_ticket p \<le> dev_ticket c" "qc_stage p < nat (slotCount c)" "slotPending c ! qc_stage p"
        using q by (simp_all add: gc_queue_def)
      then show ?thesis using len by (cases "qc_stage p = s") (simp_all add: c'_def n_def)
    qed
    moreover have "m \<le> dev_ticket c'" if "m \<in> set (dev_events c')" for m
      using that q by (auto simp: gc_queue_def c'_def n_def dest!: subsetD [OF set_update_subset_insert])
    ultimately show ?thesis by (simp add: gc_queue_def)
  qed
  moreover have "slot_ok src c' k' e" if ke: "(k', e) \<in> set (mapKeyToSlot c)" for k' e
  proof (cases "k' = k")
    case True
    then have "e = v" using ke kv lru by (auto simp: gc_lru_def dest: eq_key_imp_eq_value)
    have "qc_ticket p \<le> n" if "p \<in> set (dev_copies c')" for p
      using that q by (auto simp: gc_queue_def c'_def new_def n_def)
    then show ?thesis unfolding slot_ok_def fin using True \<open>e = v\<close> v(2) len(3) assms(3)
      by (auto simp: final_mem_def c'_def update_conv')
  next
    case False
    have "distinct (map snd (mapKeyToSlot c))" using lru by (simp add: gc_lru_def)
    then have ev: "e \<noteq> v" using same_slot ke kv False by fast
    have old: "slot_ok src c k' e" using assms(1) ke False by (auto simp: gc_but_def)
    have mono: "dev_events c ! s' \<le> dev_events c' ! s'" if "s' < nat (slotCount c)" for s'
    proof -
      have "dev_events c ! s' \<in> set (dev_events c)" using that shape by (simp add: gc_shape_def)
      then have "dev_events c ! s' \<le> n" using q by (auto simp: gc_queue_def n_def)
      then show ?thesis using len by (cases "s' = s") (simp_all add: c'_def)
    qed
    have "final_mem c' ! e = src k'" using old ev by (simp add: fin slot_ok_def)
    moreover have "map_of (uploadPending c') k' = map_of (uploadPending c) k'" "map_of (uploadEvent c') k' = map_of (uploadEvent c) k'"
      "map_of (uploadStageSlot c') k' = map_of (uploadStageSlot c) k'" "slotCount c' = slotCount c"
      using False by (simp_all add: c'_def update_conv')
    moreover have "p \<in> set (dev_copies c') \<and> qc_expert p = e \<longleftrightarrow> p \<in> set (dev_copies c) \<and> qc_expert p = e" for p
      using ev by (auto simp: c'_def new_def)
    ultimately show ?thesis using old mono unfolding slot_ok_def
      by (auto split: if_splits intro: order_trans) (metis order_trans)+
  qed
  moreover have "mapKeyToSlot c' = mapKeyToSlot c" "lruClock c' = lruClock c" by (simp_all add: c'_def)
  ultimately show ?thesis using up by (auto simp: gc_ok_def gc_content_def)
qed

lemma upload_frame:
  "upload l eid w v s ok c = Some (r, c') \<Longrightarrow> gc_experts c' = gc_experts c \<and> mapKeyToSlot c' = mapKeyToSlot c \<and>
    gc_capacity c' = gc_capacity c \<and> gc_hidden c' = gc_hidden c \<and> gc_inter c' = gc_inter c"
  by (auto simp: upload_def Let_def Option.bind_eq_Some_conv split: if_splits)

lemma claim_frame:
  "claimStageSlot ok c = Some (r, c') \<Longrightarrow> gc_experts c' = gc_experts c \<and> mapKeyToSlot c' = mapKeyToSlot c \<and>
    gc_capacity c' = gc_capacity c \<and> gc_hidden c' = gc_hidden c \<and> gc_inter c' = gc_inter c"
  by (auto simp: claimStageSlot_def Let_def dev_drain_eq Option.bind_eq_Some_conv split: if_splits)

lemma acquire_frame:
  "acquireSlot l eid c = Some (v, b, c') \<Longrightarrow> gc_capacity c' = gc_capacity c \<and> gc_hidden c' = gc_hidden c \<and> gc_inter c' = gc_inter c"
  by (auto simp: acquireSlot_def Let_def Option.bind_eq_Some_conv split: if_splits option.splits)

lemma stage_resident_ok:
  assumes "gc_ok src c" "lruClock c < 2147483647" "gpu_key l eid \<noteq> 0" "sa_sync ans" "sa_copy ans"
    and "length (src (gpu_key l eid)) = expertWeightBytes (gc_hidden c) (gc_inter c)"
  shows "\<exists>v b c1 c'. acquireSlot l eid c = Some (v, b, c1) \<and> stage_resident ans l eid (src (gpu_key l eid)) c = Some (True, c') \<and>
    gc_ok src c' \<and> lruClock c' = lruClock c + 1 \<and> gc_experts c' = gc_experts c1 \<and> mapKeyToSlot c' = mapKeyToSlot c1 \<and>
    gc_capacity c' = gc_capacity c \<and> gc_hidden c' = gc_hidden c \<and> gc_inter c' = gc_inter c"
proof (cases "map_of (mapKeyToSlot c) (gpu_key l eid)")
  case (Some e)
  then obtain c' where c': "acquireSlot l eid c = Some (e, False, c')" "gc_ok src c'" "lruClock c' = lruClock c + 1"
    using acquire_hit [OF assms(1,2)] by blast
  then show ?thesis using acquire_frame [OF c'(1)] by (auto simp: stage_resident_def)
next
  case None
  then obtain v c1 where c1: "acquireSlot l eid c = Some (v, True, c1)" "gc_but src (gpu_key l eid) v c1" "lruClock c1 = lruClock c + 1"
    using acquire_miss [OF assms(1,2)] assms(3) by blast
  obtain s c2 where c2: "claimStageSlot True c1 = Some (Some s, c2)" "gc_but src (gpu_key l eid) v c2" "s < nat (slotCount c2)"
    "s \<notin> qc_stage ` set (dev_copies c2)" "lruClock c2 = lruClock c1"
    using claim_slot [OF c1(2)] by blast
  have "length (src (gpu_key l eid)) = expertWeightBytes (gc_hidden c2) (gc_inter c2)"
    using assms(6) acquire_frame [OF c1(1)] claim_frame [OF c2(1)] by simp
  then obtain c' where c': "upload l eid (src (gpu_key l eid)) v s True c2 = Some (True, c')" "gc_ok src c'" "lruClock c' = lruClock c2"
    using upload_ok [OF c2(2) refl c2(3,4)] by blast
  show ?thesis
    using c1 c2 c' assms(4,5) acquire_frame [OF c1(1)] claim_frame [OF c2(1)] upload_frame [OF c'(1)]
    by (auto simp: stage_resident_def)
qed

subsection \<open>Recency\<close>

definition slot_use :: "gpu_cache \<Rightarrow> u64 \<Rightarrow> int" where
  "slot_use c k = de_lastUse (gc_experts c ! the (map_of (mapKeyToSlot c) k))"

text \<open>The resident keys, the most recently staged first.\<close>

definition gc_recency :: "gpu_cache \<Rightarrow> u64 list \<Rightarrow> bool" where
  "gc_recency c ks \<longleftrightarrow> distinct ks \<and> set ks = fst ` set (mapKeyToSlot c) \<and> sorted_wrt (\<lambda>a b. slot_use c b < slot_use c a) ks"

lemma recency_cong:
  "gc_experts c' = gc_experts c \<Longrightarrow> mapKeyToSlot c' = mapKeyToSlot c \<Longrightarrow> gc_recency c' ks \<longleftrightarrow> gc_recency c ks"
  by (simp add: gc_recency_def slot_use_def)

lemma resident_slot:
  assumes "gc_ok src c" "(k, e) \<in> set (mapKeyToSlot c)"
  shows "map_of (mapKeyToSlot c) k = Some e" "e < length (gc_experts c)" "slot_use c k \<le> lruClock c"
proof -
  show k: "map_of (mapKeyToSlot c) k = Some e" and e: "e < length (gc_experts c)"
    using assms by (auto simp: gc_ok_def gc_lru_def gc_shape_def)
  show "slot_use c k \<le> lruClock c"
    using assms(1) nth_mem [OF e] by (auto simp: gc_ok_def gc_lru_def slot_use_def k)
qed

lemma resident_count:
  assumes "gc_ok src c" "gc_recency c ks"
  shows "length ks = length (mapKeyToSlot c)" "length (mapKeyToSlot c) \<le> nat (gc_capacity c)"
proof -
  have "length ks = card (fst ` set (mapKeyToSlot c))" using assms(2) by (metis distinct_card gc_recency_def)
  also have "\<dots> = length (mapKeyToSlot c)"
    using assms(1) distinct_card [of "map fst (mapKeyToSlot c)"] by (simp add: gc_ok_def gc_lru_def)
  finally show "length ks = length (mapKeyToSlot c)" .
  have "length (mapKeyToSlot c) = card (set (map snd (mapKeyToSlot c)))"
    using assms(1) distinct_card [of "map snd (mapKeyToSlot c)"] by (simp add: gc_ok_def gc_lru_def)
  also have "\<dots> \<le> card {..<nat (gc_capacity c)}"
    using assms(1) by (intro card_mono) (auto simp: gc_ok_def gc_lru_def)
  finally show "length (mapKeyToSlot c) \<le> nat (gc_capacity c)" by simp
qed

lemma recency_hit:
  assumes "gc_ok src c" "gc_recency c ks" "(k, e) \<in> set (mapKeyToSlot c)" "lruClock c < n"
    and "c' = c\<lparr>gc_experts := (gc_experts c)[e := d\<lparr>de_lastUse := n\<rparr>], lruClock := n\<rparr>"
  shows "gc_recency c' (k # removeAll k ks)"
proof -
  have e: "map_of (mapKeyToSlot c) k = Some e" "e < length (gc_experts c)" using resident_slot [OF assms(1,3)] by simp_all
  have M: "mapKeyToSlot c' = mapKeyToSlot c" by (simp add: assms(5))
  have new: "slot_use c' k = n" using e by (simp add: slot_use_def assms(5))
  have old: "slot_use c' a = slot_use c a \<and> slot_use c a < n" if "a \<in> set ks" "a \<noteq> k" for a
  proof -
    have "a \<in> fst ` set (mapKeyToSlot c)" using that(1) assms(2) by (simp add: gc_recency_def)
    then obtain ea where a: "(a, ea) \<in> set (mapKeyToSlot c)" by auto
    have "ea \<noteq> e" using same_slot [of "mapKeyToSlot c" a ea k] a assms(1,3) that(2) by (auto simp: gc_ok_def gc_lru_def)
    then have "slot_use c' a = slot_use c a" using resident_slot(1) [OF assms(1) a] by (simp add: slot_use_def assms(5))
    then show ?thesis using resident_slot(3) [OF assms(1) a] assms(4) by simp
  qed
  have "sorted_wrt (\<lambda>a b. slot_use c b < slot_use c a) (removeAll k ks)"
    using assms(2) by (simp add: gc_recency_def removeAll_filter_not_eq sorted_wrt_filter)
  then have "sorted_wrt (\<lambda>a b. slot_use c' b < slot_use c' a) (removeAll k ks)"
    by (rule sorted_wrt_mono_rel [rotated]) (use old in auto)
  moreover have "set (k # removeAll k ks) = fst ` set (mapKeyToSlot c')"
    using assms(2,3) by (force simp: M gc_recency_def)
  ultimately show ?thesis using assms(2) old new by (auto simp: gc_recency_def distinct_removeAll)
qed

lemma oldest_scan_least:
  "oldest_scan ds e oldest v = Some r \<Longrightarrow>
     v = Some r \<and> (\<forall>d \<in> set ds. oldest \<le> de_lastUse d) \<or>
     e \<le> r \<and> r < e + length ds \<and> (\<forall>d \<in> set ds. de_lastUse (ds ! (r - e)) \<le> de_lastUse d) \<and> de_lastUse (ds ! (r - e)) < oldest"
proof (induction ds e oldest v rule: oldest_scan.induct)
  case (2 d ds e oldest victim)
  have nth: "Suc e \<le> r \<Longrightarrow> (d # ds) ! (r - e) = ds ! (r - Suc e)" by (simp add: nth_Cons')
  show ?case
  proof (cases "de_lastUse d < oldest")
    case True
    then have "Some e = Some r \<and> (\<forall>a \<in> set ds. de_lastUse d \<le> de_lastUse a) \<or>
        Suc e \<le> r \<and> r < Suc e + length ds \<and> (\<forall>a \<in> set ds. de_lastUse (ds ! (r - Suc e)) \<le> de_lastUse a) \<and>
        de_lastUse (ds ! (r - Suc e)) < de_lastUse d"
      using 2 by simp
    then show ?thesis using True nth by (auto simp del: nth_Cons')
  next
    case False
    then have "victim = Some r \<and> (\<forall>a \<in> set ds. oldest \<le> de_lastUse a) \<or>
        Suc e \<le> r \<and> r < Suc e + length ds \<and> (\<forall>a \<in> set ds. de_lastUse (ds ! (r - Suc e)) \<le> de_lastUse a) \<and>
        de_lastUse (ds ! (r - Suc e)) < oldest"
      using 2 by simp
    then show ?thesis using False nth by (auto simp del: nth_Cons')
  qed
qed simp

lemma unused_scan_unused: "\<exists>d \<in> set ds. \<not> de_inUse d \<Longrightarrow>
    e \<le> unused_scan ds e \<and> unused_scan ds e < e + length ds \<and> \<not> de_inUse (ds ! (unused_scan ds e - e))"
proof (induction ds e rule: unused_scan.induct)
  case (2 d ds e)
  show ?case
  proof (cases "de_inUse d")
    case True
    then have "Suc e \<le> unused_scan ds (Suc e) \<and> unused_scan ds (Suc e) < Suc e + length ds \<and>
        \<not> de_inUse (ds ! (unused_scan ds (Suc e) - Suc e))" using 2 by simp
    then show ?thesis using True by (auto simp: nth_Cons')
  qed simp
qed simp

text \<open>An admission into slot \<open>v\<close> of a cache whose keys other than the one in \<open>v\<close> are \<open>ks\<close>.\<close>

lemma recency_insert:
  assumes "gc_ok src c" "gc_recency c ks" "k \<notin> set ks" "lruClock c < n" "v < length (gc_experts c)"
    and "set ks' = fst ` set (filter (\<lambda>(k', e). e \<noteq> v) (mapKeyToSlot c))" "distinct ks'"
    and "sorted_wrt (\<lambda>a b. slot_use c b < slot_use c a) ks'"
    and "gc_experts c' = (gc_experts c)[v := d\<lparr>de_lastUse := n\<rparr>]"
    and "mapKeyToSlot c' = filter (\<lambda>(k', e). e \<noteq> v) (mapKeyToSlot c) @ [(k, v)]"
  shows "gc_recency c' (k # ks')"
proof -
  have k: "k \<notin> fst ` set (mapKeyToSlot c)" using assms(2,3) by (simp add: gc_recency_def)
  then have k': "k \<notin> set ks'" unfolding assms(6) by auto
  have none: "map_of (filter (\<lambda>(k', e). e \<noteq> v) (mapKeyToSlot c)) k = None" using k by (auto simp: map_of_eq_None_iff)
  have new: "slot_use c' k = n" using assms(5,9) none by (simp add: slot_use_def assms(10) map_add_Some_iff map_add_def)
  have old: "slot_use c' a = slot_use c a \<and> slot_use c a < n" if "a \<in> set ks'" for a
  proof -
    obtain ea where a: "(a, ea) \<in> set (mapKeyToSlot c)" "ea \<noteq> v"
      using \<open>a \<in> set ks'\<close> unfolding assms(6) by auto
    have "a \<noteq> k" using that k' by auto
    have "map_of (filter (\<lambda>(k', e). e \<noteq> v) (mapKeyToSlot c)) a = Some ea"
      using a assms(1) by (intro map_of_is_SomeI) (auto simp: gc_ok_def gc_lru_def distinct_map_filter)
    then have "slot_use c' a = slot_use c a"
      using resident_slot(1) [OF assms(1) a(1)] a(2) \<open>a \<noteq> k\<close> by (simp add: slot_use_def assms(9,10) map_add_def)
    then show ?thesis using resident_slot(3) [OF assms(1) a(1)] assms(4) by simp
  qed
  have "sorted_wrt (\<lambda>a b. slot_use c' b < slot_use c' a) ks'"
    by (rule sorted_wrt_mono_rel [rotated, OF assms(8)]) (use old in auto)
  moreover have "set (k # ks') = fst ` set (mapKeyToSlot c')" by (auto simp: assms(6,10))
  ultimately show ?thesis using assms(7) old new k' by (auto simp: gc_recency_def)
qed

lemma keys_without:
  assumes "distinct (map fst M)" "distinct (map snd M)" "(a, v) \<in> set M"
  shows "fst ` set (filter (\<lambda>(k, e). e \<noteq> v) M) = fst ` set M - {a}"
proof -
  have "(case p of (k, e) \<Rightarrow> e \<noteq> v) \<longleftrightarrow> fst p \<noteq> a" if "p \<in> set M" for p
  proof (cases p)
    case (Pair k e)
    have "e = v \<Longrightarrow> k = a" using same_slot [OF assms(2) _ assms(3)] that Pair by blast
    moreover have "k = a \<Longrightarrow> e = v" using eq_key_imp_eq_value [OF assms(1) _ assms(3)] that Pair by blast
    ultimately show ?thesis using Pair by auto
  qed
  then have "filter (\<lambda>(k, e). e \<noteq> v) M = filter (\<lambda>p. fst p \<noteq> a) M" by (rule filter_cong [OF refl])
  then show ?thesis by auto
qed

lemma slots_full:
  assumes "gc_ok src c" "gc_capacity c \<le> int (length (mapKeyToSlot c))"
  shows "snd ` set (mapKeyToSlot c) = {..<nat (gc_capacity c)}"
proof -
  have "snd ` set (mapKeyToSlot c) \<subseteq> {..<nat (gc_capacity c)}" using assms(1) by (auto simp: gc_ok_def gc_lru_def)
  moreover have "card (snd ` set (mapKeyToSlot c)) = length (mapKeyToSlot c)"
    using assms(1) distinct_card [of "map snd (mapKeyToSlot c)"] by (simp add: gc_ok_def gc_lru_def)
  then have "card {..<nat (gc_capacity c)} \<le> card (snd ` set (mapKeyToSlot c))" using assms(2) by simp
  ultimately show ?thesis by (intro card_seteq) simp_all
qed

text \<open>A full cache gives up the slot of the key staged longest ago.\<close>

lemma victim_is_oldest:
  assumes "gc_ok src c" "gc_recency c ks" "gc_capacity c \<le> int (length (mapKeyToSlot c))"
    and "oldest_scan (gc_experts c) 0 2147483647 None = Some v"
  shows "ks \<noteq> [] \<and> (last ks, v) \<in> set (mapKeyToSlot c)"
proof -
  have len: "length (gc_experts c) = nat (gc_capacity c)" "0 < nat (gc_capacity c)"
    using assms(1) by (simp_all add: gc_ok_def gc_shape_def)
  have least: "v < length (gc_experts c)" "\<forall>d \<in> set (gc_experts c). de_lastUse (gc_experts c ! v) \<le> de_lastUse d"
    using oldest_scan_least [OF assms(4)] by simp_all
  have "length ks = length (mapKeyToSlot c)" by (rule resident_count(1) [OF assms(1,2)])
  then have ne: "ks \<noteq> []" using len(2) assms(3) by auto
  have "v \<in> snd ` set (mapKeyToSlot c)" using slots_full [OF assms(1,3)] least(1) len(1) by auto
  then obtain kv where kv: "(kv, v) \<in> set (mapKeyToSlot c)" by auto
  have "last ks \<in> fst ` set (mapKeyToSlot c)" using ne assms(2) last_in_set [OF ne] by (simp add: gc_recency_def)
  then obtain e where e: "(last ks, e) \<in> set (mapKeyToSlot c)" by auto
  have "kv = last ks"
  proof (rule ccontr)
    assume other: "kv \<noteq> last ks"
    have "kv \<in> set ks" using kv assms(2) by (force simp: gc_recency_def)
    then have "kv \<in> set (butlast ks)" using other ne by (metis append_butlast_last_id in_set_butlast_appendI rotate1.simps(2) set_ConsD set_rotate1)
    moreover have "sorted_wrt (\<lambda>a b. slot_use c b < slot_use c a) (butlast ks @ [last ks])"
      using assms(2) ne by (simp add: gc_recency_def)
    ultimately have "slot_use c (last ks) < slot_use c kv" by (simp add: sorted_wrt_append)
    moreover have "slot_use c kv \<le> slot_use c (last ks)"
      using least(2) nth_mem [OF resident_slot(2) [OF assms(1) e]] resident_slot(1) [OF assms(1) e] resident_slot(1) [OF assms(1) kv]
      by (simp add: slot_use_def)
    ultimately show False by simp
  qed
  then show ?thesis using ne kv by simp
qed

text \<open>The resident keys of a window of \<open>cap\<close> experts after staging one.\<close>

definition lru_stage :: "nat \<Rightarrow> u64 \<Rightarrow> u64 list \<Rightarrow> u64 list" where
  "lru_stage cap k ks = take cap (k # removeAll k ks)"

lemma acquire_recency:
  assumes "gc_ok src c" "gc_recency c ks" "lruClock c < 2147483647" "acquireSlot l eid c = Some (v, b, c')"
  shows "gc_recency c' (lru_stage (nat (gc_capacity c)) (gpu_key l eid) ks)"
proof (cases "map_of (mapKeyToSlot c) (gpu_key l eid)")
  case (Some e)
  let ?k = "gpu_key l eid"
  have ke: "(?k, e) \<in> set (mapKeyToSlot c)" using Some by (rule map_of_SomeD)
  have "?k \<in> set ks" using ke assms(2) by (force simp: gc_recency_def)
  then have "length (removeAll ?k ks) < length ks" by (simp add: length_removeAll_less)
  then have "lru_stage (nat (gc_capacity c)) ?k ks = ?k # removeAll ?k ks"
    using resident_count [OF assms(1,2)] unfolding lru_stage_def by simp
  moreover have "gc_recency c' (?k # removeAll ?k ks)"
    using assms(3,4) resident_slot(2) [OF assms(1) ke]
    by (intro recency_hit [OF assms(1,2) ke, where n = "lruClock c + 1" and d = "gc_experts c ! e"]) (auto simp: acquireSlot_def Some Let_def rd_def)
  ultimately show ?thesis by simp
next
  case None
  let ?k = "gpu_key l eid" and ?M = "filter (\<lambda>(k', e). e \<noteq> v) (mapKeyToSlot c)"
  have len: "length (gc_experts c) = nat (gc_capacity c)" using assms(1) by (simp add: gc_ok_def gc_shape_def)
  have k: "?k \<notin> set ks" using None assms(2) by (simp add: gc_recency_def map_of_eq_None_iff)
  have new: "?k \<notin> fst ` set ?M" using None by (auto simp: map_of_eq_None_iff)
  have victim: "(if gc_capacity c \<le> int (length (mapKeyToSlot c)) then oldest_scan (gc_experts c) 0 2147483647 None
      else Some (unused_scan (gc_experts c) 0)) = Some v" and v: "v < length (gc_experts c)"
    and c': "gc_experts c' = (gc_experts c)[v := ((gc_experts c ! v)\<lparr>de_inUse := True\<rparr>)\<lparr>de_lastUse := lruClock c + 1\<rparr>]"
      "mapKeyToSlot c' = ?M @ [(?k, v)]"
    using assms(3,4) update_new [OF new] None len
    by (auto simp: acquireSlot_def Let_def rd_def Option.bind_eq_Some_conv split: if_splits)
  note insert = recency_insert [OF assms(1,2) k _ v _ _ _ c']
  show ?thesis
  proof (cases "gc_capacity c \<le> int (length (mapKeyToSlot c))")
    case True
    then have last: "ks \<noteq> []" "(last ks, v) \<in> set (mapKeyToSlot c)"
      using victim_is_oldest [OF assms(1,2) True] victim by simp_all
    have split: "ks = butlast ks @ [last ks]" using last(1) by simp
    have d: "distinct (butlast ks)" "last ks \<notin> set (butlast ks)"
      using assms(2) split by (metis distinct_append gc_recency_def, metis distinct_append gc_recency_def not_distinct_conv_prefix)
    have "sorted_wrt (\<lambda>a b. slot_use c b < slot_use c a) (butlast ks)"
      using assms(2) split by (metis gc_recency_def sorted_wrt_append)
    moreover have "set (butlast ks) = fst ` set ?M"
    proof -
      have "set (butlast ks) = fst ` set (mapKeyToSlot c) - {last ks}"
        using assms(2) d(2) set_append [of "butlast ks" "[last ks]"] last(1) by (auto simp: gc_recency_def)
      also have "\<dots> = fst ` set ?M"
        using assms(1) by (intro keys_without [symmetric] last(2)) (simp_all add: gc_ok_def gc_lru_def)
      finally show ?thesis .
    qed
    ultimately have "gc_recency c' (?k # butlast ks)" using d(1) by (intro insert) simp_all
    moreover have "lru_stage (nat (gc_capacity c)) ?k ks = ?k # butlast ks"
    proof -
      have "length ks = nat (gc_capacity c)" using resident_count [OF assms(1,2)] True by simp
      then show ?thesis using k last(1) by (cases "nat (gc_capacity c)") (simp_all add: lru_stage_def butlast_conv_take)
    qed
    ultimately show ?thesis by simp
  next
    case False
    have "\<exists>e < nat (gc_capacity c). e \<notin> snd ` set (mapKeyToSlot c)"
    proof (rule ccontr)
      assume "\<not> ?thesis"
      then have "{..<nat (gc_capacity c)} \<subseteq> snd ` set (mapKeyToSlot c)" by auto
      then have "card {..<nat (gc_capacity c)} \<le> card (snd ` set (mapKeyToSlot c))" by (intro card_mono) simp_all
      then have "nat (gc_capacity c) \<le> card (snd ` set (mapKeyToSlot c))" by simp
      also have "\<dots> \<le> length (mapKeyToSlot c)" by (metis card_length length_map set_map)
      finally show False using False by simp
    qed
    then have "\<exists>d \<in> set (gc_experts c). \<not> de_inUse d"
      using assms(1) len by (auto simp: gc_ok_def gc_lru_def in_set_conv_nth Bex_def)
    then have "\<not> de_inUse (gc_experts c ! v)" using unused_scan_unused [of "gc_experts c" 0] victim False by simp
    then have free: "v \<notin> snd ` set (mapKeyToSlot c)" using assms(1) v len by (simp add: gc_ok_def gc_lru_def)
    then have M: "?M = mapKeyToSlot c" by (force simp: filter_id_conv)
    have "gc_recency c' (?k # ks)" using assms(2) by (intro insert) (simp_all add: M gc_recency_def)
    moreover have "lru_stage (nat (gc_capacity c)) ?k ks = ?k # ks"
      using k resident_count(1) [OF assms(1,2)] False by (simp add: lru_stage_def)
    ultimately show ?thesis by simp
  qed
qed

subsection \<open>Computing\<close>

lemma dev_wait_read:
  assumes "sorted_wrt (<) (map qc_ticket (dev_copies c))" "\<forall>q \<in> set (dev_copies c). qc_expert q = e \<longrightarrow> qc_ticket q \<le> n"
  shows "dev_mem (dev_wait n c) ! e = final_mem c ! e"
proof -
  let ?P = "\<lambda>q. qc_ticket q \<le> n"
  have later: "n < qc_ticket q" if "q \<in> set (dropWhile ?P (dev_copies c))" for q
    using assms(1) that
  proof (induction "dev_copies c" arbitrary: c)
    case (Cons a qs)
    have "sorted_wrt (<) (map qc_ticket qs)" using Cons.prems(1) by (simp flip: Cons.hyps(2))
    then show ?case
      using Cons.hyps(1) [of "c\<lparr>dev_copies := qs\<rparr>"] Cons.prems Cons.hyps(2) [symmetric] by (auto split: if_splits)
  qed simp
  have "e \<notin> qc_expert ` set (dropWhile ?P (dev_copies c))"
    using assms(2) later by (fastforce dest: set_dropWhileD)
  moreover have "final_mem c = apply_copies (gc_hosts c) (dropWhile ?P (dev_copies c)) (dev_mem (dev_wait n c))"
    using final_mem_steps [of "length (takeWhile ?P (dev_copies c))" c]
    by (simp add: final_mem_def dev_wait_def dev_steps dropWhile_eq_drop)
  ultimately show ?thesis by (simp add: apply_copies_other)
qed

text \<open>What the wait leaves alone.\<close>

lemma ffn_wait_ok:
  assumes "gc_ok src c" "(k, e) \<in> set (mapKeyToSlot c)"
  shows "\<exists>n c'. ffn_wait True k c = (n, True, c') \<and> (\<forall>q \<in> set (dev_copies c). qc_expert q = e \<longrightarrow> qc_ticket q \<le> n) \<and>
    (\<exists>sp up. c' = c\<lparr>slotPending := sp, uploadPending := up\<rparr> \<and> length sp = length (slotPending c) \<and>
      (\<forall>k'. map_of up k' = (if k' = k \<and> map_of (uploadPending c) k = Some True then Some False else map_of (uploadPending c) k')))"
proof (cases "map_of (uploadPending c) k = Some True")
  case True
  then obtain s where s: "map_of (uploadEvent c) k = Some s" "map_of (uploadStageSlot c) k = Some s"
      "\<forall>q \<in> set (dev_copies c). qc_expert q = e \<longrightarrow> qc_ticket q \<le> dev_events c ! s"
    using assms by (fastforce simp: gc_ok_def gc_content_def slot_ok_def)
  let ?sp = "(slotPending c)[s := False]" and ?up = "AList.update k False (uploadPending c)"
  have "ffn_wait True k c = (dev_events c ! s, True, c\<lparr>slotPending := ?sp, uploadPending := ?up\<rparr>)"
    using True s by (simp add: ffn_wait_def releaseStageSlot_def)
  moreover have "map_of ?up k' = (if k' = k \<and> map_of (uploadPending c) k = Some True then Some False else map_of (uploadPending c) k')" for k'
    using True by (simp add: update_conv')
  ultimately show ?thesis using s(3) by (metis length_list_update)
next
  case False
  then have "ffn_wait True k c = (0, True, c)" by (simp add: ffn_wait_def)
  moreover have "e \<notin> qc_expert ` set (dev_copies c)"
    using assms False by (fastforce simp: gc_ok_def gc_content_def slot_ok_def)
  moreover have "c = c\<lparr>slotPending := slotPending c, uploadPending := uploadPending c\<rparr>" by simp
  ultimately show ?thesis using False by (auto intro!: exI [of _ "slotPending c"] exI [of _ "uploadPending c"])
qed

lemma ffn_resident:
  assumes "gc_ok src c" "findSlot l eid c = Some e" "fa_wait ans" "fa_h2d ans" "fa_kernel ans" "fa_d2h ans"
  shows "\<exists>c'. gpuExpertFFN True krn ans l eid x (gc_hidden c) (gc_inter c) (Some c) =
      Some (Some (krn (src (gpu_key l eid)) (take (nat (gc_hidden c)) x) (gc_hidden c) (gc_inter c)), Some c') \<and>
    gc_ok src c' \<and> gc_experts c' = gc_experts c \<and> mapKeyToSlot c' = mapKeyToSlot c \<and> lruClock c' = lruClock c \<and>
    gc_capacity c' = gc_capacity c \<and> gc_hidden c' = gc_hidden c \<and> gc_inter c' = gc_inter c"
proof -
  let ?k = "gpu_key l eid"
  have ke: "(?k, e) \<in> set (mapKeyToSlot c)" using assms(2) by (simp add: findSlot_def map_of_SomeD)
  obtain n c1 sp up where w: "ffn_wait True ?k c = (n, True, c1)" "\<forall>q \<in> set (dev_copies c). qc_expert q = e \<longrightarrow> qc_ticket q \<le> n"
      "c1 = c\<lparr>slotPending := sp, uploadPending := up\<rparr>" "length sp = length (slotPending c)"
      "\<And>k'. map_of up k' = (if k' = ?k \<and> map_of (uploadPending c) ?k = Some True then Some False else map_of (uploadPending c) k')"
    using ffn_wait_ok [OF assms(1) ke] by blast
  let ?c = "dev_drain (dev_wait n c1)"
  have fin: "final_mem c1 = final_mem c" by (simp add: w(3) final_mem_def)
  have e: "e < length (dev_mem c)" using assms(1) ke by (auto simp: gc_ok_def gc_lru_def gc_shape_def)
  have "dev_mem (dev_wait n c1) ! e = final_mem c1 ! e"
    using assms(1) w(2) by (intro dev_wait_read) (simp_all add: w(3) gc_ok_def gc_queue_def)
  then have read: "dev_mem (dev_wait n c1) ! e = src ?k"
    using assms(1) ke fin by (auto simp: gc_ok_def gc_content_def slot_ok_def)
  have "?c = c1\<lparr>dev_mem := final_mem c, dev_copies := []\<rparr>"
    using final_mem_steps fin by (simp add: dev_drain_eq dev_wait_def) (simp add: dev_steps)
  then have drained: "?c = c\<lparr>slotPending := sp, uploadPending := up, dev_mem := final_mem c, dev_copies := []\<rparr>"
    by (simp add: w(3))
  have "gc_shape ?c" "gc_lru ?c" "gc_queue ?c"
    using assms(1) w(4) by (simp_all add: gc_ok_def drained gc_shape_def gc_lru_def gc_queue_def final_mem_def)
  moreover have "slot_ok src ?c k' e'" if "slot_ok src c k' e'" for k' e'
    using that w(5) [of k'] by (auto simp: slot_ok_def drained final_mem_def split: if_splits)
  then have "gc_content src ?c" using assms(1) by (auto simp: gc_ok_def gc_content_def drained)
  ultimately have "gc_ok src ?c" by (simp add: gc_ok_def)
  moreover have "configured c" using assms(1) by (simp add: gc_ok_def gc_shape_def)
  moreover have "length (dev_mem (dev_wait n c1)) = length (dev_mem c)" by (simp add: dev_wait_def dev_steps w(3))
  ultimately show ?thesis
    using assms(2-) w(1) read e by (auto simp: gpuExpertFFN_def rd_def Let_def drained)
qed

subsection \<open>Histories\<close>

datatype gpu_op = GStage int int stage_answers | GFfn int int "f32 list" ffn_answers | GProgress
datatype gpu_res = Staged bool | Computed "f32 list option"

text \<open>Staging, computing, and the copy stream making progress on its own.\<close>

fun gpu_run :: "ffn_kernel \<Rightarrow> (u64 \<Rightarrow> bytes) \<Rightarrow> int \<Rightarrow> int \<Rightarrow> gpu_op list \<Rightarrow> gpu_cache option \<Rightarrow> (gpu_res list \<times> gpu_cache option) option" where
  "gpu_run krn src h i [] g = Some ([], g)"
| "gpu_run krn src h i (GStage l e ans # ops) g =
     Option.bind (gpuExpertStage True ans l e (src (gpu_key l e)) h i g) (\<lambda>(ok, g).
       map_option (map_prod ((#) (Staged ok)) id) (gpu_run krn src h i ops g))"
| "gpu_run krn src h i (GFfn l e x ans # ops) g =
     Option.bind (gpuExpertFFN True krn ans l e x h i g) (\<lambda>(r, g).
       map_option (map_prod ((#) (Computed r)) id) (gpu_run krn src h i ops g))"
| "gpu_run krn src h i (GProgress # ops) g = gpu_run krn src h i ops (map_option dev_step g)"

text \<open>The contract: a window of the \<open>cap\<close> experts staged last, each computing with its own bytes.\<close>

fun lru_run :: "ffn_kernel \<Rightarrow> (u64 \<Rightarrow> bytes) \<Rightarrow> int \<Rightarrow> int \<Rightarrow> nat \<Rightarrow> gpu_op list \<Rightarrow> u64 list \<Rightarrow> gpu_res list" where
  "lru_run krn src h i cap [] ks = []"
| "lru_run krn src h i cap (GStage l e ans # ops) ks =
     Staged True # lru_run krn src h i cap ops (lru_stage cap (gpu_key l e) ks)"
| "lru_run krn src h i cap (GFfn l e x ans # ops) ks =
     Computed (if gpu_key l e \<in> set ks then Some (krn (src (gpu_key l e)) (take (nat h) x) h i) else None) #
     lru_run krn src h i cap ops ks"
| "lru_run krn src h i cap (GProgress # ops) ks = lru_run krn src h i cap ops ks"

fun gpu_op_ok :: "(u64 \<Rightarrow> bytes) \<Rightarrow> int \<Rightarrow> int \<Rightarrow> gpu_op \<Rightarrow> bool" where
  "gpu_op_ok src h i (GStage l e ans) \<longleftrightarrow> gpu_key l e \<noteq> 0 \<and> length (src (gpu_key l e)) = expertWeightBytes h i \<and>
     sa_alloc ans \<and> sa_sync ans \<and> sa_copy ans"
| "gpu_op_ok src h i (GFfn l e x ans) \<longleftrightarrow> fa_wait ans \<and> fa_h2d ans \<and> fa_kernel ans \<and> fa_d2h ans"
| "gpu_op_ok src h i GProgress \<longleftrightarrow> True"

definition gpu_sim :: "(u64 \<Rightarrow> bytes) \<Rightarrow> int \<Rightarrow> int \<Rightarrow> nat \<Rightarrow> gpu_cache \<Rightarrow> u64 list \<Rightarrow> bool" where
  "gpu_sim src h i cap c ks \<longleftrightarrow> gc_ok src c \<and> gc_recency c ks \<and> gc_hidden c = h \<and> gc_inter c = i \<and> gc_capacity c = int cap"

lemma sim_stage:
  assumes "gpu_sim src h i cap c ks" "lruClock c < 2147483647" "gpu_op_ok src h i (GStage l e ans)"
  shows "\<exists>c'. gpuExpertStage True ans l e (src (gpu_key l e)) h i (Some c) = Some (True, Some c') \<and>
    gpu_sim src h i cap c' (lru_stage cap (gpu_key l e) ks) \<and> lruClock c' = lruClock c + 1"
proof -
  have ok: "gc_ok src c" and rec: "gc_recency c ks" and geo: "gc_hidden c = h" "gc_inter c = i" "gc_capacity c = int cap"
    using assms(1) by (simp_all add: gpu_sim_def)
  obtain v b c1 c' where c': "acquireSlot l e c = Some (v, b, c1)" "stage_resident ans l e (src (gpu_key l e)) c = Some (True, c')"
      "gc_ok src c'" "lruClock c' = lruClock c + 1" "gc_experts c' = gc_experts c1" "mapKeyToSlot c' = mapKeyToSlot c1"
      "gc_capacity c' = gc_capacity c" "gc_hidden c' = gc_hidden c" "gc_inter c' = gc_inter c"
    using stage_resident_ok [OF ok assms(2), of l e ans] assms(3) geo by auto
  have "gc_recency c' (lru_stage cap (gpu_key l e) ks)"
    using acquire_recency [OF ok rec assms(2) c'(1)] recency_cong [OF c'(5,6)] geo by simp
  then show ?thesis using c' ok geo by (simp add: gpuExpertStage_def gpu_sim_def gc_ok_def gc_shape_def)
qed

lemma sim_ffn:
  assumes "gpu_sim src h i cap c ks" "gpu_op_ok src h i (GFfn l e x ans)"
  shows "\<exists>c'. gpuExpertFFN True krn ans l e x h i (Some c) =
      Some (if gpu_key l e \<in> set ks then Some (krn (src (gpu_key l e)) (take (nat h) x) h i) else None, Some c') \<and>
    gpu_sim src h i cap c' ks \<and> lruClock c' = lruClock c"
proof (cases "findSlot l e c")
  case None
  then have "gpu_key l e \<notin> set ks" using assms(1) by (simp add: findSlot_def gpu_sim_def gc_recency_def map_of_eq_None_iff)
  then show ?thesis using assms(1) None by (simp add: gpuExpertFFN_def gpu_sim_def)
next
  case (Some s)
  then have "gpu_key l e \<in> fst ` set (mapKeyToSlot c)" by (force simp: findSlot_def dest: map_of_SomeD)
  then have "gpu_key l e \<in> set ks" using assms(1) by (simp add: gpu_sim_def gc_recency_def)
  moreover have "gc_ok src c" "gc_hidden c = h" "gc_inter c = i" using assms(1) by (simp_all add: gpu_sim_def)
  moreover obtain c' where "gpuExpertFFN True krn ans l e x (gc_hidden c) (gc_inter c) (Some c) =
      Some (Some (krn (src (gpu_key l e)) (take (nat (gc_hidden c)) x) (gc_hidden c) (gc_inter c)), Some c')"
    "gc_ok src c'" "gc_experts c' = gc_experts c" "mapKeyToSlot c' = mapKeyToSlot c" "lruClock c' = lruClock c"
    "gc_capacity c' = gc_capacity c" "gc_hidden c' = gc_hidden c" "gc_inter c' = gc_inter c"
    using ffn_resident [OF calculation(2) Some, of ans krn x] assms(2) by auto
  moreover note recency_cong [OF this(3,4)]
  ultimately show ?thesis using assms(1) by (simp add: gpu_sim_def)
qed

lemma sim_progress: "gpu_sim src h i cap c ks \<Longrightarrow> gpu_sim src h i cap (dev_step c) ks \<and> lruClock (dev_step c) = lruClock c"
  using gc_ok_steps [of src c 1] dev_steps [of 1 c] recency_cong [of "dev_step c" c ks] by (simp add: gpu_sim_def)

lemma sim_run:
  "gpu_sim src h i cap c ks \<Longrightarrow> \<forall>o' \<in> set ops. gpu_op_ok src h i o' \<Longrightarrow> lruClock c + int (length ops) < 2147483648 \<Longrightarrow>
   \<exists>g. gpu_run krn src h i ops (Some c) = Some (lru_run krn src h i cap ops ks, g)"
proof (induction ops arbitrary: c ks)
  case (Cons a ops)
  show ?case
  proof (cases a)
    case (GStage l e ans)
    then show ?thesis using sim_stage [OF Cons.prems(1), of l e ans] Cons by fastforce
  next
    case (GFfn l e x ans)
    then show ?thesis using sim_ffn [OF Cons.prems(1), of l e x ans krn] Cons by fastforce
  next
    case GProgress
    then show ?thesis using sim_progress [OF Cons.prems(1)] Cons by simp
  qed
qed simp

lemma sim_start:
  assumes "0 < cap" "sa_alloc ans"
  shows "\<exists>c. gc_alloc (sa_alloc ans) (sa_junk ans) (int cap) h i (ExpertGpuCache\<lparr>requestedCapacity := int cap, slotCount := max 1 depth\<rparr>) = (True, c) \<and>
    gpu_sim src h i cap c [] \<and> lruClock c = 0"
  using assms by (simp add: gc_alloc_def ExpertGpuCache_def Let_def gpu_sim_def gc_ok_def gc_shape_def gc_lru_def gc_queue_def
      gc_content_def gc_recency_def)

lemma sim_first:
  assumes "0 < cap" "\<forall>o' \<in> set ops. gpu_op_ok src h i o'" "int (length ops) < 2147483648"
  shows "\<exists>g. gpu_run krn src h i ops (Some (ExpertGpuCache\<lparr>requestedCapacity := int cap, slotCount := max 1 depth\<rparr>)) =
    Some (lru_run krn src h i cap ops [], g)"
  using assms(2,3)
proof (induction ops)
  case (Cons a ops)
  let ?c0 = "ExpertGpuCache\<lparr>requestedCapacity := int cap, slotCount := max 1 depth\<rparr>"
  show ?case
  proof (cases a)
    case (GStage l e ans)
    obtain c where c: "gc_alloc (sa_alloc ans) (sa_junk ans) (int cap) h i ?c0 = (True, c)" "gpu_sim src h i cap c []" "lruClock c = 0"
      using sim_start [OF assms(1), where ans = ans and h = h and i = i and depth = depth and src = src] Cons.prems(1) GStage by auto
    obtain c' where c': "gpuExpertStage True ans l e (src (gpu_key l e)) h i (Some c) = Some (True, Some c')"
        "gpu_sim src h i cap c' (lru_stage cap (gpu_key l e) [])" "lruClock c' = 1"
      using sim_stage [OF c(2), of l e ans] c(3) Cons.prems(1) GStage by auto
    have "gpuExpertStage True ans l e (src (gpu_key l e)) h i (Some ?c0) = Some (True, Some c')"
      using c c'(1) by (simp add: gpuExpertStage_def ExpertGpuCache_def gpu_sim_def gc_ok_def gc_shape_def)
    moreover obtain g where "gpu_run krn src h i ops (Some c') = Some (lru_run krn src h i cap ops (lru_stage cap (gpu_key l e) []), g)"
      using sim_run [OF c'(2), of ops krn] c'(3) Cons.prems by auto
    ultimately show ?thesis by (simp add: GStage)
  next
    case (GFfn l e x ans)
    then show ?thesis using Cons by (auto simp: gpuExpertFFN_def ExpertGpuCache_def)
  next
    case GProgress
    then show ?thesis using Cons by (simp add: dev_step_def ExpertGpuCache_def)
  qed
qed simp


definition demo_src :: "u64 \<Rightarrow> bytes" where
  "demo_src k = replicate 6 (ucast k)"

definition demo_kernel :: ffn_kernel where
  "demo_kernel w x h i = map (\<lambda>b. ucast b) (take 1 w) @ x"

definition stage_fine :: stage_answers where
  "stage_fine = \<lparr>sa_alloc = True, sa_junk = (\<lambda>_. replicate 6 0), sa_sync = True, sa_copy = True\<rparr>"

definition ffn_fine :: ffn_answers where
  "ffn_fine = \<lparr>fa_wait = True, fa_h2d = True, fa_kernel = True, fa_d2h = True\<rparr>"

lemma demo_keys: "gpu_key 1 2 = 65538" "gpu_key 1 3 = 65539"
  by (simp_all add: gpu_key_def)


text \<open>
  What the hypotheses on the answers exclude. A copy that could not be queued leaves its key mapped to a
  slot that still holds another expert: the next staging of the key says it is resident, and its
  evaluation computes with the other expert's weights.
\<close>

lemma failed_upload_serves_stale_weights:
  "map_option fst (gpu_run demo_kernel demo_src 1 1
      [GStage 1 2 stage_fine, GFfn 1 2 [7] ffn_fine, GStage 1 3 (stage_fine\<lparr>sa_copy := False\<rparr>), GStage 1 3 stage_fine, GFfn 1 3 [7] ffn_fine]
      (snd (gpuExpertCacheConfig True 1 2 None))) =
    Some [Staged True, Computed (Some [2, 7]), Staged False, Staged True, Computed (Some [2, 7])]"
  by code_simp

text \<open>
  Key 0 is also the initial value of \<open>evictedKey\<close>: an admission into a free slot forgets the pending
  upload of layer 0, expert 0, whose evaluation then runs before its weights have arrived.
\<close>

lemma first_key_computes_before_upload:
  "map_option fst (gpu_run demo_kernel demo_src 1 1
      [GStage 0 0 (stage_fine\<lparr>sa_junk := \<lambda>_. replicate 6 9\<rparr>), GStage 1 2 stage_fine, GFfn 0 0 [7] ffn_fine]
      (snd (gpuExpertCacheConfig True 2 2 None))) =
    Some [Staged True, Staged True, Computed (Some [9, 7])]"
  by code_simp

end
