(* ===== verification/Forward.thy ===== *)
theory Forward
  imports WeightIndex KvCache MoeRouter CpuKernels GpuCache Scheduler "HOL-Library.Monad_Syntax"
begin

unbundle bit_operations_syntax

text \<open>
  \<open>model/glm_forward.h\<close>, \<open>model/glm_forward.cpp\<close>: the forward pass. The scratch vectors of the
  workspace are kept from call to call, as in the code, because a product with the default arguments
  reads what its output buffer held. The functions that need no more than the weights, the workspace
  and the KV cache take just these; \<open>moeLayer\<close> takes the whole state, with the scheduler and the
  VRAM window. \<^const>\<open>None\<close> is a read or write outside a buffer, an \<open>int\<close> overflow, or an
  exception for a negative size. Tokens, positions and dimensions are C \<open>int\<close>s.
\<close>

subsection \<open>State\<close>

record workspace =
  ws_iq :: "f32 list"
  ws_iK :: "f32 list"
  ws_wVec :: "f32 list"
  ws_qResid :: "f32 list"
  ws_qB :: "f32 list"
  ws_qNope :: "f32 list"
  ws_qRope :: "f32 list"
  ws_kvA :: "f32 list"
  ws_kvLatent :: "f32 list"
  ws_kRope :: "f32 list"
  ws_expandedNew :: "f32 list"
  ws_kNew :: "f32 list"
  ws_vNew :: "f32 list"
  ws_attnOut :: "f32 list"
  ws_qCur :: "f32 list"
  ws_scores :: "f32 list"
  ws_routerScores :: "f32 list"
  ws_bias :: "f32 list"
  ws_gate :: "f32 list"
  ws_up :: "f32 list"
  ws_mid :: "f32 list"
  ws_moeOut :: "f32 list"
  ws_expertOut :: "f32 list"
  ws_sharedOut :: "f32 list"
  ws_hiddenStates :: "f32 list"
  ws_residual :: "f32 list"
  ws_attnOutL :: "f32 list"
  ws_mlpOut :: "f32 list"
  ws_normed :: "f32 list"

definition Workspace :: workspace where
  "Workspace = \<lparr>ws_iq = [], ws_iK = [], ws_wVec = [], ws_qResid = [], ws_qB = [], ws_qNope = [], ws_qRope = [],
     ws_kvA = [], ws_kvLatent = [], ws_kRope = [], ws_expandedNew = [], ws_kNew = [], ws_vNew = [], ws_attnOut = [],
     ws_qCur = [], ws_scores = [], ws_routerScores = [], ws_bias = [], ws_gate = [], ws_up = [], ws_mid = [],
     ws_moeOut = [], ws_expertOut = [], ws_sharedOut = [], ws_hiddenStates = [], ws_residual = [], ws_attnOutL = [],
     ws_mlpOut = [], ws_normed = []\<rparr>"

text \<open>
  The engine, with the VRAM window of the CUDA backend; \<open>fw_calls\<close> counts the calls into the
  scheduler and the backend, so that the environment can answer each of them differently.
\<close>

record fwd =
  fw_index :: weight_index
  fw_scheduler :: "scheduler option"
  fw_initialized :: bool
  fw_dsaEnabled :: bool
  fw_gpuExperts :: bool
  fw_gpuStagingDepth :: int
  fw_seqLen :: int
  fw_kvCache :: kv_cache
  fw_lastTopkByLayer :: "int list list"
  fw_finalNorm :: "f32 list"
  fw_ws :: workspace
  fw_gpu :: "gpu_cache option"
  fw_calls :: nat

definition GLMForward :: "weight_index \<Rightarrow> fwd" where
  "GLMForward idx = \<lparr>fw_index = idx, fw_scheduler = None, fw_initialized = False, fw_dsaEnabled = False,
     fw_gpuExperts = False, fw_gpuStagingDepth = 2, fw_seqLen = 0, fw_kvCache = KVCache, fw_lastTopkByLayer = [],
     fw_finalNorm = [], fw_ws = Workspace, fw_gpu = None, fw_calls = 0\<rparr>"

text \<open>
  The surroundings: \<open>libm\<close>, the compiler branch, the library's partial sorts, the scheduler's files
  and workers, what a read past the eight indices of a router result yields (\<^const>\<open>None\<close> when the
  program does not survive it), the CUDA backend, and how OpenMP deals the vocabulary to its threads, in
  the order in which they enter the critical section.
\<close>

record fwd_env =
  fe_libm :: libm
  fe_msvc :: bool
  fe_rank :: ranker
  fe_sort :: "(f32 \<times> int \<Rightarrow> f32 \<times> int \<Rightarrow> bool) \<Rightarrow> nat \<Rightarrow> (f32 \<times> int) list \<Rightarrow> (f32 \<times> int) list"
  fe_sched :: sched_env
  fe_workers :: "nat \<Rightarrow> nat list"
  fe_racing :: "nat \<Rightarrow> nat list"
  fe_polls :: "nat \<Rightarrow> nat list list"
  fe_past :: "nat \<Rightarrow> int option"
  fe_gpuAvail :: bool
  fe_stage :: "nat \<Rightarrow> stage_answers"
  fe_ffn :: "nat \<Rightarrow> ffn_answers"
  fe_kernel :: ffn_kernel
  fe_team :: "nat \<Rightarrow> nat list list"

subsection \<open>Buffers and weights\<close>

fun u16s :: "bytes \<Rightarrow> u16 list" where
  "u16s (a # b # rest) = (ucast a OR push_bit 8 (ucast b)) # u16s rest"
| "u16s _ = []"

fun f32s :: "bytes \<Rightarrow> f32 list" where
  "f32s (a # b # c # d # rest) =
     (ucast a OR push_bit 8 (ucast b) OR push_bit 16 (ucast c) OR push_bit 24 (ucast d)) # f32s rest"
| "f32s _ = []"

definition ensureFloat :: "int \<Rightarrow> f32 list \<Rightarrow> f32 list option" where
  "ensureFloat n v = (if n < 0 then None else Some (if length v < nat n then vec_resize (nat n) f32_zero v else v))"

definition imul :: "int \<Rightarrow> int \<Rightarrow> int option" where
  "imul a b = (if - 2147483648 \<le> a * b \<and> a * b < 2147483648 then Some (a * b) else None)"

text \<open>\<open>for (i < n) buf[i] = vals[i]\<close>.\<close>

definition put :: "f32 list \<Rightarrow> f32 list \<Rightarrow> f32 list option" where
  "put vals buf = (if length buf < length vals then None else Some (vals @ drop (length vals) buf))"

definition copyVec :: "f32 list \<Rightarrow> f32 list \<Rightarrow> int \<Rightarrow> f32 list option" where
  "copyVec dst src n = memcpy dst 0 src 0 (nat n)"

definition zeros :: "f32 list \<Rightarrow> f32 list" where
  "zeros v = replicate (length v) f32_zero"

text \<open>A pointer into a mapped shard is what can be read from it; a null pointer is \<^const>\<open>None\<close>.\<close>

definition getWeightPtr :: "fwd_env \<Rightarrow> tensor_location \<Rightarrow> u16 list option" where
  "getWeightPtr env loc = map_option (\<lambda>v. u16s (drop (unat (byteOffset loc)) v)) (se_view (fe_sched env) (shardPath loc))"

text \<open>Nothing can be read through a null pointer.\<close>

definition deref :: "u16 list option \<Rightarrow> u16 list" where
  "deref p = (case p of None \<Rightarrow> [] | Some w \<Rightarrow> w)"

abbreviation weights_at :: "fwd_env \<Rightarrow> tensor_location \<Rightarrow> u16 list" where
  "weights_at env loc \<equiv> deref (getWeightPtr env loc)"

definition loadWeightToF32 :: "fwd_env \<Rightarrow> tensor_location \<Rightarrow> f32 list \<Rightarrow> int \<Rightarrow> (bool \<times> f32 list) option" where
  "loadWeightToF32 env loc buf numel =
     (case se_view (fe_sched env) (shardPath loc) of
        None \<Rightarrow> Some (False, buf)
      | Some v \<Rightarrow>
          let v = drop (unat (byteOffset loc)) v;
              vals = (if tl_dtype loc = ''F32'' then f32s v else map bf16_toF32 (u16s v)) in
          if length vals < nat numel then None
          else map_option (Pair True) (put (take (nat numel) vals) buf))"

text \<open>\<open>gemv_bf16_f32\<close> with its default arguments.\<close>

definition gemv :: "fwd_env \<Rightarrow> u16 list \<Rightarrow> f32 list \<Rightarrow> f32 list \<Rightarrow> int \<Rightarrow> int \<Rightarrow> f32 list option" where
  "gemv env A x y M K = gemv_bf16_f32 (fe_msvc env) A x y M K f32_one f32_zero"

subsection \<open>Norms and rotations\<close>

definition rms_scale :: "fwd_env \<Rightarrow> f32 \<Rightarrow> f32 list \<Rightarrow> f32" where
  "rms_scale env eps xs =
     f32_div f32_one (lm_sqrt (fe_libm env)
       (f32_add (f32_div (foldl (\<lambda>s v. f32_add s (f32_mul v v)) f32_zero xs) (f32_of_int (int (length xs)))) eps))"

definition rmsNorm :: "fwd_env \<Rightarrow> f32 \<Rightarrow> tensor_location \<Rightarrow> f32 list \<Rightarrow> int \<Rightarrow> f32 list option" where
  "rmsNorm env eps w x n =
     (if byteSize w = 0 then Some x
      else if length x < nat n then None
      else let xs = take (nat n) x; rms = rms_scale env eps xs in
        case getWeightPtr env w of
          None \<Rightarrow> put (map (\<lambda>v. f32_mul v rms) xs) x
        | Some wp \<Rightarrow>
            if length wp < nat n then None
            else put (map2 (\<lambda>v u. f32_mul (f32_mul v rms) (bf16_toF32 u)) xs wp) x)"

text \<open>One rotation, of the elements \<open>i\<close> and \<open>j\<close>.\<close>

definition rope_rotate :: "libm \<Rightarrow> f32 \<Rightarrow> int \<Rightarrow> f32 \<Rightarrow> nat \<Rightarrow> nat \<Rightarrow> f32 list \<Rightarrow> f32 list option" where
  "rope_rotate m theta pos e i j x =
     (let freq = f32_div f32_one (lm_pow m theta e);
          angle = f32_mul (f32_of_int pos) freq; c = lm_cos m angle; s = lm_sin m angle in
      do {
        x0 \<leftarrow> rd x i;
        x1 \<leftarrow> rd x j;
        x \<leftarrow> wr x i (f32_sub (f32_mul x0 c) (f32_mul x1 s));
        wr x j (f32_add (f32_mul x0 s) (f32_mul x1 c))
      })"

text \<open>\<open>off\<close> is where the pointer argument points into its buffer.\<close>

definition applyRoPEInterleave :: "libm \<Rightarrow> nat \<Rightarrow> int \<Rightarrow> f32 \<Rightarrow> int \<Rightarrow> f32 list \<Rightarrow> f32 list option" where
  "applyRoPEInterleave m off n theta pos =
     run_steps (\<lambda>i. rope_rotate m theta pos (f32_div (f32_of_int (int i)) (f32_of_int n)) (off + i) (off + i + 1))
       (map (\<lambda>p. 2 * p) [0..<(nat n + 1) div 2])"

definition applyRoPE :: "fwd_env \<Rightarrow> model_config \<Rightarrow> nat \<Rightarrow> int \<Rightarrow> int \<Rightarrow> f32 list \<Rightarrow> f32 list option" where
  "applyRoPE env cfg off n pos =
     (if ropeInterleave cfg
      then applyRoPEInterleave (fe_libm env) off n (f32_of_int (ropeTheta cfg)) pos
      else let half = nat n div 2 in
        run_steps (\<lambda>i. rope_rotate (fe_libm env) (f32_of_int (ropeTheta cfg)) pos
            (f32_div (f32_of_int (int i)) (f32_of_int (int half))) (off + i) (off + i + half)) [0..<half])"

definition layer_eps :: f32 where "layer_eps = 0x358637BD"

definition layerNorm :: "fwd_env \<Rightarrow> tensor_location \<Rightarrow> tensor_location \<Rightarrow> f32 list \<Rightarrow> int \<Rightarrow> f32 list option" where
  "layerNorm env w b x n =
     (if n \<le> 0 then Some x
      else if length x < nat n then None
      else
        let xs = take (nat n) x; fn = f32_of_int n;
            mean = f32_div (foldl f32_add f32_zero xs) fn;
            var = f32_div (foldl (\<lambda>s v. f32_add s (f32_mul (f32_sub v mean) (f32_sub v mean))) f32_zero xs) fn;
            inv = f32_div f32_one (lm_sqrt (fe_libm env) (f32_add var layer_eps));
            wp = (if byteSize w = 0 then None else getWeightPtr env w);
            bp = (if byteSize b = 0 then None else getWeightPtr env b);
            ys = map (\<lambda>v. f32_mul (f32_sub v mean) inv) xs;
            ys = (case wp of None \<Rightarrow> ys | Some u \<Rightarrow> map2 (\<lambda>y u. f32_mul y (bf16_toF32 u)) ys u);
            ys = (case bp of None \<Rightarrow> ys | Some u \<Rightarrow> map2 (\<lambda>y u. f32_add y (bf16_toF32 u)) ys u)
        in if (case wp of None \<Rightarrow> False | Some u \<Rightarrow> length u < nat n) \<or> (case bp of None \<Rightarrow> False | Some u \<Rightarrow> length u < nat n)
           then None else put ys x)"

subsection \<open>The sparse-attention indexer\<close>

text \<open>What a getter's pointer into the KV cache can read; nothing through a null pointer.\<close>

definition kv_view :: "(layer_buffer \<Rightarrow> f32 list) \<Rightarrow> nat option \<Rightarrow> int \<Rightarrow> kv_cache \<Rightarrow> f32 list" where
  "kv_view field p layer c = (case p of None \<Rightarrow> [] | Some off \<Rightarrow> drop off (field (kv_buffers c ! nat layer)))"

definition dsa_less :: "f32 \<times> int \<Rightarrow> f32 \<times> int \<Rightarrow> bool" where
  "dsa_less a b = (if \<not> f32_eq (fst a) (fst b) then f32_lt (fst b) (fst a) else snd a < snd b)"

text \<open>The score of one cached key: the gated sum of the heads' rectified products.\<close>

definition dsa_score :: "fwd_env \<Rightarrow> f32 list \<Rightarrow> f32 list \<Rightarrow> nat \<Rightarrow> nat \<Rightarrow> f32 list \<Rightarrow> f32 option" where
  "dsa_score env iq wVec idxHeads idxDim kt =
     run_steps (\<lambda>h s. do {
         dot \<leftarrow> dotF32 (fe_msvc env) (drop (h * idxDim) iq) kt idxDim;
         let score = f32_mul dot (f32_div f32_one (lm_sqrt (fe_libm env) (f32_of_int (int idxDim))));
         w \<leftarrow> rd wVec h;
         Some (f32_add s (f32_mul w (if f32_lt score f32_zero then f32_zero else score)))
       }) [0..<idxHeads] f32_zero"

text \<open>The indexer's query, key and gates for the current token.\<close>

definition indexer_inputs :: "fwd_env \<Rightarrow> model_config \<Rightarrow> layer_weights \<Rightarrow> int \<Rightarrow> int \<Rightarrow> f32 list \<Rightarrow>
    workspace \<times> kv_cache \<Rightarrow> (workspace \<times> kv_cache) option" where
  "indexer_inputs env cfg lw seqLen layer x = (\<lambda>(ws, kv). do {
     let idxHeads = indexNHeads cfg;
     let idxDim = indexHeadDim cfg;
     let idxRope = min (qkRopeHeadDim cfg) idxDim;
     iqDim \<leftarrow> imul idxHeads idxDim;
     iq \<leftarrow> ensureFloat iqDim (ws_iq ws);
     iq \<leftarrow> gemv env (weights_at env (indexWqB lw)) (ws_qResid ws) iq iqDim (qLoraRank cfg);
     iq \<leftarrow> run_steps (\<lambda>h. applyRoPE env cfg (h * nat idxDim) idxRope seqLen) [0..<nat idxHeads] iq;
     iK \<leftarrow> ensureFloat idxDim (ws_iK ws);
     iK \<leftarrow> gemv env (weights_at env (indexWk lw)) x iK idxDim (hiddenSize cfg);
     iK \<leftarrow> layerNorm env (indexKNormW lw) (indexKNormB lw) iK idxDim;
     iK \<leftarrow> applyRoPE env cfg 0 idxRope seqLen iK;
     kv \<leftarrow> kv_appendIndexKey layer seqLen iK kv;
     wVec \<leftarrow> ensureFloat idxHeads (ws_wVec ws);
     wVec \<leftarrow> gemv env (weights_at env (indexWeightsProj lw)) x wVec idxHeads (hiddenSize cfg);
     let wScale = f32_div f32_one (lm_sqrt (fe_libm env) (f32_of_int idxHeads));
     let wVec = map_prefix (nat idxHeads) (\<lambda>w. f32_mul w wScale) wVec;
     Some (ws\<lparr>ws_iq := iq, ws_iK := iK, ws_wVec := wVec\<rparr>, kv)
   })"

definition dsa_select :: "fwd_env \<Rightarrow> model_config \<Rightarrow> int \<Rightarrow> int \<Rightarrow> workspace \<Rightarrow> kv_cache \<Rightarrow> int list option" where
  "dsa_select env cfg seqLen layer ws kv = do {
     let topk = min (indexTopk cfg) (seqLen + 1);
     scores \<leftarrow> map_M (\<lambda>t. dsa_score env (ws_iq ws) (ws_wVec ws) (nat (indexNHeads cfg)) (nat (indexHeadDim cfg))
         (kv_view lb_index (kv_getIndexKey layer t kv) layer kv)) (map int [0..<nat (seqLen + 1)]);
     if topk < 0 then None
     else Some (map snd (take (nat topk) (fe_sort env dsa_less (nat topk) (zip scores (map int [0..<nat (seqLen + 1)])))))
   }"

definition dsaIndexer :: "fwd_env \<Rightarrow> model_config \<Rightarrow> layer_weights \<Rightarrow> int \<Rightarrow> int \<Rightarrow> f32 list \<Rightarrow>
    workspace \<times> kv_cache \<Rightarrow> (int list \<times> workspace \<times> kv_cache) option" where
  "dsaIndexer env cfg lw seqLen layer x st = do {
     (ws, kv) \<leftarrow> indexer_inputs env cfg lw seqLen layer x st;
     sel \<leftarrow> dsa_select env cfg seqLen layer ws kv;
     Some (sel, ws, kv)
   }"

subsection \<open>Attention\<close>

text \<open>Two blocks copied and the second rotated: the query of one head.\<close>

definition query_head :: "fwd_env \<Rightarrow> model_config \<Rightarrow> int \<Rightarrow> f32 list \<Rightarrow> nat \<Rightarrow> f32 list \<times> f32 list \<Rightarrow> (f32 list \<times> f32 list) option" where
  "query_head env cfg seqLen qB h = (\<lambda>(qNope, qRope). do {
     let nope = nat (qkNopeHeadDim cfg);
     let rope = nat (qkRopeHeadDim cfg);
     let src = h * nat (qkHeadDim cfg);
     qNope \<leftarrow> memcpy qNope (h * nope) qB src nope;
     qRope \<leftarrow> memcpy qRope (h * rope) qB (src + nope) rope;
     qRope \<leftarrow> applyRoPE env cfg (h * rope) (qkRopeHeadDim cfg) seqLen qRope;
     Some (qNope, qRope)
   })"

definition mla_query :: "fwd_env \<Rightarrow> model_config \<Rightarrow> layer_weights \<Rightarrow> int \<Rightarrow> f32 list \<Rightarrow> workspace \<Rightarrow> workspace option" where
  "mla_query env cfg lw seqLen x ws = do {
     let heads = numAttentionHeads cfg;
     qResid \<leftarrow> ensureFloat (qLoraRank cfg) (ws_qResid ws);
     qResid \<leftarrow> gemv env (weights_at env (qAProj lw)) x qResid (qLoraRank cfg) (hiddenSize cfg);
     qResid \<leftarrow> rmsNorm env (rmsNormEps cfg) (qALayernorm lw) qResid (qLoraRank cfg);
     qOutDim \<leftarrow> imul heads (qkHeadDim cfg);
     qB \<leftarrow> ensureFloat qOutDim (ws_qB ws);
     qB \<leftarrow> gemv env (weights_at env (qBProj lw)) qResid qB qOutDim (qLoraRank cfg);
     qNope \<leftarrow> ensureFloat (heads * qkNopeHeadDim cfg) (ws_qNope ws);
     qRope \<leftarrow> ensureFloat (heads * qkRopeHeadDim cfg) (ws_qRope ws);
     (qNope, qRope) \<leftarrow> run_steps (query_head env cfg seqLen qB) [0..<nat heads] (qNope, qRope);
     Some (ws\<lparr>ws_qResid := qResid, ws_qB := qB, ws_qNope := qNope, ws_qRope := qRope\<rparr>)
   }"

definition kv_head :: "model_config \<Rightarrow> f32 list \<Rightarrow> f32 list \<Rightarrow> nat \<Rightarrow> f32 list \<times> f32 list \<Rightarrow> (f32 list \<times> f32 list) option" where
  "kv_head cfg expanded kRope h = (\<lambda>(kNew, vNew). do {
     let nope = nat (qkNopeHeadDim cfg);
     let vDim = nat (vHeadDim cfg);
     let src = h * nat (qkNopeHeadDim cfg + vHeadDim cfg);
     let kd = h * nat (qkHeadDim cfg);
     kNew \<leftarrow> memcpy kNew kd expanded src nope;
     kNew \<leftarrow> memcpy kNew (kd + nope) kRope 0 (nat (qkRopeHeadDim cfg));
     vNew \<leftarrow> memcpy vNew (h * vDim) expanded (src + nope) vDim;
     Some (kNew, vNew)
   })"

definition mla_keys :: "fwd_env \<Rightarrow> model_config \<Rightarrow> layer_weights \<Rightarrow> int \<Rightarrow> int \<Rightarrow> f32 list \<Rightarrow>
    workspace \<times> kv_cache \<Rightarrow> (workspace \<times> kv_cache) option" where
  "mla_keys env cfg lw seqLen layer x = (\<lambda>(ws, kv). do {
     let heads = numAttentionHeads cfg;
     let kvLora = kvLoraRank cfg;
     let qkRope = qkRopeHeadDim cfg;
     let kvAOut = kvLora + qkRope;
     kvA \<leftarrow> ensureFloat kvAOut (ws_kvA ws);
     kvA \<leftarrow> gemv env (weights_at env (kvAProjWithMqa lw)) x kvA kvAOut (hiddenSize cfg);
     kvLatent \<leftarrow> ensureFloat kvLora (ws_kvLatent ws);
     kRope \<leftarrow> ensureFloat qkRope (ws_kRope ws);
     kvLatent \<leftarrow> memcpy kvLatent 0 kvA 0 (nat kvLora);
     kRope \<leftarrow> memcpy kRope 0 kvA (nat kvLora) (nat qkRope);
     kvLatent \<leftarrow> rmsNorm env (rmsNormEps cfg) (kvALayernorm lw) kvLatent kvLora;
     kRope \<leftarrow> applyRoPE env cfg 0 qkRope seqLen kRope;
     kvBOut \<leftarrow> imul heads (qkNopeHeadDim cfg + vHeadDim cfg);
     expanded \<leftarrow> ensureFloat kvBOut (ws_expandedNew ws);
     expanded \<leftarrow> gemv env (weights_at env (kvBProj lw)) kvLatent expanded kvBOut kvLora;
     kNew \<leftarrow> ensureFloat (heads * qkHeadDim cfg) (ws_kNew ws);
     vNew \<leftarrow> ensureFloat (heads * vHeadDim cfg) (ws_vNew ws);
     (kNew, vNew) \<leftarrow> run_steps (kv_head cfg expanded kRope) [0..<nat heads] (kNew, vNew);
     kv \<leftarrow> kv_appendKey layer seqLen kNew kv;
     kv \<leftarrow> kv_appendValue layer seqLen vNew kv;
     Some (ws\<lparr>ws_kvA := kvA, ws_kvLatent := kvLatent, ws_kRope := kRope, ws_expandedNew := expanded,
              ws_kNew := kNew, ws_vNew := vNew\<rparr>, kv)
   })"

definition masked_score :: f32 where "masked_score = 0xF149F2CA"

text \<open>\<open>attnOut[off + d] += weight * histV[d]\<close> for \<open>d < n\<close>.\<close>

definition add_scaled :: "f32 \<Rightarrow> f32 list \<Rightarrow> nat \<Rightarrow> nat \<Rightarrow> f32 list \<Rightarrow> f32 list option" where
  "add_scaled weight src n off dst =
     (if length src < n \<or> length dst < off + n then None
      else Some (take off dst @ map2 (\<lambda>a b. f32_add a (f32_mul weight b)) (take n (drop off dst)) src @ drop (off + n) dst))"

definition attn_score :: "fwd_env \<Rightarrow> model_config \<Rightarrow> int \<Rightarrow> int \<Rightarrow> kv_cache \<Rightarrow> f32 list \<Rightarrow> nat \<Rightarrow> int \<Rightarrow> f32 option" where
  "attn_score env cfg layer seqLen kv qCur h t =
     (if t < 0 \<or> seqLen + 1 \<le> t then Some masked_score
      else map_option (\<lambda>d. f32_mul d (f32_div f32_one (lm_sqrt (fe_libm env) (f32_of_int (qkHeadDim cfg)))))
        (dotF32 (fe_msvc env) qCur (kv_view lb_key (kv_getKey layer (int h) t kv) layer kv) (nat (qkHeadDim cfg))))"

definition attn_head :: "fwd_env \<Rightarrow> model_config \<Rightarrow> int \<Rightarrow> int \<Rightarrow> kv_cache \<Rightarrow> int list \<Rightarrow> nat \<Rightarrow> workspace \<Rightarrow> workspace option" where
  "attn_head env cfg layer seqLen kv sel h ws = do {
     let nope = nat (qkNopeHeadDim cfg);
     let rope = nat (qkRopeHeadDim cfg);
     let vDim = nat (vHeadDim cfg);
     qCur \<leftarrow> ensureFloat (qkHeadDim cfg) (ws_qCur ws);
     qCur \<leftarrow> memcpy qCur 0 (ws_qNope ws) (h * nope) nope;
     qCur \<leftarrow> memcpy qCur nope (ws_qRope ws) (h * rope) rope;
     scores \<leftarrow> ensureFloat (int (length sel)) (ws_scores ws);
     vals \<leftarrow> map_M (attn_score env cfg layer seqLen kv qCur h) sel;
     probs \<leftarrow> softmax_f32 (fe_libm env) vals;
     scores \<leftarrow> put probs scores;
     attnOut \<leftarrow> run_steps (\<lambda>(t, weight) out.
         if t < 0 \<or> seqLen + 1 \<le> t then Some out
         else add_scaled weight (kv_view lb_value (kv_getValue layer (int h) t kv) layer kv) vDim (h * vDim) out)
       (zip sel probs) (ws_attnOut ws);
     Some (ws\<lparr>ws_qCur := qCur, ws_scores := scores, ws_attnOut := attnOut\<rparr>)
   }"

text \<open>The output is a buffer of the caller.\<close>

definition attentionLayer :: "fwd_env \<Rightarrow> model_config \<Rightarrow> layer_weights \<Rightarrow> bool \<Rightarrow> int \<Rightarrow> int \<Rightarrow> f32 list \<Rightarrow> f32 list \<Rightarrow>
    int list \<Rightarrow> workspace \<times> kv_cache \<Rightarrow> (f32 list \<times> int list \<times> workspace \<times> kv_cache) option" where
  "attentionLayer env cfg lw dsa seqLen layer x output sel = (\<lambda>(ws, kv). do {
     let heads = numAttentionHeads cfg;
     ws \<leftarrow> mla_query env cfg lw seqLen x ws;
     (ws, kv) \<leftarrow> mla_keys env cfg lw seqLen layer x (ws, kv);
     (sel, ws, kv) \<leftarrow> (if dsa \<and> isIndexerFull cfg layer then dsaIndexer env cfg lw seqLen layer x (ws, kv)
                      else Some (sel, ws, kv));
     let sel = (if sel = [] then map int [0..<nat (seqLen + 1)] else sel);
     attnOut \<leftarrow> ensureFloat (heads * vHeadDim cfg) (ws_attnOut ws);
     ws \<leftarrow> run_steps (attn_head env cfg layer seqLen kv sel) [0..<nat heads] (ws\<lparr>ws_attnOut := zeros attnOut\<rparr>);
     vOut \<leftarrow> imul heads (vHeadDim cfg);
     output \<leftarrow> gemv env (weights_at env (oProj lw)) (ws_attnOut ws) output (hiddenSize cfg) vOut;
     Some (output, sel, ws, kv)
   })"

subsection \<open>Feed-forward networks\<close>

text \<open>Gate, up, \<open>silu(gate) * up\<close>, down: the body of the three feed-forward functions.\<close>

definition expertFFNRaw :: "fwd_env \<Rightarrow> u16 list \<Rightarrow> u16 list \<Rightarrow> u16 list \<Rightarrow> f32 list \<Rightarrow> f32 list \<Rightarrow> int \<Rightarrow> int \<Rightarrow> workspace \<Rightarrow>
    (f32 list \<times> workspace) option" where
  "expertFFNRaw env gateW upW downW x output hidden interSize ws = do {
     gate \<leftarrow> ensureFloat interSize (ws_gate ws);
     up \<leftarrow> ensureFloat interSize (ws_up ws);
     mid \<leftarrow> ensureFloat interSize (ws_mid ws);
     gate \<leftarrow> gemv env gateW x gate interSize hidden;
     up \<leftarrow> gemv env upW x up interSize hidden;
     mid \<leftarrow> put (map2 (\<lambda>g u. f32_mul (silu (fe_libm env) g) u) (take (nat interSize) gate) (take (nat interSize) up)) mid;
     output \<leftarrow> gemv env downW mid output hidden interSize;
     Some (output, ws\<lparr>ws_gate := gate, ws_up := up, ws_mid := mid\<rparr>)
   }"

definition denseMlp :: "fwd_env \<Rightarrow> model_config \<Rightarrow> layer_weights \<Rightarrow> f32 list \<Rightarrow> f32 list \<Rightarrow> workspace \<Rightarrow> (f32 list \<times> workspace) option" where
  "denseMlp env cfg lw x output ws =
     expertFFNRaw env (weights_at env (mlpGate lw)) (weights_at env (mlpUp lw)) (weights_at env (mlpDown lw)) x output
       (hiddenSize cfg) (intermediateSize cfg) ws"

definition expertFFN :: "fwd_env \<Rightarrow> expert_weights \<Rightarrow> f32 list \<Rightarrow> f32 list \<Rightarrow> int \<Rightarrow> int \<Rightarrow> workspace \<Rightarrow> (f32 list \<times> workspace) option" where
  "expertFFN env ew x output hidden interSize ws =
     expertFFNRaw env (weights_at env (gateProj ew)) (weights_at env (upProj ew)) (weights_at env (downProj ew)) x output
       hidden interSize ws"

text \<open>\<open>std::fill(output, output + hidden, 0)\<close>.\<close>

definition zero_out :: "f32 list \<Rightarrow> int \<Rightarrow> f32 list option" where
  "zero_out output n = put (replicate (nat n) f32_zero) output"

definition sharedExpertFFNRaw :: "fwd_env \<Rightarrow> u16 list option \<Rightarrow> u16 list option \<Rightarrow> u16 list option \<Rightarrow> f32 list \<Rightarrow> f32 list \<Rightarrow>
    int \<Rightarrow> int \<Rightarrow> workspace \<Rightarrow> (f32 list \<times> workspace) option" where
  "sharedExpertFFNRaw env gateW upW downW x output gateInter hidden ws =
     (if gateW = None \<or> upW = None \<or> downW = None then map_option (\<lambda>out. (out, ws)) (zero_out output hidden)
      else expertFFNRaw env (deref gateW) (deref upW) (deref downW) x output hidden gateInter ws)"

definition sharedExpertFFN :: "fwd_env \<Rightarrow> model_config \<Rightarrow> layer_weights \<Rightarrow> f32 list \<Rightarrow> f32 list \<Rightarrow> workspace \<Rightarrow> (f32 list \<times> workspace) option" where
  "sharedExpertFFN env cfg lw x output ws = do {
     gateInter \<leftarrow> imul (nSharedExperts cfg) (moeIntermediateSize cfg);
     if byteSize (sharedGateProj lw) = 0 then map_option (\<lambda>out. (out, ws)) (zero_out output (hiddenSize cfg))
     else sharedExpertFFNRaw env (getWeightPtr env (sharedGateProj lw)) (getWeightPtr env (sharedUpProj lw))
            (getWeightPtr env (sharedDownProj lw)) x output gateInter (hiddenSize cfg) ws
   }"

subsection \<open>Calls into the storage pipeline and the backend\<close>

text \<open>A call into the scheduler; before it the workers may have acted.\<close>

definition sched_call :: "fwd_env \<Rightarrow> (nat \<Rightarrow> scheduler \<Rightarrow> ('a \<times> scheduler) option) \<Rightarrow> scheduler \<Rightarrow> fwd \<Rightarrow> ('a \<times> fwd) option" where
  "sched_call env call s st = do {
     s \<leftarrow> run_workers (fe_sched env) (fe_workers env (fw_calls st)) s;
     (r, s) \<leftarrow> call (fw_calls st) s;
     Some (r, st\<lparr>fw_scheduler := Some s, fw_calls := fw_calls st + 1\<rparr>)
   }"

text \<open>The scheduler's scratch as the pointer it returned.\<close>

definition fetch_expert :: "fwd_env \<Rightarrow> int \<Rightarrow> int \<Rightarrow> scheduler \<Rightarrow> fwd \<Rightarrow> (bytes option \<times> fwd) option" where
  "fetch_expert env layer eid = sched_call env (\<lambda>n s.
     map_option (\<lambda>(ok, s). (if ok then Some (exScratch s) else None, s))
       (getExpertPtr (fe_sched env) (fe_racing env n) (fe_polls env n) layer eid s))"

definition fetch_shared :: "fwd_env \<Rightarrow> int \<Rightarrow> u16 \<Rightarrow> scheduler \<Rightarrow> fwd \<Rightarrow> (bytes option \<times> fwd) option" where
  "fetch_shared env layer slot = sched_call env (\<lambda>n s.
     map_option (\<lambda>(ok, s). (if ok then Some (shScratch s ! unat (slot - kSharedGateProjSlot)) else None, s))
       (getSharedProjectionPtr (fe_sched env) (fe_racing env n) (fe_polls env n) layer slot s))"

text \<open>A read of the router result's index array.\<close>

definition topk_index :: "fwd_env \<Rightarrow> topk_result \<Rightarrow> nat \<Rightarrow> int option" where
  "topk_index env r i = (if i < length (tk_indices r) then Some (int (tk_indices r ! i)) else fe_past env i)"

text \<open>The lambda \<open>stageExpertAt\<close>.\<close>

definition stageExpertAt :: "fwd_env \<Rightarrow> int \<Rightarrow> topk_result \<Rightarrow> nat \<Rightarrow> fwd \<Rightarrow> (bool \<times> fwd) option" where
  "stageExpertAt env layer r idx st =
     (if tk_k r \<le> idx then Some (True, st)
      else do {
        s \<leftarrow> fw_scheduler st;
        eid \<leftarrow> topk_index env r idx;
        (ne, st) \<leftarrow> fetch_expert env layer eid s st;
        case ne of
          None \<Rightarrow> Some (False, st)
        | Some w \<Rightarrow> do {
            (ok, g) \<leftarrow> gpuExpertStage (fe_gpuAvail env) (fe_stage env (fw_calls st)) layer eid w
              (hiddenSize (wi_config (fw_index st))) (moeIntermediateSize (wi_config (fw_index st))) (fw_gpu st);
            Some (ok, st\<lparr>fw_gpu := g, fw_calls := fw_calls st + 1\<rparr>)
          }
      })"

text \<open>The preload of the first experts: whether the device still answers, how many are staged.\<close>

fun preload :: "fwd_env \<Rightarrow> int \<Rightarrow> topk_result \<Rightarrow> nat list \<Rightarrow> nat \<Rightarrow> fwd \<Rightarrow> (bool \<times> nat \<times> fwd) option" where
  "preload env layer r [] staged st = Some (True, staged, st)"
| "preload env layer r (d # ds) staged st = do {
     (ok, st) \<leftarrow> stageExpertAt env layer r d st;
     if ok then preload env layer r ds (d + 1) st else Some (False, d + 1, st)
   }"

text \<open>One expert on the device: the result, or \<^const>\<open>None\<close> for a call that failed.\<close>

definition gpu_expert :: "fwd_env \<Rightarrow> int \<Rightarrow> topk_result \<Rightarrow> nat \<Rightarrow> f32 list \<Rightarrow> fwd \<Rightarrow> (f32 list option \<times> fwd) option" where
  "gpu_expert env layer r i x st = do {
     eid \<leftarrow> topk_index env r i;
     (out, g) \<leftarrow> gpuExpertFFN (fe_gpuAvail env) (fe_kernel env) (fe_ffn env (fw_calls st)) layer eid x
       (hiddenSize (wi_config (fw_index st))) (moeIntermediateSize (wi_config (fw_index st))) (fw_gpu st);
     Some (out, st\<lparr>fw_gpu := g, fw_calls := fw_calls st + 1\<rparr>)
   }"

text \<open>The look-ahead of two experts; it is bounded by the number of experts, not by that of the selected ones.\<close>

definition look_ahead :: "fwd_env \<Rightarrow> int \<Rightarrow> topk_result \<Rightarrow> nat \<Rightarrow> fwd \<Rightarrow> fwd option" where
  "look_ahead env layer r i =
     run_steps (\<lambda>ahead st.
         if numLocalExperts (wi_config (fw_index st)) \<le> int (i + ahead) then Some st
         else do {
           s \<leftarrow> fw_scheduler st;
           eid \<leftarrow> topk_index env r (i + ahead);
           (_, st) \<leftarrow> sched_call env (\<lambda>n s. map_option (Pair ()) (prefetchExpert (fe_sched env) layer eid s)) s st;
           Some st
         }) [1, 2]"

text \<open>An expert from the index, and one served by the scheduler when it returned a pointer.\<close>

definition direct_expert :: "fwd_env \<Rightarrow> int \<Rightarrow> int \<Rightarrow> f32 list \<Rightarrow> f32 list \<Rightarrow> fwd \<Rightarrow> (f32 list \<times> fwd) option" where
  "direct_expert env layer eid x out st = do {
     ew \<leftarrow> (if layer < 0 \<or> eid < 0 then None else expert_at (fw_index st) layer eid);
     (out, ws) \<leftarrow> expertFFN env ew x out (hiddenSize (wi_config (fw_index st)))
       (moeIntermediateSize (wi_config (fw_index st))) (fw_ws st);
     Some (out, st\<lparr>fw_ws := ws\<rparr>)
   }"

definition cpu_expert :: "fwd_env \<Rightarrow> int \<Rightarrow> topk_result \<Rightarrow> nat \<Rightarrow> f32 list \<Rightarrow> f32 list \<Rightarrow> fwd \<Rightarrow> (f32 list \<times> fwd) option" where
  "cpu_expert env layer r i x out st = do {
     eid \<leftarrow> topk_index env r i;
     case fw_scheduler st of
       None \<Rightarrow> direct_expert env layer eid x out st
     | Some _ \<Rightarrow> do {
         st \<leftarrow> look_ahead env layer r i st;
         s \<leftarrow> fw_scheduler st;
         (eptr, st) \<leftarrow> fetch_expert env layer eid s st;
         case eptr of
           None \<Rightarrow> direct_expert env layer eid x out st
         | Some buf \<Rightarrow> do {
             let cfg = wi_config (fw_index st);
             let n = nat (moeIntermediateSize cfg * hiddenSize cfg);
             (out, ws) \<leftarrow> expertFFNRaw env (u16s buf) (drop n (u16s buf)) (drop (2 * n) (u16s buf)) x out
               (hiddenSize cfg) (moeIntermediateSize cfg) (fw_ws st);
             Some (out, st\<lparr>fw_ws := ws\<rparr>)
           }
       }
   }"

text \<open>\<open>moeOut[j] += w * expertOut[j]\<close>; the expert's output goes to the workspace.\<close>

definition merge_expert :: "f32 \<Rightarrow> f32 list \<Rightarrow> fwd \<Rightarrow> fwd option" where
  "merge_expert w out st = do {
     moeOut \<leftarrow> add_scaled w out (nat (hiddenSize (wi_config (fw_index st)))) 0 (ws_moeOut (fw_ws st));
     Some (st\<lparr>fw_ws := (fw_ws st)\<lparr>ws_moeOut := moeOut, ws_expertOut := out\<rparr>\<rparr>)
   }"

text \<open>
  The loop over the selected experts; the first component of the result says that the device failed and
  the loop has to start again on the CPU.
\<close>

fun expert_loop :: "fwd_env \<Rightarrow> int \<Rightarrow> topk_result \<Rightarrow> f32 list \<Rightarrow> nat list \<Rightarrow> bool \<Rightarrow> nat \<Rightarrow> fwd \<Rightarrow> (bool \<times> fwd) option" where
  "expert_loop env layer r x [] gpuOk staged st = Some (False, st)"
| "expert_loop env layer r x (i # is) gpuOk staged st = do {
     (gpuOk, staged, st) \<leftarrow> (if gpuOk \<and> staged < tk_k r
        then map_option (\<lambda>(ok, st). (ok, staged + 1, st)) (stageExpertAt env layer r staged st)
        else Some (gpuOk, staged, st));
     expertOut \<leftarrow> ensureFloat (hiddenSize (wi_config (fw_index st))) (ws_expertOut (fw_ws st));
     w \<leftarrow> rd (tk_weights r) i;
     if gpuOk then do {
       (out, st) \<leftarrow> gpu_expert env layer r i x st;
       case out of
         None \<Rightarrow> Some (True, st\<lparr>fw_ws := (fw_ws st)\<lparr>ws_expertOut := zeros expertOut,
                                               ws_moeOut := zeros (ws_moeOut (fw_ws st))\<rparr>\<rparr>)
       | Some vals \<Rightarrow> do {
           out \<leftarrow> put vals (zeros expertOut);
           st \<leftarrow> merge_expert w out st;
           expert_loop env layer r x is gpuOk staged st
         }
     } else do {
       (out, st) \<leftarrow> cpu_expert env layer r i x (zeros expertOut) st;
       st \<leftarrow> merge_expert w out st;
       expert_loop env layer r x is gpuOk staged st
     }
   }"

definition route_experts :: "fwd_env \<Rightarrow> int \<Rightarrow> topk_result \<Rightarrow> f32 list \<Rightarrow> fwd \<Rightarrow> fwd option" where
  "route_experts env layer r x st = do {
     (gpuOk, staged, st) \<leftarrow> (if fw_gpuExperts st \<and> fw_scheduler st \<noteq> None \<and> 0 < tk_k r
        then preload env layer r [0..<min (tk_k r) (nat (max 1 (fw_gpuStagingDepth st)))] 0 st
        else Some (False, 0, st));
     (restart, st) \<leftarrow> expert_loop env layer r x [0..<tk_k r] gpuOk staged st;
     if restart then map_option snd (expert_loop env layer r x [0..<tk_k r] False (tk_k r) st) else Some st
   }"

text \<open>The router: the sigmoid scores, the correction bias, the selection. \<^const>\<open>None\<close> as the result is the early return.\<close>

definition route :: "fwd_env \<Rightarrow> layer_weights \<Rightarrow> f32 list \<Rightarrow> model_config \<Rightarrow> workspace \<Rightarrow> (topk_result option \<times> workspace) option" where
  "route env lw x cfg ws = do {
     let n = numLocalExperts cfg;
     scores \<leftarrow> ensureFloat n (ws_routerScores ws);
     scores \<leftarrow> gemv env (weights_at env (mlpGate lw)) x scores n (hiddenSize cfg);
     let scores = map_prefix (nat n) (\<lambda>v. f32_div f32_one (f32_add f32_one (lm_exp (fe_libm env) (f32_minus v)))) scores;
     let ws = ws\<lparr>ws_routerScores := scores\<rparr>;
     if byteSize (gateBias lw) = 0
     then map_option (\<lambda>r. (Some r, ws))
       (topKScores (fe_rank env) scores n None (numExpertsPerTok cfg) (routedScalingFactor cfg) (normTopkProb cfg))
     else do {
       bias \<leftarrow> ensureFloat n (ws_bias ws);
       (ok, bias) \<leftarrow> loadWeightToF32 env (gateBias lw) bias n;
       let ws = ws\<lparr>ws_bias := bias\<rparr>;
       if \<not> ok then Some (None, ws)
       else map_option (\<lambda>r. (Some r, ws))
         (topKScores (fe_rank env) scores n (Some bias) (numExpertsPerTok cfg) (routedScalingFactor cfg) (normTopkProb cfg))
     }
   }"

definition report_routing :: "fwd_env \<Rightarrow> int \<Rightarrow> topk_result \<Rightarrow> fwd \<Rightarrow> fwd option" where
  "report_routing env layer r st =
     (case fw_scheduler st of
        None \<Rightarrow> Some st
      | Some s \<Rightarrow> map_option snd (sched_call env (\<lambda>n s. map_option (Pair ())
          (onLayerRouterDone (fe_sched env) (fe_racing env n) layer (map int (take (tk_k r) (tk_indices r)))
             (take (tk_k r) (tk_weights r)) s)) s st))"

definition shared_experts :: "fwd_env \<Rightarrow> layer_weights \<Rightarrow> int \<Rightarrow> f32 list \<Rightarrow> f32 list \<Rightarrow> fwd \<Rightarrow> (f32 list \<times> fwd) option" where
  "shared_experts env lw layer x out st =
     (let cfg = wi_config (fw_index st) in
      case fw_scheduler st of
        None \<Rightarrow> map_option (\<lambda>(out, ws). (out, st\<lparr>fw_ws := ws\<rparr>)) (sharedExpertFFN env cfg lw x out (fw_ws st))
      | Some s \<Rightarrow> do {
          (g, st) \<leftarrow> fetch_shared env layer kSharedGateProjSlot s st;
          s \<leftarrow> fw_scheduler st;
          (u, st) \<leftarrow> fetch_shared env layer kSharedUpProjSlot s st;
          s \<leftarrow> fw_scheduler st;
          (d, st) \<leftarrow> fetch_shared env layer kSharedDownProjSlot s st;
          sharedInter \<leftarrow> imul (nSharedExperts cfg) (moeIntermediateSize cfg);
          (out, ws) \<leftarrow> sharedExpertFFNRaw env (map_option u16s g) (map_option u16s u) (map_option u16s d) x out
            sharedInter (hiddenSize cfg) (fw_ws st);
          Some (out, st\<lparr>fw_ws := ws\<rparr>)
        })"

definition moeLayer :: "fwd_env \<Rightarrow> int \<Rightarrow> layer_weights \<Rightarrow> f32 list \<Rightarrow> f32 list \<Rightarrow> fwd \<Rightarrow> (f32 list \<times> fwd) option" where
  "moeLayer env layer lw x output st = do {
     let cfg = wi_config (fw_index st);
     let hidden = hiddenSize cfg;
     (routed, ws) \<leftarrow> route env lw x cfg (fw_ws st);
     case routed of
       None \<Rightarrow> Some (output, st\<lparr>fw_ws := ws\<rparr>)
     | Some r \<Rightarrow> do {
         st \<leftarrow> report_routing env layer r (st\<lparr>fw_ws := ws\<rparr>);
         moeOut \<leftarrow> ensureFloat hidden (ws_moeOut (fw_ws st));
         st \<leftarrow> route_experts env layer r x (st\<lparr>fw_ws := (fw_ws st)\<lparr>ws_moeOut := zeros moeOut\<rparr>\<rparr>);
         sharedOut \<leftarrow> ensureFloat hidden (ws_sharedOut (fw_ws st));
         (sharedOut, st) \<leftarrow> shared_experts env lw layer x sharedOut st;
         merged \<leftarrow> addVec (ws_moeOut (fw_ws st)) sharedOut (nat hidden);
         output \<leftarrow> put (take (nat hidden) merged) output;
         Some (output, st\<lparr>fw_ws := (fw_ws st)\<lparr>ws_sharedOut := sharedOut\<rparr>\<rparr>)
       }
   }"

subsection \<open>The language-model head\<close>

definition worst_logit :: f32 where "worst_logit = 0xF149F2CA"

text \<open>One thread's part of the vocabulary, and the critical sections of the team.\<close>

definition local_best :: "f32 list \<Rightarrow> nat list \<Rightarrow> f32 \<times> nat" where
  "local_best logits = foldl (\<lambda>(best, id) v. if f32_lt best (logits ! v) then (logits ! v, v) else (best, id)) (worst_logit, 0)"

definition team_best :: "f32 list \<Rightarrow> nat list list \<Rightarrow> f32 \<times> nat" where
  "team_best logits = foldl (\<lambda>(best, id) part. case local_best logits part of (b, i) \<Rightarrow>
     if f32_lt best b then (b, i) else (best, id)) (worst_logit, 0)"

text \<open>The scan of \<open>getenv("GLM_DUMP_LOGITS")\<close>, which only logs, is left out.\<close>

definition lmHeadAndSample :: "fwd_env \<Rightarrow> bool \<Rightarrow> fwd \<Rightarrow> (int \<times> f32 list option \<times> fwd) option" where
  "lmHeadAndSample env wantLogits st = do {
     let cfg = wi_config (fw_index st);
     let hidden = hiddenSize cfg;
     normed \<leftarrow> ensureFloat hidden (ws_normed (fw_ws st));
     normed \<leftarrow> copyVec normed (ws_hiddenStates (fw_ws st)) hidden;
     let xs = take (nat hidden) normed;
     let rms = rms_scale env (rmsNormEps cfg) xs;
     normed \<leftarrow> (if length (fw_finalNorm st) < nat hidden then None
                else put (map2 (\<lambda>v u. f32_mul (f32_mul v rms) u) xs (fw_finalNorm st)) normed);
     if vocabSize cfg < 0 then None
     else do {
       let lmW = weights_at env (lmHead (fw_index st));
       logits \<leftarrow> map_M (\<lambda>v. dotBf16F32 (fe_msvc env) (drop (v * nat hidden) lmW) normed (nat hidden)) [0..<nat (vocabSize cfg)];
       Some (int (snd (team_best logits (fe_team env (nat (vocabSize cfg))))), if wantLogits then Some logits else None,
             st\<lparr>fw_ws := (fw_ws st)\<lparr>ws_normed := normed\<rparr>\<rparr>)
     }
   }"

subsection \<open>The engine\<close>

definition dsa_present :: "weight_index \<Rightarrow> bool option" where
  "dsa_present idx =
     (let cfg = wi_config idx in
      if 0 < indexHeadDim cfg \<and> indexerTypes cfg \<noteq> []
      then run_steps (\<lambda>layer enabled.
          if enabled \<and> isIndexerFull cfg (int layer)
          then map_option (\<lambda>lw. byteSize (indexWqB lw) \<noteq> 0 \<and> byteSize (indexWk lw) \<noteq> 0 \<and>
                 byteSize (indexWeightsProj lw) \<noteq> 0 \<and> byteSize (indexKNormW lw) \<noteq> 0) (rd (wi_layers idx) layer)
          else Some enabled) [0..<nat (numLayers cfg)] True
      else Some False)"

text \<open>\<open>init\<close>; the sizes it gives to vectors must not be negative. The final norm is loaded into its buffer.\<close>

definition fwd_init :: "fwd_env \<Rightarrow> fwd \<Rightarrow> (bool \<times> fwd) option" where
  "fwd_init env st = do {
     let idx = fw_index st;
     let cfg = wi_config idx;
     dsa \<leftarrow> dsa_present idx;
     if numLayers cfg < 0 \<or> numAttentionHeads cfg < 0 \<or> qkHeadDim cfg < 0 \<or> vHeadDim cfg < 0 \<or> indexHeadDim cfg < 0 \<or>
        hiddenSize cfg < 0 then None
     else do {
       let kv = kv_init (nat (numLayers cfg)) (nat (numAttentionHeads cfg)) (nat (qkHeadDim cfg)) (nat (vHeadDim cfg))
                  (nat (indexHeadDim cfg)) 64 (fw_kvCache st);
       let n = nat (hiddenSize cfg);
       norm \<leftarrow> (case (if byteSize (finalNorm idx) = 0 then None else getWeightPtr env (finalNorm idx)) of
                  None \<Rightarrow> Some (fw_finalNorm st)
                | Some fn \<Rightarrow> if length fn < n then None else Some (map bf16_toF32 (take n fn)));
       Some (True, st\<lparr>fw_dsaEnabled := dsa, fw_kvCache := kv, fw_lastTopkByLayer := replicate (nat (numLayers cfg)) [],
         fw_finalNorm := (if norm = [] then replicate n f32_one else norm), fw_initialized := True\<rparr>)
     }
   }"

definition fwd_reset :: "fwd \<Rightarrow> fwd" where
  "fwd_reset st = st\<lparr>fw_kvCache := kv_clear (fw_kvCache st), fw_seqLen := 0\<rparr>"

definition attachScheduler :: "scheduler option \<Rightarrow> fwd \<Rightarrow> fwd" where
  "attachScheduler s st = st\<lparr>fw_scheduler := s\<rparr>"

definition enableGpuExperts :: "fwd_env \<Rightarrow> int \<Rightarrow> int \<Rightarrow> fwd \<Rightarrow> fwd" where
  "enableGpuExperts env capacity stagingDepth st =
     (if capacity \<le> 0 then st
      else case gpuExpertCacheConfig (fe_gpuAvail env) capacity (max 1 stagingDepth) (fw_gpu st) of
        (ok, g) \<Rightarrow> st\<lparr>fw_gpuStagingDepth := max 1 stagingDepth, fw_gpu := g, fw_gpuExperts := (ok \<or> fw_gpuExperts st)\<rparr>)"

definition lastTopk :: "int \<Rightarrow> fwd \<Rightarrow> int list" where
  "lastTopk layer st =
     (if layer < 0 \<or> int (length (fw_lastTopkByLayer st)) \<le> layer then [] else fw_lastTopkByLayer st ! nat layer)"

text \<open>The two residual blocks of a layer; the selection is passed from layer to layer.\<close>

definition attention_block :: "fwd_env \<Rightarrow> nat \<Rightarrow> layer_weights \<Rightarrow> int list \<times> fwd \<Rightarrow> (int list \<times> fwd) option" where
  "attention_block env layer lw = (\<lambda>(sel, st). do {
     let cfg = wi_config (fw_index st);
     let hidden = hiddenSize cfg;
     let ws = fw_ws st;
     residual \<leftarrow> copyVec (ws_residual ws) (ws_hiddenStates ws) hidden;
     hs \<leftarrow> rmsNorm env (rmsNormEps cfg) (inputLayernorm lw) (ws_hiddenStates ws) hidden;
     (out, sel, ws, kv) \<leftarrow> attentionLayer env cfg lw (fw_dsaEnabled st) (fw_seqLen st) (int layer) hs (zeros (ws_attnOutL ws)) sel
       (ws\<lparr>ws_residual := residual, ws_hiddenStates := hs\<rparr>, fw_kvCache st);
     topk \<leftarrow> wr (fw_lastTopkByLayer st) layer sel;
     hs \<leftarrow> copyVec hs residual hidden;
     hs \<leftarrow> addVec hs out (nat hidden);
     Some (sel, st\<lparr>fw_ws := ws\<lparr>ws_hiddenStates := hs, ws_attnOutL := out\<rparr>, fw_kvCache := kv, fw_lastTopkByLayer := topk\<rparr>)
   })"

definition mlp_block :: "fwd_env \<Rightarrow> nat \<Rightarrow> layer_weights \<Rightarrow> fwd \<Rightarrow> fwd option" where
  "mlp_block env layer lw st = do {
     let cfg = wi_config (fw_index st);
     let hidden = hiddenSize cfg;
     let ws = fw_ws st;
     residual \<leftarrow> copyVec (ws_residual ws) (ws_hiddenStates ws) hidden;
     hs \<leftarrow> rmsNorm env (rmsNormEps cfg) (postAttentionLayernorm lw) (ws_hiddenStates ws) hidden;
     let st = st\<lparr>fw_ws := ws\<lparr>ws_residual := residual, ws_hiddenStates := hs\<rparr>\<rparr>;
     (out, st) \<leftarrow> (if isMoe lw then moeLayer env (int layer) lw hs (zeros (ws_mlpOut ws)) st
        else map_option (\<lambda>(out, ws). (out, st\<lparr>fw_ws := ws\<rparr>)) (denseMlp env cfg lw hs (zeros (ws_mlpOut ws)) (fw_ws st)));
     hs \<leftarrow> copyVec hs residual hidden;
     hs \<leftarrow> addVec hs out (nat hidden);
     Some (st\<lparr>fw_ws := (fw_ws st)\<lparr>ws_hiddenStates := hs, ws_mlpOut := out\<rparr>\<rparr>)
   }"

definition layer_step :: "fwd_env \<Rightarrow> nat \<Rightarrow> int list \<times> fwd \<Rightarrow> (int list \<times> fwd) option" where
  "layer_step env layer = (\<lambda>(sel, st). do {
     lw \<leftarrow> rd (wi_layers (fw_index st)) layer;
     (sel, st) \<leftarrow> attention_block env layer lw (sel, st);
     st \<leftarrow> mlp_block env layer lw st;
     Some (sel, st)
   })"

text \<open>The embedding row of a token.\<close>

definition embed :: "fwd_env \<Rightarrow> int \<Rightarrow> fwd \<Rightarrow> fwd option" where
  "embed env tokenId st =
     (let hidden = nat (hiddenSize (wi_config (fw_index st)));
          row = drop (nat tokenId * hidden) (weights_at env (embedTokens (fw_index st))) in
      if 0 < hidden \<and> tokenId < 0 \<or> length row < hidden then None
      else map_option (\<lambda>hs. st\<lparr>fw_ws := (fw_ws st)\<lparr>ws_hiddenStates := hs\<rparr>\<rparr>)
        (put (map bf16_toF32 (take hidden row)) (zeros (ws_hiddenStates (fw_ws st)))))"

definition token_step :: "fwd_env \<Rightarrow> int \<Rightarrow> fwd \<Rightarrow> fwd option" where
  "token_step env tokenId st = do {
     st \<leftarrow> embed env tokenId st;
     (sel, st) \<leftarrow> run_steps (layer_step env) [0..<nat (numLayers (wi_config (fw_index st)))] ([], st);
     Some (st\<lparr>fw_kvCache := kv_advance (fw_kvCache st), fw_seqLen := fw_seqLen st + 1\<rparr>)
   }"

fun token_loop :: "fwd_env \<Rightarrow> bool \<Rightarrow> int list \<Rightarrow> fwd \<Rightarrow> (int \<times> f32 list option \<times> fwd) option" where
  "token_loop env wantLogits [] st = Some (- 1, None, st)"
| "token_loop env wantLogits (tok # toks) st = do {
     st \<leftarrow> token_step env tok st;
     if toks = [] then lmHeadAndSample env wantLogits st else token_loop env wantLogits toks st
   }"

definition forward :: "fwd_env \<Rightarrow> int list \<Rightarrow> bool \<Rightarrow> fwd \<Rightarrow> (int \<times> f32 list option \<times> fwd) option" where
  "forward env inputIds wantLogits st =
     (if \<not> fw_initialized st then Some (- 1, None, st)
      else do {
        let hidden = hiddenSize (wi_config (fw_index st));
        let ws = fw_ws st;
        kv \<leftarrow> (if 2147483647 < int (length inputIds) + 16 then None
               else kv_reserve (int (length inputIds) + 16) (fw_kvCache st));
        hs \<leftarrow> ensureFloat hidden (ws_hiddenStates ws);
        residual \<leftarrow> ensureFloat hidden (ws_residual ws);
        attnOutL \<leftarrow> ensureFloat hidden (ws_attnOutL ws);
        mlpOut \<leftarrow> ensureFloat hidden (ws_mlpOut ws);
        token_loop env wantLogits (drop (nat (fw_seqLen st)) inputIds)
          (st\<lparr>fw_kvCache := kv, fw_ws := ws\<lparr>ws_hiddenStates := hs, ws_residual := residual, ws_attnOutL := attnOutL,
                                            ws_mlpOut := mlpOut\<rparr>\<rparr>)
      })"

end
