(* ===== verification/ForwardProofs.thy ===== *)
theory ForwardProofs
  imports Forward SchedHistory GpuCacheProofs
begin

text \<open>
  The selections of the forward pass: the positions the sparse-attention indexer keeps, and the token
  the threads of the language-model head agree on.
\<close>

subsection \<open>The indexer's selection\<close>

text \<open>Position \<open>a\<close> ranks before \<open>b\<close>: a greater score, or an equal one and an earlier position.\<close>

definition ranks_before :: "f32 list \<Rightarrow> int \<Rightarrow> int \<Rightarrow> bool" where
  "ranks_before scores a b \<longleftrightarrow> f32_lt (scores ! nat b) (scores ! nat a) \<or>
     f32_eq (scores ! nat a) (scores ! nat b) \<and> a < b"

lemma dsa_less_weak:
  assumes "\<forall>a \<in> A. \<not> f32_is_nan (fst a)"
  shows "strict_weak dsa_less A"
proof -
  have less: "dsa_less a b \<longleftrightarrow> f32_int (fst b) < f32_int (fst a) \<or> f32_int (fst a) = f32_int (fst b) \<and> snd a < snd b"
    if "a \<in> A" "b \<in> A" for a b
    using that assms by (auto simp: dsa_less_def f32_eq_def f32_lt_def)
  show ?thesis unfolding strict_weak_def by (intro conjI ballI impI) (simp_all add: less, linarith+)
qed

lemma map_M_length: "map_M f xs = Some ys \<Longrightarrow> length ys = length xs"
  by (induction xs arbitrary: ys) (auto simp: bind_eq_Some_conv)

text \<open>
  C14. The sparse selection is determined: for scores without NaN the indexer answers the
  \<open>min indexTopk (seqLen + 1)\<close> positions of the history with the greatest scores, each once, in
  descending order of score with ties by ascending position, and every position left out ranks after
  every one kept, whatever the library's partial sort does with its range.
\<close>

theorem dsa_selects_top:
  assumes "partial_sorter (fe_sort env)" "0 \<le> seqLen" "0 \<le> indexTopk cfg"
    and "map_M (\<lambda>t. dsa_score env (ws_iq ws) (ws_wVec ws) (nat (indexNHeads cfg)) (nat (indexHeadDim cfg))
           (kv_view lb_index (kv_getIndexKey layer t kv) layer kv)) (map int [0..<nat (seqLen + 1)]) = Some scores"
    and "\<forall>s \<in> set scores. \<not> f32_is_nan s"
  shows "\<exists>sel. dsa_select env cfg seqLen layer ws kv = Some sel \<and> int (length sel) = min (indexTopk cfg) (seqLen + 1) \<and>
    distinct sel \<and> set sel \<subseteq> {0..seqLen} \<and> sorted_wrt (ranks_before scores) sel \<and>
    (\<forall>a \<in> set sel. \<forall>b \<in> {0..seqLen}. b \<notin> set sel \<longrightarrow> ranks_before scores a b)"
proof -
  define n k where "n = nat (seqLen + 1)" and "k = nat (min (indexTopk cfg) (seqLen + 1))"
  let ?rk = "zip scores (map int [0..<n])"
  let ?r = "fe_sort env dsa_less k ?rk"
  have len: "length scores = n" using map_M_length [OF assms(4)] by (simp add: n_def)
  have kn: "k \<le> length ?rk" using len by (simp add: n_def k_def)
  have elem: "p \<in> set ?rk \<longleftrightarrow> 0 \<le> snd p \<and> snd p \<le> seqLen \<and> fst p = scores ! nat (snd p)" for p
  proof -
    have "p \<in> set ?rk \<longleftrightarrow> (\<exists>i < n. fst p = scores ! i \<and> snd p = int i)"
      using len by (cases p) (auto simp: set_zip)
    also have "\<dots> \<longleftrightarrow> 0 \<le> snd p \<and> snd p \<le> seqLen \<and> fst p = scores ! nat (snd p)"
      using assms(2) by (auto simp: n_def intro!: exI [of _ "nat (snd p)"])
    finally show ?thesis .
  qed
  have weak: "strict_weak dsa_less (set ?rk)"
    using assms(5) by (intro dsa_less_weak) (auto dest: set_zip_leftD)
  note ps = partial_sorter.psort_set [OF assms(1) weak kn] partial_sorter.psort_length [OF assms(1) weak kn]
    partial_sorter.psort_sorted_prefix [OF assms(1) weak kn] partial_sorter.psort_selects [OF assms(1) weak kn]
  have in_rk: "p \<in> set ?rk" if "p \<in> set (take k ?r)" for p
    using that ps(1) by (metis in_set_takeD)
  have before: "ranks_before scores (snd a) (snd b)" if "a \<in> set ?rk" "b \<in> set ?rk" "\<not> dsa_less b a" "snd a \<noteq> snd b" for a b
  proof -
    have nn: "\<not> f32_is_nan (fst a)" "\<not> f32_is_nan (fst b)"
      using that(1,2) assms(5) by (metis prod.collapse set_zip_leftD)+
    show ?thesis using that nn elem [of a] elem [of b]
      by (auto simp: ranks_before_def dsa_less_def f32_eq_def f32_lt_def split: if_splits)
  qed
  have dist: "distinct (map snd ?r)"
    by (rule partial_sorter.psort_distinct [OF assms(1) weak kn]) (use len in \<open>simp add: distinct_map\<close>)
  let ?sel = "map snd (take k ?r)"
  have d: "distinct ?sel" using dist by (simp add: take_map [symmetric])
  have "sorted_wrt (ranks_before scores) ?sel"
  proof -
    have "ranks_before scores (?sel ! i) (?sel ! j)" if "i < j" "j < length ?sel" for i j
    proof -
      have ij: "i < length (take k ?r)" "j < length (take k ?r)" using that by simp_all
      have "\<not> dsa_less (take k ?r ! j) (take k ?r ! i)"
        by (rule sorted_wrt_nth_less [OF ps(3) that(1) ij(2)])
      moreover have "snd (take k ?r ! i) \<noteq> snd (take k ?r ! j)"
        using d ij that(1) nth_eq_iff_index_eq [OF d, of i j] by simp
      ultimately show ?thesis
        using before [OF in_rk [OF nth_mem [OF ij(1)]] in_rk [OF nth_mem [OF ij(2)]]] ij by simp
    qed
    then show ?thesis by (simp only: sorted_wrt_iff_nth_less) blast
  qed
  moreover have "ranks_before scores a b" if "a \<in> set ?sel" "b \<in> {0..seqLen}" "b \<notin> set ?sel" for a b
  proof -
    obtain p where p: "p \<in> set (take k ?r)" "a = snd p" using \<open>a \<in> set ?sel\<close> by auto
    let ?q = "(scores ! nat b, b)"
    have q: "?q \<in> set ?rk" using \<open>b \<in> {0..seqLen}\<close> elem [of ?q] by simp
    have "?q \<notin> set (take k ?r)" using \<open>b \<notin> set ?sel\<close> by force
    then have "\<not> dsa_less ?q p" by (rule ps(4) [OF p(1) q])
    then have "ranks_before scores (snd p) (snd ?q)"
      by (rule before [OF in_rk [OF p(1)] q]) (use p that in auto)
    then show ?thesis by (simp add: p(2))
  qed
  moreover have "set ?sel \<subseteq> {0..seqLen}" using in_rk elem by fastforce
  moreover have "dsa_select env cfg seqLen layer ws kv = Some ?sel"
    using assms(2-4) by (simp add: dsa_select_def k_def n_def Let_def)
  moreover have "int (length ?sel) = min (indexTopk cfg) (seqLen + 1)"
    using ps(2) kn assms(2,3) by (simp add: k_def)
  ultimately show ?thesis using d by blast
qed

subsection \<open>The token of the language-model head\<close>

definition best_of :: "f32 list \<Rightarrow> nat set \<Rightarrow> f32 \<times> nat \<Rightarrow> bool" where
  "best_of logits V = (\<lambda>(b, i).
     (b, i) = (worst_logit, 0) \<and> (\<forall>v \<in> V. \<not> f32_lt worst_logit (logits ! v)) \<or>
     i \<in> V \<and> b = logits ! i \<and> f32_lt worst_logit b \<and> (\<forall>v \<in> V. \<not> f32_lt b (logits ! v)))"

lemma f32_lt_shift: "f32_lt x y \<Longrightarrow> \<not> f32_lt x z \<Longrightarrow> \<not> f32_lt y z"
  by (auto simp: f32_lt_def)

lemma best_of_insert:
  "best_of logits V (b, i) \<Longrightarrow> best_of logits (insert v V) (if f32_lt b (logits ! v) then (logits ! v, v) else (b, i))"
  using f32_lt_trans [of worst_logit b "logits ! v"] f32_lt_shift [of b "logits ! v"]
  by (auto simp: best_of_def)

lemma local_best_spec: "best_of logits V (b, i) \<Longrightarrow>
    best_of logits (V \<union> set part) (foldl (\<lambda>(best, id) v. if f32_lt best (logits ! v) then (logits ! v, v) else (best, id)) (b, i) part)"
proof (induction part arbitrary: V b i)
  case (Cons v part)
  obtain b' i' where bi: "(if f32_lt b (logits ! v) then (logits ! v, v) else (b, i)) = (b', i')" by fastforce
  then have "best_of logits (insert v V) (b', i')" using best_of_insert [OF Cons.prems, of v] by simp
  from Cons.IH [OF this] bi show ?case by simp
qed simp

lemma best_of_start: "best_of logits {} (worst_logit, 0)"
  by (simp add: best_of_def)

lemma best_of_merge:
  assumes "best_of logits V (b, i)" "best_of logits W (c, j)"
  shows "best_of logits (V \<union> W) (if f32_lt b c then (c, j) else (b, i))"
proof (cases "f32_lt b c")
  case True
  then have "c \<noteq> worst_logit \<or> b \<noteq> worst_logit" by auto
  then show ?thesis using assms True f32_lt_trans [of worst_logit b c] f32_lt_shift [of b c]
    by (auto simp: best_of_def)
next
  case False
  have "\<not> f32_lt b (logits ! v)" if "v \<in> W" for v
    using assms False that f32_lt_trans [of b "logits ! v" "logits ! v"]
    by (auto simp: best_of_def f32_lt_def)
  then show ?thesis using assms False by (auto simp: best_of_def)
qed

lemma team_best_spec: "best_of logits (set (concat team)) (team_best logits team)"
proof -
  have "best_of logits (V \<union> set (concat team)) (foldl (\<lambda>(best, id) part. case local_best logits part of (b, i) \<Rightarrow>
      if f32_lt best b then (b, i) else (best, id)) (b, i) team)" if "best_of logits V (b, i)" for V b i
    using that
  proof (induction team arbitrary: V b i)
    case (Cons part team)
    obtain c j where cj: "local_best logits part = (c, j)" by fastforce
    then have "best_of logits (set part) (c, j)"
      using local_best_spec [OF best_of_start, of logits part] by (simp add: local_best_def)
    note m = best_of_merge [OF Cons.prems this]
    obtain b' i' where bi: "(if f32_lt b c then (c, j) else (b, i)) = (b', i')" by fastforce
    from Cons.IH [of "V \<union> set part" b' i'] m bi cj show ?case by (simp add: Un_assoc)
  qed simp
  from this [OF best_of_start] show ?thesis by (simp add: team_best_def)
qed

text \<open>
  C15. However OpenMP deals the vocabulary to the threads and in whatever order they enter the critical
  section, the head answers a token whose logit is above $-10^{30}$ and exceeded by no other, and 0
  when no logit is above that. (Which of several greatest logits wins does depend on the order.)
\<close>

theorem lm_head_takes_greatest:
  assumes "lmHeadAndSample env True st = Some (tok, Some logits, st')"
    and "mset (concat (fe_team env (length logits))) = mset [0..<length logits]"
  shows "length logits = nat (vocabSize (wi_config (fw_index st))) \<and>
    (if \<exists>x \<in> set logits. f32_lt worst_logit x
     then 0 \<le> tok \<and> tok < int (length logits) \<and> f32_lt worst_logit (logits ! nat tok) \<and>
       (\<forall>x \<in> set logits. \<not> f32_lt (logits ! nat tok) x)
     else tok = 0)"
proof -
  have len: "length logits = nat (vocabSize (wi_config (fw_index st)))"
    and tok: "tok = int (snd (team_best logits (fe_team env (length logits))))"
    using assms(1) by (auto simp: lmHeadAndSample_def bind_eq_Some_conv Let_def split: if_splits dest!: map_M_length)
  have V: "set (concat (fe_team env (length logits))) = {0..<length logits}"
    using mset_eq_setD [OF assms(2)] by simp
  obtain b i where bi: "team_best logits (fe_team env (length logits)) = (b, i)" by fastforce
  have "best_of logits {0..<length logits} (b, i)"
    using team_best_spec [of logits "fe_team env (length logits)"] V bi by simp
  moreover have "(\<exists>x \<in> set logits. P x) \<longleftrightarrow> (\<exists>v < length logits. P (logits ! v))" for P by (metis in_set_conv_nth)
  ultimately show ?thesis using len tok bi unfolding all_set_conv_all_nth by (auto simp: best_of_def)
qed

lemma head_ties_depend_on_order:
  "snd (team_best [f32_one, f32_one] [[0], [1]]) = 0" "snd (team_best [f32_one, f32_one] [[1], [0]]) = 1"
  by code_simp+

subsection \<open>Witnesses\<close>

text \<open>A model of one hidden unit and two tokens, without layers.\<close>

definition tiny_libm :: libm where
  "tiny_libm = \<lparr>lm_exp = (\<lambda>_. f32_one), lm_log = (\<lambda>_. f32_zero), lm_sqrt = (\<lambda>_. f32_one), lm_pow = (\<lambda>_ _. f32_one),
     lm_cos = (\<lambda>_. f32_one), lm_sin = (\<lambda>_. f32_zero), lm_tanh = (\<lambda>_. f32_zero)\<rparr>"

definition tiny_env :: fwd_env where
  "tiny_env = \<lparr>fe_libm = tiny_libm, fe_msvc = False, fe_rank = stable_psort, fe_sort = stable_psort,
     fe_sched = sd_env\<lparr>se_view := [''m'' \<mapsto> [0x80, 0x3F, 0x00, 0x40]]\<rparr>, fe_workers = (\<lambda>_. []), fe_racing = (\<lambda>_. []),
     fe_polls = (\<lambda>_. []), fe_past = (\<lambda>_. Some 0), fe_gpuAvail = False, fe_stage = (\<lambda>_. stage_fine), fe_ffn = (\<lambda>_. ffn_fine),
     fe_kernel = demo_kernel, fe_team = (\<lambda>n. [[1..<n], [0..<min 1 n]])\<rparr>"

definition tiny_loc :: tensor_location where
  "tiny_loc = TensorLocation\<lparr>shardPath := ''m'', byteSize := 4\<rparr>"

definition tiny_index :: weight_index where
  "tiny_index = WeightIndex\<lparr>wi_config := ModelConfig\<lparr>hiddenSize := 1, vocabSize := 2\<rparr>, lmHead := tiny_loc, embedTokens := tiny_loc\<rparr>"

definition tiny_state :: fwd where
  "tiny_state = (GLMForward tiny_index)\<lparr>fw_finalNorm := [f32_one], fw_ws := Workspace\<lparr>ws_hiddenStates := [f32_one]\<rparr>\<rparr>"

lemma tiny_head: "map_option (\<lambda>(tok, logits, st'). (tok, logits)) (lmHeadAndSample tiny_env True tiny_state) =
    Some (1, Some [0x3F800000, 0x40000000])"
  by code_simp

lemma lm_head_takes_greatest_witness:
  "\<exists>st'. lmHeadAndSample tiny_env True tiny_state = Some (1, Some [0x3F800000, 0x40000000], st') \<and>
    f32_lt worst_logit 0x40000000 \<and> \<not> f32_lt 0x40000000 0x3F800000"
proof -
  obtain st' where st': "lmHeadAndSample tiny_env True tiny_state = Some (1, Some [0x3F800000, 0x40000000], st')"
    using tiny_head by auto
  have team: "mset (concat (fe_team tiny_env (length [0x3F800000, 0x40000000 :: f32]))) = mset [0..<length [0x3F800000, 0x40000000 :: f32]]"
    by (simp add: tiny_env_def upt_conv_Cons)
  have above: "f32_lt worst_logit 0x40000000" by code_simp
  show ?thesis using lm_head_takes_greatest [OF st' team] st' above by simp
qed

definition tiny_keys :: kv_cache where
  "tiny_keys = (kv_init 1 1 1 1 1 4 KVCache)\<lparr>kv_buffers :=
     [\<lparr>lb_key = [], lb_value = [], lb_index = [f32_half, f32_one, f32_half, f32_zero]\<rparr>]\<rparr>"

lemma tiny_scores:
  "map_M (\<lambda>t. dsa_score tiny_env [f32_one] [f32_one] 1 1 (kv_view lb_index (kv_getIndexKey 0 t tiny_keys) 0 tiny_keys))
     (map int [0..<3]) = Some [f32_half, f32_one, f32_half]"
  by code_simp

lemma dsa_selects_top_witness:
  "\<exists>sel. dsa_select tiny_env (ModelConfig\<lparr>indexTopk := 2, indexNHeads := 1, indexHeadDim := 1\<rparr>) 2 0
      (Workspace\<lparr>ws_iq := [f32_one], ws_wVec := [f32_one]\<rparr>) tiny_keys = Some sel \<and> length sel = 2 \<and>
    sorted_wrt (ranks_before [f32_half, f32_one, f32_half]) sel"
proof -
  let ?cfg = "ModelConfig\<lparr>indexTopk := 2, indexNHeads := 1, indexHeadDim := 1\<rparr>"
    and ?ws = "Workspace\<lparr>ws_iq := [f32_one], ws_wVec := [f32_one]\<rparr>"
  have psort: "partial_sorter (fe_sort tiny_env)" by (simp add: tiny_env_def stable.partial_sorter_axioms)
  have "map_M (\<lambda>t. dsa_score tiny_env (ws_iq ?ws) (ws_wVec ?ws) (nat (indexNHeads ?cfg)) (nat (indexHeadDim ?cfg))
      (kv_view lb_index (kv_getIndexKey 0 t tiny_keys) 0 tiny_keys)) (map int [0..<nat (2 + 1)]) = Some [f32_half, f32_one, f32_half]"
    using tiny_scores by simp
  from dsa_selects_top [OF psort _ _ this] show ?thesis by force
qed

end
