(* ===== verification/FwdPipeline.thy ===== *)
theory FwdPipeline
  imports ForwardProofs
begin

text \<open>
  The storage pipeline is transparent: with a scheduler attached, whatever its workers do and whenever
  they do it, a forward pass computes bit for bit what it computes from the mapped shards directly.
\<close>

subsection \<open>Reading a prefix\<close>

lemma u16s_append: "even (length xs) \<Longrightarrow> u16s (xs @ ys) = u16s xs @ u16s ys"
  by (induction xs rule: u16s.induct) auto

lemma length_u16s [simp]: "length (u16s xs) = length xs div 2"
  by (induction xs rule: u16s.induct) auto

lemma take_u16s: "take n (u16s xs) = u16s (take (2 * n) xs)"
proof (induction xs arbitrary: n rule: u16s.induct)
  case (1 a b rest)
  then show ?case by (cases n) auto
qed (auto simp: take_Cons split: nat.split)

lemma drop_u16s: "drop n (u16s xs) = u16s (drop (2 * n) xs)"
proof (induction xs arbitrary: n rule: u16s.induct)
  case (1 a b rest)
  then show ?case by (cases n) auto
qed (auto simp: drop_Cons split: nat.split)

lemma fma8_take: "j + 8 \<le> n \<Longrightarrow> fma8 (drop j (take n as)) bs s = fma8 (drop j as) bs s"
  by (simp add: fma8_def drop_take min_def)

lemma fma_rest_prefix:
  "8 dvd j \<Longrightarrow> 8 dvd K8 \<Longrightarrow> K8 \<le> n \<Longrightarrow> fma_rest j K8 (take n as) bs s = fma_rest j K8 as bs s"
proof (induction j K8 as bs s rule: fma_rest.induct)
  case (1 j K8 as bs s)
  show ?case
  proof (cases "j < K8")
    case True
    have "j + 8 \<le> K8"
    proof -
      obtain a b where "j = 8 * a" "K8 = 8 * b" using 1(2,3) unfolding dvd_def by blast
      then show ?thesis using True by simp
    qed
    then have "fma8 (drop j (take n as)) (drop j bs) s = fma8 (drop j as) (drop j bs) s"
      using 1(4) by (intro fma8_take) simp
    then show ?thesis using 1 True by (simp add: fma_rest_step(1) [OF True])
  next
    case False
    then show ?thesis by (simp add: fma_rest_step(2))
  qed
qed

text \<open>A dot product reads no more of a row than its length says.\<close>

lemma row_prefix:
  "avx_dot K (take K row) x = avx_dot K row x" "scalar_dot K (take K row) x = scalar_dot K row x"
proof -
  have r: "fma_rest 0 (K div 8 * 8) (take K row) x s = fma_rest 0 (K div 8 * 8) row x s" for s
    by (rule fma_rest_prefix) simp_all
  have "take (K - i) (drop i (take K row)) = take (K - i) (drop i row)" for i by (simp add: drop_take)
  then have "avx_dot_bf16 K (take K row) x = avx_dot_bf16 K row x" by (simp add: avx_dot_bf16_def r)
  moreover have "avx_dot K r x = avx_dot_bf16 K r x" for r using avx_dot_eq [of K r x] .
  ultimately show "avx_dot K (take K row) x = avx_dot K row x" by simp
  show "scalar_dot K (take K row) x = scalar_dot K row x" by (simp add: scalar_dot_def)
qed

lemma gemv_prefix:
  assumes "take (nat M * nat K) A = take (nat M * nat K) B" "nat M * nat K \<le> length A" "nat M * nat K \<le> length B"
  shows "gemv env A x y M K = gemv env B x y M K"
proof -
  have row: "take (nat K) (drop (i * nat K) (map bf16_toF32 A)) = take (nat K) (drop (i * nat K) (map bf16_toF32 B))" if "i < nat M" for i
  proof -
    have "Suc i * nat K \<le> nat M * nat K" using that by (intro mult_le_mono1) simp
    then have "nat K \<le> nat M * nat K - i * nat K" by simp
    then have "take (nat K) (drop (i * nat K) xs) = take (nat K) (drop (i * nat K) (take (nat M * nat K) xs))" for xs :: "u16 list"
      by (simp only: drop_take take_take min_absorb1)
    then have "take (nat K) (drop (i * nat K) A) = take (nat K) (drop (i * nat K) B)" by (metis assms(1))
    then show ?thesis by (simp add: drop_map take_map)
  qed
  have dot: "avx_dot (nat K) (drop (i * nat K) (map bf16_toF32 A)) x = avx_dot (nat K) (drop (i * nat K) (map bf16_toF32 B)) x"
    "scalar_dot (nat K) (drop (i * nat K) (map bf16_toF32 A)) x = scalar_dot (nat K) (drop (i * nat K) (map bf16_toF32 B)) x"
    if "i < nat M" for i
    using row [OF that] row_prefix [of "nat K" "drop (i * nat K) (map bf16_toF32 A)" x]
      row_prefix [of "nat K" "drop (i * nat K) (map bf16_toF32 B)" x] by simp_all
  have "gemv_rows msvc (map bf16_toF32 A) x y (nat M) (nat K) a b = gemv_rows msvc (map bf16_toF32 B) x y (nat M) (nat K) a b" for msvc a b
    unfolding gemv_rows_def using dot by (cases msvc) (simp_all add: Let_def)
  then show ?thesis using assms(2,3) by (simp add: gemv_def gemv_bf16_f32_def gemv_f32_def Let_def)
qed

lemma expertFFNRaw_prefix:
  assumes "take n gA = take n gB" "take n uA = take n uB" "take n dA = take n dB"
    and "n \<le> length gA" "n \<le> length gB" "n \<le> length uA" "n \<le> length uB" "n \<le> length dA" "n \<le> length dB"
    and "n = nat (interSize * hidden)" "0 \<le> hidden"
  shows "expertFFNRaw env gA uA dA x out hidden interSize ws = expertFFNRaw env gB uB dB x out hidden interSize ws"
proof (cases "0 \<le> interSize")
  case True
  then have prod: "nat interSize * nat hidden = n" "nat hidden * nat interSize = n"
    using assms(10,11) by (simp_all add: nat_mult_distrib)
  have g: "gemv env A x y M K = gemv env B x y M K"
    if "take n A = take n B" "n \<le> length A" "n \<le> length B" "nat M * nat K = n" for A B x y M K
    using gemv_prefix [of M K A B env x y] that by simp
  have "gemv env gA x y interSize hidden = gemv env gB x y interSize hidden"
    "gemv env uA x y interSize hidden = gemv env uB x y interSize hidden"
    "gemv env dA m y hidden interSize = gemv env dB m y hidden interSize" for y m
    by (rule g [OF assms(1,4,5) prod(1)], rule g [OF assms(2,6,7) prod(1)], rule g [OF assms(3,8,9) prod(2)])
  then show ?thesis by (simp only: expertFFNRaw_def)
qed (simp add: expertFFNRaw_def ensureFloat_def)

subsection \<open>The served bytes are the mapped ones\<close>

text \<open>Three projections of \<open>n\<close> elements, or none.\<close>

definition sized :: "nat \<Rightarrow> tensor_location list \<Rightarrow> bool" where
  "sized n locs \<longleftrightarrow> list_all (\<lambda>loc. unat (byteSize loc) = 2 * n) locs"

lemma mapped_weights:
  assumes "loc_ok (se_files (fe_sched env)) loc" "env_ok (fe_sched env)" "all_mapped (fe_sched env)" "unat (byteSize loc) = 2 * n"
  shows "take n (weights_at env loc) = u16s (loc_bytes (se_files (fe_sched env)) loc) \<and> n \<le> length (weights_at env loc) \<and>
    length (loc_bytes (se_files (fe_sched env)) loc) = 2 * n \<and> (0 < n \<longrightarrow> getWeightPtr env loc \<noteq> None)"
proof (cases "n = 0")
  case True
  then have "loc_bytes (se_files (fe_sched env)) loc = []" using assms(4)
    by (simp add: loc_bytes_def file_bytes_def slice_def split: option.split)
  then show ?thesis using True by simp
next
  case False
  then have "byteSize loc \<noteq> 0" using assms(4) by auto
  then obtain content where c: "se_files (fe_sched env) (shardPath loc) = Some content"
      "unat (byteOffset loc) + unat (byteSize loc) \<le> length content" using assms(1) unfolding loc_ok_def by blast
  then obtain v where v: "se_view (fe_sched env) (shardPath loc) = Some v" using assms(3) unfolding all_mapped_def by (metis not_None_eq)
  then have "v = content" using assms(2) c(1) unfolding env_ok_def by (metis option.inject)
  then have p: "getWeightPtr env loc = Some (u16s (drop (unat (byteOffset loc)) content))" using v by (simp add: getWeightPtr_def)
  moreover have "loc_bytes (se_files (fe_sched env)) loc = take (2 * n) (drop (unat (byteOffset loc)) content)"
    using c(1) assms(4) by (simp add: loc_bytes_def file_bytes_def slice_def)
  ultimately show ?thesis using c(2) assms(4) by (simp add: deref_def take_u16s)
qed

lemma served_split:
  assumes "serves (a @ b @ c) buf" "length a = 2 * n" "length b = 2 * n" "length c = 2 * n"
  shows "take n (u16s buf) = u16s a" "take n (drop n (u16s buf)) = u16s b" "take n (drop (2 * n) (u16s buf)) = u16s c"
    "3 * n \<le> length (u16s buf)"
proof -
  obtain rest where r: "buf = (a @ b @ c) @ rest" using assms(1) unfolding serves_def by (metis append_take_drop_id)
  then have "u16s buf = u16s a @ u16s b @ u16s c @ u16s rest" using assms(2-4) by (simp add: u16s_append)
  then show "take n (u16s buf) = u16s a" "take n (drop n (u16s buf)) = u16s b" "take n (drop (2 * n) (u16s buf)) = u16s c"
    "3 * n \<le> length (u16s buf)" using assms(2-4) by simp_all
qed

subsection \<open>The setting\<close>

text \<open>
  An index whose recorded locations lie inside the files and have the sizes of the configuration,
  files that can be mapped, and a look-ahead that survives its reads past the router's result.
\<close>

definition moe_size :: "model_config \<Rightarrow> int" where
  "moe_size cfg = moeIntermediateSize cfg * hiddenSize cfg"

definition shared_size :: "model_config \<Rightarrow> int" where
  "shared_size cfg = nSharedExperts cfg * moeIntermediateSize cfg * hiddenSize cfg"

definition pipeline_ok :: "fwd_env \<Rightarrow> weight_index \<Rightarrow> bool" where
  "pipeline_ok env w \<longleftrightarrow> index_sound (se_files (fe_sched env)) w \<and> env_ok (fe_sched env) \<and> all_mapped (fe_sched env) \<and>
     (\<forall>n. fe_past env n \<noteq> None) \<and> 0 \<le> hiddenSize (wi_config w) \<and>
     (\<forall>layer. layer_ready w layer) \<and>
     (\<forall>layer e ew. expert_at w layer e = Some ew \<longrightarrow> totalBytes ew = 0 \<or> sized (nat (moe_size (wi_config w))) (expert_locs ew)) \<and>
     (\<forall>lw \<in> set (wi_layers w). byteSize (sharedGateProj lw) = 0 \<or>
        0 < shared_size (wi_config w) \<and>
        sized (nat (shared_size (wi_config w))) [sharedGateProj lw, sharedUpProj lw, sharedDownProj lw])"

lemma expert_sizes:
  "pipeline_ok env w \<Longrightarrow> expert_at w layer e = Some ew \<Longrightarrow> totalBytes ew \<noteq> 0 \<Longrightarrow> sized (nat (moe_size (wi_config w))) (expert_locs ew)"
  unfolding pipeline_ok_def by blast

lemma shared_sizes:
  "pipeline_ok env w \<Longrightarrow> lw \<in> set (wi_layers w) \<Longrightarrow> byteSize (sharedGateProj lw) \<noteq> 0 \<Longrightarrow> 0 < shared_size (wi_config w) \<and>
     sized (nat (shared_size (wi_config w))) [sharedGateProj lw, sharedUpProj lw, sharedDownProj lw]"
  unfolding pipeline_ok_def by blast

text \<open>The engine without its scheduler.\<close>

definition direct :: "fwd \<Rightarrow> fwd" where
  "direct st = st\<lparr>fw_scheduler := None, fw_calls := 0\<rparr>"

lemma direct_simps [simp]:
  "fw_index (direct st) = fw_index st" "fw_scheduler (direct st) = None" "fw_initialized (direct st) = fw_initialized st"
  "fw_dsaEnabled (direct st) = fw_dsaEnabled st" "fw_gpuExperts (direct st) = fw_gpuExperts st" "fw_seqLen (direct st) = fw_seqLen st"
  "fw_kvCache (direct st) = fw_kvCache st" "fw_lastTopkByLayer (direct st) = fw_lastTopkByLayer st"
  "fw_finalNorm (direct st) = fw_finalNorm st" "fw_ws (direct st) = fw_ws st"
  "(direct st)\<lparr>fw_ws := ws\<rparr> = direct (st\<lparr>fw_ws := ws\<rparr>)"
  "(direct st)\<lparr>fw_kvCache := kv\<rparr> = direct (st\<lparr>fw_kvCache := kv\<rparr>)"
  "(direct st)\<lparr>fw_seqLen := n\<rparr> = direct (st\<lparr>fw_seqLen := n\<rparr>)"
  "(direct st)\<lparr>fw_lastTopkByLayer := tk\<rparr> = direct (st\<lparr>fw_lastTopkByLayer := tk\<rparr>)"
  "direct (direct st) = direct st"
  by (simp_all add: direct_def)

text \<open>An engine on a healthy pipeline that has been called at most \<open>n\<close> times.\<close>

definition piped :: "fwd_env \<Rightarrow> weight_index \<Rightarrow> nat \<Rightarrow> fwd \<Rightarrow> bool" where
  "piped env w n st \<longleftrightarrow> fw_index st = w \<and> \<not> fw_gpuExperts st \<and> fw_calls st \<le> n \<and>
     (\<exists>s. fw_scheduler st = Some s \<and> hist_ok (fe_sched env) w (2 * fw_calls st) s)"

lemma piped_upd [simp]:
  "piped env w n (st\<lparr>fw_ws := ws\<rparr>) = piped env w n st" "piped env w n (st\<lparr>fw_kvCache := kv\<rparr>) = piped env w n st"
  "piped env w n (st\<lparr>fw_seqLen := m\<rparr>) = piped env w n st" "piped env w n (st\<lparr>fw_lastTopkByLayer := tk\<rparr>) = piped env w n st"
  by (simp_all add: piped_def)

lemma piped_mono: "piped env w n st \<Longrightarrow> n \<le> m \<Longrightarrow> piped env w m st"
  by (auto simp: piped_def)

lemma pipedD: "piped env w n st \<Longrightarrow> fw_index st = w" "piped env w n st \<Longrightarrow> \<not> fw_gpuExperts st"
  by (simp_all add: piped_def)

text \<open>A run on the pipeline, and the direct run: the same results, and a state the next step can start from.\<close>

definition sim :: "fwd_env \<Rightarrow> weight_index \<Rightarrow> nat \<Rightarrow> ('a \<times> fwd) option \<Rightarrow> ('a \<times> fwd) option \<Rightarrow> bool" where
  "sim env w n m d \<longleftrightarrow> d = map_option (map_prod id direct) m \<and> (\<forall>a st. m = Some (a, st) \<longrightarrow> piped env w n st)"

definition sim1 :: "fwd_env \<Rightarrow> weight_index \<Rightarrow> nat \<Rightarrow> fwd option \<Rightarrow> fwd option \<Rightarrow> bool" where
  "sim1 env w n m d \<longleftrightarrow> d = map_option direct m \<and> (\<forall>st. m = Some st \<longrightarrow> piped env w n st)"

named_theorems sim_intros

lemma sim_Some [sim_intros]: "piped env w n st \<Longrightarrow> sim env w n (Some (a, st)) (Some (a, direct st))"
  by (simp add: sim_def)

lemma sim1_Some [sim_intros]: "piped env w n st \<Longrightarrow> sim1 env w n (Some st) (Some (direct st))"
  by (simp add: sim1_def)

lemma sim_None [simp]: "sim env w n None None" "sim1 env w n None None"
  by (simp_all add: sim_def sim1_def)

lemma sim_pure [sim_intros]: "(\<And>a. m = Some a \<Longrightarrow> sim env w n (f a) (g a)) \<Longrightarrow> sim env w n (Option.bind m f) (Option.bind m g)"
  by (cases m) simp_all

lemma sim1_pure [sim_intros]: "(\<And>a. m = Some a \<Longrightarrow> sim1 env w n (f a) (g a)) \<Longrightarrow> sim1 env w n (Option.bind m f) (Option.bind m g)"
  by (cases m) simp_all

lemma sim_bind:
  "sim env w k m d \<Longrightarrow> (\<And>a st. piped env w k st \<Longrightarrow> sim env w n (f (a, st)) (g (a, direct st))) \<Longrightarrow>
   sim env w n (Option.bind m f) (Option.bind d g)"
  by (cases m) (auto simp: sim_def)

lemma sim_bind1:
  "sim1 env w k m d \<Longrightarrow> (\<And>st. piped env w k st \<Longrightarrow> sim env w n (f st) (g (direct st))) \<Longrightarrow>
   sim env w n (Option.bind m f) (Option.bind d g)"
  by (cases m) (auto simp: sim_def sim1_def)

lemma sim1_bind:
  "sim env w k m d \<Longrightarrow> (\<And>a st. piped env w k st \<Longrightarrow> sim1 env w n (f (a, st)) (g (a, direct st))) \<Longrightarrow>
   sim1 env w n (Option.bind m f) (Option.bind d g)"
  by (cases m) (auto simp: sim_def sim1_def)

lemma sim1_bind1:
  "sim1 env w k m d \<Longrightarrow> (\<And>st. piped env w k st \<Longrightarrow> sim1 env w n (f st) (g (direct st))) \<Longrightarrow>
   sim1 env w n (Option.bind m f) (Option.bind d g)"
  by (cases m) (auto simp: sim1_def)

lemma sim_mono: "sim env w n m d \<Longrightarrow> n \<le> k \<Longrightarrow> sim env w k m d"
  by (auto simp: sim_def intro: piped_mono)

lemma sim1_mono: "sim1 env w n m d \<Longrightarrow> n \<le> k \<Longrightarrow> sim1 env w k m d"
  by (auto simp: sim1_def intro: piped_mono)

subsection \<open>Calls into the scheduler\<close>

lemma sched_call_ok:
  assumes "piped env w n st" "n < 1000000000" "fw_scheduler st = Some s"
    and "\<And>k s. hist_ok (fe_sched env) w k s \<Longrightarrow> k < 2147483647 \<Longrightarrow>
      \<exists>r s'. call (fw_calls st) s = Some (r, s') \<and> hist_ok (fe_sched env) w (Suc k) s' \<and> P r"
  shows "\<exists>r st'. sched_call env call s st = Some (r, st') \<and> piped env w (n + 1) st' \<and> direct st' = direct st \<and> P r"
proof -
  have h: "hist_ok (fe_sched env) w (2 * fw_calls st) s" and c: "fw_calls st \<le> n" using assms(1,3) by (auto simp: piped_def)
  obtain s1 where s1: "run_workers (fe_sched env) (fe_workers env (fw_calls st)) s = Some s1"
      "hist_ok (fe_sched env) w (2 * fw_calls st) s1"
    using run_workers_ok [OF hist_ok_sched [OF h]] hist_ok_frame [OF h] by metis
  have "Suc (2 * fw_calls st) < 2147483647" using c assms(2) by simp
  then obtain r s' where s': "call (fw_calls st) s1 = Some (r, s')" "hist_ok (fe_sched env) w (Suc (Suc (2 * fw_calls st))) s'" "P r"
    using assms(4) [OF hist_ok_Suc [OF s1(2)]] by blast
  let ?st = "st\<lparr>fw_scheduler := Some s', fw_calls := fw_calls st + 1\<rparr>"
  have "sched_call env call s st = Some (r, ?st)" using s1(1) s'(1) by (simp add: sched_call_def)
  moreover have "piped env w (n + 1) ?st" using assms(1) s'(2) c by (simp add: piped_def)
  moreover have "direct ?st = direct st" by (simp add: direct_def)
  ultimately show ?thesis using s'(3) by blast
qed

lemma getExpertPtr_served_in_model:
  "getExpertPtr env racing polls layer e s = Some (True, s') \<Longrightarrow> sc_index s = Some w \<Longrightarrow>
   in_model w layer e \<and> (\<exists>ew. expert_at w layer e = Some ew \<and> totalBytes ew \<noteq> 0)"
  by (auto simp: getExpertPtr_def in_model_def Let_def bind_eq_Some_conv split: if_splits)

lemma fetch_expert_ok:
  assumes "pipeline_ok env w" "piped env w n st" "n < 1000000000" "fw_scheduler st = Some s"
  shows "\<exists>r st'. fetch_expert env layer e s st = Some (r, st') \<and> piped env w (n + 1) st' \<and> direct st' = direct st \<and>
    (\<forall>buf. r = Some buf \<longrightarrow> in_model w layer e \<and> (\<exists>ew. expert_at w layer e = Some ew \<and> totalBytes ew \<noteq> 0) \<and>
       serves (key_source (se_files (fe_sched env)) w (keyOf layer e)) buf)"
  unfolding fetch_expert_def
proof (rule sched_call_ok [OF assms(2-4)])
  fix k s
  assume h: "hist_ok (fe_sched env) w k s" and k: "k < 2147483647"
  let ?ptr = "getExpertPtr (fe_sched env) (fe_racing env (fw_calls st)) (fe_polls env (fw_calls st)) layer e s"
  have ix: "sc_index s = Some w" using sched_okD(1) [OF hist_ok_sched [OF h]] .
  obtain ok s' where g: "?ptr = Some (ok, s')" "hist_ok (fe_sched env) w (Suc k) s'"
      "ok \<longrightarrow> serves (key_source (se_files (fe_sched env)) w (keyOf layer e)) (exScratch s')"
    using getExpertPtr_hist [OF h _ _ _ k] assms(1) unfolding pipeline_ok_def by blast
  show "\<exists>r s'. map_option (\<lambda>(ok, s). (if ok then Some (exScratch s) else None, s)) ?ptr = Some (r, s') \<and>
      hist_ok (fe_sched env) w (Suc k) s' \<and>
      (\<forall>buf. r = Some buf \<longrightarrow> in_model w layer e \<and> (\<exists>ew. expert_at w layer e = Some ew \<and> totalBytes ew \<noteq> 0) \<and>
         serves (key_source (se_files (fe_sched env)) w (keyOf layer e)) buf)"
    using g getExpertPtr_served_in_model [OF _ ix] by (cases ok) auto
qed

lemma topk_index_survives: "pipeline_ok env w \<Longrightarrow> \<exists>eid. topk_index env r i = Some eid"
  by (cases "i < length (tk_indices r)") (simp_all add: topk_index_def pipeline_ok_def)

lemma look_ahead_ok:
  assumes "pipeline_ok env w" "piped env w n st" "n + 2 < 1000000000"
  shows "\<exists>st'. look_ahead env layer r i st = Some st' \<and> piped env w (n + 2) st' \<and> direct st' = direct st"
proof -
  let ?f = "\<lambda>ahead st. if numLocalExperts (wi_config (fw_index st)) \<le> int (i + ahead) then Some st
    else Option.bind (fw_scheduler st) (\<lambda>s. Option.bind (topk_index env r (i + ahead)) (\<lambda>eid.
      Option.bind (sched_call env (\<lambda>n s. map_option (Pair ()) (prefetchExpert (fe_sched env) layer eid s)) s st) (\<lambda>(_, st). Some st)))"
  have step: "\<exists>st'. ?f ahead st = Some st' \<and> piped env w (m + 1) st' \<and> direct st' = direct st"
    if l: "piped env w m st" and m: "m < 1000000000" for ahead m st
  proof (cases "numLocalExperts (wi_config (fw_index st)) \<le> int (i + ahead)")
    case False
    obtain s where s: "fw_scheduler st = Some s" using l by (auto simp: piped_def)
    obtain eid where eid: "topk_index env r (i + ahead) = Some eid"
      using topk_index_survives [OF assms(1)] by blast
    have "\<exists>u st'. sched_call env (\<lambda>n s. map_option (Pair ()) (prefetchExpert (fe_sched env) layer eid s)) s st = Some (u, st') \<and>
        piped env w (m + 1) st' \<and> direct st' = direct st \<and> True"
    proof (rule sched_call_ok [OF l m s])
      fix k s assume h: "hist_ok (fe_sched env) w k s"
      then obtain s' where "prefetchExpert (fe_sched env) layer eid s = Some s'" "hist_ok (fe_sched env) w k s'"
        using prefetchExpert_ok [OF h] assms(1) unfolding pipeline_ok_def by blast
      then show "\<exists>r s'. map_option (Pair ()) (prefetchExpert (fe_sched env) layer eid s) = Some (r, s') \<and>
          hist_ok (fe_sched env) w (Suc k) s' \<and> True" by (simp add: hist_ok_Suc)
    qed
    then show ?thesis using False s eid by auto
  qed (use l in \<open>auto intro: piped_mono\<close>)
  obtain st1 where s1: "?f 1 st = Some st1" "piped env w (n + 1) st1" "direct st1 = direct st"
    using step [OF assms(2), where ahead = 1] assms(3) by auto
  obtain st2 where "?f 2 st1 = Some st2" "piped env w (n + 1 + 1) st2" "direct st2 = direct st1"
    using step [OF s1(2), where ahead = 2] assms(3) by auto
  with s1 show ?thesis unfolding look_ahead_def run_steps.simps by auto
qed

subsection \<open>One expert\<close>

lemma direct_expert_sim:
  "piped env w n st \<Longrightarrow> sim env w n (direct_expert env layer eid x out st) (direct_expert env layer eid x out (direct st))"
  unfolding direct_expert_def direct_simps
  by (intro sim_intros) (auto intro!: sim_intros)

text \<open>The network on the served buffer is the network on the mapped projections.\<close>

lemma served_network:
  assumes "pipeline_ok env w" "in_model w layer eid" "expert_at w layer eid = Some ew" "totalBytes ew \<noteq> 0"
    and "serves (key_source (se_files (fe_sched env)) w (keyOf layer eid)) buf" "cfg = wi_config w"
    and "m = nat (moeIntermediateSize cfg * hiddenSize cfg)"
  shows "expertFFNRaw env (u16s buf) (drop m (u16s buf)) (drop (2 * m) (u16s buf)) x out (hiddenSize cfg) (moeIntermediateSize cfg) ws =
    expertFFN env ew x out (hiddenSize cfg) (moeIntermediateSize cfg) ws"
proof -
  let ?src = "\<lambda>loc. loc_bytes (se_files (fe_sched env)) loc"
  note p = assms(1) [unfolded pipeline_ok_def]
  have "layer_ready w layer" using p by blast
  then have "stageable w (layer, eid)" by (simp add: stageable_def layer_ready_def)
  then obtain ew' where "expert_at w layer eid = Some ew'"
      "key_source (se_files (fe_sched env)) w (keyOf layer eid) = concat (map ?src (expert_locs ew'))"
      "locs_ok (se_files (fe_sched env)) (expert_locs ew')"
    using expert_lookup [of "se_files (fe_sched env)" w layer eid] p assms(2) unfolding in_model_def by metis
  then have src: "key_source (se_files (fe_sched env)) w (keyOf layer eid) = ?src (gateProj ew) @ ?src (upProj ew) @ ?src (downProj ew)"
    and ok: "loc_ok (se_files (fe_sched env)) (gateProj ew)" "loc_ok (se_files (fe_sched env)) (upProj ew)"
      "loc_ok (se_files (fe_sched env)) (downProj ew)"
    using assms(3) by (simp_all add: expert_locs_def locs_ok_def)
  have "sized m (expert_locs ew)" using expert_sizes [OF assms(1,3,4)] assms(6,7) by (simp add: moe_size_def)
  then have size: "unat (byteSize (gateProj ew)) = 2 * m" "unat (byteSize (upProj ew)) = 2 * m" "unat (byteSize (downProj ew)) = 2 * m"
    by (simp_all add: sized_def expert_locs_def)
  have env: "env_ok (fe_sched env)" "all_mapped (fe_sched env)" using p by simp_all
  note g = mapped_weights [OF ok(1) env size(1)] and u = mapped_weights [OF ok(2) env size(2)]
    and d = mapped_weights [OF ok(3) env size(3)]
  note s = served_split [OF assms(5) [unfolded src], of m]
  show ?thesis unfolding expertFFN_def
    by (rule expertFFNRaw_prefix [where n = m])
      (use g u d s p assms(6,7) in \<open>simp_all add: min_def\<close>)
qed

lemma cpu_expert_sim:
  assumes "pipeline_ok env w" "piped env w n st" "n + 3 < 1000000000"
  shows "sim env w (n + 3) (cpu_expert env layer r i x out st) (cpu_expert env layer r i x out (direct st))"
proof -
  obtain eid where eid: "topk_index env r i = Some eid" using topk_index_survives [OF assms(1)] by blast
  obtain s0 where s0: "fw_scheduler st = Some s0" using assms(2) by (auto simp: piped_def)
  obtain st1 where s1: "look_ahead env layer r i st = Some st1" "piped env w (n + 2) st1" "direct st1 = direct st"
    using look_ahead_ok [OF assms(1,2), of layer r i] assms(3) by auto
  obtain s where s: "fw_scheduler st1 = Some s" using s1(2) by (auto simp: piped_def)
  have three: "n + 2 + 1 = n + 3" by simp
  obtain e st2 where f: "fetch_expert env layer eid s st1 = Some (e, st2)" "piped env w (n + 3) st2" "direct st2 = direct st1"
      "\<forall>buf. e = Some buf \<longrightarrow> in_model w layer eid \<and> (\<exists>ew. expert_at w layer eid = Some ew \<and> totalBytes ew \<noteq> 0) \<and>
         serves (key_source (se_files (fe_sched env)) w (keyOf layer eid)) buf"
    using fetch_expert_ok [OF assms(1) s1(2) _ s, of layer eid, unfolded three] assms(3) by auto
  have d: "cpu_expert env layer r i x out (direct st) = direct_expert env layer eid x out (direct st2)"
    using eid s1(3) f(3) by (simp add: cpu_expert_def)
  have w2: "fw_index st2 = w" using f(2) by (simp add: piped_def)
  show ?thesis
  proof (cases e)
    case None
    then have "cpu_expert env layer r i x out st = direct_expert env layer eid x out st2"
      using eid s0 s1(1) s f(1) by (simp add: cpu_expert_def)
    then show ?thesis unfolding d using direct_expert_sim [OF f(2)] by simp
  next
    case (Some buf)
    then obtain ew where ew: "in_model w layer eid" "expert_at w layer eid = Some ew" "totalBytes ew \<noteq> 0"
        "serves (key_source (se_files (fe_sched env)) w (keyOf layer eid)) buf" using f(4) by blast
    have "cpu_expert env layer r i x out st = direct_expert env layer eid x out st2"
      using eid s0 s1(1) s f(1) Some ew(1,2) served_network [OF assms(1) ew refl refl]
      by (simp add: cpu_expert_def direct_expert_def w2 in_model_def Let_def)
    then show ?thesis unfolding d using direct_expert_sim [OF f(2)] by simp
  qed
qed

subsection \<open>The mixture of experts\<close>

lemma merge_expert_sim: "piped env w n st \<Longrightarrow> sim1 env w n (merge_expert c out st) (merge_expert c out (direct st))"
  unfolding merge_expert_def direct_simps by (intro sim_intros) (auto intro!: sim_intros)

lemma expert_loop_sim:
  "pipeline_ok env w \<Longrightarrow> piped env w n st \<Longrightarrow> n + 3 * length is < 1000000000 \<Longrightarrow>
   sim env w (n + 3 * length is) (expert_loop env layer r x is False sg st) (expert_loop env layer r x is False sg (direct st))"
proof (induction "is" arbitrary: n st)
  case Nil
  then show ?case by (simp add: sim_Some)
next
  case (Cons i "is")
  have "sim env w (n + 3 + 3 * length is)
      (expert_loop env layer r x (i # is) False sg st) (expert_loop env layer r x (i # is) False sg (direct st))"
    unfolding expert_loop.simps direct_simps
    using cpu_expert_sim [OF Cons.prems(1,2), of layer r i x] Cons.prems(3)
    by (auto intro!: sim_pure sim_bind [where k = "n + 3"] sim_bind1 [where k = "n + 3"] merge_expert_sim Cons.IH Cons.prems(1))
  then show ?case by (simp add: add.assoc)
qed

lemma topk_small: "topKScores rank scores n bias topK rsf nm = Some r \<Longrightarrow> tk_k r \<le> 8"
proof (rule ccontr)
  assume r: "topKScores rank scores n bias topK rsf nm = Some r" and k: "\<not> tk_k r \<le> 8"
  then have "tk_k r = nat (min topK n)" "0 < n" "0 < topK"
    by (auto simp: topKScores_def Let_def TopKResult_def split: if_splits)
  then have "8 < nat (min topK n)" using k by simp
  then have "route_fill ranked scores [0..<nat (min topK n)] (replicate 8 0, replicate 8 f32_zero, f32_zero) = None" for ranked
    by (intro route_overflow) simp_all
  then show False using r \<open>0 < n\<close> \<open>0 < topK\<close>
    by (auto simp: topKScores_def Let_def TopKResult_def split: if_splits)
qed

lemma route_small: "route env lw x cfg ws = Some (Some r, ws') \<Longrightarrow> tk_k r \<le> 8"
  by (auto simp: route_def Let_def bind_eq_Some_conv dest!: topk_small split: if_splits)

lemma report_routing_sim:
  assumes "pipeline_ok env w" "piped env w n st" "n < 1000000000" "0 \<le> layer" "layer < numLayers (wi_config w)" "tk_k r \<le> 8"
  shows "sim1 env w (n + 1) (report_routing env layer r st) (report_routing env layer r (direct st))"
proof -
  obtain s where s: "fw_scheduler st = Some s" using assms(2) by (auto simp: piped_def)
  let ?call = "\<lambda>n s. map_option (Pair ()) (onLayerRouterDone (fe_sched env) (fe_racing env n) layer
      (map int (take (tk_k r) (tk_indices r))) (take (tk_k r) (tk_weights r)) s)"
  have "\<exists>u st'. sched_call env ?call s st = Some (u, st') \<and> piped env w (n + 1) st' \<and> direct st' = direct st \<and> True"
  proof (rule sched_call_ok [OF assms(2,3) s])
    fix k s assume h: "hist_ok (fe_sched env) w k s"
    have p: "index_sound (se_files (fe_sched env)) w" "env_ok (fe_sched env)" "layer_ready w layer" "layer_ready w (layer + 1)"
      using assms(1) unfolding pipeline_ok_def by blast+
    then have op: "sched_op_ok w (RouterDone racing layer (map int (take (tk_k r) (tk_indices r))) probs)" for racing probs
      using assms(5,6) by (simp add: index_sound_def)
    from onLayerRouterDone_ok [OF h p(1,2) op] show "\<exists>u s'. ?call (fw_calls st) s = Some (u, s') \<and>
        hist_ok (fe_sched env) w (Suc k) s' \<and> True"
      using hist_ok_Suc by fastforce
  qed
  then show ?thesis using s by (auto simp: report_routing_def sim1_def)
qed

lemma route_experts_sim:
  assumes "pipeline_ok env w" "piped env w n st" "n + 24 < 1000000000" "tk_k r \<le> 8"
  shows "sim1 env w (n + 24) (route_experts env layer r x st) (route_experts env layer r x (direct st))"
proof -
  have g: "\<not> fw_gpuExperts st" using assms(2) by (rule pipedD)
  have k: "n + 3 * length [0..<tk_k r] \<le> n + 24" "n + 3 * length [0..<tk_k r] < 1000000000" using assms(3,4) by simp_all
  note s = sim_mono [OF expert_loop_sim [OF assms(1,2) k(2)] k(1), of layer r x 0]
  have no: "\<not> b" if "expert_loop env layer r x is False sg st' = Some (b, st'')" for b "is" sg st' st''
    using that by (induction "is" arbitrary: st') (auto simp: bind_eq_Some_conv split: option.splits)
  show ?thesis
  proof (cases "expert_loop env layer r x [0..<tk_k r] False 0 st")
    case None
    then show ?thesis using s g by (simp add: route_experts_def sim_def)
  next
    case (Some p)
    obtain b st' where p: "p = (b, st')" by fastforce
    then have e: "expert_loop env layer r x [0..<tk_k r] False 0 st = Some (False, st')" using no [of "[0..<tk_k r]" 0 st b st'] Some by simp
    then have "expert_loop env layer r x [0..<tk_k r] False 0 (direct st) = Some (False, direct st')" "piped env w (n + 24) st'"
      using s unfolding sim_def e by auto
    then show ?thesis using e g by (simp add: route_experts_def sim1_Some)
  qed
qed

subsection \<open>The shared experts\<close>

lemma fetch_shared_ok:
  assumes "pipeline_ok env w" "piped env w n st" "n < 1000000000" "fw_scheduler st = Some s"
    and "0 \<le> layer" "layer < numLayers (wi_config w)" "rd (wi_layers w) (nat layer) = Some lw"
    and "slot \<in> {kSharedGateProjSlot, kSharedUpProjSlot, kSharedDownProjSlot}" "loc = sharedSlotLoc lw slot"
  shows "\<exists>r st'. fetch_shared env layer slot s st = Some (r, st') \<and> piped env w (n + 1) st' \<and> direct st' = direct st \<and>
    (if byteSize loc = 0 then r = None
     else \<exists>buf. r = Some buf \<and> serves (loc_bytes (se_files (fe_sched env)) loc) buf \<and> loc_ok (se_files (fe_sched env)) loc)"
  unfolding fetch_shared_def
proof (rule sched_call_ok [OF assms(2-4)])
  fix k s
  assume h: "hist_ok (fe_sched env) w k s" and k: "k < 2147483647"
  let ?ptr = "getSharedProjectionPtr (fe_sched env) (fe_racing env (fw_calls st)) (fe_polls env (fw_calls st)) layer slot s"
  have p: "index_sound (se_files (fe_sched env)) w" "env_ok (fe_sched env)" "layer_ready w layer" "all_mapped (fe_sched env)"
    using assms(1) unfolding pipeline_ok_def by blast+
  have st: "stageable w (layer, uint slot)" using p(3) by (simp add: stageable_def layer_ready_def)
  obtain loc' where l: "shared_request (fe_sched env) w layer slot loc'"
    using shared_lookup [OF p(1,2) st assms(5,6,8)] by blast
  then have loc: "loc' = loc" "loc_ok (se_files (fe_sched env)) loc"
    using assms(7,9) by (auto simp: shared_request_def)
  have "getAccessCount layer (uint slot) (sc_placement s) < 2147483647"
    using hist_ok_count [OF h, of layer "uint slot"] k by linarith
  moreover have "length (shScratch s) = 3" using h by (simp add: hist_ok_def)
  ultimately obtain ok s' where g: "?ptr = Some (ok, s')" "ok \<or> byteSize loc = 0 \<or> unmapped (fe_sched env) [loc]"
      "ok \<longrightarrow> serves (loc_bytes (se_files (fe_sched env)) loc) (shScratch s' ! unat (slot - kSharedGateProjSlot))"
    using getSharedProjectionPtr_ok [OF hist_ok_sched [OF h] p(1) l st] unfolding loc(1) by metis
  have "hist_ok (fe_sched env) w (Suc k) s'"
    using getShared_hist [OF h p(1-3) k assms(8)] g(1) by (metis option.inject prod.inject)
  moreover have "\<not> unmapped (fe_sched env) [loc]"
  proof -
    have "byteSize loc = 0 \<or> se_files (fe_sched env) (shardPath loc) \<noteq> None" using loc(2) by (auto simp: loc_ok_def)
    then show ?thesis using p(4) by (auto simp: unmapped_def all_mapped_def)
  qed
  moreover have "ok = False" if "byteSize loc = 0"
  proof -
    have "sc_index s = Some w" using sched_okD(1) [OF hist_ok_sched [OF h]] .
    then have "?ptr = Some (False, s)" using that assms(5-7,9) by (simp add: getSharedProjectionPtr_def)
    then show ?thesis using g(1) by simp
  qed
  ultimately show "\<exists>r s'. map_option (\<lambda>(ok, s). (if ok then Some (shScratch s ! unat (slot - kSharedGateProjSlot)) else None, s)) ?ptr =
        Some (r, s') \<and> hist_ok (fe_sched env) w (Suc k) s' \<and>
      (if byteSize loc = 0 then r = None
       else \<exists>buf. r = Some buf \<and> serves (loc_bytes (se_files (fe_sched env)) loc) buf \<and> loc_ok (se_files (fe_sched env)) loc)"
    using g loc(2) by auto
qed

lemma served_one:
  assumes "serves a buf" "length a = 2 * n"
  shows "take n (u16s buf) = u16s a" "n \<le> length (u16s buf)"
proof -
  obtain rest where "buf = a @ rest" using assms(1) unfolding serves_def by (metis append_take_drop_id)
  then have "u16s buf = u16s a @ u16s rest" using assms(2) by (simp add: u16s_append)
  then show "take n (u16s buf) = u16s a" "n \<le> length (u16s buf)" using assms(2) by simp_all
qed

lemma served_shared_network:
  assumes "pipeline_ok env w" "lw \<in> set (wi_layers w)" "byteSize (sharedGateProj lw) \<noteq> 0" "cfg = wi_config w"
    and "serves (loc_bytes (se_files (fe_sched env)) (sharedGateProj lw)) g" "loc_ok (se_files (fe_sched env)) (sharedGateProj lw)"
    and "serves (loc_bytes (se_files (fe_sched env)) (sharedUpProj lw)) u" "loc_ok (se_files (fe_sched env)) (sharedUpProj lw)"
    and "serves (loc_bytes (se_files (fe_sched env)) (sharedDownProj lw)) d" "loc_ok (se_files (fe_sched env)) (sharedDownProj lw)"
    and "i = nSharedExperts cfg * moeIntermediateSize cfg"
  shows "sharedExpertFFNRaw env (Some (u16s g)) (Some (u16s u)) (Some (u16s d)) x out i (hiddenSize cfg) ws =
    sharedExpertFFNRaw env (getWeightPtr env (sharedGateProj lw)) (getWeightPtr env (sharedUpProj lw))
      (getWeightPtr env (sharedDownProj lw)) x out i (hiddenSize cfg) ws"
proof -
  define m where "m = nat (shared_size (wi_config w))"
  have h: "0 \<le> hiddenSize cfg" "env_ok (fe_sched env)" "all_mapped (fe_sched env)"
    using assms(1,4) unfolding pipeline_ok_def by blast+
  have size: "0 < m" "unat (byteSize (sharedGateProj lw)) = 2 * m" "unat (byteSize (sharedUpProj lw)) = 2 * m"
      "unat (byteSize (sharedDownProj lw)) = 2 * m"
    using shared_sizes [OF assms(1-3)] by (simp_all add: m_def sized_def)
  have m: "m = nat (i * hiddenSize cfg)" using assms(4,11) by (simp add: m_def shared_size_def)
  note G = mapped_weights [OF assms(6) h(2,3) size(2)] and U = mapped_weights [OF assms(8) h(2,3) size(3)]
    and D = mapped_weights [OF assms(10) h(2,3) size(4)]
  have lens: "length (loc_bytes (se_files (fe_sched env)) (sharedGateProj lw)) = 2 * m"
    "length (loc_bytes (se_files (fe_sched env)) (sharedUpProj lw)) = 2 * m"
    "length (loc_bytes (se_files (fe_sched env)) (sharedDownProj lw)) = 2 * m" using G U D by simp_all
  note s = served_one [OF assms(5) lens(1)] served_one [OF assms(7) lens(2)] served_one [OF assms(9) lens(3)]
  have "expertFFNRaw env (u16s g) (u16s u) (u16s d) x out (hiddenSize cfg) i ws =
      expertFFNRaw env (weights_at env (sharedGateProj lw)) (weights_at env (sharedUpProj lw)) (weights_at env (sharedDownProj lw))
        x out (hiddenSize cfg) i ws"
    by (rule expertFFNRaw_prefix [where n = m]) (use G U D s m h(1) in simp_all)
  moreover obtain pg pu pd where "getWeightPtr env (sharedGateProj lw) = Some pg" "getWeightPtr env (sharedUpProj lw) = Some pu"
      "getWeightPtr env (sharedDownProj lw) = Some pd" using G U D size(1) by auto
  ultimately show ?thesis by (simp add: sharedExpertFFNRaw_def deref_def)
qed

lemma shared_slots_of:
  "sharedSlotLoc lw kSharedGateProjSlot = sharedGateProj lw" "sharedSlotLoc lw kSharedUpProjSlot = sharedUpProj lw"
  "sharedSlotLoc lw kSharedDownProjSlot = sharedDownProj lw"
  by (simp_all add: sharedSlotLoc_def kSharedGateProjSlot_def kSharedUpProjSlot_def kSharedDownProjSlot_def)

lemma shared_experts_sim:
  assumes "pipeline_ok env w" "piped env w n st" "n + 3 < 1000000000"
    and "0 \<le> layer" "layer < numLayers (wi_config w)" "rd (wi_layers w) (nat layer) = Some lw"
  shows "sim env w (n + 3) (shared_experts env lw layer x out st) (shared_experts env lw layer x out (direct st))"
proof -
  let ?cfg = "wi_config w"
  have lw: "lw \<in> set (wi_layers w)" using assms(6) by (auto simp: rd_def split: if_splits)
  note f = fetch_shared_ok [OF assms(1) _ _ _ assms(4-6)]
  obtain s where s: "fw_scheduler st = Some s" using assms(2) by (auto simp: piped_def)
  obtain g st1 where g: "fetch_shared env layer kSharedGateProjSlot s st = Some (g, st1)" "piped env w (n + 1) st1" "direct st1 = direct st"
      "if byteSize (sharedGateProj lw) = 0 then g = None else \<exists>buf. g = Some buf \<and>
        serves (loc_bytes (se_files (fe_sched env)) (sharedGateProj lw)) buf \<and> loc_ok (se_files (fe_sched env)) (sharedGateProj lw)"
    using f [OF assms(2) _ s _ shared_slots_of(1) [symmetric]] assms(3) by auto
  obtain s1 where s1: "fw_scheduler st1 = Some s1" using g(2) by (auto simp: piped_def)
  obtain u st2 where u: "fetch_shared env layer kSharedUpProjSlot s1 st1 = Some (u, st2)" "piped env w (n + 1 + 1) st2" "direct st2 = direct st1"
      "if byteSize (sharedUpProj lw) = 0 then u = None else \<exists>buf. u = Some buf \<and>
        serves (loc_bytes (se_files (fe_sched env)) (sharedUpProj lw)) buf \<and> loc_ok (se_files (fe_sched env)) (sharedUpProj lw)"
    using f [OF g(2) _ s1 _ shared_slots_of(2) [symmetric]] assms(3) by auto
  obtain s2 where s2: "fw_scheduler st2 = Some s2" using u(2) by (auto simp: piped_def)
  obtain d st3 where d: "fetch_shared env layer kSharedDownProjSlot s2 st2 = Some (d, st3)" "piped env w (n + 1 + 1 + 1) st3" "direct st3 = direct st2"
      "if byteSize (sharedDownProj lw) = 0 then d = None else \<exists>buf. d = Some buf \<and>
        serves (loc_bytes (se_files (fe_sched env)) (sharedDownProj lw)) buf \<and> loc_ok (se_files (fe_sched env)) (sharedDownProj lw)"
    using f [OF u(2) _ s2 _ shared_slots_of(3) [symmetric]] assms(3) by auto
  let ?raw = "\<lambda>inter. sharedExpertFFNRaw env (map_option u16s g) (map_option u16s u) (map_option u16s d) x out inter (hiddenSize ?cfg) (fw_ws st3)"
  have idx: "fw_index st = w" "fw_index st3 = w" using assms(2) d(2) by (simp_all add: piped_def)
  have st3: "direct st3 = direct st" "fw_ws st3 = fw_ws st" using g(3) u(3) d(3) by (metis, metis direct_simps(10))
  have pipe: "shared_experts env lw layer x out st =
      Option.bind (imul (nSharedExperts ?cfg) (moeIntermediateSize ?cfg)) (\<lambda>inter. Option.bind (?raw inter) (\<lambda>(out, ws). Some (out, st3\<lparr>fw_ws := ws\<rparr>)))"
    using s g(1) s1 u(1) s2 d(1) idx by (simp add: shared_experts_def Let_def)
  have raw: "?raw inter = (if byteSize (sharedGateProj lw) = 0 then map_option (\<lambda>out. (out, fw_ws st)) (zero_out out (hiddenSize ?cfg))
      else sharedExpertFFNRaw env (getWeightPtr env (sharedGateProj lw)) (getWeightPtr env (sharedUpProj lw))
            (getWeightPtr env (sharedDownProj lw)) x out inter (hiddenSize ?cfg) (fw_ws st))"
    if "imul (nSharedExperts ?cfg) (moeIntermediateSize ?cfg) = Some inter" for inter
  proof (cases "byteSize (sharedGateProj lw) = 0")
    case True
    then show ?thesis using g(4) st3 by (simp add: sharedExpertFFNRaw_def)
  next
    case False
    have i: "inter = nSharedExperts ?cfg * moeIntermediateSize ?cfg" using that by (simp add: imul_def split: if_splits)
    have "0 < shared_size ?cfg" "unat (byteSize (sharedUpProj lw)) = 2 * nat (shared_size ?cfg)"
      "unat (byteSize (sharedDownProj lw)) = 2 * nat (shared_size ?cfg)"
      using shared_sizes [OF assms(1) lw False] by (simp_all add: sized_def)
    then have "byteSize (sharedUpProj lw) \<noteq> 0" "byteSize (sharedDownProj lw) \<noteq> 0" by auto
    then obtain bg bu bd where b: "g = Some bg" "u = Some bu" "d = Some bd"
        "serves (loc_bytes (se_files (fe_sched env)) (sharedGateProj lw)) bg" "loc_ok (se_files (fe_sched env)) (sharedGateProj lw)"
        "serves (loc_bytes (se_files (fe_sched env)) (sharedUpProj lw)) bu" "loc_ok (se_files (fe_sched env)) (sharedUpProj lw)"
        "serves (loc_bytes (se_files (fe_sched env)) (sharedDownProj lw)) bd" "loc_ok (se_files (fe_sched env)) (sharedDownProj lw)"
      using g(4) u(4) d(4) False by auto
    show ?thesis using served_shared_network [OF assms(1) lw False refl b(4-9) i, of x out "fw_ws st"] False st3(2)
      by (simp add: b(1-3))
  qed
  have upd: "direct (st3\<lparr>fw_ws := ws\<rparr>) = direct (st\<lparr>fw_ws := ws\<rparr>)" for ws by (metis direct_simps(11) st3(1))
  have "shared_experts env lw layer x out (direct st) = Option.bind (imul (nSharedExperts ?cfg) (moeIntermediateSize ?cfg))
      (\<lambda>inter. map_option (\<lambda>(out, ws). (out, direct (st\<lparr>fw_ws := ws\<rparr>))) (?raw inter))"
    using idx raw by (cases "imul (nSharedExperts ?cfg) (moeIntermediateSize ?cfg)")
      (auto simp: shared_experts_def sharedExpertFFN_def Let_def option.map_comp o_def)
  also have "\<dots> = map_option (map_prod id direct) (shared_experts env lw layer x out st)"
    unfolding pipe upd [symmetric]
    by (cases "imul (nSharedExperts ?cfg) (moeIntermediateSize ?cfg)", simp, rename_tac inter, case_tac "?raw inter") auto
  finally have dir: "shared_experts env lw layer x out (direct st) = map_option (map_prod id direct) (shared_experts env lw layer x out st)" .
  have "piped env w (n + 3) st'" if "shared_experts env lw layer x out st = Some (a, st')" for a st'
    using that d(2) unfolding pipe by (auto simp: bind_eq_Some_conv numeral_3_eq_3)
  then show ?thesis using dir by (simp add: sim_def)
qed

lemma moeLayer_sim:
  assumes "pipeline_ok env w" "piped env w n st" "n + 28 < 1000000000"
    and "layer < nat (numLayers (wi_config w))" "rd (wi_layers w) layer = Some lw"
  shows "sim env w (n + 28) (moeLayer env (int layer) lw x out st) (moeLayer env (int layer) lw x out (direct st))"
proof -
  have layer: "0 \<le> int layer" "int layer < numLayers (wi_config w)" "rd (wi_layers w) (nat (int layer)) = Some lw"
    using assms(4,5) by simp_all
  have idx: "fw_index st = w" using assms(2) by (rule pipedD)
  have rest: "sim env w (n + 28)
      (Option.bind (report_routing env (int layer) r (st\<lparr>fw_ws := ws\<rparr>)) F)
      (Option.bind (report_routing env (int layer) r (direct (st\<lparr>fw_ws := ws\<rparr>))) F)"
    if r: "tk_k r \<le> 8" and F: "\<And>st'. piped env w (n + 1) st' \<Longrightarrow> sim env w (n + 28) (F st') (F (direct st'))" for r ws F
  proof (rule sim_bind1 [OF report_routing_sim [OF assms(1) _ _ layer(1,2) r]])
    show "n < 1000000000" using assms(3) by linarith
  qed (use assms(2) F in simp_all)
  have experts: "sim env w (n + 28) (Option.bind (route_experts env (int layer) r x st') F) (Option.bind (route_experts env (int layer) r x (direct st')) F)"
    if st': "piped env w (n + 1) st'" and r: "tk_k r \<le> 8"
      and F: "\<And>st''. piped env w (n + 25) st'' \<Longrightarrow> sim env w (n + 28) (F st'') (F (direct st''))" for r st' F
  proof (rule sim_bind1 [where k = "n + 25"])
    have "n + 1 + 24 < 1000000000" "n + 1 + 24 = n + 25" using assms(3) by linarith+
    then show "sim1 env w (n + 25) (route_experts env (int layer) r x st') (route_experts env (int layer) r x (direct st'))"
      using route_experts_sim [OF assms(1) st' _ r] by metis
  qed (rule F)
  have shared: "sim env w (n + 28) (Option.bind (shared_experts env lw (int layer) x so st') F)
      (Option.bind (shared_experts env lw (int layer) x so (direct st')) F)"
    if st': "piped env w (n + 25) st'"
      and F: "\<And>a st''. piped env w (n + 28) st'' \<Longrightarrow> sim env w (n + 28) (F (a, st'')) (F (a, direct st''))" for st' so F
  proof (rule sim_bind [where k = "n + 28"])
    have "n + 25 + 3 < 1000000000" "n + 25 + 3 = n + 28" using assms(3) by linarith+
    then show "sim env w (n + 28) (shared_experts env lw (int layer) x so st') (shared_experts env lw (int layer) x so (direct st'))"
      using shared_experts_sim [OF assms(1) st' _ layer] by metis
  qed (rule F)
  show ?thesis
  proof (cases "route env lw x (wi_config w) (fw_ws st)")
    case None
    then show ?thesis by (simp add: moeLayer_def Let_def idx)
  next
    case (Some p)
    obtain routed ws where p: "p = (routed, ws)" by fastforce
    show ?thesis
    proof (cases routed)
      case None
      then show ?thesis using Some p assms(2,3)
        by (auto simp: moeLayer_def Let_def idx intro!: sim_Some intro: piped_mono)
    next
      case (Some r)
      then have r: "tk_k r \<le> 8" using route_small \<open>route env lw x (wi_config w) (fw_ws st) = Some p\<close> p by blast
      show ?thesis using \<open>route env lw x (wi_config w) (fw_ws st) = Some p\<close>
        unfolding moeLayer_def Let_def direct_simps idx p Some
        by (auto intro!: rest [OF r] experts [OF _ r] shared sim_pure sim_Some simp del: fun_upd_apply dest: pipedD(1))
    qed
  qed
qed

subsection \<open>A token\<close>

lemma attention_block_sim:
  "piped env w n st \<Longrightarrow> sim env w n (attention_block env layer lw (sel, st)) (attention_block env layer lw (sel, direct st))"
  unfolding attention_block_def prod.case Let_def direct_simps
  by (auto intro!: sim_pure sim_Some)

lemma mlp_block_sim:
  assumes "pipeline_ok env w" "piped env w n st" "n + 28 < 1000000000"
    and "layer < nat (numLayers (wi_config w))" "rd (wi_layers w) layer = Some lw"
  shows "sim1 env w (n + 28) (mlp_block env layer lw st) (mlp_block env layer lw (direct st))"
proof -
  have idx: "fw_index st = w" using assms(2) by (rule pipedD)
  have moe: "sim env w (n + 28) (moeLayer env (int layer) lw hs z (st\<lparr>fw_ws := ws\<rparr>))
      (moeLayer env (int layer) lw hs z (direct (st\<lparr>fw_ws := ws\<rparr>)))" for hs z ws
    using moeLayer_sim [OF assms(1) _ assms(3-5), of "st\<lparr>fw_ws := ws\<rparr>" hs z] assms(2) by simp
  have dense: "sim env w (n + 28) (map_option (\<lambda>(out, ws). (out, st\<lparr>fw_ws := ws\<rparr>)) (denseMlp env (wi_config w) lw hs z ws))
      (map_option (\<lambda>(out, ws). (out, direct (st\<lparr>fw_ws := ws\<rparr>))) (denseMlp env (wi_config w) lw hs z ws))" for hs z ws
    using assms(2) piped_mono [of env w n "_" "n + 28"] by (cases "denseMlp env (wi_config w) lw hs z ws") (auto simp: sim_def)
  show ?thesis
    unfolding mlp_block_def Let_def direct_simps idx
    by (intro sim1_pure) (auto intro!: sim1_bind [OF moe] sim1_bind [OF dense] sim1_pure sim1_Some)
qed

lemma layer_step_sim:
  assumes "pipeline_ok env w" "piped env w n st" "n + 28 < 1000000000" "layer < nat (numLayers (wi_config w))"
  shows "sim env w (n + 28) (layer_step env layer (sel, st)) (layer_step env layer (sel, direct st))"
proof -
  have idx: "fw_index st = w" using assms(2) by (rule pipedD)
  show ?thesis
  proof (cases "rd (wi_layers w) layer")
    case None
    then show ?thesis by (simp add: layer_step_def idx)
  next
    case (Some lw)
    then show ?thesis
      unfolding layer_step_def prod.case direct_simps idx
      by (auto intro!: sim_bind [OF attention_block_sim [OF assms(2)]] sim_bind1 [OF mlp_block_sim [OF assms(1) _ assms(3,4)]] sim_Some)
  qed
qed

lemma layers_sim:
  "pipeline_ok env w \<Longrightarrow> piped env w n st \<Longrightarrow> n + 28 * length ls < 1000000000 \<Longrightarrow> \<forall>l \<in> set ls. l < nat (numLayers (wi_config w)) \<Longrightarrow>
   sim env w (n + 28 * length ls) (run_steps (layer_step env) ls (sel, st)) (run_steps (layer_step env) ls (sel, direct st))"
proof (induction ls arbitrary: n sel st)
  case (Cons l ls)
  have n: "n + 28 < 1000000000" "n + 28 + 28 * length ls = n + 28 * length (l # ls)" "n + 28 + 28 * length ls < 1000000000"
    using Cons.prems(3) by simp_all
  have "sim env w (n + 28) (layer_step env l (sel, st)) (layer_step env l (sel, direct st))"
    using layer_step_sim [OF Cons.prems(1,2) n(1), of l sel] Cons.prems(4) by simp
  then have "sim env w (n + 28 + 28 * length ls) (run_steps (layer_step env) (l # ls) (sel, st)) (run_steps (layer_step env) (l # ls) (sel, direct st))"
    unfolding run_steps.simps by (rule sim_bind) (use Cons.IH [OF Cons.prems(1)] n(3) Cons.prems(4) in simp)
  then show ?case by (simp only: n(2))
qed (simp add: sim_Some)

definition token_cost :: "weight_index \<Rightarrow> nat" where
  "token_cost w = 28 * nat (numLayers (wi_config w))"

lemma embed_sim: "piped env w n st \<Longrightarrow> sim1 env w n (embed env tok st) (embed env tok (direct st))"
  by (auto simp: embed_def Let_def sim1_def option.map_comp o_def)

lemma token_step_sim:
  assumes "pipeline_ok env w" "piped env w n st" "n + token_cost w < 1000000000"
  shows "sim1 env w (n + token_cost w) (token_step env tok st) (token_step env tok (direct st))"
  unfolding token_step_def
proof (rule sim1_bind1 [OF embed_sim [OF assms(2)]], unfold direct_simps)
  fix st1 assume st1: "piped env w n st1"
  then have idx: "fw_index st1 = w" by (rule pipedD)
  have "sim env w (n + token_cost w) (run_steps (layer_step env) [0..<nat (numLayers (wi_config w))] ([], st1))
      (run_steps (layer_step env) [0..<nat (numLayers (wi_config w))] ([], direct st1))"
    using layers_sim [OF assms(1) st1, of "[0..<nat (numLayers (wi_config w))]" "[]"] assms(3) by (simp add: token_cost_def)
  then show "sim1 env w (n + token_cost w)
      (Option.bind (run_steps (layer_step env) [0..<nat (numLayers (wi_config (fw_index st1)))] ([], st1))
        (\<lambda>(sel, st). Some (st\<lparr>fw_kvCache := kv_advance (fw_kvCache st), fw_seqLen := fw_seqLen st + 1\<rparr>)))
      (Option.bind (run_steps (layer_step env) [0..<nat (numLayers (wi_config (fw_index st1)))] ([], direct st1))
        (\<lambda>(sel, st). Some (st\<lparr>fw_kvCache := kv_advance (fw_kvCache st), fw_seqLen := fw_seqLen st + 1\<rparr>)))"
    unfolding idx by (rule sim1_bind) (auto intro!: sim1_Some)
qed

text \<open>The token, the logits, and the state.\<close>

definition fwd_result :: "(int \<times> f32 list option \<times> fwd) option \<Rightarrow> ((int \<times> f32 list option) \<times> fwd) option" where
  "fwd_result = map_option (\<lambda>(tok, logits, st). ((tok, logits), st))"

lemma fwd_result_simps [simp]:
  "fwd_result None = None" "fwd_result (Some (t, l, st)) = Some ((t, l), st)"
  "fwd_result (Option.bind m f) = Option.bind m (\<lambda>x. fwd_result (f x))"
  "fwd_result (if b then r1 else r2) = (if b then fwd_result r1 else fwd_result r2)"
  by (simp_all add: fwd_result_def, cases m, simp_all)

lemma lm_head_sim: "piped env w n st \<Longrightarrow> sim env w n (fwd_result (lmHeadAndSample env b st)) (fwd_result (lmHeadAndSample env b (direct st)))"
  unfolding lmHeadAndSample_def Let_def fwd_result_simps direct_simps by (auto intro!: sim_pure sim_Some)

lemma token_loop_sim:
  "pipeline_ok env w \<Longrightarrow> piped env w n st \<Longrightarrow> n + token_cost w * length toks < 1000000000 \<Longrightarrow>
   sim env w (n + token_cost w * length toks) (fwd_result (token_loop env b toks st)) (fwd_result (token_loop env b toks (direct st)))"
proof (induction toks arbitrary: n st)
  case (Cons tok toks)
  have n: "n + token_cost w < 1000000000" "n + token_cost w + token_cost w * length toks = n + token_cost w * length (tok # toks)"
    using Cons.prems(3) by (simp_all add: add.assoc [symmetric])
  have "sim env w (n + token_cost w + token_cost w * length toks) (fwd_result (token_loop env b (tok # toks) st))
      (fwd_result (token_loop env b (tok # toks) (direct st)))"
    unfolding token_loop.simps fwd_result_simps
  proof (rule sim_bind1 [OF token_step_sim [OF Cons.prems(1,2) n(1)]])
    fix st1 assume st1: "piped env w (n + token_cost w) st1"
    show "sim env w (n + token_cost w + token_cost w * length toks)
        (if toks = [] then fwd_result (lmHeadAndSample env b st1) else fwd_result (token_loop env b toks st1))
        (if toks = [] then fwd_result (lmHeadAndSample env b (direct st1)) else fwd_result (token_loop env b toks (direct st1)))"
      using lm_head_sim [OF st1, of b] Cons.IH [OF Cons.prems(1) st1] Cons.prems(3) n(2) by (simp add: add.assoc)
  qed
  then show ?case by (simp only: n(2))
qed (simp add: sim_Some)

lemma forward_sim_new:
  assumes "pipeline_ok env w" "piped env w n st" "n + token_cost w * (length ids - nat (fw_seqLen st)) < 1000000000"
  shows "sim env w (n + token_cost w * (length ids - nat (fw_seqLen st))) (fwd_result (forward env ids b st))
    (fwd_result (forward env ids b (direct st)))"
proof (cases "fw_initialized st")
  case False
  then show ?thesis using assms(2) by (auto simp: forward_def intro!: sim_Some intro: piped_mono)
next
  case True
  have loop: "sim env w (n + token_cost w * (length ids - nat (fw_seqLen st)))
      (fwd_result (token_loop env b (drop (nat (fw_seqLen st)) ids) st')) (fwd_result (token_loop env b (drop (nat (fw_seqLen st)) ids) (direct st')))"
    if "piped env w n st'" for st'
    using token_loop_sim [OF assms(1) that, of "drop (nat (fw_seqLen st)) ids"] assms(3) by simp
  show ?thesis using True assms(2)
    unfolding forward_def Let_def direct_simps by (auto intro!: sim_pure loop)
qed

lemma forward_sim:
  assumes "pipeline_ok env w" "piped env w n st" "n + token_cost w * length ids < 1000000000"
  shows "sim env w (n + token_cost w * length ids) (fwd_result (forward env ids b st)) (fwd_result (forward env ids b (direct st)))"
proof -
  have le: "n + token_cost w * (length ids - nat (fw_seqLen st)) \<le> n + token_cost w * length ids" by simp
  show ?thesis by (rule sim_mono [OF forward_sim_new [OF assms(1,2)] le]) (use assms(3) le in linarith)
qed

subsection \<open>Conversations\<close>

datatype fwd_op = FForward "int list" bool | FReset

text \<open>What the calls of \<open>forward\<close> answer.\<close>

fun fwd_run :: "fwd_env \<Rightarrow> fwd_op list \<Rightarrow> fwd \<Rightarrow> ((int \<times> f32 list option) list \<times> fwd) option" where
  "fwd_run env [] st = Some ([], st)"
| "fwd_run env (FReset # ops) st = fwd_run env ops (fwd_reset st)"
| "fwd_run env (FForward ids wantLogits # ops) st = do {
     (res, st) \<leftarrow> fwd_result (forward env ids wantLogits st);
     (more, st) \<leftarrow> fwd_run env ops st;
     Some (res # more, st)
   }"

fun op_tokens :: "fwd_op \<Rightarrow> nat" where
  "op_tokens (FForward ids b) = length ids"
| "op_tokens FReset = 0"

lemma fwd_run_sim:
  "pipeline_ok env w \<Longrightarrow> piped env w n st \<Longrightarrow> n + token_cost w * sum_list (map op_tokens ops) < 1000000000 \<Longrightarrow>
   sim env w (n + token_cost w * sum_list (map op_tokens ops)) (fwd_run env ops st) (fwd_run env ops (direct st))"
proof (induction ops arbitrary: n st)
  case Nil
  then show ?case by (simp add: sim_Some)
next
  case (Cons a ops)
  show ?case
  proof (cases a)
    case FReset
    have "piped env w n (fwd_reset st)" "fwd_reset (direct st) = direct (fwd_reset st)"
      using Cons.prems(2) by (simp_all add: fwd_reset_def)
    then show ?thesis using Cons.IH [OF Cons.prems(1), of n "fwd_reset st"] Cons.prems(3) FReset by simp
  next
    case (FForward ids b)
    let ?t = "token_cost w * length ids" and ?r = "token_cost w * sum_list (map op_tokens ops)"
    have n: "n + ?t + ?r = n + token_cost w * sum_list (map op_tokens (a # ops))" "n + ?t < 1000000000" "n + ?t + ?r < 1000000000"
      using Cons.prems(3) FForward by (simp_all add: algebra_simps)
    have "sim env w (n + ?t + ?r) (fwd_run env (FForward ids b # ops) st) (fwd_run env (FForward ids b # ops) (direct st))"
      unfolding fwd_run.simps
    proof (rule sim_bind [OF forward_sim [OF Cons.prems(1,2) n(2)]], unfold prod.case)
      fix res st1 assume st1: "piped env w (n + ?t) st1"
      show "sim env w (n + ?t + ?r) (Option.bind (fwd_run env ops st1) (\<lambda>(more, st). Some (res # more, st)))
          (Option.bind (fwd_run env ops (direct st1)) (\<lambda>(more, st). Some (res # more, st)))"
        by (rule sim_bind [OF Cons.IH [OF Cons.prems(1) st1 n(3)]]) (simp add: sim_Some)
    qed
    then show ?thesis by (simp only: FForward n(1) [unfolded FForward])
  qed
qed


subsection \<open>A small model\<close>

text \<open>
  One layer with one expert, one hidden unit, no attention heads: embedding and head at 0, the
  expert's projections at 4, 6 and 8, the shared ones at 10, 12 and 14.
\<close>

definition pt_loc :: "u64 \<Rightarrow> tensor_location" where
  "pt_loc off = TensorLocation\<lparr>shardPath := ''m'', byteOffset := off, byteSize := 2\<rparr>"

definition pt_layer :: layer_weights where
  "pt_layer = LayerWeights\<lparr>oProj := pt_loc 0, isMoe := True, mlpGate := pt_loc 0, sharedGateProj := pt_loc 10,
     sharedUpProj := pt_loc 12, sharedDownProj := pt_loc 14\<rparr>"

definition pt_expert :: expert_weights where
  "pt_expert = \<lparr>gateProj = pt_loc 4, upProj = pt_loc 6, downProj = pt_loc 8\<rparr>"

definition pt_config :: model_config where
  "pt_config = ModelConfig\<lparr>hiddenSize := 1, vocabSize := 2, numLayers := 1, numLocalExperts := 1, numExpertsPerTok := 1,
     moeIntermediateSize := 1, nSharedExperts := 1\<rparr>"

definition pt_index :: weight_index where
  "pt_index = WeightIndex\<lparr>wi_config := pt_config, wi_layers := [pt_layer], routedExperts := [[pt_expert]],
     lmHead := pt_loc 0, embedTokens := pt_loc 0\<rparr>"

definition pt_files :: files where
  "pt_files = [''m'' \<mapsto> [0x80, 0x3F, 0, 0x40, 0x80, 0x3F, 0, 0x40, 0, 0x3F, 0x80, 0x3F, 0x80, 0x3F, 0x80, 0x3F]]"

definition pt_env :: fwd_env where
  "pt_env = tiny_env\<lparr>fe_sched := sd_env\<lparr>se_files := pt_files, se_view := pt_files\<rparr>, fe_workers := (\<lambda>_. [0, 1, 0])\<rparr>"

lemma pt_loc_ok: "off \<le> 14 \<Longrightarrow> loc_ok pt_files (pt_loc off)"
  by (simp add: loc_ok_def pt_loc_def pt_files_def word_le_nat_alt)

lemma pt_zero_ok: "loc_ok pt_files TensorLocation"
  by (simp add: loc_ok_def TensorLocation_def)

lemma pt_key_locs:
  "key_locs pt_index layer eid = Some (Some locs) \<Longrightarrow> nat layer = 0 \<and>
     (locs = [sharedSlotLoc pt_layer eid] \<or> locs = [pt_loc 4, pt_loc 6, pt_loc 8])"
  by (auto simp: key_locs_def pt_index_def pt_config_def pt_expert_def rd_def bind_eq_Some_conv split: if_splits)

lemma pt_known: "key_locs pt_index 0 eid \<noteq> None"
proof (cases "kSharedGateProjSlot \<le> eid")
  case True
  then show ?thesis by (simp add: key_locs_def pt_index_def rd_def)
next
  case False
  have "unat eid = 0" if "\<not> 1 \<le> uint eid" using that uint_nat [of eid] by linarith
  then show ?thesis using False by (simp add: key_locs_def pt_index_def pt_config_def rd_def)
qed

lemma pt_pipeline: "pipeline_ok pt_env pt_index"
proof -
  have env: "se_files (fe_sched pt_env) = pt_files" "wi_config pt_index = pt_config" by (simp_all add: pt_env_def pt_index_def)
  have locs: "locs_ok pt_files locs" if "key_locs pt_index layer eid = Some (Some locs)" for layer eid locs
    using pt_key_locs [OF that] pt_loc_ok
    by (auto simp: locs_ok_def sharedSlotLoc_def pt_layer_def pt_loc_def)
  have sound: "index_sound pt_files pt_index"
    using locs by (simp add: index_sound_def env pt_config_def)
  have ready: "layer_ready pt_index layer" for layer
  proof (cases "layer = 0")
    case True
    then show ?thesis using pt_known by (simp add: layer_ready_def)
  next
    case False
    then show ?thesis by (auto simp: layer_ready_def env pt_config_def)
  qed
  have sizes: "sized 1 (expert_locs pt_expert)" "sized 1 [sharedGateProj pt_layer, sharedUpProj pt_layer, sharedDownProj pt_layer]"
    by (simp_all add: sized_def expert_locs_def pt_expert_def pt_layer_def pt_loc_def)
  have expert: "ew = pt_expert" if "expert_at pt_index layer e = Some ew" for layer e ew
    using that by (auto simp: expert_at_def pt_index_def rd_def bind_eq_Some_conv split: if_splits)
  have "env_ok (fe_sched pt_env)" "all_mapped (fe_sched pt_env)" "fe_past pt_env n \<noteq> None" for n
    by (simp_all add: pt_env_def env_ok_def all_mapped_def sd_env_def tiny_env_def stable.partial_sorter_axioms)
  moreover have "wi_layers pt_index = [pt_layer]" "moe_size pt_config = 1" "shared_size pt_config = 1" "hiddenSize pt_config = 1"
    by (simp_all add: pt_index_def moe_size_def shared_size_def pt_config_def)
  ultimately show ?thesis using sound ready sizes expert unfolding pipeline_ok_def env by fastforce
qed

definition pt_state :: fwd where
  "pt_state = (GLMForward pt_index)\<lparr>fw_initialized := True, fw_kvCache := kv_init 1 0 0 0 0 64 KVCache,
     fw_lastTopkByLayer := [[]], fw_finalNorm := [f32_one]\<rparr>"

lemma pt_init: "fwd_init pt_env (GLMForward pt_index) = Some (True, pt_state)"
  by (simp add: fwd_init_def dsa_present_def Let_def GLMForward_def pt_index_def pt_config_def WeightIndex_def TensorLocation_def
      pt_state_def ModelConfig_def)

definition pt_scheduler :: scheduler where
  "pt_scheduler = the (sched_init pt_index 100 0 0 Scheduler)"

definition pt_ops :: "fwd_op list" where
  "pt_ops = [FForward [0, 1] True, FReset, FForward [1] False]"


end
