(* ===== verification/FwdSafety.thy ===== *)
theory FwdSafety
  imports FwdPipeline
begin

text \<open>
  Memory safety and progress of the forward pass: on a model whose tensors have the sizes its
  configuration asks for, a call of \<open>forward\<close> returns, stays inside every buffer and advances the cache
  by the new tokens.
\<close>

subsection \<open>Computations that return\<close>

definition returns :: "('a \<Rightarrow> bool) \<Rightarrow> 'a option \<Rightarrow> bool" where
  "returns P m \<longleftrightarrow> (\<exists>x. m = Some x \<and> P x)"

named_theorems wp

lemma returns_Some [simp]: "returns P (Some x) \<longleftrightarrow> P x"
  by (simp add: returns_def)

lemma returns_bind [wp]: "returns (\<lambda>x. returns P (f x)) m \<Longrightarrow> returns P (Option.bind m f)"
  by (auto simp: returns_def)

lemma returns_pair [wp]: "returns P (f a b) \<Longrightarrow> returns P (case (a, b) of (x, y) \<Rightarrow> f x y)"
  by simp

lemma returns_mono: "returns Q m \<Longrightarrow> (\<And>x. Q x \<Longrightarrow> P x) \<Longrightarrow> returns P m"
  by (auto simp: returns_def)

lemma returns_map: "returns P (map_option f m) \<longleftrightarrow> returns (\<lambda>x. P (f x)) m"
  by (cases m) (simp_all add: returns_def)

lemma returns_steps:
  assumes "I s" "\<And>a s. a \<in> set as \<Longrightarrow> I s \<Longrightarrow> returns I (step a s)" "\<And>s. I s \<Longrightarrow> P s"
  shows "returns P (run_steps step as s)"
proof -
  have "returns I (run_steps step as s)"
    using assms(1,2)
  proof (induction as arbitrary: s)
    case (Cons a as)
    then have "returns I (step a s)" by simp
    then show ?case unfolding run_steps.simps by (intro wp, rule returns_mono) (use Cons in auto)
  qed simp
  then show ?thesis using assms(3) by (rule returns_mono)
qed

lemma returns_map_M:
  assumes "\<And>x. x \<in> set xs \<Longrightarrow> returns (\<lambda>_. True) (f x)" "\<And>ys. length ys = length xs \<Longrightarrow> P ys"
  shows "returns P (map_M f xs)"
proof -
  have "map_M f xs = Some (map (\<lambda>x. the (f x)) xs)" using assms(1) by (intro map_M_Some) (auto simp: returns_def)
  then show ?thesis using assms(2) by simp
qed

text \<open>The buffer operations.\<close>

lemma wp_ensure [wp]:
  "0 \<le> n \<Longrightarrow> (\<And>v'. nat n \<le> length v' \<Longrightarrow> (length v \<le> nat n \<Longrightarrow> length v' = nat n) \<Longrightarrow> P v') \<Longrightarrow> returns P (ensureFloat n v)"
  by (auto simp: ensureFloat_def)

lemma wp_imul: "0 \<le> a \<Longrightarrow> 0 \<le> b \<Longrightarrow> a * b < 2147483648 \<Longrightarrow> P (a * b) \<Longrightarrow> returns P (imul a b)"
proof -
  assume "0 \<le> a" "0 \<le> b" "a * b < 2147483648" "P (a * b)"
  moreover from this have "- 2147483648 \<le> a * b" using mult_nonneg_nonneg [of a b] by linarith
  ultimately show ?thesis by (simp add: imul_def)
qed

lemma wp_memcpy [wp]: "doff + n \<le> length dst \<Longrightarrow> soff + n \<le> length src \<Longrightarrow> (\<And>r. length r = length dst \<Longrightarrow> P r) \<Longrightarrow>
    returns P (memcpy dst doff src soff n)"
  by (simp add: memcpy_def)

lemma wp_copyVec [wp]: "nat n \<le> length dst \<Longrightarrow> nat n \<le> length src \<Longrightarrow> (\<And>r. length r = length dst \<Longrightarrow> P r) \<Longrightarrow>
    returns P (copyVec dst src n)"
  unfolding copyVec_def by (rule wp) simp_all

lemma wp_put [wp]: "length vals \<le> length buf \<Longrightarrow> (\<And>r. length r = length buf \<Longrightarrow> P r) \<Longrightarrow> returns P (put vals buf)"
  by (simp add: put_def)

lemma wp_zero_out [wp]: "nat n \<le> length buf \<Longrightarrow> (\<And>r. length r = length buf \<Longrightarrow> P r) \<Longrightarrow> returns P (zero_out buf n)"
  unfolding zero_out_def by (rule wp) simp_all

lemma wp_addVec [wp]: "n \<le> length dst \<Longrightarrow> n \<le> length src \<Longrightarrow> (\<And>r. length r = length dst \<Longrightarrow> P r) \<Longrightarrow> returns P (addVec dst src n)"
  by (simp add: addVec_def)

lemma wp_rd [wp]: "i < length xs \<Longrightarrow> P (xs ! i) \<Longrightarrow> returns P (rd xs i)"
  by (simp add: rd_def)

lemma wp_wr [wp]: "i < length xs \<Longrightarrow> P (xs[i := x]) \<Longrightarrow> returns P (wr xs i x)"
  by (simp add: wr_def)

lemma wp_add_scaled [wp]:
  "n \<le> length src \<Longrightarrow> off + n \<le> length dst \<Longrightarrow> (\<And>r. length r = length dst \<Longrightarrow> P r) \<Longrightarrow> returns P (add_scaled c src n off dst)"
  by (simp add: add_scaled_def)

lemma wp_dotF32 [wp]: "n \<le> length a \<Longrightarrow> n \<le> length b \<Longrightarrow> (\<And>r. P r) \<Longrightarrow> returns P (dotF32 msvc a b n)"
  by (simp add: dotF32_def)

lemma wp_dotBf16 [wp]: "n \<le> length a \<Longrightarrow> n \<le> length b \<Longrightarrow> (\<And>r. P r) \<Longrightarrow> returns P (dotBf16F32 msvc a b n)"
  by (simp add: dotBf16F32_def Let_def)

lemma length_gemv_rows: "M \<le> length y \<Longrightarrow> length (gemv_rows msvc A x y M K a b) = length y"
  by (simp add: gemv_rows_def)

lemma wp_gemv [wp]:
  "nat M * nat K \<le> length A \<Longrightarrow> nat K \<le> length x \<Longrightarrow> nat M \<le> length y \<Longrightarrow> (\<And>r. length r = length y \<Longrightarrow> P r) \<Longrightarrow>
   returns P (gemv env A x y M K)"
  by (simp add: gemv_def gemv_bf16_f32_def gemv_f32_def Let_def length_gemv_rows)

lemma wp_softmax [wp]: "xs \<noteq> [] \<Longrightarrow> (\<And>r. length r = length xs \<Longrightarrow> P r) \<Longrightarrow> returns P (softmax_f32 m xs)"
  by (cases xs) (simp_all add: softmax_f32_def Let_def)

text \<open>A weight vector that is absent or long enough.\<close>

definition norm_fits :: "fwd_env \<Rightarrow> tensor_location \<Rightarrow> int \<Rightarrow> bool" where
  "norm_fits env loc n \<longleftrightarrow> byteSize loc = 0 \<or> getWeightPtr env loc = None \<or> nat n \<le> length (weights_at env loc)"

definition fits :: "fwd_env \<Rightarrow> tensor_location \<Rightarrow> nat \<Rightarrow> bool" where
  "fits env loc n \<longleftrightarrow> n \<le> length (weights_at env loc)"

lemma wp_rmsNorm [wp]:
  "norm_fits env loc n \<Longrightarrow> nat n \<le> length x \<Longrightarrow> (\<And>r. length r = length x \<Longrightarrow> P r) \<Longrightarrow> returns P (rmsNorm env eps loc x n)"
  by (auto simp: rmsNorm_def norm_fits_def Let_def deref_def put_def min_def split: option.splits)

lemma wp_layerNorm [wp]:
  "norm_fits env wl n \<Longrightarrow> norm_fits env bl n \<Longrightarrow> nat n \<le> length x \<Longrightarrow> (\<And>r. length r = length x \<Longrightarrow> P r) \<Longrightarrow>
   returns P (layerNorm env wl bl x n)"
  by (cases "byteSize wl = 0"; cases "getWeightPtr env wl"; cases "byteSize bl = 0"; cases "getWeightPtr env bl")
    (simp_all add: layerNorm_def norm_fits_def Let_def deref_def put_def min_absorb1 min_absorb2)

lemma wp_rotate: "i < length x \<Longrightarrow> j < length x \<Longrightarrow> returns (\<lambda>r. length r = length x) (rope_rotate m theta pos e i j x)"
  unfolding rope_rotate_def Let_def by (intro wp) simp_all

lemma wp_rope [wp]:
  assumes "off + nat n \<le> length x" "ropeInterleave cfg \<longrightarrow> even n" "\<And>r. length r = length x \<Longrightarrow> P r"
  shows "returns P (applyRoPE env cfg off n pos x)"
proof -
  have inter: "returns (\<lambda>r. length r = length x) (applyRoPEInterleave m off n theta pos x)" if "even n" for m theta
    unfolding applyRoPEInterleave_def
  proof (rule returns_steps)
    fix i and y :: "f32 list" assume i: "i \<in> set (map (\<lambda>p. 2 * p) [0..<(nat n + 1) div 2])" and y: "length y = length x"
    obtain p where p: "i = 2 * p" "p < (nat n + 1) div 2" using i by auto
    have "even (nat n)" using that by (cases "0 \<le> n") (simp_all add: even_nat_iff)
    then have "2 * p + 1 < nat n" using p(2) by (auto elim: evenE)
    then have "off + i < length y" "off + i + 1 < length y" using p y assms(1) by simp_all
    then show "returns (\<lambda>r. length r = length x)
        (rope_rotate m theta pos (f32_div (f32_of_int (int i)) (f32_of_int n)) (off + i) (off + i + 1) y)"
      using wp_rotate [of "off + i" y "off + i + 1"] y by simp
  qed simp_all
  have split: "returns (\<lambda>r. length r = length x) (run_steps (\<lambda>i. rope_rotate m theta pos (e i) (off + i) (off + i + nat n div 2)) [0..<nat n div 2] x)"
    for m theta e
  proof (rule returns_steps)
    fix i and y :: "f32 list" assume "i \<in> set [0..<nat n div 2]" and y: "length y = length x"
    then have "off + i < length y" "off + i + nat n div 2 < length y" using assms(1) by simp_all
    then show "returns (\<lambda>r. length r = length x) (rope_rotate m theta pos (e i) (off + i) (off + i + nat n div 2) y)"
      using wp_rotate [of "off + i" y "off + i + nat n div 2"] y by simp
  qed simp_all
  have "returns (\<lambda>r. length r = length x) (applyRoPE env cfg off n pos x)"
    using inter split assms(2) by (simp add: applyRoPE_def Let_def)
  then show ?thesis using assms(3) by (rule returns_mono)
qed

subsection \<open>Models that fit\<close>

definition dims_ok :: "model_config \<Rightarrow> bool" where
  "dims_ok cfg \<longleftrightarrow> 0 \<le> hiddenSize cfg \<and> 0 \<le> numLayers cfg \<and> 0 \<le> vocabSize cfg \<and> 0 \<le> intermediateSize cfg \<and>
     0 \<le> numAttentionHeads cfg \<and> 0 \<le> qLoraRank cfg \<and> 0 \<le> kvLoraRank cfg \<and> 0 \<le> qkNopeHeadDim cfg \<and> 0 \<le> qkRopeHeadDim cfg \<and>
     0 \<le> vHeadDim cfg \<and> 0 \<le> indexHeadDim cfg \<and> 0 \<le> indexNHeads cfg \<and> 0 \<le> indexTopk cfg \<and> 0 \<le> numLocalExperts cfg \<and>
     0 \<le> nSharedExperts cfg \<and> 0 \<le> moeIntermediateSize cfg \<and> qkNopeHeadDim cfg + qkRopeHeadDim cfg \<le> qkHeadDim cfg \<and>
     numAttentionHeads cfg * qkHeadDim cfg < 2147483648 \<and> numAttentionHeads cfg * (qkNopeHeadDim cfg + vHeadDim cfg) < 2147483648 \<and>
     numAttentionHeads cfg * vHeadDim cfg < 2147483648 \<and> indexNHeads cfg * indexHeadDim cfg < 2147483648 \<and>
     nSharedExperts cfg * moeIntermediateSize cfg < 2147483648 \<and>
     (ropeInterleave cfg \<longrightarrow> even (qkRopeHeadDim cfg) \<and> even (min (qkRopeHeadDim cfg) (indexHeadDim cfg))) \<and> numExpertsPerTok cfg \<le> 8"

abbreviation cells :: "int \<Rightarrow> int \<Rightarrow> nat" where
  "cells a b \<equiv> nat a * nat b"

text \<open>The tensors of the attention block, of the indexer, of the two kinds of feed-forward block.\<close>

definition attn_fits :: "fwd_env \<Rightarrow> model_config \<Rightarrow> layer_weights \<Rightarrow> bool" where
  "attn_fits env cfg lw \<longleftrightarrow>
     fits env (qAProj lw) (cells (qLoraRank cfg) (hiddenSize cfg)) \<and> norm_fits env (qALayernorm lw) (qLoraRank cfg) \<and>
     fits env (qBProj lw) (nat (numAttentionHeads cfg * qkHeadDim cfg) * nat (qLoraRank cfg)) \<and>
     fits env (kvAProjWithMqa lw) (cells (kvLoraRank cfg + qkRopeHeadDim cfg) (hiddenSize cfg)) \<and>
     norm_fits env (kvALayernorm lw) (kvLoraRank cfg) \<and>
     fits env (kvBProj lw) (nat (numAttentionHeads cfg * (qkNopeHeadDim cfg + vHeadDim cfg)) * nat (kvLoraRank cfg)) \<and>
     fits env (oProj lw) (nat (hiddenSize cfg) * nat (numAttentionHeads cfg * vHeadDim cfg)) \<and>
     norm_fits env (inputLayernorm lw) (hiddenSize cfg) \<and> norm_fits env (postAttentionLayernorm lw) (hiddenSize cfg)"

definition index_fits :: "fwd_env \<Rightarrow> model_config \<Rightarrow> layer_weights \<Rightarrow> bool" where
  "index_fits env cfg lw \<longleftrightarrow>
     fits env (indexWqB lw) (nat (indexNHeads cfg * indexHeadDim cfg) * nat (qLoraRank cfg)) \<and>
     fits env (indexWk lw) (cells (indexHeadDim cfg) (hiddenSize cfg)) \<and>
     fits env (indexWeightsProj lw) (cells (indexNHeads cfg) (hiddenSize cfg)) \<and>
     norm_fits env (indexKNormW lw) (indexHeadDim cfg) \<and> norm_fits env (indexKNormB lw) (indexHeadDim cfg)"

definition ffn_fits :: "fwd_env \<Rightarrow> tensor_location \<Rightarrow> tensor_location \<Rightarrow> tensor_location \<Rightarrow> int \<Rightarrow> int \<Rightarrow> bool" where
  "ffn_fits env g u d interSize hidden \<longleftrightarrow>
     fits env g (cells interSize hidden) \<and> fits env u (cells interSize hidden) \<and> fits env d (cells hidden interSize)"

definition bias_fits :: "fwd_env \<Rightarrow> tensor_location \<Rightarrow> int \<Rightarrow> bool" where
  "bias_fits env loc n \<longleftrightarrow> byteSize loc = 0 \<or>
     (case se_view (fe_sched env) (shardPath loc) of None \<Rightarrow> True
      | Some v \<Rightarrow> nat n * (if tl_dtype loc = ''F32'' then 4 else 2) \<le> length (drop (unat (byteOffset loc)) v))"

definition moe_fits :: "fwd_env \<Rightarrow> weight_index \<Rightarrow> nat \<Rightarrow> layer_weights \<Rightarrow> bool" where
  "moe_fits env w layer lw \<longleftrightarrow> (let cfg = wi_config w in
     fits env (mlpGate lw) (cells (numLocalExperts cfg) (hiddenSize cfg)) \<and> bias_fits env (gateBias lw) (numLocalExperts cfg) \<and>
     (\<forall>e < nat (numLocalExperts cfg). \<exists>ew. expert_at w (int layer) (int e) = Some ew \<and>
        ffn_fits env (gateProj ew) (upProj ew) (downProj ew) (moeIntermediateSize cfg) (hiddenSize cfg)) \<and>
     (byteSize (sharedGateProj lw) = 0 \<or>
        ffn_fits env (sharedGateProj lw) (sharedUpProj lw) (sharedDownProj lw) (nSharedExperts cfg * moeIntermediateSize cfg) (hiddenSize cfg)))"

definition layer_fits :: "fwd_env \<Rightarrow> weight_index \<Rightarrow> bool \<Rightarrow> nat \<Rightarrow> bool" where
  "layer_fits env w dsa layer \<longleftrightarrow> (\<exists>lw. rd (wi_layers w) layer = Some lw \<and> attn_fits env (wi_config w) lw \<and>
     (dsa \<and> isIndexerFull (wi_config w) (int layer) \<longrightarrow> index_fits env (wi_config w) lw) \<and>
     (if isMoe lw then moe_fits env w layer lw
      else ffn_fits env (mlpGate lw) (mlpUp lw) (mlpDown lw) (intermediateSize (wi_config w)) (hiddenSize (wi_config w))))"

text \<open>
  The environment rearranges: a partial sort returns its range in another order, whatever the keys are
  (the standard promises it for keys without NaN), and OpenMP deals each token of the vocabulary to a thread.
\<close>

definition rearranges :: "fwd_env \<Rightarrow> bool" where
  "rearranges env \<longleftrightarrow> (\<forall>lt k xs. mset (fe_rank env lt k xs) = mset xs) \<and> (\<forall>lt k xs. mset (fe_sort env lt k xs) = mset xs) \<and>
     (\<forall>n. set (concat (fe_team env n)) = {..<n})"

definition model_fits :: "fwd_env \<Rightarrow> weight_index \<Rightarrow> bool" where
  "model_fits env w \<longleftrightarrow> dims_ok (wi_config w) \<and>
     (\<forall>layer < nat (numLayers (wi_config w)). layer_fits env w (the (dsa_present w)) layer) \<and>
     fits env (embedTokens w) (cells (vocabSize (wi_config w)) (hiddenSize (wi_config w))) \<and>
     fits env (lmHead w) (cells (vocabSize (wi_config w)) (hiddenSize (wi_config w))) \<and>
     norm_fits env (finalNorm w) (hiddenSize (wi_config w)) \<and> rearranges env"

subsection \<open>Queries and keys\<close>

text \<open>A pair of buffers of given lengths.\<close>

definition lens :: "nat \<Rightarrow> nat \<Rightarrow> f32 list \<times> f32 list \<Rightarrow> bool" where
  "lens m n = (\<lambda>(a, b). length a = m \<and> length b = n)"

text \<open>\<^const>\<open>nat\<close> under another name, which the arithmetic procedures take as an atom.\<close>

definition dimn :: "int \<Rightarrow> nat" where
  "dimn = nat"

lemmas to_dimn = dimn_def [symmetric]

lemmas wpd = wp [folded dimn_def]

lemma dimn_mult: "0 \<le> a \<Longrightarrow> dimn (a * b) = dimn a * dimn b"
  by (simp add: dimn_def nat_mult_distrib)

lemma dimn_int [simp]: "dimn (int n) = n"
  by (simp add: dimn_def)

lemma dimn_add: "0 \<le> a \<Longrightarrow> 0 \<le> b \<Longrightarrow> dimn (a + b) = dimn a + dimn b"
  by (simp add: dimn_def nat_add_distrib)

lemma head_dims: "dims_ok cfg \<Longrightarrow> dimn (qkNopeHeadDim cfg) + dimn (qkRopeHeadDim cfg) \<le> dimn (qkHeadDim cfg)"
  unfolding dims_ok_def dimn_def by linarith

lemma query_head_wp:
  assumes "dims_ok cfg" "h < H" "H * dimn (qkHeadDim cfg) \<le> length qB"
    and "H * dimn (qkNopeHeadDim cfg) \<le> m" "H * dimn (qkRopeHeadDim cfg) \<le> n" "lens m n s"
  shows "returns (lens m n) (query_head env cfg pos qB h s)"
proof -
  have e: "ropeInterleave cfg \<longrightarrow> even (qkRopeHeadDim cfg)" using assms(1) by (simp add: dims_ok_def)
  obtain a b where s: "s = (a, b)" "length a = m" "length b = n" using assms(6) by (cases s) (simp add: lens_def)
  note block_end [OF assms(2), of "dimn (qkHeadDim cfg)"] block_end [OF assms(2), of "dimn (qkNopeHeadDim cfg)"]
    block_end [OF assms(2), of "dimn (qkRopeHeadDim cfg)"]
  then show ?thesis using assms(3-5) s(2,3) head_dims [OF assms(1)] e unfolding query_head_def s(1) prod.case Let_def to_dimn
    by (intro wpd) (auto simp: lens_def)
qed

lemma mla_query_wp:
  assumes "dims_ok cfg" "attn_fits env cfg lw" "dimn (hiddenSize cfg) \<le> length x"
    and "\<And>qr qb qn qo. dimn (qLoraRank cfg) \<le> length qr \<Longrightarrow> dimn (numAttentionHeads cfg) * dimn (qkNopeHeadDim cfg) \<le> length qn \<Longrightarrow>
      dimn (numAttentionHeads cfg) * dimn (qkRopeHeadDim cfg) \<le> length qo \<Longrightarrow>
      P (ws\<lparr>ws_qResid := qr, ws_qB := qb, ws_qNope := qn, ws_qRope := qo\<rparr>)"
  shows "returns P (mla_query env cfg lw pos x ws)"
proof -
  let ?H = "dimn (numAttentionHeads cfg)"
  have heads: "returns Q (run_steps (query_head env cfg pos qB) [0..<?H] (qn, qo))"
    if "?H * dimn (qkHeadDim cfg) \<le> length qB" "?H * dimn (qkNopeHeadDim cfg) \<le> length qn" "?H * dimn (qkRopeHeadDim cfg) \<le> length qo"
      "\<And>a b. length a = length qn \<Longrightarrow> length b = length qo \<Longrightarrow> Q (a, b)" for qB qn qo Q
  proof (rule returns_steps [where I = "lens (length qn) (length qo)"])
    fix h s assume "h \<in> set [0..<?H]" "lens (length qn) (length qo) s"
    then show "returns (lens (length qn) (length qo)) (query_head env cfg pos qB h s)"
      using that(1-3) by (intro query_head_wp [OF assms(1), of h ?H]) simp_all
  qed (use that(4) in \<open>auto simp: lens_def\<close>)
  have d: "0 \<le> numAttentionHeads cfg" "0 \<le> qkHeadDim cfg" "0 \<le> qLoraRank cfg" "0 \<le> qkNopeHeadDim cfg" "0 \<le> qkRopeHeadDim cfg"
    "numAttentionHeads cfg * qkHeadDim cfg < 2147483648" using assms(1) by (simp_all add: dims_ok_def)
  note prods = dimn_mult [OF d(1), of "qkHeadDim cfg"] dimn_mult [OF d(1), of "qkNopeHeadDim cfg"] dimn_mult [OF d(1), of "qkRopeHeadDim cfg"]
  have f: "fits env (qAProj lw) (dimn (qLoraRank cfg) * dimn (hiddenSize cfg))" "norm_fits env (qALayernorm lw) (qLoraRank cfg)"
    "fits env (qBProj lw) (dimn (numAttentionHeads cfg * qkHeadDim cfg) * dimn (qLoraRank cfg))"
    using assms(2) by (simp_all add: attn_fits_def dimn_def)
  show ?thesis unfolding mla_query_def Let_def to_dimn
    by (intro wpd wp_imul heads) (use d f assms(3,4) prods in \<open>auto simp: fits_def\<close>)
qed

subsection \<open>The cache\<close>

definition kv_dim :: "model_config \<Rightarrow> kv_shape" where
  "kv_dim cfg = (dimn (numLayers cfg), dimn (numAttentionHeads cfg), dimn (qkHeadDim cfg), dimn (vHeadDim cfg), dimn (indexHeadDim cfg))"

text \<open>A cache of the model's dimensions with room for \<open>cap\<close> tokens.\<close>

definition kv_ready :: "model_config \<Rightarrow> int \<Rightarrow> kv_cache \<Rightarrow> bool" where
  "kv_ready cfg cap c \<longleftrightarrow> kv_ok (kv_dim cfg) c \<and> cap \<le> int (kv_maxSeqLen c)"

lemma growTo_room: "0 \<le> tok \<Longrightarrow> tok < int (kv_maxSeqLen c) \<Longrightarrow> kv_growTo (nat tok) c = Some c \<or> kv_growTo (nat tok) c = None"
  by (auto simp: kv_growTo_def Let_def)

lemma append_capacity:
  assumes "0 \<le> tok" "tok < int (kv_maxSeqLen c)"
  shows "kv_appendKey layer tok k c = Some c' \<Longrightarrow> kv_maxSeqLen c' = kv_maxSeqLen c"
    "kv_appendValue layer tok k c = Some c' \<Longrightarrow> kv_maxSeqLen c' = kv_maxSeqLen c"
    "kv_appendIndexKey layer tok k c = Some c' \<Longrightarrow> kv_maxSeqLen c' = kv_maxSeqLen c"
  using growTo_room [OF assms]
  by (auto simp: kv_appendKey_def kv_appendValue_def kv_appendIndexKey_def Let_def kv_upd_buffer_def split: if_splits)

lemma append_wp:
  assumes "kv_ready cfg cap c" "0 \<le> tok" "tok < cap" "tok < 2 ^ 29"
  shows "length k = dimn (numAttentionHeads cfg) * dimn (qkHeadDim cfg) \<Longrightarrow> (\<And>c'. kv_ready cfg cap c' \<Longrightarrow> P c') \<Longrightarrow>
      returns P (kv_appendKey layer tok k c)"
    "length k = dimn (numAttentionHeads cfg) * dimn (vHeadDim cfg) \<Longrightarrow> (\<And>c'. kv_ready cfg cap c' \<Longrightarrow> P c') \<Longrightarrow>
      returns P (kv_appendValue layer tok k c)"
    "length k = dimn (indexHeadDim cfg) \<Longrightarrow> (\<And>c'. kv_ready cfg cap c' \<Longrightarrow> P c') \<Longrightarrow>
      returns P (kv_appendIndexKey layer tok k c)"
proof -
  have ok: "kv_ok (kv_dim cfg) c" and cap: "cap \<le> int (kv_maxSeqLen c)" using assms(1) by (simp_all add: kv_ready_def)
  have m: "tok < int (kv_maxSeqLen c)" using cap assms(3) by simp
  note capacity = append_capacity [OF assms(2) m]
  show "returns P (kv_appendKey layer tok k c)"
    if "length k = dimn (numAttentionHeads cfg) * dimn (qkHeadDim cfg)" "\<And>c'. kv_ready cfg cap c' \<Longrightarrow> P c'"
  proof -
    have "kv_op_ok (kv_dim cfg) (KvAppendKey layer tok k)" using that(1) assms(4) by (simp add: kv_dim_def)
    from kv_step_ok [OF ok this] show ?thesis using that(2) cap capacity(1) by (auto simp: returns_def kv_ready_def)
  qed
  show "returns P (kv_appendValue layer tok k c)"
    if "length k = dimn (numAttentionHeads cfg) * dimn (vHeadDim cfg)" "\<And>c'. kv_ready cfg cap c' \<Longrightarrow> P c'"
  proof -
    have "kv_op_ok (kv_dim cfg) (KvAppendValue layer tok k)" using that(1) assms(4) by (simp add: kv_dim_def)
    from kv_step_ok [OF ok this] show ?thesis using that(2) cap capacity(2) by (auto simp: returns_def kv_ready_def)
  qed
  show "returns P (kv_appendIndexKey layer tok k c)"
    if "length k = dimn (indexHeadDim cfg)" "\<And>c'. kv_ready cfg cap c' \<Longrightarrow> P c'"
  proof -
    have "kv_op_ok (kv_dim cfg) (KvAppendIndexKey layer tok k)" using that(1) assms(4) by (simp add: kv_dim_def)
    from kv_step_ok [OF ok this] show ?thesis using that(2) cap capacity(3) by (auto simp: returns_def kv_ready_def)
  qed
qed

lemma two_level: "h < H \<Longrightarrow> t < m \<Longrightarrow> h * (m * n) + t * n + n \<le> H * (m * (n :: nat))"
  using block_end [of h H "m * n"] block_end [of t m n] by linarith

text \<open>The getters' pointers have a full block behind them.\<close>

lemma kv_views:
  assumes "kv_ready cfg cap c" "0 \<le> t" "t < cap" "0 \<le> layer" "layer < numLayers cfg" "h < dimn (numAttentionHeads cfg)"
  shows "dimn (qkHeadDim cfg) \<le> length (kv_view lb_key (kv_getKey layer (int h) t c) layer c)"
    "dimn (vHeadDim cfg) \<le> length (kv_view lb_value (kv_getValue layer (int h) t c) layer c)"
proof -
  have inv: "kv_inv c" and dims: "kv_numLayers c = dimn (numLayers cfg)" "kv_numHeads c = dimn (numAttentionHeads cfg)"
      "kv_qkTotal c = dimn (qkHeadDim cfg)" "kv_vDim c = dimn (vHeadDim cfg)" and t: "nat t < kv_maxSeqLen c" "t < int (kv_maxSeqLen c)"
    using assms(1-3) by (auto simp: kv_ready_def kv_ok_def kv_dims_def kv_dim_def)
  have l: "layer < int (kv_numLayers c)" using dims(1) assms(4,5) by (simp add: dimn_def)
  note i = kv_invD [OF inv]
  have b: "buffer_ok c (kv_buffers c ! nat layer)" using l assms(4) by (intro i(6)) simp
  show "dimn (qkHeadDim cfg) \<le> length (kv_view lb_key (kv_getKey layer (int h) t c) layer c)"
    using l assms(2,4,6) t b dims i(2) two_level [of h "kv_numHeads c" "nat t" "kv_maxSeqLen c" "kv_qkTotal c"]
    by (auto simp: kv_view_def kv_getKey_def buffer_ok_def)
  show "dimn (vHeadDim cfg) \<le> length (kv_view lb_value (kv_getValue layer (int h) t c) layer c)"
    using l assms(2,4,6) t b dims two_level [of h "kv_numHeads c" "nat t" "kv_maxSeqLen c" "kv_vDim c"]
    by (auto simp: kv_view_def kv_getValue_def buffer_ok_def mult.assoc)
qed

lemma kv_index_view:
  assumes "kv_ready cfg cap c" "0 \<le> t" "t < cap" "0 \<le> layer" "layer < numLayers cfg"
  shows "dimn (indexHeadDim cfg) \<le> length (kv_view lb_index (kv_getIndexKey layer t c) layer c)"
proof -
  have inv: "kv_inv c" and dims: "kv_numLayers c = dimn (numLayers cfg)" "kv_indexDim c = dimn (indexHeadDim cfg)"
      and t: "nat t < kv_maxSeqLen c" "t < int (kv_maxSeqLen c)"
    using assms(1-3) by (auto simp: kv_ready_def kv_ok_def kv_dims_def kv_dim_def)
  have l: "layer < int (kv_numLayers c)" using dims(1) assms(4,5) by (simp add: dimn_def)
  note i = kv_invD [OF inv]
  have b: "buffer_ok c (kv_buffers c ! nat layer)" using l assms(4) by (intro i(6)) simp
  show ?thesis
    using l assms(2,4) t b dims i(3) block_end [of "nat t" "kv_maxSeqLen c" "kv_indexDim c"]
    by (auto simp: kv_view_def kv_getIndexKey_def buffer_ok_def)
qed

subsection \<open>The attention layer\<close>

text \<open>
  The three buffers handed to the cache are never longer than one of its blocks; those of \<open>forward\<close>
  hold a hidden vector. The second predicate is what the queries leave behind.
\<close>

definition ws_fwd :: "model_config \<Rightarrow> workspace \<Rightarrow> bool" where
  "ws_fwd cfg ws \<longleftrightarrow> length (ws_kNew ws) \<le> dimn (numAttentionHeads cfg) * dimn (qkHeadDim cfg) \<and>
     length (ws_vNew ws) \<le> dimn (numAttentionHeads cfg) * dimn (vHeadDim cfg) \<and> length (ws_iK ws) \<le> dimn (indexHeadDim cfg) \<and>
     dimn (hiddenSize cfg) \<le> length (ws_hiddenStates ws) \<and> dimn (hiddenSize cfg) \<le> length (ws_residual ws) \<and>
     dimn (hiddenSize cfg) \<le> length (ws_attnOutL ws) \<and> dimn (hiddenSize cfg) \<le> length (ws_mlpOut ws)"

definition ws_query :: "model_config \<Rightarrow> workspace \<Rightarrow> bool" where
  "ws_query cfg ws \<longleftrightarrow> ws_fwd cfg ws \<and> dimn (qLoraRank cfg) \<le> length (ws_qResid ws) \<and>
     dimn (numAttentionHeads cfg) * dimn (qkNopeHeadDim cfg) \<le> length (ws_qNope ws) \<and>
     dimn (numAttentionHeads cfg) * dimn (qkRopeHeadDim cfg) \<le> length (ws_qRope ws)"

lemma mla_query_ready:
  assumes "dims_ok cfg" "attn_fits env cfg lw" "dimn (hiddenSize cfg) \<le> length x" "ws_fwd cfg ws"
  shows "returns (ws_query cfg) (mla_query env cfg lw pos x ws)"
  by (rule mla_query_wp [OF assms(1-3)]) (use assms(4) in \<open>simp add: ws_query_def ws_fwd_def\<close>)

lemma kv_head_wp:
  assumes "dims_ok cfg" "h < H" "H * (dimn (qkNopeHeadDim cfg) + dimn (vHeadDim cfg)) \<le> length ex" "dimn (qkRopeHeadDim cfg) \<le> length kr"
    and "H * dimn (qkHeadDim cfg) \<le> m" "H * dimn (vHeadDim cfg) \<le> n" "lens m n s"
  shows "returns (lens m n) (kv_head cfg ex kr h s)"
proof -
  obtain a b where s: "s = (a, b)" "length a = m" "length b = n" using assms(7) by (cases s) (simp add: lens_def)
  have "0 \<le> qkNopeHeadDim cfg" "0 \<le> vHeadDim cfg" using assms(1) by (simp_all add: dims_ok_def)
  note dimn_add [OF this] block_end [OF assms(2), of "dimn (qkHeadDim cfg)"] block_end [OF assms(2), of "dimn (vHeadDim cfg)"]
    block_end [OF assms(2), of "dimn (qkNopeHeadDim cfg) + dimn (vHeadDim cfg)"]
  then show ?thesis using assms(3-6) s(2,3) head_dims [OF assms(1)] unfolding kv_head_def s(1) prod.case Let_def to_dimn
    by (intro wpd) (auto simp: lens_def)
qed

lemma mla_keys_ready:
  assumes "dims_ok cfg" "attn_fits env cfg lw" "dimn (hiddenSize cfg) \<le> length x" "ws_query cfg ws"
    and "kv_ready cfg cap kv" "0 \<le> pos" "pos < cap" "pos < 2 ^ 29"
  shows "returns (\<lambda>(ws, kv). ws_query cfg ws \<and> kv_ready cfg cap kv) (mla_keys env cfg lw pos layer x (ws, kv))"
proof -
  let ?H = "dimn (numAttentionHeads cfg)"
  have heads: "returns Q (run_steps (kv_head cfg ex kr) [0..<?H] (kn, vn))"
    if "?H * (dimn (qkNopeHeadDim cfg) + dimn (vHeadDim cfg)) \<le> length ex" "dimn (qkRopeHeadDim cfg) \<le> length kr"
      "?H * dimn (qkHeadDim cfg) \<le> length kn" "?H * dimn (vHeadDim cfg) \<le> length vn"
      "\<And>a b. length a = length kn \<Longrightarrow> length b = length vn \<Longrightarrow> Q (a, b)" for ex kr kn vn Q
  proof (rule returns_steps [where I = "lens (length kn) (length vn)"])
    fix h s assume "h \<in> set [0..<?H]" "lens (length kn) (length vn) s"
    then show "returns (lens (length kn) (length vn)) (kv_head cfg ex kr h s)"
      using that(1-4) by (intro kv_head_wp [OF assms(1), of h ?H]) simp_all
  qed (use that(5) in \<open>auto simp: lens_def\<close>)
  have d: "0 \<le> numAttentionHeads cfg" "0 \<le> qkHeadDim cfg" "0 \<le> kvLoraRank cfg" "0 \<le> qkNopeHeadDim cfg" "0 \<le> qkRopeHeadDim cfg" "0 \<le> vHeadDim cfg"
    "numAttentionHeads cfg * (qkNopeHeadDim cfg + vHeadDim cfg) < 2147483648" "ropeInterleave cfg \<longrightarrow> even (qkRopeHeadDim cfg)"
    using assms(1) by (simp_all add: dims_ok_def)
  note prods = dimn_mult [OF d(1), of "qkHeadDim cfg"] dimn_mult [OF d(1), of "vHeadDim cfg"] dimn_mult [OF d(1), of "qkNopeHeadDim cfg + vHeadDim cfg"]
    dimn_add [OF d(4) d(6)] dimn_add [OF d(3) d(5)]
  have f: "fits env (kvAProjWithMqa lw) (dimn (kvLoraRank cfg + qkRopeHeadDim cfg) * dimn (hiddenSize cfg))" "norm_fits env (kvALayernorm lw) (kvLoraRank cfg)"
    "fits env (kvBProj lw) (dimn (numAttentionHeads cfg * (qkNopeHeadDim cfg + vHeadDim cfg)) * dimn (kvLoraRank cfg))"
    using assms(2) by (simp_all add: attn_fits_def dimn_def)
  have w: "length (ws_kNew ws) \<le> ?H * dimn (qkHeadDim cfg)" "length (ws_vNew ws) \<le> ?H * dimn (vHeadDim cfg)"
    using assms(4) by (simp_all add: ws_query_def ws_fwd_def)
  note appends = append_wp(1,2) [where cfg = cfg, OF _ assms(6-8)]
  show ?thesis unfolding mla_keys_def prod.case Let_def to_dimn
    by (intro wpd wp_imul heads appends) (use d f w assms(3-5) prods in \<open>simp_all add: fits_def ws_query_def ws_fwd_def\<close>)
qed

text \<open>The workspace after the indexer's inputs.\<close>

definition ws_indexed :: "model_config \<Rightarrow> workspace \<Rightarrow> bool" where
  "ws_indexed cfg ws \<longleftrightarrow> ws_query cfg ws \<and> dimn (indexNHeads cfg) * dimn (indexHeadDim cfg) \<le> length (ws_iq ws) \<and>
     dimn (indexNHeads cfg) \<le> length (ws_wVec ws)"

lemma indexer_inputs_ready:
  assumes "dims_ok cfg" "index_fits env cfg lw" "dimn (hiddenSize cfg) \<le> length x" "ws_query cfg ws"
    and "kv_ready cfg cap kv" "0 \<le> pos" "pos < cap" "pos < 2 ^ 29"
  shows "returns (\<lambda>(ws, kv). ws_indexed cfg ws \<and> kv_ready cfg cap kv) (indexer_inputs env cfg lw pos layer x (ws, kv))"
proof -
  let ?H = "dimn (indexNHeads cfg)" and ?D = "dimn (indexHeadDim cfg)" and ?R = "min (qkRopeHeadDim cfg) (indexHeadDim cfg)"
  have d: "0 \<le> indexNHeads cfg" "0 \<le> indexHeadDim cfg" "0 \<le> qLoraRank cfg" "indexNHeads cfg * indexHeadDim cfg < 2147483648"
    "ropeInterleave cfg \<longrightarrow> even ?R" using assms(1) by (simp_all add: dims_ok_def)
  have R: "dimn ?R \<le> ?D" by (simp add: dimn_def)
  note prods = dimn_mult [OF d(1), of "indexHeadDim cfg"]
  have heads: "returns Q (run_steps (\<lambda>h. applyRoPE env cfg (h * ?D) ?R pos) [0..<?H] iq)"
    if "?H * ?D \<le> length iq" "\<And>r. length r = length iq \<Longrightarrow> Q r" for iq Q
  proof (rule returns_steps [where I = "\<lambda>r. length r = length iq"])
    fix h and r :: "f32 list" assume "h \<in> set [0..<?H]" and r: "length r = length iq"
    then have "h * ?D + ?D \<le> length r" using block_end [of h ?H ?D] that(1) by simp
    then have "h * ?D + nat ?R \<le> length r" using R unfolding dimn_def by linarith
    then show "returns (\<lambda>r. length r = length iq) (applyRoPE env cfg (h * ?D) ?R pos r)"
      using d(5) r by (intro wp_rope) simp_all
  qed (use that(2) in simp_all)
  have f: "fits env (indexWqB lw) (dimn (indexNHeads cfg * indexHeadDim cfg) * dimn (qLoraRank cfg))"
    "fits env (indexWk lw) (?D * dimn (hiddenSize cfg))" "fits env (indexWeightsProj lw) (?H * dimn (hiddenSize cfg))"
    "norm_fits env (indexKNormW lw) (indexHeadDim cfg)" "norm_fits env (indexKNormB lw) (indexHeadDim cfg)"
    using assms(2) by (simp_all add: index_fits_def dimn_def)
  have w: "length (ws_iK ws) \<le> ?D" "dimn (qLoraRank cfg) \<le> length (ws_qResid ws)" using assms(4) by (simp_all add: ws_query_def ws_fwd_def)
  note appends = append_wp(3) [where cfg = cfg, OF _ assms(6-8)]
  show ?thesis unfolding indexer_inputs_def prod.case Let_def to_dimn
    by (intro wpd wp_imul heads appends)
      (use d f w R assms(3-5) prods in \<open>simp_all add: fits_def ws_indexed_def ws_query_def ws_fwd_def map_prefix_def\<close>)
qed

lemma dsa_select_returns:
  assumes "dims_ok cfg" "ws_indexed cfg ws" "kv_ready cfg cap kv" "0 \<le> pos" "pos < cap" "0 \<le> layer" "layer < numLayers cfg"
  shows "returns (\<lambda>_. True) (dsa_select env cfg pos layer ws kv)"
proof -
  let ?H = "dimn (indexNHeads cfg)" and ?D = "dimn (indexHeadDim cfg)"
  have score: "returns (\<lambda>_. True) (dsa_score env (ws_iq ws) (ws_wVec ws) ?H ?D kt)" if "?D \<le> length kt" for kt
    unfolding dsa_score_def
  proof (rule returns_steps [where I = "\<lambda>_. True"])
    fix h and s :: f32 assume "h \<in> set [0..<?H]"
    then have "h < length (ws_wVec ws)" "h * ?D + ?D \<le> length (ws_iq ws)"
      using assms(2) block_end [of h ?H ?D] by (simp_all add: ws_indexed_def)
    then show "returns (\<lambda>_. True) (do {
         dot \<leftarrow> dotF32 (fe_msvc env) (drop (h * ?D) (ws_iq ws)) kt ?D;
         let score = f32_mul dot (f32_div f32_one (lm_sqrt (fe_libm env) (f32_of_int (int ?D))));
         w \<leftarrow> rd (ws_wVec ws) h;
         Some (f32_add s (f32_mul w (if f32_lt score f32_zero then f32_zero else score)))
       })" using that unfolding Let_def by (intro wp) simp_all
  qed simp_all
  have topk: "0 \<le> indexTopk cfg" using assms(1) by (simp add: dims_ok_def)
  have "returns (\<lambda>scores. True) (map_M (\<lambda>t. dsa_score env (ws_iq ws) (ws_wVec ws) ?H ?D
      (kv_view lb_index (kv_getIndexKey layer t kv) layer kv)) (map int [0..<nat (pos + 1)]))"
    using assms(3-7) by (intro returns_map_M score kv_index_view) auto
  then show ?thesis using topk assms(4) unfolding dsa_select_def Let_def by (auto simp: returns_def dimn_def)
qed

lemma dsaIndexer_ready:
  assumes "dims_ok cfg" "index_fits env cfg lw" "dimn (hiddenSize cfg) \<le> length x" "ws_query cfg ws"
    and "kv_ready cfg cap kv" "0 \<le> pos" "pos < cap" "pos < 2 ^ 29" "0 \<le> layer" "layer < numLayers cfg"
  shows "returns (\<lambda>(sel, ws, kv). ws_query cfg ws \<and> kv_ready cfg cap kv) (dsaIndexer env cfg lw pos layer x (ws, kv))"
  unfolding dsaIndexer_def
proof (intro wp, rule returns_mono [OF indexer_inputs_ready [OF assms(1-8)]], clarify, intro wp)
  fix ws' kv' assume w: "ws_indexed cfg ws'" and k: "kv_ready cfg cap kv'"
  show "returns (\<lambda>sel. returns (\<lambda>(sel, ws, kv). ws_query cfg ws \<and> kv_ready cfg cap kv) (Some (sel, ws', kv')))
      (dsa_select env cfg pos layer ws' kv')"
    by (rule returns_mono [OF dsa_select_returns [OF assms(1) w k assms(6,7,9,10)]]) (use w k in \<open>simp add: ws_indexed_def\<close>)
qed

text \<open>One head: the rest of the workspace stays, the output keeps its length.\<close>

definition ws_attn :: "model_config \<Rightarrow> nat \<Rightarrow> workspace \<Rightarrow> bool" where
  "ws_attn cfg n ws \<longleftrightarrow> ws_query cfg ws \<and> length (ws_attnOut ws) = n"

lemma attn_head_ready:
  assumes "dims_ok cfg" "kv_ready cfg cap kv" "0 \<le> pos" "pos < cap" "0 \<le> layer" "layer < numLayers cfg"
    and "h < dimn (numAttentionHeads cfg)" "sel \<noteq> []" "ws_attn cfg n ws" "dimn (numAttentionHeads cfg) * dimn (vHeadDim cfg) \<le> n"
  shows "returns (ws_attn cfg n) (attn_head env cfg layer pos kv sel h ws)"
proof -
  let ?Q = "dimn (qkHeadDim cfg)" and ?V = "dimn (vHeadDim cfg)"
  have view: "?Q \<le> length (kv_view lb_key (kv_getKey layer (int h) t kv) layer kv)"
      "?V \<le> length (kv_view lb_value (kv_getValue layer (int h) t kv) layer kv)" if "\<not> (t < 0 \<or> pos + 1 \<le> t)" for t
    by (rule kv_views [OF assms(2)]; use that assms(4-7) in simp)+
  have score: "returns P (map_M (attn_score env cfg layer pos kv qCur h) sel)"
    if "?Q \<le> length qCur" "\<And>vals. length vals = length sel \<Longrightarrow> vals \<noteq> [] \<Longrightarrow> P vals" for qCur P
  proof (rule returns_mono)
    show "returns (\<lambda>vals. length vals = length sel) (map_M (attn_score env cfg layer pos kv qCur h) sel)"
    proof (rule returns_map_M)
      fix t
      show "returns (\<lambda>_. True) (attn_score env cfg layer pos kv qCur h t)"
        using view(1) [of t] that(1)
        by (cases "t < 0 \<or> pos + 1 \<le> t") (simp_all add: attn_score_def returns_map wp_dotF32 to_dimn)
    qed
    fix vals :: "f32 list" assume "length vals = length sel"
    then show "P vals" using assms(8) by (intro that(2)) auto
  qed
  have merge: "returns P (run_steps (\<lambda>(t, weight) out. if t < 0 \<or> pos + 1 \<le> t then Some out
      else add_scaled weight (kv_view lb_value (kv_getValue layer (int h) t kv) layer kv) ?V (h * ?V) out) tws out)"
    if "length out = n" "\<And>r. length r = n \<Longrightarrow> P r" for tws out P
  proof (rule returns_steps [where I = "\<lambda>r. length r = n"])
    fix tw and r :: "f32 list" assume r: "length r = n"
    have "h * ?V + ?V \<le> n" using block_end [OF assms(7), of ?V] assms(10) by simp
    then show "returns (\<lambda>r. length r = n) ((\<lambda>(t, weight) out. if t < 0 \<or> pos + 1 \<le> t then Some out
        else add_scaled weight (kv_view lb_value (kv_getValue layer (int h) t kv) layer kv) ?V (h * ?V) out) tw r)"
      using view(2) [of "fst tw"] r by (cases tw) (auto intro!: wp_add_scaled)
  qed (use that in simp_all)
  have q: "0 \<le> qkHeadDim cfg" using assms(1) by (simp add: dims_ok_def)
  have w: "dimn (numAttentionHeads cfg) * dimn (qkNopeHeadDim cfg) \<le> length (ws_qNope ws)"
    "dimn (numAttentionHeads cfg) * dimn (qkRopeHeadDim cfg) \<le> length (ws_qRope ws)" "length (ws_attnOut ws) = n" "ws_query cfg ws"
    using assms(9) by (simp_all add: ws_attn_def ws_query_def)
  have b: "h * dimn (qkNopeHeadDim cfg) + dimn (qkNopeHeadDim cfg) \<le> length (ws_qNope ws)"
    "h * dimn (qkRopeHeadDim cfg) + dimn (qkRopeHeadDim cfg) \<le> length (ws_qRope ws)"
    using block_end [OF assms(7), of "dimn (qkNopeHeadDim cfg)"] block_end [OF assms(7), of "dimn (qkRopeHeadDim cfg)"] w(1,2) by linarith+
  have frame: "ws_attn cfg n (ws\<lparr>ws_qCur := a, ws_scores := s, ws_attnOut := out\<rparr>)" if "length out = n" for a s out
    using w(4) that by (simp add: ws_attn_def ws_query_def ws_fwd_def)
  show ?thesis unfolding attn_head_def Let_def to_dimn
    by (intro wpd score merge) (use q b w(3) assms(8) head_dims [OF assms(1)] in \<open>simp_all add: frame\<close>)
qed

lemma ws_attn_query: "ws_attn cfg n ws \<Longrightarrow> ws_query cfg ws"
  by (simp add: ws_attn_def)

lemma attentionLayer_ready:
  assumes "dims_ok cfg" "attn_fits env cfg lw" "dsa \<and> isIndexerFull cfg layer \<Longrightarrow> index_fits env cfg lw"
    and "dimn (hiddenSize cfg) \<le> length x" "ws_fwd cfg ws" "kv_ready cfg cap kv" "0 \<le> pos" "pos < cap" "pos < 2 ^ 29"
    and "0 \<le> layer" "layer < numLayers cfg" "dimn (hiddenSize cfg) \<le> length out"
  shows "returns (\<lambda>(out, sel, ws, kv). dimn (hiddenSize cfg) \<le> length out \<and> ws_fwd cfg ws \<and> kv_ready cfg cap kv)
    (attentionLayer env cfg lw dsa pos layer x out sel (ws, kv))"
proof -
  let ?H = "dimn (numAttentionHeads cfg)" and ?V = "dimn (vHeadDim cfg)"
  have query: "returns P (mla_query env cfg lw pos x ws)" if "\<And>ws. ws_query cfg ws \<Longrightarrow> P ws" for P
    using mla_query_ready [OF assms(1,2,4,5)] that by (rule returns_mono)
  have keys: "returns P (mla_keys env cfg lw pos layer x (ws, kv))"
    if "ws_query cfg ws" "\<And>ws kv. ws_query cfg ws \<Longrightarrow> kv_ready cfg cap kv \<Longrightarrow> P (ws, kv)" for P ws
    using mla_keys_ready [OF assms(1,2,4) that(1) assms(6-9)] by (rule returns_mono) (use that(2) in auto)
  have index: "returns P (if dsa \<and> isIndexerFull cfg layer then dsaIndexer env cfg lw pos layer x (ws, kv) else Some (sel, ws, kv))"
    if "ws_query cfg ws" "kv_ready cfg cap kv" "\<And>sel ws kv. ws_query cfg ws \<Longrightarrow> kv_ready cfg cap kv \<Longrightarrow> P (sel, ws, kv)" for P ws kv
    using returns_mono [OF dsaIndexer_ready [OF assms(1) assms(3) assms(4) that(1,2) assms(7-11)], of P] that by auto
  have heads: "returns P (run_steps (attn_head env cfg layer pos kv sel) [0..<?H] ws)"
    if "kv_ready cfg cap kv" "sel \<noteq> []" "ws_attn cfg n ws" "?H * ?V \<le> n" "\<And>ws. ws_attn cfg n ws \<Longrightarrow> P ws" for P ws kv sel n
  proof (rule returns_steps [where I = "ws_attn cfg n"])
    fix h s assume "h \<in> set [0..<?H]" "ws_attn cfg n s"
    then show "returns (ws_attn cfg n) (attn_head env cfg layer pos kv sel h s)"
      using that(1,2,4) assms(7,8,10,11) by (intro attn_head_ready [OF assms(1)]) simp_all
  qed (use that(3,5) in simp_all)
  have d: "0 \<le> numAttentionHeads cfg" "0 \<le> vHeadDim cfg" "numAttentionHeads cfg * vHeadDim cfg < 2147483648"
    "0 \<le> numAttentionHeads cfg * vHeadDim cfg" using assms(1) by (simp_all add: dims_ok_def)
  have o: "dimn (hiddenSize cfg) * (?H * ?V) \<le> length (weights_at env (oProj lw))"
    using assms(2) d(1,2) by (simp add: attn_fits_def fits_def dimn_def nat_mult_distrib)
  have start: "ws_attn cfg (length v) (ws\<lparr>ws_attnOut := zeros v\<rparr>)" if "ws_query cfg ws" for v ws
    using that by (simp add: ws_attn_def ws_query_def ws_fwd_def zeros_def)
  have rest: "returns P (do {
       attnOut \<leftarrow> ensureFloat (numAttentionHeads cfg * vHeadDim cfg) (ws_attnOut ws);
       ws \<leftarrow> run_steps (attn_head env cfg layer pos kv sel) [0..<?H] (ws\<lparr>ws_attnOut := zeros attnOut\<rparr>);
       vOut \<leftarrow> imul (numAttentionHeads cfg) (vHeadDim cfg);
       output \<leftarrow> gemv env (weights_at env (oProj lw)) (ws_attnOut ws) out (hiddenSize cfg) vOut;
       Some (output, sel, ws, kv)})"
    if ws: "ws_query cfg ws" and kv: "kv_ready cfg cap kv" and sel: "sel \<noteq> []"
      and P: "\<And>out ws. dimn (hiddenSize cfg) \<le> length out \<Longrightarrow> ws_fwd cfg ws \<Longrightarrow> P (out, sel, ws, kv)" for P ws kv sel
  proof (intro wp)
    fix v :: "f32 list" assume v: "nat (numAttentionHeads cfg * vHeadDim cfg) \<le> length v"
    have n: "?H * ?V \<le> length v" using v d(1) by (simp add: dimn_def nat_mult_distrib)
    show "returns (\<lambda>ws. returns P (do {
         vOut \<leftarrow> imul (numAttentionHeads cfg) (vHeadDim cfg);
         output \<leftarrow> gemv env (weights_at env (oProj lw)) (ws_attnOut ws) out (hiddenSize cfg) vOut;
         Some (output, sel, ws, kv)})) (run_steps (attn_head env cfg layer pos kv sel) [0..<?H] (ws\<lparr>ws_attnOut := zeros v\<rparr>))"
    proof (rule heads [OF kv sel start [OF ws] n])
      fix ws' assume w': "ws_attn cfg (length v) ws'"
      then have "length (ws_attnOut ws') = length v" "ws_fwd cfg ws'" by (simp_all add: ws_attn_def ws_query_def)
      then show "returns P (do {
           vOut \<leftarrow> imul (numAttentionHeads cfg) (vHeadDim cfg);
           output \<leftarrow> gemv env (weights_at env (oProj lw)) (ws_attnOut ws') out (hiddenSize cfg) vOut;
           Some (output, sel, ws', kv)})"
        using d n o assms(12) dimn_mult [OF d(1), of "vHeadDim cfg"] by (intro wpd wp_imul) (simp_all add: P)
    qed
  qed (use d in simp_all)
  show ?thesis unfolding attentionLayer_def prod.case Let_def to_dimn
    by (intro rest query keys index wpd) (use assms(7) in \<open>simp_all add: dimn_def\<close>)
qed

subsection \<open>The feed-forward networks\<close>

lemma expertFFNRaw_wp:
  assumes "0 \<le> n" "dimn n * dimn h \<le> length g" "dimn n * dimn h \<le> length u" "dimn h * dimn n \<le> length d"
    and "dimn h \<le> length x" "dimn h \<le> length out"
    and "\<And>out a b c. dimn h \<le> length out \<Longrightarrow> P (out, ws\<lparr>ws_gate := a, ws_up := b, ws_mid := c\<rparr>)"
  shows "returns P (expertFFNRaw env g u d x out h n ws)"
  unfolding expertFFNRaw_def to_dimn by (intro wpd) (use assms in simp_all)

lemma ffn_fitsD:
  "ffn_fits env gl ul dl n h \<Longrightarrow> dimn n * dimn h \<le> length (weights_at env gl) \<and> dimn n * dimn h \<le> length (weights_at env ul) \<and>
     dimn h * dimn n \<le> length (weights_at env dl)"
  by (simp add: ffn_fits_def fits_def dimn_def)

subsection \<open>The mixture of experts\<close>

text \<open>A router result that selects experts of the model.\<close>

definition topk_ok :: "nat \<Rightarrow> topk_result \<Rightarrow> bool" where
  "topk_ok n r \<longleftrightarrow> tk_k r \<le> 8 \<and> length (tk_indices r) = 8 \<and> length (tk_weights r) = 8 \<and> (\<forall>i < tk_k r. tk_indices r ! i < n)"

lemma length_map_prefix [simp]: "length (map_prefix n f xs) = length xs"
  by (simp add: map_prefix_def)

lemma topKScores_wp:
  assumes "\<And>lt k xs. mset (rank lt k xs) = mset xs" "topK \<le> 8" "nat n \<le> length scores" "\<And>b. bias = Some b \<Longrightarrow> nat n \<le> length b"
  shows "returns (topk_ok (nat n)) (topKScores rank scores n bias topK rsf nm)"
proof (cases "n \<le> 0 \<or> topK \<le> 0")
  case True
  then show ?thesis by (auto simp: topKScores_def TopKResult_def topk_ok_def)
next
  case False
  define k where "k = nat (min topK n)"
  define rk where "rk = rank (\<lambda>a b. f32_lt (fst b) (fst a)) k (rank_scores scores (nat n) bias)"
  have bias: "(case bias of None \<Rightarrow> False | Some b \<Rightarrow> length b < nat n) = False"
    using assms(4) by (cases bias) (auto simp: not_less)
  have k: "k \<le> 8" "k \<le> nat n" using assms(2) by (auto simp: k_def)
  have m: "mset rk = mset (rank_scores scores (nat n) bias)" unfolding rk_def by (rule assms(1))
  have len: "length rk = nat n" using mset_eq_length [OF m] by (simp add: rank_scores_facts)
  have small: "snd (rk ! i) < nat n" if "i < k" for i
  proof -
    have "rk ! i \<in> set rk" using that k len by (intro nth_mem) simp
    then show ?thesis using mset_eq_setD [OF m] rank_scores_facts(3) by metis
  qed
  define ind wts where "ind = map (\<lambda>i. snd (rk ! i)) [0..<k] @ replicate (8 - k) 0"
    and "wts = map (\<lambda>i. scores ! snd (rk ! i)) [0..<k] @ replicate (8 - k) f32_zero"
  have lens: "length ind = 8" "length wts = 8" using k(1) by (simp_all add: ind_def wts_def)
  have inside: "ind ! i < nat n" if "i < k" for i
    using that small [OF that] by (simp add: ind_def nth_append)
  have "\<forall>i<k. snd (rk ! i) < length scores" using small assms(3) less_le_trans by blast
  then obtain s where fill: "route_fill rk scores [0..<k] (replicate 8 0, replicate 8 f32_zero, f32_zero) = Some (ind, wts, s)"
    using route_fill_spec [of 0 k "replicate 8 0" "replicate 8 f32_zero" rk scores f32_zero] k(1)
    by (simp add: ind_def wts_def)
  have init: "tk_indices TopKResult = replicate 8 0" "tk_weights TopKResult = replicate 8 f32_zero"
    by (simp_all add: TopKResult_def)
  have n: "(n \<le> 0 \<or> topK \<le> 0) = False" "(length scores < nat n \<or> (case bias of None \<Rightarrow> False | Some b \<Rightarrow> length b < nat n)) = False"
    using False bias assms(3) by auto
  show ?thesis unfolding topKScores_def Let_def n if_False init k_def [symmetric] rk_def [symmetric] fill
    using k(1) lens inside by (simp add: topk_ok_def)
qed

text \<open>A result that differs from a state in its workspace only.\<close>

definition only_ws :: "fwd \<Rightarrow> (workspace \<Rightarrow> bool) \<Rightarrow> fwd \<Rightarrow> bool" where
  "only_ws st P st' \<longleftrightarrow> (\<exists>ws. st' = st\<lparr>fw_ws := ws\<rparr> \<and> P ws)"

lemma only_wsI: "P ws \<Longrightarrow> only_ws st P (st\<lparr>fw_ws := ws\<rparr>)"
  by (auto simp: only_ws_def)

lemma only_ws_trans: "only_ws st P st1 \<Longrightarrow> only_ws st1 Q st2 \<Longrightarrow> only_ws st Q st2"
  by (auto simp: only_ws_def)

lemma only_ws_mono: "only_ws st P st1 \<Longrightarrow> (\<And>ws. P ws \<Longrightarrow> Q ws) \<Longrightarrow> only_ws st Q st1"
  by (auto simp: only_ws_def)

lemma only_wsD: "only_ws st P st1 \<Longrightarrow> P (fw_ws st1) \<and> fw_index st1 = fw_index st \<and> fw_scheduler st1 = fw_scheduler st"
  by (auto simp: only_ws_def)

definition ws_moe :: "model_config \<Rightarrow> workspace \<Rightarrow> bool" where
  "ws_moe cfg ws \<longleftrightarrow> ws_fwd cfg ws \<and> dimn (hiddenSize cfg) \<le> length (ws_moeOut ws)"

lemma bias_wp:
  assumes "bias_fits env loc n" "byteSize loc \<noteq> 0" "nat n \<le> length b" "\<And>ok r. length r = length b \<Longrightarrow> P (ok, r)"
  shows "returns P (loadWeightToF32 env loc b n)"
proof (cases "se_view (fe_sched env) (shardPath loc)")
  case (Some v)
  have four: "length (f32s bs) = length bs div 4" for bs by (induction bs rule: f32s.induct) simp_all
  let ?v = "drop (unat (byteOffset loc)) v"
  have "nat n * (if tl_dtype loc = ''F32'' then 4 else 2) \<le> length ?v"
    using assms(1,2) Some by (simp add: bias_fits_def)
  then have "nat n \<le> length (if tl_dtype loc = ''F32'' then f32s ?v else map bf16_toF32 (u16s ?v))"
    by (simp add: four length_u16s split: if_splits)
  then show ?thesis using assms(3,4) by (simp add: loadWeightToF32_def Some Let_def not_less returns_map put_def)
qed (use assms(4) in \<open>simp add: loadWeightToF32_def\<close>)

lemma route_wp:
  assumes "dims_ok cfg" "\<And>lt k xs. mset (fe_rank env lt k xs) = mset xs" "fits env (mlpGate lw) (dimn (numLocalExperts cfg) * dimn (hiddenSize cfg))"
    and "bias_fits env (gateBias lw) (numLocalExperts cfg)" "dimn (hiddenSize cfg) \<le> length x" "ws_fwd cfg ws"
  shows "returns (\<lambda>(routed, ws). ws_fwd cfg ws \<and> (\<forall>r. routed = Some r \<longrightarrow> topk_ok (dimn (numLocalExperts cfg)) r)) (route env lw x cfg ws)"
proof -
  have d: "0 \<le> numLocalExperts cfg" "numExpertsPerTok cfg \<le> 8" using assms(1) by (simp_all add: dims_ok_def)
  have w: "ws_fwd cfg (ws\<lparr>ws_routerScores := a\<rparr>)" "ws_fwd cfg (ws\<lparr>ws_routerScores := a, ws_bias := b\<rparr>)" for a b
    using assms(6) by (simp_all add: ws_fwd_def)
  have top: "returns (\<lambda>(routed, ws). ws_fwd cfg ws \<and> (\<forall>r. routed = Some r \<longrightarrow> topk_ok (dimn (numLocalExperts cfg)) r))
      (map_option (\<lambda>r. (Some r, ws')) (topKScores (fe_rank env) scores (numLocalExperts cfg) bias (numExpertsPerTok cfg) rsf nm))"
    if "dimn (numLocalExperts cfg) \<le> length scores" "\<And>b. bias = Some b \<Longrightarrow> dimn (numLocalExperts cfg) \<le> length b" "ws_fwd cfg ws'"
    for scores bias rsf nm ws'
    unfolding returns_map using topKScores_wp [OF assms(2) d(2)] that unfolding dimn_def
    by (intro returns_mono [OF topKScores_wp [OF assms(2) d(2)]]) auto
  show ?thesis
  proof (cases "byteSize (gateBias lw) = 0")
    case True
    then show ?thesis unfolding route_def Let_def to_dimn
      by (intro wpd) (use d assms(3,5) in \<open>auto simp: fits_def intro!: top w\<close>)
  next
    case False
    then show ?thesis unfolding route_def Let_def to_dimn
      by (simp only: if_False) (intro wpd bias_wp [OF assms(4) False, folded dimn_def],
        use d assms(3,5) in \<open>auto simp: fits_def intro!: top w\<close>)
  qed
qed

text \<open>One expert on the CPU, and its share of the sum.\<close>

lemma moe_frame:
  "ws_moe cfg ws \<Longrightarrow> ws_moe cfg (ws\<lparr>ws_gate := a, ws_up := b, ws_mid := c\<rparr>)"
  "ws_moe cfg ws \<Longrightarrow> length m = length (ws_moeOut ws) \<Longrightarrow> ws_moe cfg (ws\<lparr>ws_moeOut := m, ws_expertOut := b\<rparr>)"
  by (simp_all add: ws_moe_def ws_fwd_def)

lemma moe_expert:
  "moe_fits env w layer lw \<Longrightarrow> e < dimn (numLocalExperts (wi_config w)) \<Longrightarrow> \<exists>ew. expert_at w (int layer) (int e) = Some ew \<and>
     ffn_fits env (gateProj ew) (upProj ew) (downProj ew) (moeIntermediateSize (wi_config w)) (hiddenSize (wi_config w))"
  by (simp add: moe_fits_def Let_def dimn_def)

lemma direct_expert_wp:
  assumes "moe_fits env w layer lw" "dims_ok (wi_config w)" "e < dimn (numLocalExperts (wi_config w))" "fw_index st = w"
    and "dimn (hiddenSize (wi_config w)) \<le> length x" "dimn (hiddenSize (wi_config w)) \<le> length out" "ws_moe (wi_config w) (fw_ws st)"
  shows "returns (\<lambda>(out, st'). dimn (hiddenSize (wi_config w)) \<le> length out \<and> only_ws st (ws_moe (wi_config w)) st')
    (direct_expert env (int layer) (int e) x out st)"
proof -
  obtain ew where ew: "expert_at w (int layer) (int e) = Some ew"
    and f: "ffn_fits env (gateProj ew) (upProj ew) (downProj ew) (moeIntermediateSize (wi_config w)) (hiddenSize (wi_config w))"
    using moe_expert [OF assms(1,3)] by blast
  have n: "0 \<le> moeIntermediateSize (wi_config w)" using assms(2) by (simp add: dims_ok_def)
  have "returns (\<lambda>(out, ws). dimn (hiddenSize (wi_config w)) \<le> length out \<and> ws_moe (wi_config w) ws)
      (expertFFN env ew x out (hiddenSize (wi_config w)) (moeIntermediateSize (wi_config w)) (fw_ws st))"
    unfolding expertFFN_def using ffn_fitsD [OF f] assms(5-7) n by (intro expertFFNRaw_wp) (auto intro: moe_frame)
  then show ?thesis by (auto simp: direct_expert_def assms(4) ew returns_def intro: only_wsI)
qed

lemma merge_expert_wp:
  assumes "dimn (hiddenSize (wi_config (fw_index st))) \<le> length out" "ws_moe (wi_config (fw_index st)) (fw_ws st)"
  shows "returns (only_ws st (ws_moe (wi_config (fw_index st)))) (merge_expert c out st)"
  unfolding merge_expert_def to_dimn
  by (intro wpd) (use assms in \<open>auto simp: ws_moe_def intro!: only_wsI moe_frame\<close>)

lemma expert_loop_wp:
  assumes "moe_fits env w layer lw" "dims_ok (wi_config w)" "topk_ok (dimn (numLocalExperts (wi_config w))) r"
    and "dimn (hiddenSize (wi_config w)) \<le> length x" "set is \<subseteq> {..<tk_k r}" "fw_index st = w" "fw_scheduler st = None"
    and "ws_moe (wi_config w) (fw_ws st)"
  shows "returns (\<lambda>(restart, st'). \<not> restart \<and> only_ws st (ws_moe (wi_config w)) st') (expert_loop env (int layer) r x is False upTo st)"
  using assms(5-8)
proof (induction "is" arbitrary: st)
  case Nil
  then show ?case using only_wsI [of "ws_moe (wi_config w)" "fw_ws st" st] by simp
next
  case (Cons i "is")
  have i: "i < 8" "i < length (tk_indices r)" "i < length (tk_weights r)" "tk_indices r ! i < dimn (numLocalExperts (wi_config w))"
    using assms(3) Cons.prems(1) by (auto simp: topk_ok_def)
  have h: "0 \<le> hiddenSize (wi_config w)" using assms(2) by (simp add: dims_ok_def)
  have cpu: "cpu_expert env (int layer) r i x out st = direct_expert env (int layer) (int (tk_indices r ! i)) x out st" for out
    using Cons.prems(3) i(2) by (simp add: cpu_expert_def topk_index_def)
  have next_ok: "returns (\<lambda>(restart, st'). \<not> restart \<and> only_ws st (ws_moe (wi_config w)) st')
      (expert_loop env (int layer) r x is False upTo st2)" if "only_ws st (ws_moe (wi_config w)) st2" for st2
  proof (rule returns_mono)
    show "returns (\<lambda>(restart, st'). \<not> restart \<and> only_ws st2 (ws_moe (wi_config w)) st') (expert_loop env (int layer) r x is False upTo st2)"
      using Cons.prems that by (intro Cons.IH) (auto dest: only_wsD)
  qed (use only_ws_trans [OF that] in auto)
  have merge: "returns P (merge_expert c out st1)"
    if "only_ws st (ws_moe (wi_config w)) st1" "dimn (hiddenSize (wi_config w)) \<le> length out"
      "\<And>st2. only_ws st (ws_moe (wi_config w)) st2 \<Longrightarrow> P st2" for st1 out P c
  proof -
    have "fw_index st1 = w" "ws_moe (wi_config w) (fw_ws st1)" using only_wsD [OF that(1)] Cons.prems(2) by simp_all
    then have "returns (only_ws st1 (ws_moe (wi_config w))) (merge_expert c out st1)"
      using merge_expert_wp [of st1 out c] that(2) by simp
    then show ?thesis by (rule returns_mono) (rule that(3) [OF only_ws_trans [OF that(1)]])
  qed
  have expert: "returns P (direct_expert env (int layer) (int (tk_indices r ! i)) x out st)"
    if "dimn (hiddenSize (wi_config w)) \<le> length out"
      "\<And>out st1. dimn (hiddenSize (wi_config w)) \<le> length out \<Longrightarrow> only_ws st (ws_moe (wi_config w)) st1 \<Longrightarrow> P (out, st1)" for out P
    by (rule returns_mono [OF direct_expert_wp [OF assms(1,2) i(4) Cons.prems(2) assms(4) that(1) Cons.prems(4)]]) (use that(2) in auto)
  have step: "expert_loop env (int layer) r x (i # is) False upTo st = do {
       v \<leftarrow> ensureFloat (hiddenSize (wi_config w)) (ws_expertOut (fw_ws st));
       c \<leftarrow> rd (tk_weights r) i;
       (out, st) \<leftarrow> direct_expert env (int layer) (int (tk_indices r ! i)) x (zeros v) st;
       st \<leftarrow> merge_expert c out st;
       expert_loop env (int layer) r x is False upTo st
     }" using Cons.prems(2) by (simp add: cpu)
  show ?case unfolding step
    by (intro expert merge next_ok wpd) (use h i in \<open>simp_all add: zeros_def\<close>)
qed

lemma shared_wp:
  assumes "byteSize (sharedGateProj lw) = 0 \<or> ffn_fits env (sharedGateProj lw) (sharedUpProj lw) (sharedDownProj lw)
      (nSharedExperts cfg * moeIntermediateSize cfg) (hiddenSize cfg)"
    and "dims_ok cfg" "dimn (hiddenSize cfg) \<le> length x" "dimn (hiddenSize cfg) \<le> length out" "ws_moe cfg ws"
  shows "returns (\<lambda>(out, ws). dimn (hiddenSize cfg) \<le> length out \<and> ws_moe cfg ws) (sharedExpertFFN env cfg lw x out ws)"
proof -
  have d: "0 \<le> nSharedExperts cfg" "0 \<le> moeIntermediateSize cfg" "nSharedExperts cfg * moeIntermediateSize cfg < 2147483648"
    "0 \<le> nSharedExperts cfg * moeIntermediateSize cfg" using assms(2) by (simp_all add: dims_ok_def)
  have raw: "returns (\<lambda>(out, ws). dimn (hiddenSize cfg) \<le> length out \<and> ws_moe cfg ws)
      (sharedExpertFFNRaw env (getWeightPtr env (sharedGateProj lw)) (getWeightPtr env (sharedUpProj lw)) (getWeightPtr env (sharedDownProj lw))
        x out (nSharedExperts cfg * moeIntermediateSize cfg) (hiddenSize cfg) ws)" if "byteSize (sharedGateProj lw) \<noteq> 0"
  proof -
    have f: "ffn_fits env (sharedGateProj lw) (sharedUpProj lw) (sharedDownProj lw) (nSharedExperts cfg * moeIntermediateSize cfg) (hiddenSize cfg)"
      using assms(1) that by simp
    have net: "returns (\<lambda>(out, ws). dimn (hiddenSize cfg) \<le> length out \<and> ws_moe cfg ws)
        (expertFFNRaw env (weights_at env (sharedGateProj lw)) (weights_at env (sharedUpProj lw)) (weights_at env (sharedDownProj lw))
          x out (hiddenSize cfg) (nSharedExperts cfg * moeIntermediateSize cfg) ws)"
      using ffn_fitsD [OF f] assms(3-5) d(4) by (intro expertFFNRaw_wp) (auto intro: moe_frame)
    have zero: "returns (\<lambda>(out, ws). dimn (hiddenSize cfg) \<le> length out \<and> ws_moe cfg ws) (map_option (\<lambda>out. (out, ws)) (zero_out out (hiddenSize cfg)))"
      unfolding returns_map using assms(4,5) by (intro wp_zero_out) (simp_all add: dimn_def)
    show ?thesis using net zero by (simp add: sharedExpertFFNRaw_def)
  qed
  show ?thesis unfolding sharedExpertFFN_def
  proof (intro wp wp_imul d(1-3))
    show "returns (\<lambda>(out, ws). dimn (hiddenSize cfg) \<le> length out \<and> ws_moe cfg ws)
        (if byteSize (sharedGateProj lw) = 0 then map_option (\<lambda>out. (out, ws)) (zero_out out (hiddenSize cfg))
         else sharedExpertFFNRaw env (getWeightPtr env (sharedGateProj lw)) (getWeightPtr env (sharedUpProj lw))
           (getWeightPtr env (sharedDownProj lw)) x out (nSharedExperts cfg * moeIntermediateSize cfg) (hiddenSize cfg) ws)"
      using raw assms(4,5) by (auto simp: returns_map dimn_def intro!: wp_zero_out)
  qed
qed

lemma moeLayer_wp:
  assumes "moe_fits env w layer lw" "dims_ok (wi_config w)" "rearranges env" "fw_index st = w" "fw_scheduler st = None"
    and "ws_fwd (wi_config w) (fw_ws st)" "dimn (hiddenSize (wi_config w)) \<le> length x" "dimn (hiddenSize (wi_config w)) \<le> length out"
  shows "returns (\<lambda>(out, st'). dimn (hiddenSize (wi_config w)) \<le> length out \<and> only_ws st (ws_fwd (wi_config w)) st')
    (moeLayer env (int layer) lw x out st)"
proof -
  let ?cfg = "wi_config w" and ?h = "dimn (hiddenSize (wi_config w))"
  let ?P = "\<lambda>(out, st'). ?h \<le> length out \<and> only_ws st (ws_fwd ?cfg) st'"
  have h: "0 \<le> hiddenSize ?cfg" using assms(2) by (simp add: dims_ok_def)
  have m: "fits env (mlpGate lw) (dimn (numLocalExperts ?cfg) * ?h)" "bias_fits env (gateBias lw) (numLocalExperts ?cfg)"
    "byteSize (sharedGateProj lw) = 0 \<or> ffn_fits env (sharedGateProj lw) (sharedUpProj lw) (sharedDownProj lw)
       (nSharedExperts ?cfg * moeIntermediateSize ?cfg) (hiddenSize ?cfg)"
    using assms(1) by (simp_all add: moe_fits_def Let_def dimn_def)
  have perm: "\<And>lt k xs. mset (fe_rank env lt k xs) = mset xs" using assms(3) by (simp add: rearranges_def)
  have rest: "returns ?P (do {
       st1 \<leftarrow> report_routing env (int layer) r (st\<lparr>fw_ws := ws\<rparr>);
       moeOut \<leftarrow> ensureFloat (hiddenSize ?cfg) (ws_moeOut (fw_ws st1));
       st2 \<leftarrow> route_experts env (int layer) r x (st1\<lparr>fw_ws := (fw_ws st1)\<lparr>ws_moeOut := zeros moeOut\<rparr>\<rparr>);
       sharedOut \<leftarrow> ensureFloat (hiddenSize ?cfg) (ws_sharedOut (fw_ws st2));
       (sharedOut, st3) \<leftarrow> shared_experts env lw (int layer) x sharedOut st2;
       merged \<leftarrow> addVec (ws_moeOut (fw_ws st3)) sharedOut (nat (hiddenSize ?cfg));
       output \<leftarrow> put (take (nat (hiddenSize ?cfg)) merged) out;
       Some (output, st3\<lparr>fw_ws := (fw_ws st3)\<lparr>ws_sharedOut := sharedOut\<rparr>\<rparr>)})"
    if r: "topk_ok (dimn (numLocalExperts ?cfg)) r" and ws: "ws_fwd ?cfg ws" for r ws
  proof -
    have report: "report_routing env (int layer) r (st\<lparr>fw_ws := ws\<rparr>) = Some (st\<lparr>fw_ws := ws\<rparr>)"
      using assms(5) by (simp add: report_routing_def)
    have experts: "returns Q (route_experts env (int layer) r x st1)"
      if "only_ws st (ws_moe ?cfg) st1" "\<And>st2. only_ws st (ws_moe ?cfg) st2 \<Longrightarrow> Q st2" for st1 Q
    proof -
      have st1: "fw_index st1 = w" "fw_scheduler st1 = None" "ws_moe ?cfg (fw_ws st1)" using only_wsD [OF that(1)] assms(4,5) by simp_all
      have "returns (\<lambda>(restart, st2). \<not> restart \<and> only_ws st1 (ws_moe ?cfg) st2) (expert_loop env (int layer) r x [0..<tk_k r] False 0 st1)"
        by (rule expert_loop_wp [OF assms(1,2) r assms(7) _ st1]) auto
      then show ?thesis using only_ws_trans [OF that(1)] that(2) st1(2) by (auto simp: route_experts_def returns_def)
    qed
    have shared: "returns Q (shared_experts env lw (int layer) x so st2)"
      if "only_ws st (ws_moe ?cfg) st2" "?h \<le> length so" "\<And>so st3. ?h \<le> length so \<Longrightarrow> only_ws st (ws_moe ?cfg) st3 \<Longrightarrow> Q (so, st3)" for so st2 Q
    proof -
      have st2: "fw_index st2 = w" "fw_scheduler st2 = None" "ws_moe ?cfg (fw_ws st2)" using only_wsD [OF that(1)] assms(4,5) by simp_all
      have "returns (\<lambda>(so, ws). Q (so, st2\<lparr>fw_ws := ws\<rparr>)) (sharedExpertFFN env ?cfg lw x so (fw_ws st2))"
        by (rule returns_mono [OF shared_wp [OF m(3) assms(2,7) that(2) st2(3)]])
          (use that(3) only_ws_trans [OF that(1) only_wsI] in auto)
      then show ?thesis using st2 by (auto simp: shared_experts_def Let_def returns_def)
    qed
    have start: "only_ws st (ws_moe ?cfg) (st\<lparr>fw_ws := ws\<lparr>ws_moeOut := zeros v\<rparr>\<rparr>)" if "?h \<le> length v" for v
      using ws that by (intro only_wsI) (simp add: ws_moe_def ws_fwd_def zeros_def)
    have finish: "only_ws st (ws_fwd ?cfg) (st3\<lparr>fw_ws := (fw_ws st3)\<lparr>ws_sharedOut := so\<rparr>\<rparr>)" if "only_ws st (ws_moe ?cfg) st3" for st3 so
      using that by (auto simp: only_ws_def ws_moe_def ws_fwd_def)
    have moeOut: "?h \<le> length (ws_moeOut (fw_ws st3))" if "only_ws st (ws_moe ?cfg) st3" for st3
      using that by (auto simp: only_ws_def ws_moe_def)
    show ?thesis unfolding report Option.bind.simps to_dimn
      by (intro experts shared wpd) (use h start finish moeOut assms(8) in simp_all)
  qed
  show ?thesis unfolding moeLayer_def Let_def assms(4)
  proof (intro wp, rule returns_mono [OF route_wp [OF assms(2) perm m(1,2) assms(7,6)]], clarify)
    fix routed ws assume ws: "ws_fwd ?cfg ws" and r: "\<forall>r. routed = Some r \<longrightarrow> topk_ok (dimn (numLocalExperts ?cfg)) r"
    show "returns ?P (case routed of None \<Rightarrow> Some (out, st\<lparr>fw_ws := ws\<rparr>) | Some r \<Rightarrow> do {
       st1 \<leftarrow> report_routing env (int layer) r (st\<lparr>fw_ws := ws\<rparr>);
       moeOut \<leftarrow> ensureFloat (hiddenSize ?cfg) (ws_moeOut (fw_ws st1));
       st2 \<leftarrow> route_experts env (int layer) r x (st1\<lparr>fw_ws := (fw_ws st1)\<lparr>ws_moeOut := zeros moeOut\<rparr>\<rparr>);
       sharedOut \<leftarrow> ensureFloat (hiddenSize ?cfg) (ws_sharedOut (fw_ws st2));
       (sharedOut, st3) \<leftarrow> shared_experts env lw (int layer) x sharedOut st2;
       merged \<leftarrow> addVec (ws_moeOut (fw_ws st3)) sharedOut (nat (hiddenSize ?cfg));
       output \<leftarrow> put (take (nat (hiddenSize ?cfg)) merged) out;
       Some (output, st3\<lparr>fw_ws := (fw_ws st3)\<lparr>ws_sharedOut := sharedOut\<rparr>\<rparr>)})"
      using rest [OF _ ws] r assms(8) ws by (cases routed) (auto intro: only_wsI)
  qed
qed

subsection \<open>A token\<close>

text \<open>An engine that reads its weights from the mapped shards, before the token at \<open>pos\<close>.\<close>

definition fwd_at :: "weight_index \<Rightarrow> int \<Rightarrow> int \<Rightarrow> fwd \<Rightarrow> bool" where
  "fwd_at w cap pos st \<longleftrightarrow> fw_index st = w \<and> fw_scheduler st = None \<and> fw_initialized st \<and> fw_dsaEnabled st = the (dsa_present w) \<and>
     fw_seqLen st = pos \<and> kv_ready (wi_config w) cap (fw_kvCache st) \<and> length (fw_lastTopkByLayer st) = dimn (numLayers (wi_config w)) \<and>
     dimn (hiddenSize (wi_config w)) \<le> length (fw_finalNorm st) \<and> ws_fwd (wi_config w) (fw_ws st)"

lemma fwd_at_ws: "fwd_at w cap pos st \<Longrightarrow> only_ws st (ws_fwd (wi_config w)) st' \<Longrightarrow> fwd_at w cap pos st'"
  by (auto simp: only_ws_def fwd_at_def)

lemma attention_block_wp:
  assumes "dims_ok (wi_config w)" "attn_fits env (wi_config w) lw"
    and "the (dsa_present w) \<and> isIndexerFull (wi_config w) (int layer) \<Longrightarrow> index_fits env (wi_config w) lw"
    and "layer < dimn (numLayers (wi_config w))" "fwd_at w cap pos st" "0 \<le> pos" "pos < cap" "pos < 2 ^ 29"
  shows "returns (\<lambda>(sel, st'). fwd_at w cap pos st') (attention_block env layer lw (sel, st))"
proof -
  let ?cfg = "wi_config w" and ?h = "dimn (hiddenSize (wi_config w))"
  have st: "fw_index st = w" "fw_seqLen st = pos" "fw_dsaEnabled st = the (dsa_present w)" "kv_ready ?cfg cap (fw_kvCache st)"
    "length (fw_lastTopkByLayer st) = dimn (numLayers ?cfg)" "ws_fwd ?cfg (fw_ws st)" using assms(5) by (simp_all add: fwd_at_def)
  have ws: "?h \<le> length (ws_hiddenStates (fw_ws st))" "?h \<le> length (ws_residual (fw_ws st))" "?h \<le> length (ws_attnOutL (fw_ws st))"
    using st(6) by (simp_all add: ws_fwd_def)
  have l: "int layer < numLayers ?cfg" using assms(4) unfolding dimn_def by linarith
  have norm: "norm_fits env (inputLayernorm lw) (hiddenSize ?cfg)" using assms(2) by (simp add: attn_fits_def)
  have start: "ws_fwd ?cfg ((fw_ws st)\<lparr>ws_residual := r, ws_hiddenStates := hs\<rparr>)" if "?h \<le> length r" "?h \<le> length hs" for r hs
    using st(6) that by (simp add: ws_fwd_def)
  have attend: "returns P (attentionLayer env ?cfg lw (the (dsa_present w)) pos (int layer) hs (zeros (ws_attnOutL (fw_ws st))) sel
      ((fw_ws st)\<lparr>ws_residual := r, ws_hiddenStates := hs\<rparr>, fw_kvCache st))"
    if "?h \<le> length r" "?h \<le> length hs"
      "\<And>out sel ws kv. ?h \<le> length out \<Longrightarrow> ws_fwd ?cfg ws \<Longrightarrow> kv_ready ?cfg cap kv \<Longrightarrow> P (out, sel, ws, kv)" for r hs P
    by (rule returns_mono [OF attentionLayer_ready [OF assms(1,2) assms(3) that(2) start [OF that(1,2)] st(4) assms(6-8) _ l]])
      (use that(3) ws(3) in \<open>auto simp: zeros_def\<close>)
  have finished: "fwd_at w cap pos (st\<lparr>fw_ws := ws\<lparr>ws_hiddenStates := hs, ws_attnOutL := out\<rparr>, fw_kvCache := kv, fw_lastTopkByLayer := topk\<rparr>)"
    if "ws_fwd ?cfg ws" "?h \<le> length hs" "?h \<le> length out" "kv_ready ?cfg cap kv" "length topk = dimn (numLayers ?cfg)" for ws hs out kv topk
    using assms(5) that by (simp add: fwd_at_def ws_fwd_def)
  show ?thesis unfolding attention_block_def prod.case Let_def st(1-3) to_dimn
    by (intro attend wpd) (use ws norm assms(4) st(5) finished in simp_all)
qed

lemma mlp_block_wp:
  assumes "dims_ok (wi_config w)" "rearranges env" "attn_fits env (wi_config w) lw"
    and "if isMoe lw then moe_fits env w layer lw
         else ffn_fits env (mlpGate lw) (mlpUp lw) (mlpDown lw) (intermediateSize (wi_config w)) (hiddenSize (wi_config w))"
    and "fwd_at w cap pos st"
  shows "returns (fwd_at w cap pos) (mlp_block env layer lw st)"
proof -
  let ?cfg = "wi_config w" and ?h = "dimn (hiddenSize (wi_config w))"
  have st: "fw_index st = w" "fw_scheduler st = None" "ws_fwd ?cfg (fw_ws st)" using assms(5) by (simp_all add: fwd_at_def)
  have ws: "?h \<le> length (ws_hiddenStates (fw_ws st))" "?h \<le> length (ws_residual (fw_ws st))" "?h \<le> length (ws_mlpOut (fw_ws st))"
    using st(3) by (simp_all add: ws_fwd_def)
  have norm: "norm_fits env (postAttentionLayernorm lw) (hiddenSize ?cfg)" using assms(3) by (simp add: attn_fits_def)
  have start: "ws_fwd ?cfg ((fw_ws st)\<lparr>ws_residual := r, ws_hiddenStates := hs\<rparr>)" if "?h \<le> length r" "?h \<le> length hs" for r hs
    using st(3) that by (simp add: ws_fwd_def)
  have at: "fwd_at w cap pos (st\<lparr>fw_ws := ws\<rparr>)" if "ws_fwd ?cfg ws" for ws
    using assms(5) that by (simp add: fwd_at_def)
  have n: "0 \<le> intermediateSize ?cfg" using assms(1) by (simp add: dims_ok_def)
  let ?s = "\<lambda>r hs. st\<lparr>fw_ws := (fw_ws st)\<lparr>ws_residual := r, ws_hiddenStates := hs\<rparr>\<rparr>"
  have body: "returns P (if isMoe lw then moeLayer env (int layer) lw hs (zeros (ws_mlpOut (fw_ws st))) (?s r hs)
      else map_option (\<lambda>(out, ws). (out, ?s r hs\<lparr>fw_ws := ws\<rparr>)) (denseMlp env ?cfg lw hs (zeros (ws_mlpOut (fw_ws st))) (fw_ws (?s r hs))))"
    if len: "?h \<le> length r" "?h \<le> length hs"
      and P: "\<And>out st2. ?h \<le> length out \<Longrightarrow> fwd_at w cap pos st2 \<Longrightarrow> P (out, st2)" for r hs P
  proof (cases "isMoe lw")
    case True
    define st1 where "st1 = ?s r hs"
    have s: "fw_index st1 = w" "fw_scheduler st1 = None" "ws_fwd ?cfg (fw_ws st1)" using st start [OF len] by (simp_all add: st1_def)
    have at1: "fwd_at w cap pos st1" using at [OF start [OF len]] by (simp add: st1_def)
    have "returns P (moeLayer env (int layer) lw hs (zeros (ws_mlpOut (fw_ws st))) st1)"
      by (rule returns_mono [OF moeLayer_wp [OF _ assms(1,2) s len(2)]])
        (use assms(4) True P fwd_at_ws [OF at1] ws(3) in \<open>auto simp: zeros_def\<close>)
    then show ?thesis using True unfolding st1_def by simp
  next
    case False
    have f: "ffn_fits env (mlpGate lw) (mlpUp lw) (mlpDown lw) (intermediateSize ?cfg) (hiddenSize ?cfg)" using assms(4) False by simp
    have keep: "ws_fwd ?cfg (ws\<lparr>ws_gate := a, ws_up := b, ws_mid := c\<rparr>)" if "ws_fwd ?cfg ws" for ws a b c
      using that by (simp add: ws_fwd_def)
    have "returns (\<lambda>(out, ws). P (out, ?s r hs\<lparr>fw_ws := ws\<rparr>)) (denseMlp env ?cfg lw hs (zeros (ws_mlpOut (fw_ws st))) (fw_ws (?s r hs)))"
      unfolding denseMlp_def
      using ffn_fitsD [OF f] len(2) ws(3) n P at keep start [OF len] by (intro expertFFNRaw_wp) (auto simp: zeros_def)
    then show ?thesis using False by (auto simp: returns_def)
  qed
  have finished: "fwd_at w cap pos (st2\<lparr>fw_ws := (fw_ws st2)\<lparr>ws_hiddenStates := hs, ws_mlpOut := out\<rparr>\<rparr>)"
    if "fwd_at w cap pos st2" "?h \<le> length hs" "?h \<le> length out" for st2 hs out
    using that by (simp add: fwd_at_def ws_fwd_def)
  show ?thesis unfolding mlp_block_def Let_def st(1) to_dimn
    by (intro body wpd) (use ws norm finished in simp_all)
qed

lemma layer_step_wp:
  assumes "model_fits env w" "layer < dimn (numLayers (wi_config w))" "fwd_at w cap pos st" "0 \<le> pos" "pos < cap" "pos < 2 ^ 29"
  shows "returns (\<lambda>(sel, st'). fwd_at w cap pos st') (layer_step env layer (sel, st))"
proof -
  have d: "dims_ok (wi_config w)" "rearranges env" using assms(1) by (simp_all add: model_fits_def)
  have "layer_fits env w (the (dsa_present w)) layer" using assms(1,2) by (simp add: model_fits_def dimn_def)
  then obtain lw where lw: "rd (wi_layers w) layer = Some lw" and attn: "attn_fits env (wi_config w) lw"
      and "the (dsa_present w) \<and> isIndexerFull (wi_config w) (int layer) \<longrightarrow> index_fits env (wi_config w) lw"
      and mlp: "if isMoe lw then moe_fits env w layer lw
         else ffn_fits env (mlpGate lw) (mlpUp lw) (mlpDown lw) (intermediateSize (wi_config w)) (hiddenSize (wi_config w))"
    unfolding layer_fits_def by blast
  then have index: "the (dsa_present w) \<and> isIndexerFull (wi_config w) (int layer) \<Longrightarrow> index_fits env (wi_config w) lw" by blast
  have i: "fw_index st = w" using assms(3) by (simp add: fwd_at_def)
  have block: "returns (\<lambda>(sel, st'). fwd_at w cap pos st') (do { st2 \<leftarrow> mlp_block env layer lw st1; Some (sel1, st2) })"
    if "fwd_at w cap pos st1" for sel1 st1
    by (intro wp returns_mono [OF mlp_block_wp [OF d attn mlp that]]) simp
  have "returns (\<lambda>(sel, st'). fwd_at w cap pos st')
      (do { (sel, st) \<leftarrow> attention_block env layer lw (sel, st); st \<leftarrow> mlp_block env layer lw st; Some (sel, st) })"
    by (intro wp returns_mono [OF attention_block_wp [OF d(1) attn index assms(2-6)]]) (auto intro!: block)
  then show ?thesis by (simp add: layer_step_def i lw)
qed

lemma embed_wp:
  assumes "model_fits env w" "fwd_at w cap pos st" "0 \<le> tok" "tok < vocabSize (wi_config w)"
  shows "returns (fwd_at w cap pos) (embed env tok st)"
proof -
  let ?h = "nat (hiddenSize (wi_config w))" and ?ws = "fw_ws st"
  have st: "fw_index st = w" "?h \<le> length (ws_hiddenStates ?ws)" using assms(2) by (simp_all add: fwd_at_def ws_fwd_def dimn_def)
  have "nat (vocabSize (wi_config w)) * ?h \<le> length (weights_at env (embedTokens w))" using assms(1) by (simp add: model_fits_def fits_def)
  moreover have "nat tok * ?h + ?h \<le> nat (vocabSize (wi_config w)) * ?h" using assms(3,4) by (intro block_end) simp
  ultimately have "nat tok * ?h + ?h \<le> length (weights_at env (embedTokens w))" by (rule order_trans [rotated])
  then have row: "?h \<le> length (drop (nat tok * ?h) (weights_at env (embedTokens w)))"
    unfolding length_drop by (metis add.commute add_le_imp_le_diff)
  have "returns (\<lambda>hs. fwd_at w cap pos (st\<lparr>fw_ws := ?ws\<lparr>ws_hiddenStates := hs\<rparr>\<rparr>))
      (put (map bf16_toF32 (take ?h (drop (nat tok * ?h) (weights_at env (embedTokens w))))) (zeros (ws_hiddenStates ?ws)))"
    using st(2) assms(2) by (intro wp_put) (auto simp: zeros_def fwd_at_def ws_fwd_def dimn_def)
  then show ?thesis using row assms(3) st(1) by (simp add: embed_def Let_def returns_map not_less)
qed

lemma kv_advance_ready: "kv_ready cfg cap c \<Longrightarrow> kv_ready cfg cap (kv_advance c)"
  using kv_step_ok [of "kv_dim cfg" c KvAdvance] by (auto simp: kv_ready_def kv_dim_def kv_advance_def)

lemma token_step_wp:
  assumes "model_fits env w" "fwd_at w cap pos st" "0 \<le> tok" "tok < vocabSize (wi_config w)" "0 \<le> pos" "pos < cap" "pos < 2 ^ 29"
  shows "returns (fwd_at w cap (pos + 1)) (token_step env tok st)"
proof -
  have layers: "returns P (run_steps (layer_step env) [0..<dimn (numLayers (wi_config (fw_index st1)))] ([], st1))"
    if "fwd_at w cap pos st1" "\<And>sel st2. fwd_at w cap pos st2 \<Longrightarrow> P (sel, st2)" for P st1
  proof (rule returns_steps [where I = "\<lambda>(sel, st). fwd_at w cap pos st"])
    fix l and s :: "int list \<times> fwd" assume "l \<in> set [0..<dimn (numLayers (wi_config (fw_index st1)))]" "case s of (sel, st) \<Rightarrow> fwd_at w cap pos st"
    then show "returns (\<lambda>(sel, st). fwd_at w cap pos st) (layer_step env l s)"
      using that(1) layer_step_wp [OF assms(1) _ _ assms(5-7), of l "snd s" "fst s"] by (cases s) (simp add: fwd_at_def)
  qed (use that in auto)
  have emb: "returns P (embed env tok st)" if "\<And>st1. fwd_at w cap pos st1 \<Longrightarrow> P st1" for P
    using embed_wp [OF assms(1-4)] that by (rule returns_mono)
  have "fwd_at w cap (pos + 1) (st2\<lparr>fw_kvCache := kv_advance (fw_kvCache st2), fw_seqLen := fw_seqLen st2 + 1\<rparr>)"
    if "fwd_at w cap pos st2" for st2
    using that kv_advance_ready by (simp add: fwd_at_def)
  then show ?thesis unfolding token_step_def to_dimn by (intro emb layers wpd) simp_all
qed

subsection \<open>The head, and whole calls\<close>

lemma local_best_index: "set vs \<subseteq> {..<n} \<Longrightarrow> snd (local_best ls vs) < max 1 n"
proof -
  have "snd (foldl (\<lambda>(best, id) v. if f32_lt best (ls ! v) then (ls ! v, v) else (best, id)) s vs) < max 1 n"
    if "set vs \<subseteq> {..<n}" "snd s < max 1 n" for s
    using that by (induction vs arbitrary: s) auto
  then show "set vs \<subseteq> {..<n} \<Longrightarrow> snd (local_best ls vs) < max 1 n" by (simp add: local_best_def)
qed

lemma team_best_index:
  assumes "set (concat parts) \<subseteq> {..<n}" shows "snd (team_best ls parts) < max 1 n"
proof -
  let ?f = "\<lambda>(best, id) part. case local_best ls part of (b, i) \<Rightarrow> if f32_lt best b then (b, i) else (best, id)"
  have "snd (foldl ?f s parts) < max 1 n" if "set (concat parts) \<subseteq> {..<n}" "snd s < max 1 n" for s
    using that
  proof (induction parts arbitrary: s)
    case (Cons p parts)
    have "snd (local_best ls p) < max 1 n" using Cons.prems(1) by (intro local_best_index) simp
    then have "snd (?f s p) < max 1 n" using Cons.prems(2) by (cases s; cases "local_best ls p") simp
    then show ?case unfolding foldl_Cons by (rule Cons.IH [rotated]) (use Cons.prems(1) in simp)
  qed simp
  then show ?thesis using assms by (simp add: team_best_def)
qed

text \<open>What a call that computed something answers.\<close>

definition fwd_answer :: "model_config \<Rightarrow> bool \<Rightarrow> int \<Rightarrow> f32 list option \<Rightarrow> bool" where
  "fwd_answer cfg b tok logits \<longleftrightarrow> 0 \<le> tok \<and> tok < max 1 (vocabSize cfg) \<and>
     (if b then \<exists>ls. logits = Some ls \<and> length ls = nat (vocabSize cfg) else logits = None)"

lemma lm_head_wp:
  assumes "model_fits env w" "fwd_at w cap pos st"
  shows "returns (\<lambda>(tok, logits, st'). fwd_answer (wi_config w) b tok logits \<and> fwd_at w cap pos st') (lmHeadAndSample env b st)"
proof -
  let ?cfg = "wi_config w" and ?h = "dimn (hiddenSize (wi_config w))"
  have d: "0 \<le> hiddenSize ?cfg" "0 \<le> vocabSize ?cfg" using assms(1) by (simp_all add: model_fits_def dims_ok_def)
  have lm: "dimn (vocabSize ?cfg) * ?h \<le> length (weights_at env (lmHead w))" using assms(1) by (simp add: model_fits_def fits_def dimn_def)
  have st: "fw_index st = w" "?h \<le> length (ws_hiddenStates (fw_ws st))" "?h \<le> length (fw_finalNorm st)"
    using assms(2) by (simp_all add: fwd_at_def ws_fwd_def)
  have team: "snd (team_best ls (fe_team env (nat (vocabSize ?cfg)))) < max 1 (nat (vocabSize ?cfg))" for ls
    using assms(1) by (intro team_best_index) (simp add: model_fits_def rearranges_def)
  have tok: "int (snd (team_best ls (fe_team env (dimn (vocabSize ?cfg))))) < max 1 (vocabSize ?cfg)" for ls
    using team [of ls] d(2) unfolding dimn_def by linarith
  have logits: "returns P (map_M (\<lambda>v. dotBf16F32 (fe_msvc env) (drop (v * ?h) (weights_at env (lmHead w))) normed ?h) [0..<dimn (vocabSize ?cfg)])"
    if "?h \<le> length normed" "\<And>ls. length ls = dimn (vocabSize ?cfg) \<Longrightarrow> P ls" for normed P
  proof (rule returns_map_M)
    fix v assume "v \<in> set [0..<dimn (vocabSize ?cfg)]"
    then have "v * ?h + ?h \<le> length (weights_at env (lmHead w))" using block_end [of v "dimn (vocabSize ?cfg)" ?h] lm by simp
    then show "returns (\<lambda>_. True) (dotBf16F32 (fe_msvc env) (drop (v * ?h) (weights_at env (lmHead w))) normed ?h)"
      using that(1) by (intro wp_dotBf16) simp_all
  qed (use that(2) in simp)
  have norm: "returns P (if length (fw_finalNorm st) < ?h then None
      else put (map2 (\<lambda>v u. f32_mul (f32_mul v c) u) (take ?h normed) (fw_finalNorm st)) normed)"
    if "?h \<le> length normed" "\<And>r. length r = length normed \<Longrightarrow> P r" for normed c P
    using st(3) that by (simp add: put_def)
  have keep: "fwd_at w cap pos (st\<lparr>fw_ws := (fw_ws st)\<lparr>ws_normed := n\<rparr>\<rparr>)" for n
    using assms(2) by (simp add: fwd_at_def ws_fwd_def)
  have v: "vocabSize ?cfg < 0 \<longleftrightarrow> False" using d(2) by simp
  show ?thesis unfolding lmHeadAndSample_def Let_def st(1) to_dimn v if_False
    by (intro norm logits wpd) (use d st(2) keep tok in \<open>simp_all add: fwd_answer_def dimn_def\<close>)
qed

lemma token_loop_wp:
  assumes "model_fits env w" "fwd_at w cap pos st" "\<forall>tok \<in> set toks. 0 \<le> tok \<and> tok < vocabSize (wi_config w)" "0 \<le> pos"
    and "pos + int (length toks) \<le> cap" "pos + int (length toks) \<le> 2 ^ 29"
  shows "returns (\<lambda>(tok, logits, st'). (if toks = [] then tok = - 1 \<and> logits = None else fwd_answer (wi_config w) b tok logits) \<and>
      fwd_at w cap (pos + int (length toks)) st') (token_loop env b toks st)"
  using assms(2-6)
proof (induction toks arbitrary: pos st)
  case (Cons t toks)
  have step: "returns P (token_step env t st)" if "\<And>st1. fwd_at w cap (pos + 1) st1 \<Longrightarrow> P st1" for P
    using Cons.prems by (intro returns_mono [OF token_step_wp [OF assms(1), of cap pos st t]] that) auto
  show ?case
  proof (cases "toks = []")
    case True
    then show ?thesis using lm_head_wp [OF assms(1)] by (auto intro!: wp step)
  next
    case False
    have more: "returns (\<lambda>(tok, logits, st'). fwd_answer (wi_config w) b tok logits \<and> fwd_at w cap (pos + int (length (t # toks))) st')
        (token_loop env b toks st1)" if "fwd_at w cap (pos + 1) st1" for st1
      using Cons.IH [OF that] Cons.prems False by (simp add: add.assoc)
    then show ?thesis using False by (auto intro!: wp step)
  qed
qed simp

text \<open>An engine between two calls.\<close>

definition fwd_ok :: "weight_index \<Rightarrow> int \<Rightarrow> fwd \<Rightarrow> bool" where
  "fwd_ok w pos st \<longleftrightarrow> 0 \<le> pos \<and> fw_index st = w \<and> fw_scheduler st = None \<and> fw_initialized st \<and> fw_dsaEnabled st = the (dsa_present w) \<and>
     fw_seqLen st = pos \<and> kv_ok (kv_dim (wi_config w)) (fw_kvCache st) \<and> length (fw_lastTopkByLayer st) = dimn (numLayers (wi_config w)) \<and>
     dimn (hiddenSize (wi_config w)) \<le> length (fw_finalNorm st) \<and>
     length (ws_kNew (fw_ws st)) \<le> dimn (numAttentionHeads (wi_config w)) * dimn (qkHeadDim (wi_config w)) \<and>
     length (ws_vNew (fw_ws st)) \<le> dimn (numAttentionHeads (wi_config w)) * dimn (vHeadDim (wi_config w)) \<and>
     length (ws_iK (fw_ws st)) \<le> dimn (indexHeadDim (wi_config w))"

definition ids_ok :: "model_config \<Rightarrow> int list \<Rightarrow> bool" where
  "ids_ok cfg ids \<longleftrightarrow> (\<forall>tok \<in> set ids. 0 \<le> tok \<and> tok < vocabSize cfg) \<and> int (length ids) + 16 \<le> 2 ^ 29"

lemma fwd_at_ok: "fwd_at w cap pos st \<Longrightarrow> 0 \<le> pos \<Longrightarrow> fwd_ok w pos st"
  by (simp add: fwd_at_def fwd_ok_def ws_fwd_def kv_ready_def)

lemma reserve_wp:
  assumes "kv_ok (kv_dim cfg) c" "n \<le> 2 ^ 29" "\<And>c'. kv_ready cfg n c' \<Longrightarrow> P c'"
  shows "returns P (kv_reserve n c)"
proof (cases "n \<le> int (kv_maxSeqLen c)")
  case True
  then show ?thesis using assms(1,3) by (simp add: kv_reserve_def kv_ready_def)
next
  case False
  then have t: "nat (n - 1) < 2 ^ 29" "int (nat (n - 1)) = n - 1" using assms(2) by simp_all
  have inv: "kv_inv c" "kv_dims c = kv_dim cfg" using assms(1) by (simp_all add: kv_ok_def)
  obtain g where g: "kv_growTo (nat (n - 1)) c = Some g" "kv_inv g" "kv_dims g = kv_dims c" "nat (n - 1) < kv_maxSeqLen g"
    using kv_growTo_spec [OF inv(1) t(1)] by metis
  have "n \<le> int (kv_maxSeqLen g)" using g(4) t(2) by linarith
  then have "P g" using g(2,3) inv(2) by (intro assms(3)) (simp add: kv_ready_def kv_ok_def)
  then show ?thesis using False g(1) by (simp add: kv_reserve_def)
qed

lemma forward_wp:
  assumes "model_fits env w" "fwd_ok w pos st" "ids_ok (wi_config w) ids"
  shows "returns (\<lambda>(tok, logits, st'). (if int (length ids) \<le> pos then tok = - 1 \<and> logits = None else fwd_answer (wi_config w) b tok logits) \<and>
      fwd_ok w (max pos (int (length ids))) st') (forward env ids b st)"
proof -
  let ?cfg = "wi_config w" and ?n = "int (length ids)"
  have h: "0 \<le> hiddenSize ?cfg" using assms(1) by (simp add: model_fits_def dims_ok_def)
  have st: "0 \<le> pos" "fw_index st = w" "fw_initialized st" "fw_seqLen st = pos" "kv_ok (kv_dim ?cfg) (fw_kvCache st)"
    using assms(2) by (simp_all add: fwd_ok_def)
  have n: "?n + 16 \<le> 2 ^ 29" "\<not> 2147483647 < ?n + 16" using assms(3) by (simp_all add: ids_ok_def)
  have start: "fwd_at w (?n + 16) pos (st\<lparr>fw_kvCache := kv, fw_ws := (fw_ws st)\<lparr>ws_hiddenStates := hs, ws_residual := r, ws_attnOutL := a,
      ws_mlpOut := m\<rparr>\<rparr>)" if "kv_ready ?cfg (?n + 16) kv" "dimn (hiddenSize ?cfg) \<le> length hs" "dimn (hiddenSize ?cfg) \<le> length r"
      "dimn (hiddenSize ?cfg) \<le> length a" "dimn (hiddenSize ?cfg) \<le> length m" for kv hs r a m
    using assms(2) that by (simp add: fwd_at_def fwd_ok_def ws_fwd_def)
  have reserve: "returns P (if 2147483647 < ?n + 16 then None else kv_reserve (?n + 16) (fw_kvCache st))"
    if "\<And>kv. kv_ready ?cfg (?n + 16) kv \<Longrightarrow> P kv" for P
    using n(2) reserve_wp [OF st(5) n(1)] that by simp
  have loop: "returns (\<lambda>(tok, logits, st'). (if ?n \<le> pos then tok = - 1 \<and> logits = None else fwd_answer ?cfg b tok logits) \<and>
      fwd_ok w (max pos ?n) st') (token_loop env b (drop (dimn pos) ids) st1)" if "fwd_at w (?n + 16) pos st1" for st1
  proof (cases "?n \<le> pos")
    case True
    then have "length ids \<le> dimn pos" unfolding dimn_def by linarith
    then show ?thesis using True fwd_at_ok [OF that st(1)] by (simp add: max_def)
  next
    case False
    then have len: "drop (dimn pos) ids \<noteq> []" "pos + int (length (drop (dimn pos) ids)) = ?n"
      using st(1) by (simp_all add: dimn_def of_nat_diff nat_le_iff)
    have toks: "\<forall>tok \<in> set (drop (dimn pos) ids). 0 \<le> tok \<and> tok < vocabSize ?cfg"
      using assms(3) set_drop_subset [of "dimn pos" ids] unfolding ids_ok_def by blast
    have "returns (\<lambda>(tok, logits, st'). fwd_answer ?cfg b tok logits \<and> fwd_at w (?n + 16) ?n st') (token_loop env b (drop (dimn pos) ids) st1)"
      using token_loop_wp [OF assms(1) that toks st(1), of b] n(1) unfolding len(2) by (simp only: len(1) if_False)
    then show ?thesis by (rule returns_mono) (use False fwd_at_ok in \<open>auto simp: max_def\<close>)
  qed
  have "returns (\<lambda>(tok, logits, st'). (if ?n \<le> pos then tok = - 1 \<and> logits = None else fwd_answer ?cfg b tok logits) \<and>
      fwd_ok w (max pos ?n) st') (do {
        kv \<leftarrow> (if 2147483647 < ?n + 16 then None else kv_reserve (?n + 16) (fw_kvCache st));
        hs \<leftarrow> ensureFloat (hiddenSize ?cfg) (ws_hiddenStates (fw_ws st));
        residual \<leftarrow> ensureFloat (hiddenSize ?cfg) (ws_residual (fw_ws st));
        attnOutL \<leftarrow> ensureFloat (hiddenSize ?cfg) (ws_attnOutL (fw_ws st));
        mlpOut \<leftarrow> ensureFloat (hiddenSize ?cfg) (ws_mlpOut (fw_ws st));
        token_loop env b (drop (dimn pos) ids) (st\<lparr>fw_kvCache := kv, fw_ws := (fw_ws st)\<lparr>ws_hiddenStates := hs, ws_residual := residual,
          ws_attnOutL := attnOutL, ws_mlpOut := mlpOut\<rparr>\<rparr>)})"
    by (intro reserve loop start wpd) (use h in simp_all)
  then show ?thesis using st(2-4) unfolding forward_def Let_def to_dimn by simp
qed

lemma init_wp:
  assumes "model_fits env w"
  shows "returns (\<lambda>(ok, st). ok \<and> fwd_ok w 0 st) (fwd_init env (GLMForward w))"
proof -
  let ?cfg = "wi_config w"
  have d: "0 \<le> numLayers ?cfg" "0 \<le> numAttentionHeads ?cfg" "0 \<le> qkHeadDim ?cfg" "0 \<le> vHeadDim ?cfg" "0 \<le> indexHeadDim ?cfg" "0 \<le> hiddenSize ?cfg"
    using assms by (simp_all add: model_fits_def dims_ok_def)
  have layers: "\<exists>lw. rd (wi_layers w) l = Some lw" if "l < nat (numLayers ?cfg)" for l
    using assms that by (auto simp: model_fits_def layer_fits_def)
  have "returns (\<lambda>_. True) (dsa_present w)"
    unfolding dsa_present_def Let_def
  proof (split if_split, intro conjI impI, goal_cases)
    case 1
    then show ?case by (rule_tac returns_steps [where I = "\<lambda>_. True"]) (use layers in \<open>auto simp: returns_map returns_def\<close>)
  qed simp
  then obtain dsa where dsa: "dsa_present w = Some dsa" by (auto simp: returns_def)
  have norm: "norm_fits env (finalNorm w) (hiddenSize ?cfg)" using assms by (simp add: model_fits_def)
  have kv: "kv_ok (kv_dim ?cfg) (kv_init (nat (numLayers ?cfg)) (nat (numAttentionHeads ?cfg)) (nat (qkHeadDim ?cfg)) (nat (vHeadDim ?cfg))
      (nat (indexHeadDim ?cfg)) 64 c)" for c
    using kv_init_inv kv_init_dims by (simp add: kv_ok_def kv_dim_def dimn_def)
  have ok: "fwd_ok w 0 ((GLMForward w)\<lparr>fw_dsaEnabled := dsa, fw_kvCache := kv_init (nat (numLayers ?cfg)) (nat (numAttentionHeads ?cfg))
      (nat (qkHeadDim ?cfg)) (nat (vHeadDim ?cfg)) (nat (indexHeadDim ?cfg)) 64 KVCache, fw_lastTopkByLayer := replicate (nat (numLayers ?cfg)) [],
      fw_finalNorm := nm, fw_initialized := True\<rparr>)" if "dimn (hiddenSize ?cfg) \<le> length nm" for nm
    using kv that by (simp add: fwd_ok_def dsa GLMForward_def Workspace_def dimn_def)
  have loaded: "dimn (hiddenSize ?cfg) \<le> length (if map bf16_toF32 (take (nat (hiddenSize ?cfg)) fn) = []
      then replicate (nat (hiddenSize ?cfg)) f32_one else map bf16_toF32 (take (nat (hiddenSize ?cfg)) fn))"
    if "nat (hiddenSize ?cfg) \<le> length fn" for fn
    using that by (simp add: dimn_def)
  show ?thesis
    using d norm ok loaded unfolding fwd_init_def Let_def norm_fits_def
    by (cases "byteSize (finalNorm w) = 0"; cases "getWeightPtr env (finalNorm w)")
      (simp_all add: dsa GLMForward_def deref_def dimn_def not_less)
qed

subsection \<open>Conversations stay well-formed\<close>

lemma fwd_reset_ok: "fwd_ok w pos st \<Longrightarrow> fwd_ok w 0 (fwd_reset st)"
  using kv_step_ok [of "kv_dim (wi_config w)" "fw_kvCache st" KvClear] by (simp add: fwd_ok_def fwd_reset_def kv_dim_def)

text \<open>The answers of a conversation that starts with \<open>pos\<close> tokens in the cache, and the tokens it ends with.\<close>

fun answers_ok :: "model_config \<Rightarrow> int \<Rightarrow> fwd_op list \<Rightarrow> (int \<times> f32 list option) list \<Rightarrow> int \<Rightarrow> bool" where
  "answers_ok cfg pos [] res fin = (res = [] \<and> fin = pos)"
| "answers_ok cfg pos (FReset # ops) res fin = answers_ok cfg 0 ops res fin"
| "answers_ok cfg pos (FForward ids b # ops) [] fin = False"
| "answers_ok cfg pos (FForward ids b # ops) ((tok, logits) # res) fin =
     ((if int (length ids) \<le> pos then tok = - 1 \<and> logits = None else fwd_answer cfg b tok logits) \<and>
      answers_ok cfg (max pos (int (length ids))) ops res fin)"

fun op_ok :: "model_config \<Rightarrow> fwd_op \<Rightarrow> bool" where
  "op_ok cfg (FForward ids b) = ids_ok cfg ids"
| "op_ok cfg FReset = True"

lemma fwd_run_wp:
  assumes "model_fits env w"
  shows "fwd_ok w pos st \<Longrightarrow> list_all (op_ok (wi_config w)) ops \<Longrightarrow>
    \<exists>res fin st'. fwd_run env ops st = Some (res, st') \<and> answers_ok (wi_config w) pos ops res fin \<and> fwd_ok w fin st'"
proof (induction ops arbitrary: pos st)
  case (Cons a ops)
  show ?case
  proof (cases a)
    case FReset
    then show ?thesis using Cons.IH [OF fwd_reset_ok [OF Cons.prems(1)]] Cons.prems(2) by auto
  next
    case (FForward ids b)
    obtain tok logits st1 where f: "forward env ids b st = Some (tok, logits, st1)"
        "if int (length ids) \<le> pos then tok = - 1 \<and> logits = None else fwd_answer (wi_config w) b tok logits"
        "fwd_ok w (max pos (int (length ids))) st1"
      using forward_wp [OF assms Cons.prems(1), of ids b] Cons.prems(2) FForward by (auto simp: returns_def)
    obtain res fin st2 where r: "fwd_run env ops st1 = Some (res, st2)" "answers_ok (wi_config w) (max pos (int (length ids))) ops res fin"
        "fwd_ok w fin st2"
      using Cons.IH [OF f(3)] Cons.prems(2) by auto
    have "fwd_run env (a # ops) st = Some ((tok, logits) # res, st2)" using f(1) r(1) FForward by simp
    moreover have "answers_ok (wi_config w) pos (a # ops) ((tok, logits) # res) fin" using f(2) r(2) FForward by simp
    ultimately show ?thesis using r(3) by blast
  qed
qed (auto)


lemma pt_fits: "model_fits pt_env pt_index"
proof -
  have dsa: "dsa_present pt_index = Some False" by (simp add: dsa_present_def pt_index_def pt_config_def ModelConfig_def Let_def)
  have view: "getWeightPtr pt_env (pt_loc off) = Some (u16s (drop (unat off) (the (pt_files ''m''))))" for off
    by (simp add: getWeightPtr_def pt_env_def pt_loc_def pt_files_def)
  have one: "1 \<le> length (weights_at pt_env (pt_loc off))" if "off \<le> 14" for off
    using that by (simp add: view deref_def length_u16s pt_files_def word_le_nat_alt)
  have perm: "rearranges pt_env"
    by (auto simp: rearranges_def pt_env_def tiny_env_def stable_psort_def)
  have dims: "dims_ok pt_config" by (simp add: dims_ok_def pt_config_def ModelConfig_def)
  have cfg: "wi_config pt_index = pt_config" "numAttentionHeads pt_config = 0" "qLoraRank pt_config = 0" "kvLoraRank pt_config = 0"
    "qkRopeHeadDim pt_config = 0" "hiddenSize pt_config = 1" "numLocalExperts pt_config = 1" "moeIntermediateSize pt_config = 1" "nSharedExperts pt_config = 1"
    by (simp_all add: pt_index_def pt_config_def ModelConfig_def)
  have ew: "expert_at pt_index 0 0 = Some pt_expert" "rd (wi_layers pt_index) 0 = Some pt_layer"
    by (simp_all add: expert_at_def pt_index_def rd_def)
  have lw: "isMoe pt_layer" "byteSize (gateBias pt_layer) = 0" "mlpGate pt_layer = pt_loc 0" "oProj pt_layer = pt_loc 0"
    "sharedGateProj pt_layer = pt_loc 10" "sharedUpProj pt_layer = pt_loc 12" "sharedDownProj pt_layer = pt_loc 14"
    "byteSize (inputLayernorm pt_layer) = 0" "byteSize (postAttentionLayernorm pt_layer) = 0" "byteSize (qALayernorm pt_layer) = 0"
    "byteSize (kvALayernorm pt_layer) = 0"
    by (simp_all add: pt_layer_def LayerWeights_def TensorLocation_def)
  have layer: "layer_fits pt_env pt_index False 0"
    using one by (simp add: layer_fits_def ew attn_fits_def moe_fits_def Let_def cfg lw fits_def norm_fits_def bias_fits_def ffn_fits_def pt_expert_def)
  have two: "2 \<le> length (weights_at pt_env (pt_loc 0))"
    by (simp add: view deref_def length_u16s pt_files_def)
  have fields: "wi_config pt_index = pt_config" "embedTokens pt_index = pt_loc 0" "lmHead pt_index = pt_loc 0" "byteSize (finalNorm pt_index) = 0"
    "numLayers pt_config = 1" "hiddenSize pt_config = 1" "vocabSize pt_config = 2"
    by (simp_all add: pt_index_def pt_config_def WeightIndex_def TensorLocation_def)
  show ?thesis using dims perm layer two by (simp add: model_fits_def fits_def norm_fits_def fields dsa)
qed


end
