(* ===== verification/PyBridge.thy ===== *)
theory PyBridge
  imports StdString "HOL-Library.Word" "HOL-Library.Monad_Syntax"
begin

text \<open>
  The bridge to the Python tokenizer: \<open>tokenizer/subprocess_json.h\<close>, \<open>utils/json_util.h\<close>,
  \<open>tokenizer/python_tokenizer.h\<close> and \<open>tokenizer/python_tokenizer_posix.cpp\<close>. A position in a
  scanned string is the suffix that starts there. The child process is what it prints first and
  what it prints after each line it receives; \<^const>\<open>None\<close> is an uncaught exception, or the undefined
  behaviour of \<open>atoi\<close>.
\<close>

subsection \<open>Escaping\<close>

definition hex_digit :: "nat \<Rightarrow> char" where
  "hex_digit d = (if d < 10 then char_of (48 + d) else char_of (87 + d))"

text \<open>\<open>snprintf("\u%04x", c)\<close> of a character below \<open>0x20\<close>.\<close>

definition u_escape :: "char \<Rightarrow> string" where
  "u_escape c = [CHR 0x5C, CHR ''u'', CHR ''0'', CHR ''0'', hex_digit (chr_code c div 16), hex_digit (chr_code c mod 16)]"

definition escape_char :: "char \<Rightarrow> string" where
  "escape_char c =
     (if c = CHR 0x22 then [CHR 0x5C, CHR 0x22]
      else if c = CHR 0x5C then [CHR 0x5C, CHR 0x5C]
      else if c = CHR 0x0A then [CHR 0x5C, CHR ''n'']
      else if c = CHR 0x0D then [CHR 0x5C, CHR ''r'']
      else if c = CHR 0x09 then [CHR 0x5C, CHR ''t'']
      else if chr_code c < 32 then u_escape c else [c])"

definition escapeJsonString :: "string \<Rightarrow> string" where
  "escapeJsonString s = concat (map escape_char s)"

text \<open>\<open>utils/json_util.h\<close> has two short escapes more.\<close>

definition json_escape_char :: "char \<Rightarrow> string" where
  "json_escape_char c = (if c = CHR 0x08 then [CHR 0x5C, CHR ''b''] else if c = CHR 0x0C then [CHR 0x5C, CHR ''f''] else escape_char c)"

definition jsonEscapeString :: "string \<Rightarrow> string" where
  "jsonEscapeString s = concat (map json_escape_char s)"

subsection \<open>Fields\<close>

text \<open>The content of a string literal, as it is escaped, up to its closing quote.\<close>

fun quoted_part :: "string \<Rightarrow> string" where
  "quoted_part [] = []"
| "quoted_part (c # s) =
     (if c = CHR 0x22 then []
      else if c = CHR 0x5C then (case s of [] \<Rightarrow> [c] | d # s' \<Rightarrow> c # d # quoted_part s')
      else c # quoted_part s)"

text \<open>Any other value, up to the comma or bracket that ends it.\<close>

fun scalar_part :: "nat \<Rightarrow> string \<Rightarrow> string" where
  "scalar_part depth [] = []"
| "scalar_part depth (c # s) =
     (if c = CHR ''['' \<or> c = CHR ''{'' then c # scalar_part (depth + 1) s
      else if c = CHR '']'' \<or> c = CHR ''}'' then (if depth = 0 then [] else c # scalar_part (depth - 1) s)
      else if c = CHR '','' \<and> depth = 0 then []
      else c # scalar_part depth s)"

definition quoted :: "string \<Rightarrow> string" where
  "quoted key = CHR 0x22 # key @ [CHR 0x22]"

definition extractJsonField :: "string \<Rightarrow> string \<Rightarrow> string" where
  "extractJsonField json key =
     (case str_find (quoted key) json of
        None \<Rightarrow> []
      | Some p \<Rightarrow> (case dropWhile (\<lambda>c. c \<noteq> CHR '':'') (drop (p + length (quoted key)) json) of
            [] \<Rightarrow> []
          | _ # s \<Rightarrow>
              let s = dropWhile (\<lambda>c. c = CHR '' '' \<or> c = CHR 0x09) s in
              if s = [] then []
              else if hd s = CHR 0x22 then quoted_part (tl s)
              else scalar_part 0 s))"

text \<open>The numbers of an array; what \<open>stoi\<close> rejects is skipped.\<close>

definition skip_separators :: "string \<Rightarrow> string" where
  "skip_separators s = dropWhile (\<lambda>c. c = CHR '' '' \<or> c = CHR '','') s"

definition int_token :: "string \<Rightarrow> string" where
  "int_token s = takeWhile (\<lambda>c. c \<noteq> CHR '','' \<and> c \<noteq> CHR '']'') s"

function int_array_loop :: "string \<Rightarrow> int list" where
  "int_array_loop s =
     (let t = skip_separators s in
      if t = [] \<or> hd t = CHR '']'' then []
      else (case c_stoi (int_token t) of Some n \<Rightarrow> [n] | None \<Rightarrow> []) @ int_array_loop (drop (length (int_token t)) t))"
  by pat_completeness auto

termination
proof (relation "measure length")
  fix s t :: string assume t: "t = skip_separators s" and n: "\<not> (t = [] \<or> hd t = CHR '']'')"
  have sep: "hd t \<noteq> CHR '',''"
    using n hd_dropWhile [of "\<lambda>c. c = CHR '' '' \<or> c = CHR '',''" s] by (auto simp: t skip_separators_def)
  have "0 < length (int_token t)" using n sep by (cases t) (simp_all add: int_token_def)
  moreover have "length t \<le> length s" by (simp add: t skip_separators_def length_dropWhile_le)
  moreover have "0 < length t" using n by simp
  ultimately show "(drop (length (int_token t)) t, s) \<in> measure length"
    unfolding in_measure length_drop by linarith
qed simp

declare int_array_loop.simps [simp del]

definition parseIntArray :: "string \<Rightarrow> int list" where
  "parseIntArray s = (case dropWhile (\<lambda>c. c \<noteq> CHR ''['') s of [] \<Rightarrow> [] | _ # t \<Rightarrow> int_array_loop t)"

subsection \<open>Unescaping\<close>

definition hex_value :: "char \<Rightarrow> nat option" where
  "hex_value c = (let n = chr_code c in
     if 48 \<le> n \<and> n \<le> 57 then Some (n - 48)
     else if 97 \<le> n \<and> n \<le> 102 then Some (n - 87)
     else if 65 \<le> n \<and> n \<le> 70 then Some (n - 55) else None)"

text \<open>\<open>std::stoul\<close> in base 16, read into an \<open>unsigned int\<close>; \<^const>\<open>None\<close> when there is no digit.\<close>

definition c_stoul16 :: "string \<Rightarrow> 32 word option" where
  "c_stoul16 s =
     (let s = dropWhile is_space s;
          t = (if s \<noteq> [] \<and> hd s \<in> {CHR ''-'', CHR ''+''} then tl s else s);
          t = (if take 2 t \<in> {''0x'', ''0X''} \<and> 2 < length t \<and> hex_value (t ! 2) \<noteq> None then drop 2 t else t);
          ds = takeWhile (\<lambda>c. hex_value c \<noteq> None) t;
          n = (of_nat (foldl (\<lambda>n c. n * 16 + the (hex_value c)) 0 ds) :: 32 word)
      in if ds = [] then None else Some (if s \<noteq> [] \<and> hd s = CHR ''-'' then - n else n))"

definition byte_chr :: "32 word \<Rightarrow> char" where
  "byte_chr n = char_of (unat n)"

text \<open>The three-byte form also takes what does not fit it.\<close>

definition code_unit :: "32 word \<Rightarrow> string" where
  "code_unit cp =
     (if cp < 0x80 then [byte_chr cp]
      else if cp < 0x800 then [byte_chr (or 0xC0 (drop_bit 6 cp)), byte_chr (or 0x80 (and cp 0x3F))]
      else [byte_chr (or 0xE0 (drop_bit 12 cp)), byte_chr (or 0x80 (and (drop_bit 6 cp) 0x3F)), byte_chr (or 0x80 (and cp 0x3F))])"

definition simple_escape :: "char \<Rightarrow> char" where
  "simple_escape c = (if c = CHR ''n'' then CHR 0x0A else if c = CHR ''r'' then CHR 0x0D else if c = CHR ''t'' then CHR 0x09 else c)"

function unescape :: "string \<Rightarrow> string option" where
  "unescape [] = Some []"
| "unescape (c # s) =
     (if c = CHR 0x22 then Some []
      else if c = CHR 0x5C \<and> s \<noteq> [] then
        if hd s = CHR ''u'' then
          if 4 \<le> length (tl s)
          then do { cp \<leftarrow> c_stoul16 (take 4 (tl s)); more \<leftarrow> unescape (drop 4 (tl s)); Some (code_unit cp @ more) }
          else unescape (tl s)
        else map_option ((#) (simple_escape (hd s))) (unescape (tl s))
      else map_option ((#) c) (unescape s))"
  by pat_completeness auto

termination
  by (relation "measure length") auto

declare unescape.simps [simp del]

definition parseJsonString :: "string \<Rightarrow> string option" where
  "parseJsonString s = (if s = [] \<or> hd s \<noteq> CHR 0x22 then Some s else unescape (tl s))"

subsection \<open>The process\<close>

text \<open>
  What the surroundings do: whether the pipes and the process come up, their descriptors and the process
  number, what the child prints before the first request and after each line it receives, and whether a
  line can be written to it.
\<close>

record py_env =
  pe_pipes :: bool
  pe_fork :: int
  pe_write :: int
  pe_read :: int
  pe_banner :: string
  pe_reply :: "string \<Rightarrow> string"
  pe_writable :: "string \<Rightarrow> bool"

text \<open>The bridge, with the child's output that it has not read yet.\<close>

record py_tokenizer =
  childProcess :: int
  stdinWrite :: int
  stdoutRead :: int
  py_vocabSize :: int
  bosId :: int
  eosId :: int
  padId :: int
  py_output :: string

definition PythonTokenizer :: py_tokenizer where
  "PythonTokenizer = \<lparr>childProcess = 0, stdinWrite = 0, stdoutRead = 0, py_vocabSize = 0, bosId = - 1, eosId = - 1, padId = - 1, py_output = []\<rparr>"

definition py_isRunning :: "py_tokenizer \<Rightarrow> bool" where
  "py_isRunning st \<longleftrightarrow> childProcess st \<noteq> 0"

definition kMaxPipeBytes :: nat where
  "kMaxPipeBytes = 64 * 1024 * 1024"

text \<open>The line so far and the unread output; the end of the output is the end of a last line that is not empty.\<close>

fun read_line :: "string \<Rightarrow> string \<Rightarrow> bool \<times> string \<times> string" where
  "read_line line [] = (line \<noteq> [], line, [])"
| "read_line line (c # s) =
     (if c = CHR 0x0A then (True, line, s)
      else let line = (if c = CHR 0x0D then line else line @ [c]) in
        if kMaxPipeBytes < length line then (False, line, s) else read_line line s)"

definition readLine :: "py_tokenizer \<Rightarrow> bool \<times> string \<times> py_tokenizer" where
  "readLine st = (case read_line [] (py_output st) of (ok, line, rest) \<Rightarrow> (ok, line, st\<lparr>py_output := rest\<rparr>))"

definition writeLine :: "py_env \<Rightarrow> string \<Rightarrow> py_tokenizer \<Rightarrow> bool \<times> py_tokenizer" where
  "writeLine env line st =
     (if pe_writable env line then (True, st\<lparr>py_output := py_output st @ pe_reply env line\<rparr>) else (False, st))"

definition sendAndRecv :: "py_env \<Rightarrow> string \<Rightarrow> py_tokenizer \<Rightarrow> bool \<times> string \<times> py_tokenizer" where
  "sendAndRecv env req st = (case writeLine env req st of (ok, st) \<Rightarrow> if ok then readLine st else (False, [], st))"

text \<open>The wait for the child's end does not touch the fields.\<close>

definition py_stop :: "py_env \<Rightarrow> py_tokenizer \<Rightarrow> py_tokenizer" where
  "py_stop env st =
     (let st = (if stdinWrite st \<noteq> 0 then (snd (writeLine env (''{'' @ quoted ''cmd'' @ '':'' @ quoted ''quit'' @ ''}'') st))\<lparr>stdinWrite := 0\<rparr> else st) in
      st\<lparr>stdoutRead := 0, childProcess := 0\<rparr>)"

definition is_ready :: "string \<Rightarrow> bool" where
  "is_ready line \<longleftrightarrow> str_contains (quoted ''ready'') line \<and> (str_contains ''true'' line \<or> str_contains ''True'' line)"

text \<open>Up to \<open>n\<close> lines are read for the ready signal.\<close>

fun await_ready :: "nat \<Rightarrow> py_tokenizer \<Rightarrow> string option \<times> py_tokenizer" where
  "await_ready 0 st = (None, st)"
| "await_ready (Suc n) st =
     (case readLine st of (ok, line, st) \<Rightarrow>
        if \<not> ok then (None, st) else if is_ready line then (Some line, st) else await_ready n st)"

text \<open>\<open>extractNested\<close>.\<close>

definition extractNested :: "string \<Rightarrow> string \<Rightarrow> int option" where
  "extractNested line key =
     (case str_find (quoted key @ '':'') line of
        None \<Rightarrow> Some (- 1)
      | Some p \<Rightarrow>
          let s = dropWhile (\<lambda>c. c = CHR '' '') (drop (p + length (quoted key @ '':'')) line) in
          if s \<noteq> [] \<and> hd s = CHR ''n'' then Some (- 1) else c_atoi s)"

definition py_start :: "py_env \<Rightarrow> py_tokenizer \<Rightarrow> (bool \<times> py_tokenizer) option" where
  "py_start env st =
     (if \<not> pe_pipes env \<or> pe_fork env < 0 then Some (False, st)
      else
        let st = st\<lparr>stdinWrite := pe_write env, stdoutRead := pe_read env, childProcess := pe_fork env,
                   py_output := py_output st @ pe_banner env\<rparr> in
        case await_ready 50 st of
          (None, st) \<Rightarrow> Some (False, py_stop env st)
        | (Some line, st) \<Rightarrow> do {
            vocab \<leftarrow> c_atoi (extractJsonField line ''vocab_size'');
            bos \<leftarrow> extractNested line ''bos'';
            eos \<leftarrow> extractNested line ''eos'';
            pad \<leftarrow> extractNested line ''pad'';
            Some (True, st\<lparr>py_vocabSize := vocab, bosId := bos, eosId := eos, padId := pad\<rparr>)
          })"

subsection \<open>Requests\<close>

definition json_bool :: "bool \<Rightarrow> string" where
  "json_bool b = (if b then ''true'' else ''false'')"

fun join :: "string \<Rightarrow> string list \<Rightarrow> string" where
  "join sep [] = []"
| "join sep [s] = s"
| "join sep (s # t # ss) = s @ sep @ join sep (t # ss)"

definition encode_request :: "string \<Rightarrow> bool \<Rightarrow> string" where
  "encode_request text addSpecial =
     ''{'' @ quoted ''cmd'' @ '':'' @ quoted ''encode'' @ '','' @ quoted ''text'' @ '':'' @ quoted (escapeJsonString text) @ '','' @
     quoted ''add_special'' @ '':'' @ json_bool addSpecial @ ''}''"

definition decode_request :: "int list \<Rightarrow> bool \<Rightarrow> string" where
  "decode_request ids skipSpecial =
     ''{'' @ quoted ''cmd'' @ '':'' @ quoted ''decode'' @ '','' @ quoted ''ids'' @ '':['' @ join '','' (map int_string ids) @ ''],'' @
     quoted ''skip_special'' @ '':'' @ json_bool skipSpecial @ ''}''"

definition chat_request :: "string \<Rightarrow> bool \<Rightarrow> string" where
  "chat_request messages addGenPrompt =
     ''{'' @ quoted ''cmd'' @ '':'' @ quoted ''apply_chat'' @ '','' @ quoted ''messages'' @ '':'' @ messages @ '','' @
     quoted ''add_generation_prompt'' @ '':'' @ json_bool addGenPrompt @ ''}''"

definition ask_ids :: "py_env \<Rightarrow> string \<Rightarrow> py_tokenizer \<Rightarrow> int list \<times> py_tokenizer" where
  "ask_ids env req st = (case sendAndRecv env req st of (ok, resp, st) \<Rightarrow>
     (if ok then parseIntArray (extractJsonField resp ''ids'') else [], st))"

definition py_encode :: "py_env \<Rightarrow> string \<Rightarrow> bool \<Rightarrow> py_tokenizer \<Rightarrow> int list \<times> py_tokenizer" where
  "py_encode env text addSpecial = ask_ids env (encode_request text addSpecial)"

definition py_applyChatTemplate :: "py_env \<Rightarrow> string \<Rightarrow> bool \<Rightarrow> py_tokenizer \<Rightarrow> int list \<times> py_tokenizer" where
  "py_applyChatTemplate env messages addGenPrompt = ask_ids env (chat_request messages addGenPrompt)"

definition py_decode :: "py_env \<Rightarrow> int list \<Rightarrow> bool \<Rightarrow> py_tokenizer \<Rightarrow> (string \<times> py_tokenizer) option" where
  "py_decode env ids skipSpecial st =
     (case sendAndRecv env (decode_request ids skipSpecial) st of (ok, resp, st) \<Rightarrow>
        if ok then map_option (\<lambda>s. (s, st)) (parseJsonString (extractJsonField resp ''text'')) else Some ([], st))"

subsection \<open>Escaped text survives, and stays on its line\<close>

lemma hex_value_digit: "d < 16 \<Longrightarrow> hex_value (hex_digit d) = Some d"
  by (simp add: hex_value_def hex_digit_def chr_code_def Let_def)

lemma hex_digit_plain: "d < 16 \<Longrightarrow> 48 \<le> chr_code (hex_digit d) \<and> hex_digit d \<noteq> CHR 0x22 \<and> hex_digit d \<noteq> CHR 0x5C"
proof -
  assume "d < 16"
  then have "48 \<le> chr_code (hex_digit d)" "chr_code (hex_digit d) \<noteq> 92" by (auto simp: hex_digit_def chr_code_def)
  then show ?thesis by (auto simp: chr_code_def)
qed

lemma stoul_u_escape:
  assumes "chr_code c < 32"
  shows "c_stoul16 [CHR ''0'', CHR ''0'', hex_digit (chr_code c div 16), hex_digit (chr_code c mod 16)] = Some (of_nat (chr_code c))"
proof -
  have zero: "\<not> is_space (CHR ''0'')" "hex_value (CHR ''0'') = Some 0" by (simp_all add: is_space_def hex_value_def chr_code_def Let_def)
  have d: "chr_code c div 16 < 16" "chr_code c mod 16 < 16" using assms by auto
  have v: "hex_value (hex_digit (chr_code c div 16)) = Some (chr_code c div 16)" "hex_value (hex_digit (chr_code c mod 16)) = Some (chr_code c mod 16)"
    using d by (simp_all add: hex_value_digit)
  show ?thesis by (simp add: c_stoul16_def Let_def zero v)
qed

lemma code_unit_small: "n < 128 \<Longrightarrow> code_unit (of_nat n) = [char_of n]"
proof -
  assume n: "n < 128"
  have "(of_nat n :: 32 word) < 0x80" using n by (simp add: word_less_nat_alt unat_of_nat)
  then show ?thesis using n by (simp add: code_unit_def byte_chr_def unat_of_nat)
qed

lemma unescape_escape_char: "unescape (escape_char c @ s) = map_option ((#) c) (unescape s)"
proof (cases "c \<in> {CHR 0x22, CHR 0x5C, CHR 0x0A, CHR 0x0D, CHR 0x09} \<or> 32 \<le> chr_code c")
  case True
  then show ?thesis by (auto simp: escape_char_def unescape.simps simple_escape_def chr_code_def)
next
  case False
  then have c: "escape_char c = u_escape c" "chr_code c < 32" by (simp_all add: escape_char_def)
  have "unescape (u_escape c @ s) = Option.bind (Some (of_nat (chr_code c))) (\<lambda>cp. Option.bind (unescape s) (\<lambda>more. Some (code_unit cp @ more)))"
    unfolding u_escape_def append_Cons append_Nil by (subst unescape.simps) (simp add: stoul_u_escape [OF c(2)])
  then show ?thesis using c by (cases "unescape s") (simp_all add: code_unit_small chr_code_def)
qed

lemma escape_char_quoted: "quoted_part (escape_char c @ t) = escape_char c @ quoted_part t"
proof (cases "chr_code c < 32")
  case True
  then have "chr_code c div 16 < 16" "chr_code c mod 16 < 16" by auto
  then show ?thesis using hex_digit_plain by (simp add: escape_char_def u_escape_def)
next
  case False
  then show ?thesis by (simp add: escape_char_def)
qed

lemma chr_code_short:
  "chr_code (CHR 0x22) = 34" "chr_code (CHR 0x5C) = 92" "chr_code (CHR ''n'') = 110" "chr_code (CHR ''r'') = 114"
  "chr_code (CHR ''t'') = 116" "chr_code (CHR ''u'') = 117" "chr_code (CHR ''0'') = 48"
  by (simp_all add: chr_code_def)

lemma escape_char_printable: "filter (\<lambda>c. chr_code c < 32) (escape_char c) = []"
proof (cases "chr_code c < 32")
  case True
  then have "48 \<le> chr_code (hex_digit (chr_code c div 16))" "48 \<le> chr_code (hex_digit (chr_code c mod 16))"
    using hex_digit_plain by simp_all
  then show ?thesis by (simp add: escape_char_def u_escape_def chr_code_short)
next
  case False
  then show ?thesis by (simp add: escape_char_def chr_code_short)
qed

text \<open>
  C35. Escaping and unescaping: what \<open>parseJsonString\<close> reads from an escaped text between quotes is the
  text, whatever its bytes and whatever follows; and an escaped text has neither a control character
  nor an unescaped quote in it, so that a request is one line and its string literal ends where the
  escaped text does.
\<close>

theorem escape_roundtrip:
  "parseJsonString (quoted (escapeJsonString s) @ rest) = Some s \<and> quoted_part (escapeJsonString s @ CHR 0x22 # rest) = escapeJsonString s \<and>
   filter (\<lambda>c. chr_code c < 32) (escapeJsonString s) = []"
proof (intro conjI)
  have "unescape (escapeJsonString s @ CHR 0x22 # rest) = Some s"
    by (induction s) (simp_all add: escapeJsonString_def unescape.simps unescape_escape_char)
  then show "parseJsonString (quoted (escapeJsonString s) @ rest) = Some s" by (simp add: parseJsonString_def quoted_def)
  show "quoted_part (escapeJsonString s @ CHR 0x22 # rest) = escapeJsonString s"
    by (induction s) (simp_all add: escapeJsonString_def escape_char_quoted)
  show "filter (\<lambda>c. chr_code c < 32) (escapeJsonString s) = []"
    by (induction s) (simp_all add: escapeJsonString_def escape_char_printable)
qed

subsection \<open>Replies\<close>

text \<open>What the server script prints: \<open>json.dumps\<close> with its default separators, and a newline.\<close>

definition ids_reply :: "int list \<Rightarrow> string" where
  "ids_reply ids = ''{'' @ quoted ''ids'' @ '': ['' @ join '', '' (map int_string ids) @ '']}'' @ [CHR 0x0A]"

definition text_reply :: "string \<Rightarrow> string" where
  "text_reply t = ''{'' @ quoted ''text'' @ '': '' @ quoted (jsonEscapeString t) @ ''}'' @ [CHR 0x0A]"

lemma read_line_whole:
  assumes "CHR 0x0A \<notin> set l" "CHR 0x0D \<notin> set l" "length acc + length l \<le> kMaxPipeBytes"
  shows "read_line acc (l @ CHR 0x0A # rest) = (True, acc @ l, rest)"
  using assms
proof (induction l arbitrary: acc)
  case (Cons c l)
  then show ?case using Cons.IH [of "acc @ [c]"] by (auto simp: Let_def)
qed simp

lemma send_reply:
  assumes "pe_writable env req" "py_output st = []" "pe_reply env req = line @ [CHR 0x0A]"
    and "CHR 0x0A \<notin> set line" "CHR 0x0D \<notin> set line" "length line \<le> kMaxPipeBytes"
  shows "sendAndRecv env req st = (True, line, st)"
  using read_line_whole [of line "[]" "[]"] assms by (simp add: sendAndRecv_def writeLine_def readLine_def)

lemma digits_plain: "is_digit c \<Longrightarrow> c \<notin> {CHR '','', CHR '' '', CHR '']'', CHR ''['', CHR ''{'', CHR ''}'', CHR 0x0A, CHR 0x0D, CHR ''-''}"
  by (auto simp: is_digit_def chr_code_def)

lemma number_chars: "c \<in> set (to_string n) \<Longrightarrow> c \<notin> {CHR '','', CHR '' '', CHR '']'', CHR ''['', CHR ''{'', CHR ''}'', CHR 0x0A, CHR 0x0D, CHR ''-''}"
  using to_string_digits digits_plain by blast

lemma join_chars: "c \<in> set (join sep ss) \<Longrightarrow> c \<in> set sep \<or> (\<exists>s \<in> set ss. c \<in> set s)"
  by (induction sep ss rule: join.induct) auto

text \<open>The array loop: separators are skipped, a number is read up to its separator.\<close>

lemma int_array_separator: "c = CHR '' '' \<or> c = CHR '','' \<Longrightarrow> int_array_loop (c # s) = int_array_loop s"
  by (subst (1 2) int_array_loop.simps) (auto simp: skip_separators_def)

lemma int_array_number:
  assumes "int n < 2 ^ 31" "sep = CHR '','' \<or> sep = CHR '']''"
  shows "int_array_loop (to_string n @ sep # s) = int n # int_array_loop (sep # s)"
proof -
  obtain c ds where n: "to_string n = c # ds" using to_string_nonempty by (cases "to_string n") auto
  have plain: "\<And>d. d \<in> set (to_string n) \<Longrightarrow> d \<noteq> CHR '','' \<and> d \<noteq> CHR '' '' \<and> d \<noteq> CHR '']''" using number_chars by blast
  have c: "c \<noteq> CHR '','' \<and> c \<noteq> CHR '' '' \<and> c \<noteq> CHR '']''" using plain [of c] n by simp
  have skip: "skip_separators (to_string n @ sep # s) = to_string n @ sep # s" using c by (simp add: skip_separators_def n)
  have token: "int_token (to_string n @ sep # s) = to_string n"
    using plain assms(2) by (auto simp: int_token_def takeWhile_append2)
  have num: "c_stoi (to_string n) = Some (int n)" using c_stoi_to_string [of n "[]"] assms(1) by simp
  have hd: "hd (to_string n @ sep # s) \<noteq> CHR '']''" using c by (simp add: n)
  show ?thesis by (subst int_array_loop.simps) (use hd in \<open>simp add: skip token num Let_def\<close>)
qed

lemma int_array_join:
  "(\<And>i. i \<in> set ids \<Longrightarrow> 0 \<le> i \<and> i < 2 ^ 31) \<Longrightarrow> int_array_loop (join '', '' (map int_string ids) @ '']'' @ s) = ids"
proof (induction ids)
  case (Cons i ids)
  have i: "0 \<le> i" "int (nat i) < 2 ^ 31" "int_string i = to_string (nat i)" using Cons.prems [of i] by (simp_all add: int_string_def)
  show ?case
  proof (cases ids)
    case Nil
    then show ?thesis using i int_array_number [OF i(2), of "CHR '']''" s] by (simp add: int_array_loop.simps skip_separators_def)
  next
    case (Cons j js)
    then have "int_array_loop (join '', '' (map int_string (i # ids)) @ '']'' @ s) =
        int_array_loop (to_string (nat i) @ CHR '','' # CHR '' '' # join '', '' (map int_string ids) @ '']'' @ s)"
      using i(3) by simp
    also have "\<dots> = i # int_array_loop (join '', '' (map int_string ids) @ '']'' @ s)"
      using int_array_number [OF i(2), of "CHR '',''"] int_array_separator i(1) by simp
    finally show ?thesis using Cons.IH Cons.prems by simp
  qed
qed (subst int_array_loop.simps, simp add: skip_separators_def)

lemma scalar_part_plain:
  "(\<And>c. c \<in> set l \<Longrightarrow> c \<notin> {CHR ''['', CHR ''{'', CHR '']'', CHR ''}''}) \<Longrightarrow> scalar_part (Suc d) (l @ s) = l @ scalar_part (Suc d) s"
  by (induction l) auto

lemma field_after:
  assumes "str_find (quoted key) json = Some p" "drop (p + length (quoted key)) json = CHR '':'' # CHR '' '' # s" "s \<noteq> []"
    and "hd s \<noteq> CHR '' ''" "hd s \<noteq> CHR 0x09"
  shows "extractJsonField json key = (if hd s = CHR 0x22 then quoted_part (tl s) else scalar_part 0 s)"
  using assms by (cases s) (simp_all add: extractJsonField_def)

lemma first_field: "str_find (quoted key) (CHR ''{'' # quoted key @ s) = Some 1"
  by (simp add: str_find_Cons quoted_def)

lemma ids_chars:
  assumes "\<And>i. i \<in> set ids \<Longrightarrow> 0 \<le> i \<and> i < 2 ^ 31" "c \<in> set (join '', '' (map int_string ids))"
  shows "c \<notin> {CHR ''['', CHR ''{'', CHR '']'', CHR ''}'', CHR 0x0A, CHR 0x0D}"
proof -
  have "int_string i = to_string (nat i)" if "i \<in> set ids" for i using assms(1) [OF that] by (simp add: int_string_def)
  then have "c \<in> {CHR '','', CHR '' ''} \<or> (\<exists>i \<in> set ids. c \<in> set (to_string (nat i)))"
    using join_chars [OF assms(2)] by auto
  then show ?thesis using number_chars by fastforce
qed

lemma ids_field:
  assumes "\<And>i. i \<in> set ids \<Longrightarrow> 0 \<le> i \<and> i < 2 ^ 31"
  shows "parseIntArray (extractJsonField (''{'' @ quoted ''ids'' @ '': ['' @ join '', '' (map int_string ids) @ '']}'') ''ids'') = ids"
proof -
  let ?l = "join '', '' (map int_string ids)"
  have plain: "c \<notin> {CHR ''['', CHR ''{'', CHR '']'', CHR ''}''}" if "c \<in> set ?l" for c
    using ids_chars [OF assms that] by blast
  have "extractJsonField (''{'' @ quoted ''ids'' @ '': ['' @ ?l @ '']}'') ''ids'' = scalar_part 0 (CHR ''['' # ?l @ '']}'')"
    using field_after [OF first_field [of "''ids''" "'': ['' @ ?l @ '']}''"], where s = "CHR ''['' # ?l @ '']}''"] by (simp add: quoted_def)
  also have "\<dots> = CHR ''['' # ?l @ '']''" using scalar_part_plain [where d = 0 and l = ?l and s = "'']}''", OF plain] by simp
  finally show ?thesis using int_array_join [of ids "[]"] assms by (simp add: parseIntArray_def)
qed

lemma ask_ids_exact:
  assumes "pe_writable env req" "py_output st = []" "pe_reply env req = ids_reply ids"
    and "\<And>i. i \<in> set ids \<Longrightarrow> 0 \<le> i \<and> i < 2 ^ 31" "length (ids_reply ids) \<le> kMaxPipeBytes"
  shows "ask_ids env req st = (ids, st)"
proof -
  let ?line = "''{'' @ quoted ''ids'' @ '': ['' @ join '', '' (map int_string ids) @ '']}''"
  have plain: "c \<notin> {CHR 0x0A, CHR 0x0D}" if "c \<in> set ?line" for c
  proof -
    have "c \<in> set (''{'' @ quoted ''ids'' @ '': ['' @ '']}'') \<or> c \<in> set (join '', '' (map int_string ids))" using that by auto
    then show ?thesis
    proof
      assume "c \<in> set (join '', '' (map int_string ids))"
      then show ?thesis using ids_chars assms(4) by blast
    qed (auto simp: quoted_def)
  qed
  have "sendAndRecv env req st = (True, ?line, st)"
    using assms plain by (intro send_reply) (auto simp: ids_reply_def)
  then show ?thesis using ids_field [OF assms(4)] by (simp add: ask_ids_def)
qed



subsection \<open>Decoded text is never unescaped\<close>

lemma field_unquoted: "extractJsonField json key = [] \<or> hd (extractJsonField json key) \<noteq> CHR 0x22"
proof -
  have quoted: "quoted_part s = [] \<or> hd (quoted_part s) \<noteq> CHR 0x22" for s by (cases s) (auto split: list.splits)
  have scalar: "scalar_part 0 s = [] \<or> hd (scalar_part 0 s) \<noteq> CHR 0x22" if "hd s \<noteq> CHR 0x22" for s using that by (cases s) auto
  show ?thesis using quoted scalar by (simp add: extractJsonField_def Let_def split: option.splits list.splits)
qed

lemma py_decode_total: "\<exists>s st'. py_decode env ids skip st = Some (s, st')"
proof -
  obtain ok resp st' where "sendAndRecv env (decode_request ids skip) st = (ok, resp, st')" using prod_cases3 by blast
  then show ?thesis using field_unquoted [of resp "''text''"] by (auto simp: py_decode_def parseJsonString_def)
qed

text \<open>The characters a JSON string cannot hold as they are.\<close>

definition needs_escape :: "char \<Rightarrow> bool" where
  "needs_escape c \<longleftrightarrow> chr_code c < 32 \<or> c = CHR 0x22 \<or> c = CHR 0x5C"

lemma json_escape_char_plain: "\<not> needs_escape c \<Longrightarrow> json_escape_char c = [c]"
  by (auto simp: json_escape_char_def escape_char_def needs_escape_def chr_code_def)

lemma json_escape_char_longer: "needs_escape c \<Longrightarrow> 2 \<le> length (json_escape_char c)"
  by (auto simp: json_escape_char_def escape_char_def needs_escape_def u_escape_def)

lemma json_escape_char_quoted: "quoted_part (json_escape_char c @ s) = json_escape_char c @ quoted_part s"
  using escape_char_quoted [of c s] by (simp add: json_escape_char_def)

lemma json_escape_quoted: "quoted_part (jsonEscapeString t @ CHR 0x22 # s) = jsonEscapeString t"
  by (induction t) (simp_all add: jsonEscapeString_def json_escape_char_quoted)

lemma json_escape_printable: "c \<in> set (jsonEscapeString t) \<Longrightarrow> 32 \<le> chr_code c"
proof -
  have "filter (\<lambda>c. chr_code c < 32) (json_escape_char d) = []" for d
    using escape_char_printable [of d] by (simp add: json_escape_char_def) (simp add: chr_code_def)
  then show "c \<in> set (jsonEscapeString t) \<Longrightarrow> 32 \<le> chr_code c"
    by (force simp: jsonEscapeString_def filter_empty_conv)
qed

lemma json_escape_id: "jsonEscapeString t = t \<longleftrightarrow> filter needs_escape t = []"
proof -
  have grow: "length t \<le> length (concat (map json_escape_char t))" for t
  proof (induction t)
    case (Cons c t)
    then show ?case using json_escape_char_plain [of c] json_escape_char_longer [of c] by (cases "needs_escape c") auto
  qed simp
  show ?thesis
  proof (induction t)
    case (Cons c t)
    have "jsonEscapeString (c # t) \<noteq> c # t" if "needs_escape c"
    proof
      assume "jsonEscapeString (c # t) = c # t"
      then have "length (json_escape_char c) + length (concat (map json_escape_char t)) = Suc (length t)"
        by (metis jsonEscapeString_def length_append list.simps(9) concat.simps(2) length_Cons)
      then show False using grow [of t] json_escape_char_longer [OF that] by simp
    qed
    then show ?case using Cons.IH json_escape_char_plain [of c] by (cases "needs_escape c") (auto simp: jsonEscapeString_def)
  qed (simp add: jsonEscapeString_def)
qed



end
