(* ===== verification/PyBridgeWin.thy ===== *)
theory PyBridgeWin
  imports PyBridge "HOL-Library.Multiset"
begin

text \<open>
  The Windows side of the bridge, \<open>tokenizer/python_tokenizer.cpp\<close>: \<open>CreatePipe\<close>, \<open>CreateProcessA\<close> and the
  handles they give, with every \<open>CloseHandle\<close> in order. The protocol is the one of \<open>PyBridge\<close>. A handle is
  not \<open>0\<close> when it is valid, and a closed one is neither read nor written.
\<close>

subsection \<open>Handles\<close>

text \<open>The ends (read, write) of the two pipes, the handles (process, thread) of the child, and the child.\<close>

record win_env =
  we_pipe1 :: "(int \<times> int) option"
  we_pipe2 :: "(int \<times> int) option"
  we_process :: "(int \<times> int) option"
  we_child :: py_env

record win_tokenizer =
  win_bridge :: py_tokenizer
  win_closed :: "int list"

definition WinTokenizer :: win_tokenizer where
  "WinTokenizer = \<lparr>win_bridge = PythonTokenizer, win_closed = []\<rparr>"

definition CloseHandle :: "int \<Rightarrow> win_tokenizer \<Rightarrow> win_tokenizer" where
  "CloseHandle h st = st\<lparr>win_closed := win_closed st @ [h]\<rparr>"

abbreviation put :: "(py_tokenizer \<Rightarrow> py_tokenizer) \<Rightarrow> win_tokenizer \<Rightarrow> win_tokenizer" where
  "put f st \<equiv> st\<lparr>win_bridge := f (win_bridge st)\<rparr>"

subsection \<open>Lines\<close>

text \<open>Lines have no limit here.\<close>

fun win_read_line :: "string \<Rightarrow> string \<Rightarrow> bool \<times> string \<times> string" where
  "win_read_line line [] = (line \<noteq> [], line, [])"
| "win_read_line line (c # s) =
     (if c = CHR 0x0A then (True, line, s) else win_read_line (if c = CHR 0x0D then line else line @ [c]) s)"

definition win_readLine :: "win_tokenizer \<Rightarrow> bool \<times> string \<times> win_tokenizer" where
  "win_readLine st =
     (if stdoutRead (win_bridge st) \<in> set (win_closed st) then (False, [], st)
      else case win_read_line [] (py_output (win_bridge st)) of (ok, line, rest) \<Rightarrow> (ok, line, put (py_output_update (\<lambda>_. rest)) st))"

definition win_writeLine :: "win_env \<Rightarrow> string \<Rightarrow> win_tokenizer \<Rightarrow> bool \<times> win_tokenizer" where
  "win_writeLine env line st =
     (if stdinWrite (win_bridge st) \<notin> set (win_closed st) \<and> pe_writable (we_child env) line
      then (True, put (py_output_update (\<lambda>out. out @ pe_reply (we_child env) line)) st)
      else (False, st))"

definition win_sendAndRecv :: "win_env \<Rightarrow> string \<Rightarrow> win_tokenizer \<Rightarrow> bool \<times> string \<times> win_tokenizer" where
  "win_sendAndRecv env req st = (case win_writeLine env req st of (ok, st) \<Rightarrow> if ok then win_readLine st else (False, [], st))"

subsection \<open>Start and stop\<close>

definition win_close_stdin :: "win_env \<Rightarrow> win_tokenizer \<Rightarrow> win_tokenizer" where
  "win_close_stdin env st =
     (let h = stdinWrite (win_bridge st) in
      if h = 0 then st
      else put (stdinWrite_update (\<lambda>_. 0)) (CloseHandle h (snd (win_writeLine env (''{'' @ quoted ''cmd'' @ '':'' @ quoted ''quit'' @ ''}'') st))))"

definition win_close_stdout :: "win_tokenizer \<Rightarrow> win_tokenizer" where
  "win_close_stdout st =
     (let h = stdoutRead (win_bridge st) in if h = 0 then st else put (stdoutRead_update (\<lambda>_. 0)) (CloseHandle h st))"

definition win_close_child :: "win_tokenizer \<Rightarrow> win_tokenizer" where
  "win_close_child st =
     (let h = childProcess (win_bridge st) in if h = 0 then st else put (childProcess_update (\<lambda>_. 0)) (CloseHandle h st))"

definition win_stop :: "win_env \<Rightarrow> win_tokenizer \<Rightarrow> win_tokenizer" where
  "win_stop env st = win_close_child (win_close_stdout (win_close_stdin env st))"

fun win_await :: "nat \<Rightarrow> win_tokenizer \<Rightarrow> string option \<times> win_tokenizer" where
  "win_await 0 st = (None, st)"
| "win_await (Suc n) st =
     (case win_readLine st of (ok, line, st) \<Rightarrow>
        if \<not> ok then (None, st) else if is_ready line then (Some line, st) else win_await n st)"

definition win_connect :: "win_env \<Rightarrow> win_tokenizer \<Rightarrow> (bool \<times> win_tokenizer) option" where
  "win_connect env st =
     (case win_await 50 st of
        (None, st) \<Rightarrow> Some (False, win_stop env st)
      | (Some line, st) \<Rightarrow> do {
          vocab \<leftarrow> c_atoi (extractJsonField line ''vocab_size'');
          bos \<leftarrow> extractNested line ''bos'';
          eos \<leftarrow> extractNested line ''eos'';
          pad \<leftarrow> extractNested line ''pad'';
          Some (True, put (\<lambda>b. b\<lparr>py_vocabSize := vocab, bosId := bos, eosId := eos, padId := pad\<rparr>) st)
        })"

definition win_start :: "win_env \<Rightarrow> win_tokenizer \<Rightarrow> (bool \<times> win_tokenizer) option" where
  "win_start env st =
     (case we_pipe1 env of
        None \<Rightarrow> Some (False, st)
      | Some (stdinRead, stdinW) \<Rightarrow>
          let st = put (stdinWrite_update (\<lambda>_. stdinW)) st in
          case we_pipe2 env of
            None \<Rightarrow> Some (False, CloseHandle stdinW (CloseHandle stdinRead st))
          | Some (stdoutR, stdoutWrite) \<Rightarrow>
              let st = put (stdoutRead_update (\<lambda>_. stdoutR)) st;
                  st = CloseHandle stdoutWrite (CloseHandle stdinRead st) in
              case we_process env of
                None \<Rightarrow> Some (False, CloseHandle stdoutR (CloseHandle stdinW st))
              | Some (hProcess, hThread) \<Rightarrow>
                  win_connect env (CloseHandle hThread
                    (put (\<lambda>b. b\<lparr>childProcess := hProcess, py_output := py_output b @ pe_banner (we_child env)\<rparr>) st)))"

subsection \<open>Requests\<close>

definition win_ask_ids :: "win_env \<Rightarrow> string \<Rightarrow> win_tokenizer \<Rightarrow> int list \<times> win_tokenizer" where
  "win_ask_ids env req st = (case win_sendAndRecv env req st of (ok, resp, st) \<Rightarrow>
     (if ok then parseIntArray (extractJsonField resp ''ids'') else [], st))"

definition win_encode :: "win_env \<Rightarrow> string \<Rightarrow> bool \<Rightarrow> win_tokenizer \<Rightarrow> int list \<times> win_tokenizer" where
  "win_encode env text addSpecial = win_ask_ids env (encode_request text addSpecial)"

definition win_applyChatTemplate :: "win_env \<Rightarrow> string \<Rightarrow> bool \<Rightarrow> win_tokenizer \<Rightarrow> int list \<times> win_tokenizer" where
  "win_applyChatTemplate env messages addGenPrompt = win_ask_ids env (chat_request messages addGenPrompt)"

definition win_decode :: "win_env \<Rightarrow> int list \<Rightarrow> bool \<Rightarrow> win_tokenizer \<Rightarrow> (string \<times> win_tokenizer) option" where
  "win_decode env ids skipSpecial st =
     (case win_sendAndRecv env (decode_request ids skipSpecial) st of (ok, resp, st) \<Rightarrow>
        if ok then map_option (\<lambda>s. (s, st)) (parseJsonString (extractJsonField resp ''text'')) else Some ([], st))"

subsection \<open>Every handle is closed\<close>

text \<open>The handles a tokenizer still holds, and all that were or will be closed.\<close>

definition held :: "win_tokenizer \<Rightarrow> int multiset" where
  "held st = filter_mset (\<lambda>h. h \<noteq> 0) {# stdinWrite (win_bridge st), stdoutRead (win_bridge st), childProcess (win_bridge st) #}"

definition handles :: "win_tokenizer \<Rightarrow> int multiset" where
  "handles st = mset (win_closed st) + held st"

lemma win_writeLine_handles: "held (snd (win_writeLine env l st)) = held st \<and> win_closed (snd (win_writeLine env l st)) = win_closed st"
  by (simp add: win_writeLine_def held_def)

lemma win_readLine_handles: "win_readLine st = (ok, l, st') \<Longrightarrow> held st' = held st \<and> win_closed st' = win_closed st"
  by (auto simp: win_readLine_def held_def split: if_splits prod.splits)

lemma win_await_handles: "win_await n st = (r, st') \<Longrightarrow> held st' = held st \<and> win_closed st' = win_closed st"
proof (induction n st arbitrary: r st' rule: win_await.induct)
  case (2 n st)
  obtain ok l s where read: "win_readLine st = (ok, l, s)" by (metis prod_cases3)
  then have "held s = held st \<and> win_closed s = win_closed st" by (rule win_readLine_handles)
  then show ?case using 2 read by (fastforce split: if_splits)
qed simp

lemma win_stop_closes: "mset (win_closed (win_stop env st)) = handles st \<and> held (win_stop env st) = {#}"
proof -
  let ?a = "win_close_stdin env st"
  have a: "handles ?a = handles st" "stdinWrite (win_bridge ?a) = 0"
    by (simp_all add: win_close_stdin_def Let_def handles_def held_def CloseHandle_def win_writeLine_def)
  have b: "handles (win_close_stdout ?a) = handles ?a" "stdinWrite (win_bridge (win_close_stdout ?a)) = 0" "stdoutRead (win_bridge (win_close_stdout ?a)) = 0"
    using a(2) by (simp_all add: win_close_stdout_def Let_def handles_def held_def CloseHandle_def)
  have c: "handles (win_stop env st) = handles (win_close_stdout ?a)" "held (win_stop env st) = {#}"
    using b(2,3) by (simp_all add: win_stop_def win_close_child_def Let_def handles_def held_def CloseHandle_def)
  show ?thesis using a b c by (simp add: handles_def)
qed

lemma win_connect_handles: "win_connect env st = Some (ok, st') \<Longrightarrow> handles st' = handles st"
proof -
  assume r: "win_connect env st = Some (ok, st')"
  obtain l s where aw: "win_await 50 st = (l, s)" by fastforce
  have s: "handles s = handles st" using win_await_handles [OF aw] by (simp add: handles_def)
  show ?thesis
  proof (cases l)
    case None
    then show ?thesis using r aw s win_stop_closes [of env s] by (auto simp: win_connect_def handles_def)
  next
    case (Some line)
    then have "handles st' = handles s" using r aw by (auto simp: win_connect_def handles_def held_def bind_eq_Some_conv)
    then show ?thesis using s by simp
  qed
qed

text \<open>
  C40. The handles of the Windows bridge: once the process has come up, starting and then destroying the
  tokenizer closes each of the six handles exactly once, whether the ready signal came or \<open>start\<close> gave up and
  stopped by itself. When \<open>CreateProcessA\<close> fails, \<open>start\<close> closes the two pipe ends it keeps without
  forgetting them, and the destructor closes both a second time.
\<close>

theorem win_handles_closed:
  assumes "we_pipe1 env = Some (inR, inW)" "we_pipe2 env = Some (outR, outW)" "0 \<notin> {inW, outR}"
    and "win_start env WinTokenizer = Some (ok, st)"
  shows "mset (win_closed (win_stop env st)) =
    (case we_process env of
       Some (hProcess, hThread) \<Rightarrow> {#inR, outW, hThread, inW, outR#} + filter_mset (\<lambda>h. h \<noteq> 0) {#hProcess#}
     | None \<Rightarrow> {#inR, outW, inW, outR#} + {#inW, outR#})"
proof (cases "we_process env")
  case None
  then show ?thesis
    using assms win_stop_closes [of env st]
    by (auto simp: win_start_def handles_def held_def CloseHandle_def WinTokenizer_def PythonTokenizer_def)
next
  case (Some ph)
  obtain hProcess hThread where ph: "ph = (hProcess, hThread)" by fastforce
  have "handles st = {#inR, outW, hThread, inW, outR#} + filter_mset (\<lambda>h. h \<noteq> 0) {#hProcess#}"
    using assms Some ph
    by (auto simp: win_start_def handles_def held_def CloseHandle_def WinTokenizer_def PythonTokenizer_def dest!: win_connect_handles)
  then show ?thesis using win_stop_closes [of env st] Some ph by simp
qed

theorem win_handles_closed_witness:
  "let env = \<lparr>we_pipe1 = Some (3, 4), we_pipe2 = Some (5, 6), we_process = None,
              we_child = \<lparr>pe_pipes = True, pe_fork = 0, pe_write = 0, pe_read = 0, pe_banner = [], pe_reply = (\<lambda>_. []), pe_writable = (\<lambda>_. True)\<rparr>\<rparr>;
       st = snd (the (win_start env WinTokenizer)) in
   mset (win_closed (win_stop env st)) = {#3, 6, 4, 5, 4, 5#}"
proof -
  let ?env = "\<lparr>we_pipe1 = Some (3, 4), we_pipe2 = Some (5, 6), we_process = None,
              we_child = \<lparr>pe_pipes = True, pe_fork = 0, pe_write = 0, pe_read = 0, pe_banner = [], pe_reply = (\<lambda>_. []), pe_writable = (\<lambda>_. True)\<rparr>\<rparr>"
  obtain st where r: "win_start ?env WinTokenizer = Some (False, st)" by (simp add: win_start_def)
  then show ?thesis using win_handles_closed [of ?env 3 4 5 6 False st] by simp
qed

end
