(* ===== verification/HostProbe.thy ===== *)
theory HostProbe
  imports RuntimeConfig "HOL-Library.Monad_Syntax"
begin

unbundle bit_operations_syntax

text \<open>
  The host probes of \<open>runtime/runtime_config.cpp\<close>. What the operating system and the CUDA runtime answer
  is a record; the three platforms are its \<open>h_os\<close>. \<^const>\<open>None\<close> is a read outside a buffer.
\<close>

subsection \<open>What the host answers\<close>

text \<open>
  \<open>h_version\<close> is \<open>RtlGetVersion\<close>, \<open>h_memory\<close> \<open>GlobalMemoryStatusEx\<close>, \<open>h_processors\<close> \<open>GetSystemInfo\<close>;
  \<open>h_coreBytes\<close> and \<open>h_coreInfo\<close> are the two calls of \<open>GetLogicalProcessorInformationEx\<close>: the length it asks
  for, and the bytes and length it then leaves (\<^const>\<open>None\<close> when it fails). \<open>h_infoSize\<close> is the size of
  \<open>SYSTEM_LOGICAL_PROCESSOR_INFORMATION_EX\<close>. \<open>h_string\<close>, \<open>h_u64\<close> and \<open>h_int\<close> are \<open>sysctlbyname\<close>, the rest is
  \<open>sysconf\<close>, the standard library and the CUDA runtime (device count, then name and memory of device 0).
\<close>

record host =
  h_os :: PlatformOS
  h_version :: "(int \<times> int \<times> int) option"
  h_memory :: "u64 option"
  h_processors :: u32
  h_infoSize :: nat
  h_coreBytes :: u32
  h_coreInfo :: "(bytes \<times> u32) option"
  h_string :: "string \<Rightarrow> string option"
  h_u64 :: "string \<Rightarrow> u64 option"
  h_int :: "string \<Rightarrow> u32 option"
  h_concurrency :: u32
  h_pages :: int
  h_pageSize :: int
  h_online :: int
  h_cuda :: "int option"
  h_device :: "(string option \<times> u64) option"

definition winVersionInfo :: "host \<Rightarrow> int \<times> int \<times> int" where
  "winVersionInfo h = (case h_version h of None \<Rightarrow> (0, 0, 0) | Some v \<Rightarrow> v)"

definition macSysctlString :: "host \<Rightarrow> string \<Rightarrow> string" where
  "macSysctlString h name = (case h_string h name of None \<Rightarrow> [] | Some s \<Rightarrow> s)"

definition macSysctlU64 :: "host \<Rightarrow> string \<Rightarrow> u64" where
  "macSysctlU64 h name = (case h_u64 h name of None \<Rightarrow> 0 | Some v \<Rightarrow> v)"

definition macSysctlInt :: "host \<Rightarrow> string \<Rightarrow> int" where
  "macSysctlInt h name = (case h_int h name of None \<Rightarrow> 0 | Some v \<Rightarrow> sint v)"

definition macIsAppleSilicon :: "host \<Rightarrow> bool" where
  "macIsAppleSilicon h \<longleftrightarrow> h_int h ''hw.optional.arm64'' = Some 1"

definition totalRamBytes :: "host \<Rightarrow> u64" where
  "totalRamBytes h = (case h_os h of
     Windows \<Rightarrow> (case h_memory h of None \<Rightarrow> 0 | Some n \<Rightarrow> n)
   | macOS \<Rightarrow> macSysctlU64 h ''hw.memsize''
   | Linux \<Rightarrow> if 0 < h_pages h \<and> 0 < h_pageSize h then word_of_int (h_pages h) * word_of_int (h_pageSize h) else 0)"

definition logicalThreads :: "host \<Rightarrow> int" where
  "logicalThreads h = (case h_os h of
     Windows \<Rightarrow> sint (h_processors h)
   | macOS \<Rightarrow> (let n = macSysctlInt h ''hw.logicalcpu'' in if 0 < n then n else sint (h_concurrency h))
   | Linux \<Rightarrow> if 0 < h_online h then sint (word_of_int (h_online h) :: u32) else 1)"

subsection \<open>Physical cores\<close>

definition dword :: "bytes \<Rightarrow> nat \<Rightarrow> u32 option" where
  "dword raw off =
     (if length raw < off + 4 then None
      else Some (ucast (raw ! off) OR push_bit 8 (ucast (raw ! (off + 1))) OR push_bit 16 (ucast (raw ! (off + 2))) OR
                 push_bit 24 (ucast (raw ! (off + 3)))))"

text \<open>The walk over the records: \<open>Relationship\<close>, \<open>Size\<close>; a processor core is relationship \<open>0\<close>.\<close>

function cores_loop :: "nat \<Rightarrow> bytes \<Rightarrow> u32 \<Rightarrow> u32 \<Rightarrow> nat \<Rightarrow> nat option" where
  "cores_loop infoSize raw bufLen off cores =
     (if unat bufLen < unat off + infoSize then Some cores
      else case dword raw (unat off + 4) of
        None \<Rightarrow> None
      | Some recSize \<Rightarrow>
          if unat recSize < infoSize then Some cores
          else case dword raw (unat off) of
            None \<Rightarrow> None
          | Some relation \<Rightarrow>
              let cores = (if relation = 0 then cores + 1 else cores) in
              if off + recSize \<le> off then Some cores else cores_loop infoSize raw bufLen (off + recSize) cores)"
  by pat_completeness auto

termination
proof (relation "measure (\<lambda>(infoSize, raw, bufLen, off, cores). 2 ^ 32 - unat off)")
  fix infoSize :: nat and raw and bufLen off recSize :: u32 and relation :: u32 and cores x :: nat
  assume "\<not> off + recSize \<le> off"
  then have "unat off < unat (off + recSize)" by (simp add: word_le_nat_alt)
  moreover have "unat (off + recSize) < 2 ^ 32" using unsigned_less [of "off + recSize", where ?'a = nat] by simp
  ultimately show "((infoSize, raw, bufLen, off + recSize, x), infoSize, raw, bufLen, off, cores) \<in>
      measure (\<lambda>(infoSize, raw, bufLen, off, cores). 2 ^ 32 - unat off)" by simp
qed simp

declare cores_loop.simps [simp del]

definition physicalCores :: "host \<Rightarrow> int option" where
  "physicalCores h = (case h_os h of
     Windows \<Rightarrow>
       if unat (h_coreBytes h) < h_infoSize h \<or> 2 ^ 20 < h_coreBytes h then Some 0
       else (case h_coreInfo h of
         None \<Rightarrow> Some 0
       | Some (raw, bufLen) \<Rightarrow> map_option int (cores_loop (h_infoSize h) raw bufLen 0 0))
   | macOS \<Rightarrow> Some (macSysctlInt h ''hw.physicalcpu'')
   | Linux \<Rightarrow> Some 0)"

subsection \<open>The profile\<close>

definition GpuProfile :: gpu_profile where
  "GpuProfile = \<lparr>gpu_backend = GpuNone, gpu_name = [], gpu_memoryBytes = 0\<rparr>"

definition probeGpu :: "host \<Rightarrow> gpu_profile" where
  "probeGpu h =
     (let other = (if h_os h = macOS \<and> macIsAppleSilicon h
            then \<lparr>gpu_backend = GpuMps,
                  gpu_name = (let n = macSysctlString h ''machdep.cpu.brand_string'' in if n = [] then ''Apple Silicon (MPS)'' else n),
                  gpu_memoryBytes = totalRamBytes h\<rparr>
            else GpuProfile) in
      case h_cuda h of
        Some count \<Rightarrow>
          if 0 < count then (case h_device h of
              Some (name, mem) \<Rightarrow>
                \<lparr>gpu_backend = GpuCuda, gpu_name = (case name of None \<Rightarrow> ''NVIDIA CUDA device'' | Some n \<Rightarrow> n), gpu_memoryBytes = mem\<rparr>
            | None \<Rightarrow> other)
          else other
      | None \<Rightarrow> other)"

definition os_label :: "host \<Rightarrow> string" where
  "os_label h = (case h_os h of
     Windows \<Rightarrow> (case winVersionInfo h of (major, _, build) \<Rightarrow>
        ''Windows '' @ (if 10 \<le> major then ''10/11 (build '' else ''(build '') @ int_string build @ '')'')
   | macOS \<Rightarrow> ''macOS '' @ macSysctlString h ''kern.osproductversion'' @ (if macIsAppleSilicon h then '' (Apple Silicon)'' else '' (Intel)'')
   | Linux \<Rightarrow> ''Linux'')"

definition detectSystemProfile :: "host \<Rightarrow> system_profile option" where
  "detectSystemProfile h = do {
     let threads = max 1 (logicalThreads h);
     cores \<leftarrow> physicalCores h;
     Some \<lparr>sp_os = h_os h, sp_osLabel = os_label h, sp_ramBytes = totalRamBytes h,
           sp_physicalCores = (if cores \<le> 0 then threads else cores), sp_logicalThreads = threads, sp_gpu = probeGpu h\<rparr>
   }"

subsection \<open>The walk stays inside its buffer\<close>

lemma dword_inside: "off + 4 \<le> length raw \<Longrightarrow> \<exists>v. dword raw off = Some v"
  by (simp add: dword_def)

lemma cores_loop_bounds:
  "unat bufLen \<le> length raw \<Longrightarrow> 8 \<le> infoSize \<Longrightarrow> cores * infoSize \<le> unat off \<Longrightarrow>
   \<exists>n. cores_loop infoSize raw bufLen off cores = Some n \<and> (n = cores \<or> n * infoSize \<le> unat bufLen)"
proof (induction infoSize raw bufLen off cores rule: cores_loop.induct)
  case (1 infoSize raw bufLen off cores)
  show ?case
  proof (cases "unat bufLen < unat off + infoSize")
    case True
    then show ?thesis by (subst cores_loop.simps) simp
  next
    case False
    obtain recSize where recSize: "dword raw (unat off + 4) = Some recSize" using dword_inside [of "unat off + 4" raw] 1(2,3) False by auto
    obtain relation where relation: "dword raw (unat off) = Some relation" using dword_inside [of "unat off" raw] 1(2,3) False by auto
    let ?c = "if relation = 0 then cores + 1 else cores"
    have c: "?c * infoSize \<le> unat off + infoSize" "?c = cores \<or> ?c * infoSize \<le> unat bufLen" using 1(4) False by auto
    have step: "cores_loop infoSize raw bufLen off cores =
        (if unat recSize < infoSize then Some cores
         else if off + recSize \<le> off then Some ?c else cores_loop infoSize raw bufLen (off + recSize) ?c)"
      using False by (subst cores_loop.simps) (simp add: recSize relation Let_def)
    show ?thesis
    proof (cases "unat recSize < infoSize \<or> off + recSize \<le> off")
      case True
      then show ?thesis using c(2) unfolding step by auto
    next
      case on: False
      then have "off \<le> off + recSize" by (meson nle_le)
      then have "unat (off + recSize) = unat off + unat recSize" by (simp add: unat_plus_simple)
      then have "?c * infoSize \<le> unat (off + recSize)" using c(1) on by linarith
      then obtain n where "cores_loop infoSize raw bufLen (off + recSize) ?c = Some n" "n = ?c \<or> n * infoSize \<le> unat bufLen"
        using 1(1) [OF False recSize _ relation refl] 1(2,3) on by auto
      then show ?thesis using c(2) on unfolding step by auto
    qed
  qed
qed

lemma host_probe:
  assumes "\<And>raw bufLen. h_coreInfo h = Some (raw, bufLen) \<Longrightarrow> unat bufLen \<le> length raw" "8 \<le> h_infoSize h"
  shows "\<exists>p. detectSystemProfile h = Some p \<and> 1 \<le> sp_logicalThreads p \<and> 1 \<le> sp_physicalCores p \<and>
    (h_os h = Linux \<longrightarrow> sp_physicalCores p = sp_logicalThreads p) \<and>
    (h_os h = Windows \<longrightarrow> sp_physicalCores p = sp_logicalThreads p \<or>
      (\<exists>raw bufLen. h_coreInfo h = Some (raw, bufLen) \<and> nat (sp_physicalCores p) * h_infoSize h \<le> length raw))"
proof -
  have cores: "\<exists>n. physicalCores h = Some n \<and> (h_os h = Linux \<longrightarrow> n = 0) \<and> (h_os h = Windows \<longrightarrow> n = 0 \<or>
      (\<exists>raw bufLen. h_coreInfo h = Some (raw, bufLen) \<and> nat n * h_infoSize h \<le> length raw))"
  proof (cases "h_os h = Windows \<and> \<not> (unat (h_coreBytes h) < h_infoSize h \<or> 2 ^ 20 < h_coreBytes h) \<and> h_coreInfo h \<noteq> None")
    case True
    then obtain raw bufLen where info: "h_coreInfo h = Some (raw, bufLen)" by auto
    obtain n where "cores_loop (h_infoSize h) raw bufLen 0 0 = Some n" "n = 0 \<or> n * h_infoSize h \<le> unat bufLen"
      using cores_loop_bounds [of bufLen raw "h_infoSize h" 0 0] assms info by auto
    then show ?thesis using True info assms(1) [OF info] by (auto simp: physicalCores_def)
  next
    case False
    then show ?thesis by (cases "h_os h") (auto simp: physicalCores_def split: option.splits)
  qed
  then show ?thesis by (auto simp: detectSystemProfile_def Let_def)
qed


text \<open>A Windows host with two cores, whose records take the 48 bytes a processor core needs.\<close>

definition win_record :: bytes where
  "win_record = [0, 0, 0, 0, 48, 0, 0, 0] @ replicate 40 0"

definition win_host :: host where
  "win_host = \<lparr>h_os = Windows, h_version = Some (10, 0, 19044), h_memory = Some 1000, h_processors = 4, h_infoSize = 48, h_coreBytes = 96,
     h_coreInfo = Some (win_record @ win_record, 96), h_string = (\<lambda>_. None), h_u64 = (\<lambda>_. None), h_int = (\<lambda>_. None), h_concurrency = 0,
     h_pages = 0, h_pageSize = 0, h_online = 0, h_cuda = None, h_device = None\<rparr>"


text \<open>
  The walk compares the size of each record with the size of the whole structure, whose union also holds
  the larger kinds of record: when the first record is shorter, as the one of a processor core is, it stops
  there, and the logical threads are taken for cores.
\<close>

lemma short_record_stops:
  assumes "h_os h = Windows" "h_coreInfo h = Some (raw, bufLen)" "dword raw 4 = Some recSize" "unat recSize < h_infoSize h"
    and "detectSystemProfile h = Some p"
  shows "sp_physicalCores p = sp_logicalThreads p"
proof -
  have "cores_loop (h_infoSize h) raw bufLen 0 0 = Some 0"
    using assms(3,4) by (subst cores_loop.simps) simp
  then have "physicalCores h = Some 0" using assms(1,2) by (simp add: physicalCores_def)
  then show ?thesis using assms(5) by (auto simp: detectSystemProfile_def Let_def)
qed

lemma host_probe_total: "\<exists>p. detectSystemProfile win_host = Some p"
  using host_probe [of win_host] by (fastforce simp: win_host_def win_record_def)

end
