(* ===== verification/CliArgs.thy ===== *)
theory CliArgs
  imports Float32 PyBridge RuntimeConfig WeightIndex
begin

text \<open>
  The command line of \<open>main.cpp\<close>: the settings, \<open>parseArgs\<close>, and the decisions \<open>main\<close> takes on them before
  anything is loaded. \<open>argv[0]\<close> is left out. \<open>static_cast<float>(std::atof(v))\<close> is a parameter; \<^const>\<open>None\<close> is the
  undefined overflow of \<open>atoi\<close>. Usage and warnings are only printed.
\<close>

subsection \<open>Settings\<close>

record args =
  ar_modelDir :: string
  ar_prompt :: string
  ar_rawEncode :: bool
  ar_promptTokens :: "int list"
  ar_maxTokens :: int
  ar_temperature :: f32
  ar_topP :: f32
  ar_topK :: int
  ar_minP :: f32
  ar_typicalP :: f32
  ar_repetitionPenalty :: f32
  ar_frequencyPenalty :: f32
  ar_presencePenalty :: f32
  ar_routerPrefetchExtra :: int
  ar_probPriority :: bool
  ar_emaPredictor :: bool
  ar_emaAlpha :: f32
  ar_mtp :: bool
  ar_seed :: u32
  ar_useSeed :: bool
  ar_pythonExe :: string
  ar_scriptPath :: string
  ar_nativeTokenizer :: bool
  ar_dumpTokens :: string
  ar_useGpu :: bool
  ar_gpuRequest :: BackendRequest
  ar_gpuExpertCapacity :: int
  ar_gpuExpertDepth :: int
  ar_verbose :: bool
  ar_showVersion :: bool
  ar_selfTest :: bool
  ar_checkWeights :: bool
  ar_cudaSelfTest :: bool

definition default_args :: args where
  "default_args = \<lparr>ar_modelDir = [], ar_prompt = [], ar_rawEncode = False, ar_promptTokens = [], ar_maxTokens = - 1,
     ar_temperature = f32_zero, ar_topP = f32_one, ar_topK = 0, ar_minP = f32_zero, ar_typicalP = f32_zero,
     ar_repetitionPenalty = f32_zero, ar_frequencyPenalty = f32_zero, ar_presencePenalty = f32_zero,
     ar_routerPrefetchExtra = 0, ar_probPriority = False, ar_emaPredictor = False, ar_emaAlpha = 0x3DCCCCCD,
     ar_mtp = False, ar_seed = 0, ar_useSeed = False, ar_pythonExe = ''python'', ar_scriptPath = [],
     ar_nativeTokenizer = False, ar_dumpTokens = [], ar_useGpu = True, ar_gpuRequest = ReqAuto,
     ar_gpuExpertCapacity = 0, ar_gpuExpertDepth = 2, ar_verbose = False, ar_showVersion = False,
     ar_selfTest = False, ar_checkWeights = False, ar_cudaSelfTest = False\<rparr>"

subsection \<open>Options\<close>

text \<open>Token ids separated by commas or spaces: the item so far, and the rest.\<close>

fun split_ids :: "string \<Rightarrow> string \<Rightarrow> int list option" where
  "split_ids cur [] = (if cur = [] then Some [] else map_option (\<lambda>i. [i]) (c_atoi cur))"
| "split_ids cur (c # s) =
     (if c = CHR '','' \<or> c = CHR '' ''
      then if cur = [] then split_ids [] s
           else do { i \<leftarrow> c_atoi cur; more \<leftarrow> split_ids [] s; Some (i # more) }
      else split_ids (cur @ [c]) s)"

text \<open>Options without a value, with a text, with a float, with an integer.\<close>

definition set_flag :: "string \<Rightarrow> args \<Rightarrow> args option" where
  "set_flag a args =
     (if a = ''--raw'' then Some (args\<lparr>ar_rawEncode := True\<rparr>)
      else if a = ''--prob-resident'' then Some (args\<lparr>ar_probPriority := True\<rparr>)
      else if a = ''--mtp'' then Some (args\<lparr>ar_mtp := True\<rparr>)
      else if a = ''--no-gpu'' then Some (args\<lparr>ar_useGpu := False\<rparr>)
      else if a = ''--verbose'' then Some (args\<lparr>ar_verbose := True\<rparr>)
      else if a = ''--version'' then Some (args\<lparr>ar_showVersion := True\<rparr>)
      else if a = ''--self-test'' then Some (args\<lparr>ar_selfTest := True\<rparr>)
      else if a = ''--cuda-self-test'' then Some (args\<lparr>ar_cudaSelfTest := True\<rparr>)
      else if a = ''--check-weights'' then Some (args\<lparr>ar_checkWeights := True\<rparr>)
      else None)"

definition set_text :: "string \<Rightarrow> string \<Rightarrow> args \<Rightarrow> args option" where
  "set_text a v args =
     (if a = ''--model'' then Some (args\<lparr>ar_modelDir := v\<rparr>)
      else if a = ''--prompt'' then Some (args\<lparr>ar_prompt := v\<rparr>)
      else if a = ''--python'' then Some (args\<lparr>ar_pythonExe := v\<rparr>)
      else if a = ''--script'' then Some (args\<lparr>ar_scriptPath := v\<rparr>)
      else if a = ''--dump-tokens'' then Some (args\<lparr>ar_dumpTokens := v\<rparr>)
      else if a = ''--predictor'' then Some (args\<lparr>ar_emaPredictor := (v = ''ema'')\<rparr>)
      else None)"

definition set_float :: "(string \<Rightarrow> f32) \<Rightarrow> string \<Rightarrow> string \<Rightarrow> args \<Rightarrow> args option" where
  "set_float to_float a v args =
     (if a = ''--temperature'' then Some (args\<lparr>ar_temperature := to_float v\<rparr>)
      else if a = ''--top-p'' then Some (args\<lparr>ar_topP := to_float v\<rparr>)
      else if a = ''--min-p'' then Some (args\<lparr>ar_minP := to_float v\<rparr>)
      else if a = ''--typical-p'' then Some (args\<lparr>ar_typicalP := to_float v\<rparr>)
      else if a = ''--repetition-penalty'' then Some (args\<lparr>ar_repetitionPenalty := to_float v\<rparr>)
      else if a = ''--frequency-penalty'' then Some (args\<lparr>ar_frequencyPenalty := to_float v\<rparr>)
      else if a = ''--presence-penalty'' then Some (args\<lparr>ar_presencePenalty := to_float v\<rparr>)
      else if a = ''--ema-alpha'' then Some (args\<lparr>ar_emaAlpha := to_float v\<rparr>)
      else None)"

definition set_int :: "string \<Rightarrow> int \<Rightarrow> args \<Rightarrow> args option" where
  "set_int a n args =
     (if a = ''--max-tokens'' then Some (args\<lparr>ar_maxTokens := n\<rparr>)
      else if a = ''--top-k'' then Some (args\<lparr>ar_topK := n\<rparr>)
      else if a = ''--router-prefetch'' then Some (args\<lparr>ar_routerPrefetchExtra := n\<rparr>)
      else if a = ''--seed'' then Some (args\<lparr>ar_seed := word_of_int n, ar_useSeed := True\<rparr>)
      else if a = ''--gpu-experts'' then Some (args\<lparr>ar_gpuExpertCapacity := (if 0 < n then n else 0)\<rparr>)
      else if a = ''--gpu-expert-depth'' then Some (args\<lparr>ar_gpuExpertDepth := (if 1 \<le> n then n else 1)\<rparr>)
      else None)"

definition int_option :: "string \<Rightarrow> bool" where
  "int_option a \<longleftrightarrow> a \<in> {''--max-tokens'', ''--top-k'', ''--router-prefetch'', ''--seed'', ''--gpu-experts'', ''--gpu-expert-depth''}"

definition gpu_names :: "(string \<times> BackendRequest) list" where
  "gpu_names = [(''auto'', ReqAuto), (''cpu'', ReqCpu), (''cpu-only'', ReqCpu), (''cuda'', ReqCuda), (''mps'', ReqMps)]"

text \<open>An option with its value: not one of the program's, refused, or carried out.\<close>

datatype option_result = Unknown | Refused | Changed args

definition set_value :: "(string \<Rightarrow> f32) \<Rightarrow> string \<Rightarrow> string \<Rightarrow> args \<Rightarrow> option_result option" where
  "set_value to_float a v args =
     (case set_text a v args of Some args \<Rightarrow> Some (Changed args)
      | None \<Rightarrow> (case set_float to_float a v args of Some args \<Rightarrow> Some (Changed args)
      | None \<Rightarrow>
          if int_option a then do { n \<leftarrow> c_atoi v; args \<leftarrow> set_int a n args; Some (Changed args) }
          else if a = ''--prompt-tokens'' then do { ids \<leftarrow> split_ids [] v; Some (Changed (args\<lparr>ar_promptTokens := ar_promptTokens args @ ids\<rparr>)) }
          else if a = ''--tokenizer'' then
            Some (if v = ''native'' then Changed (args\<lparr>ar_nativeTokenizer := True\<rparr>)
                  else if v = ''python'' then Changed (args\<lparr>ar_nativeTokenizer := False\<rparr>)
                  else Refused)
          else if a = ''--gpu'' then
            Some (case map_of gpu_names v of Some r \<Rightarrow> Changed (args\<lparr>ar_gpuRequest := r\<rparr>) | None \<Rightarrow> Changed args)
          else Some Unknown))"

text \<open>An option that needs a value and is last, and any other text, is passed over with a warning.\<close>

function parse_loop :: "(string \<Rightarrow> f32) \<Rightarrow> string list \<Rightarrow> args \<Rightarrow> (bool \<times> args) option" where
  "parse_loop to_float [] args = Some (True, args)"
| "parse_loop to_float (a # rest) args =
     (if a = ''--help'' \<or> a = ''-h'' then Some (False, args)
      else case set_flag a args of
        Some args \<Rightarrow> parse_loop to_float rest args
      | None \<Rightarrow>
          if rest = [] then Some (True, args)
          else case set_value to_float a (hd rest) args of
            None \<Rightarrow> None
          | Some Unknown \<Rightarrow> parse_loop to_float rest args
          | Some Refused \<Rightarrow> Some (False, args)
          | Some (Changed args) \<Rightarrow> parse_loop to_float (tl rest) args)"
  by pat_completeness auto

termination
  by (relation "measure (\<lambda>(f, argv, args). length argv)") auto

declare parse_loop.simps [simp del]

definition needs_no_model :: "args \<Rightarrow> bool" where
  "needs_no_model args \<longleftrightarrow> ar_showVersion args \<or> ar_selfTest args \<or> ar_cudaSelfTest args \<or> ar_checkWeights args"

definition parseArgs :: "(string \<Rightarrow> f32) \<Rightarrow> string list \<Rightarrow> args \<Rightarrow> (bool \<times> args) option" where
  "parseArgs to_float argv args = do {
     (ok, args) \<leftarrow> parse_loop to_float argv args;
     Some (ok \<and> (needs_no_model args \<or> ar_modelDir args \<noteq> []), args)
   }"

subsection \<open>Decisions of main\<close>

text \<open>Options before the environment, the environment before detection.\<close>

definition merge_overrides :: "args \<Rightarrow> runtime_overrides \<Rightarrow> runtime_overrides" where
  "merge_overrides args ov =
     (if \<not> ar_useGpu args then ov\<lparr>gpuSet := True, RuntimeConfig.gpuRequest := ReqCpu\<rparr>
      else if ar_gpuRequest args \<noteq> ReqAuto then ov\<lparr>gpuSet := True, RuntimeConfig.gpuRequest := ar_gpuRequest args\<rparr>
      else ov)"

text \<open>\<open>--mtp\<close>: each of the three ways through it refuses to start.\<close>

datatype mtp_answer = MtpOff | MtpNotDeclared | MtpNoTensors | MtpUnverified

definition mtp_gate :: "args \<Rightarrow> weight_index \<Rightarrow> mtp_answer" where
  "mtp_gate args w =
     (if \<not> ar_mtp args then MtpOff
      else if numMtpModules (wi_config w) \<le> 0 then MtpNotDeclared
      else if \<not> hasMtpTensors w then MtpNoTensors
      else MtpUnverified)"

definition python_exe :: "args \<Rightarrow> env \<Rightarrow> string" where
  "python_exe args getenv =
     (if ar_promptTokens args = [] \<and> getenv ''GLM_PYTHON'' \<notin> {None, Some []} then the (getenv ''GLM_PYTHON'') else ar_pythonExe args)"

text \<open>The tokenizer script; the paths that exist with their canonical form, the directories of the program and of the process.\<close>

definition script_path :: "args \<Rightarrow> (string \<Rightarrow> string option) \<Rightarrow> string \<Rightarrow> string \<Rightarrow> string" where
  "script_path args canonical exeDir cwd =
     (let tail = ''/tools/tokenizer_server.py'';
          candidates = (if ar_scriptPath args = [] then [] else [ar_scriptPath args]) in
      if ar_promptTokens args \<noteq> [] then []
      else case List.find (\<lambda>path. canonical path \<noteq> None) candidates of
        Some path \<Rightarrow> the (canonical path)
      | None \<Rightarrow> (case List.find (\<lambda>path. canonical path \<noteq> None)
            [exeDir @ ''/../..'' @ tail, exeDir @ ''/..'' @ tail, exeDir @ tail, cwd @ tail] of
          Some path \<Rightarrow> the (canonical path)
        | None \<Rightarrow> cwd @ tail))"

subsection \<open>Numbers survive being printed\<close>

lemma c_atoi_int_string:
  assumes "- (2 ^ 31) \<le> i" "i < 2 ^ 31"
  shows "c_atoi (int_string i) = Some i"
proof -
  have digits: "takeWhile is_digit (to_string n) = to_string n" for n by (rule takeWhile_digits [OF to_string_digits])
  have "c_strto (int_string i) = i"
    by (simp add: int_string_def c_strto_to_string) (simp add: c_strto_def is_space_def chr_code_def digits)
  then show ?thesis using assms by (simp add: c_atoi_def Let_def)
qed

lemma int_string_plain: "c \<in> set (int_string i) \<Longrightarrow> c \<noteq> CHR '','' \<and> c \<noteq> CHR '' ''"
  using number_chars [of c] by (auto simp: int_string_def split: if_splits)

lemma int_string_nonempty: "int_string i \<noteq> []"
  by (simp add: int_string_def)

lemma split_ids_item:
  "(\<And>c. c \<in> set l \<Longrightarrow> c \<noteq> CHR '','' \<and> c \<noteq> CHR '' '') \<Longrightarrow> split_ids cur (l @ s) = split_ids (cur @ l) s"
  by (induction l arbitrary: cur) auto

definition token_csv :: "int list \<Rightarrow> string" where
  "token_csv ids = join '','' (map int_string ids)"

lemma split_token_csv:
  "(\<And>i. i \<in> set ids \<Longrightarrow> - (2 ^ 31) \<le> i \<and> i < 2 ^ 31) \<Longrightarrow> split_ids [] (token_csv ids) = Some ids"
proof (induction ids)
  case (Cons i ids)
  have i: "c_atoi (int_string i) = Some i" using Cons.prems [of i] by (intro c_atoi_int_string) simp_all
  show ?case
  proof (cases ids)
    case Nil
    then show ?thesis using split_ids_item [of "int_string i" "[]" "[]"] int_string_plain i int_string_nonempty by (simp add: token_csv_def)
  next
    case (Cons j js)
    then have "token_csv (i # ids) = int_string i @ CHR '','' # token_csv ids" by (simp add: token_csv_def)
    then show ?thesis
      using split_ids_item [of "int_string i" "[]" "CHR '','' # token_csv ids"] int_string_plain i int_string_nonempty Cons.IH Cons.prems by simp
  qed
qed (simp add: token_csv_def)

subsection \<open>A command line for every settings record\<close>

definition float_settings :: "args \<Rightarrow> f32 list" where
  "float_settings a = [ar_temperature a, ar_topP a, ar_minP a, ar_typicalP a, ar_repetitionPenalty a, ar_frequencyPenalty a,
     ar_presencePenalty a, ar_emaAlpha a]"

definition opt_flag :: "string \<Rightarrow> bool \<Rightarrow> string list" where
  "opt_flag name b = (if b then [name] else [])"

definition gpu_name_of :: "BackendRequest \<Rightarrow> string" where
  "gpu_name_of r = (case r of ReqAuto \<Rightarrow> ''auto'' | ReqCpu \<Rightarrow> ''cpu'' | ReqCuda \<Rightarrow> ''cuda'' | ReqMps \<Rightarrow> ''mps'')"

definition show_args :: "(f32 \<Rightarrow> string) \<Rightarrow> args \<Rightarrow> string list" where
  "show_args show_float a =
     [''--model'', ar_modelDir a, ''--prompt'', ar_prompt a, ''--prompt-tokens'', token_csv (ar_promptTokens a),
      ''--max-tokens'', int_string (ar_maxTokens a), ''--temperature'', show_float (ar_temperature a),
      ''--top-p'', show_float (ar_topP a), ''--top-k'', int_string (ar_topK a), ''--min-p'', show_float (ar_minP a),
      ''--typical-p'', show_float (ar_typicalP a), ''--repetition-penalty'', show_float (ar_repetitionPenalty a),
      ''--frequency-penalty'', show_float (ar_frequencyPenalty a), ''--presence-penalty'', show_float (ar_presencePenalty a),
      ''--router-prefetch'', int_string (ar_routerPrefetchExtra a), ''--predictor'', (if ar_emaPredictor a then ''ema'' else ''reuse''),
      ''--ema-alpha'', show_float (ar_emaAlpha a), ''--python'', ar_pythonExe a, ''--script'', ar_scriptPath a,
      ''--tokenizer'', (if ar_nativeTokenizer a then ''native'' else ''python''), ''--dump-tokens'', ar_dumpTokens a,
      ''--gpu'', gpu_name_of (ar_gpuRequest a), ''--gpu-experts'', int_string (ar_gpuExpertCapacity a),
      ''--gpu-expert-depth'', int_string (ar_gpuExpertDepth a)] @
     (if ar_useSeed a then [''--seed'', int_string (sint (ar_seed a))] else []) @
     opt_flag ''--raw'' (ar_rawEncode a) @ opt_flag ''--prob-resident'' (ar_probPriority a) @ opt_flag ''--mtp'' (ar_mtp a) @
     opt_flag ''--no-gpu'' (\<not> ar_useGpu a) @ opt_flag ''--verbose'' (ar_verbose a) @ opt_flag ''--version'' (ar_showVersion a) @
     opt_flag ''--self-test'' (ar_selfTest a) @ opt_flag ''--check-weights'' (ar_checkWeights a) @
     opt_flag ''--cuda-self-test'' (ar_cudaSelfTest a)"

definition c_int :: "int \<Rightarrow> bool" where
  "c_int n \<longleftrightarrow> - (2 ^ 31) \<le> n \<and> n < 2 ^ 31"

text \<open>What \<open>parseArgs\<close> promises of the settings it accepts.\<close>

definition args_ok :: "args \<Rightarrow> bool" where
  "args_ok a \<longleftrightarrow> list_all c_int (ar_promptTokens a) \<and> c_int (ar_maxTokens a) \<and> c_int (ar_topK a) \<and> c_int (ar_routerPrefetchExtra a) \<and>
     0 \<le> ar_gpuExpertCapacity a \<and> ar_gpuExpertCapacity a < 2 ^ 31 \<and> 1 \<le> ar_gpuExpertDepth a \<and> ar_gpuExpertDepth a < 2 ^ 31 \<and>
     (ar_useSeed a \<or> ar_seed a = 0)"

lemma parse_flags:
  "parse_loop to_float (opt_flag ''--raw'' b @ rest) args = parse_loop to_float rest (args\<lparr>ar_rawEncode := b \<or> ar_rawEncode args\<rparr>)"
  "parse_loop to_float (opt_flag ''--prob-resident'' b @ rest) args = parse_loop to_float rest (args\<lparr>ar_probPriority := b \<or> ar_probPriority args\<rparr>)"
  "parse_loop to_float (opt_flag ''--mtp'' b @ rest) args = parse_loop to_float rest (args\<lparr>ar_mtp := b \<or> ar_mtp args\<rparr>)"
  "parse_loop to_float (opt_flag ''--verbose'' b @ rest) args = parse_loop to_float rest (args\<lparr>ar_verbose := b \<or> ar_verbose args\<rparr>)"
  "parse_loop to_float (opt_flag ''--version'' b @ rest) args = parse_loop to_float rest (args\<lparr>ar_showVersion := b \<or> ar_showVersion args\<rparr>)"
  "parse_loop to_float (opt_flag ''--self-test'' b @ rest) args = parse_loop to_float rest (args\<lparr>ar_selfTest := b \<or> ar_selfTest args\<rparr>)"
  "parse_loop to_float (opt_flag ''--cuda-self-test'' b @ rest) args = parse_loop to_float rest (args\<lparr>ar_cudaSelfTest := b \<or> ar_cudaSelfTest args\<rparr>)"
  "parse_loop to_float (opt_flag ''--check-weights'' b @ rest) args = parse_loop to_float rest (args\<lparr>ar_checkWeights := b \<or> ar_checkWeights args\<rparr>)"
  "parse_loop to_float (opt_flag ''--no-gpu'' b @ rest) args = parse_loop to_float rest (args\<lparr>ar_useGpu := \<not> b \<and> ar_useGpu args\<rparr>)"
  by (cases b; simp add: opt_flag_def parse_loop.simps set_flag_def)+

lemma parse_values:
  "parse_loop to_float (''--model'' # v # rest) args = parse_loop to_float rest (args\<lparr>ar_modelDir := v\<rparr>)"
  "parse_loop to_float (''--prompt'' # v # rest) args = parse_loop to_float rest (args\<lparr>ar_prompt := v\<rparr>)"
  "parse_loop to_float (''--python'' # v # rest) args = parse_loop to_float rest (args\<lparr>ar_pythonExe := v\<rparr>)"
  "parse_loop to_float (''--script'' # v # rest) args = parse_loop to_float rest (args\<lparr>ar_scriptPath := v\<rparr>)"
  "parse_loop to_float (''--dump-tokens'' # v # rest) args = parse_loop to_float rest (args\<lparr>ar_dumpTokens := v\<rparr>)"
  "parse_loop to_float (''--predictor'' # (if e then ''ema'' else ''reuse'') # rest) args = parse_loop to_float rest (args\<lparr>ar_emaPredictor := e\<rparr>)"
  "parse_loop to_float (''--tokenizer'' # (if e then ''native'' else ''python'') # rest) args = parse_loop to_float rest (args\<lparr>ar_nativeTokenizer := e\<rparr>)"
  "parse_loop to_float (''--gpu'' # gpu_name_of r # rest) args = parse_loop to_float rest (args\<lparr>ar_gpuRequest := r\<rparr>)"
  "parse_loop to_float (''--temperature'' # v # rest) args = parse_loop to_float rest (args\<lparr>ar_temperature := to_float v\<rparr>)"
  "parse_loop to_float (''--top-p'' # v # rest) args = parse_loop to_float rest (args\<lparr>ar_topP := to_float v\<rparr>)"
  "parse_loop to_float (''--min-p'' # v # rest) args = parse_loop to_float rest (args\<lparr>ar_minP := to_float v\<rparr>)"
  "parse_loop to_float (''--typical-p'' # v # rest) args = parse_loop to_float rest (args\<lparr>ar_typicalP := to_float v\<rparr>)"
  "parse_loop to_float (''--repetition-penalty'' # v # rest) args = parse_loop to_float rest (args\<lparr>ar_repetitionPenalty := to_float v\<rparr>)"
  "parse_loop to_float (''--frequency-penalty'' # v # rest) args = parse_loop to_float rest (args\<lparr>ar_frequencyPenalty := to_float v\<rparr>)"
  "parse_loop to_float (''--presence-penalty'' # v # rest) args = parse_loop to_float rest (args\<lparr>ar_presencePenalty := to_float v\<rparr>)"
  "parse_loop to_float (''--ema-alpha'' # v # rest) args = parse_loop to_float rest (args\<lparr>ar_emaAlpha := to_float v\<rparr>)"
  by (simp_all add: parse_loop.simps set_flag_def set_value_def set_text_def set_float_def int_option_def gpu_names_def gpu_name_of_def split: BackendRequest.split)

lemma parse_ints:
  assumes "c_int n"
  shows
  "parse_loop to_float (''--max-tokens'' # int_string n # rest) args = parse_loop to_float rest (args\<lparr>ar_maxTokens := (n)\<rparr>)"
  "parse_loop to_float (''--top-k'' # int_string n # rest) args = parse_loop to_float rest (args\<lparr>ar_topK := (n)\<rparr>)"
  "parse_loop to_float (''--router-prefetch'' # int_string n # rest) args = parse_loop to_float rest (args\<lparr>ar_routerPrefetchExtra := (n)\<rparr>)"
  "parse_loop to_float (''--gpu-experts'' # int_string n # rest) args = parse_loop to_float rest (args\<lparr>ar_gpuExpertCapacity := (if 0 < n then n else 0)\<rparr>)"
  "parse_loop to_float (''--gpu-expert-depth'' # int_string n # rest) args = parse_loop to_float rest (args\<lparr>ar_gpuExpertDepth := (if 1 \<le> n then n else 1)\<rparr>)"
  "parse_loop to_float (''--seed'' # int_string n # rest) args = parse_loop to_float rest (args\<lparr>ar_seed := word_of_int n, ar_useSeed := True\<rparr>)"
  using c_atoi_int_string [of n] assms
  by (simp_all add: c_int_def parse_loop.simps set_flag_def set_value_def set_text_def set_float_def int_option_def set_int_def)

lemma parse_tokens:
  assumes "list_all c_int ids"
  shows "parse_loop to_float (''--prompt-tokens'' # token_csv ids # rest) args =
    parse_loop to_float rest (args\<lparr>ar_promptTokens := ar_promptTokens args @ ids\<rparr>)"
  using split_token_csv [of ids] assms
  by (simp add: list_all_iff c_int_def parse_loop.simps set_flag_def set_value_def set_text_def set_float_def int_option_def)

lemma parse_seed:
  "parse_loop to_float ((if u then [''--seed'', int_string (sint (w :: u32))] else []) @ rest) args =
   parse_loop to_float rest (if u then args\<lparr>ar_seed := w, ar_useSeed := True\<rparr> else args)"
  using parse_ints(6) [of "sint w"] sint_range_size [of w] by (simp add: c_int_def word_size)

text \<open>
  C20. Printing and reading the command line: for every settings record within the ranges of its
  integers, reading the command line that spells out its settings, one option per field, gives the record
  back: every option sets its own field and no other, token ids and numbers are read as they were
  written, and the line is accepted exactly when it names a model or asks for a mode without one.
\<close>

theorem args_roundtrip:
  assumes "args_ok a" "list_all (\<lambda>f. to_float (show_float f) = f) (float_settings a)"
  shows "parseArgs to_float (show_args show_float a) default_args = Some (needs_no_model a \<or> ar_modelDir a \<noteq> [], a)"
proof -
  have ints: "c_int (ar_maxTokens a)" "c_int (ar_topK a)" "c_int (ar_routerPrefetchExtra a)" "c_int (ar_gpuExpertCapacity a)" "c_int (ar_gpuExpertDepth a)"
    "list_all c_int (ar_promptTokens a)"
    using assms(1) by (simp_all add: args_ok_def c_int_def)
  have floats: "to_float (show_float (ar_temperature a)) = ar_temperature a" "to_float (show_float (ar_topP a)) = ar_topP a"
    "to_float (show_float (ar_minP a)) = ar_minP a" "to_float (show_float (ar_typicalP a)) = ar_typicalP a"
    "to_float (show_float (ar_repetitionPenalty a)) = ar_repetitionPenalty a" "to_float (show_float (ar_frequencyPenalty a)) = ar_frequencyPenalty a"
    "to_float (show_float (ar_presencePenalty a)) = ar_presencePenalty a" "to_float (show_float (ar_emaAlpha a)) = ar_emaAlpha a"
    using assms(2) by (simp_all add: float_settings_def)
  have last_flag: "parse_loop to_float (opt_flag ''--cuda-self-test'' b) args = Some (True, args\<lparr>ar_cudaSelfTest := b \<or> ar_cudaSelfTest args\<rparr>)" for b args
    using parse_flags(7) [of to_float b "[]" args] by (simp add: parse_loop.simps(1))
  have "parse_loop to_float (show_args show_float a) default_args = Some (True, a)"
    using assms(1)
    unfolding show_args_def append_Cons append_Nil
    by (simp add: parse_values parse_ints ints parse_tokens parse_seed parse_flags last_flag floats)
      (cases a; auto simp: default_args_def args_ok_def)
  then show ?thesis by (simp add: parseArgs_def)
qed

definition sample_args :: args where
  "sample_args = default_args\<lparr>ar_modelDir := ''m'', ar_promptTokens := [3, 7], ar_useSeed := True, ar_seed := 5, ar_mtp := True\<rparr>"

theorem args_roundtrip_witness:
  "parseArgs (\<lambda>s. if s = ''1'' then f32_one else if s = ''0.1'' then 0x3DCCCCCD else f32_zero)
     (show_args (\<lambda>f. if f = f32_one then ''1'' else if f = 0x3DCCCCCD then ''0.1'' else ''0'') sample_args) default_args = Some (True, sample_args)"
  using args_roundtrip [of sample_args "\<lambda>s. if s = ''1'' then f32_one else if s = ''0.1'' then 0x3DCCCCCD else f32_zero"
      "\<lambda>f. if f = f32_one then ''1'' else if f = 0x3DCCCCCD then ''0.1'' else ''0''"]
  by (simp add: sample_args_def default_args_def args_ok_def c_int_def float_settings_def f32_one_def f32_zero_def)

subsection \<open>Whatever the command line\<close>

lemma split_ids_range: "split_ids cur s = Some ids \<Longrightarrow> list_all c_int ids"
proof (induction cur s arbitrary: ids rule: split_ids.induct)
  case (1 cur)
  then show ?case by (auto simp: c_int_def c_atoi_def Let_def split: if_splits)
next
  case (2 cur c s)
  then show ?case by (auto simp: c_int_def c_atoi_def Let_def bind_eq_Some_conv split: if_splits)
qed

lemma set_flag_ok: "args_ok args \<Longrightarrow> set_flag a args = Some args' \<Longrightarrow> args_ok args'"
  by (auto simp: set_flag_def args_ok_def split: if_splits)

lemma set_text_ok: "args_ok args \<Longrightarrow> set_text a v args = Some args' \<Longrightarrow> args_ok args'"
  by (auto simp: set_text_def args_ok_def split: if_splits)

lemma set_float_ok: "args_ok args \<Longrightarrow> set_float to_float a v args = Some args' \<Longrightarrow> args_ok args'"
  by (auto simp: set_float_def args_ok_def split: if_splits)

lemma set_int_ok: "args_ok args \<Longrightarrow> c_int n \<Longrightarrow> set_int a n args = Some args' \<Longrightarrow> args_ok args'"
  by (auto simp: set_int_def args_ok_def c_int_def split: if_splits)

lemma c_atoi_int: "c_atoi v = Some n \<Longrightarrow> c_int n"
  by (auto simp: c_atoi_def c_int_def Let_def split: if_splits)

lemma set_value_ok:
  assumes "args_ok args" "set_value to_float a v args = Some (Changed args')"
  shows "args_ok args'"
proof (cases "set_text a v args = None \<and> set_float to_float a v args = None")
  case False
  then have "set_text a v args = Some args' \<or> set_float to_float a v args = Some args'"
    using assms(2) by (auto simp only: set_value_def option.inject option_result.inject split: option.splits)
  then show ?thesis using set_text_ok [OF assms(1)] set_float_ok [OF assms(1)] by blast
next
  case True
  show ?thesis
  proof (cases "int_option a")
    case int: True
    then have "Option.bind (c_atoi v) (\<lambda>n. Option.bind (set_int a n args) (\<lambda>args. Some (Changed args))) = Some (Changed args')"
      using assms(2) True by (simp only: set_value_def option.case if_True)
    then obtain n where "c_atoi v = Some n" "set_int a n args = Some args'" by (auto simp: bind_eq_Some_conv)
    then show ?thesis using set_int_ok [OF assms(1) c_atoi_int] by blast
  next
    case False
    have "args_ok (args\<lparr>ar_promptTokens := ar_promptTokens args @ ids\<rparr>)" if "split_ids [] v = Some ids" for ids
      using assms(1) split_ids_range [OF that] by (simp add: args_ok_def)
    moreover have "args_ok (args\<lparr>ar_nativeTokenizer := b\<rparr>)" "args_ok (args\<lparr>ar_gpuRequest := r\<rparr>)" for b r
      using assms(1) by (simp_all add: args_ok_def)
    moreover have "(\<exists>ids. split_ids [] v = Some ids \<and> args' = args\<lparr>ar_promptTokens := ar_promptTokens args @ ids\<rparr>) \<or>
        (\<exists>b. args' = args\<lparr>ar_nativeTokenizer := b\<rparr>) \<or> (\<exists>r. args' = args\<lparr>ar_gpuRequest := r\<rparr>) \<or> args' = args"
      using assms(2) True False unfolding set_value_def
      by (simp add: bind_eq_Some_conv split: if_split_asm option.split_asm) blast+
    ultimately show ?thesis using assms(1) by blast
  qed
qed

lemma parse_loop_ok: "parse_loop to_float argv args = Some (ok, args') \<Longrightarrow> args_ok args \<Longrightarrow> args_ok args'"
proof (induction to_float argv args rule: parse_loop.induct)
  case (1 to_float args)
  then show ?case by (simp add: parse_loop.simps)
next
  case (2 to_float a rest args)
  note run = 2(4) [unfolded parse_loop.simps(2) [of to_float a rest args]]
  show ?case
  proof (cases "(a = ''--help'' \<or> a = ''-h'') \<or> set_flag a args = None \<and> rest = []")
    case True
    then show ?thesis using run 2(5) by (auto split: option.splits if_splits)
  next
    case False
    then have a: "\<not> (a = ''--help'' \<or> a = ''-h'')" by blast
    show ?thesis
    proof (cases "set_flag a args")
      case (Some args1)
      then show ?thesis using 2(3) [OF a Some] run a set_flag_ok [OF 2(5) Some] by simp
    next
      case None
      then have rest: "rest \<noteq> []" using False by blast
      obtain r where r: "set_value to_float a (hd rest) args = Some r" using run a None rest by (cases "set_value to_float a (hd rest) args") auto
      show ?thesis
      proof (cases r)
        case Unknown
        then show ?thesis using 2(1) [OF a None rest] r run a None rest 2(5) by simp
      next
        case Refused
        then show ?thesis using r run a None rest 2(5) by simp
      next
        case (Changed args1)
        then show ?thesis using 2(2) [OF a None rest] r run a None rest set_value_ok [OF 2(5), of to_float a "hd rest" args1] by simp
      qed
    qed
  qed
qed

text \<open>
  C38. Whatever the command line, settings that are accepted are in range: a staging depth of at least one,
  no negative number of GPU experts, integers that fit, no seed unless one was given, and a model directory
  unless a mode without one is asked for.
\<close>

theorem parse_args_valid:
  assumes "parseArgs to_float argv default_args = Some (True, a)"
  shows "args_ok a \<and> (needs_no_model a \<or> ar_modelDir a \<noteq> [])"
proof -
  have "args_ok default_args" by (simp add: args_ok_def default_args_def c_int_def)
  then show ?thesis using assms parse_loop_ok by (fastforce simp: parseArgs_def bind_eq_Some_conv)
qed

theorem parse_args_valid_witness:
  "args_ok (default_args\<lparr>ar_modelDir := ''m''\<rparr>) \<and> ar_modelDir (default_args\<lparr>ar_modelDir := ''m''\<rparr>) = ''m''"
proof -
  have "parseArgs (\<lambda>_. f32_zero) [''--model'', ''m''] default_args = Some (True, default_args\<lparr>ar_modelDir := ''m''\<rparr>)"
    by (simp add: parseArgs_def parse_values(1) parse_loop.simps(1))
  then show ?thesis using parse_args_valid by fastforce
qed

end
