(* ===== verification/WeightCheck.thy ===== *)
theory WeightCheck
  imports FwdSafety
begin

text \<open>
  \<open>validateWeights\<close> of \<open>self_test.cpp\<close>, the check behind \<open>--check-weights\<close>: it builds the index and counts what
  is missing or does not have the shape the configuration gives. The report is only text. \<^const>\<open>None\<close> is an
  overflow of an \<open>int\<close> or a read past a vector. (The tests of that file are not modelled.)
\<close>

subsection \<open>Checks on one tensor\<close>

definition tensorPresent :: "tensor_location \<Rightarrow> bool" where
  "tensorPresent t \<longleftrightarrow> 0 < byteSize t \<and> tl_shape t \<noteq> []"

definition shapeIs2 :: "tensor_location \<Rightarrow> int \<Rightarrow> int \<Rightarrow> bool" where
  "shapeIs2 t r c \<longleftrightarrow> tensorPresent t \<and> tl_shape t = [r, c]"

definition shapeIs1 :: "tensor_location \<Rightarrow> int \<Rightarrow> bool" where
  "shapeIs1 t n \<longleftrightarrow> tensorPresent t \<and> tl_shape t = [n]"

definition expertComplete :: "expert_weights \<Rightarrow> int \<Rightarrow> int \<Rightarrow> bool" where
  "expertComplete e moeInt hidden \<longleftrightarrow>
     shapeIs2 (gateProj e) moeInt hidden \<and> shapeIs2 (upProj e) moeInt hidden \<and> shapeIs2 (downProj e) hidden moeInt"

text \<open>The checks that fail.\<close>

definition failures :: "bool list \<Rightarrow> nat" where
  "failures checks = length (filter (\<lambda>ok. \<not> ok) checks)"

subsection \<open>The gate of the multi-token prediction\<close>

text \<open>The reason to refuse it; only the self test calls this function.\<close>

definition mtpGateReason :: "int \<Rightarrow> bool \<Rightarrow> string option" where
  "mtpGateReason modules tensors =
     (if modules \<le> 0 then Some ''config declares no MTP / nextn predict layers''
      else if \<not> tensors then Some ''config declares MTP but the checkpoint ships no nextn/mtp tensors''
      else None)"

subsection \<open>Checks on the index\<close>

definition check_sizes :: "(string \<Rightarrow> bool) \<Rightarrow> weight_index \<Rightarrow> nat option" where
  "check_sizes opens idx =
     (let cfg = wi_config idx;
          experts = (if int (length (routedExperts idx)) = numLayers cfg
            then map (\<lambda>l. if int l < firstKDenseReplace cfg then routedExperts idx ! l = [] else routedExperts idx ! l \<noteq> [])
                   [0..<nat (numLayers cfg)]
            else []) in
      do {
        shard \<leftarrow> rd (shardFiles idx) 0;
        Some (failures ([0 < numLayers cfg, 0 < hiddenSize cfg] @ experts @
          [byteSize (embedTokens idx) \<noteq> 0, shardFiles idx \<noteq> [], opens shard]))
      })"

definition check_shared :: "weight_index \<Rightarrow> nat" where
  "check_shared idx =
     (let cfg = wi_config idx in
      failures [shapeIs2 (embedTokens idx) (vocabSize cfg) (hiddenSize cfg), shapeIs1 (finalNorm idx) (hiddenSize cfg),
        if tieWordEmbeddings cfg then \<not> tensorPresent (lmHead idx) \<or> shapeIs2 (lmHead idx) (vocabSize cfg) (hiddenSize cfg)
        else shapeIs2 (lmHead idx) (vocabSize cfg) (hiddenSize cfg)])"

definition check_attention :: "model_config \<Rightarrow> layer_weights \<Rightarrow> nat option" where
  "check_attention cfg w = do {
     qDim \<leftarrow> imul (numAttentionHeads cfg) (qkHeadDim cfg);
     kvDim \<leftarrow> imul (numKvHeads cfg) (qkNopeHeadDim cfg + vHeadDim cfg);
     oDim \<leftarrow> imul (numAttentionHeads cfg) (vHeadDim cfg);
     Some (failures (map tensorPresent [qAProj w, qALayernorm w, qBProj w, kvAProjWithMqa w, kvALayernorm w, kvBProj w, oProj w,
         inputLayernorm w, postAttentionLayernorm w] @
       [shapeIs2 (qBProj w) qDim (qLoraRank cfg), shapeIs2 (kvBProj w) kvDim (kvLoraRank cfg), shapeIs2 (oProj w) (hiddenSize cfg) oDim,
        shapeIs2 (kvAProjWithMqa w) (kvLoraRank cfg + qkRopeHeadDim cfg) (hiddenSize cfg)]))
   }"

definition check_indexer :: "model_config \<Rightarrow> nat \<Rightarrow> layer_weights \<Rightarrow> nat" where
  "check_indexer cfg l w =
     (if isIndexerFull cfg (int l)
      then failures (map tensorPresent [indexWqB w, indexWk w, indexWeightsProj w, indexKNormW w, indexKNormB w]) else 0)"

definition check_mlp :: "weight_index \<Rightarrow> nat \<Rightarrow> layer_weights \<Rightarrow> nat" where
  "check_mlp idx l w =
     (let cfg = wi_config idx in
      if \<not> isMoeLayer cfg l then failures (map tensorPresent [mlpGate w, mlpUp w, mlpDown w])
      else failures [tensorPresent (mlpGate w), shapeIs1 (gateBias w) (numLocalExperts cfg), tensorPresent (sharedGateProj w),
        tensorPresent (sharedUpProj w), tensorPresent (sharedDownProj w),
        l < length (routedExperts idx) \<and> int (length (routedExperts idx ! l)) = numLocalExperts cfg \<and>
        list_all (\<lambda>e. expertComplete e (moeIntermediateSize cfg) (hiddenSize cfg)) (routedExperts idx ! l)])"

definition check_layer :: "weight_index \<Rightarrow> nat \<Rightarrow> nat \<Rightarrow> nat option" where
  "check_layer idx l fails = do {
     w \<leftarrow> rd (wi_layers idx) l;
     attn \<leftarrow> check_attention (wi_config idx) w;
     Some (fails + attn + check_indexer (wi_config idx) l w + check_mlp idx l w)
   }"

definition check_index :: "(string \<Rightarrow> bool) \<Rightarrow> weight_index \<Rightarrow> nat option" where
  "check_index opens idx = do {
     fails \<leftarrow> check_sizes opens idx;
     run_steps (check_layer idx) [0..<nat (numLayers (wi_config idx))] (fails + check_shared idx)
   }"

definition validateWeights :: "wi_env \<Rightarrow> (string \<Rightarrow> bool) \<Rightarrow> string \<Rightarrow> nat option" where
  "validateWeights env opens dir = do {
     (ok, idx) \<leftarrow> wi_build env dir;
     if \<not> ok then Some 1 else check_index opens idx
   }"

subsection \<open>What passing means\<close>

lemma failures_none: "failures checks = 0 \<longleftrightarrow> list_all id checks"
  by (auto simp: failures_def filter_empty_conv list_all_iff)

lemma check_layers_pass:
  "run_steps (check_layer idx) ls n = Some 0 \<Longrightarrow> n = 0 \<and> (\<forall>l \<in> set ls. check_layer idx l 0 = Some 0)"
proof (induction ls arbitrary: n)
  case (Cons l ls)
  obtain m where m: "check_layer idx l n = Some m" "run_steps (check_layer idx) ls m = Some 0"
    using Cons.prems by (auto simp: bind_eq_Some_conv)
  then have "m = 0" "\<forall>l \<in> set ls. check_layer idx l 0 = Some 0" using Cons.IH by blast+
  with m(1) show ?case by (auto simp: check_layer_def bind_eq_Some_conv)
qed simp

text \<open>A location of two bytes per element, inside the mapped shard it names.\<close>

definition bf16_mapped :: "fwd_env \<Rightarrow> tensor_location \<Rightarrow> bool" where
  "bf16_mapped env t \<longleftrightarrow> (\<exists>v. se_view (fe_sched env) (shardPath t) = Some v \<and>
     unat (byteOffset t) + unat (byteSize t) \<le> length v \<and> int (unat (byteSize t)) = 2 * prod_list (tl_shape t))"

lemma mapped_fits:
  assumes "bf16_mapped env t" "shapeIs2 t r c" "0 \<le> r" "0 \<le> c"
  shows "fits env t (cells r c)"
proof -
  obtain v where v: "se_view (fe_sched env) (shardPath t) = Some v" "unat (byteOffset t) + unat (byteSize t) \<le> length v"
      "int (unat (byteSize t)) = 2 * (r * c)"
    using assms(1,2) by (auto simp: bf16_mapped_def shapeIs2_def)
  have "int (cells r c) = r * c" using assms(3,4) by simp
  then have "unat (byteSize t) = 2 * cells r c" using v(3) by linarith
  then have "cells r c \<le> length (u16s (drop (unat (byteOffset t)) v))" using v(2) by (simp add: length_u16s)
  moreover have "weights_at env t = u16s (drop (unat (byteOffset t)) v)" using v(1) by (simp add: getWeightPtr_def deref_def)
  ultimately show ?thesis by (simp add: fits_def)
qed

text \<open>The matrices whose shape is checked.\<close>

definition checked_locs :: "weight_index \<Rightarrow> tensor_location set" where
  "checked_locs w = {embedTokens w, lmHead w} \<union>
     (\<Union>lw \<in> set (wi_layers w). {qBProj lw, kvBProj lw, oProj lw, kvAProjWithMqa lw}) \<union>
     (\<Union>e \<in> set (concat (routedExperts w)). {gateProj e, upProj e, downProj e})"

lemma rd_in: "rd xs i = Some x \<Longrightarrow> x \<in> set xs"
  by (auto simp: rd_def split: if_splits)

lemma check_mlp_experts:
  assumes "check_mlp w l lw = 0" "isMoeLayer (wi_config w) l" "e < nat (numLocalExperts (wi_config w))"
  shows "\<exists>ew. expert_at w (int l) (int e) = Some ew \<and> ew \<in> set (concat (routedExperts w)) \<and>
    expertComplete ew (moeIntermediateSize (wi_config w)) (hiddenSize (wi_config w))"
proof -
  have r: "l < length (routedExperts w)" "int (length (routedExperts w ! l)) = numLocalExperts (wi_config w)"
    "list_all (\<lambda>e. expertComplete e (moeIntermediateSize (wi_config w)) (hiddenSize (wi_config w))) (routedExperts w ! l)"
    using assms(1,2) by (simp_all add: check_mlp_def Let_def failures_none)
  then have e: "e < length (routedExperts w ! l)" using assms(3) by simp
  moreover have "routedExperts w ! l ! e \<in> set (concat (routedExperts w))" using r(1) e by (auto intro!: bexI [of _ "routedExperts w ! l"])
  ultimately show ?thesis using r(1,3) by (simp add: expert_at_def rd_def list_all_length)
qed


text \<open>One layer of one expert in which every dimension is 1, two tokens.\<close>

definition vc_loc :: "int list \<Rightarrow> tensor_location" where
  "vc_loc shape = TensorLocation\<lparr>shardPath := ''m'', byteSize := (if shape = [2, 1] then 4 else 2), tl_shape := shape\<rparr>"

definition vc_config :: model_config where
  "vc_config = ModelConfig\<lparr>hiddenSize := 1, vocabSize := 2, numLayers := 1, numAttentionHeads := 1, numKvHeads := 1, qLoraRank := 1,
     kvLoraRank := 1, qkHeadDim := 1, vHeadDim := 1, numLocalExperts := 1, numExpertsPerTok := 1, moeIntermediateSize := 1, nSharedExperts := 1\<rparr>"

definition vc_layer :: layer_weights where
  "vc_layer = LayerWeights\<lparr>inputLayernorm := vc_loc [1], postAttentionLayernorm := vc_loc [1], qAProj := vc_loc [1, 1], qALayernorm := vc_loc [1],
     qBProj := vc_loc [1, 1], kvAProjWithMqa := vc_loc [1, 1], kvALayernorm := vc_loc [1], kvBProj := vc_loc [1, 1], oProj := vc_loc [1, 1],
     indexWqB := vc_loc [1, 1], indexWk := vc_loc [1, 1], indexWeightsProj := vc_loc [1, 1], indexKNormW := vc_loc [1], indexKNormB := vc_loc [1],
     isMoe := True, mlpGate := vc_loc [1, 1], gateBias := vc_loc [1], sharedGateProj := vc_loc [1, 1], sharedUpProj := vc_loc [1, 1],
     sharedDownProj := vc_loc [1, 1]\<rparr>"

definition vc_expert :: expert_weights where
  "vc_expert = \<lparr>gateProj = vc_loc [1, 1], upProj = vc_loc [1, 1], downProj = vc_loc [1, 1]\<rparr>"

definition vc_index :: weight_index where
  "vc_index = WeightIndex\<lparr>wi_config := vc_config, shardFiles := [''m''], wi_layers := [vc_layer], routedExperts := [[vc_expert]],
     embedTokens := vc_loc [2, 1], lmHead := vc_loc [2, 1], finalNorm := vc_loc [1]\<rparr>"

lemma vc_passes: "check_index (\<lambda>_. True) vc_index = Some 0"
  by code_simp


text \<open>
  What the check lets through: with tied embeddings the head may be missing, and the language-model head, which
  never looks at the flag, then reads through a null pointer.
\<close>

lemma tied_head_is_read:
  assumes "weights_at env (lmHead (fw_index st)) = []" "0 < hiddenSize (wi_config (fw_index st))" "0 < vocabSize (wi_config (fw_index st))"
  shows "lmHeadAndSample env b st = None"
proof -
  let ?cfg = "wi_config (fw_index st)"
  have "[0..<nat (vocabSize ?cfg)] = 0 # [1..<nat (vocabSize ?cfg)]" using assms(3) by (simp add: upt_conv_Cons)
  then have "map_M (\<lambda>v. dotBf16F32 m (drop (v * nat (hiddenSize ?cfg)) []) x (nat (hiddenSize ?cfg))) [0..<nat (vocabSize ?cfg)] = None" for m x
    using assms(2) by (simp add: dotBf16F32_def)
  then show ?thesis using assms(1,3) by (auto simp: lmHeadAndSample_def Let_def split: Option.bind_splits)
qed

end
