(* ===== verification/GlmMain.thy ===== *)
theory GlmMain
  imports CliArgs PyBridgeWin HostProbe WeightCheck WarmReads TokenizerLoad Sampler
begin

text \<open>
  \<open>main.cpp\<close>: from the command line to the generated tokens. What the surroundings answer is a record;
  \<^const>\<open>None\<close> is undefined behaviour or an exception somewhere below. The POSIX bridge stands for the Python
  tokenizer. Log lines are left out; what the program prints at its end is part of the outcome.
\<close>

subsection \<open>The surroundings and the outcome\<close>

text \<open>
  The self tests as the failures they count, whether a shard can be opened, the CUDA device and its parity test, the
  tokenizer files with the JSON parser, the child process that the interpreter, script and model give, and the random
  generator: seeded, drawn from, and the number \<open>std::random_device\<close> gives.
\<close>

record 'g main_env =
  me_host :: host
  me_getenv :: env
  me_to_float :: "string \<Rightarrow> f32"
  me_selfTests :: "bool \<Rightarrow> int"
  me_cudaInit :: bool
  me_cudaParity :: bool
  me_opens :: "string \<Rightarrow> bool"
  me_weights :: wi_env
  me_files :: "string \<Rightarrow> string option"
  me_parse :: json_parser
  me_parsed :: "string \<Rightarrow> json"
  me_numText :: "rat \<Rightarrow> string"
  me_conv :: fp_conv
  me_vocabOrder :: "(bytes \<times> int) list \<Rightarrow> (bytes \<times> int) list"
  me_canonical :: "string \<Rightarrow> string option"
  me_exeDir :: string
  me_cwd :: string
  me_python :: "string \<Rightarrow> string \<Rightarrow> string \<Rightarrow> py_env"
  me_warmStart :: bool
  me_fwd :: fwd_env
  me_nth :: nth_element
  me_sort :: index_sort
  me_tsort :: typical_sort
  me_draw :: "'g \<Rightarrow> f32 \<times> 'g"
  me_rng :: "u32 \<Rightarrow> 'g"
  me_device :: u32

record outcome =
  oc_exit :: int
  oc_ids :: "int list"
  oc_output :: string

definition exits :: "int \<Rightarrow> outcome" where
  "exits n = \<lparr>oc_exit = n, oc_ids = [], oc_output = []\<rparr>"

subsection \<open>Tokenizers\<close>

text \<open>Both are objects of \<open>main\<close>; the option decides which of them is asked.\<close>

record toks =
  tk_native :: tokenizer
  tk_python :: py_tokenizer
  tk_pyEnv :: py_env

definition start_tokenizer :: "'g main_env \<Rightarrow> args \<Rightarrow> (bool \<times> toks) option" where
  "start_tokenizer env args =
     (let script = script_path args (me_canonical env) (me_exeDir env) (me_cwd env);
          py = me_python env (python_exe args (me_getenv env)) script (ar_modelDir args);
          toks = \<lparr>tk_native = NativeBpeTokenizer, tk_python = PythonTokenizer, tk_pyEnv = py\<rparr> in
      if ar_promptTokens args \<noteq> [] then Some (True, toks)
      else if ar_nativeTokenizer args then
        map_option (\<lambda>(ok, t). (ok, toks\<lparr>tk_native := t\<rparr>))
          (tk_load (me_files env) (me_parse env) (me_parsed env) (me_numText env) (me_conv env) (me_vocabOrder env)
            (ar_modelDir args @ ''/tokenizer.json'') (ar_modelDir args @ ''/tokenizer_config.json'') NativeBpeTokenizer)
      else map_option (\<lambda>(ok, t). (ok, toks\<lparr>tk_python := t\<rparr>)) (py_start py PythonTokenizer))"

definition encodeText :: "args \<Rightarrow> string \<Rightarrow> bool \<Rightarrow> toks \<Rightarrow> (int list \<times> toks) option" where
  "encodeText args s special toks =
     (if ar_nativeTokenizer args then map_option (\<lambda>ids. (ids, toks)) (encode (tk_native toks) (chars_bytes s) special)
      else case py_encode (tk_pyEnv toks) s special (tk_python toks) of (ids, t) \<Rightarrow> Some (ids, toks\<lparr>tk_python := t\<rparr>))"

definition decodeIds :: "args \<Rightarrow> int list \<Rightarrow> toks \<Rightarrow> (string \<times> toks) option" where
  "decodeIds args ids toks =
     (if ar_nativeTokenizer args then Some (byte_chars (decode (tk_native toks) ids True), toks)
      else map_option (\<lambda>(s, t). (s, toks\<lparr>tk_python := t\<rparr>)) (py_decode (tk_pyEnv toks) ids True (tk_python toks)))"

definition vocabSizeOf :: "args \<Rightarrow> toks \<Rightarrow> int" where
  "vocabSizeOf args toks = (if ar_nativeTokenizer args then tk_vocabSize (tk_native toks) else py_vocabSize (tk_python toks))"

definition eosOf :: "args \<Rightarrow> toks \<Rightarrow> int" where
  "eosOf args toks = (if ar_nativeTokenizer args then tk_eosId (tk_native toks) else PyBridge.eosId (tk_python toks))"

text \<open>\<open>--dump-tokens\<close>; what it prints is the ids and the escaped text.\<close>

definition dump_tokens :: "args \<Rightarrow> toks \<Rightarrow> outcome option" where
  "dump_tokens args toks = do {
     (ids, toks) \<leftarrow> encodeText args (ar_dumpTokens args) False toks;
     (s, toks) \<leftarrow> decodeIds args ids toks;
     Some \<lparr>oc_exit = 0, oc_ids = ids, oc_output = jsonEscapeString s\<rparr>
   }"

definition messages_json :: "string \<Rightarrow> string" where
  "messages_json s = ''[{'' @ quoted ''role'' @ '':'' @ quoted ''user'' @ '','' @ quoted ''content'' @ '':'' @ quoted (jsonEscapeString s) @ ''}]''"

definition input_ids :: "args \<Rightarrow> toks \<Rightarrow> (int list \<times> toks) option" where
  "input_ids args toks =
     (if ar_promptTokens args \<noteq> [] then Some (ar_promptTokens args, toks)
      else if ar_rawEncode args \<or> ar_nativeTokenizer args then encodeText args (ar_prompt args) True toks
      else case py_applyChatTemplate (tk_pyEnv toks) (messages_json (ar_prompt args)) True (tk_python toks) of
        (ids, t) \<Rightarrow> Some (ids, toks\<lparr>tk_python := t\<rparr>))"

subsection \<open>The engine\<close>

text \<open>\<open>init\<close>, the scheduler's options and warm-up, and the GPU experts, which are an error when they are not to be had.\<close>

definition start_engine :: "'g main_env \<Rightarrow> args \<Rightarrow> adaptive_config \<Rightarrow> weight_index \<Rightarrow> (bool \<times> fwd) option" where
  "start_engine env args ac w = do {
     s \<leftarrow> sched_init w (ac_lruBytes ac) (ac_ramBudgetBytes ac) (ac_vramBudgetBytes ac) Scheduler;
     let s = setRouterPrefetch (ar_routerPrefetchExtra args) (ar_probPriority args) s;
     let s = (if ar_emaPredictor args then setPopularityPredictor (ar_emaAlpha args) True s else s);
     reads \<leftarrow> (if me_getenv env ''GLM_NO_WARM'' = None
               then warmDenseWeights (me_warmStart env) (se_order (fe_sched (me_fwd env))) (Some w) else Some []);
     (ready, st) \<leftarrow> fwd_init (me_fwd env) (GLMForward w);
     if \<not> ready then Some (False, st)
     else do {
       let st = attachScheduler (Some s) st;
       if 0 < ar_gpuExpertCapacity args then do {
         let st = enableGpuExperts (me_fwd env) (ar_gpuExpertCapacity args) (ar_gpuExpertDepth args) st;
         Some (fw_gpuExperts st, st)
       }
       else Some (True, st)
     }
   }"

subsection \<open>Generation\<close>

record generation =
  gn_unlimited :: bool
  gn_maxTokens :: int
  gn_useTokenizer :: bool
  gn_useSampling :: bool
  gn_vocabSize :: int
  gn_eosTok :: int

definition generation_of :: "args \<Rightarrow> toks \<Rightarrow> generation" where
  "generation_of args toks =
     (let hasPromptTokens = ar_promptTokens args \<noteq> []; useTokenizer = (ar_promptTokens args = []) in
      \<lparr>gn_unlimited = (\<not> hasPromptTokens \<and> ar_maxTokens args < 0),
       gn_maxTokens = (if hasPromptTokens \<and> ar_maxTokens args < 0 then 8 else ar_maxTokens args),
       gn_useTokenizer = useTokenizer,
       gn_useSampling = (f32_lt f32_zero (ar_temperature args) \<and> useTokenizer),
       gn_vocabSize = (if useTokenizer then vocabSizeOf args toks else 0),
       gn_eosTok = (if useTokenizer then eosOf args toks else - 1)\<rparr>)"

text \<open>The greedy token, or one sampled from the first \<open>vocabSize\<close> logits, which must all be there.\<close>

definition next_token :: "'g main_env \<Rightarrow> args \<Rightarrow> generation \<Rightarrow> int \<Rightarrow> f32 list option \<Rightarrow> int list \<Rightarrow> 'g \<Rightarrow> (int \<times> 'g) option" where
  "next_token env args gn greedy logits recent g =
     (if \<not> gn_useSampling gn then Some (greedy, g)
      else do {
        ls \<leftarrow> logits;
        if gn_vocabSize gn < 0 \<or> int (length ls) < gn_vocabSize gn then None
        else do {
          (tok, g) \<leftarrow> sampleFromLogits12 (fe_libm (me_fwd env)) (me_nth env) (me_sort env) (me_tsort env) (me_draw env)
            (take (nat (gn_vocabSize gn)) ls) (ar_temperature args) (ar_topP args) (ar_topK args) (ar_minP args)
            (ar_repetitionPenalty args) recent (ar_typicalP args) (ar_frequencyPenalty args) (ar_presencePenalty args) g;
          Some (int tok, g)
        }
      })"

text \<open>An engine answers a token only when the input fits an \<open>int\<close>.\<close>

lemma forward_input: "forward env ids b st = Some (tok, logits, st') \<Longrightarrow> 0 \<le> tok \<Longrightarrow> length ids < nat (2 ^ 31)"
  by (auto simp: forward_def Let_def bind_eq_Some_conv split: if_splits)

text \<open>
  The loop: the tokens generated so far (there are as many as iterations), the input followed by them, the penalty
  window and the generator.
\<close>

function gen_loop :: "'g main_env \<Rightarrow> args \<Rightarrow> generation \<Rightarrow> int list \<Rightarrow> int list \<Rightarrow> int list \<Rightarrow> 'g \<Rightarrow> fwd \<Rightarrow>
    ((int list \<times> 'g) \<times> fwd) option" where
  "gen_loop env args gn generated allIds recent g st =
     (if \<not> gn_unlimited gn \<and> gn_maxTokens gn \<le> int (length generated) then Some ((generated, g), st)
      else case forward (me_fwd env) allIds (gn_useSampling gn) st of
        None \<Rightarrow> None
      | Some (tok, logits, st) \<Rightarrow>
          if tok < 0 then Some ((generated, g), st)
          else case next_token env args gn tok logits recent g of
            None \<Rightarrow> None
          | Some (tok, g) \<Rightarrow>
              if gn_useTokenizer gn \<and> tok = gn_eosTok gn then Some ((generated @ [tok], g), st)
              else gen_loop env args gn (generated @ [tok]) (allIds @ [tok]) (tl recent @ [tok]) g st)"
  by pat_completeness auto

termination
  by (relation "measure (\<lambda>(env, args, gn, generated, allIds, recent, g, st). nat (2 ^ 31) - length allIds)")
    (auto dest: forward_input simp del: nat_numeral)

declare gen_loop.simps [simp del]

definition kPenaltyWindow :: nat where "kPenaltyWindow = 64"

definition run_prompt :: "'g main_env \<Rightarrow> args \<Rightarrow> toks \<Rightarrow> fwd \<Rightarrow> outcome option" where
  "run_prompt env args toks st = do {
     let g = me_rng env (if ar_useSeed args then ar_seed args else me_device env);
     if ar_prompt args = [] \<and> ar_promptTokens args = [] then Some (exits 0)
     else do {
       (inputIds, toks) \<leftarrow> input_ids args toks;
       let gn = generation_of args toks;
       ((generated, g), st) \<leftarrow> gen_loop env args gn [] inputIds (replicate kPenaltyWindow (- 1)) g st;
       (output, toks) \<leftarrow> (if ar_promptTokens args = [] then decodeIds args generated toks else Some (token_csv generated, toks));
       Some \<lparr>oc_exit = 0, oc_ids = generated, oc_output = output\<rparr>
     }
   }"

subsection \<open>The program\<close>

definition run_mode :: "'g main_env \<Rightarrow> args \<Rightarrow> int option" where
  "run_mode env args =
     (if ar_showVersion args then Some 0
      else if ar_selfTest args then Some (if me_selfTests env (ar_verbose args) = 0 then 0 else 1)
      else if ar_cudaSelfTest args then Some (if me_cudaInit env \<and> \<not> me_cudaParity env then 1 else 0)
      else if ar_modelDir args = [] then Some 1
      else map_option (\<lambda>fails. if fails = 0 then 0 else 1) (validateWeights (me_weights env) (me_opens env) (ar_modelDir args)))"

text \<open>With the weight index built: the gate, the tokenizer, the engine, the prompt.\<close>

definition serve_model :: "'g main_env \<Rightarrow> args \<Rightarrow> adaptive_config \<Rightarrow> weight_index \<Rightarrow> outcome option" where
  "serve_model env args ac w =
     (if mtp_gate args w \<noteq> MtpOff then Some (exits 1)
      else do {
        (up, toks) \<leftarrow> start_tokenizer env args;
        if \<not> up then Some (exits 1)
        else if ar_dumpTokens args \<noteq> [] then dump_tokens args toks
        else do {
          (ready, st) \<leftarrow> start_engine env args ac w;
          if \<not> ready then Some (exits 1) else run_prompt env args toks st
        }
      })"

definition run_model :: "'g main_env \<Rightarrow> args \<Rightarrow> outcome option" where
  "run_model env args = do {
     profile \<leftarrow> detectSystemProfile (me_host env);
     overrides \<leftarrow> readEnvOverrides (me_getenv env);
     (built, w) \<leftarrow> wi_build (me_weights env) (ar_modelDir args);
     if \<not> built then Some (exits 1)
     else serve_model env args (computeAdaptiveConfig profile (merge_overrides args overrides)) w
   }"

definition glm_main :: "'g main_env \<Rightarrow> string list \<Rightarrow> outcome option" where
  "glm_main env argv = do {
     (ok, args) \<leftarrow> parseArgs (me_to_float env) argv default_args;
     if \<not> ok then Some (exits 1)
     else if needs_no_model args then map_option exits (run_mode env args)
     else run_model env args
   }"

subsection \<open>Greedy generation\<close>

text \<open>The calls a generation makes, one for each token, each on the input with the tokens before it.\<close>

definition gen_calls :: "int list \<Rightarrow> int list \<Rightarrow> fwd_op list" where
  "gen_calls ids new = map (\<lambda>i. FForward (ids @ take i new) False) [0..<length new]"

lemma gen_calls_Cons: "gen_calls ids (tok # new) = FForward ids False # gen_calls (ids @ [tok]) new"
  by (simp add: gen_calls_def upt_conv_Cons map_Suc_upt [symmetric] comp_def del: upt_Suc)

definition in_vocab :: "weight_index \<Rightarrow> int list \<Rightarrow> bool" where
  "in_vocab w ids \<longleftrightarrow> list_all (\<lambda>tok. 0 \<le> tok \<and> tok < vocabSize (wi_config w)) ids"

text \<open>
  One call on the pipeline: a token of the vocabulary, the same as the direct engine's, and both engines are
  where the next call needs them.
\<close>

lemma piped_answer:
  assumes "model_fits fe w" "pipeline_ok fe w" "0 < vocabSize (wi_config w)" "fwd_ok w pos (direct st)" "piped fe w n st"
    and "in_vocab w ids" "pos < int (length ids)" "int (length ids) + 16 \<le> 2 ^ 29"
    and "n + token_cost w * (length ids - nat pos) < 1000000000"
  shows "\<exists>tok st'. forward fe ids False st = Some (tok, None, st') \<and> forward fe ids False (direct st) = Some (tok, None, direct st') \<and>
    in_vocab w [tok] \<and> fwd_ok w (int (length ids)) (direct st') \<and> piped fe w (n + token_cost w * (length ids - nat pos)) st'"
proof -
  have ids: "ids_ok (wi_config w) ids" using assms(6,8) by (simp add: ids_ok_def in_vocab_def list_all_iff)
  obtain tok logits d where d: "forward fe ids False (direct st) = Some (tok, logits, d)" "fwd_answer (wi_config w) False tok logits"
      "fwd_ok w (max pos (int (length ids))) d"
    using forward_wp [OF assms(1,4) ids, of False] assms(7) by (auto simp: returns_def)
  have pos: "fw_seqLen st = pos" using assms(4) by (simp add: fwd_ok_def)
  have "sim fe w (n + token_cost w * (length ids - nat pos)) (fwd_result (forward fe ids False st)) (fwd_result (forward fe ids False (direct st)))"
    using forward_sim_new [OF assms(2,5), of ids False] assms(9) by (simp add: pos)
  then obtain st' where "forward fe ids False st = Some (tok, logits, st')" "d = direct st'" "piped fe w (n + token_cost w * (length ids - nat pos)) st'"
    using d(1) by (cases "forward fe ids False st") (auto simp: sim_def fwd_result_def)
  then show ?thesis using d assms(3,7) by (auto simp: fwd_answer_def in_vocab_def max_def)
qed

text \<open>What greedy generation adds to what is there, and how it ends.\<close>

definition gen_ends :: "generation \<Rightarrow> nat \<Rightarrow> int list \<Rightarrow> bool" where
  "gen_ends gn before new \<longleftrightarrow>
     (new = [] \<or> int (before + length new) \<le> gn_maxTokens gn) \<and>
     (gn_maxTokens gn \<le> int (before + length new) \<or> gn_useTokenizer gn \<and> new \<noteq> [] \<and> last new = gn_eosTok gn) \<and>
     (\<not> gn_useTokenizer gn \<or> gn_eosTok gn \<notin> set (butlast new))"

lemma gen_loop_greedy:
  assumes "model_fits (me_fwd env) w" "pipeline_ok (me_fwd env) w" "0 < vocabSize (wi_config w)" "\<not> gn_unlimited gn" "\<not> gn_useSampling gn"
  shows "fwd_ok w pos (direct st) \<Longrightarrow> piped (me_fwd env) w n st \<Longrightarrow> in_vocab w allIds \<Longrightarrow> pos < int (length allIds) \<Longrightarrow>
    nat (gn_maxTokens gn - int (length generated)) = k \<Longrightarrow> int (length allIds) + int k + 16 \<le> 2 ^ 29 \<Longrightarrow>
    n + token_cost w * ((length allIds - nat pos) + k) < 1000000000 \<Longrightarrow>
    \<exists>new st' d. gen_loop env args gn generated allIds recent g st = Some ((generated @ new, g), st') \<and> in_vocab w new \<and>
      gen_ends gn (length generated) new \<and>
      fwd_run (me_fwd env) (gen_calls allIds new) (direct st) = Some (map (\<lambda>tok. (tok, None)) new, d)"
proof (induction k arbitrary: pos st n allIds generated recent)
  case 0
  then have "gn_maxTokens gn \<le> int (length generated)" by simp
  then have "gen_loop env args gn generated allIds recent g st = Some ((generated @ [], g), st)" "gen_ends gn (length generated) []"
    using assms(4) by (simp_all add: gen_loop.simps gen_ends_def)
  then show ?case by (intro exI [of _ "[]"] exI [of _ st] exI [of _ "direct st"]) (simp add: in_vocab_def gen_calls_def)
next
  case (Suc k)
  let ?fe = "me_fwd env" and ?c = "token_cost w" and ?m = "length allIds - nat pos"
  have more: "\<not> gn_maxTokens gn \<le> int (length generated)" "gn_maxTokens gn - int (length generated) = int (Suc k)"
    using Suc.prems(5) by simp_all
  have cost: "n + ?c * ?m + ?c * Suc k < 1000000000" using Suc.prems(7) by (simp only: distrib_left add.assoc)
  obtain tok st1 where a: "forward ?fe allIds False st = Some (tok, None, st1)" "forward ?fe allIds False (direct st) = Some (tok, None, direct st1)"
      "in_vocab w [tok]" "fwd_ok w (int (length allIds)) (direct st1)" "piped ?fe w (n + ?c * ?m) st1"
    using piped_answer [OF assms(1-3) Suc.prems(1,2,3,4)] Suc.prems(6) cost by auto
  have tok: "\<not> tok < 0" using a(3) by (simp add: in_vocab_def)
  have step: "gen_loop env args gn generated allIds recent g st =
      (if gn_useTokenizer gn \<and> tok = gn_eosTok gn then Some ((generated @ [tok], g), st1)
       else gen_loop env args gn (generated @ [tok]) (allIds @ [tok]) (tl recent @ [tok]) g st1)"
    using more(1) tok assms(4,5) by (subst gen_loop.simps) (simp add: a(1) next_token_def)
  have run: "fwd_run ?fe (FForward allIds False # ops) (direct st) = Some ((tok, None) # rs, d)" if "fwd_run ?fe ops (direct st1) = Some (rs, d)" for ops rs d
    using a(2) that by (simp add: fwd_result_def)
  show ?case
  proof (cases "gn_useTokenizer gn \<and> tok = gn_eosTok gn")
    case True
    moreover have "gen_ends gn (length generated) [tok]" using True more(2) by (simp add: gen_ends_def)
    moreover have "fwd_run ?fe (gen_calls allIds [tok]) (direct st) = Some ([(tok, None)], direct st1)"
      using run [of "[]" "[]" "direct st1"] by (simp add: gen_calls_Cons gen_calls_def)
    ultimately show ?thesis using step a(3) by (intro exI [of _ "[tok]"]) simp
  next
    case False
    obtain new st2 d where r: "gen_loop env args gn (generated @ [tok]) (allIds @ [tok]) (tl recent @ [tok]) g st1 = Some (((generated @ [tok]) @ new, g), st2)"
        "in_vocab w new" "gen_ends gn (length (generated @ [tok])) new"
        "fwd_run ?fe (gen_calls (allIds @ [tok]) new) (direct st1) = Some (map (\<lambda>tok. (tok, None)) new, d)"
    proof -
      have "in_vocab w (allIds @ [tok])" using Suc.prems(3) a(3) by (simp add: in_vocab_def)
      moreover have "nat (gn_maxTokens gn - int (length (generated @ [tok]))) = k" using more(2) by simp
      moreover have "int (length (allIds @ [tok])) + int k + 16 \<le> 2 ^ 29" using Suc.prems(6) by simp
      moreover have "n + ?c * ?m + ?c * ((length (allIds @ [tok]) - nat (int (length allIds))) + k) < 1000000000" using cost by simp
      ultimately show ?thesis using Suc.IH [OF a(4,5)] that by fastforce
    qed
    have "gen_ends gn (length generated) (tok # new)"
      using r(3) False more(2) by (auto simp: gen_ends_def)
    moreover have "fwd_run ?fe (gen_calls allIds (tok # new)) (direct st) = Some (map (\<lambda>tok. (tok, None)) (tok # new), d)"
      using run [OF r(4)] by (simp add: gen_calls_Cons)
    moreover have "gen_loop env args gn generated allIds recent g st = Some ((generated @ tok # new, g), st2)"
      using step False r(1) by simp
    moreover have "in_vocab w (tok # new)" using a(3) r(2) by (simp add: in_vocab_def)
    ultimately show ?thesis by blast
  qed
qed

subsection \<open>The whole run\<close>

lemma direct_attach: "fw_scheduler st = None \<Longrightarrow> fw_calls st = 0 \<Longrightarrow> direct (attachScheduler s st) = st"
  by (simp add: direct_def attachScheduler_def)

lemma init_fields: "fwd_init env (GLMForward w) = Some (ok, st) \<Longrightarrow> fw_scheduler st = None \<and> fw_calls st = 0 \<and> \<not> fw_gpuExperts st \<and> fw_index st = w"
  by (auto simp: fwd_init_def Let_def bind_eq_Some_conv GLMForward_def split: if_splits)

text \<open>The engine comes up with its scheduler, and without it is the one that \<open>init\<close> gives.\<close>

lemma start_engine_ok:
  assumes "model_fits (me_fwd env) w" "pipeline_ok (me_fwd env) w" "unat (ac_lruBytes ac) < 2 ^ 63" "ar_gpuExpertCapacity args = 0"
    and "\<forall>x \<in> set (dense_ranges w). range_ok (snd x)"
  shows "\<exists>st. start_engine env args ac w = Some (True, st) \<and> fwd_init (me_fwd env) (GLMForward w) = Some (True, direct st) \<and>
    fwd_ok w 0 (direct st) \<and> piped (me_fwd env) w 0 st"
proof -
  let ?fe = "me_fwd env"
  have env: "env_ok (fe_sched ?fe)" using assms(2) by (simp add: pipeline_ok_def)
  have layers: "\<not> numLayers (wi_config w) < 0" using assms(1) by (simp add: model_fits_def dims_ok_def)
  obtain s0 where s0: "sched_init w (ac_lruBytes ac) (ac_ramBudgetBytes ac) (ac_vramBudgetBytes ac) Scheduler = Some s0"
    using layers by (simp add: sched_init_def Let_def)
  define s where "s = (if ar_emaPredictor args then setPopularityPredictor (ar_emaAlpha args) True
      (setRouterPrefetch (ar_routerPrefetchExtra args) (ar_probPriority args) s0)
    else setRouterPrefetch (ar_routerPrefetchExtra args) (ar_probPriority args) s0)"
  have hist: "hist_ok (fe_sched ?fe) w 0 s"
    using sched_init_ok [OF s0 assms(3), of "fe_sched ?fe"]
    by (simp add: s_def setRouterPrefetch_def setPopularityPredictor_def hist_ok_def sched_ok_def)
  obtain acts where "warmDenseWeights True (se_order (fe_sched ?fe)) (Some w) = Some acts"
    using warm_dense_reads [of "se_order (fe_sched ?fe)" w] env assms(5) by (auto simp: env_ok_def)
  then obtain acts where warm: "warmDenseWeights (me_warmStart env) (se_order (fe_sched ?fe)) (Some w) = Some acts"
    by (cases "me_warmStart env") (simp_all add: warmDenseWeights_def Let_def)
  obtain st0 where st0: "fwd_init ?fe (GLMForward w) = Some (True, st0)" "fwd_ok w 0 st0"
    using init_wp [OF assms(1)] by (auto simp: returns_def)
  note f = init_fields [OF st0(1)]
  let ?st = "attachScheduler (Some s) st0"
  have "start_engine env args ac w = Some (True, ?st)"
    using s0 warm st0(1) assms(4) by (simp add: start_engine_def s_def Let_def)
  moreover have "direct ?st = st0" using f by (simp add: direct_attach)
  moreover have "piped ?fe w 0 ?st" using f hist by (simp add: piped_def attachScheduler_def)
  ultimately show ?thesis using st0 by auto
qed


text \<open>The small model of \<open>FwdPipeline\<close>, asked for two tokens after \<open>0, 1\<close>, on a host that answers nothing else.\<close>

definition small_main :: "unit main_env" where
  "small_main = \<lparr>me_host = win_host, me_getenv = (\<lambda>_. None), me_to_float = (\<lambda>_. f32_zero), me_selfTests = (\<lambda>_. 0), me_cudaInit = False,
     me_cudaParity = False, me_opens = (\<lambda>_. False), me_weights = head_env, me_files = (\<lambda>_. None), me_parse = (\<lambda>_. None),
     me_parsed = (\<lambda>_. JNull), me_numText = (\<lambda>_. []), me_conv = no_conv, me_vocabOrder = id, me_canonical = (\<lambda>_. None),
     me_exeDir = ''/opt'', me_cwd = ''/'',
     me_python = (\<lambda>_ _ _. \<lparr>pe_pipes = False, pe_fork = 0, pe_write = 0, pe_read = 0, pe_banner = [], pe_reply = (\<lambda>_. []), pe_writable = (\<lambda>_. False)\<rparr>),
     me_warmStart = True, me_fwd = pt_env, me_nth = (\<lambda>_ _ xs. xs), me_sort = (\<lambda>_ _ xs. xs), me_tsort = (\<lambda>_ _ xs. xs),
     me_draw = (\<lambda>g. (f32_zero, g)), me_rng = (\<lambda>_. ()), me_device = 0\<rparr>"

definition small_args :: args where
  "small_args = default_args\<lparr>ar_modelDir := ''d'', ar_promptTokens := [0, 1], ar_maxTokens := 2\<rparr>"


subsection \<open>Requests that cannot be honoured\<close>

lemma run_prompt_exit: "run_prompt env args toks st = Some oc \<Longrightarrow> oc_exit oc = 0"
  by (auto simp: run_prompt_def Let_def bind_eq_Some_conv exits_def split: if_splits)

lemma serve_exit: "serve_model env args ac w = Some oc \<Longrightarrow> oc_exit oc = 0 \<or> oc = exits 1"
  by (auto simp: serve_model_def bind_eq_Some_conv dump_tokens_def run_prompt_exit split: if_splits dest: run_prompt_exit)

lemma no_gpu_no_start:
  "0 < ar_gpuExpertCapacity args \<Longrightarrow> \<not> fe_gpuAvail (me_fwd env) \<Longrightarrow> start_engine env args ac w = Some (ready, st) \<Longrightarrow> \<not> ready"
  by (auto simp: start_engine_def Let_def bind_eq_Some_conv enableGpuExperts_def attachScheduler_def gpuExpertCacheConfig_def
      split: if_splits dest!: init_fields)

lemma serve_refuses:
  assumes "ar_mtp args \<or> 0 < ar_gpuExpertCapacity args \<and> \<not> fe_gpuAvail (me_fwd env) \<and> ar_dumpTokens args = []"
    and "serve_model env args ac w = Some oc"
  shows "oc = exits 1"
proof (cases "ar_mtp args")
  case True
  then have "mtp_gate args w \<noteq> MtpOff" by (simp add: mtp_gate_def)
  then show ?thesis using assms(2) by (simp add: serve_model_def)
next
  case False
  then show ?thesis using assms no_gpu_no_start [of args env ac w]
    by (auto simp: serve_model_def bind_eq_Some_conv split: if_splits)
qed



text \<open>The self test's gate lets some checkpoint pass; the program's refuses it, too.\<close>

lemma mtp_gate_never_opens:
  "ar_mtp args \<Longrightarrow> mtpGateReason (numMtpModules (wi_config w)) (hasMtpTensors w) = None \<Longrightarrow> serve_model env args ac w = Some (exits 1)"
  by (simp add: serve_model_def mtp_gate_def mtpGateReason_def split: if_splits)

subsection \<open>Prompts in words\<close>

lemma decodeIds_total: "\<exists>s toks'. decodeIds args ids toks = Some (s, toks')"
  using py_decode_total [of "tk_pyEnv toks" ids True "tk_python toks"] by (auto simp: decodeIds_def)


text \<open>A child that answers every request with the ids 0 and 1, and the small model.\<close>

definition small_toks :: toks where
  "small_toks = \<lparr>tk_native = NativeBpeTokenizer, tk_python = PythonTokenizer,
     tk_pyEnv = \<lparr>pe_pipes = True, pe_fork = 4, pe_write = 5, pe_read = 6, pe_banner = [], pe_reply = (\<lambda>_. ids_reply [0, 1]), pe_writable = (\<lambda>_. True)\<rparr>\<rparr>"

definition text_args :: args where
  "text_args = default_args\<lparr>ar_modelDir := ''d'', ar_prompt := ''hello'', ar_maxTokens := 3\<rparr>"

lemma small_input: "input_ids text_args small_toks = Some ([0, 1], small_toks)"
proof -
  have "length (ids_reply [0, 1]) \<le> 100" by code_simp
  then have fits: "length (ids_reply [0, 1]) \<le> kMaxPipeBytes" by (simp add: kMaxPipeBytes_def)
  have "ask_ids (tk_pyEnv small_toks) req (tk_python small_toks) = ([0, 1], tk_python small_toks)" for req
    by (rule ask_ids_exact [OF _ _ _ _ fits]) (auto simp: small_toks_def PythonTokenizer_def)
  then show ?thesis by (simp add: input_ids_def py_applyChatTemplate_def text_args_def default_args_def)
qed


end
