(* ===== verification/CudaKernels.thy ===== *)
theory CudaKernels
  imports ForwardProofs
begin

text \<open>
  \<open>compute/cuda_kernels.cu\<close> and the host wrappers around its kernels in \<open>compute/cuda_backend.cpp\<close>. A block
  is a list with one cell of shared memory per thread; between two barriers its threads run one after
  another in an order of the environment. \<^const>\<open>None\<close> is an access outside a vector. Dimensions are not negative.
\<close>

subsection \<open>Blocks\<close>

text \<open>
  What the device and its compiler choose: how \<open>acc += a * b\<close> is rounded (contracted or not), \<open>__expf\<close>, and the
  order of the threads of a block in the phase of a stride.
\<close>

record cuda =
  cu_mac :: "f32 \<Rightarrow> f32 \<Rightarrow> f32 \<Rightarrow> f32"
  cu_exp :: "f32 \<Rightarrow> f32"
  cu_order :: "nat \<Rightarrow> nat \<Rightarrow> nat list"

definition kBlock :: nat where "kBlock = 256"

text \<open>\<open>for (i = tid; i < n; i += blockDim.x)\<close>.\<close>

function strided :: "nat \<Rightarrow> nat \<Rightarrow> nat \<Rightarrow> nat list" where
  "strided bd n i = (if i < n \<and> 0 < bd then i # strided bd n (i + bd) else [])"
  by pat_completeness auto

termination
  by (relation "measure (\<lambda>(bd, n, i). n - i)") auto

declare strided.simps [simp del]

text \<open>The threads of a grid that pass the guard \<open>i < n\<close>.\<close>

definition global_threads :: "nat \<Rightarrow> nat \<Rightarrow> nat list" where
  "global_threads bd n = filter (\<lambda>i. i < n) (concat (map (\<lambda>block. map (\<lambda>tid. block * bd + tid) [0..<bd]) [0..<(n + bd - 1) div bd]))"

text \<open>One thread between two barriers of a reduction, all of them, and the loop over the strides.\<close>

definition reduce_thread :: "('a \<Rightarrow> 'a \<Rightarrow> 'a) \<Rightarrow> nat \<Rightarrow> nat \<Rightarrow> 'a list \<Rightarrow> 'a list" where
  "reduce_thread merge stride tid v = (if tid < stride then v[tid := merge (v ! tid) (v ! (tid + stride))] else v)"

function block_reduce :: "('a \<Rightarrow> 'a \<Rightarrow> 'a) \<Rightarrow> (nat \<Rightarrow> nat list) \<Rightarrow> nat \<Rightarrow> 'a list \<Rightarrow> 'a list" where
  "block_reduce merge order stride v =
     (if stride = 0 then v else block_reduce merge order (stride div 2) (fold (reduce_thread merge stride) (order stride) v))"
  by pat_completeness auto

termination
  by (relation "measure (\<lambda>(merge, order, stride, v). stride)") auto

declare block_reduce.simps [simp del]

subsection \<open>Kernels\<close>

definition dev_bf16 :: "u16 \<Rightarrow> f32" where
  "dev_bf16 b = push_bit 16 (ucast b)"

definition embeddingGather :: "u16 list \<Rightarrow> nat \<Rightarrow> nat \<Rightarrow> f32 list \<Rightarrow> f32 list option" where
  "embeddingGather emb tokenId hidden out =
     run_steps (\<lambda>i out. do { w \<leftarrow> rd emb (tokenId * hidden + i); wr out i (dev_bf16 w) }) (global_threads 128 hidden) out"

definition thread_dot :: "cuda \<Rightarrow> u16 list \<Rightarrow> f32 list \<Rightarrow> nat \<Rightarrow> nat \<Rightarrow> nat \<Rightarrow> f32 option" where
  "thread_dot c W x K row tid =
     run_steps (\<lambda>k acc. do { w \<leftarrow> rd W (row * K + k); v \<leftarrow> rd x k; Some (cu_mac c acc (dev_bf16 w) v) }) (strided kBlock K tid) f32_zero"

definition matvec_row :: "cuda \<Rightarrow> u16 list \<Rightarrow> f32 list \<Rightarrow> nat \<Rightarrow> nat \<Rightarrow> f32 option" where
  "matvec_row c W x K row = do {
     partials \<leftarrow> map_M (thread_dot c W x K row) [0..<kBlock];
     Some (block_reduce f32_add (cu_order c row) (kBlock div 2) partials ! 0)
   }"

text \<open>One block for each row; \<open>matvec\<close> and its variant on a stream.\<close>

definition matvec :: "cuda \<Rightarrow> u16 list \<Rightarrow> f32 list \<Rightarrow> nat \<Rightarrow> nat \<Rightarrow> f32 list option" where
  "matvec c W x M K = map_M (matvec_row c W x K) [0..<M]"

text \<open>\<open>fmaxf\<close>, which prefers a number to a NaN.\<close>

definition fmaxf :: "f32 \<Rightarrow> f32 \<Rightarrow> f32" where
  "fmaxf a b = (if f32_is_nan a then b else if f32_is_nan b then a else f32_max a b)"

definition softmaxKernel :: "cuda \<Rightarrow> f32 list \<Rightarrow> f32 list" where
  "softmaxKernel c x =
     (let n = length x;
          local_max = map (\<lambda>tid. foldl (\<lambda>m i. fmaxf m (x ! i)) (if tid < n then x ! tid else worst_logit) (strided kBlock n (tid + kBlock))) [0..<kBlock];
          sMax = block_reduce fmaxf (cu_order c 0) (kBlock div 2) local_max ! 0;
          local_sum = map (\<lambda>tid. foldl (\<lambda>s i. f32_add s (cu_exp c (f32_sub (x ! i) sMax))) f32_zero (strided kBlock n tid)) [0..<kBlock];
          sExp = block_reduce f32_add (cu_order c 1) (kBlock div 2) local_sum ! 0
      in map (\<lambda>v. f32_div (cu_exp c (f32_sub v sMax)) sExp) x)"

definition argmax_merge :: "f32 \<times> nat \<Rightarrow> f32 \<times> nat \<Rightarrow> f32 \<times> nat" where
  "argmax_merge a b = (if f32_lt (fst a) (fst b) then b else a)"

text \<open>The two arrays of shared memory are one list of pairs.\<close>

definition argmaxKernel :: "cuda \<Rightarrow> f32 list \<Rightarrow> nat" where
  "argmaxKernel c x =
     snd (block_reduce argmax_merge (cu_order c 0) (kBlock div 2) (map (\<lambda>tid. local_best x (strided kBlock (length x) tid)) [0..<kBlock]) ! 0)"

definition dev_silu :: "cuda \<Rightarrow> f32 \<Rightarrow> f32 \<Rightarrow> f32" where
  "dev_silu c g u = f32_mul (f32_div g (f32_add f32_one (cu_exp c (f32_minus g)))) u"

definition siluScale :: "cuda \<Rightarrow> f32 list \<Rightarrow> nat \<Rightarrow> f32 list \<Rightarrow> f32 list option" where
  "siluScale c up n act =
     run_steps (\<lambda>i act. do { g \<leftarrow> rd act i; u \<leftarrow> rd up i; wr act i (dev_silu c g u) }) (global_threads kBlock n) act"

definition expertFfn :: "cuda \<Rightarrow> u16 list \<Rightarrow> u16 list \<Rightarrow> u16 list \<Rightarrow> f32 list \<Rightarrow> nat \<Rightarrow> nat \<Rightarrow> f32 list option" where
  "expertFfn c gateW upW downW x hidden interSize = do {
     act \<leftarrow> matvec c gateW x interSize hidden;
     up \<leftarrow> matvec c upW x interSize hidden;
     act \<leftarrow> siluScale c up interSize act;
     matvec c downW act hidden interSize
   }"

text \<open>The call in \<open>gpuExpertFFN\<close>: the three projections follow each other in the slot's memory.\<close>

definition device_ffn :: "cuda \<Rightarrow> ffn_kernel" where
  "device_ffn c w x hidden interSize =
     (let W = u16s w; half = nat hidden * nat interSize in
      the (expertFfn c W (drop half W) (drop (2 * half) W) x (nat hidden) (nat interSize)))"

subsection \<open>Reductions do not race\<close>

text \<open>Within a phase no thread reads what another writes.\<close>

lemma length_phase [simp]: "length (fold (reduce_thread merge stride) ord v) = length v"
  by (induction ord arbitrary: v) (simp_all add: reduce_thread_def)

lemma phase_nth:
  "distinct ord \<Longrightarrow> set ord \<subseteq> {..<length v} \<Longrightarrow> i < length v \<Longrightarrow>
   fold (reduce_thread merge stride) ord v ! i = (if i \<in> set ord \<and> i < stride then merge (v ! i) (v ! (i + stride)) else v ! i)"
proof (induction ord arbitrary: v)
  case (Cons tid ord)
  let ?v = "reduce_thread merge stride tid v"
  have len: "length ?v = length v" by (simp add: reduce_thread_def)
  have same: "?v ! j = v ! j" if "j \<noteq> tid" for j using that by (simp add: reduce_thread_def)
  have IH: "fold (reduce_thread merge stride) ord ?v ! i = (if i \<in> set ord \<and> i < stride then merge (?v ! i) (?v ! (i + stride)) else ?v ! i)"
    using Cons.IH [of ?v] Cons.prems len by simp
  show ?case
  proof (cases "i = tid")
    case True
    have "?v ! tid = (if tid < stride then merge (v ! tid) (v ! (tid + stride)) else v ! tid)"
      using Cons.prems(3) True by (simp add: reduce_thread_def)
    then show ?thesis using IH Cons.prems(1) True by simp
  next
    case False
    have "?v ! (i + stride) = v ! (i + stride)" if "i < stride"
      by (cases "tid < stride") (use that in \<open>simp_all add: reduce_thread_def\<close>)
    then show ?thesis using IH False same [of i] by simp
  qed
qed simp

definition orders :: "nat \<Rightarrow> (nat \<Rightarrow> nat list) \<Rightarrow> bool" where
  "orders n order \<longleftrightarrow> (\<forall>s. distinct (order s) \<and> set (order s) = {..<n})"

text \<open>So the order of the threads has no influence.\<close>

lemma reduce_order_free:
  "orders n order \<Longrightarrow> length v = n \<Longrightarrow> block_reduce merge order stride v = block_reduce merge (\<lambda>_. [0..<n]) stride v"
proof (induction merge order stride v rule: block_reduce.induct)
  case (1 merge order stride v)
  have "fold (reduce_thread merge stride) (order stride) v = fold (reduce_thread merge stride) [0..<n] v"
    using 1(2,3) by (intro nth_equalityI) (simp_all add: phase_nth orders_def atLeast0LessThan)
  then show ?case using 1 by (subst (1 2) block_reduce.simps) simp
qed

lemma sum_halves: "(\<Sum>i < m + n. f i) = (\<Sum>i < m. f i) + (\<Sum>i < n :: nat. f (i + m) :: 'a :: comm_monoid_add)"
  by (induction n) (simp_all add: ac_simps)

text \<open>What the cells stand for is added up: each cell is counted once.\<close>

locale block_reduction =
  fixes merge :: "'a \<Rightarrow> 'a \<Rightarrow> 'a"
    and covers :: "'a \<Rightarrow> nat multiset \<Rightarrow> bool"
  assumes covers_merge: "covers a A \<Longrightarrow> covers b B \<Longrightarrow> covers (merge a b) (A + B)"
begin

lemma reduce_covers:
  "orders n order \<Longrightarrow> length v = n \<Longrightarrow> 2 * 2 ^ k \<le> n \<Longrightarrow> (\<And>i. i < 2 * 2 ^ k \<Longrightarrow> covers (v ! i) (A i)) \<Longrightarrow>
   covers (block_reduce merge order (2 ^ k) v ! 0) (\<Sum>i < 2 * 2 ^ k. A i)"
proof (induction k arbitrary: v A)
  case 0
  let ?v = "fold (reduce_thread merge 1) (order 1) v"
  have "?v ! 0 = merge (v ! 0) (v ! 1)" using 0(1-3) by (simp add: phase_nth orders_def)
  moreover have "covers (merge (v ! 0) (v ! 1)) (A 0 + A 1)" using 0(4) by (intro covers_merge) simp_all
  ultimately show ?case by (subst block_reduce.simps, subst block_reduce.simps) (simp add: numeral_2_eq_2)
next
  case (Suc k)
  let ?m = "2 ^ Suc k :: nat" and ?v = "fold (reduce_thread merge (2 ^ Suc k)) (order (2 ^ Suc k)) v"
  have cells: "covers (?v ! i) (A i + A (i + ?m))" if "i < 2 * 2 ^ k" for i
  proof -
    have i: "i < ?m" "i < n" "i + ?m < 2 * 2 ^ Suc k" using that Suc.prems(3) by simp_all
    then have "?v ! i = merge (v ! i) (v ! (i + ?m))" using Suc.prems(1,2) by (simp add: phase_nth orders_def)
    then show ?thesis using Suc.prems(4) i by (simp add: covers_merge)
  qed
  have "covers (block_reduce merge order (2 ^ k) ?v ! 0) (\<Sum>i < 2 * 2 ^ k. A i + A (i + ?m))"
    by (rule Suc.IH [OF Suc.prems(1) _ _ cells]) (use Suc.prems(2,3) in simp_all)
  moreover have "(\<Sum>i < 2 * 2 ^ k. A i + A (i + ?m)) = (\<Sum>i < 2 * 2 ^ Suc k. A i)"
  proof -
    have "(\<Sum>i < ?m + ?m. A i) = (\<Sum>i < ?m. A i) + (\<Sum>i < ?m. A (i + ?m))"
      by (rule sum_halves)
    then show ?thesis by (simp add: sum.distrib mult_2)
  qed
  moreover have "block_reduce merge order (2 ^ Suc k) v = block_reduce merge order (2 ^ k) ?v"
    by (subst block_reduce.simps) simp
  ultimately show ?case by simp
qed

end

subsection \<open>The threads share the work\<close>

lemma strided_count:
  "0 < bd \<Longrightarrow> count (mset (strided bd n i)) j = (if i \<le> j \<and> j < n \<and> (j - i) mod bd = 0 then 1 else 0)"
proof (induction bd n i rule: strided.induct)
  case (1 bd n i)
  show ?case
  proof (cases "i < n")
    case True
    have "(if i + bd \<le> j \<and> j < n \<and> (j - (i + bd)) mod bd = 0 then 1 else 0) + (if i = j then 1 else 0) =
        (if i \<le> j \<and> j < n \<and> (j - i) mod bd = 0 then 1 else (0 :: nat))"
    proof (cases "i + bd \<le> j")
      case le: True
      then have "(j - i) mod bd = (j - (i + bd)) mod bd" using le_mod_geq [of bd "j - i"] by (simp add: diff_diff_add)
      then show ?thesis using le 1(2) by auto
    next
      case False
      then show ?thesis using True by auto
    qed
    then show ?thesis using 1 True by (subst strided.simps) (auto split: if_splits)
  next
    case False
    then show ?thesis by (subst strided.simps) simp
  qed
qed

lemma strided_shares:
  assumes "0 < bd"
  shows "(\<Sum>tid < bd. mset (strided bd n tid)) = mset [0..<n]"
proof (rule multiset_eqI)
  fix j
  have iff: "tid \<le> j \<and> j < n \<and> (j - tid) mod bd = 0 \<longleftrightarrow> j < n \<and> tid = j mod bd" if "tid < bd" for tid
  proof
    assume a: "tid \<le> j \<and> j < n \<and> (j - tid) mod bd = 0"
    then have "j mod bd = tid mod bd" by (metis le_add_diff_inverse mod_add_right_eq add.right_neutral)
    then show "j < n \<and> tid = j mod bd" using a that by simp
  next
    assume a: "j < n \<and> tid = j mod bd"
    then show "tid \<le> j \<and> j < n \<and> (j - tid) mod bd = 0" by (simp add: minus_mod_eq_mult_div)
  qed
  have "count (\<Sum>tid < bd. mset (strided bd n tid)) j = (\<Sum>tid < bd. if j < n \<and> tid = j mod bd then 1 else 0)"
    using strided_count [OF assms] iff by (simp add: count_sum)
  also have "\<dots> = (if j < n then 1 else 0)" using assms by (cases "j < n") simp_all
  also have "\<dots> = count (mset [0..<n]) j" using distinct_count_atmost_1 [THEN iffD1, OF distinct_upt [of 0 n]] by simp
  finally show "count (\<Sum>tid < bd. mset (strided bd n tid)) j = count (mset [0..<n]) j" .
qed

subsection \<open>Dot products\<close>

text \<open>A way to sum products: which product is added where.\<close>

datatype dot_tree = NoTerm | AddTerm dot_tree nat | AddTrees dot_tree dot_tree

fun dot_terms :: "dot_tree \<Rightarrow> nat multiset" where
  "dot_terms NoTerm = {#}"
| "dot_terms (AddTerm t k) = add_mset k (dot_terms t)"
| "dot_terms (AddTrees t u) = dot_terms t + dot_terms u"

fun dot_value :: "cuda \<Rightarrow> u16 list \<Rightarrow> f32 list \<Rightarrow> nat \<Rightarrow> dot_tree \<Rightarrow> f32" where
  "dot_value c W x base NoTerm = f32_zero"
| "dot_value c W x base (AddTerm t k) = cu_mac c (dot_value c W x base t) (dev_bf16 (W ! (base + k))) (x ! k)"
| "dot_value c W x base (AddTrees t u) = f32_add (dot_value c W x base t) (dot_value c W x base u)"

text \<open>A value that sums the products of the given positions in some way, each as often as it is given.\<close>

definition sums_of :: "cuda \<Rightarrow> u16 list \<Rightarrow> f32 list \<Rightarrow> nat \<Rightarrow> f32 \<Rightarrow> nat multiset \<Rightarrow> bool" where
  "sums_of c W x base y ks \<longleftrightarrow> (\<exists>t. dot_value c W x base t = y \<and> dot_terms t = ks)"

interpretation dot_sum: block_reduction f32_add "sums_of c W x base" for c W x base
proof
  fix a b :: f32 and A B assume "sums_of c W x base a A" "sums_of c W x base b B"
  then obtain t u where "dot_value c W x base t = a" "dot_terms t = A" "dot_value c W x base u = b" "dot_terms u = B"
    by (auto simp: sums_of_def)
  then show "sums_of c W x base (f32_add a b) (A + B)"
    unfolding sums_of_def by (intro exI [of _ "AddTrees t u"]) simp
qed

lemma thread_terms:
  assumes "\<forall>k \<in> set ks. base + k < length W \<and> k < length x"
  shows "\<exists>u. run_steps (\<lambda>k acc. do { w \<leftarrow> rd W (base + k); v \<leftarrow> rd x k; Some (cu_mac c acc (dev_bf16 w) v) }) ks
      (dot_value c W x base t) = Some (dot_value c W x base u) \<and> dot_terms u = dot_terms t + mset ks"
  using assms
proof (induction ks arbitrary: t)
  case (Cons k ks)
  then show ?case using Cons.IH [of "AddTerm t k"] by (simp add: rd_def)
qed auto

lemma strided_below: "j \<in> set (strided bd n i) \<Longrightarrow> j < n"
  by (induction bd n i rule: strided.induct) (subst (asm) (2) strided.simps, auto split: if_splits)

lemma thread_dot_sums:
  assumes "row * K + K \<le> length W" "K \<le> length x"
  shows "\<exists>y. thread_dot c W x K row tid = Some y \<and> sums_of c W x (row * K) y (mset (strided kBlock K tid))"
proof -
  have "\<forall>k \<in> set (strided kBlock K tid). row * K + k < length W \<and> k < length x" using strided_below assms by fastforce
  from thread_terms [OF this, of c NoTerm] show ?thesis by (auto simp: thread_dot_def sums_of_def)
qed

lemma map_M_total: "(\<And>x. x \<in> set xs \<Longrightarrow> \<exists>y. f x = Some y \<and> P x y) \<Longrightarrow>
  \<exists>ys. map_M f xs = Some ys \<and> length ys = length xs \<and> (\<forall>i < length xs. P (xs ! i) (ys ! i))"
proof (induction xs)
  case (Cons x xs)
  obtain y where y: "f x = Some y" "P x y" using Cons.prems [of x] by auto
  obtain ys where "map_M f xs = Some ys" "length ys = length xs" "\<forall>i < length xs. P (xs ! i) (ys ! i)"
    using Cons.IH Cons.prems by auto
  then show ?case using y by (auto simp: less_Suc_eq_0_disj)
qed simp

lemma matvec_row_sums:
  assumes "orders kBlock (cu_order c row)" "row * K + K \<le> length W" "K \<le> length x"
  shows "\<exists>y. matvec_row c W x K row = Some y \<and> sums_of c W x (row * K) y (mset [0..<K])"
proof -
  obtain v where v: "map_M (thread_dot c W x K row) [0..<kBlock] = Some v" "length v = kBlock"
      "\<And>tid. tid < kBlock \<Longrightarrow> sums_of c W x (row * K) (v ! tid) (mset (strided kBlock K tid))"
    using map_M_total [of "[0..<kBlock]" "thread_dot c W x K row" "\<lambda>tid y. sums_of c W x (row * K) y (mset (strided kBlock K tid))"]
      thread_dot_sums [OF assms(2,3)] by auto
  have "sums_of c W x (row * K) (block_reduce f32_add (cu_order c row) (2 ^ 7) v ! 0) (\<Sum>tid < 2 * 2 ^ 7. mset (strided kBlock K tid))"
    by (rule dot_sum.reduce_covers [OF assms(1) v(2)]) (use v(3) in \<open>simp_all add: kBlock_def\<close>)
  moreover have "(\<Sum>tid < 2 * 2 ^ 7. mset (strided kBlock K tid)) = mset [0..<K]"
    using strided_shares [of kBlock K] by (simp add: kBlock_def)
  ultimately show ?thesis using v(1) by (simp add: matvec_row_def kBlock_def)
qed

lemma matvec_sums:
  assumes "\<forall>row. orders kBlock (cu_order c row)" "M * K \<le> length W" "K \<le> length x"
  shows "\<exists>y. matvec c W x M K = Some y \<and> length y = M \<and> (\<forall>row < M. sums_of c W x (row * K) (y ! row) (mset [0..<K]))"
proof -
  have "row * K + K \<le> length W" if "row < M" for row
    using mult_le_mono1 [of "Suc row" M K] that assms(2) by simp
  then have "\<exists>y. matvec_row c W x K row = Some y \<and> sums_of c W x (row * K) y (mset [0..<K])" if "row \<in> set [0..<M]" for row
    using matvec_row_sums [of c row K W x] assms that by simp
  from map_M_total [OF this, of "[0..<M]"] show ?thesis by (auto simp: matvec_def)
qed

subsection \<open>Grids\<close>

lemma grid_covers: "0 < bd \<Longrightarrow> (n :: nat) \<le> (n + bd - 1) div bd * bd"
proof -
  assume bd: "0 < bd"
  have "(n + bd - 1) div bd * bd + (n + bd - 1) mod bd = n + bd - 1" by (rule div_mult_mod_eq)
  moreover have "(n + bd - 1) mod bd < bd" using bd by simp
  ultimately show ?thesis by linarith
qed

lemma grid_list: "concat (map (\<lambda>block. map (\<lambda>tid. block * bd + tid) [0..<bd]) [0..<g]) = [0..<g * bd]"
proof (induction g)
  case (Suc g)
  have "map (\<lambda>tid. g * bd + tid) [0..<bd] = [g * bd..<g * bd + bd]" by (simp add: map_add_upt add.commute)
  moreover have "[0..<Suc g * bd] = [0..<g * bd] @ [g * bd..<g * bd + bd]"
    using upt_add_eq_append [of 0 "g * bd" bd] by (simp add: add.commute)
  ultimately show ?case using Suc by simp
qed simp

lemma global_threads_all: "0 < bd \<Longrightarrow> global_threads bd n = [0..<n]"
proof -
  assume "0 < bd"
  then obtain k where k: "(n + bd - 1) div bd * bd = n + k" using grid_covers [of bd n] le_Suc_ex by metis
  have split: "[0..<n + k] = [0..<n] @ [n..<n + k]" using upt_add_eq_append [of 0 n k] by simp
  have "global_threads bd n = filter (\<lambda>i. i < n) [0..<n] @ filter (\<lambda>i. i < n) [n..<n + k]"
    unfolding global_threads_def grid_list k split by (rule filter_append)
  moreover have "filter (\<lambda>i. i < n) [0..<n] = [0..<n]" "filter (\<lambda>i. i < n) [n..<n + k] = []" by simp_all
  ultimately show ?thesis by simp
qed

lemma run_steps_append: "run_steps f (xs @ ys) s = Option.bind (run_steps f xs s) (run_steps f ys)"
proof (induction xs arbitrary: s)
  case (Cons x xs)
  then show ?case by (cases "f x s") simp_all
qed simp

lemma siluScale_value:
  assumes "length act = n" "length up = n"
  shows "siluScale c up n act = Some (map2 (dev_silu c) act up)"
proof -
  have "run_steps (\<lambda>i act. do { g \<leftarrow> rd act i; u \<leftarrow> rd up i; wr act i (dev_silu c g u) }) [0..<m] act =
      Some (map2 (dev_silu c) (take m act) (take m up) @ drop m act)" if "m \<le> n" for m
    using that
  proof (induction m)
    case (Suc m)
    have m: "m < length act" "m < length up" using Suc.prems assms by simp_all
    have "run_steps (\<lambda>i act. do { g \<leftarrow> rd act i; u \<leftarrow> rd up i; wr act i (dev_silu c g u) }) ([0..<m] @ [m]) act =
        Some ((map2 (dev_silu c) (take m act) (take m up) @ drop m act)[m := dev_silu c (act ! m) (up ! m)])"
      using Suc.IH Suc.prems m by (simp add: run_steps_append rd_def wr_def nth_append)
    also have "\<dots> = Some (map2 (dev_silu c) (take (Suc m) act) (take (Suc m) up) @ drop (Suc m) act)"
      using m by (simp add: take_Suc_conv_app_nth list_update_append Cons_nth_drop_Suc [symmetric] flip: Cons_nth_drop_Suc)
    finally show ?case by simp
  qed simp
  from this [of n] show ?thesis using assms by (simp add: siluScale_def global_threads_all kBlock_def)
qed

subsection \<open>The expert network on the device\<close>

text \<open>
  C9. The expert network on the device: for weights and an input of the sizes asked for, the four kernel launches stay
  inside every vector and compute the network: each hidden unit is the gated product of two sums
  and each output one sum, and every one of these sums adds each of its products exactly once, whatever
  order the threads of each block take in each phase of the reduction; so the result can differ from the host's only by
  the order of the additions, the contraction of multiply and add, and the exponential function.
\<close>

theorem device_network_exact:
  assumes "\<forall>row. orders kBlock (cu_order c row)" "length x = hidden"
    and "interSize * hidden \<le> length gateW" "interSize * hidden \<le> length upW" "hidden * interSize \<le> length downW"
  shows "\<exists>gates ups out. expertFfn c gateW upW downW x hidden interSize = Some out \<and>
    length gates = interSize \<and> length ups = interSize \<and> length out = hidden \<and>
    (\<forall>r < interSize. sums_of c gateW x (r * hidden) (gates ! r) (mset [0..<hidden]) \<and> sums_of c upW x (r * hidden) (ups ! r) (mset [0..<hidden])) \<and>
    (\<forall>r < hidden. sums_of c downW (map2 (dev_silu c) gates ups) (r * interSize) (out ! r) (mset [0..<interSize]))"
proof -
  obtain gates where g: "matvec c gateW x interSize hidden = Some gates" "length gates = interSize"
      "\<forall>r < interSize. sums_of c gateW x (r * hidden) (gates ! r) (mset [0..<hidden])"
    using matvec_sums [OF assms(1,3)] assms(2) by blast
  obtain ups where u: "matvec c upW x interSize hidden = Some ups" "length ups = interSize"
      "\<forall>r < interSize. sums_of c upW x (r * hidden) (ups ! r) (mset [0..<hidden])"
    using matvec_sums [OF assms(1,4)] assms(2) by blast
  let ?act = "map2 (dev_silu c) gates ups"
  have "interSize \<le> length ?act" using g(2) u(2) by simp
  from matvec_sums [OF assms(1,5) this] obtain out where o: "matvec c downW ?act hidden interSize = Some out" "length out = hidden"
      "\<forall>r < hidden. sums_of c downW ?act (r * interSize) (out ! r) (mset [0..<interSize])" by blast
  have "siluScale c ups interSize gates = Some ?act" by (rule siluScale_value [OF g(2) u(2)])
  then have "expertFfn c gateW upW downW x hidden interSize = Some out" using g(1) u(1) o(1) by (simp add: expertFfn_def)
  then show ?thesis using g(2,3) u(2,3) o(2,3) by blast
qed

definition plain_cuda :: cuda where
  "plain_cuda = \<lparr>cu_mac = (\<lambda>acc a b. f32_add acc (f32_mul a b)), cu_exp = (\<lambda>_. f32_one), cu_order = (\<lambda>_ s. if even s then [0..<kBlock] else rev [0..<kBlock])\<rparr>"

lemma plain_orders: "orders kBlock (cu_order plain_cuda row)"
  by (simp add: orders_def plain_cuda_def atLeast0LessThan)

theorem device_network_exact_witness:
  "\<exists>gates out. expertFfn plain_cuda [0x3F80, 0x4000] [0x3F80, 0x3F80] [0x3F80, 0x3F80] [f32_one, f32_one] 2 1 = Some out \<and>
    length out = 2 \<and> sums_of plain_cuda [0x3F80, 0x4000] [f32_one, f32_one] 0 (gates ! 0) (mset [0..<2])"
proof -
  have "\<forall>row. orders kBlock (cu_order plain_cuda row)" "length [f32_one, f32_one] = 2" "1 * 2 \<le> length [0x3F80, 0x4000 :: u16]"
    "1 * 2 \<le> length [0x3F80, 0x3F80 :: u16]" "2 * 1 \<le> length [0x3F80, 0x3F80 :: u16]" by (simp_all add: plain_orders)
  from device_network_exact [OF this] obtain gates ups out
    where r: "expertFfn plain_cuda [0x3F80, 0x4000] [0x3F80, 0x3F80] [0x3F80, 0x3F80] [f32_one, f32_one] 2 1 = Some out" "length out = 2"
    and q: "\<forall>r < 1. sums_of plain_cuda [0x3F80, 0x4000] [f32_one, f32_one] (r * 2) (gates ! r) (mset [0..<2]) \<and>
       sums_of plain_cuda [0x3F80, 0x3F80] [f32_one, f32_one] (r * 2) (ups ! r) (mset [0..<2])"
    by (elim exE conjE) (rule that)
  have "sums_of plain_cuda [0x3F80, 0x4000] [f32_one, f32_one] (0 * 2) (gates ! 0) (mset [0..<2])"
    by (rule q [rule_format, OF zero_less_one, THEN conjunct1])
  then show ?thesis using r unfolding mult_0 by (intro exI conjI)
qed

subsection \<open>The greatest element\<close>

interpretation greatest: block_reduction argmax_merge "\<lambda>p vs. best_of x (set_mset vs) p" for x
proof
  fix a b :: "f32 \<times> nat" and A B assume "best_of x (set_mset A) a" "best_of x (set_mset B) b"
  then show "best_of x (set_mset (A + B)) (argmax_merge a b)"
    using best_of_merge [of x "set_mset A" "fst a" "snd a" "set_mset B" "fst b" "snd b"]
    by (cases a; cases b) (simp add: argmax_merge_def split: if_splits)
qed

text \<open>
  C37. The argmax kernel, whatever order the threads take: it answers an index of the vector whose element is
  above $-10^{30}$ and exceeded by no other, and 0 when no element is above that.
\<close>

theorem argmax_kernel_greatest:
  assumes "orders kBlock (cu_order c 0)"
  shows "if \<exists>v < length x. f32_lt worst_logit (x ! v)
    then argmaxKernel c x < length x \<and> f32_lt worst_logit (x ! argmaxKernel c x) \<and> (\<forall>v < length x. \<not> f32_lt (x ! argmaxKernel c x) (x ! v))
    else argmaxKernel c x = 0"
proof -
  let ?v = "map (\<lambda>tid. local_best x (strided kBlock (length x) tid)) [0..<kBlock]"
  let ?r = "block_reduce argmax_merge (cu_order c 0) (2 ^ 7) ?v ! 0"
  have part: "best_of x (set part) (local_best x part)" for part
    using local_best_spec [OF best_of_start, of x part] by (simp add: local_best_def)
  have "best_of x (set_mset (\<Sum>tid < 2 * 2 ^ 7. mset (strided kBlock (length x) tid))) ?r"
    by (rule greatest.reduce_covers [OF assms]) (use part in \<open>simp_all add: kBlock_def\<close>)
  moreover have "(\<Sum>tid < 2 * 2 ^ 7. mset (strided kBlock (length x) tid)) = mset [0..<length x]"
    using strided_shares [of kBlock "length x"] by (simp add: kBlock_def)
  ultimately have best: "best_of x {..<length x} ?r" by (simp add: atLeast0LessThan)
  have "argmaxKernel c x = snd ?r" by (simp add: argmaxKernel_def kBlock_def)
  then show ?thesis using best by (cases ?r) (auto simp: best_of_def)
qed

theorem argmax_kernel_greatest_witness:
  "argmaxKernel plain_cuda [f32_zero, f32_one, f32_zero] = 1"
proof -
  have f: "f32_lt worst_logit f32_one" "f32_lt f32_zero f32_one" by code_simp+
  have "\<exists>v < length [f32_zero, f32_one, f32_zero]. f32_lt worst_logit ([f32_zero, f32_one, f32_zero] ! v)"
    using f(1) by (intro exI [of _ 1]) simp
  with argmax_kernel_greatest [OF plain_orders, of "[f32_zero, f32_one, f32_zero]"]
  have "argmaxKernel plain_cuda [f32_zero, f32_one, f32_zero] < 3" "\<not> f32_lt ([f32_zero, f32_one, f32_zero] ! argmaxKernel plain_cuda [f32_zero, f32_one, f32_zero]) f32_one"
    by (auto dest: spec [of _ 1])
  then show ?thesis using f(2) by (auto simp: less_Suc_eq numeral_3_eq_3)
qed

subsection \<open>Host wrappers\<close>

text \<open>
  What the CUDA runtime answers: whether there is a device, every allocation succeeds, the copies to the device
  and back arrive (their results are not looked at), the launch is accepted, and what memory
  holds that no copy reached.
\<close>

record 'a answers =
  an_available :: bool
  an_alloc :: bool
  an_in :: bool
  an_launch :: bool
  an_out :: bool
  an_junk :: 'a

definition cpuEmbeddingLookup :: "u16 list \<Rightarrow> nat \<Rightarrow> nat \<Rightarrow> f32 list option" where
  "cpuEmbeddingLookup emb tokenId hidden = map_M (\<lambda>i. map_option bf16_toF32 (rd emb (tokenId * hidden + i))) [0..<hidden]"

definition cpuMatvecBf16 :: "u16 list \<Rightarrow> f32 list \<Rightarrow> nat \<Rightarrow> nat \<Rightarrow> f32 list option" where
  "cpuMatvecBf16 W x M K =
     map_M (\<lambda>row. run_steps (\<lambda>k acc. do { w \<leftarrow> rd W (row * K + k); v \<leftarrow> rd x k; Some (f32_add acc (f32_mul (bf16_toF32 w) v)) })
       [0..<K] f32_zero) [0..<M]"

definition cpuSoftmax :: "libm \<Rightarrow> f32 list \<Rightarrow> f32 list option" where
  "cpuSoftmax m x =
     (if x = [] then None
      else let mx = foldl fmaxf (hd x) (tl x);
               es = map (\<lambda>v. lm_exp m (f32_sub v mx)) x;
               inv = f32_div f32_one (foldl f32_add f32_zero es)
           in Some (map (\<lambda>e. f32_mul e inv) es))"

definition cpuArgmax :: "f32 list \<Rightarrow> nat" where
  "cpuArgmax x = foldl (\<lambda>best i. if f32_lt (x ! best) (x ! i) then i else best) 0 [1..<length x]"

definition gpuEmbeddingLookup :: "u16 list answers \<Rightarrow> u16 list \<Rightarrow> nat \<Rightarrow> f32 list \<Rightarrow> nat \<Rightarrow> f32 list option" where
  "gpuEmbeddingLookup an emb tokenId out hidden =
     (if \<not> an_available an \<or> \<not> an_alloc an \<or> \<not> an_launch an then cpuEmbeddingLookup emb tokenId hidden
      else do {
        rows \<leftarrow> (if length emb < (tokenId + 1) * hidden then None else Some (take ((tokenId + 1) * hidden) emb));
        r \<leftarrow> embeddingGather (if an_in an then rows else an_junk an) tokenId hidden (replicate hidden f32_zero);
        Some (if an_out an then r else out)
      })"

definition gpuMatvecBf16 :: "cuda \<Rightarrow> (u16 list \<times> f32 list) answers \<Rightarrow> u16 list \<Rightarrow> f32 list \<Rightarrow> f32 list \<Rightarrow> nat \<Rightarrow> nat \<Rightarrow> f32 list option" where
  "gpuMatvecBf16 c an W x y M K =
     (if \<not> an_available an \<or> \<not> an_alloc an \<or> \<not> an_launch an then cpuMatvecBf16 W x M K
      else if length W < M * K \<or> length x < K then None
      else do {
        r \<leftarrow> (case (if an_in an then (take (M * K) W, take K x) else an_junk an) of (dW, dX) \<Rightarrow> matvec c dW dX M K);
        Some (if an_out an then r else y)
      })"

definition gpuSoftmax :: "cuda \<Rightarrow> libm \<Rightarrow> f32 list answers \<Rightarrow> f32 list \<Rightarrow> f32 list option" where
  "gpuSoftmax c m an x =
     (if \<not> an_available an \<or> \<not> an_alloc an \<or> \<not> an_launch an then cpuSoftmax m x
      else let r = softmaxKernel c (if an_in an then x else an_junk an) in Some (if an_out an then r else x))"

definition gpuArgmax :: "cuda \<Rightarrow> f32 list answers \<Rightarrow> f32 list \<Rightarrow> int" where
  "gpuArgmax c an x =
     (if \<not> an_available an \<or> \<not> an_alloc an \<or> \<not> an_launch an then int (cpuArgmax x)
      else if an_out an then int (argmaxKernel c (if an_in an then x else an_junk an)) else - 1)"

text \<open>Equal elements: with two threads, or 256, the device does not take the first as the host does.\<close>

lemma device_ties_differ:
  "snd (block_reduce argmax_merge (\<lambda>_. [0..<2]) 1 (map (\<lambda>tid. local_best [f32_zero, f32_one, f32_one] (strided 2 3 tid)) [0..<2]) ! 0) = 2 \<and>
   cpuArgmax [f32_zero, f32_one, f32_one] = 1"
  by code_simp

end
