(* ===== verification/Spec2Isabelle.thy ===== *)
theory Spec2Isabelle
  imports LruCache Placement KvCache BFloat16 MoeRouter RuntimeConfig ModelConfig SafeTensors MappedFile IoReader
    WeightIndex TensorNames InferenceStats ReadRuns WarmReads SchedHistory
    TokenizerProofs SamplerProofs CpuKernels GpuCacheProofs ForwardProofs FwdPipeline FwdSafety
    PyBridge PyBridgeWin HostProbe CliArgs WeightCheck GlmMain CudaKernels
begin

text \<open>
  HummingFlight runs a mixture-of-experts language model (GLM) whose weights do not fit into memory. A
  prompt becomes token numbers in \<open>src/tokenizer\<close>; \<open>src/model\<close> reads the configuration and the
  safetensors headers, remembers where every tensor lies, and computes the forward pass; the weights of
  the experts come from the disk through \<open>src/storage\<close> (mapped files, an asynchronous reader, an LRU
  cache) under the control of \<open>src/engine\<close> (scheduler, placement, KV cache, telemetry); the arithmetic
  is in \<open>src/compute\<close>, with an optional window of experts on a CUDA device; \<open>src/runtime\<close> chooses the
  budgets for the machine; \<open>src/main.cpp\<close> reads the command line, puts the parts together and generates. The paths below are those of the repository's \<open>src\<close> directory.

  \<^bold>\<open>Conventions.\<close> A C++ structure is a record with the fields of the source, a machine integer that
  may wrap is a word, an \<open>int\<close> whose overflow is undefined is an \<open>int\<close> with its range checked. An
  operation takes the state and returns it updated. \<^const>\<open>None\<close> as the result of an operation is undefined
  behaviour or an uncaught exception: an access outside a buffer, a signed overflow, a failed allocation of a
  negative size. So a theorem whose conclusion is that a result is \<^const>\<open>Some\<close> says that the code runs to
  its end without any of these. Errors that the code handles are ordinary values. Floats are the bit
  patterns of IEEE binary32 with correctly rounded operations (\<open>Float32\<close>), in the order in which the code
  applies them; no contraction of a product and a sum into one operation is assumed where the source has two.
  A loop of the code is structural recursion, a fold or a \<open>function\<close> with a measure: none of them takes fuel,
  and the one loop of the code that has no bound of its own, generation until the end-of-sequence token, ends because the
  engine refuses a sequence that no longer fits an \<open>int\<close>.
  Waiting on another thread is a schedule: the list of the steps other threads make before the next poll.

  \<^bold>\<open>Theories, from the bottom.\<close>
  \<^item> \<open>Prelude\<close>, \<open>StdAlgo\<close>, \<open>StdString\<close>, \<open>Json\<close>: checked reads, writes and copies, \<open>run_steps\<close> (a loop
    that may fail), what the code uses of \<open><algorithm>\<close> and of \<open>std::string\<close>, the values picojson yields.
  \<^item> \<open>Float32\<close>, \<open>BFloat16\<close> (\<open>compute/dtype_bf16.h\<close>): binary32 arithmetic, conversions to and from
    bfloat16 and their rounding.
  \<^item> \<open>CpuKernels\<close> (\<open>compute/cpu_kernels.cpp\<close>): products, activations, softmax, in the AVX2 and the scalar
    branch; the vectorised loops agree with each other bit for bit.
  \<^item> \<open>LruCache\<close> (\<open>storage/lru_cache.h\<close>): the byte-counted cache with pins and prefetch marks; its
    invariant, eviction order, admission, protection of pinned entries, and that a hit returns the source's bytes.
  \<^item> \<open>MappedFile\<close>, \<open>IoReader\<close> (\<open>storage/mapped_file.h\<close>, \<open>mmap_*.cpp\<close>, \<open>iocp_reader*.cpp\<close>): the
    mappings and their release; the queue of reads with its worker steps, waiting, and completion.
  \<^item> \<open>ModelConfig\<close>, \<open>SafeTensors\<close>, \<open>WeightIndex\<close>, \<open>TensorNames\<close> (\<open>model/config\<close>, \<open>safetensors\<close>,
    \<open>weight_index\<close>): hyperparameters, the header check, the table of tensor locations, the dispatch on names.
  \<^item> \<open>Placement\<close>, \<open>InferenceStats\<close>, \<open>KvCache\<close> (\<open>engine/\<close>): expert popularity, counters, and the growing
    key/value cache refined to a function from layer, head and position to vectors.
  \<^item> \<open>Scheduler\<close>, \<open>ReadRuns\<close>, \<open>WarmReads\<close>, \<open>ExpertStaging\<close>, \<open>SchedHistory\<close> (\<open>engine/scheduler.cpp\<close>):
    reads of experts split into slices, coalesced runs, delivery by racing workers, the getters; the staging
    invariant under every interleaving, and what the getters return.
  \<^item> \<open>MoeRouter\<close> (\<open>compute/moe_router.h\<close>): the expert selection and its weights.
  \<^item> \<open>GpuCache\<close>, \<open>GpuCacheProofs\<close> (\<open>compute/cuda_backend.cpp\<close>): the VRAM window, its pinned staging
    slots and the copy stream as a queue of copies that execute later; refined to an LRU list.
  \<^item> \<open>Forward\<close>, \<open>ForwardProofs\<close>, \<open>FwdPipeline\<close>, \<open>FwdSafety\<close> (\<open>model/glm_forward.cpp\<close>): the forward pass
    over all the components above; what its selections choose, that the storage pipeline does not change
    a bit of the result, and that it stays inside its buffers.
  \<^item> \<open>UnicodeRuns\<close>, \<open>Utf8\<close>, \<open>Tokenizer\<close>, \<open>TokenizerLoad\<close>, \<open>TokenizerProofs\<close> (\<open>tokenizer/\<close>): the
    character classes, the byte level, the byte-pair encoder and its round trip.
  \<^item> \<open>Sampler\<close>, \<open>SamplerProofs\<close> (\<open>compute/sampler.h\<close>): the logits filters and the draw.
  \<^item> \<open>RuntimeConfig\<close>, \<open>HostProbe\<close> (\<open>runtime/runtime_config.cpp\<close>): the probes of the host on the three
    platforms, environment overrides and the adaptive budgets; the probes end inside their buffers.
  \<^item> \<open>PyBridge\<close>, \<open>PyBridgeWin\<close> (\<open>tokenizer/subprocess_json.h\<close>, \<open>python_tokenizer*.cpp\<close>,
    \<open>utils/json_util.h\<close>): the line protocol with the Python tokenizer, its escaping and its process; what is
    sent is what the child reads, the ids that come back are those it sent, and which handles are closed.
  \<^item> \<open>CudaKernels\<close> (\<open>compute/cuda_kernels.cu\<close>, the wrappers of \<open>cuda_backend.cpp\<close>): every kernel for every
    order of the threads between two barriers; the tree reductions lose and repeat nothing.
  \<^item> \<open>WeightCheck\<close> (\<open>self_test.cpp\<close>, \<open>validateWeights\<close>): the check of a checkpoint, and what passing it gives the
    forward pass.
  \<^item> \<open>CliArgs\<close>, \<open>GlmMain\<close> (\<open>main.cpp\<close>): the command line, written and read back, and the whole program over all
    the parts above: it ends, with which tokens, and it refuses what it cannot honour.

  \<^bold>\<open>Interfaces.\<close> A locale states what one part relies on in another, and each is interpreted on the model
  of the part that provides it; the properties rest on the interpreted facts. The state machines (the
  reader, the scheduler, the LRU cache, the KV cache, the VRAM window) are lists of operations with a
  run function or step relations, and their invariants are proved by induction on the history.

  \<^bold>\<open>Parameters.\<close> picojson's parser, the file system, \<open>libm\<close>, the answers of the operating system and of the
  CUDA runtime, the Python child process, the partial sorts of the standard library (whose order among equivalent
  elements is unspecified), the random source, the dealing of loops to OpenMP threads, the order of the threads of a CUDA block
  and the scheduling of worker threads are arguments; a property that needs a law of one of them, for instance
  that a sort permutes, has it as a hypothesis and a witness on a concrete instance.

  \<^bold>\<open>Not modelled.\<close> \<open>utils/logger\<close> and \<open>utils/timer.h\<close> only write diagnostics; the log lines, usage text and
  summaries elsewhere are left out with them. \<open>third_party/picojson.h\<close> is third-party code. The self tests of
  \<open>self_test.cpp\<close>, the CUDA parity test, \<open>tests/\<close>, the benchmarks and the Python scripts drive the program from
  outside. Of \<open>main.cpp\<close> the console setup, the Windows crash handler and the conversion of the command line to UTF-8 are
  left out, of \<open>cuda_backend.cpp\<close> the device queries, which set and read one flag.
\<close>

end
